(* ===== verification/Prelude.thy ===== *)
theory Prelude
  imports Main "HOL-Library.Word" "HOL-Library.Char_ord" "HOL-Library.List_Lexorder" "HOL-Library.AList"
begin

text \<open>
  Shared vocabulary of the development: JavaScript strings as lists of UTF-16 code units,
  canonical decimal strings and the BigInt arithmetic the stores do on them, safe integers,
  insertion-ordered maps (the JavaScript Map), results that may be a thrown error, and the
  lemma collections the component theories rely on.
\<close>

unbundle bit_operations_syntax

named_theorems result_simps \<open>equations that push a thrown error through a sequence of calls\<close>
named_theorems js_map_simps \<open>lookups and key lists of insertion-ordered maps\<close>

section \<open>Thrown errors as values\<close>

text \<open>
  The error classes the modelled packages throw. A class that carries a code keeps it;
  messages are left out. \<open>SyntaxErr\<close> is what the BigInt constructor throws on a string that
  is not a number.
\<close>

datatype js_error =
    TypeErr | RangeErr | SyntaxErr
  | InvalidJsonValue | JsonTooDeep | JsonTooLarge
  | ProtocolValidation string
  | ActionIntentConflict | ActionNotFound | ActionClaimConflict | ActionStateConflict
  | ActionGoalProjectionCapacity | ActionProtocolValidation
  | ActionApprovalConflict | ActionApprovalNotFound
  | RunAuthorityClosed | RunAuthorityConflict | WrongExpectedRevision
  | MailboxValidation string | MailboxConflict | MailboxNotFound | MailboxRevisionConflict
  | MailboxTerminal | MailboxCapacity string | MailboxLeaseConflict | MailboxOrderConflict
  | WorkAuthorityRetired | WorkAuthorityRetirementConflict
  | GoalValidation string | GoalNotFound | GoalConflict | GoalRevisionConflict | GoalCapacity | GoalEvidenceRejected
  | GoalAuthorityRetired | GoalAuthorityRetirementConflict | Aborted
  | PngInspection string
  | SignalValidation string | SignalConflict | SignalWaitConflict | SignalWaitNotFound | SignalWaitRevisionConflict
  | SignalWaitTerminal | SignalWaitFanout

type_synonym 'a result = "js_error + 'a"

fun rbind :: "'e + 'a \<Rightarrow> ('a \<Rightarrow> 'e + 'b) \<Rightarrow> 'e + 'b" where
  "rbind (Inl e) f = Inl e"
| "rbind (Inr x) f = f x"

lemma rbind_cong [fundef_cong]:
  "m = m' \<Longrightarrow> (\<And>x. m' = Inr x \<Longrightarrow> f x = g x) \<Longrightarrow> rbind m f = rbind m' g"
  by (cases m') auto

lemma rbind_assoc [simp]: "rbind (rbind m f) g = rbind m (\<lambda>x. rbind (f x) g)"
  by (cases m) auto

lemma rbind_return [simp]: "rbind m Inr = m"
  by (cases m) auto

definition ensure :: "bool \<Rightarrow> 'e \<Rightarrow> 'e + unit" where
  "ensure b e = (if b then Inr () else Inl e)"

text \<open>A check made on every element in order; the first failure is the one thrown.\<close>

fun check_all :: "('a \<Rightarrow> 'e + unit) \<Rightarrow> 'a list \<Rightarrow> 'e + unit" where
  "check_all f [] = Inr ()"
| "check_all f (x # xs) = rbind (f x) (\<lambda>_. check_all f xs)"

lemma rbind_eq_Inr [result_simps]: "rbind m f = Inr y \<longleftrightarrow> (\<exists>x. m = Inr x \<and> f x = Inr y)"
  by (cases m) auto

lemma rbind_eq_Inl [result_simps]:
  "rbind m f = Inl e \<longleftrightarrow> m = Inl e \<or> (\<exists>x. m = Inr x \<and> f x = Inl e)"
  by (cases m) auto

lemma ensure_eq_Inr [result_simps, simp]: "ensure b e = Inr u \<longleftrightarrow> b"
  by (simp add: ensure_def)

lemma ensure_eq_Inl [result_simps, simp]: "ensure b e = Inl e' \<longleftrightarrow> \<not> b \<and> e' = e"
  by (auto simp: ensure_def)

lemma ensure_True [simp]: "ensure True e = Inr ()"
  and ensure_False [simp]: "ensure False e = Inl e"
  by (simp_all add: ensure_def)

lemma check_all_eq_Inr [result_simps]: "check_all f xs = Inr u \<longleftrightarrow> (\<forall>x \<in> set xs. f x = Inr ())"
  by (induction xs) (auto simp: rbind_eq_Inr)

lemma check_all_append: "check_all f (xs @ ys) = rbind (check_all f xs) (\<lambda>_. check_all f ys)"
proof (induction xs)
  case (Cons x xs)
  then show ?case by (cases "f x") auto
qed simp

text \<open>A mapping whose function may throw: the first throw is the result.\<close>

fun map_checked :: "('a \<Rightarrow> 'e + 'b) \<Rightarrow> 'a list \<Rightarrow> 'e + 'b list" where
  "map_checked f [] = Inr []"
| "map_checked f (x # xs) = rbind (f x) (\<lambda>y. rbind (map_checked f xs) (\<lambda>ys. Inr (y # ys)))"

lemma map_checked_Inr: "map_checked f xs = Inr ys \<longleftrightarrow> list_all2 (\<lambda>x y. f x = Inr y) xs ys"
  by (induction xs arbitrary: ys) (auto simp: rbind_eq_Inr list_all2_Cons1)

lemma map_checked_total: "(\<And>x. x \<in> set xs \<Longrightarrow> f x = Inr (g x)) \<Longrightarrow> map_checked f xs = Inr (map g xs)"
  by (induction xs) auto

text \<open>
  An operation on a state whose checks may throw: the state is returned as it stands when the
  error is thrown, so the writes made before it stay.
\<close>

definition commit :: "'s \<Rightarrow> 'e + 'a \<Rightarrow> ('a \<Rightarrow> 's \<times> ('e + 'b)) \<Rightarrow> 's \<times> ('e + 'b)" where
  "commit s r f = (case r of Inl e \<Rightarrow> (s, Inl e) | Inr x \<Rightarrow> f x)"

lemma commit_simps [simp]: "commit s (Inl e) f = (s, Inl e)" "commit s (Inr x) f = f x"
  by (simp_all add: commit_def)

lemma commit_cases:
  assumes "commit s r f = (s', out)"
  obtains e where "r = Inl e" "s' = s" "out = Inl e" | x where "r = Inr x" "f x = (s', out)"
  using assms by (cases r) auto

lemma commit_eq_Inr [result_simps]: "commit s r f = (s', Inr y) \<longleftrightarrow> (\<exists>x. r = Inr x \<and> f x = (s', Inr y))"
  by (cases r) auto

lemma commit_invariant: "I s \<Longrightarrow> (\<And>x. r = Inr x \<Longrightarrow> I (fst (f x))) \<Longrightarrow> I (fst (commit s r f))"
  by (cases r) auto

lemma commit_cong [fundef_cong]: "s = s' \<Longrightarrow> r = r' \<Longrightarrow> (\<And>x. r' = Inr x \<Longrightarrow> f x = g x) \<Longrightarrow> commit s r f = commit s' r' g"
  by (cases r') auto

section \<open>JavaScript strings\<close>

type_synonym js_unit = "16 word"
type_synonym js_string = "16 word list"

text \<open>A source literal in ASCII, as the code units it denotes.\<close>

definition js :: "string \<Rightarrow> js_string" where
  "js s = map of_char s"

lemma unat_of_char_unit [simp]: "unat (of_char c :: js_unit) = of_char c"
proof -
  have "(of_char c :: nat) < 2 ^ LENGTH(16)"
    by (rule less_le_trans [OF nat_of_char_less_256]) simp
  then have "unat (of_nat (of_char c) :: js_unit) = of_char c"
    by (simp only: unat_of_nat mod_less)
  then show ?thesis by (simp only: of_nat_of_char)
qed

lemma of_char_unit_inject [simp]: "(of_char c :: js_unit) = of_char d \<longleftrightarrow> c = d"
  by (metis of_char_eq_iff unat_of_char_unit)

lemma js_inject [simp]: "js s = js t \<longleftrightarrow> s = t"
  unfolding js_def by (rule inj_map_eq_map) (auto simp: inj_def)

lemma js_Nil [simp]: "js [] = []" and js_eq_Nil [simp]: "js s = [] \<longleftrightarrow> s = []"
  by (simp_all add: js_def)

section \<open>JavaScript integers\<close>

text \<open>
  Every number the modelled code computes with is guarded by \<open>Number.isSafeInteger\<close>: a safe
  integer is modelled exactly, and a fraction, NaN or infinity meets the same guard as an
  integer out of range, so \<open>int\<close> represents both outcomes of the guard.
\<close>

definition max_safe_integer :: int where
  "max_safe_integer = 9007199254740991"

definition is_safe_integer :: "int \<Rightarrow> bool" where
  "is_safe_integer n \<longleftrightarrow> - max_safe_integer \<le> n \<and> n \<le> max_safe_integer"

definition is_positive_safe_integer :: "int \<Rightarrow> bool" where
  "is_positive_safe_integer n \<longleftrightarrow> is_safe_integer n \<and> 0 < n"

lemma is_positive_safe_integerD: "is_positive_safe_integer n \<Longrightarrow> 0 < n"
  by (simp add: is_positive_safe_integer_def)

section \<open>Canonical decimal strings\<close>

text \<open>
  Revisions, attempts and generations are strings that match \<open>/^(0|[1-9][0-9]*)$/u\<close>; the code
  computes on them with BigInt. \<open>to_decimal\<close> is \<open>BigInt.prototype.toString\<close> on a
  non-negative value and \<open>of_decimal\<close> its inverse on canonical strings.
\<close>

definition digit_unit :: "nat \<Rightarrow> js_unit" where
  "digit_unit d = of_nat (48 + d)"

definition is_digit :: "js_unit \<Rightarrow> bool" where
  "is_digit c \<longleftrightarrow> 48 \<le> unat c \<and> unat c \<le> 57"

definition digit_value :: "js_unit \<Rightarrow> nat" where
  "digit_value c = unat c - 48"

fun to_decimal :: "nat \<Rightarrow> js_string" where
  "to_decimal n = (if n < 10 then [digit_unit n] else to_decimal (n div 10) @ [digit_unit (n mod 10)])"

declare to_decimal.simps [simp del]

definition of_decimal :: "js_string \<Rightarrow> nat" where
  "of_decimal s = foldl (\<lambda>acc c. 10 * acc + digit_value c) 0 s"

text \<open>\<open>/^[1-9][0-9]*$/u\<close> and \<open>/^(0|[1-9][0-9]*)$/u\<close>.\<close>

definition is_positive_decimal :: "js_string \<Rightarrow> bool" where
  "is_positive_decimal s \<longleftrightarrow> s \<noteq> [] \<and> list_all is_digit s \<and> unat (hd s) \<noteq> 48"

definition is_decimal :: "js_string \<Rightarrow> bool" where
  "is_decimal s \<longleftrightarrow> s = js ''0'' \<or> is_positive_decimal s"

lemma unat_digit_unit [simp]: "d < 10 \<Longrightarrow> unat (digit_unit d) = 48 + d"
  by (simp only: digit_unit_def unat_of_nat) simp

lemma is_digit_digit_unit [simp]: "d < 10 \<Longrightarrow> is_digit (digit_unit d)"
  by (simp add: is_digit_def)

lemma digit_value_digit_unit [simp]: "d < 10 \<Longrightarrow> digit_value (digit_unit d) = d"
  by (simp add: digit_value_def)

lemma digit_unit_digit_value: "is_digit c \<Longrightarrow> digit_unit (digit_value c) = c"
  by (simp add: is_digit_def digit_value_def digit_unit_def word_unat_eq_iff unat_of_nat)

lemma digit_value_less: "is_digit c \<Longrightarrow> digit_value c < 10"
  unfolding is_digit_def digit_value_def by arith

lemma of_decimal_snoc [simp]: "of_decimal (s @ [c]) = 10 * of_decimal s + digit_value c"
  by (simp add: of_decimal_def)

lemma of_decimal_Nil [simp]: "of_decimal [] = 0"
  by (simp add: of_decimal_def)

lemma to_decimal_nonempty [simp]: "to_decimal n \<noteq> []"
  by (subst to_decimal.simps) simp

lemma of_to_decimal [simp]: "of_decimal (to_decimal n) = n"
proof (induction n rule: to_decimal.induct)
  case (1 n)
  show ?case
  proof (cases "n < 10")
    case True
    then show ?thesis
      using of_decimal_snoc [of "[]" "digit_unit n"] by (simp add: to_decimal.simps [of n])
  next
    case False
    with "1.IH" show ?thesis by (simp add: to_decimal.simps [of n])
  qed
qed

lemma to_decimal_inject [simp]: "to_decimal m = to_decimal n \<longleftrightarrow> m = n"
  by (metis of_to_decimal)

lemma list_all_to_decimal: "list_all is_digit (to_decimal n)"
proof (induction n rule: to_decimal.induct)
  case (1 n)
  then show ?case by (cases "n < 10") (simp_all add: to_decimal.simps [of n])
qed

lemma hd_to_decimal: "0 < n \<Longrightarrow> unat (hd (to_decimal n)) \<noteq> 48"
proof (induction n rule: to_decimal.induct)
  case (1 n)
  show ?case
  proof (cases "n < 10")
    case True
    with "1.prems" show ?thesis by (simp add: to_decimal.simps [of n])
  next
    case False
    then have "0 < n div 10" by simp
    with "1.IH" False have "unat (hd (to_decimal (n div 10))) \<noteq> 48" by simp
    with False show ?thesis by (simp add: to_decimal.simps [of n])
  qed
qed

lemma to_decimal_0: "to_decimal 0 = js ''0''"
  by (simp add: to_decimal.simps [of 0] js_def digit_unit_def)

lemma is_positive_decimal_to_decimal [simp]: "is_positive_decimal (to_decimal n) \<longleftrightarrow> 0 < n"
proof (cases "n = 0")
  case True
  then show ?thesis
    by (simp add: is_positive_decimal_def to_decimal.simps [of 0])
next
  case False
  then show ?thesis by (simp add: is_positive_decimal_def list_all_to_decimal hd_to_decimal)
qed

lemma is_decimal_to_decimal [simp]: "is_decimal (to_decimal n)"
  by (cases "n = 0") (simp_all add: is_decimal_def to_decimal_0)

text \<open>A digit string with no leading zero is the decimal form of its own value.\<close>

lemma to_of_positive_decimal: "is_positive_decimal s \<Longrightarrow> 0 < of_decimal s \<and> to_decimal (of_decimal s) = s"
proof (induction s rule: rev_induct)
  case Nil
  then show ?case by (simp add: is_positive_decimal_def)
next
  case (snoc c s)
  from snoc.prems have c: "is_digit c" by (simp add: is_positive_decimal_def)
  show ?case
  proof (cases "s = []")
    case True
    with snoc.prems c have "0 < digit_value c"
      by (simp add: is_positive_decimal_def is_digit_def digit_value_def)
    with True c show ?thesis
      using of_decimal_snoc [of "[]" c]
      by (simp add: to_decimal.simps [of "digit_value c"] digit_value_less digit_unit_digit_value)
  next
    case False
    with snoc.prems have "is_positive_decimal s" by (simp add: is_positive_decimal_def)
    with snoc.IH have pos: "0 < of_decimal s" and eq: "to_decimal (of_decimal s) = s" by blast+
    let ?n = "10 * of_decimal s + digit_value c"
    have "?n div 10 = of_decimal s" and "?n mod 10 = digit_value c" and "\<not> ?n < 10"
      using pos digit_value_less [OF c] by auto
    with eq c pos show ?thesis by (simp add: to_decimal.simps [of ?n] digit_unit_digit_value)
  qed
qed

lemma to_of_decimal: "is_decimal s \<Longrightarrow> to_decimal (of_decimal s) = s"
  using to_of_positive_decimal to_decimal_0 of_to_decimal [of 0]
  by (fastforce simp: is_decimal_def)

lemma of_decimal_inject:
  "is_decimal s \<Longrightarrow> is_decimal t \<Longrightarrow> of_decimal s = of_decimal t \<longleftrightarrow> s = t"
  by (metis to_of_decimal)

lemma is_positive_decimal_is_decimal: "is_positive_decimal s \<Longrightarrow> is_decimal s"
  by (simp add: is_decimal_def)

text \<open>
  The BigInt constructor on a string. Every string the stores hand it is a checked decimal; a
  string with any other character is modelled as rejected.
\<close>

definition parse_bigint :: "js_string \<Rightarrow> nat result" where
  "parse_bigint s = (if list_all is_digit s then Inr (of_decimal s) else Inl SyntaxErr)"

lemma parse_bigint_decimal [simp]: "is_decimal s \<Longrightarrow> parse_bigint s = Inr (of_decimal s)"
  using list_all_to_decimal [of 0]
  by (auto simp: parse_bigint_def is_decimal_def is_positive_decimal_def to_decimal_0)

text \<open>\<open>(BigInt(s) + 1n).toString()\<close>\<close>

definition bigint_succ :: "js_string \<Rightarrow> js_string result" where
  "bigint_succ s = rbind (parse_bigint s) (\<lambda>n. Inr (to_decimal (Suc n)))"

lemma bigint_succ_decimal [simp]:
  "is_decimal s \<Longrightarrow> bigint_succ s = Inr (to_decimal (Suc (of_decimal s)))"
  by (simp add: bigint_succ_def)

end
