(* ===== verification/Js_Map.thy ===== *)
theory Js_Map
  imports Prelude
begin

text \<open>
  The JavaScript Map: an association list in insertion order with distinct keys. Setting a
  present key keeps its position, a new key goes last, deleting closes the gap, and iteration
  follows the list. The stores of the program iterate their maps, so the order is part of the
  model. \<open>keyed_store\<close> is the interface the store proofs use.
\<close>

type_synonym ('k, 'v) js_map = "('k \<times> 'v) list"

definition js_get :: "('k, 'v) js_map \<Rightarrow> 'k \<Rightarrow> 'v option" where
  "js_get m k = map_of m k"

definition js_set :: "'k \<Rightarrow> 'v \<Rightarrow> ('k, 'v) js_map \<Rightarrow> ('k, 'v) js_map" where
  "js_set k v m = AList.update k v m"

definition js_delete :: "'k \<Rightarrow> ('k, 'v) js_map \<Rightarrow> ('k, 'v) js_map" where
  "js_delete k m = AList.delete k m"

definition js_has :: "('k, 'v) js_map \<Rightarrow> 'k \<Rightarrow> bool" where
  "js_has m k \<longleftrightarrow> js_get m k \<noteq> None"

definition js_values :: "('k, 'v) js_map \<Rightarrow> 'v list" where
  "js_values m = map snd m"

definition js_keys :: "('k, 'v) js_map \<Rightarrow> 'k list" where
  "js_keys m = map fst m"

abbreviation js_ok :: "('k, 'v) js_map \<Rightarrow> bool" where
  "js_ok m \<equiv> distinct (js_keys m)"

section \<open>The interface of a keyed store\<close>

text \<open>
  What the stores rely on: a lookup sees the last write, and the entries a traversal yields are
  exactly the ones a lookup finds.
\<close>

locale keyed_store =
  fixes get :: "'m \<Rightarrow> 'k \<Rightarrow> 'v option"
    and put :: "'k \<Rightarrow> 'v \<Rightarrow> 'm \<Rightarrow> 'm"
    and del :: "'k \<Rightarrow> 'm \<Rightarrow> 'm"
    and entries :: "'m \<Rightarrow> ('k \<times> 'v) list"
    and ok :: "'m \<Rightarrow> bool"
  assumes get_put: "get (put k v m) = (get m)(k \<mapsto> v)"
    and get_del: "get (del k m) = (get m)(k := None)"
    and ok_put: "ok m \<Longrightarrow> ok (put k v m)"
    and ok_del: "ok m \<Longrightarrow> ok (del k m)"
    and entries_get: "ok m \<Longrightarrow> (k, v) \<in> set (entries m) \<longleftrightarrow> get m k = Some v"
    and entries_distinct: "ok m \<Longrightarrow> distinct (map fst (entries m))"
begin

lemma get_put_same [simp]: "get (put k v m) k = Some v"
  by (simp add: get_put)

lemma get_put_other [simp]: "k' \<noteq> k \<Longrightarrow> get (put k v m) k' = get m k'"
  by (simp add: get_put)

text \<open>An invariant of every entry survives a write of an entry that satisfies it.\<close>

lemma all_entries_put:
  assumes "ok m" and "\<forall>(k, v) \<in> set (entries m). P k v" and "P k' v'"
  shows "\<forall>(k, v) \<in> set (entries (put k' v' m)). P k v"
  using assms by (auto simp: entries_get ok_put get_put split: if_splits)

lemma all_entries_del:
  assumes "ok m" and "\<forall>(k, v) \<in> set (entries m). P k v"
  shows "\<forall>(k, v) \<in> set (entries (del k' m)). P k v"
  using assms by (auto simp: entries_get ok_del get_del split: if_splits)

lemma ok_fold_put: "ok m \<Longrightarrow> ok (fold (\<lambda>x. put (f x) (g x)) xs m)"
  by (induction xs arbitrary: m) (auto intro: ok_put)

lemma ok_fold_del: "ok m \<Longrightarrow> ok (fold del ks m)"
  by (induction ks arbitrary: m) (auto intro: ok_del)

lemma get_fold_del: "get (fold del ks m) k = (if k \<in> set ks then None else get m k)"
  by (induction ks arbitrary: m) (auto simp: get_del)

lemma get_fold_put_other: "k \<notin> f ` set xs \<Longrightarrow> get (fold (\<lambda>x. put (f x) (g x)) xs m) k = get m k"
  by (induction xs arbitrary: m) (auto simp: get_put)

lemma get_fold_put:
  assumes "distinct (map f xs)" and "x \<in> set xs"
  shows "get (fold (\<lambda>x. put (f x) (g x)) xs m) (f x) = Some (g x)"
  using assms
proof (induction xs arbitrary: m)
  case (Cons y ys)
  show ?case
  proof (cases "x \<in> set ys")
    case True
    with Cons show ?thesis by auto
  next
    case False
    with Cons.prems have "x = y" and "f x \<notin> f ` set ys" by auto
    then show ?thesis using get_fold_put_other [of "f x" f ys g "put (f y) (g y) m"] by simp
  qed
qed simp

end

section \<open>Laws of the JavaScript Map\<close>

lemma js_get_set [js_map_simps]: "js_get (js_set k v m) = (js_get m)(k \<mapsto> v)"
  by (simp add: js_get_def js_set_def update_conv' fun_eq_iff)

lemma js_get_delete [js_map_simps]: "js_get (js_delete k m) = (js_get m)(k := None)"
  by (simp add: js_get_def js_delete_def delete_conv' fun_eq_iff)

lemma js_keys_set [js_map_simps]:
  "js_keys (js_set k v m) = (if js_has m k then js_keys m else js_keys m @ [k])"
  by (simp add: js_keys_def js_set_def js_has_def js_get_def update_keys map_of_eq_None_iff)

lemma js_keys_delete [js_map_simps]: "js_keys (js_delete k m) = removeAll k (js_keys m)"
  by (simp add: js_keys_def js_delete_def delete_keys)

lemma js_has_iff: "js_has m k \<longleftrightarrow> k \<in> set (js_keys m)"
  by (simp add: js_has_def js_get_def js_keys_def map_of_eq_None_iff)

lemma js_get_entry: "js_ok m \<Longrightarrow> (k, v) \<in> set m \<longleftrightarrow> js_get m k = Some v"
  by (auto simp: js_get_def js_keys_def)

lemma js_ok_set [simp, intro]: "js_ok m \<Longrightarrow> js_ok (js_set k v m)"
  by (simp add: js_keys_set js_has_iff)

lemma js_ok_delete [simp, intro]: "js_ok m \<Longrightarrow> js_ok (js_delete k m)"
  by (simp add: js_keys_delete distinct_removeAll)

lemma js_get_empty [simp]: "js_get [] k = None" and js_keys_empty [simp]: "js_keys [] = []"
  by (simp_all add: js_get_def js_keys_def)

interpretation jm: keyed_store js_get js_set js_delete "\<lambda>m. m" js_ok
  by unfold_locales
    (auto simp: js_map_simps js_get_entry js_has_iff distinct_removeAll simp flip: js_keys_def)

lemma js_get_set_same [simp]: "js_get (js_set k v m) k = Some v"
  by (rule jm.get_put_same)

text \<open>Writing a present key replaces its value in place; a new key goes last.\<close>

lemma js_values_set_present:
  "js_get m k = Some old \<Longrightarrow>
   \<exists>xs ys. js_values m = xs @ old # ys \<and> js_values (js_set k v m) = xs @ v # ys"
proof (induction m)
  case (Cons p m)
  show ?case
  proof (cases "fst p = k")
    case True
    with Cons.prems show ?thesis
      by (intro exI [of _ "[]"] exI [of _ "map snd m"])
        (cases p, simp add: js_values_def js_set_def js_get_def)
  next
    case False
    with Cons obtain xs ys where "js_values m = xs @ old # ys" "js_values (js_set k v m) = xs @ v # ys"
      by (auto simp: js_get_def)
    with False show ?thesis
      by (intro exI [of _ "snd p # xs"] exI [of _ ys])
        (cases p, simp add: js_values_def js_set_def)
  qed
qed simp

lemma js_values_set_new: "js_get m k = None \<Longrightarrow> js_values (js_set k v m) = js_values m @ [v]"
  by (induction m) (auto simp: js_values_def js_set_def js_get_def split: if_splits)

lemma set_js_values: "js_ok m \<Longrightarrow> v \<in> set (js_values m) \<longleftrightarrow> (\<exists>k. js_get m k = Some v)"
  by (force simp: js_values_def js_get_entry [symmetric] image_iff)

lemma sorted_keys_inject:
  "sorted_wrt (<) (map f xs) \<Longrightarrow> x \<in> set xs \<Longrightarrow> y \<in> set xs \<Longrightarrow> f x = (f y :: 'b :: linorder) \<Longrightarrow> x = y"
  by (induction xs) force+

end
