(* ===== verification/Json.thy ===== *)
theory Json
  imports Js_Map "HOL-Library.Multiset"
begin

text \<open>
  packages/protocol/src/json.ts: detached JSON values, their canonical serialisation and the
  admission budgets on depth and canonical bytes. \<open>normalizeJson\<close> and
  \<open>serializeCanonicalJsonValue\<close> are the explicit-stack loops of the code; the recursive
  definitions they are compared with are the specification.

  A number is represented by the text \<open>Number.prototype.toString\<close> gives it, which identifies
  a finite double other than -0; an object is the list of its own properties in the order of
  \<open>Object.keys\<close>. The input of normalisation is the tree of an arbitrary JavaScript value: a
  property without a data descriptor (a hole or an accessor) is \<open>None\<close>, and \<open>VOther\<close> stands
  for everything the code refuses by its type: undefined, functions, symbols, BigInts, proxies
  and a reference back to an object that is still being walked.
\<close>

section \<open>Values\<close>

datatype json =
    JNull
  | JBool bool
  | JNum js_string
  | JStr js_string
  | JArr "json list"
  | JObj "(js_string \<times> json) list"

datatype js_number = Finite js_string | NegZero | NonFinite

datatype js_value =
    VNull
  | VBool bool
  | VNumber js_number
  | VString js_string
  | VArray "js_value option list"
  | VObject bool "(js_string \<times> js_value option) list" \<comment> \<open>whether the prototype is Object.prototype or null\<close>
  | VOther

record json_limits =
  maxDepth :: int
  maxBytes :: int

section \<open>Bytes of a JSON string\<close>

definition is_high :: "js_unit \<Rightarrow> bool" where
  "is_high c \<longleftrightarrow> 0xd800 \<le> c \<and> c \<le> 0xdbff"

definition is_low :: "js_unit \<Rightarrow> bool" where
  "is_low c \<longleftrightarrow> 0xdc00 \<le> c \<and> c \<le> 0xdfff"

text \<open>\<open>charCodeAt\<close> is NaN out of range, and every comparison with NaN is false.\<close>

definition char_code_at :: "js_string \<Rightarrow> int \<Rightarrow> js_unit option" where
  "char_code_at s i = (if 0 \<le> i \<and> i < int (length s) then Some (s ! nat i) else None)"

definition isSurrogatePair :: "js_string \<Rightarrow> int \<Rightarrow> bool" where
  "isSurrogatePair s i =
     (case char_code_at s i of
        None \<Rightarrow> False
      | Some u \<Rightarrow>
          if is_high u then (case char_code_at s (i + 1) of None \<Rightarrow> False | Some n \<Rightarrow> is_low n)
          else if is_low u then (case char_code_at s (i - 1) of None \<Rightarrow> False | Some p \<Rightarrow> is_high p)
          else False)"

definition is_short_escape :: "js_unit \<Rightarrow> bool" where
  "is_short_escape u \<longleftrightarrow> u = 0x22 \<or> u = 0x5c \<or> u = 0x08 \<or> u = 0x09 \<or> u = 0x0a \<or> u = 0x0c \<or> u = 0x0d"

text \<open>The loop over the code units: bytes so far, at index \<open>i\<close>.\<close>

function json_string_bytes_from :: "js_string \<Rightarrow> nat \<Rightarrow> nat \<Rightarrow> nat" where
  "json_string_bytes_from s i bytes =
     (if i < length s then
        let u = s ! i in
        if is_short_escape u then json_string_bytes_from s (Suc i) (bytes + 2)
        else if u \<le> 0x1f \<or> (0xd800 \<le> u \<and> u \<le> 0xdfff \<and> \<not> isSurrogatePair s (int i))
          then json_string_bytes_from s (Suc i) (bytes + 6)
        else if u \<le> 0x7f then json_string_bytes_from s (Suc i) (bytes + 1)
        else if u \<le> 0x7ff then json_string_bytes_from s (Suc i) (bytes + 2)
        else if 0xd800 \<le> u \<and> u \<le> 0xdbff then json_string_bytes_from s (Suc (Suc i)) (bytes + 4)
        else json_string_bytes_from s (Suc i) (bytes + 3)
      else bytes)"
  by pat_completeness auto
termination
  by (relation "measure (\<lambda>(s, i, bytes). length s - i)") auto

declare json_string_bytes_from.simps [simp del]

definition jsonStringBytes :: "js_string \<Rightarrow> nat" where
  "jsonStringBytes s = json_string_bytes_from s 0 2"

fun primitiveCanonicalBytes :: "json \<Rightarrow> nat" where
  "primitiveCanonicalBytes (JStr s) = jsonStringBytes s"
| "primitiveCanonicalBytes JNull = 4"
| "primitiveCanonicalBytes (JBool b) = (if b then 4 else 5)"
| "primitiveCanonicalBytes (JNum t) = length t"
| "primitiveCanonicalBytes (JArr _) = 0"
| "primitiveCanonicalBytes (JObj _) = 0"

section \<open>JSON.stringify on strings\<close>

text \<open>
  ECMAScript QuoteJSONString: short escapes, \<open>\u00XX\<close> for the other controls, and a lone
  surrogate as \<open>\uDXXX\<close> with lower-case hex digits.
\<close>

definition hex_digit :: "nat \<Rightarrow> js_unit" where
  "hex_digit d = of_nat (if d < 10 then 48 + d else 87 + d)"

definition unicode_escape :: "js_unit \<Rightarrow> js_string" where
  "unicode_escape c = [0x5c, 0x75, hex_digit (unat c div 4096), hex_digit (unat c div 256 mod 16),
     hex_digit (unat c div 16 mod 16), hex_digit (unat c mod 16)]"

definition short_escape :: "js_unit \<Rightarrow> js_unit" where
  "short_escape c =
     (if c = 0x08 then 0x62 else if c = 0x09 then 0x74 else if c = 0x0a then 0x6e
      else if c = 0x0c then 0x66 else if c = 0x0d then 0x72 else c)"

fun quote_body :: "js_string \<Rightarrow> js_string" where
  "quote_body [] = []"
| "quote_body [c] =
     (if is_short_escape c then [0x5c, short_escape c]
      else if c \<le> 0x1f \<or> is_high c \<or> is_low c then unicode_escape c
      else [c])"
| "quote_body (c # d # cs) =
     (if is_short_escape c then 0x5c # short_escape c # quote_body (d # cs)
      else if is_high c \<and> is_low d then c # d # quote_body cs
      else if c \<le> 0x1f \<or> is_high c \<or> is_low c then unicode_escape c @ quote_body (d # cs)
      else c # quote_body (d # cs))"

definition quote :: "js_string \<Rightarrow> js_string" where
  "quote s = 0x22 # quote_body s @ [0x22]"

text \<open>\<open>Buffer.byteLength(s, "utf8")\<close>: a lone surrogate is encoded as U+FFFD, three bytes.\<close>

fun utf8_length :: "js_string \<Rightarrow> nat" where
  "utf8_length [] = 0"
| "utf8_length [c] = (if c \<le> 0x7f then 1 else if c \<le> 0x7ff then 2 else 3)"
| "utf8_length (c # d # cs) =
     (if is_high c \<and> is_low d then 4 + utf8_length cs
      else (if c \<le> 0x7f then 1 else if c \<le> 0x7ff then 2 else 3) + utf8_length (d # cs))"

section \<open>Canonical serialisation\<close>

text \<open>\<open>JSON.stringify\<close> on a primitive.\<close>

fun stringify_primitive :: "json \<Rightarrow> js_string" where
  "stringify_primitive JNull = js ''null''"
| "stringify_primitive (JBool b) = (if b then js ''true'' else js ''false'')"
| "stringify_primitive (JNum t) = t"
| "stringify_primitive (JStr s) = quote s"
| "stringify_primitive (JArr _) = []"
| "stringify_primitive (JObj _) = []"

datatype task = TValue json | TText js_string

text \<open>The loops that push an array's or an object's tasks, last element first.\<close>

fun array_tasks :: "json list \<Rightarrow> task list" where
  "array_tasks [] = []"
| "array_tasks [x] = [TValue x]"
| "array_tasks (x # y # xs) = TValue x # TText (js '','') # array_tasks (y # xs)"

fun member_tasks :: "(js_string \<times> json) list \<Rightarrow> task list" where
  "member_tasks [] = []"
| "member_tasks [(k, x)] = [TText (quote k), TText (js '':''), TValue x]"
| "member_tasks ((k, x) # y # xs) =
     TText (quote k) # TText (js '':'') # TValue x # TText (js '','') # member_tasks (y # xs)"

text \<open>\<open>Object.keys(current).sort()\<close>, then \<open>current[key]\<close> for each key.\<close>

definition sorted_members :: "(js_string \<times> json) list \<Rightarrow> (js_string \<times> json) list" where
  "sorted_members kvs = sort_key fst kvs"

fun json_weight :: "json \<Rightarrow> nat" where
  "json_weight (JArr xs) = 3 + sum_list (map json_weight xs) + length xs"
| "json_weight (JObj kvs) = 3 + sum_list (map (\<lambda>(k, x). json_weight x + 3) kvs)"
| "json_weight _ = 1"

fun task_weight :: "task \<Rightarrow> nat" where
  "task_weight (TValue v) = json_weight v"
| "task_weight (TText t) = 1"

lemma array_tasks_weight:
  "sum_list (map task_weight (array_tasks xs)) < 1 + sum_list (map json_weight xs) + length xs"
  by (induction xs rule: array_tasks.induct) auto

lemma member_tasks_weight:
  "sum_list (map task_weight (member_tasks kvs)) < 1 + sum_list (map (\<lambda>(k, x). json_weight x + 3) kvs)"
  by (induction kvs rule: member_tasks.induct) auto

lemma sum_sorted_members:
  fixes f :: "js_string \<times> json \<Rightarrow> nat"
  shows "sum_list (map f (sorted_members kvs)) = sum_list (map f kvs)"
proof -
  have "mset (sorted_members kvs) = mset kvs" by (simp add: sorted_members_def)
  then have "sum_mset (image_mset f (mset (sorted_members kvs))) = sum_mset (image_mset f (mset kvs))"
    by simp
  then show ?thesis by (simp add: sum_mset_sum_list flip: mset_map)
qed

text \<open>\<open>serializeCanonicalJsonValue\<close>: the task stack (its top first) and the chunks written so far.\<close>

function run_tasks :: "task list \<Rightarrow> js_string list \<Rightarrow> js_string" where
  "run_tasks [] chunks = concat chunks"
| "run_tasks (TText t # ts) chunks = run_tasks ts (chunks @ [t])"
| "run_tasks (TValue v # ts) chunks =
     (case v of
        JArr xs \<Rightarrow> run_tasks (TText (js ''['') # array_tasks xs @ TText (js '']'') # ts) chunks
      | JObj kvs \<Rightarrow>
          run_tasks (TText (js ''{'') # member_tasks (sorted_members kvs) @ TText (js ''}'') # ts) chunks
      | _ \<Rightarrow> run_tasks ts (chunks @ [stringify_primitive v]))"
  by pat_completeness auto
termination
proof (relation "measure (\<lambda>(ts, chunks). sum_list (map task_weight ts))", goal_cases)
  case (7 v ts chunks xs)
  then show ?case using array_tasks_weight [of xs] by simp
next
  case (8 v ts chunks kvs)
  then show ?case
    using member_tasks_weight [of "sorted_members kvs"] by (simp add: sum_sorted_members)
qed auto

definition serializeCanonicalJsonValue :: "json \<Rightarrow> js_string" where
  "serializeCanonicalJsonValue v = run_tasks [TValue v] []"

section \<open>Normalisation\<close>

datatype frame =
    ArrayFrame int "js_value option list" "json list"
  | ObjectFrame int "(js_string \<times> js_value option) list" "(js_string \<times> json) list"

datatype captured = Leaf json | Opened frame

definition addBytes :: "int option \<Rightarrow> nat \<Rightarrow> nat \<Rightarrow> nat result" where
  "addBytes mb acc n =
     (if (case mb of None \<Rightarrow> False | Some m \<Rightarrow> m < int (acc + n)) then Inl JsonTooLarge else Inr (acc + n))"

fun add_key_bytes :: "int option \<Rightarrow> nat \<Rightarrow> js_string list \<Rightarrow> nat result" where
  "add_key_bytes mb acc [] = Inr acc"
| "add_key_bytes mb acc (k # ks) =
     rbind (addBytes mb acc (jsonStringBytes k + 1)) (\<lambda>acc'. add_key_bytes mb acc' ks)"

definition capture_leaf :: "int option \<Rightarrow> nat \<Rightarrow> json \<Rightarrow> (nat \<times> captured) result" where
  "capture_leaf mb bytes v = rbind (addBytes mb bytes (primitiveCanonicalBytes v)) (\<lambda>b. Inr (b, Leaf v))"

definition capture :: "int option \<Rightarrow> int option \<Rightarrow> js_value \<Rightarrow> int \<Rightarrow> nat \<Rightarrow> (nat \<times> captured) result" where
  "capture md mb source depth bytes =
     (if (case md of None \<Rightarrow> False | Some m \<Rightarrow> m < depth) then Inl JsonTooDeep
      else case source of
        VNull \<Rightarrow> capture_leaf mb bytes JNull
      | VString s \<Rightarrow> capture_leaf mb bytes (JStr s)
      | VBool b \<Rightarrow> capture_leaf mb bytes (JBool b)
      | VNumber n \<Rightarrow> (case n of Finite t \<Rightarrow> capture_leaf mb bytes (JNum t) | _ \<Rightarrow> Inl InvalidJsonValue)
      | VOther \<Rightarrow> Inl InvalidJsonValue
      | VArray xs \<Rightarrow>
          rbind (addBytes mb bytes (2 + (length xs - 1))) (\<lambda>b.
            Inr (b, if xs = [] then Leaf (JArr []) else Opened (ArrayFrame depth xs [])))
      | VObject plain kvs \<Rightarrow>
          if \<not> plain then Inl InvalidJsonValue
          else rbind (addBytes mb bytes (2 + (length kvs - 1))) (\<lambda>b.
            rbind (add_key_bytes mb b (map fst kvs)) (\<lambda>b'.
              Inr (b', if kvs = [] then Leaf (JObj []) else Opened (ObjectFrame depth kvs [])))))"

text \<open>The value of a frame whose entries have all been walked, and storing a child in its parent.\<close>

fun close_frame :: "frame \<Rightarrow> json" where
  "close_frame (ArrayFrame d todo target) = JArr target"
| "close_frame (ObjectFrame d todo target) = JObj target"

fun attach :: "frame \<Rightarrow> json \<Rightarrow> frame" where
  "attach (ArrayFrame d (x # todo) target) v = ArrayFrame d todo (target @ [v])"
| "attach (ObjectFrame d ((k, x) # todo) target) v = ObjectFrame d todo (target @ [(k, v)])"
| "attach f v = f"

fun next_entry :: "frame \<Rightarrow> js_value option option" where
  "next_entry (ArrayFrame d [] target) = None"
| "next_entry (ArrayFrame d (x # todo) target) = Some x"
| "next_entry (ObjectFrame d [] target) = None"
| "next_entry (ObjectFrame d ((k, x) # todo) target) = Some x"

fun frame_depth :: "frame \<Rightarrow> int" where
  "frame_depth (ArrayFrame d todo target) = d"
| "frame_depth (ObjectFrame d todo target) = d"

fun value_weight :: "js_value \<Rightarrow> nat" where
  "value_weight (VArray xs) = 2 + sum_list (map (\<lambda>x. case x of None \<Rightarrow> 1 | Some v \<Rightarrow> 1 + value_weight v) xs)"
| "value_weight (VObject b kvs) =
     2 + sum_list (map (\<lambda>(k, x). case x of None \<Rightarrow> 1 | Some v \<Rightarrow> 1 + value_weight v) kvs)"
| "value_weight _ = 1"

definition entry_weight :: "js_value option \<Rightarrow> nat" where
  "entry_weight x = (case x of None \<Rightarrow> 1 | Some v \<Rightarrow> 1 + value_weight v)"

fun frame_weight :: "frame \<Rightarrow> nat" where
  "frame_weight (ArrayFrame d todo target) = 1 + sum_list (map entry_weight todo)"
| "frame_weight (ObjectFrame d todo target) = 1 + sum_list (map (entry_weight \<circ> snd) todo)"

fun pending_weight :: "frame \<Rightarrow> nat" where
  "pending_weight (ArrayFrame d todo target) = 1 + sum_list (map entry_weight (tl todo))"
| "pending_weight (ObjectFrame d todo target) = 1 + sum_list (map (entry_weight \<circ> snd) (tl todo))"

lemma value_weight_array [simp]: "value_weight (VArray xs) = 2 + sum_list (map entry_weight xs)"
  unfolding entry_weight_def [abs_def] by (simp only: value_weight.simps)

lemma value_weight_object [simp]:
  "value_weight (VObject b kvs) = 2 + sum_list (map (entry_weight \<circ> snd) kvs)"
  unfolding entry_weight_def [abs_def] by (simp only: value_weight.simps comp_def split_def)

declare value_weight.simps(1,2) [simp del]

lemma capture_Opened_weight:
  "capture md mb v depth bytes = Inr (b, Opened g) \<Longrightarrow> frame_weight g < value_weight v"
  by (auto simp: capture_def capture_leaf_def rbind_eq_Inr
      split: js_value.splits js_number.splits if_splits option.splits)

lemma attach_weight: "frame_weight (attach f v) \<le> pending_weight f"
  by (induction f v rule: attach.induct) auto

lemma pending_next_weight: "next_entry f = Some x \<Longrightarrow> frame_weight f = pending_weight f + entry_weight x"
  by (induction f rule: next_entry.induct) auto

text \<open>
  The walk of \<open>normalizeJson\<close>: the frame on top of the stack, the frames below it, whose first
  entry is the child being walked, and the canonical bytes admitted so far.
\<close>

function walk_frames ::
  "int option \<Rightarrow> int option \<Rightarrow> frame \<Rightarrow> frame list \<Rightarrow> nat \<Rightarrow> (nat \<times> json) result" where
  "walk_frames md mb f fs bytes =
     (case next_entry f of
        None \<Rightarrow>
          (case fs of
             [] \<Rightarrow> Inr (bytes, close_frame f)
           | g # gs \<Rightarrow> walk_frames md mb (attach g (close_frame f)) gs bytes)
      | Some None \<Rightarrow> Inl InvalidJsonValue
      | Some (Some v) \<Rightarrow>
          (case capture md mb v (frame_depth f + 1) bytes of
             Inl e \<Rightarrow> Inl e
           | Inr (b, Leaf j) \<Rightarrow> walk_frames md mb (attach f j) fs b
           | Inr (b, Opened g) \<Rightarrow> walk_frames md mb g (f # fs) b))"
  by pat_completeness auto
termination
proof (relation "measure (\<lambda>(md, mb, f, fs, bytes). frame_weight f + sum_list (map pending_weight fs))", goal_cases)
  case (2 md mb f fs bytes g gs)
  then show ?case using attach_weight [of g "close_frame f"] by (cases f) auto
next
  case (3 md mb f fs bytes x v cap b cp j)
  then show ?case
    using attach_weight [of f j] pending_next_weight [of f x] by (auto simp: entry_weight_def)
next
  case (4 md mb f fs bytes x v cap b cp g)
  then show ?case
    using capture_Opened_weight [of md mb v "frame_depth f + 1" bytes b g] pending_next_weight [of f x]
    by (simp add: entry_weight_def)
qed auto

declare walk_frames.simps [simp del]

definition normalizeJson :: "js_value \<Rightarrow> int option \<Rightarrow> int option \<Rightarrow> json result" where
  "normalizeJson v md mb =
     rbind (capture md mb v 1 0) (\<lambda>(b, root).
       case root of
         Leaf j \<Rightarrow> Inr j
       | Opened f \<Rightarrow> rbind (walk_frames md mb f [] b) (\<lambda>(b', j). Inr j))"

definition normalizeJsonValue :: "js_value \<Rightarrow> json result" where
  "normalizeJsonValue v = normalizeJson v None None"

definition captureJsonValueLimits :: "json_limits \<Rightarrow> json_limits result" where
  "captureJsonValueLimits limits =
     rbind (ensure (is_safe_integer (maxDepth limits) \<and> 1 \<le> maxDepth limits) RangeErr) (\<lambda>_.
     rbind (ensure (is_safe_integer (maxBytes limits) \<and> 1 \<le> maxBytes limits) RangeErr) (\<lambda>_.
     Inr limits))"

definition normalizeJsonValueWithin :: "js_value \<Rightarrow> json_limits \<Rightarrow> json result" where
  "normalizeJsonValueWithin v limits =
     rbind (captureJsonValueLimits limits) (\<lambda>l. normalizeJson v (Some (maxDepth l)) (Some (maxBytes l)))"

definition canonicalizeJsonValueWithin :: "js_value \<Rightarrow> json_limits \<Rightarrow> js_string result" where
  "canonicalizeJsonValueWithin v limits =
     rbind (normalizeJsonValueWithin v limits) (\<lambda>j. Inr (serializeCanonicalJsonValue j))"

definition canonicalizeJsonValue :: "js_value \<Rightarrow> js_string result" where
  "canonicalizeJsonValue v = rbind (normalizeJsonValue v) (\<lambda>j. Inr (serializeCanonicalJsonValue j))"

end
