(* ===== verification/Json_Canonical.thy ===== *)
theory Json_Canonical
  imports Json
begin

text \<open>
  The canonical serialisation of packages/protocol/src/json.ts is correct: the task-stack loop
  writes the recursive serialisation of the value with its keys sorted, the byte counter equals
  the UTF-8 length of what is written, and the text determines the value up to key order, which
  is what every fingerprint and every map key of the stores relies on.
\<close>

section \<open>Recursive specification\<close>

fun join_commas :: "js_string list \<Rightarrow> js_string" where
  "join_commas [] = []"
| "join_commas [x] = x"
| "join_commas (x # y # xs) = x @ js '','' @ join_commas (y # xs)"

fun stringify :: "json \<Rightarrow> js_string" where
  "stringify (JArr xs) = js ''['' @ join_commas (map stringify xs) @ js '']''"
| "stringify (JObj kvs) =
     js ''{'' @ join_commas (map (\<lambda>(k, v). quote k @ js '':'' @ stringify v) kvs) @ js ''}''"
| "stringify v = stringify_primitive v"

fun canon_form :: "json \<Rightarrow> json" where
  "canon_form (JArr xs) = JArr (map canon_form xs)"
| "canon_form (JObj kvs) = JObj (sorted_members (map (\<lambda>(k, v). (k, canon_form v)) kvs))"
| "canon_form v = v"

definition canonical :: "json \<Rightarrow> js_string" where
  "canonical v = stringify (canon_form v)"

fun render :: "task \<Rightarrow> js_string" where
  "render (TText t) = t"
| "render (TValue v) = canonical v"

lemma insort_key_map: "insort_key f (g x) (map g xs) = map g (insort_key (\<lambda>a. f (g a)) x xs)"
  by (induction xs) auto

lemma sort_key_map: "sort_key f (map g xs) = map g (sort_key (\<lambda>a. f (g a)) xs)"
  by (induction xs) (simp_all add: insort_key_map)

lemma sorted_members_map:
  "sorted_members (map (\<lambda>(k, v). (k, f v)) kvs) = map (\<lambda>(k, v). (k, f v)) (sorted_members kvs)"
  by (simp add: sorted_members_def sort_key_map comp_def split_def)

lemma render_array_tasks: "concat (map render (array_tasks xs)) = join_commas (map canonical xs)"
  by (induction xs rule: array_tasks.induct) auto

lemma render_member_tasks:
  "concat (map render (member_tasks kvs)) =
   join_commas (map (\<lambda>(k, v). quote k @ js '':'' @ canonical v) kvs)"
  by (induction kvs rule: member_tasks.induct) auto

lemma canonical_array: "canonical (JArr xs) = js ''['' @ join_commas (map canonical xs) @ js '']''"
  by (simp add: canonical_def [abs_def] comp_def)

lemma canonical_object:
  "canonical (JObj kvs) =
   js ''{'' @ join_commas (map (\<lambda>(k, v). quote k @ js '':'' @ canonical v) (sorted_members kvs)) @ js ''}''"
  unfolding canonical_def [abs_def] by (simp add: sorted_members_map comp_def) (simp add: split_def)

lemma run_tasks_render: "run_tasks ts chunks = concat chunks @ concat (map render ts)"
proof (induction ts chunks rule: run_tasks.induct)
  case (3 v ts chunks)
  then show ?case
    by (cases v) (simp_all add: render_array_tasks render_member_tasks canonical_array canonical_object,
        simp_all add: canonical_def)
qed auto

text \<open>The loop writes the recursive serialisation.\<close>

lemma serialize_eq_canonical: "serializeCanonicalJsonValue v = canonical v"
  by (simp add: serializeCanonicalJsonValue_def run_tasks_render)

section \<open>Bytes of a quoted string\<close>

definition unit_bytes :: "js_unit \<Rightarrow> nat" where
  "unit_bytes c = (if c \<le> 0x7f then 1 else if c \<le> 0x7ff then 2 else 3)"

text \<open>The bytes of \<open>quote_body\<close>, by structural recursion.\<close>

fun body_bytes :: "js_string \<Rightarrow> nat" where
  "body_bytes [] = 0"
| "body_bytes [c] =
     (if is_short_escape c then 2 else if c \<le> 0x1f \<or> is_high c \<or> is_low c then 6 else unit_bytes c)"
| "body_bytes (c # d # cs) =
     (if is_short_escape c then 2 + body_bytes (d # cs)
      else if is_high c \<and> is_low d then 4 + body_bytes cs
      else if c \<le> 0x1f \<or> is_high c \<or> is_low c then 6 + body_bytes (d # cs)
      else unit_bytes c + body_bytes (d # cs))"

lemma is_high_not_low: "is_high c \<Longrightarrow> \<not> is_low c"
  unfolding is_high_def is_low_def by unat_arith

lemma surrogate_iff: "0xd800 \<le> c \<and> c \<le> 0xdfff \<longleftrightarrow> is_high c \<or> is_low c"
  unfolding is_high_def is_low_def by unat_arith

lemma short_escape_not_surrogate: "is_short_escape c \<Longrightarrow> \<not> is_high c \<and> \<not> is_low c"
  by (auto simp: is_short_escape_def is_high_def is_low_def)

lemma small_not_surrogate: "c \<le> 0x7ff \<Longrightarrow> \<not> is_high c \<and> \<not> is_low c"
  unfolding is_high_def is_low_def by unat_arith

lemma utf8_pair: "is_high c \<Longrightarrow> is_low d \<Longrightarrow> utf8_length (c # d # r) = 4 + utf8_length r"
  by simp

lemma utf8_Cons: "\<not> is_high c \<Longrightarrow> utf8_length (c # r) = unit_bytes c + utf8_length r"
  by (cases r) (auto simp: unit_bytes_def)

declare utf8_length.simps [simp del] utf8_length.simps(1) [simp]

lemma unat_hex_digit: "d < 16 \<Longrightarrow> unat (hex_digit d) = (if d < 10 then 48 + d else 87 + d)"
  unfolding hex_digit_def by (simp only: unat_of_nat) simp

lemma hex_digit_small: "d < 16 \<Longrightarrow> hex_digit d \<le> 0x7f"
  by (simp add: word_le_nat_alt unat_hex_digit)

lemma utf8_small: "c \<le> 0x7f \<Longrightarrow> utf8_length (c # r) = Suc (utf8_length r)"
proof -
  assume c: "c \<le> 0x7f"
  then have "c \<le> 0x7ff" by unat_arith
  then have "\<not> is_high c" using small_not_surrogate by blast
  with c show ?thesis by (simp add: utf8_Cons unit_bytes_def)
qed

lemma unat_unit_less: "unat (c :: js_unit) < 65536"
  using unsigned_less [of c, where ?'a = nat] by simp

lemma utf8_unicode_escape: "utf8_length (unicode_escape c @ r) = 6 + utf8_length r"
proof -
  have "unat c div 4096 < 16" using unat_unit_less [of c] by simp
  then show ?thesis
    by (simp add: unicode_escape_def utf8_small hex_digit_small)
qed

lemma short_escape_small: "is_short_escape c \<Longrightarrow> short_escape c \<le> 0x7f"
  by (auto simp: is_short_escape_def short_escape_def)

lemma utf8_quote_body: "utf8_length (quote_body s @ 0x22 # r) = body_bytes s + Suc (utf8_length r)"
proof (induction s rule: quote_body.induct)
  case (2 c)
  then show ?case
    by (auto simp: utf8_small short_escape_small utf8_unicode_escape utf8_Cons utf8_pair)
next
  case (3 c d cs)
  then show ?case
    by (auto simp: utf8_small short_escape_small utf8_unicode_escape utf8_Cons utf8_pair)
qed (simp add: utf8_small)

lemma utf8_quote: "utf8_length (quote s @ r) = body_bytes s + 2 + utf8_length r"
  by (simp add: quote_def utf8_small utf8_quote_body)

text \<open>
  The index loop agrees with the structural count from every index that does not stand on the
  second half of a surrogate pair; the loop never stops on one, because a pair is skipped whole.
\<close>

definition between_pairs :: "js_string \<Rightarrow> nat \<Rightarrow> bool" where
  "between_pairs s i \<longleftrightarrow> \<not> (0 < i \<and> i < length s \<and> is_high (s ! (i - 1)) \<and> is_low (s ! i))"

lemma isSurrogatePair_at:
  assumes "i < length s" and "between_pairs s i"
  shows "isSurrogatePair s (int i) \<longleftrightarrow> is_high (s ! i) \<and> Suc i < length s \<and> is_low (s ! Suc i)"
proof -
  have "nat (int i - 1) = i - 1" "nat (int i + 1) = Suc i" by auto
  then show ?thesis
    using assms by (auto simp: isSurrogatePair_def char_code_at_def between_pairs_def is_high_not_low
        split: if_splits)
qed

lemma surrogate_big:
  "is_high u \<or> is_low u \<Longrightarrow> \<not> u \<le> 0x1f \<and> \<not> u \<le> 0x7f \<and> \<not> u \<le> 0x7ff"
  unfolding is_high_def is_low_def by unat_arith

lemma is_high_iff: "0xd800 \<le> u \<and> u \<le> 0xdbff \<longleftrightarrow> is_high u"
  by (simp add: is_high_def)

text \<open>One turn of the loop, its conditions read as classes of code units.\<close>

lemma json_string_bytes_step:
  assumes "i < length s" and "between_pairs s i"
  shows "json_string_bytes_from s i bytes =
     (let u = s ! i in
      if is_short_escape u then json_string_bytes_from s (Suc i) (bytes + 2)
      else if is_high u \<and> Suc i < length s \<and> is_low (s ! Suc i)
        then json_string_bytes_from s (Suc (Suc i)) (bytes + 4)
      else if u \<le> 0x1f \<or> is_high u \<or> is_low u then json_string_bytes_from s (Suc i) (bytes + 6)
      else json_string_bytes_from s (Suc i) (bytes + unit_bytes u))"
  using assms surrogate_big [of "s ! i"] is_high_not_low [of "s ! i"]
  by (subst json_string_bytes_from.simps)
    (simp add: Let_def isSurrogatePair_at surrogate_iff is_high_iff unit_bytes_def del: One_nat_def)

lemma body_bytes_at:
  assumes "i < length s"
  shows "body_bytes (drop i s) =
     (let u = s ! i in
      if is_short_escape u then 2 + body_bytes (drop (Suc i) s)
      else if is_high u \<and> Suc i < length s \<and> is_low (s ! Suc i) then 4 + body_bytes (drop (Suc (Suc i)) s)
      else if u \<le> 0x1f \<or> is_high u \<or> is_low u then 6 + body_bytes (drop (Suc i) s)
      else unit_bytes u + body_bytes (drop (Suc i) s))"
proof (cases "Suc i < length s")
  case True
  then have "drop i s = s ! i # s ! Suc i # drop (Suc (Suc i)) s"
    by (simp add: Cons_nth_drop_Suc)
  moreover from True have "drop (Suc i) s = s ! Suc i # drop (Suc (Suc i)) s"
    by (simp add: Cons_nth_drop_Suc)
  ultimately show ?thesis using True by (simp add: Let_def)
next
  case False
  with assms have "drop i s = [s ! i]" and "drop (Suc i) s = []"
    by (simp_all add: Cons_nth_drop_Suc [symmetric])
  with False show ?thesis by (simp add: Let_def)
qed

lemma between_pairs_next:
  assumes "\<not> (is_high (s ! i) \<and> Suc i < length s \<and> is_low (s ! Suc i))"
  shows "between_pairs s (Suc i)"
  using assms by (auto simp: between_pairs_def)

lemma between_pairs_skip: "is_low (s ! Suc i) \<Longrightarrow> between_pairs s (Suc (Suc i))"
  by (auto simp: between_pairs_def is_high_not_low)

lemma json_string_bytes_from_eq:
  "between_pairs s i \<Longrightarrow> json_string_bytes_from s i bytes = bytes + body_bytes (drop i s)"
proof (induction "length s - i" arbitrary: i bytes rule: less_induct)
  case less
  show ?case
  proof (cases "i < length s")
    case False
    then show ?thesis by (simp add: json_string_bytes_from.simps [of s i])
  next
    case True
    have next_one: "json_string_bytes_from s (Suc i) b = b + body_bytes (drop (Suc i) s)"
      if "\<not> (is_high (s ! i) \<and> Suc i < length s \<and> is_low (s ! Suc i))" for b
      using less.hyps [of "Suc i"] between_pairs_next [OF that] True by simp
    have next_two: "json_string_bytes_from s (Suc (Suc i)) b = b + body_bytes (drop (Suc (Suc i)) s)"
      if "is_low (s ! Suc i)" for b
      using less.hyps [of "Suc (Suc i)"] between_pairs_skip [OF that] True by simp
    show ?thesis
      using short_escape_not_surrogate [of "s ! i"]
      by (simp only: json_string_bytes_step [OF True less.prems] body_bytes_at [OF True] Let_def)
        (auto simp: next_one next_two)
  qed
qed

lemma jsonStringBytes_eq: "jsonStringBytes s = body_bytes s + 2"
  by (simp add: jsonStringBytes_def json_string_bytes_from_eq between_pairs_def)

lemma jsonStringBytes_utf8: "jsonStringBytes s = utf8_length (quote s)"
  using utf8_quote [of s "[]"] by (simp add: jsonStringBytes_eq)

section \<open>The serialisation determines the value\<close>

text \<open>Reading a quoted string back, up to and including its closing quote.\<close>

definition unhex :: "js_unit \<Rightarrow> nat" where
  "unhex u = (if unat u \<le> 57 then unat u - 48 else unat u - 87)"

definition unshort :: "js_unit \<Rightarrow> js_unit" where
  "unshort c =
     (if c = 0x62 then 0x08 else if c = 0x74 then 0x09 else if c = 0x6e then 0x0a
      else if c = 0x66 then 0x0c else if c = 0x72 then 0x0d else c)"

definition push_unit :: "js_unit \<Rightarrow> (js_string \<times> js_string) option \<Rightarrow> (js_string \<times> js_string) option" where
  "push_unit c = map_option (\<lambda>(s, r). (c # s, r))"

fun unquote :: "js_string \<Rightarrow> (js_string \<times> js_string) option" where
  "unquote [] = None"
| "unquote (c # r) =
     (if c = 0x22 then Some ([], r)
      else if c = 0x5c then
        (case r of
           [] \<Rightarrow> None
         | e # r' \<Rightarrow>
             if e = 0x75 then
               (case r' of
                  x3 # x2 # x1 # x0 # r'' \<Rightarrow>
                    push_unit (of_nat (unhex x3 * 4096 + unhex x2 * 256 + unhex x1 * 16 + unhex x0)) (unquote r'')
                | _ \<Rightarrow> None)
             else push_unit (unshort e) (unquote r'))
      else push_unit c (unquote r))"

lemma push_unit_Some [simp]: "push_unit c (Some (s, r)) = Some (c # s, r)"
  by (simp add: push_unit_def)

lemma unhex_hex_digit: "d < 16 \<Longrightarrow> unhex (hex_digit d) = d"
  by (simp add: unhex_def unat_hex_digit)

lemma nibbles: "(n :: nat) div 4096 * 4096 + n div 256 mod 16 * 256 + n div 16 mod 16 * 16 + n mod 16 = n"
proof -
  have "n div 4096 = n div 256 div 16" and "n div 256 = n div 16 div 16"
    by (simp_all flip: div_mult2_eq)
  then show ?thesis
    using div_mult_mod_eq [of "n div 256" 16] div_mult_mod_eq [of "n div 16" 16] div_mult_mod_eq [of n 16]
    by linarith
qed

lemma unquote_unicode_escape: "unquote (unicode_escape c @ r) = push_unit c (unquote r)"
proof -
  have "unat c div 4096 < 16" using unat_unit_less [of c] by simp
  moreover have "(of_nat (unat c div 4096 * 4096 + unat c div 256 mod 16 * 256 +
      unat c div 16 mod 16 * 16 + unat c mod 16) :: js_unit) = c"
    by (simp only: nibbles) simp
  ultimately show ?thesis
    by (simp add: unicode_escape_def unhex_hex_digit del: of_nat_add of_nat_mult)
qed

lemma unquote_short_escape:
  "is_short_escape c \<Longrightarrow> unquote (0x5c # short_escape c # r) = push_unit c (unquote r)"
  by (auto simp: is_short_escape_def short_escape_def unshort_def)

lemma unquote_plain: "c \<noteq> 0x22 \<Longrightarrow> c \<noteq> 0x5c \<Longrightarrow> unquote (c # r) = push_unit c (unquote r)"
  by simp

declare unquote.simps(2) [simp del]

lemma unquote_quote_body: "unquote (quote_body s @ 0x22 # r) = Some (s, r)"
proof (induction s rule: quote_body.induct)
  case 1
  then show ?case by (simp add: unquote.simps)
next
  case (2 c)
  have "\<not> is_short_escape c \<Longrightarrow> c \<noteq> 0x22 \<and> c \<noteq> 0x5c" by (auto simp: is_short_escape_def)
  then show ?case
    by (auto simp: unquote_short_escape unquote_unicode_escape unquote_plain)
      (simp add: unquote.simps)+
next
  case (3 c d cs)
  have "\<not> is_short_escape x \<Longrightarrow> x \<noteq> 0x22 \<and> x \<noteq> 0x5c" for x by (auto simp: is_short_escape_def)
  moreover have "is_low d \<Longrightarrow> d \<noteq> 0x22 \<and> d \<noteq> 0x5c" by (auto simp: is_low_def)
  ultimately show ?case
    using 3 by (auto simp: unquote_short_escape unquote_unicode_escape unquote_plain)
qed

lemma quote_prefix: "quote s @ r = quote t @ r' \<Longrightarrow> s = t \<and> r = r'"
proof -
  assume "quote s @ r = quote t @ r'"
  then have "unquote (quote_body s @ 0x22 # r) = unquote (quote_body t @ 0x22 # r')"
    by (simp add: quote_def)
  then show ?thesis by (simp add: unquote_quote_body)
qed

text \<open>
  Well-formed values: number texts use the characters of \<open>Number.prototype.toString\<close> and start
  with a digit or a minus sign, and the keys of an object are distinct.
\<close>

definition is_number_unit :: "js_unit \<Rightarrow> bool" where
  "is_number_unit u \<longleftrightarrow> is_digit u \<or> u = 0x2d \<or> u = 0x2b \<or> u = 0x2e \<or> u = 0x65"

definition is_number_text :: "js_string \<Rightarrow> bool" where
  "is_number_text t \<longleftrightarrow> t \<noteq> [] \<and> list_all is_number_unit t \<and> (is_digit (hd t) \<or> hd t = 0x2d)"

fun json_ok :: "json \<Rightarrow> bool" where
  "json_ok (JNum t) = is_number_text t"
| "json_ok (JArr xs) = list_all json_ok xs"
| "json_ok (JObj kvs) = (distinct (map fst kvs) \<and> list_all (\<lambda>(k, v). json_ok v) kvs)"
| "json_ok _ = True"

definition ends_number :: "js_string \<Rightarrow> bool" where
  "ends_number r \<longleftrightarrow> r = [] \<or> \<not> is_number_unit (hd r)"

lemma number_prefix:
  assumes "is_number_text t" "is_number_text t'" "ends_number r" "ends_number r'" "t @ r = t' @ r'"
  shows "t = t' \<and> r = r'"
proof -
  have "takeWhile is_number_unit (x @ y) = x" if "is_number_text x" "ends_number y" for x y
    using that by (cases y) (auto simp: is_number_text_def ends_number_def list_all_iff)
  with assms show ?thesis by (metis append_same_eq same_append_eq)
qed

definition head_tag :: "js_unit \<Rightarrow> nat" where
  "head_tag c =
     (if c = 0x6e then 0 else if c = 0x74 then 1 else if c = 0x66 then 2 else if c = 0x22 then 3
      else if c = 0x5b then 4 else if c = 0x7b then 5 else if c = 0x5d \<or> c = 0x2c \<or> c = 0x7d then 7 else 6)"

fun json_tag :: "json \<Rightarrow> nat" where
  "json_tag JNull = 0"
| "json_tag (JBool b) = (if b then 1 else 2)"
| "json_tag (JStr s) = 3"
| "json_tag (JArr xs) = 4"
| "json_tag (JObj kvs) = 5"
| "json_tag (JNum t) = 6"

lemma head_tag_number: "is_digit c \<or> c = 0x2d \<Longrightarrow> head_tag c = 6"
  by (auto simp: head_tag_def is_digit_def)

lemma stringify_head:
  assumes "json_ok v"
  shows "\<exists>c s. stringify v = c # s \<and> head_tag c = json_tag v"
proof (cases v)
  case (JNum t)
  with assms show ?thesis
    by (cases t) (auto simp: is_number_text_def head_tag_number)
qed (auto simp: js_def quote_def head_tag_def)

definition ends_value :: "js_string \<Rightarrow> bool" where
  "ends_value r \<longleftrightarrow> r = [] \<or> hd r = 0x2c \<or> hd r = 0x5d \<or> hd r = 0x7d"

lemma ends_value_number: "ends_value r \<Longrightarrow> ends_number r"
  by (auto simp: ends_value_def ends_number_def is_number_unit_def is_digit_def)

lemma ends_value_punct [simp]:
  "ends_value (js '','' @ r)" "ends_value (js '']'' @ r)" "ends_value (js ''}'' @ r)" "ends_value []"
  by (simp_all add: ends_value_def js_def)

text \<open>
  A comma-separated sequence closed by \<open>close\<close>, each of whose items is read back without
  looking past it, is read back as a whole.
\<close>

lemma join_commas_Cons: "join_commas (x # xs) @ r = x @ (if xs = [] then r else js '','' @ join_commas xs @ r)"
  by (cases xs) auto

lemma join_commas_prefix:
  assumes item: "\<And>x y r r'. x \<in> set xs \<Longrightarrow> y \<in> set ys \<Longrightarrow> ends_value r \<Longrightarrow> ends_value r' \<Longrightarrow>
      f x @ r = f y @ r' \<Longrightarrow> x = y \<and> r = r'"
    and closed: "\<And>x. x \<in> set xs \<union> set ys \<Longrightarrow> \<exists>c s. f x = c # s \<and> c \<noteq> close \<and> c \<noteq> 0x2c"
    and close: "close = 0x5d \<or> close = 0x7d"
    and eq: "join_commas (map f xs) @ close # r = join_commas (map f ys) @ close # r'"
  shows "xs = ys \<and> r = r'"
  using item closed eq
proof (induction xs arbitrary: ys)
  case Nil
  show ?case
  proof (cases ys)
    case (Cons y ys')
    with Nil.prems(2) [of y] obtain c s where "f y = c # s" "c \<noteq> close" by auto
    with Nil.prems(3) Cons show ?thesis
      using join_commas_Cons [of "f y" "map f ys'" "close # r'"] by auto
  qed (use Nil in simp)
next
  case (Cons x xs)
  show ?case
  proof (cases ys)
    case Nil
    from Cons.prems(2) [of x] obtain c s where "f x = c # s" "c \<noteq> close" by auto
    with Cons.prems(3) Nil show ?thesis
      using join_commas_Cons [of "f x" "map f xs" "close # r"] by auto
  next
    case ys: (Cons y ys')
    let ?t = "\<lambda>zs r. if zs = [] then close # r else js '','' @ join_commas (map f zs) @ close # r"
    have ends: "ends_value (?t zs r)" for zs and r :: js_string
      using close by (auto simp: ends_value_def js_def)
    have "f x @ ?t xs r = f y @ ?t ys' r'"
      using Cons.prems(3) ys join_commas_Cons [of "f x" "map f xs" "close # r"]
        join_commas_Cons [of "f y" "map f ys'" "close # r'"] by (simp cong: if_cong)
    with ends have xy: "x = y" and tails: "?t xs r = ?t ys' r'"
      using Cons.prems(1) [of x y "?t xs r" "?t ys' r'"] ys by auto
    have comma: "close # a \<noteq> js '','' @ b" for a b
      using close by (auto simp: js_def)
    have "xs = ys' \<and> r = r'"
    proof (cases "xs = [] \<or> ys' = []")
      case True
      with tails comma [of r] comma [of r'] show ?thesis by (auto split: if_splits dest: sym)
    next
      case False
      with tails have "join_commas (map f xs) @ close # r = join_commas (map f ys') @ close # r'"
        by simp
      moreover have "x' = y' \<and> s = s'"
        if "x' \<in> set xs" "y' \<in> set ys'" "ends_value s" "ends_value s'" "f x' @ s = f y' @ s'" for x' y' s s'
        using Cons.prems(1) [of x' y' s s'] that ys by simp
      moreover have "\<exists>c s. f x' = c # s \<and> c \<noteq> close \<and> c \<noteq> 0x2c" if "x' \<in> set xs \<union> set ys'" for x'
        using Cons.prems(2) [of x'] that ys by auto
      ultimately show ?thesis by (intro Cons.IH) auto
    qed
    with xy ys show ?thesis by simp
  qed
qed

lemma json_tag_less: "json_tag v < 7"
  by (cases v) auto

lemma stringify_open:
  "json_ok v \<Longrightarrow> \<exists>c s. stringify v = c # s \<and> c \<noteq> 0x5d \<and> c \<noteq> 0x7d \<and> c \<noteq> 0x2c"
  using stringify_head [of v] json_tag_less [of v] by (fastforce simp: head_tag_def)

lemma stringify_tag:
  "json_ok v \<Longrightarrow> json_ok w \<Longrightarrow> stringify v @ r = stringify w @ r' \<Longrightarrow> json_tag v = json_tag w"
  using stringify_head [of v] stringify_head [of w] by auto

text \<open>A serialised value is read back without looking past its end.\<close>

lemma stringify_prefix:
  "json_ok v \<Longrightarrow> json_ok w \<Longrightarrow> ends_value r \<Longrightarrow> ends_value r' \<Longrightarrow>
   stringify v @ r = stringify w @ r' \<Longrightarrow> v = w \<and> r = r'"
proof (induction v arbitrary: w r r')
  case JNull
  then show ?case using stringify_tag [of JNull w r r'] by (cases w) (auto split: if_splits)
next
  case (JBool b)
  then show ?case using stringify_tag [of "JBool b" w r r'] by (cases w) (auto split: if_splits)
next
  case (JNum t)
  with stringify_tag [of "JNum t" w r r'] obtain t' where "w = JNum t'" by (cases w) (auto split: if_splits)
  with JNum show ?case using number_prefix [of t t' r r'] by (simp add: ends_value_number)
next
  case (JStr s)
  with stringify_tag [of "JStr s" w r r'] obtain s' where "w = JStr s'" by (cases w) (auto split: if_splits)
  with JStr show ?case using quote_prefix [of s r s' r'] by simp
next
  case (JArr xs)
  with stringify_tag [of "JArr xs" w r r'] obtain ys where w: "w = JArr ys"
    by (cases w) (auto split: if_splits)
  have ok: "json_ok x" if "x \<in> set xs \<union> set ys" for x
    using that JArr.prems(1,2) w by (auto simp: list_all_iff)
  have "xs = ys \<and> r = r'"
  proof (rule join_commas_prefix [of xs ys stringify "0x5d"])
    show "x = y \<and> q = q'" if "x \<in> set xs" "y \<in> set ys" "ends_value q" "ends_value q'"
      "stringify x @ q = stringify y @ q'" for x y q q'
      using that ok JArr.IH [of x y q q'] by blast
    show "\<exists>c s. stringify x = c # s \<and> c \<noteq> 0x5d \<and> c \<noteq> 0x2c" if "x \<in> set xs \<union> set ys" for x
      using stringify_open [OF ok [OF that]] by blast
  qed (use JArr.prems(5) w in \<open>simp_all add: js_def\<close>)
  with w show ?case by simp
next
  case (JObj kvs)
  with stringify_tag [of "JObj kvs" w r r'] obtain lvs where w: "w = JObj lvs"
    by (cases w) (auto split: if_splits)
  let ?f = "\<lambda>p. quote (fst p) @ js '':'' @ stringify (snd p)"
  have ok: "json_ok (snd p)" if "p \<in> set kvs \<union> set lvs" for p
    using that JObj.prems(1,2) w by (auto simp: list_all_iff)
  have "kvs = lvs \<and> r = r'"
  proof (rule join_commas_prefix [of kvs lvs ?f "0x7d"])
    show "p = p' \<and> q = q'" if "p \<in> set kvs" "p' \<in> set lvs" "ends_value q" "ends_value q'"
      "?f p @ q = ?f p' @ q'" for p p' q q'
    proof -
      have key: "fst p = fst p'" and rest: "stringify (snd p) @ q = stringify (snd p') @ q'"
        using quote_prefix [of "fst p" "js '':'' @ stringify (snd p) @ q" "fst p'"
            "js '':'' @ stringify (snd p') @ q'"] that(5) by auto
      have "snd p \<in> Basic_BNFs.snds p" by (cases p) (simp add: snds.simps)
      with rest have "snd p = snd p' \<and> q = q'"
        using that ok by (intro JObj.IH [of p "snd p" "snd p'" q q']) auto
      with key show ?thesis by (simp add: prod_eq_iff)
    qed
  qed (use JObj.prems(5) w in \<open>auto simp: js_def quote_def split_def\<close>)
  with w show ?case by simp
qed

lemma set_sorted_members [simp]: "set (sorted_members kvs) = set kvs"
  by (simp add: sorted_members_def)

lemma distinct_sorted_members [simp]:
  "distinct (map fst (sorted_members kvs)) \<longleftrightarrow> distinct (map fst kvs)"
  by (rule mset_eq_imp_distinct_iff) (simp add: sorted_members_def)

lemma sorted_members_sorted: "sorted (map fst kvs) \<Longrightarrow> sorted_members kvs = kvs"
  by (simp add: sorted_members_def sort_key_id_if_sorted)

lemma sorted_sorted_members [simp]: "sorted (map fst (sorted_members kvs))"
  by (simp add: sorted_members_def)

lemma json_ok_canon_form: "json_ok v \<Longrightarrow> json_ok (canon_form v)"
proof (induction v)
  case (JObj kvs)
  then have "distinct (map fst (map (\<lambda>(k, v). (k, canon_form v)) kvs))"
    by (simp add: comp_def split_def)
  with JObj show ?case by (fastforce simp: list_all_iff snds.simps)
qed (auto simp: list_all_iff)

text \<open>Equal canonical texts, equal values up to key order.\<close>

lemma canonical_eq_iff:
  "json_ok v \<Longrightarrow> json_ok w \<Longrightarrow> canonical v = canonical w \<longleftrightarrow> canon_form v = canon_form w"
  using stringify_prefix [of "canon_form v" "canon_form w" "[]" "[]"]
  by (auto simp: canonical_def json_ok_canon_form)

lemma canon_form_idem: "canon_form (canon_form v) = canon_form v"
proof (induction v)
  case (JObj kvs)
  let ?ms = "sorted_members (map (\<lambda>(k, v). (k, canon_form v)) kvs)"
  have "map (\<lambda>(k, v). (k, canon_form v)) ?ms = ?ms"
    using JObj by (intro map_idI) (fastforce simp: snds.simps)
  then show ?case by (simp add: sorted_members_sorted)
qed auto

section \<open>Keys built from string tuples\<close>

text \<open>\<open>JSON.stringify([a, b, ...])\<close> on strings, the key of every store's map.\<close>

definition string_tuple_key :: "js_string list \<Rightarrow> js_string" where
  "string_tuple_key xs = stringify (JArr (map JStr xs))"

lemma string_tuple_key_inject [simp]: "string_tuple_key xs = string_tuple_key ys \<longleftrightarrow> xs = ys"
proof
  assume "string_tuple_key xs = string_tuple_key ys"
  then have "JArr (map JStr xs) = JArr (map JStr ys)"
    using stringify_prefix [of "JArr (map JStr xs)" "JArr (map JStr ys)" "[]" "[]"]
    by (simp add: string_tuple_key_def list_all_iff)
  then show "xs = ys" by (simp add: inj_map_eq_map inj_def)
qed simp

end
