(* ===== verification/Json_Admission.thy ===== *)
theory Json_Admission
  imports Json_Canonical
begin

text \<open>
  \<open>normalizeJson\<close> of packages/protocol/src/json.ts: the explicit-stack walk agrees with a
  recursive one, it copies exactly the values that are JSON, and under host budgets it admits a
  value exactly when its depth and the UTF-8 length of its canonical text are within them.
\<close>

section \<open>Recursive specification of the walk\<close>

fun norm_value :: "int option \<Rightarrow> int option \<Rightarrow> int \<Rightarrow> js_value \<Rightarrow> nat \<Rightarrow> (nat \<times> json) result"
  and norm_elems :: "int option \<Rightarrow> int option \<Rightarrow> int \<Rightarrow> js_value option list \<Rightarrow> nat \<Rightarrow> (nat \<times> json list) result"
  and norm_members ::
    "int option \<Rightarrow> int option \<Rightarrow> int \<Rightarrow> (js_string \<times> js_value option) list \<Rightarrow> nat \<Rightarrow>
      (nat \<times> (js_string \<times> json) list) result" where
  "norm_value md mb d v b =
     rbind (capture md mb v d b) (\<lambda>(b', c).
       case c of
         Leaf j \<Rightarrow> Inr (b', j)
       | Opened f \<Rightarrow>
           (case v of
              VArray xs \<Rightarrow> rbind (norm_elems md mb (d + 1) xs b') (\<lambda>(b'', js). Inr (b'', JArr js))
            | VObject p kvs \<Rightarrow> rbind (norm_members md mb (d + 1) kvs b') (\<lambda>(b'', ms). Inr (b'', JObj ms))
            | _ \<Rightarrow> Inl InvalidJsonValue))"
| "norm_elems md mb d [] b = Inr (b, [])"
| "norm_elems md mb d (None # xs) b = Inl InvalidJsonValue"
| "norm_elems md mb d (Some v # xs) b =
     rbind (norm_value md mb d v b) (\<lambda>(b', j).
       rbind (norm_elems md mb d xs b') (\<lambda>(b'', js). Inr (b'', j # js)))"
| "norm_members md mb d [] b = Inr (b, [])"
| "norm_members md mb d ((k, None) # kvs) b = Inl InvalidJsonValue"
| "norm_members md mb d ((k, Some v) # kvs) b =
     rbind (norm_value md mb d v b) (\<lambda>(b', j).
       rbind (norm_members md mb d kvs b') (\<lambda>(b'', ms). Inr (b'', (k, j) # ms)))"

declare norm_value.simps [simp del]

fun norm_frame :: "int option \<Rightarrow> int option \<Rightarrow> frame \<Rightarrow> nat \<Rightarrow> (nat \<times> json) result" where
  "norm_frame md mb (ArrayFrame d todo target) b =
     rbind (norm_elems md mb (d + 1) todo b) (\<lambda>(b', js). Inr (b', JArr (target @ js)))"
| "norm_frame md mb (ObjectFrame d todo target) b =
     rbind (norm_members md mb (d + 1) todo b) (\<lambda>(b', ms). Inr (b', JObj (target @ ms)))"

fun resume :: "int option \<Rightarrow> int option \<Rightarrow> json \<Rightarrow> frame list \<Rightarrow> nat \<Rightarrow> (nat \<times> json) result" where
  "resume md mb j [] b = Inr (b, j)"
| "resume md mb j (g # gs) b = walk_frames md mb (attach g j) gs b"

lemma capture_Opened:
  "capture md mb v d b = Inr (b', Opened f) \<Longrightarrow>
   (\<exists>xs. v = VArray xs \<and> f = ArrayFrame d xs []) \<or> (\<exists>kvs. v = VObject True kvs \<and> f = ObjectFrame d kvs [])"
  by (auto simp: capture_def capture_leaf_def rbind_eq_Inr
      split: js_value.splits js_number.splits if_splits option.splits)

lemma norm_value_Opened:
  "capture md mb v d b = Inr (b', Opened f) \<Longrightarrow> norm_value md mb d v b = norm_frame md mb f b'"
  using capture_Opened [of md mb v d b b' f] by (auto simp: norm_value.simps [of md mb d v b])

lemma norm_value_Leaf: "capture md mb v d b = Inr (b', Leaf j) \<Longrightarrow> norm_value md mb d v b = Inr (b', j)"
  by (simp add: norm_value.simps)

lemma norm_value_Inl: "capture md mb v d b = Inl e \<Longrightarrow> norm_value md mb d v b = Inl e"
  by (simp add: norm_value.simps)

lemma norm_frame_next:
  "next_entry f = Some (Some v) \<Longrightarrow>
   norm_frame md mb f b = rbind (norm_value md mb (frame_depth f + 1) v b) (\<lambda>(b', j). norm_frame md mb (attach f j) b')"
  by (induction f rule: next_entry.induct) (auto simp: split_def intro!: rbind_cong)

lemma norm_frame_hole: "next_entry f = Some None \<Longrightarrow> norm_frame md mb f b = Inl InvalidJsonValue"
  by (induction f rule: next_entry.induct) auto

lemma norm_frame_done: "next_entry f = None \<Longrightarrow> norm_frame md mb f b = Inr (b, close_frame f)"
  by (induction f rule: next_entry.induct) auto

lemma walk_frames_norm:
  "walk_frames md mb f fs b = rbind (norm_frame md mb f b) (\<lambda>(b', j). resume md mb j fs b')"
proof (induction "frame_weight f + sum_list (map pending_weight fs)" arbitrary: f fs b rule: less_induct)
  case less
  consider (finished) "next_entry f = None" | (hole) "next_entry f = Some None"
    | (child) v where "next_entry f = Some (Some v)" by (metis option.exhaust)
  then show ?case
  proof cases
    case finished
    then show ?thesis
      by (subst walk_frames.simps) (simp add: norm_frame_done split: list.split)
  next
    case hole
    then show ?thesis by (subst walk_frames.simps) (simp add: norm_frame_hole)
  next
    case (child v)
    let ?cap = "capture md mb v (frame_depth f + 1) b"
    have weight: "frame_weight f = pending_weight f + 1 + value_weight v"
      using pending_next_weight [OF child] by (simp add: entry_weight_def)
    have resumed: "walk_frames md mb (attach f j) fs b' =
        rbind (norm_frame md mb (attach f j) b') (\<lambda>(b', j). resume md mb j fs b')" for j b'
      using less.hyps [of "attach f j" fs] attach_weight [of f j] weight by simp
    show ?thesis
    proof (cases ?cap)
      case (Inl e)
      then show ?thesis
        by (subst walk_frames.simps) (simp add: child norm_frame_next norm_value_Inl)
    next
      case (Inr bc)
      obtain b' c where bc: "bc = (b', c)" by (cases bc)
      show ?thesis
      proof (cases c)
        case (Leaf j)
        with Inr bc show ?thesis
          by (subst walk_frames.simps) (simp add: child norm_frame_next norm_value_Leaf resumed)
      next
        case (Opened g)
        with Inr bc have cap: "?cap = Inr (b', Opened g)" by simp
        have "walk_frames md mb g (f # fs) b' =
            rbind (norm_frame md mb g b') (\<lambda>(b', j). resume md mb j (f # fs) b')"
          using less.hyps [of g "f # fs"] capture_Opened_weight [OF cap] weight by simp
        with cap show ?thesis
          by (subst walk_frames.simps)
            (simp add: child norm_frame_next norm_value_Opened resumed split_def cong: rbind_cong)
      qed
    qed
  qed
qed

text \<open>The explicit-stack walk is the recursive one.\<close>

lemma normalizeJson_eq: "normalizeJson v md mb = rbind (norm_value md mb 1 v 0) (\<lambda>(b, j). Inr j)"
proof (cases "capture md mb v 1 0")
  case (Inl e)
  then show ?thesis by (simp add: normalizeJson_def norm_value_Inl)
next
  case (Inr bc)
  obtain b c where "bc = (b, c)" by (cases bc)
  with Inr show ?thesis
    by (cases c) (simp_all add: normalizeJson_def norm_value_Leaf norm_value_Opened walk_frames_norm split_def)
qed

section \<open>What is admitted\<close>

fun to_json :: "js_value \<Rightarrow> json option" where
  "to_json VNull = Some JNull"
| "to_json (VBool b) = Some (JBool b)"
| "to_json (VNumber n) = (case n of Finite t \<Rightarrow> Some (JNum t) | _ \<Rightarrow> None)"
| "to_json (VString s) = Some (JStr s)"
| "to_json (VArray xs) =
     map_option JArr (those (map (\<lambda>x. case x of None \<Rightarrow> None | Some v \<Rightarrow> to_json v) xs))"
| "to_json (VObject plain kvs) =
     (if plain
      then map_option JObj (those (map (\<lambda>(k, x). case x of None \<Rightarrow> None | Some v \<Rightarrow> map_option (Pair k) (to_json v)) kvs))
      else None)"
| "to_json VOther = None"

fun value_ok :: "js_value \<Rightarrow> bool" where
  "value_ok (VNumber (Finite t)) = is_number_text t"
| "value_ok (VArray xs) = list_all (\<lambda>x. case x of None \<Rightarrow> True | Some v \<Rightarrow> value_ok v) xs"
| "value_ok (VObject plain kvs) =
     (distinct (map fst kvs) \<and> list_all (\<lambda>(k, x). case x of None \<Rightarrow> True | Some v \<Rightarrow> value_ok v) kvs)"
| "value_ok _ = True"

fun json_depth :: "json \<Rightarrow> nat" where
  "json_depth (JArr xs) = Suc (fold max (map json_depth xs) 0)"
| "json_depth (JObj kvs) = Suc (fold max (map (\<lambda>(k, v). json_depth v) kvs) 0)"
| "json_depth _ = 1"

definition canonical_bytes :: "json \<Rightarrow> nat" where
  "canonical_bytes j = utf8_length (canonical j)"

subsection \<open>Bytes of the canonical text\<close>

lemma utf8_append:
  "a = [] \<or> \<not> is_high (last a) \<Longrightarrow> utf8_length (a @ b) = utf8_length a + utf8_length b"
proof (induction a rule: utf8_length.induct)
  case (2 c)
  then show ?case by (simp add: utf8_Cons)
next
  case (3 c d cs)
  show ?case
  proof (cases "is_high c \<and> is_low d")
    case True
    with 3 have "cs = [] \<or> \<not> is_high (last cs)" by auto
    with True 3 show ?thesis by (simp add: utf8_pair)
  next
    case False
    with 3 show ?thesis by (auto simp: utf8_length.simps)
  qed
qed simp

lemma utf8_ascii: "list_all (\<lambda>c. c \<le> 0x7f) a \<Longrightarrow> utf8_length (a @ b) = length a + utf8_length b"
  by (induction a) (auto simp: utf8_small)

lemma number_text_ascii: "is_number_text t \<Longrightarrow> list_all (\<lambda>c. c \<le> 0x7f) t"
  by (auto simp: is_number_text_def list_all_iff is_number_unit_def is_digit_def word_le_nat_alt)

lemma stringify_last: "json_ok v \<Longrightarrow> stringify v \<noteq> [] \<and> \<not> is_high (last (stringify v))"
proof (cases v)
  case (JNum t)
  moreover assume "json_ok v"
  ultimately have "is_number_text t" by simp
  then have "t \<noteq> []" and "last t \<le> 0x7f"
    using number_text_ascii [of t] by (auto simp: is_number_text_def list_all_iff)
  moreover have "last t \<le> 0x7ff" using \<open>last t \<le> 0x7f\<close> by unat_arith
  ultimately show ?thesis using JNum small_not_surrogate by auto
qed (auto simp: js_def quote_def is_high_def)

lemma utf8_stringify:
  "json_ok v \<Longrightarrow> utf8_length (stringify v @ r) = utf8_length (stringify v) + utf8_length r"
  using stringify_last [of v] by (simp add: utf8_append)

lemma utf8_js_comma [simp]: "utf8_length (js '','' @ r) = Suc (utf8_length r)"
  and utf8_js_colon [simp]: "utf8_length (js '':'' @ r) = Suc (utf8_length r)"
  by (simp_all add: js_def utf8_small)

lemma utf8_join_commas:
  assumes "\<And>x r. x \<in> set xs \<Longrightarrow> utf8_length (f x @ r) = g x + utf8_length r"
  shows "utf8_length (join_commas (map f xs) @ r) = sum_list (map g xs) + (length xs - 1) + utf8_length r"
  using assms
proof (induction xs arbitrary: r)
  case (Cons x xs)
  then show ?case by (cases xs) (simp_all add: join_commas_Cons [of "f x"] del: join_commas.simps(3))
qed simp

lemma canonical_bytes_append: "json_ok v \<Longrightarrow> utf8_length (canonical v @ r) = canonical_bytes v + utf8_length r"
  by (simp add: canonical_bytes_def canonical_def utf8_stringify json_ok_canon_form)

lemma canonical_bytes_array:
  assumes "json_ok (JArr xs)"
  shows "canonical_bytes (JArr xs) = 2 + (length xs - 1) + sum_list (map canonical_bytes xs)"
proof -
  have "utf8_length (join_commas (map canonical xs) @ js '']'') =
      sum_list (map canonical_bytes xs) + (length xs - 1) + utf8_length (js '']'')"
    using assms by (intro utf8_join_commas) (simp add: list_all_iff canonical_bytes_append)
  then show ?thesis
    by (simp add: canonical_bytes_def [of "JArr xs"] canonical_array) (simp add: js_def utf8_small)
qed

lemma canonical_bytes_object:
  assumes "json_ok (JObj kvs)"
  shows "canonical_bytes (JObj kvs) =
     2 + (length kvs - 1) + sum_list (map (\<lambda>(k, v). jsonStringBytes k + 1 + canonical_bytes v) kvs)"
proof -
  let ?g = "\<lambda>(k, v). jsonStringBytes k + 1 + canonical_bytes v"
  have "utf8_length (join_commas (map (\<lambda>(k, v). quote k @ js '':'' @ canonical v) (sorted_members kvs)) @ js ''}'') =
      sum_list (map ?g (sorted_members kvs)) + (length (sorted_members kvs) - 1) + utf8_length (js ''}'')"
    using assms
    by (intro utf8_join_commas)
      (auto simp: list_all_iff canonical_bytes_append utf8_quote jsonStringBytes_eq)
  moreover have "length (sorted_members kvs) = length kvs" by (simp add: sorted_members_def)
  ultimately show ?thesis
    by (simp add: canonical_bytes_def [of "JObj kvs"] canonical_object sum_sorted_members)
      (simp add: js_def utf8_small)
qed

lemma canonical_bytes_primitive:
  "json_ok v \<Longrightarrow> (\<forall>xs. v \<noteq> JArr xs) \<Longrightarrow> (\<forall>kvs. v \<noteq> JObj kvs) \<Longrightarrow>
   canonical_bytes v = primitiveCanonicalBytes v"
  using number_text_ascii utf8_ascii [of _ "[]"]
  by (cases v) (auto simp: canonical_bytes_def canonical_def js_def utf8_small jsonStringBytes_utf8)

subsection \<open>The admission decision\<close>

definition within :: "int option \<Rightarrow> nat \<Rightarrow> bool" where
  "within mb b \<longleftrightarrow> (case mb of None \<Rightarrow> True | Some m \<Rightarrow> int b \<le> m)"

definition shallow :: "int option \<Rightarrow> int \<Rightarrow> bool" where
  "shallow md d \<longleftrightarrow> (case md of None \<Rightarrow> True | Some m \<Rightarrow> d \<le> m)"

lemma within_mono: "within mb (b + n) \<Longrightarrow> within mb b"
  by (auto simp: within_def split: option.splits)

lemma shallow_mono: "shallow md d \<Longrightarrow> d' \<le> d \<Longrightarrow> shallow md d'"
  by (auto simp: shallow_def split: option.splits)

lemma addBytes_eq: "addBytes mb b n = (if within mb (b + n) then Inr (b + n) else Inl JsonTooLarge)"
  by (auto simp: addBytes_def within_def split: option.splits)

lemma add_key_bytes_eq:
  "within mb b \<Longrightarrow>
   add_key_bytes mb b ks =
     (let t = b + sum_list (map (\<lambda>k. jsonStringBytes k + 1) ks)
      in if within mb t then Inr t else Inl JsonTooLarge)"
proof (induction ks arbitrary: b)
  case (Cons k ks)
  let ?n = "jsonStringBytes k + 1" and ?s = "sum_list (map (\<lambda>k. jsonStringBytes k + 1) ks)"
  show ?case
  proof (cases "within mb (b + ?n)")
    case True
    then show ?thesis by (simp add: addBytes_eq Cons.IH Let_def add.assoc)
  next
    case False
    then have "\<not> within mb (b + ?n + ?s)" using within_mono by blast
    with False show ?thesis by (simp add: addBytes_eq Let_def add.assoc)
  qed
qed (simp add: Let_def)

lemma those_eq_Some: "those xs = Some ys \<longleftrightarrow> xs = map Some ys"
proof (induction xs arbitrary: ys)
  case (Cons x xs)
  then show ?case by (cases x; cases ys) auto
qed auto

definition entry_json :: "js_value option \<Rightarrow> json option" where
  "entry_json x = (case x of None \<Rightarrow> None | Some v \<Rightarrow> to_json v)"

lemma entry_json_simps [simp]: "entry_json (Some v) = to_json v" "entry_json None = None"
  by (simp_all add: entry_json_def)

definition entry_ok :: "js_value option \<Rightarrow> bool" where
  "entry_ok x = (case x of None \<Rightarrow> True | Some v \<Rightarrow> value_ok v)"

lemma to_json_array: "to_json (VArray xs) = Some j \<longleftrightarrow> (\<exists>js. j = JArr js \<and> map entry_json xs = map Some js)"
  by (auto simp: entry_json_def [abs_def] those_eq_Some)

lemma to_json_object:
  "to_json (VObject plain kvs) = Some j \<longleftrightarrow>
   plain \<and> (\<exists>ms. j = JObj ms \<and> map fst kvs = map fst ms \<and> map (entry_json \<circ> snd) kvs = map (Some \<circ> snd) ms)"
proof -
  have eq: "(\<lambda>(k, x). case x of None \<Rightarrow> None | Some v \<Rightarrow> map_option (Pair k) (to_json v)) =
      (\<lambda>p. map_option (Pair (fst p)) (entry_json (snd p)))"
    by (auto simp: entry_json_def fun_eq_iff split: option.splits)
  have "map (\<lambda>p. map_option (Pair (fst p)) (entry_json (snd p))) kvs = map Some ms \<longleftrightarrow>
      map fst kvs = map fst ms \<and> map (entry_json \<circ> snd) kvs = map (Some \<circ> snd) ms" for ms
  proof (induction kvs arbitrary: ms)
    case (Cons p kvs)
    then show ?case by (cases ms) auto
  qed simp
  then show ?thesis
    unfolding to_json.simps eq by (auto simp: those_eq_Some)
qed

lemma value_ok_array: "value_ok (VArray xs) \<longleftrightarrow> list_all entry_ok xs"
  unfolding entry_ok_def [abs_def] by simp

lemma value_ok_object:
  "value_ok (VObject plain kvs) \<longleftrightarrow> distinct (map fst kvs) \<and> list_all (entry_ok \<circ> snd) kvs"
  by (simp add: entry_ok_def [abs_def] comp_def split_def)

declare value_ok.simps(2,3) [simp del] to_json.simps(5,6) [simp del]

text \<open>What is copied from a well-formed value is well formed.\<close>

lemma json_ok_to_json: "value_ok v \<Longrightarrow> to_json v = Some j \<Longrightarrow> json_ok j"
proof (induction v arbitrary: j)
  case (VNumber n)
  then show ?case by (cases n) auto
next
  case (VArray xs)
  then obtain ys where j: "j = JArr ys" and ys: "map entry_json xs = map Some ys"
    by (auto simp: to_json_array)
  have "json_ok y" if "y \<in> set ys" for y
  proof -
    from that ys obtain x where "x \<in> set xs" "entry_json x = Some y"
      by (metis (no_types, lifting) imageE image_eqI list.set_map)
    with VArray show ?thesis
      by (cases x) (fastforce simp: entry_json_def value_ok_array list_all_iff entry_ok_def)+
  qed
  with j show ?case by (simp add: list_all_iff)
next
  case (VObject plain kvs)
  then obtain ms where j: "j = JObj ms" and keys: "map fst kvs = map fst ms"
    and ms: "map (entry_json \<circ> snd) kvs = map (Some \<circ> snd) ms"
    by (auto simp: to_json_object)
  have "json_ok (snd m)" if "m \<in> set ms" for m
  proof -
    from that have "(Some \<circ> snd) m \<in> set (map (entry_json \<circ> snd) kvs)" unfolding ms by auto
    then obtain p where "p \<in> set kvs" "entry_json (snd p) = Some (snd m)" by auto
    with VObject.prems VObject.IH [of p "snd p"] show ?thesis
      by (cases "snd p") (fastforce simp: entry_json_def value_ok_object list_all_iff entry_ok_def
          prod_set_simps snds.simps option.set_intros)+
  qed
  with j keys VObject.prems show ?case by (auto simp: list_all_iff value_ok_object)
qed auto

lemma fold_max_le: "fold max xs (m :: nat) \<le> n \<longleftrightarrow> m \<le> n \<and> (\<forall>x \<in> set xs. x \<le> n)"
  by (induction xs arbitrary: m) auto

lemma fold_max_attained: "fold max xs (m :: nat) \<in> insert m (set xs)"
  by (induction xs arbitrary: m) (auto simp: max_def)

lemma shallow_fold_max:
  "shallow md (d + int (fold max xs 0)) \<longleftrightarrow> shallow md d \<and> (\<forall>x \<in> set xs. shallow md (d + int x))"
  using fold_max_attained [of xs 0] fold_max_le [of xs 0 "fold max xs 0"]
  by (auto intro: shallow_mono)

text \<open>The cost and depth of a value's children and what the whole costs.\<close>

definition members_bytes :: "(js_string \<times> json) list \<Rightarrow> nat" where
  "members_bytes ms = sum_list (map (canonical_bytes \<circ> snd) ms)"

lemma capture_leaf_eq:
  "within mb b \<Longrightarrow> capture_leaf mb b v =
     (if within mb (b + primitiveCanonicalBytes v) then Inr (b + primitiveCanonicalBytes v, Leaf v)
      else Inl JsonTooLarge)"
  by (simp add: capture_leaf_def addBytes_eq)

lemma capture_shallow: "\<not> shallow md d \<Longrightarrow> capture md mb v d b = Inl JsonTooDeep"
  by (auto simp: capture_def shallow_def split: option.splits)

lemma capture_primitive:
  assumes "within mb b" and "to_json v = Some j" and "\<forall>xs. v \<noteq> VArray xs" and "\<forall>p kvs. v \<noteq> VObject p kvs"
  shows "capture md mb v d b =
     (if shallow md d then
        if within mb (b + primitiveCanonicalBytes j) then Inr (b + primitiveCanonicalBytes j, Leaf j)
        else Inl JsonTooLarge
      else Inl JsonTooDeep)"
  using assms
  by (cases v) (auto simp: capture_def shallow_def capture_leaf_eq split: option.splits js_number.splits)

lemma capture_array:
  assumes "within mb b"
  shows "capture md mb (VArray xs) d b =
     (if shallow md d then
        if within mb (b + (2 + (length xs - 1)))
        then Inr (b + (2 + (length xs - 1)), if xs = [] then Leaf (JArr []) else Opened (ArrayFrame d xs []))
        else Inl JsonTooLarge
      else Inl JsonTooDeep)"
  by (auto simp: capture_def shallow_def addBytes_eq split: option.splits)

definition object_bytes :: "js_string list \<Rightarrow> nat" where
  "object_bytes ks = 2 + (length ks - 1) + sum_list (map (\<lambda>k. jsonStringBytes k + 1) ks)"

lemma capture_object:
  assumes "within mb b"
  shows "capture md mb (VObject plain kvs) d b =
     (if \<not> shallow md d then Inl JsonTooDeep
      else if \<not> plain then Inl InvalidJsonValue
      else if within mb (b + object_bytes (map fst kvs))
      then Inr (b + object_bytes (map fst kvs), if kvs = [] then Leaf (JObj []) else Opened (ObjectFrame d kvs []))
      else Inl JsonTooLarge)"
proof -
  let ?b1 = "b + (2 + (length kvs - 1))"
  have total: "b + object_bytes (map fst kvs) = ?b1 + sum_list (map (\<lambda>k. jsonStringBytes k + 1) (map fst kvs))"
    by (simp add: object_bytes_def)
  have "\<not> within mb ?b1 \<Longrightarrow> \<not> within mb (b + object_bytes (map fst kvs))"
    unfolding total using within_mono by blast
  moreover have "within mb ?b1 \<Longrightarrow> add_key_bytes mb ?b1 (map fst kvs) =
      (if within mb (b + object_bytes (map fst kvs)) then Inr (b + object_bytes (map fst kvs)) else Inl JsonTooLarge)"
    unfolding total by (simp only: add_key_bytes_eq Let_def)
  moreover have "capture md mb (VObject plain kvs) d b =
     (if \<not> shallow md d then Inl JsonTooDeep else if \<not> plain then Inl InvalidJsonValue
      else if within mb ?b1 then rbind (add_key_bytes mb ?b1 (map fst kvs)) (\<lambda>b'.
        Inr (b', if kvs = [] then Leaf (JObj []) else Opened (ObjectFrame d kvs []))) else Inl JsonTooLarge)"
    by (simp add: capture_def shallow_def addBytes_eq split: option.splits)
  ultimately show ?thesis by simp
qed

lemma sum_members:
  "map fst ms = ks \<Longrightarrow>
   sum_list (map (\<lambda>(k, v). jsonStringBytes k + 1 + canonical_bytes v) ms) =
   sum_list (map (\<lambda>k. jsonStringBytes k + 1) ks) + members_bytes ms"
  by (induction ms arbitrary: ks) (auto simp: members_bytes_def)

lemma canonical_bytes_object':
  assumes "json_ok (JObj ms)"
  shows "canonical_bytes (JObj ms) = object_bytes (map fst ms) + members_bytes ms"
  unfolding canonical_bytes_object [OF assms] sum_members [OF refl] object_bytes_def by simp

definition entry_shallow :: "int option \<Rightarrow> int \<Rightarrow> json \<Rightarrow> bool" where
  "entry_shallow md d j \<longleftrightarrow> shallow md (d + int (json_depth j) - 1)"

lemma shallow_array:
  "shallow md (d + int (json_depth (JArr xs)) - 1) \<longleftrightarrow>
   shallow md d \<and> (\<forall>x \<in> set xs. entry_shallow md (d + 1) x)"
  using shallow_fold_max [of md d "map json_depth xs"] by (simp add: entry_shallow_def)

lemma shallow_object:
  "shallow md (d + int (json_depth (JObj ms)) - 1) \<longleftrightarrow>
   shallow md d \<and> (\<forall>p \<in> set ms. entry_shallow md (d + 1) (snd p))"
  using shallow_fold_max [of md d "map (json_depth \<circ> snd) ms"]
  by (simp add: entry_shallow_def comp_def split_def)

text \<open>
  Walking one entry and then the rest: when each part decides by its own cost and depth, so does
  the whole. Shared by arrays and objects.
\<close>

lemma decide_sequence:
  assumes head: "\<And>b1 j. run_head = Inr (b1, j) \<longleftrightarrow> P j \<and> b1 = b + canonical_bytes j \<and> within mb b1 \<and> Q j"
    and tail: "\<And>b1 j b' zs. run_head = Inr (b1, j) \<Longrightarrow>
      run_tail b1 = Inr (b', zs) \<longleftrightarrow> R zs \<and> b' = b1 + cost zs \<and> within mb b' \<and> S zs"
  shows "(\<exists>b1. run_head = Inr (b1, j) \<and> run_tail b1 = Inr (b', zs)) \<longleftrightarrow>
     P j \<and> R zs \<and> b' = b + canonical_bytes j + cost zs \<and> within mb b' \<and> Q j \<and> S zs"
proof
  assume "\<exists>b1. run_head = Inr (b1, j) \<and> run_tail b1 = Inr (b', zs)"
  then obtain b1 where h: "run_head = Inr (b1, j)" and t: "run_tail b1 = Inr (b', zs)" by blast
  from h have "P j" "b1 = b + canonical_bytes j" "Q j" using head by blast+
  moreover from t have "R zs" "b' = b1 + cost zs" "within mb b'" "S zs" using tail [OF h] by blast+
  ultimately show "P j \<and> R zs \<and> b' = b + canonical_bytes j + cost zs \<and> within mb b' \<and> Q j \<and> S zs"
    by simp
next
  assume *: "P j \<and> R zs \<and> b' = b + canonical_bytes j + cost zs \<and> within mb b' \<and> Q j \<and> S zs"
  let ?b1 = "b + canonical_bytes j"
  from * have "within mb ?b1" using within_mono [of mb ?b1 "cost zs"] by blast
  with * have run: "run_head = Inr (?b1, j)" by (simp add: head)
  with * have "run_tail ?b1 = Inr (b', zs)" by (auto simp: tail [OF run])
  with run show "\<exists>b1. run_head = Inr (b1, j) \<and> run_tail b1 = Inr (b', zs)" by blast
qed

text \<open>The opening brackets, separators and keys are charged before the children.\<close>

lemma decide_container:
  assumes children: "shallow md d \<Longrightarrow> within mb (b + open_cost) \<Longrightarrow>
      run (b + open_cost) = Inr (b', zs) \<longleftrightarrow> R \<and> b' = b + open_cost + cost \<and> within mb b' \<and> S"
    and cost: "R \<Longrightarrow> whole = open_cost + cost"
  shows "(shallow md d \<and> within mb (b + open_cost) \<and> run (b + open_cost) = Inr (b', zs)) \<longleftrightarrow>
     R \<and> b' = b + whole \<and> within mb b' \<and> shallow md d \<and> S"
proof
  assume l: "shallow md d \<and> within mb (b + open_cost) \<and> run (b + open_cost) = Inr (b', zs)"
  then have "R \<and> b' = b + open_cost + cost \<and> within mb b' \<and> S" using children by blast
  with l cost show "R \<and> b' = b + whole \<and> within mb b' \<and> shallow md d \<and> S" by auto
next
  assume r: "R \<and> b' = b + whole \<and> within mb b' \<and> shallow md d \<and> S"
  with cost have eq: "b' = b + open_cost + cost" by simp
  with r have "within mb (b + open_cost + cost)" by auto
  then have "within mb (b + open_cost)" by (rule within_mono)
  with r eq children show "shallow md d \<and> within mb (b + open_cost) \<and> run (b + open_cost) = Inr (b', zs)"
    by blast
qed

lemma norm_value_array:
  "within mb b \<Longrightarrow>
   norm_value md mb d (VArray xs) b = Inr (b', j) \<longleftrightarrow>
   shallow md d \<and> within mb (b + (2 + (length xs - 1))) \<and>
   (\<exists>ys. j = JArr ys \<and> norm_elems md mb (d + 1) xs (b + (2 + (length xs - 1))) = Inr (b', ys))"
  by (auto simp: norm_value.simps capture_array rbind_eq_Inr)

lemma norm_value_object:
  "within mb b \<Longrightarrow>
   norm_value md mb d (VObject plain kvs) b = Inr (b', j) \<longleftrightarrow>
   plain \<and> shallow md d \<and> within mb (b + object_bytes (map fst kvs)) \<and>
   (\<exists>ms. j = JObj ms \<and> norm_members md mb (d + 1) kvs (b + object_bytes (map fst kvs)) = Inr (b', ms))"
  by (auto simp: norm_value.simps capture_object rbind_eq_Inr)

lemma norm_value_primitive:
  assumes "value_ok v" "within mb b" "\<forall>xs. v \<noteq> VArray xs" "\<forall>p kvs. v \<noteq> VObject p kvs"
  shows "norm_value md mb d v b = Inr (b', j) \<longleftrightarrow>
     to_json v = Some j \<and> b' = b + canonical_bytes j \<and> within mb b' \<and> entry_shallow md d j"
proof (cases "to_json v")
  case None
  with assms show ?thesis
    by (cases v) (auto simp: norm_value.simps capture_def rbind_eq_Inr split: js_number.splits)
next
  case (Some l)
  with assms have "canonical_bytes l = primitiveCanonicalBytes l" and "json_depth l = 1"
    by (cases v; auto simp: canonical_bytes_primitive split: js_number.splits)+
  with Some assms show ?thesis
    by (auto simp: norm_value.simps capture_primitive entry_shallow_def rbind_eq_Inr)
qed

lemma norm_decides:
  "value_ok v \<Longrightarrow> within mb b \<Longrightarrow>
     norm_value md mb d v b = Inr (b', j) \<longleftrightarrow>
     to_json v = Some j \<and> b' = b + canonical_bytes j \<and> within mb b' \<and> entry_shallow md d j"
  "list_all entry_ok xs \<Longrightarrow> within mb b \<Longrightarrow>
     norm_elems md mb d xs b = Inr (b', ys) \<longleftrightarrow>
     map entry_json xs = map Some ys \<and> b' = b + sum_list (map canonical_bytes ys) \<and> within mb b' \<and>
     (\<forall>y \<in> set ys. entry_shallow md d y)"
  "list_all (entry_ok \<circ> snd) kvs \<Longrightarrow> within mb b \<Longrightarrow>
     norm_members md mb d kvs b = Inr (b', ms) \<longleftrightarrow>
     map fst kvs = map fst ms \<and> map (entry_json \<circ> snd) kvs = map (Some \<circ> snd) ms \<and>
     b' = b + members_bytes ms \<and> within mb b' \<and> (\<forall>p \<in> set ms. entry_shallow md d (snd p))"
proof (induction md mb d v b and md mb d xs b and md mb d kvs b arbitrary: b' j and b' ys and b' ms
    rule: norm_value_norm_elems_norm_members.induct)
  case (1 md mb d v b)
  show ?case
  proof (cases v)
    case (VArray xs)
    let ?open = "2 + (length xs - 1)"
    have children: "norm_elems md mb (d + 1) xs (b + ?open) = Inr (b', ys) \<longleftrightarrow>
        map entry_json xs = map Some ys \<and> b' = b + ?open + sum_list (map canonical_bytes ys) \<and>
        within mb b' \<and> (\<forall>y \<in> set ys. entry_shallow md (d + 1) y)"
      if "shallow md d" "within mb (b + ?open)" for ys
    proof (cases "xs = []")
      case False
      with that "1.prems" VArray
      have "capture md mb v d b = Inr (b + ?open, Opened (ArrayFrame d xs []))" by (simp add: capture_array)
      with "1.IH"(1) "1.prems" VArray that show ?thesis by (simp add: value_ok_array)
    qed (use that in auto)
    have cost: "canonical_bytes (JArr ys) = ?open + sum_list (map canonical_bytes ys)"
      if "map entry_json xs = map Some ys" for ys
      using that json_ok_to_json [OF "1.prems"(1), of "JArr ys"] VArray canonical_bytes_array [of ys]
        map_eq_imp_length_eq [OF that] by (simp add: to_json_array)
    have "norm_value md mb d v b = Inr (b', j) \<longleftrightarrow> (\<exists>ys. j = JArr ys \<and>
        (shallow md d \<and> within mb (b + ?open) \<and> norm_elems md mb (d + 1) xs (b + ?open) = Inr (b', ys)))"
      using "1.prems"(2) VArray norm_value_array by blast
    moreover have "(shallow md d \<and> within mb (b + ?open) \<and>
          norm_elems md mb (d + 1) xs (b + ?open) = Inr (b', ys)) \<longleftrightarrow>
        (map entry_json xs = map Some ys \<and> b' = b + canonical_bytes (JArr ys) \<and> within mb b' \<and>
          shallow md d \<and> (\<forall>y \<in> set ys. entry_shallow md (d + 1) y))" for ys
      by (rule decide_container [where run = "norm_elems md mb (d + 1) xs", OF children cost])
    ultimately show ?thesis
      using VArray by (simp only: to_json_array entry_shallow_def [of md d]) (auto simp only: shallow_array)
  next
    case (VObject plain kvs)
    let ?open = "object_bytes (map fst kvs)"
    let ?R = "\<lambda>ms. map fst kvs = map fst ms \<and> map (entry_json \<circ> snd) kvs = map (Some \<circ> snd) ms"
    have children: "norm_members md mb (d + 1) kvs (b + ?open) = Inr (b', ms) \<longleftrightarrow>
        ?R ms \<and> b' = b + ?open + members_bytes ms \<and> within mb b' \<and>
        (\<forall>p \<in> set ms. entry_shallow md (d + 1) (snd p))"
      if plain "shallow md d" "within mb (b + ?open)" for ms
    proof (cases "kvs = []")
      case False
      with that "1.prems" VObject
      have "capture md mb v d b = Inr (b + ?open, Opened (ObjectFrame d kvs []))" by (simp add: capture_object)
      with "1.IH"(2) "1.prems" VObject that show ?thesis
        by (simp add: value_ok_object comp_def)
    qed (use that in \<open>auto simp: members_bytes_def\<close>)
    have cost: "canonical_bytes (JObj ms) = ?open + members_bytes ms" if plain "?R ms" for ms
      using that json_ok_to_json [OF "1.prems"(1), of "JObj ms"] VObject canonical_bytes_object' [of ms]
      by (simp add: to_json_object)
    have "norm_value md mb d v b = Inr (b', j) \<longleftrightarrow> plain \<and> (\<exists>ms. j = JObj ms \<and>
        (shallow md d \<and> within mb (b + ?open) \<and> norm_members md mb (d + 1) kvs (b + ?open) = Inr (b', ms)))"
      using "1.prems"(2) VObject norm_value_object by blast
    moreover have "(shallow md d \<and> within mb (b + ?open) \<and>
          norm_members md mb (d + 1) kvs (b + ?open) = Inr (b', ms)) \<longleftrightarrow>
        (?R ms \<and> b' = b + canonical_bytes (JObj ms) \<and> within mb b' \<and> shallow md d \<and>
          (\<forall>p \<in> set ms. entry_shallow md (d + 1) (snd p)))" if plain for ms
      by (rule decide_container [where run = "norm_members md mb (d + 1) kvs",
            OF children [OF that] cost [OF that]])
    ultimately show ?thesis
      using VObject by (cases plain; simp only: to_json_object entry_shallow_def [of md d]) (metis shallow_object)+
  qed (use 1 in \<open>simp_all add: norm_value_primitive\<close>)
next
  case (4 md mb d v xs b)
  note prems = "4.prems"
  show ?case
  proof (cases ys)
    case (Cons y zs)
    have "norm_elems md mb d (Some v # xs) b = Inr (b', ys) \<longleftrightarrow>
        (\<exists>b1. norm_value md mb d v b = Inr (b1, y) \<and> norm_elems md mb d xs b1 = Inr (b', zs))"
      using Cons by (auto simp: rbind_eq_Inr)
    also have "\<dots> \<longleftrightarrow> to_json v = Some y \<and> map entry_json xs = map Some zs \<and>
        b' = b + canonical_bytes y + sum_list (map canonical_bytes zs) \<and> within mb b' \<and>
        entry_shallow md d y \<and> (\<forall>z \<in> set zs. entry_shallow md d z)"
    proof (rule decide_sequence)
      show head: "norm_value md mb d v b = Inr (b1, j) \<longleftrightarrow>
          to_json v = Some j \<and> b1 = b + canonical_bytes j \<and> within mb b1 \<and> entry_shallow md d j" for b1 j
        using "4.IH"(1) [of b1 j] prems by (simp add: entry_ok_def)
      show "norm_elems md mb d xs b1 = Inr (b'', zs') \<longleftrightarrow> map entry_json xs = map Some zs' \<and>
          b'' = b1 + sum_list (map canonical_bytes zs') \<and> within mb b'' \<and> (\<forall>z \<in> set zs'. entry_shallow md d z)"
        if "norm_value md mb d v b = Inr (b1, j)" for b1 j b'' zs'
      proof -
        from that have "within mb b1" using head by blast
        with prems show ?thesis using "4.IH"(2) [OF that refl, of b'' zs'] by simp
      qed
    qed
    finally show ?thesis using Cons by (auto simp: add.assoc)
  qed (auto simp: rbind_eq_Inr)
next
  case (7 md mb d k v kvs b)
  note prems = "7.prems"
  show ?case
  proof (cases ms)
    case (Cons m ns)
    let ?R = "\<lambda>ns. map fst kvs = map fst ns \<and> map (entry_json \<circ> snd) kvs = map (Some \<circ> snd) ns"
    have "norm_members md mb d ((k, Some v) # kvs) b = Inr (b', ms) \<longleftrightarrow>
        fst m = k \<and> (\<exists>b1. norm_value md mb d v b = Inr (b1, snd m) \<and> norm_members md mb d kvs b1 = Inr (b', ns))"
      using Cons by (cases m) (auto simp: rbind_eq_Inr)
    also have "(\<exists>b1. norm_value md mb d v b = Inr (b1, snd m) \<and> norm_members md mb d kvs b1 = Inr (b', ns)) \<longleftrightarrow>
        to_json v = Some (snd m) \<and> ?R ns \<and> b' = b + canonical_bytes (snd m) + members_bytes ns \<and>
        within mb b' \<and> entry_shallow md d (snd m) \<and> (\<forall>p \<in> set ns. entry_shallow md d (snd p))"
    proof (rule decide_sequence)
      show head: "norm_value md mb d v b = Inr (b1, j) \<longleftrightarrow>
          to_json v = Some j \<and> b1 = b + canonical_bytes j \<and> within mb b1 \<and> entry_shallow md d j" for b1 j
        using "7.IH"(1) [of b1 j] prems by (simp add: entry_ok_def)
      show "norm_members md mb d kvs b1 = Inr (b'', ns') \<longleftrightarrow> ?R ns' \<and>
          b'' = b1 + members_bytes ns' \<and> within mb b'' \<and> (\<forall>p \<in> set ns'. entry_shallow md d (snd p))"
        if "norm_value md mb d v b = Inr (b1, j)" for b1 j b'' ns'
      proof -
        from that have "within mb b1" using head by blast
        with prems show ?thesis using "7.IH"(2) [OF that refl, of b'' ns'] by (simp add: comp_def)
      qed
    qed
    finally show ?thesis using Cons by (auto simp: members_bytes_def add.assoc comp_def)
  qed (auto simp: rbind_eq_Inr)
qed (auto simp: members_bytes_def Cons_eq_map_conv)

section \<open>What the exported operations decide\<close>

lemma normalizeJson_iff:
  assumes "value_ok v" and "\<forall>m. mb = Some m \<longrightarrow> 0 \<le> m"
  shows "normalizeJson v md mb = Inr j \<longleftrightarrow>
     to_json v = Some j \<and> within mb (canonical_bytes j) \<and> shallow md (int (json_depth j))"
proof -
  have "within mb 0" using assms(2) by (auto simp: within_def split: option.splits)
  with assms(1) show ?thesis
    by (auto simp: normalizeJson_eq rbind_eq_Inr norm_decides(1) entry_shallow_def)
qed

text \<open>A value that is JSON and is refused within budgets is refused for one of the budgets.\<close>

lemma normalizeJsonValue_iff: "value_ok v \<Longrightarrow> normalizeJsonValue v = Inr j \<longleftrightarrow> to_json v = Some j"
  by (simp add: normalizeJsonValue_def normalizeJson_iff within_def shallow_def)

section \<open>Properties\<close>

text \<open>C15: under host budgets \<open>normalizeJsonValueWithin\<close> returns a detached copy of exactly
  those values that are JSON, nest no deeper than \<open>maxDepth\<close> and whose canonical text
  (\<open>serializeCanonicalJsonValue\<close>) is at most \<open>maxBytes\<close> UTF-8 bytes long, although the code
  counts the bytes while it walks and never builds the text; invalid budgets refuse everything.\<close>

theorem admission_within_budgets:
  assumes "value_ok v"
  shows "normalizeJsonValueWithin v limits = Inr j \<longleftrightarrow>
     is_positive_safe_integer (maxDepth limits) \<and> is_positive_safe_integer (maxBytes limits) \<and>
     to_json v = Some j \<and> int (json_depth j) \<le> maxDepth limits \<and>
     int (utf8_length (serializeCanonicalJsonValue j)) \<le> maxBytes limits"
proof -
  have "normalizeJson v (Some (maxDepth limits)) (Some (maxBytes limits)) = Inr j \<longleftrightarrow>
      to_json v = Some j \<and> within (Some (maxBytes limits)) (canonical_bytes j) \<and>
      shallow (Some (maxDepth limits)) (int (json_depth j))" if "1 \<le> maxBytes limits"
    using that assms by (intro normalizeJson_iff) auto
  then show ?thesis
    by (auto simp: normalizeJsonValueWithin_def captureJsonValueLimits_def rbind_eq_Inr
        is_positive_safe_integer_def within_def shallow_def canonical_bytes_def serialize_eq_canonical)
qed

theorem admission_within_budgets_witness:
  "normalizeJsonValueWithin (VArray [Some (VString (js ''hi'')), Some VNull]) \<lparr>maxDepth = 2, maxBytes = 11\<rparr>
     = Inr (JArr [JStr (js ''hi''), JNull]) \<and>
   normalizeJsonValueWithin (VArray [Some (VString (js ''hi'')), Some VNull]) \<lparr>maxDepth = 2, maxBytes = 10\<rparr>
     \<noteq> Inr (JArr [JStr (js ''hi''), JNull])"
  by (subst (1 2) admission_within_budgets)
    (simp_all add: js_def value_ok_array entry_ok_def to_json_array is_positive_safe_integer_def
      is_safe_integer_def max_safe_integer_def serialize_eq_canonical canonical_def quote_def
      is_short_escape_def is_high_def is_low_def utf8_length.simps)

text \<open>C16: the canonical texts of two JSON values agree exactly when the values agree after sorting
  the members of every object by key, so equality of canonical texts decides equality of the
  values up to key order.\<close>

theorem canonical_text_identifies:
  assumes "value_ok v" and "value_ok w"
    and "normalizeJsonValue v = Inr a" and "normalizeJsonValue w = Inr b"
  shows "canonicalizeJsonValue v = canonicalizeJsonValue w \<longleftrightarrow> canon_form a = canon_form b"
  using assms(1,2) canonical_eq_iff [of a b] json_ok_to_json [of v a] json_ok_to_json [of w b]
    normalizeJsonValue_iff [of v a] normalizeJsonValue_iff [of w b]
  by (simp add: canonicalizeJsonValue_def serialize_eq_canonical assms(3,4))

theorem canonical_text_identifies_witness:
  "canonicalizeJsonValue (VObject True [(js ''b'', Some VNull), (js ''a'', Some (VBool True))]) =
   canonicalizeJsonValue (VObject True [(js ''a'', Some (VBool True)), (js ''b'', Some VNull)])"
  by (subst canonical_text_identifies [where a = "JObj [(js ''b'', JNull), (js ''a'', JBool True)]"
        and b = "JObj [(js ''a'', JBool True), (js ''b'', JNull)]"])
    (simp_all add: value_ok_object entry_ok_def normalizeJsonValue_iff to_json_object sorted_members_def
      js_def insort_key_def)

text \<open>The explicit-stack walk computes what a recursive descent computes on every value, with or
  without budgets, the same error included, and the task loop writes the text that
  \<open>JSON.stringify\<close> gives the value with its keys sorted.\<close>

theorem loops_are_recursive:
  "normalizeJson v md mb = rbind (norm_value md mb 1 v 0) (\<lambda>(b, j). Inr j) \<and>
   serializeCanonicalJsonValue j = stringify (canon_form j)"
  by (simp add: normalizeJson_eq serialize_eq_canonical canonical_def)

text \<open>C40: the byte counter agrees with the UTF-8 length of the quoted string, and the quoted string reads
  back as the string it was made from, unpaired surrogates included.\<close>

theorem json_string_bytes_and_text:
  "jsonStringBytes s = utf8_length (quote s) \<and> unquote (tl (quote s)) = Some (s, [])"
  by (simp add: jsonStringBytes_utf8 quote_def unquote_quote_body)

end
