(* ===== verification/Protocol.thy ===== *)
theory Protocol
  imports Json_Admission
begin

text \<open>
  The validation vocabulary of packages/protocol/src: the string patterns of schema.ts, stream
  and run coordinates, canonical decimal revisions (event-store.ts), canonical timestamps and
  the retention protection list of retention.ts.
\<close>

section \<open>String patterns\<close>

text \<open>\<open>OpaqueIdentifierSchema\<close>: non-empty, no C0 or C1 control and no DEL.\<close>

definition is_control_unit :: "js_unit \<Rightarrow> bool" where
  "is_control_unit u \<longleftrightarrow> u \<le> 0x1f \<or> (0x7f \<le> u \<and> u \<le> 0x9f)"

definition is_opaque_identifier :: "js_string \<Rightarrow> bool" where
  "is_opaque_identifier s \<longleftrightarrow> s \<noteq> [] \<and> list_all (\<lambda>u. \<not> is_control_unit u) s"

definition assertOpaqueIdentifier :: "js_string \<Rightarrow> unit result" where
  "assertOpaqueIdentifier s = ensure (is_opaque_identifier s) (ProtocolValidation ''invalid_identifier'')"

definition is_hex_unit :: "js_unit \<Rightarrow> bool" where
  "is_hex_unit u \<longleftrightarrow> is_digit u \<or> (97 \<le> unat u \<and> unat u \<le> 102)"

text \<open>\<open>Sha256Schema\<close> and identifiers made of a four-character prefix and a digest.\<close>

definition is_sha256 :: "js_string \<Rightarrow> bool" where
  "is_sha256 s \<longleftrightarrow> length s = 64 \<and> list_all is_hex_unit s"

definition is_prefixed_digest :: "string \<Rightarrow> js_string \<Rightarrow> bool" where
  "is_prefixed_digest p s \<longleftrightarrow> take (length p) s = js p \<and> is_sha256 (drop (length p) s)"

definition parseEventRevision :: "js_string \<Rightarrow> nat result" where
  "parseEventRevision s = (if is_decimal s then Inr (of_decimal s) else Inl TypeErr)"

definition assertEventReadLimit :: "int \<Rightarrow> unit result" where
  "assertEventReadLimit n = ensure (is_safe_integer n \<and> 0 < n \<and> n < max_safe_integer) TypeErr"

section \<open>Canonical timestamps\<close>

text \<open>
  \<open>CanonicalTimestampSchema\<close> fixes 24 units \<open>YYYY-MM-DDTHH:MM:SS.mmmZ\<close> with each field in
  range; that \<open>Date\<close> gives the same text back adds that the day exists in its month.
\<close>

definition num_at :: "js_string \<Rightarrow> nat \<Rightarrow> nat \<Rightarrow> nat" where
  "num_at s i n = of_decimal (take n (drop i s))"

definition digits_at :: "js_string \<Rightarrow> nat \<Rightarrow> nat \<Rightarrow> bool" where
  "digits_at s i n \<longleftrightarrow> list_all is_digit (take n (drop i s))"

definition timestamp_pattern :: "js_string \<Rightarrow> bool" where
  "timestamp_pattern s \<longleftrightarrow>
     length s = 24 \<and>
     digits_at s 0 4 \<and> s ! 4 = 0x2d \<and> digits_at s 5 2 \<and> s ! 7 = 0x2d \<and> digits_at s 8 2 \<and> s ! 10 = 0x54 \<and>
     digits_at s 11 2 \<and> s ! 13 = 0x3a \<and> digits_at s 14 2 \<and> s ! 16 = 0x3a \<and> digits_at s 17 2 \<and> s ! 19 = 0x2e \<and>
     digits_at s 20 3 \<and> s ! 23 = 0x5a \<and>
     1 \<le> num_at s 5 2 \<and> num_at s 5 2 \<le> 12 \<and> 1 \<le> num_at s 8 2 \<and> num_at s 8 2 \<le> 31 \<and>
     num_at s 11 2 \<le> 23 \<and> num_at s 14 2 \<le> 59 \<and> num_at s 17 2 \<le> 59"

definition is_leap_year :: "nat \<Rightarrow> bool" where
  "is_leap_year y \<longleftrightarrow> y mod 4 = 0 \<and> (y mod 100 \<noteq> 0 \<or> y mod 400 = 0)"

definition days_in_month :: "nat \<Rightarrow> nat \<Rightarrow> nat" where
  "days_in_month y m =
     (if m = 2 then (if is_leap_year y then 29 else 28) else if m \<in> {4, 6, 9, 11} then 30 else 31)"

definition is_timestamp :: "js_string \<Rightarrow> bool" where
  "is_timestamp s \<longleftrightarrow> timestamp_pattern s \<and> num_at s 8 2 \<le> days_in_month (num_at s 0 4) (num_at s 5 2)"

definition assertCanonicalTimestamp :: "js_string \<Rightarrow> unit result" where
  "assertCanonicalTimestamp s = ensure (is_timestamp s) (ProtocolValidation ''invalid_timestamp'')"

text \<open>The instant a canonical timestamp denotes, in milliseconds since the start of year 0.\<close>

definition days_before_year :: "nat \<Rightarrow> nat" where
  "days_before_year y = sum_list (map (\<lambda>y. if is_leap_year y then 366 else 365) [0..<y])"

definition days_before_month :: "nat \<Rightarrow> nat \<Rightarrow> nat" where
  "days_before_month y m = sum_list (map (days_in_month y) [1..<m])"

definition timestamp_ms :: "js_string \<Rightarrow> nat" where
  "timestamp_ms s =
     ((((days_before_year (num_at s 0 4) + days_before_month (num_at s 0 4) (num_at s 5 2) + (num_at s 8 2 - 1)) * 24
        + num_at s 11 2) * 60 + num_at s 14 2) * 60 + num_at s 17 2) * 1000 + num_at s 20 3"

section \<open>Coordinates\<close>

record stream_key =
  sessionId :: js_string
  actorId :: js_string

record run_coordinate = stream_key +
  runId :: js_string
  turn :: js_string

definition stream_key_ok :: "'a stream_key_scheme \<Rightarrow> bool" where
  "stream_key_ok k \<longleftrightarrow> is_opaque_identifier (sessionId k) \<and> is_opaque_identifier (actorId k)"

definition run_coordinate_ok :: "'a run_coordinate_scheme \<Rightarrow> bool" where
  "run_coordinate_ok c \<longleftrightarrow> stream_key_ok c \<and> is_opaque_identifier (runId c) \<and> is_decimal (turn c)"

definition assertEventStreamCoordinate :: "stream_key \<Rightarrow> run_coordinate \<Rightarrow> unit result" where
  "assertEventStreamCoordinate stream c =
     ensure (stream_key_ok stream \<and> run_coordinate_ok c \<and> sessionId stream = sessionId c \<and> actorId stream = actorId c)
       (ProtocolValidation ''invalid_stream_coordinate'')"

definition same_stream :: "'a stream_key_scheme \<Rightarrow> 'b stream_key_scheme \<Rightarrow> bool" where
  "same_stream r k \<longleftrightarrow> sessionId r = sessionId k \<and> actorId r = actorId k"

section \<open>Retention protection lists\<close>

record retention_budget =
  maxCount :: int
  maxRetainedBytes :: int

text \<open>
  The byte loop of \<open>captureRetainedIdentifiers\<close>; \<open>length\<close> is compared before the UTF-8 bytes are
  counted, so an oversized entry is refused without being encoded.
\<close>

fun spend_bytes :: "js_string list \<Rightarrow> int \<Rightarrow> unit result" where
  "spend_bytes [] remaining = Inr ()"
| "spend_bytes (s # ss) remaining =
     (if remaining < int (length s) then Inl RangeErr
      else let rest = remaining - int (utf8_length s) in
        if rest < 0 then Inl RangeErr else spend_bytes ss rest)"

definition captureRetainedIdentifiers :: "js_string list \<Rightarrow> retention_budget \<Rightarrow> js_string list result" where
  "captureRetainedIdentifiers ids budget =
     rbind (ensure (is_safe_integer (maxCount budget) \<and> 0 \<le> maxCount budget \<and>
              is_safe_integer (maxRetainedBytes budget) \<and> 0 \<le> maxRetainedBytes budget) TypeErr) (\<lambda>_.
     rbind (ensure (int (length ids) \<le> maxCount budget) RangeErr) (\<lambda>_.
     rbind (spend_bytes ids (maxRetainedBytes budget)) (\<lambda>_.
     rbind (ensure (distinct ids) TypeErr) (\<lambda>_. Inr ids))))"

section \<open>Facts\<close>

lemma assertOpaqueIdentifier_Inr [simp, result_simps]:
  "assertOpaqueIdentifier s = Inr u \<longleftrightarrow> is_opaque_identifier s"
  by (simp add: assertOpaqueIdentifier_def)

lemma assertCanonicalTimestamp_Inr [simp, result_simps]:
  "assertCanonicalTimestamp s = Inr u \<longleftrightarrow> is_timestamp s"
  by (simp add: assertCanonicalTimestamp_def)

lemma parseEventRevision_Inr [simp, result_simps]:
  "parseEventRevision s = Inr n \<longleftrightarrow> is_decimal s \<and> n = of_decimal s"
  by (auto simp: parseEventRevision_def)

lemma length_le_utf8: "length s \<le> utf8_length s"
  by (induction s rule: utf8_length.induct) (auto simp: utf8_length.simps)

lemma spend_bytes_iff:
  "0 \<le> remaining \<Longrightarrow> spend_bytes ss remaining = Inr u \<longleftrightarrow> int (sum_list (map utf8_length ss)) \<le> remaining"
proof (induction ss arbitrary: remaining)
  case (Cons s ss)
  show ?case
  proof (cases "int (utf8_length s) \<le> remaining")
    case True
    with length_le_utf8 [of s] Cons show ?thesis by (auto simp: Let_def)
  next
    case False
    then show ?thesis by (simp add: Let_def)
  qed
qed simp

lemma captureRetainedIdentifiers_Inr [result_simps]:
  "captureRetainedIdentifiers ids budget = Inr captured \<longleftrightarrow>
     captured = ids \<and> distinct ids \<and>
     is_safe_integer (maxCount budget) \<and> is_safe_integer (maxRetainedBytes budget) \<and>
     int (length ids) \<le> maxCount budget \<and> int (sum_list (map utf8_length ids)) \<le> maxRetainedBytes budget"
  using spend_bytes_iff [of "maxRetainedBytes budget" ids]
  by (auto simp: captureRetainedIdentifiers_def rbind_eq_Inr)

end
