(* ===== verification/Json_Embed.thy ===== *)
theory Json_Embed
  imports Protocol
begin

text \<open>
  JSON values as JavaScript values, and normalisation without budgets: it is decided by
  \<open>to_json\<close> alone and fails only as \<open>InvalidJsonValueError\<close>. The canonical text of a value built
  from JSON parts is therefore always defined.
\<close>

fun of_json :: "json \<Rightarrow> js_value" where
  "of_json JNull = VNull"
| "of_json (JBool b) = VBool b"
| "of_json (JNum t) = VNumber (Finite t)"
| "of_json (JStr s) = VString s"
| "of_json (JArr xs) = VArray (map (\<lambda>x. Some (of_json x)) xs)"
| "of_json (JObj kvs) = VObject True (map (\<lambda>(k, x). (k, Some (of_json x))) kvs)"

lemma to_json_of_json [simp]: "to_json (of_json j) = Some j"
proof (induction j)
  case (JArr xs)
  then show ?case by (simp add: to_json_array)
next
  case (JObj kvs)
  then have "map (entry_json \<circ> snd) (map (\<lambda>(k, x). (k, Some (of_json x))) kvs) = map (Some \<circ> snd) kvs"
    by (fastforce simp: snds.simps)
  then show ?case by (simp add: to_json_object comp_def split_def)
qed auto

fun members_json :: "(js_string \<times> js_value option) list \<Rightarrow> (js_string \<times> json) list option" where
  "members_json [] = Some []"
| "members_json ((k, x) # kvs) =
     (case entry_json x of None \<Rightarrow> None | Some j \<Rightarrow> map_option (Cons (k, j)) (members_json kvs))"

fun elems_json :: "js_value option list \<Rightarrow> json list option" where
  "elems_json [] = Some []"
| "elems_json (x # xs) = (case entry_json x of None \<Rightarrow> None | Some j \<Rightarrow> map_option (Cons j) (elems_json xs))"

lemma elems_json_eq: "elems_json xs = Some ys \<longleftrightarrow> map entry_json xs = map Some ys"
  by (induction xs arbitrary: ys) (auto split: option.splits simp: Cons_eq_map_conv)

lemma members_json_eq:
  "members_json kvs = Some ms \<longleftrightarrow> map fst kvs = map fst ms \<and> map (entry_json \<circ> snd) kvs = map (Some \<circ> snd) ms"
proof (induction kvs arbitrary: ms)
  case (Cons p kvs)
  then show ?case by (cases p; cases ms) (auto split: option.splits)
qed auto

lemma option_eqI: "(\<And>y. x = Some y \<longleftrightarrow> z = Some y) \<Longrightarrow> x = z"
  by (cases x; cases z) auto

lemma to_json_VArray: "to_json (VArray xs) = map_option JArr (elems_json xs)"
  by (rule option_eqI) (auto simp: to_json_array elems_json_eq)

lemma to_json_VObject: "to_json (VObject plain kvs) = (if plain then map_option JObj (members_json kvs) else None)"
  by (rule option_eqI) (auto simp: to_json_object members_json_eq)

text \<open>The walk without budgets, the byte count it returns left open.\<close>

definition outcome :: "(nat \<times> 'a) result \<Rightarrow> 'a option \<Rightarrow> bool" where
  "outcome r x = (case x of None \<Rightarrow> r = Inl InvalidJsonValue | Some y \<Rightarrow> (\<exists>b. r = Inr (b, y)))"

lemma outcome_map: "outcome r x \<Longrightarrow> outcome (rbind r (\<lambda>(b, y). Inr (b, f y))) (map_option f x)"
  by (auto simp: outcome_def split: option.splits)

lemma outcome_seq:
  "outcome r x \<Longrightarrow> (\<And>b y. r = Inr (b, y) \<Longrightarrow> outcome (q b) z) \<Longrightarrow>
   outcome (rbind r (\<lambda>(b, y). rbind (q b) (\<lambda>(b', w). Inr (b', f y w))))
     (case x of None \<Rightarrow> None | Some y \<Rightarrow> map_option (f y) z)"
  by (fastforce simp: outcome_def split: option.splits)

lemma add_key_bytes_unbounded: "\<exists>b'. add_key_bytes None b ks = Inr b'"
  by (induction ks arbitrary: b) (auto simp: addBytes_def)

lemma capture_unbounded:
  "\<exists>b'. capture None None v d b =
     (case v of VArray xs \<Rightarrow> Inr (b', if xs = [] then Leaf (JArr []) else Opened (ArrayFrame d xs []))
      | VObject plain kvs \<Rightarrow>
          if plain then Inr (b', if kvs = [] then Leaf (JObj []) else Opened (ObjectFrame d kvs []))
          else Inl InvalidJsonValue
      | _ \<Rightarrow> (case to_json v of None \<Rightarrow> Inl InvalidJsonValue | Some j \<Rightarrow> Inr (b', Leaf j)))"
proof (cases v)
  case (VObject plain kvs)
  obtain b' where "add_key_bytes None (b + (2 + (length kvs - 1))) (map fst kvs) = Inr b'"
    using add_key_bytes_unbounded by blast
  with VObject show ?thesis by (simp add: capture_def addBytes_def)
qed (auto simp: capture_def capture_leaf_def addBytes_def split: js_number.splits)

lemma norm_outcome:
  "md = None \<Longrightarrow> mb = None \<Longrightarrow> outcome (norm_value md mb d v b) (to_json v)"
  "md = None \<Longrightarrow> mb = None \<Longrightarrow> outcome (norm_elems md mb d xs b) (elems_json xs)"
  "md = None \<Longrightarrow> mb = None \<Longrightarrow> outcome (norm_members md mb d kvs b) (members_json kvs)"
proof (induction md mb d v b and md mb d xs b and md mb d kvs b
    rule: norm_value_norm_elems_norm_members.induct)
  case (1 md mb d v b)
  obtain b' where c: "capture md mb v d b =
     (case v of VArray xs \<Rightarrow> Inr (b', if xs = [] then Leaf (JArr []) else Opened (ArrayFrame d xs []))
      | VObject plain kvs \<Rightarrow>
          if plain then Inr (b', if kvs = [] then Leaf (JObj []) else Opened (ObjectFrame d kvs []))
          else Inl InvalidJsonValue
      | _ \<Rightarrow> (case to_json v of None \<Rightarrow> Inl InvalidJsonValue | Some j \<Rightarrow> Inr (b', Leaf j)))"
    using capture_unbounded "1.prems" by blast
  show ?case
  proof (cases v)
    case (VArray xs)
    then show ?thesis
    proof (cases "xs = []")
      case False
      with c VArray "1.IH"(1) "1.prems"
      have "outcome (norm_elems md mb (d + 1) xs b') (elems_json xs)" by simp
      from outcome_map [OF this, of JArr] show ?thesis
        using VArray c False by (simp add: norm_value.simps [of md mb d "VArray xs"] to_json_VArray)
    qed (use c in \<open>simp add: norm_value.simps [of md mb d] to_json_VArray outcome_def\<close>)
  next
    case (VObject plain kvs)
    then show ?thesis
    proof (cases "plain \<and> kvs \<noteq> []")
      case True
      with c VObject "1.IH"(2) "1.prems"
      have "outcome (norm_members md mb (d + 1) kvs b') (members_json kvs)" by simp
      from outcome_map [OF this, of JObj] show ?thesis
        using VObject c True by (simp add: norm_value.simps [of md mb d] to_json_VObject)
    qed (use c in \<open>auto simp: norm_value.simps [of md mb d] to_json_VObject outcome_def\<close>)
  qed (use c in \<open>auto simp: norm_value.simps [of md mb d] outcome_def split: js_number.splits\<close>)
next
  case (4 md mb d v xs b)
  have "outcome (norm_elems md mb d xs b') (elems_json xs)" if "norm_value md mb d v b = Inr (b', y)" for b' y
    using "4.IH"(2) [OF that refl] "4.prems" by simp
  from outcome_seq [OF "4.IH"(1) [OF "4.prems"] this, where f = Cons] show ?case by simp
next
  case (7 md mb d k v kvs b)
  have "outcome (norm_members md mb d kvs b') (members_json kvs)" if "norm_value md mb d v b = Inr (b', y)" for b' y
    using "7.IH"(2) [OF that refl] "7.prems" by simp
  from outcome_seq [OF "7.IH"(1) [OF "7.prems"] this, where f = "\<lambda>y. Cons (k, y)"] show ?case by simp
qed (simp_all add: outcome_def)

lemma normalizeJsonValue_eq:
  "normalizeJsonValue v = (case to_json v of None \<Rightarrow> Inl InvalidJsonValue | Some j \<Rightarrow> Inr j)"
  using norm_outcome(1) [OF refl refl, of 1 v 0]
  by (auto simp: normalizeJsonValue_def normalizeJson_eq outcome_def split: option.splits)

lemma normalizeJsonValue_of_json [simp]: "normalizeJsonValue (of_json j) = Inr j"
  by (simp add: normalizeJsonValue_eq)

lemma canonicalizeJsonValue_of_json [simp]: "canonicalizeJsonValue (of_json j) = Inr (canonical j)"
  by (simp add: canonicalizeJsonValue_def serialize_eq_canonical)

section \<open>Objects with a fixed list of members\<close>

text \<open>
  The digests of the stores are taken over objects whose keys the source fixes: two such objects
  have the same canonical text only if they agree member by member.
\<close>

lemma snds_by_keys: "distinct (map fst xs) \<Longrightarrow> map snd xs = map (\<lambda>k. the (map_of xs k)) (map fst xs)"
  by (auto simp: map_of_is_SomeI)

lemma members_by_set:
  assumes "set xs = set ys" and "map fst xs = map fst ys" and "distinct (map fst xs)"
  shows "xs = ys"
proof -
  have "map_of xs = map_of ys" using assms by (intro map_of_inject_set [THEN iffD2]) simp_all
  with assms snds_by_keys [of xs] snds_by_keys [of ys] have "map snd xs = map snd ys" by simp
  with assms(2) show ?thesis by (metis zip_map_fst_snd)
qed

definition canon_member :: "js_string \<times> json \<Rightarrow> js_string \<times> json" where
  "canon_member p = (fst p, canon_form (snd p))"

lemma canon_form_object: "canon_form (JObj kvs) = JObj (sorted_members (map canon_member kvs))"
  by (simp add: canon_member_def [abs_def] split_def)

lemma map_fst_canon_member [simp]: "map fst (map canon_member kvs) = map fst kvs"
  by (simp add: canon_member_def comp_def)

lemma canon_members:
  assumes "map fst kvs = map fst ms" and "distinct (map fst kvs)"
  shows "canon_form (JObj kvs) = canon_form (JObj ms) \<longleftrightarrow>
    list_all2 (\<lambda>x y. canon_form (snd x) = canon_form (snd y)) kvs ms"
proof -
  have "canon_form (JObj kvs) = canon_form (JObj ms) \<longleftrightarrow> map canon_member kvs = map canon_member ms"
  proof
    assume "canon_form (JObj kvs) = canon_form (JObj ms)"
    then have "sorted_members (map canon_member kvs) = sorted_members (map canon_member ms)"
      by (simp only: canon_form_object json.inject)
    then have "set (map canon_member kvs) = set (map canon_member ms)" by (metis set_sorted_members)
    then show "map canon_member kvs = map canon_member ms"
      by (rule members_by_set) (simp_all only: map_fst_canon_member assms assms(2) [unfolded assms(1)])
  qed (simp only: canon_form_object)
  moreover have "map canon_member kvs = map canon_member ms \<longleftrightarrow>
      list_all2 (\<lambda>x y. canon_form (snd x) = canon_form (snd y)) kvs ms"
    using assms(1) by (induction kvs ms rule: list_induct2') (auto simp: canon_member_def)
  ultimately show ?thesis by simp
qed

lemma canonical_members:
  assumes "map fst kvs = map fst ms" and "json_ok (JObj kvs)" and "json_ok (JObj ms)"
  shows "canonical (JObj kvs) = canonical (JObj ms) \<longleftrightarrow>
    list_all2 (\<lambda>x y. canon_form (snd x) = canon_form (snd y)) kvs ms"
  using canonical_eq_iff [OF assms(2,3)] canon_members [OF assms(1)] assms(2) by simp

section \<open>Optional members\<close>

definition opt_member :: "string \<Rightarrow> ('a \<Rightarrow> json) \<Rightarrow> 'a option \<Rightarrow> (js_string \<times> json) list" where
  "opt_member k f x = (case x of None \<Rightarrow> [] | Some y \<Rightarrow> [(js k, f y)])"

definition opt_or_null :: "('a \<Rightarrow> json) \<Rightarrow> 'a option \<Rightarrow> json" where
  "opt_or_null f x = (case x of None \<Rightarrow> JNull | Some y \<Rightarrow> f y)"

definition opt_ok :: "('a \<Rightarrow> bool) \<Rightarrow> 'a option \<Rightarrow> bool" where
  "opt_ok P x \<longleftrightarrow> (case x of None \<Rightarrow> True | Some y \<Rightarrow> P y)"

section \<open>Sequences of checks\<close>

definition checks :: "unit result list \<Rightarrow> unit result" where
  "checks cs = check_all (\<lambda>c. c) cs"

definition discard :: "'a result \<Rightarrow> unit result" where
  "discard r = rbind r (\<lambda>_. Inr ())"

definition when_some :: "'a option \<Rightarrow> ('a \<Rightarrow> unit result) \<Rightarrow> unit result" where
  "when_some x f = (case x of None \<Rightarrow> Inr () | Some y \<Rightarrow> f y)"

lemma checks_Nil [simp]: "checks [] = Inr ()"
  and checks_Cons [simp]: "checks (c # cs) = rbind c (\<lambda>_. checks cs)"
  by (simp_all add: checks_def)

lemma discard_Inr [simp, result_simps]: "discard r = Inr u \<longleftrightarrow> (\<exists>x. r = Inr x)"
  by (cases r) (auto simp: discard_def)

lemma when_some_Inr [result_simps]: "when_some x f = Inr u \<longleftrightarrow> (\<forall>y. x = Some y \<longrightarrow> f y = Inr ())"
  by (auto simp: when_some_def split: option.splits)

lemma when_some_simps [simp]: "when_some None f = Inr ()" "when_some (Some y) f = f y"
  by (simp_all add: when_some_def)

lemma when_some_opt_ok: "(\<And>y. f y = Inr () \<longleftrightarrow> P y) \<Longrightarrow> when_some x f = Inr u \<longleftrightarrow> opt_ok P x"
  by (cases x) (auto simp: opt_ok_def)

lemma opt_ok_simps [simp]: "opt_ok P None" "opt_ok P (Some x) \<longleftrightarrow> P x"
  by (simp_all add: opt_ok_def)

end
