(* ===== verification/Action_Types.thy ===== *)
theory Action_Types
  imports Json_Embed
begin

text \<open>
  The data of packages/actions/src/types.ts: intents, claims, receipts and the journal's
  records, extending one another the way the interfaces do, and the JSON objects the code
  builds from them. An optional property is an \<open>option\<close>; JSON leaves it out when it is \<open>None\<close>.
\<close>

section \<open>Enumerations\<close>

datatype replay_policy = Never | Safe | Recoverable

datatype action_status = Pending | Claimed | Succeeded | Failed | Uncertain

datatype receipt_outcome = OutSucceeded | OutRejected | OutUnknown

datatype resolution = Applied | NotApplied | ResUnknown

datatype settlement_outcome = Advanced | SourceFailed

section \<open>Records\<close>

record action_authority =
  timelineId :: js_string
  generation :: js_string
  revision :: js_string

record goal_partition =
  gp_ownerId :: js_string
  gp_timelineId :: js_string
  gp_generation :: js_string
  gp_sessionId :: "js_string option"
  gp_actorId :: "js_string option"

record goal_binding =
  goalId :: js_string
  goal_partition :: goal_partition
  stepId :: js_string
  expectedRevision :: js_string
  goal_inputId :: js_string

record goal_projection_limits =
  maxBindingBytes :: int
  maxPendingPerStream :: int
  maxListBatchSize :: int
  maxRecordBytes :: int

text \<open>The fields an intent draft and a prepared intent share, then what each adds.\<close>

record action_intent = stream_key +
  coordinate :: run_coordinate
  actionName :: js_string
  operationKey :: js_string
  expectedAuthority :: action_authority
  conflictKeys :: "js_string list"
  replayPolicy :: replay_policy
  goalProjection :: "goal_binding option"

record intent_draft = action_intent +
  draft_payload :: js_value

record prepared_intent = action_intent +
  payload :: json
  operationId :: js_string
  intentFingerprint :: js_string
  payloadFingerprint :: js_string

record action_claim =
  claim_token :: js_string
  claim_claimantId :: js_string
  claim_attempt :: js_string
  claim_claimedAt :: js_string
  claim_expiresAt :: js_string

record action_receipt =
  receipt_operationId :: js_string
  receipt_claimToken :: js_string
  receipt_attempt :: js_string
  receipt_outcome :: receipt_outcome
  receivedAt :: js_string
  receipt_result :: "json option"
  modelResult :: "json option"
  authorityAfter :: "action_authority option"

record goal_settlement =
  settlement_outcome :: settlement_outcome
  settledAt :: js_string

record action_record = prepared_intent +
  status :: action_status
  attempt :: js_string
  createdAt :: js_string
  updatedAt :: js_string
  claim :: "action_claim option"
  receipt :: "action_receipt option"
  goalProjectionSettlement :: "goal_settlement option"

record claim_request = stream_key +
  req_runId :: "js_string option"
  req_claimantId :: js_string
  req_claimToken :: js_string
  req_claimedAt :: js_string
  req_expiresAt :: js_string
  candidateLimit :: int

record receipt_input = stream_key +
  in_operationId :: js_string
  in_claimToken :: js_string
  in_attempt :: js_string
  in_outcome :: receipt_outcome
  in_receivedAt :: js_string
  in_result :: "js_value option"
  in_modelResult :: "js_value option"
  in_authorityAfter :: "action_authority option"

record reconcile_input = stream_key +
  rec_operationId :: js_string
  rec_claimToken :: js_string
  rec_attempt :: js_string
  rec_resolution :: resolution
  reconciledAt :: js_string
  rec_result :: "js_value option"
  rec_modelResult :: "js_value option"
  rec_authorityAfter :: "action_authority option"

record goal_settlement_input = stream_key +
  set_operationId :: js_string
  set_intentFingerprint :: js_string
  set_outcome :: settlement_outcome
  set_settledAt :: js_string

record goal_list_request = stream_key +
  afterSequence :: "js_string option"
  list_limit :: int

record purge_request = stream_key +
  beforeUpdatedAt :: js_string
  purge_limit :: int
  retainOperationIds :: "js_string list"
  retainBudget :: retention_budget

section \<open>JSON forms\<close>

text \<open>A property that is left out when undefined.\<close>

fun replay_policy_text :: "replay_policy \<Rightarrow> js_string" where
  "replay_policy_text Never = js ''never''"
| "replay_policy_text Safe = js ''safe''"
| "replay_policy_text Recoverable = js ''recoverable''"

fun status_text :: "action_status \<Rightarrow> js_string" where
  "status_text Pending = js ''pending''"
| "status_text Claimed = js ''claimed''"
| "status_text Succeeded = js ''succeeded''"
| "status_text Failed = js ''failed''"
| "status_text Uncertain = js ''uncertain''"

fun outcome_text :: "receipt_outcome \<Rightarrow> js_string" where
  "outcome_text OutSucceeded = js ''succeeded''"
| "outcome_text OutRejected = js ''rejected''"
| "outcome_text OutUnknown = js ''unknown''"

fun settlement_text :: "settlement_outcome \<Rightarrow> js_string" where
  "settlement_text Advanced = js ''advanced''"
| "settlement_text SourceFailed = js ''source_failed''"

definition coordinate_json :: "run_coordinate \<Rightarrow> json" where
  "coordinate_json c = JObj [(js ''sessionId'', JStr (sessionId c)), (js ''actorId'', JStr (actorId c)),
     (js ''runId'', JStr (runId c)), (js ''turn'', JStr (turn c))]"

definition authority_json :: "action_authority \<Rightarrow> json" where
  "authority_json a = JObj [(js ''timelineId'', JStr (timelineId a)), (js ''generation'', JStr (generation a)),
     (js ''revision'', JStr (revision a))]"

definition partition_json :: "goal_partition \<Rightarrow> json" where
  "partition_json p = JObj ([(js ''ownerId'', JStr (gp_ownerId p)), (js ''timelineId'', JStr (gp_timelineId p)),
     (js ''generation'', JStr (gp_generation p))]
     @ opt_member ''sessionId'' JStr (gp_sessionId p) @ opt_member ''actorId'' JStr (gp_actorId p))"

definition binding_json :: "goal_binding \<Rightarrow> json" where
  "binding_json b = JObj [(js ''goalId'', JStr (goalId b)), (js ''partition'', partition_json (goal_partition b)),
     (js ''stepId'', JStr (stepId b)), (js ''expectedRevision'', JStr (expectedRevision b)),
     (js ''inputId'', JStr (goal_inputId b))]"

definition claim_json :: "action_claim \<Rightarrow> json" where
  "claim_json c = JObj [(js ''claimToken'', JStr (claim_token c)), (js ''claimantId'', JStr (claim_claimantId c)),
     (js ''attempt'', JStr (claim_attempt c)), (js ''claimedAt'', JStr (claim_claimedAt c)),
     (js ''expiresAt'', JStr (claim_expiresAt c))]"

definition receipt_json :: "action_receipt \<Rightarrow> json" where
  "receipt_json r = JObj ([(js ''operationId'', JStr (receipt_operationId r)),
     (js ''claimToken'', JStr (receipt_claimToken r)), (js ''attempt'', JStr (receipt_attempt r)),
     (js ''outcome'', JStr (outcome_text (receipt_outcome r))), (js ''receivedAt'', JStr (receivedAt r))]
     @ opt_member ''result'' id (receipt_result r) @ opt_member ''modelResult'' id (modelResult r)
     @ opt_member ''authorityAfter'' authority_json (authorityAfter r))"

definition settlement_json :: "goal_settlement \<Rightarrow> json" where
  "settlement_json s = JObj [(js ''outcome'', JStr (settlement_text (settlement_outcome s))),
     (js ''settledAt'', JStr (settledAt s))]"

definition record_json :: "action_record \<Rightarrow> json" where
  "record_json r = JObj ([(js ''sessionId'', JStr (sessionId r)), (js ''actorId'', JStr (actorId r)),
     (js ''operationId'', JStr (operationId r)), (js ''intentFingerprint'', JStr (intentFingerprint r)),
     (js ''payloadFingerprint'', JStr (payloadFingerprint r)), (js ''coordinate'', coordinate_json (coordinate r)),
     (js ''actionName'', JStr (actionName r)), (js ''operationKey'', JStr (operationKey r)),
     (js ''payload'', payload r), (js ''expectedAuthority'', authority_json (expectedAuthority r)),
     (js ''conflictKeys'', JArr (map JStr (conflictKeys r))),
     (js ''replayPolicy'', JStr (replay_policy_text (replayPolicy r)))]
     @ opt_member ''goalProjection'' binding_json (goalProjection r)
     @ [(js ''status'', JStr (status_text (status r))), (js ''attempt'', JStr (attempt r)),
        (js ''createdAt'', JStr (createdAt r)), (js ''updatedAt'', JStr (updatedAt r))]
     @ opt_member ''claim'' claim_json (claim r) @ opt_member ''receipt'' receipt_json (receipt r)
     @ opt_member ''goalProjectionSettlement'' settlement_json (goalProjectionSettlement r))"

end
