(* ===== verification/Action_Identity.thy ===== *)
theory Action_Identity
  imports Action_Types
begin

text \<open>
  packages/actions/src/identity.ts, goal-projection.ts and validation.ts: how an intent draft
  becomes a prepared intent with its operation id and fingerprints, the budgets of goal
  projections, and the well-formedness check every record of a journal passes. SHA-256 is the
  argument \<open>h\<close>, the lower-case hex digest of a string's UTF-8 bytes.
\<close>

section \<open>validation.ts: inputs\<close>

definition validateTimestamp :: "js_string \<Rightarrow> unit result" where
  "validateTimestamp s = (case assertCanonicalTimestamp s of Inl _ \<Rightarrow> Inl ActionStateConflict | Inr u \<Rightarrow> Inr u)"

definition assertPositiveSafeInteger :: "int \<Rightarrow> unit result" where
  "assertPositiveSafeInteger n = ensure (is_safe_integer n \<and> 0 < n) TypeErr"

text \<open>The stream's own fields, then \<open>runId\<close>, \<open>claimantId\<close> and \<open>claimToken\<close> where the argument has them.\<close>

definition validateStream ::
  "'a stream_key_scheme \<Rightarrow> js_string option \<Rightarrow> js_string option \<Rightarrow> js_string option \<Rightarrow> unit result" where
  "validateStream k run claimant token =
     checks [assertOpaqueIdentifier (sessionId k), assertOpaqueIdentifier (actorId k),
       when_some run assertOpaqueIdentifier, when_some claimant assertOpaqueIdentifier,
       when_some token assertOpaqueIdentifier]"

definition isActionOperationId :: "js_string \<Rightarrow> bool" where
  "isActionOperationId s \<longleftrightarrow> is_prefixed_digest ''act_'' s"

definition validateAuthority :: "action_authority \<Rightarrow> unit result" where
  "validateAuthority a =
     checks [assertOpaqueIdentifier (timelineId a), discard (parseEventRevision (generation a)),
       discard (parseEventRevision (revision a))]"

definition validateActionClaimRequest :: "claim_request \<Rightarrow> unit result" where
  "validateActionClaimRequest q =
     checks [validateStream q (req_runId q) (Some (req_claimantId q)) (Some (req_claimToken q)),
       validateTimestamp (req_claimedAt q), validateTimestamp (req_expiresAt q),
       ensure (req_claimedAt q < req_expiresAt q) TypeErr, assertPositiveSafeInteger (candidateLimit q)]"

definition validateActionReceiptInput :: "receipt_input \<Rightarrow> unit result" where
  "validateActionReceiptInput i =
     checks [validateStream i None None (Some (in_claimToken i)), ensure (isActionOperationId (in_operationId i)) TypeErr,
       ensure (in_claimToken i \<noteq> []) TypeErr, ensure (is_positive_decimal (in_attempt i)) TypeErr,
       validateTimestamp (in_receivedAt i), when_some (in_authorityAfter i) validateAuthority]"

definition validateActionReconcileInput :: "reconcile_input \<Rightarrow> unit result" where
  "validateActionReconcileInput i =
     checks [validateStream i None None (Some (rec_claimToken i)), ensure (isActionOperationId (rec_operationId i)) TypeErr,
       assertOpaqueIdentifier (rec_claimToken i), ensure (is_positive_decimal (rec_attempt i)) TypeErr,
       validateTimestamp (reconciledAt i), when_some (rec_authorityAfter i) validateAuthority]"

definition captureActionTerminalPurgeRequest :: "purge_request \<Rightarrow> purge_request result" where
  "captureActionTerminalPurgeRequest q =
     rbind (checks [validateStream q None None None, validateTimestamp (beforeUpdatedAt q),
         assertPositiveSafeInteger (purge_limit q)]) (\<lambda>_.
     rbind (captureRetainedIdentifiers (retainOperationIds q) (retainBudget q)) (\<lambda>ids.
     rbind (check_all (\<lambda>i. ensure (isActionOperationId i) TypeErr) ids) (\<lambda>_.
     Inr (q\<lparr>retainOperationIds := ids\<rparr>))))"

section \<open>goal-projection.ts\<close>

definition captureActionGoalProjectionLimits ::
  "goal_projection_limits option \<Rightarrow> goal_projection_limits option result" where
  "captureActionGoalProjectionLimits limits =
     (case limits of
        None \<Rightarrow> Inr None
      | Some l \<Rightarrow>
          rbind (check_all assertPositiveSafeInteger
              [maxBindingBytes l, maxPendingPerStream l, maxListBatchSize l, maxRecordBytes l])
            (\<lambda>_. Inr (Some l)))"

definition assertActionGoalProjectionRecordFits :: "action_record \<Rightarrow> goal_projection_limits option \<Rightarrow> unit result" where
  "assertActionGoalProjectionRecordFits r limits =
     (if goalProjection r = None then Inr ()
      else case limits of
        None \<Rightarrow> Inl TypeErr
      | Some l \<Rightarrow>
          let budgeted =
            (if goalProjectionSettlement r = None
             then r\<lparr>goalProjectionSettlement := Some \<lparr>settlement_outcome = SourceFailed, settledAt = updatedAt r\<rparr>\<rparr>
             else r) in
          rbind (canonicalizeJsonValue (of_json (record_json budgeted))) (\<lambda>text.
            ensure (int (utf8_length text) \<le> maxRecordBytes l) RangeErr))"

definition captureActionGoalProjectionListRequest ::
  "goal_list_request \<Rightarrow> goal_projection_limits \<Rightarrow> goal_list_request result" where
  "captureActionGoalProjectionListRequest q l =
     rbind (checks [assertOpaqueIdentifier (sessionId q), assertOpaqueIdentifier (actorId q),
         assertPositiveSafeInteger (list_limit q), ensure (list_limit q \<le> maxListBatchSize l) RangeErr,
         when_some (afterSequence q) (\<lambda>s. discard (parseEventRevision s))]) (\<lambda>_. Inr q)"

definition normalizeActionGoalProjectionBinding ::
  "goal_binding \<Rightarrow> 'a action_intent_scheme \<Rightarrow> goal_projection_limits option \<Rightarrow> goal_binding result" where
  "normalizeActionGoalProjectionBinding b action limits =
     (let p = goal_partition b in
      rbind (checks
        [check_all assertOpaqueIdentifier [goalId b, gp_ownerId p, gp_timelineId p, stepId b, goal_inputId b],
         when_some (gp_sessionId p) assertOpaqueIdentifier, when_some (gp_actorId p) assertOpaqueIdentifier,
         discard (parseEventRevision (gp_generation p)), discard (parseEventRevision (expectedRevision b)),
         ensure (gp_timelineId p = timelineId (expectedAuthority action) \<and>
                 gp_generation p = generation (expectedAuthority action)) TypeErr,
         ensure (\<not> ((\<exists>s \<in> set_option (gp_sessionId p). s \<noteq> sessionId action) \<or>
                    (\<exists>a \<in> set_option (gp_actorId p). a \<noteq> actorId action))) TypeErr]) (\<lambda>_.
      rbind (when_some limits (\<lambda>l.
        rbind (canonicalizeJsonValue (of_json (binding_json b))) (\<lambda>text.
          ensure (int (utf8_length text) \<le> maxBindingBytes l) RangeErr))) (\<lambda>_. Inr b)))"

section \<open>identity.ts\<close>

definition validateCoordinate :: "'a action_intent_scheme \<Rightarrow> unit result" where
  "validateCoordinate d =
     checks [check_all assertOpaqueIdentifier [sessionId (coordinate d), actorId (coordinate d), runId (coordinate d)],
       discard (parseEventRevision (turn (coordinate d))),
       ensure (sessionId (coordinate d) = sessionId d \<and> actorId (coordinate d) = actorId d) TypeErr]"

definition operation_id_json :: "run_coordinate \<Rightarrow> js_string \<Rightarrow> js_string \<Rightarrow> json" where
  "operation_id_json c name key = JObj [(js ''protocolVersion'', JStr (js ''2'')), (js ''coordinate'', coordinate_json c),
     (js ''actionName'', JStr name), (js ''operationKey'', JStr key)]"

definition actionOperationId :: "(js_string \<Rightarrow> js_string) \<Rightarrow> 'a action_intent_scheme \<Rightarrow> js_string result" where
  "actionOperationId h d =
     rbind (checks [assertOpaqueIdentifier (sessionId d), assertOpaqueIdentifier (actorId d), validateCoordinate d,
         assertOpaqueIdentifier (actionName d), assertOpaqueIdentifier (operationKey d)]) (\<lambda>_.
     rbind (canonicalizeJsonValue (of_json (operation_id_json (coordinate d) (actionName d) (operationKey d)))) (\<lambda>text.
     Inr (js ''act_'' @ h text)))"

fun has_adjacent_duplicate :: "js_string list \<Rightarrow> bool" where
  "has_adjacent_duplicate (x # y # xs) = (x = y \<or> has_adjacent_duplicate (y # xs))"
| "has_adjacent_duplicate _ = False"

definition normalizeConflictKeys :: "js_string list \<Rightarrow> js_string list result" where
  "normalizeConflictKeys keys =
     rbind (check_all assertOpaqueIdentifier keys) (\<lambda>_.
     let normalized = sort keys in
     rbind (ensure (\<not> has_adjacent_duplicate normalized) TypeErr) (\<lambda>_. Inr normalized))"

definition fingerprintNormalizedActionPayload :: "(js_string \<Rightarrow> js_string) \<Rightarrow> json \<Rightarrow> js_string result" where
  "fingerprintNormalizedActionPayload h p = rbind (canonicalizeJsonValue (of_json p)) (\<lambda>text. Inr (h text))"

definition fingerprintActionPayload :: "(js_string \<Rightarrow> js_string) \<Rightarrow> js_value \<Rightarrow> js_string result" where
  "fingerprintActionPayload h v = rbind (normalizeJsonValue v) (fingerprintNormalizedActionPayload h)"

definition intent_json :: "'a action_intent_scheme \<Rightarrow> json \<Rightarrow> js_string list \<Rightarrow> goal_binding option \<Rightarrow> json" where
  "intent_json d p keys goal = JObj ([(js ''protocolVersion'', JStr (js ''2'')),
     (js ''coordinate'', coordinate_json (coordinate d)), (js ''actionName'', JStr (actionName d)),
     (js ''operationKey'', JStr (operationKey d)), (js ''payload'', p),
     (js ''expectedAuthority'', authority_json (expectedAuthority d)), (js ''conflictKeys'', JArr (map JStr keys)),
     (js ''replayPolicy'', JStr (replay_policy_text (replayPolicy d)))]
     @ opt_member ''goalProjection'' binding_json goal)"

definition prepareActionIntent ::
  "(js_string \<Rightarrow> js_string) \<Rightarrow> intent_draft \<Rightarrow> goal_projection_limits option \<Rightarrow> prepared_intent result" where
  "prepareActionIntent h d limits =
     rbind (validateCoordinate d) (\<lambda>_.
     rbind (actionOperationId h d) (\<lambda>opId.
     rbind (validateAuthority (expectedAuthority d)) (\<lambda>_.
     rbind (normalizeJsonValue (draft_payload d)) (\<lambda>p.
     rbind (normalizeConflictKeys (conflictKeys d)) (\<lambda>keys.
     rbind (case goalProjection d of
         None \<Rightarrow> Inr None
       | Some b \<Rightarrow> rbind (normalizeActionGoalProjectionBinding b d limits) (\<lambda>b'. Inr (Some b'))) (\<lambda>goal.
     rbind (fingerprintNormalizedActionPayload h p) (\<lambda>payloadPrint.
     rbind (canonicalizeJsonValue (of_json (intent_json d p keys goal))) (\<lambda>text.
     Inr \<lparr>sessionId = sessionId d, actorId = actorId d, coordinate = coordinate d, actionName = actionName d,
          operationKey = operationKey d, expectedAuthority = expectedAuthority d, conflictKeys = keys,
          replayPolicy = replayPolicy d, goalProjection = goal, payload = p, operationId = opId,
          intentFingerprint = h text, payloadFingerprint = payloadPrint\<rparr>))))))))"

section \<open>validation.ts: records\<close>

text \<open>\<open>ActionRecordSchema\<close> of packages/protocol/src/actions.ts on a record that has its types.\<close>

definition authority_ok :: "action_authority \<Rightarrow> bool" where
  "authority_ok a \<longleftrightarrow> is_opaque_identifier (timelineId a) \<and> is_decimal (generation a) \<and> is_decimal (revision a)"

definition goal_binding_ok :: "goal_binding \<Rightarrow> bool" where
  "goal_binding_ok b \<longleftrightarrow>
     list_all is_opaque_identifier [goalId b, stepId b, goal_inputId b, gp_ownerId (goal_partition b),
       gp_timelineId (goal_partition b)] \<and>
     is_decimal (gp_generation (goal_partition b)) \<and> is_decimal (expectedRevision b) \<and>
     opt_ok is_opaque_identifier (gp_sessionId (goal_partition b)) \<and>
     opt_ok is_opaque_identifier (gp_actorId (goal_partition b))"

definition claim_ok :: "action_claim \<Rightarrow> bool" where
  "claim_ok c \<longleftrightarrow> is_opaque_identifier (claim_token c) \<and> is_opaque_identifier (claim_claimantId c) \<and>
     is_positive_decimal (claim_attempt c) \<and> timestamp_pattern (claim_claimedAt c) \<and> timestamp_pattern (claim_expiresAt c)"

definition receipt_ok :: "action_receipt \<Rightarrow> bool" where
  "receipt_ok r \<longleftrightarrow> isActionOperationId (receipt_operationId r) \<and> is_opaque_identifier (receipt_claimToken r) \<and>
     is_positive_decimal (receipt_attempt r) \<and> timestamp_pattern (receivedAt r) \<and> opt_ok authority_ok (authorityAfter r)"

definition action_record_schema :: "action_record \<Rightarrow> bool" where
  "action_record_schema r \<longleftrightarrow>
     stream_key_ok r \<and> isActionOperationId (operationId r) \<and> is_sha256 (intentFingerprint r) \<and>
     is_sha256 (payloadFingerprint r) \<and> run_coordinate_ok (coordinate r) \<and> is_opaque_identifier (actionName r) \<and>
     is_opaque_identifier (operationKey r) \<and> authority_ok (expectedAuthority r) \<and>
     list_all is_opaque_identifier (conflictKeys r) \<and> opt_ok goal_binding_ok (goalProjection r) \<and>
     is_decimal (attempt r) \<and> timestamp_pattern (createdAt r) \<and> timestamp_pattern (updatedAt r) \<and>
     opt_ok claim_ok (claim r) \<and> opt_ok receipt_ok (receipt r) \<and>
     opt_ok (\<lambda>s. timestamp_pattern (settledAt s)) (goalProjectionSettlement r)"

definition assertActionRecordEnvelope :: "action_record \<Rightarrow> unit result" where
  "assertActionRecordEnvelope r = ensure (action_record_schema r) ActionProtocolValidation"

definition hasKnownUnappliedActionOutcome :: "action_record \<Rightarrow> bool" where
  "hasKnownUnappliedActionOutcome r \<longleftrightarrow>
     (if attempt r = js ''0'' then receipt r = None
      else (case receipt r of None \<Rightarrow> False
            | Some rc \<Rightarrow> receipt_outcome rc = OutRejected \<and> receipt_attempt rc = attempt r))"

definition isActionSourceFailed :: "action_record \<Rightarrow> bool" where
  "isActionSourceFailed r \<longleftrightarrow> status r = Failed \<and> hasKnownUnappliedActionOutcome r"

text \<open>The source status a settlement outcome needs, shared by the check and the transition.\<close>

definition outcome_matches_source :: "settlement_outcome \<Rightarrow> action_record \<Rightarrow> bool" where
  "outcome_matches_source out r \<longleftrightarrow>
     (out = Advanced \<and> status r = Succeeded \<and>
        (case receipt r of None \<Rightarrow> False | Some rc \<Rightarrow> receipt_outcome rc = OutSucceeded)) \<or>
     (out = SourceFailed \<and> isActionSourceFailed r)"

definition draft_of_record :: "action_record \<Rightarrow> intent_draft" where
  "draft_of_record r =
     \<lparr>sessionId = sessionId r, actorId = actorId r, coordinate = coordinate r, actionName = actionName r,
      operationKey = operationKey r, expectedAuthority = expectedAuthority r, conflictKeys = conflictKeys r,
      replayPolicy = replayPolicy r, goalProjection = goalProjection r, draft_payload = of_json (payload r)\<rparr>"

definition assert_claim :: "action_record \<Rightarrow> action_claim \<Rightarrow> unit result" where
  "assert_claim r c =
     checks [ensure (claim_attempt c = attempt r \<and> attempt r \<noteq> js ''0'') ActionStateConflict,
       validateTimestamp (claim_claimedAt c), validateTimestamp (claim_expiresAt c),
       ensure (claim_claimedAt c < claim_expiresAt c) ActionStateConflict]"

definition assert_receipt :: "action_record \<Rightarrow> action_receipt \<Rightarrow> unit result" where
  "assert_receipt r rc =
     checks [ensure (receipt_operationId rc = operationId r) ActionStateConflict,
       discard (parseEventRevision (receipt_attempt rc)), validateTimestamp (receivedAt rc),
       when_some (authorityAfter rc) validateAuthority,
       when_some (receipt_result rc) (\<lambda>j. discard (canonicalizeJsonValue (of_json j))),
       when_some (modelResult rc) (\<lambda>j. discard (canonicalizeJsonValue (of_json j)))]"

definition assert_settlement :: "action_record \<Rightarrow> goal_settlement \<Rightarrow> unit result" where
  "assert_settlement r s =
     checks [validateTimestamp (settledAt s),
       ensure (goalProjection r \<noteq> None \<and> outcome_matches_source (settlement_outcome s) r \<and>
         (case receipt r of None \<Rightarrow> [] | Some rc \<Rightarrow> receivedAt rc) \<le> settledAt s \<and> updatedAt r = settledAt s)
         ActionStateConflict]"

definition assertActionRecord ::
  "(js_string \<Rightarrow> js_string) \<Rightarrow> action_record \<Rightarrow> goal_projection_limits option \<Rightarrow> unit result" where
  "assertActionRecord h r limits =
     rbind (assertActionRecordEnvelope r) (\<lambda>_.
     rbind (prepareActionIntent h (draft_of_record r) limits) (\<lambda>prepared.
     checks
       [ensure (operationId prepared = operationId r \<and> intentFingerprint prepared = intentFingerprint r \<and>
          payloadFingerprint prepared = payloadFingerprint r) ActionStateConflict,
        discard (parseEventRevision (attempt r)), validateTimestamp (createdAt r), validateTimestamp (updatedAt r),
        ensure ((status r = Claimed \<or> status r = Uncertain) = (claim r \<noteq> None)) ActionStateConflict,
        when_some (claim r) (assert_claim r),
        when_some (receipt r) (assert_receipt r),
        ensure (\<not> ((status r = Pending \<or> status r = Failed) \<and> \<not> hasKnownUnappliedActionOutcome r)) ActionStateConflict,
        when_some (goalProjectionSettlement r) (assert_settlement r)]))"

datatype delivery_kind = Dispatch | Reconcile

text \<open>\<open>assertActionDelivery\<close> on a value that has a \<open>kind\<close> and an \<open>action\<close>.\<close>

definition assertActionDelivery ::
  "(js_string \<Rightarrow> js_string) \<Rightarrow> delivery_kind \<times> action_record \<Rightarrow> goal_projection_limits option \<Rightarrow> unit result" where
  "assertActionDelivery h d limits =
     (case d of (kind, action) \<Rightarrow>
        rbind (assertActionRecord h action limits) (\<lambda>_.
        ensure (\<not> ((kind = Dispatch \<and> status action \<noteq> Claimed) \<or>
                   (kind = Reconcile \<and> status action \<noteq> Claimed \<and> status action \<noteq> Uncertain)))
          ActionStateConflict))"

end
