(* ===== verification/Action_Transitions.thy ===== *)
theory Action_Transitions
  imports Action_Identity
begin

text \<open>
  packages/actions/src/transitions.ts: the record-level state machine of an action, one
  function per transition, with the checks and early returns of the code. \<open>fresh\<close> says whether
  the code returns a new record object, which is how the journal sees that there is something to
  store.
\<close>

section \<open>Transitions\<close>

record action_transition =
  tr_record :: action_record
  releaseConflicts :: bool
  fresh :: bool

definition claimActionRecord :: "action_record \<Rightarrow> claim_request \<Rightarrow> action_transition result" where
  "claimActionRecord r q =
     rbind (validateActionClaimRequest q) (\<lambda>_.
     rbind (ensure (status r = Pending) ActionStateConflict) (\<lambda>_.
     rbind (bigint_succ (attempt r)) (\<lambda>att.
     Inr \<lparr>tr_record = r\<lparr>status := Claimed, attempt := att, updatedAt := req_claimedAt q,
            claim := Some \<lparr>claim_token = req_claimToken q, claim_claimantId = req_claimantId q, claim_attempt = att,
              claim_claimedAt = req_claimedAt q, claim_expiresAt = req_expiresAt q\<rparr>\<rparr>,
          releaseConflicts = False, fresh = True\<rparr>)))"

definition normalize_optional :: "js_value option \<Rightarrow> json option result" where
  "normalize_optional v = (case v of None \<Rightarrow> Inr None | Some x \<Rightarrow> rbind (normalizeJsonValue x) (\<lambda>j. Inr (Some j)))"

definition prepareReceipt :: "receipt_input \<Rightarrow> action_receipt result" where
  "prepareReceipt i =
     rbind (normalize_optional (in_result i)) (\<lambda>res.
     rbind (normalize_optional (in_modelResult i)) (\<lambda>model.
     Inr \<lparr>receipt_operationId = in_operationId i, receipt_claimToken = in_claimToken i,
          receipt_attempt = in_attempt i, receipt_outcome = in_outcome i, receivedAt = in_receivedAt i,
          receipt_result = res, modelResult = model, authorityAfter = in_authorityAfter i\<rparr>))"

definition receipt_semantics_json :: "action_receipt \<Rightarrow> json" where
  "receipt_semantics_json r = JObj ([(js ''operationId'', JStr (receipt_operationId r)),
     (js ''claimToken'', JStr (receipt_claimToken r)), (js ''attempt'', JStr (receipt_attempt r)),
     (js ''outcome'', JStr (outcome_text (receipt_outcome r)))]
     @ opt_member ''result'' id (receipt_result r) @ opt_member ''modelResult'' id (modelResult r)
     @ opt_member ''authorityAfter'' authority_json (authorityAfter r))"

definition receiptSemantics :: "action_receipt \<Rightarrow> js_string result" where
  "receiptSemantics r = canonicalizeJsonValue (of_json (receipt_semantics_json r))"

text \<open>Both semantics are computed, the recorded one first, then compared.\<close>

definition same_semantics :: "action_receipt \<Rightarrow> action_receipt \<Rightarrow> bool result" where
  "same_semantics a b = rbind (receiptSemantics a) (\<lambda>s. rbind (receiptSemantics b) (\<lambda>t. Inr (s = t)))"

definition same_claim :: "action_receipt \<Rightarrow> js_string \<Rightarrow> js_string \<Rightarrow> bool" where
  "same_claim rc token att \<longleftrightarrow> receipt_claimToken rc = token \<and> receipt_attempt rc = att"

definition claim_matches :: "action_record \<Rightarrow> js_string \<Rightarrow> js_string \<Rightarrow> bool" where
  "claim_matches r token att \<longleftrightarrow>
     (case claim r of None \<Rightarrow> True | Some c \<Rightarrow> claim_token c = token \<and> claim_attempt c = att)"

definition unchanged :: "action_record \<Rightarrow> action_transition" where
  "unchanged r = \<lparr>tr_record = r, releaseConflicts = False, fresh = False\<rparr>"

definition replayReceipt :: "action_record \<Rightarrow> action_receipt \<Rightarrow> action_transition result" where
  "replayReceipt r rc =
     (case receipt r of
        None \<Rightarrow> Inl ActionClaimConflict
      | Some old \<Rightarrow>
          rbind (ensure (same_claim old (receipt_claimToken rc) (receipt_attempt rc)) ActionClaimConflict) (\<lambda>_.
          rbind (same_semantics old rc) (\<lambda>same.
          rbind (ensure same ActionStateConflict) (\<lambda>_. Inr (unchanged r)))))"

definition receiptActionRecord :: "action_record \<Rightarrow> receipt_input \<Rightarrow> action_transition result" where
  "receiptActionRecord r i =
     rbind (validateActionReceiptInput i) (\<lambda>_.
     rbind (ensure (claim_matches r (in_claimToken i) (in_attempt i)) ActionClaimConflict) (\<lambda>_.
     rbind (prepareReceipt i) (\<lambda>rc.
     if (case receipt r of None \<Rightarrow> False
         | Some old \<Rightarrow> claim r = None \<or> same_claim old (in_claimToken i) (in_attempt i))
     then replayReceipt r rc
     else rbind (ensure ((status r = Claimed \<or> status r = Uncertain) \<and> claim r \<noteq> None) ActionStateConflict) (\<lambda>_.
       let st = (case in_outcome i of OutSucceeded \<Rightarrow> Succeeded | OutRejected \<Rightarrow> Failed | OutUnknown \<Rightarrow> Uncertain);
           updated = r\<lparr>status := st, updatedAt := in_receivedAt i, receipt := Some rc\<rparr> in
       Inr \<lparr>tr_record = (if st \<noteq> Uncertain then updated\<lparr>claim := None\<rparr> else updated),
            releaseConflicts = (st \<noteq> Uncertain), fresh = True\<rparr>))))"

definition receipt_of_reconcile :: "reconcile_input \<Rightarrow> receipt_input" where
  "receipt_of_reconcile i =
     \<lparr>sessionId = sessionId i, actorId = actorId i, in_operationId = rec_operationId i,
      in_claimToken = rec_claimToken i, in_attempt = rec_attempt i,
      in_outcome = (case rec_resolution i of Applied \<Rightarrow> OutSucceeded | NotApplied \<Rightarrow> OutRejected | ResUnknown \<Rightarrow> OutUnknown),
      in_receivedAt = reconciledAt i, in_result = rec_result i, in_modelResult = rec_modelResult i,
      in_authorityAfter = rec_authorityAfter i\<rparr>"

text \<open>The part of \<open>reconcileActionRecord\<close> after the replay checks.\<close>

definition reconcile_update :: "action_record \<Rightarrow> reconcile_input \<Rightarrow> action_receipt \<Rightarrow> action_transition" where
  "reconcile_update r i rc =
     (let retry = (rec_resolution i = NotApplied \<and> replayPolicy r \<noteq> Never);
          st = (if rec_resolution i = ResUnknown then Uncertain
                else if rec_resolution i = Applied then Succeeded
                else if retry then Pending else Failed);
          updated = r\<lparr>status := st, updatedAt := reconciledAt i, receipt := Some rc\<rparr> in
      \<lparr>tr_record = (if st \<noteq> Uncertain then updated\<lparr>claim := None\<rparr> else updated),
       releaseConflicts = (st \<noteq> Uncertain), fresh = True\<rparr>)"

definition reconcileActionRecord :: "action_record \<Rightarrow> reconcile_input \<Rightarrow> action_transition result" where
  "reconcileActionRecord r i =
     rbind (validateActionReconcileInput i) (\<lambda>_.
     rbind (ensure (claim_matches r (rec_claimToken i) (rec_attempt i)) ActionClaimConflict) (\<lambda>_.
     rbind (prepareReceipt (receipt_of_reconcile i)) (\<lambda>rc.
     if claim r = None then (if receipt r \<noteq> None then replayReceipt r rc else Inl ActionStateConflict)
     else rbind (ensure (status r = Claimed \<or> status r = Uncertain) ActionStateConflict) (\<lambda>_.
       case receipt r of
         None \<Rightarrow> Inr (reconcile_update r i rc)
       | Some old \<Rightarrow>
           if same_claim old (rec_claimToken i) (rec_attempt i)
           then rbind (same_semantics old rc) (\<lambda>same.
             if same then Inr (unchanged r)
             else if rec_resolution i = ResUnknown \<or> receipt_outcome old \<noteq> OutUnknown then Inl ActionStateConflict
             else Inr (reconcile_update r i rc))
           else Inr (reconcile_update r i rc)))))"

definition reclaimActionRecord :: "action_record \<Rightarrow> claim_request \<Rightarrow> action_transition result" where
  "reclaimActionRecord r q =
     (if status r \<noteq> Claimed \<or> replayPolicy r \<noteq> Safe \<or>
         (case claim r of None \<Rightarrow> True | Some c \<Rightarrow> req_claimedAt q < claim_expiresAt c)
      then Inl ActionStateConflict
      else claimActionRecord (r\<lparr>status := Pending\<rparr>) q)"

definition expireActionRecord :: "action_record \<Rightarrow> js_string \<Rightarrow> action_transition result" where
  "expireActionRecord r now =
     rbind (validateTimestamp now) (\<lambda>_.
     rbind (ensure (status r = Claimed \<and> (case claim r of None \<Rightarrow> False | Some c \<Rightarrow> claim_expiresAt c \<le> now))
       ActionStateConflict) (\<lambda>_.
     Inr \<lparr>tr_record = r\<lparr>status := Uncertain, updatedAt := now\<rparr>, releaseConflicts = False, fresh = True\<rparr>))"

definition retirePendingActionRecord :: "action_record \<Rightarrow> js_string \<Rightarrow> action_transition result" where
  "retirePendingActionRecord r now =
     rbind (validateTimestamp now) (\<lambda>_.
     rbind (ensure (status r = Pending \<and> hasKnownUnappliedActionOutcome r) ActionStateConflict) (\<lambda>_.
     Inr \<lparr>tr_record = r\<lparr>status := Failed, updatedAt := now\<rparr>, releaseConflicts = True, fresh = True\<rparr>))"

text \<open>The settled record, and whether it is a new object.\<close>

definition settleActionGoalProjectionRecord ::
  "action_record \<Rightarrow> goal_settlement_input \<Rightarrow> (action_record \<times> bool) result" where
  "settleActionGoalProjectionRecord r i =
     rbind (validateTimestamp (set_settledAt i)) (\<lambda>_.
     rbind (ensure (intentFingerprint r = set_intentFingerprint i) ActionIntentConflict) (\<lambda>_.
     case goalProjectionSettlement r of
       Some s \<Rightarrow> rbind (ensure (settlement_outcome s = set_outcome i) ActionStateConflict) (\<lambda>_. Inr (r, False))
     | None \<Rightarrow>
         rbind (ensure (goalProjection r \<noteq> None \<and> outcome_matches_source (set_outcome i) r) ActionStateConflict) (\<lambda>_.
         Inr (r\<lparr>updatedAt := set_settledAt i,
                goalProjectionSettlement := Some \<lparr>settlement_outcome = set_outcome i, settledAt = set_settledAt i\<rparr>\<rparr>, True))))"

end
