(* ===== verification/Samples.thy ===== *)
theory Samples
  imports Json_Embed
begin

text \<open>
  Concrete identifiers, timestamps, numbers and digests the witnesses of the stores use.
\<close>

definition digest_a :: js_string where
  "digest_a = replicate 64 97"

definition t0 :: js_string where "t0 = js ''2026-01-01T00:00:00.000Z''"
definition t1 :: js_string where "t1 = js ''2026-01-01T00:00:01.000Z''"
definition t2 :: js_string where "t2 = js ''2026-01-01T00:00:02.000Z''"

lemma sample_ids [simp]:
  "is_opaque_identifier (js ''s'')" "is_opaque_identifier (js ''a'')" "is_opaque_identifier (js ''r'')"
  "is_opaque_identifier (js ''t'')" "is_opaque_identifier (js ''c'')" "is_opaque_identifier (js ''k'')"
  "is_opaque_identifier (js ''tok'')" "is_opaque_identifier (js ''give'')" "is_opaque_identifier (js ''door'')"
  by (simp_all add: is_opaque_identifier_def is_control_unit_def js_def)

lemma sample_decimals [simp]:
  "is_decimal (js ''0'')" "is_decimal (js ''1'')" "is_positive_decimal (js ''1'')" "of_decimal (js ''0'') = 0"
  "of_decimal (js ''1'') = 1"
  by (simp_all add: is_decimal_def is_positive_decimal_def js_def is_digit_def of_decimal_def digit_value_def)

lemma sample_timestamps [simp]: "is_timestamp t0" "is_timestamp t1" "is_timestamp t2"
  by (simp_all add: is_timestamp_def timestamp_pattern_def t0_def t1_def t2_def js_def digits_at_def num_at_def
      is_digit_def of_decimal_def digit_value_def days_in_month_def)

lemma sample_order [simp]: "t0 < t1" "t1 < t2" "t0 < t2" "t0 \<le> t1" "t1 \<le> t2" "t0 \<le> t2"
  by (simp_all add: t0_def t1_def t2_def js_def)

definition t3 :: js_string where "t3 = js ''2026-01-01T00:00:03.000Z''"

lemma t3_facts [simp]: "is_timestamp t3" "t2 < t3" "t1 < t3" "t0 < t3" "\<not> t3 \<le> t1" "\<not> t3 \<le> t2" "\<not> t1 < t0"
  "\<not> t2 < t0" "\<not> t2 \<le> t1"
  by (simp_all add: is_timestamp_def timestamp_pattern_def t0_def t1_def t2_def t3_def js_def digits_at_def num_at_def
      is_digit_def of_decimal_def digit_value_def days_in_month_def)

lemma sample_numerals [simp]:
  "is_decimal (js ''2'')" "is_positive_decimal (js ''2'')" "of_decimal (js ''2'') = 2"
  "to_decimal (Suc (Suc 0)) = js ''2''" "to_decimal 3 = js ''3''"
  by (simp_all add: is_decimal_def is_positive_decimal_def js_def is_digit_def of_decimal_def digit_value_def
      to_decimal.simps [of "Suc (Suc 0)"] to_decimal.simps [of 3] digit_unit_def)

lemma to_decimal_1: "to_decimal (Suc 0) = js ''1''"
  by (simp add: to_decimal.simps [of "Suc 0"] digit_unit_def js_def)

end
