(* ===== verification/Action_Lifecycle.thy ===== *)
theory Action_Lifecycle
  imports Action_Transitions Samples
begin

text \<open>
  What the transitions of an action record guarantee: every one keeps the record well formed,
  the status graph they span, absorption in the terminal states, the attempt counter and how
  often a record can be dispatched.
\<close>

section \<open>Well-formed records\<close>

lemma validateTimestamp_Inr [simp, result_simps]: "validateTimestamp s = Inr u \<longleftrightarrow> is_timestamp s"
  by (auto simp: validateTimestamp_def assertCanonicalTimestamp_def ensure_def)

lemma validateAuthority_Inr [simp, result_simps]: "validateAuthority a = Inr u \<longleftrightarrow> authority_ok a"
  by (simp add: validateAuthority_def authority_ok_def rbind_eq_Inr)

lemma timestamp_pattern [dest]: "is_timestamp s \<Longrightarrow> timestamp_pattern s"
  by (simp add: is_timestamp_def)

definition intent_prepared :: "(js_string \<Rightarrow> js_string) \<Rightarrow> action_record \<Rightarrow> goal_projection_limits option \<Rightarrow> bool" where
  "intent_prepared h r limits \<longleftrightarrow>
     (\<exists>p. prepareActionIntent h (draft_of_record r) limits = Inr p \<and>
          operationId p = operationId r \<and> intentFingerprint p = intentFingerprint r \<and>
          payloadFingerprint p = payloadFingerprint r)"

definition claim_wf :: "action_record \<Rightarrow> action_claim \<Rightarrow> bool" where
  "claim_wf r c \<longleftrightarrow> claim_attempt c = attempt r \<and> attempt r \<noteq> js ''0'' \<and> is_timestamp (claim_claimedAt c) \<and>
     is_timestamp (claim_expiresAt c) \<and> claim_claimedAt c < claim_expiresAt c"

definition receipt_wf :: "action_record \<Rightarrow> action_receipt \<Rightarrow> bool" where
  "receipt_wf r rc \<longleftrightarrow> receipt_operationId rc = operationId r \<and> is_decimal (receipt_attempt rc) \<and>
     is_timestamp (receivedAt rc) \<and> opt_ok authority_ok (authorityAfter rc)"

definition settlement_wf :: "action_record \<Rightarrow> goal_settlement \<Rightarrow> bool" where
  "settlement_wf r s \<longleftrightarrow> is_timestamp (settledAt s) \<and> goalProjection r \<noteq> None \<and>
     outcome_matches_source (settlement_outcome s) r \<and>
     (case receipt r of None \<Rightarrow> [] | Some rc \<Rightarrow> receivedAt rc) \<le> settledAt s \<and> updatedAt r = settledAt s"

definition lifecycle_ok :: "action_record \<Rightarrow> bool" where
  "lifecycle_ok r \<longleftrightarrow>
     is_decimal (attempt r) \<and> is_timestamp (createdAt r) \<and> is_timestamp (updatedAt r) \<and>
     (status r \<in> {Claimed, Uncertain}) = (claim r \<noteq> None) \<and>
     opt_ok (claim_wf r) (claim r) \<and> opt_ok (receipt_wf r) (receipt r) \<and>
     (status r \<in> {Pending, Failed} \<longrightarrow> hasKnownUnappliedActionOutcome r) \<and>
     opt_ok (settlement_wf r) (goalProjectionSettlement r)"

lemma assert_claim_Inr: "assert_claim r c = Inr u \<longleftrightarrow> claim_wf r c"
  by (auto simp: assert_claim_def claim_wf_def rbind_eq_Inr)

lemma assert_receipt_Inr: "assert_receipt r rc = Inr u \<longleftrightarrow> receipt_wf r rc"
proof -
  have "when_some x (\<lambda>j. discard (canonicalizeJsonValue (of_json j))) = Inr ()" for x
    by (cases x) simp_all
  then show ?thesis
    by (simp add: assert_receipt_def receipt_wf_def rbind_eq_Inr when_some_opt_ok [where P = authority_ok])
qed

lemma assert_settlement_Inr: "assert_settlement r s = Inr u \<longleftrightarrow> settlement_wf r s"
  by (auto simp: assert_settlement_def settlement_wf_def rbind_eq_Inr)

lemma assertActionRecord_iff:
  "assertActionRecord h r limits = Inr u \<longleftrightarrow> action_record_schema r \<and> intent_prepared h r limits \<and> lifecycle_ok r"
  by (auto simp: assertActionRecord_def assertActionRecordEnvelope_def intent_prepared_def lifecycle_ok_def rbind_eq_Inr
      when_some_opt_ok [where P = "claim_wf r"] when_some_opt_ok [where P = "receipt_wf r"]
      when_some_opt_ok [where P = "settlement_wf r"] assert_claim_Inr assert_receipt_Inr assert_settlement_Inr)

text \<open>The intent part of a record does not change, so neither does its preparation.\<close>

definition same_intent :: "action_record \<Rightarrow> action_record \<Rightarrow> bool" where
  "same_intent r r' \<longleftrightarrow> prepared_intent.truncate r = prepared_intent.truncate r' \<and> createdAt r = createdAt r'"

lemma same_intent_refl [simp]: "same_intent r r"
  by (simp add: same_intent_def)

lemma same_intent_trans: "same_intent r r' \<Longrightarrow> same_intent r' r'' \<Longrightarrow> same_intent r r''"
  by (simp add: same_intent_def)

lemma same_intentD:
  assumes "same_intent r r'"
  shows "sessionId r = sessionId r'" "actorId r = actorId r'" "operationId r = operationId r'"
    "coordinate r = coordinate r'" "conflictKeys r = conflictKeys r'" "replayPolicy r = replayPolicy r'"
    "goalProjection r = goalProjection r'" "intentFingerprint r = intentFingerprint r'" "createdAt r = createdAt r'"
    "payload r = payload r'" "draft_of_record r = draft_of_record r'"
    "payloadFingerprint r = payloadFingerprint r'" "actionName r = actionName r'" "operationKey r = operationKey r'"
    "expectedAuthority r = expectedAuthority r'"
  using assms by (cases r; cases r'; simp add: same_intent_def prepared_intent.defs draft_of_record_def)+

lemma intent_prepared_same: "same_intent r r' \<Longrightarrow> intent_prepared h r limits = intent_prepared h r' limits"
  by (simp add: intent_prepared_def same_intentD [of r r'])

section \<open>Transitions keep records well formed\<close>

definition record_wf :: "action_record \<Rightarrow> bool" where
  "record_wf r \<longleftrightarrow> action_record_schema r \<and> lifecycle_ok r"

lemma assertActionRecord_wf:
  "assertActionRecord h r limits = Inr u \<longleftrightarrow> record_wf r \<and> intent_prepared h r limits"
  by (auto simp: assertActionRecord_iff record_wf_def)

lemmas transition_defs = claimActionRecord_def receiptActionRecord_def reconcileActionRecord_def reclaimActionRecord_def
  expireActionRecord_def retirePendingActionRecord_def replayReceipt_def reconcile_update_def unchanged_def Let_def

lemma validateStream_Inr [simp]:
  "validateStream k run claimant token = Inr u \<longleftrightarrow>
     is_opaque_identifier (sessionId k) \<and> is_opaque_identifier (actorId k) \<and> opt_ok is_opaque_identifier run \<and>
     opt_ok is_opaque_identifier claimant \<and> opt_ok is_opaque_identifier token"
  by (simp add: validateStream_def rbind_eq_Inr when_some_opt_ok [where P = is_opaque_identifier])

lemma validateActionClaimRequest_Inr [simp]:
  "validateActionClaimRequest q = Inr u \<longleftrightarrow>
     stream_key_ok q \<and> opt_ok is_opaque_identifier (req_runId q) \<and> is_opaque_identifier (req_claimantId q) \<and>
     is_opaque_identifier (req_claimToken q) \<and> is_timestamp (req_claimedAt q) \<and> is_timestamp (req_expiresAt q) \<and>
     req_claimedAt q < req_expiresAt q \<and> is_positive_safe_integer (candidateLimit q)"
  by (auto simp: validateActionClaimRequest_def rbind_eq_Inr assertPositiveSafeInteger_def stream_key_ok_def
      is_positive_safe_integer_def)

lemma validateActionReceiptInput_Inr [simp]:
  "validateActionReceiptInput i = Inr u \<longleftrightarrow>
     stream_key_ok i \<and> is_opaque_identifier (in_claimToken i) \<and> isActionOperationId (in_operationId i) \<and>
     is_positive_decimal (in_attempt i) \<and> is_timestamp (in_receivedAt i) \<and> opt_ok authority_ok (in_authorityAfter i)"
  by (auto simp: validateActionReceiptInput_def rbind_eq_Inr stream_key_ok_def is_opaque_identifier_def
      when_some_opt_ok [where P = authority_ok])

lemma validateActionReconcileInput_Inr [simp]:
  "validateActionReconcileInput i = Inr u \<longleftrightarrow>
     stream_key_ok i \<and> is_opaque_identifier (rec_claimToken i) \<and> isActionOperationId (rec_operationId i) \<and>
     is_positive_decimal (rec_attempt i) \<and> is_timestamp (reconciledAt i) \<and> opt_ok authority_ok (rec_authorityAfter i)"
  by (auto simp: validateActionReconcileInput_def rbind_eq_Inr stream_key_ok_def
      when_some_opt_ok [where P = authority_ok])

lemma prepareReceipt_Inr:
  "prepareReceipt i = Inr rc \<longleftrightarrow> (\<exists>res model.
     normalize_optional (in_result i) = Inr res \<and> normalize_optional (in_modelResult i) = Inr model \<and>
     rc = \<lparr>receipt_operationId = in_operationId i, receipt_claimToken = in_claimToken i,
          receipt_attempt = in_attempt i, receipt_outcome = in_outcome i, receivedAt = in_receivedAt i,
          receipt_result = res, modelResult = model, authorityAfter = in_authorityAfter i\<rparr>)"
  by (auto simp: prepareReceipt_def rbind_eq_Inr)

lemma same_semantics_eq: "same_semantics a b = Inr (canonical (receipt_semantics_json a) = canonical (receipt_semantics_json b))"
  by (simp add: same_semantics_def receiptSemantics_def)

lemma same_semantics_refl [simp]: "same_semantics a a = Inr True"
  by (simp add: same_semantics_eq)

lemma replayReceipt_Inr: "replayReceipt r rc = Inr t \<Longrightarrow> t = unchanged r \<and> receipt r \<noteq> None"
  by (auto simp: replayReceipt_def rbind_eq_Inr split: option.splits)

text \<open>What each transition does when it returns.\<close>

lemma claim_transition:
  "claimActionRecord r q = Inr t \<longleftrightarrow>
     validateActionClaimRequest q = Inr () \<and> status r = Pending \<and>
     (\<exists>att. bigint_succ (attempt r) = Inr att \<and>
       t = \<lparr>tr_record = r\<lparr>status := Claimed, attempt := att, updatedAt := req_claimedAt q,
              claim := Some \<lparr>claim_token = req_claimToken q, claim_claimantId = req_claimantId q, claim_attempt = att,
                claim_claimedAt = req_claimedAt q, claim_expiresAt = req_expiresAt q\<rparr>\<rparr>,
            releaseConflicts = False, fresh = True\<rparr>)"
  by (auto simp: claimActionRecord_def rbind_eq_Inr simp del: validateActionClaimRequest_Inr)

text \<open>
  A receipt of an outcome: the shared shape of a fresh receipt and a fresh reconciliation. The
  record leaves the claimed statuses together with its claim unless the outcome is unknown.
\<close>

definition received :: "action_record \<Rightarrow> action_receipt \<Rightarrow> action_status \<Rightarrow> action_record" where
  "received r rc st =
     r\<lparr>status := st, updatedAt := receivedAt rc, receipt := Some rc, claim := (if st = Uncertain then claim r else None)\<rparr>"

definition receipt_status :: "receipt_outcome \<Rightarrow> action_status" where
  "receipt_status out = (case out of OutSucceeded \<Rightarrow> Succeeded | OutRejected \<Rightarrow> Failed | OutUnknown \<Rightarrow> Uncertain)"

lemma receipt_status_simps [simp]:
  "receipt_status OutSucceeded = Succeeded" "receipt_status OutRejected = Failed" "receipt_status OutUnknown = Uncertain"
  by (simp_all add: receipt_status_def)

text \<open>\<open>rc\<close> answers the claim of the record with outcome \<open>out\<close> and moves it to status \<open>st\<close>.\<close>

definition answers :: "action_record \<Rightarrow> action_receipt \<Rightarrow> action_status \<Rightarrow> bool" where
  "answers r rc st \<longleftrightarrow>
     status r \<in> {Claimed, Uncertain} \<and>
     (\<exists>c. claim r = Some c \<and> receipt_claimToken rc = claim_token c \<and> receipt_attempt rc = claim_attempt c) \<and>
     is_opaque_identifier (receipt_claimToken rc) \<and>
     is_positive_decimal (receipt_attempt rc) \<and> isActionOperationId (receipt_operationId rc) \<and>
     is_timestamp (receivedAt rc) \<and> opt_ok authority_ok (authorityAfter rc) \<and>
     (st = receipt_status (receipt_outcome rc) \<or>
       st = Pending \<and> receipt_outcome rc = OutRejected \<and> replayPolicy r \<noteq> Never)"

lemma receipt_transition:
  assumes "receiptActionRecord r i = Inr t"
  shows "t = unchanged r \<and> receipt r \<noteq> None \<or>
    (\<exists>rc. t = \<lparr>tr_record = received r rc (receipt_status (receipt_outcome rc)),
            releaseConflicts = (receipt_outcome rc \<noteq> OutUnknown), fresh = True\<rparr> \<and>
      receipt_operationId rc = in_operationId i \<and> receipt_outcome rc = in_outcome i \<and>
      answers r rc (receipt_status (receipt_outcome rc)))"
proof -
  from assms obtain rc where i: "validateActionReceiptInput i = Inr ()"
    and m: "claim_matches r (in_claimToken i) (in_attempt i)" and rc: "prepareReceipt i = Inr rc"
    by (auto simp: receiptActionRecord_def rbind_eq_Inr)
  show ?thesis
  proof (cases "case receipt r of None \<Rightarrow> False | Some old \<Rightarrow> claim r = None \<or> same_claim old (in_claimToken i) (in_attempt i)")
    case True
    with assms i m rc have "replayReceipt r rc = Inr t" by (simp add: receiptActionRecord_def)
    then show ?thesis by (auto dest: replayReceipt_Inr)
  next
    case False
    from rc have outs: "receipt_outcome rc = in_outcome i" "receivedAt rc = in_receivedAt i"
      "receipt_operationId rc = in_operationId i" by (auto simp: prepareReceipt_Inr)
    from assms i m rc False have st: "status r \<in> {Claimed, Uncertain}" "claim r \<noteq> None"
      and t: "t = \<lparr>tr_record = received r rc (receipt_status (receipt_outcome rc)),
            releaseConflicts = (receipt_outcome rc \<noteq> OutUnknown), fresh = True\<rparr>"
      by (auto simp: receiptActionRecord_def rbind_eq_Inr received_def Let_def outs receipt_status_def
          split: receipt_outcome.splits)
    moreover have "answers r rc (receipt_status (receipt_outcome rc))"
      using st i m rc by (auto simp: answers_def prepareReceipt_Inr claim_matches_def)
    ultimately show ?thesis using outs by blast
  qed
qed

lemma reconcile_update_received:
  fixes r :: action_record
  assumes "prepareReceipt (receipt_of_reconcile i) = Inr rc"
  defines "st \<equiv> (if rec_resolution i = ResUnknown then Uncertain else if rec_resolution i = Applied then Succeeded
                else if rec_resolution i = NotApplied \<and> replayPolicy r \<noteq> Never then Pending else Failed)"
  shows "reconcile_update r i rc = \<lparr>tr_record = received r rc st, releaseConflicts = (st \<noteq> Uncertain), fresh = True\<rparr>"
proof -
  from assms(1) have at: "receivedAt rc = reconciledAt i"
    by (auto simp: prepareReceipt_Inr receipt_of_reconcile_def)
  show ?thesis
    by (cases "rec_resolution i"; cases "replayPolicy r = Never")
      (simp_all add: st_def reconcile_update_def received_def at)
qed

lemma reconcile_transition:
  assumes "reconcileActionRecord r i = Inr t"
  shows "t = unchanged r \<and> receipt r \<noteq> None \<or>
    (\<exists>rc st. t = \<lparr>tr_record = received r rc st, releaseConflicts = (st \<noteq> Uncertain), fresh = True\<rparr> \<and>
      receipt_operationId rc = rec_operationId i \<and> answers r rc st)"
proof -
  from assms obtain rc where i: "validateActionReconcileInput i = Inr ()"
    and m: "claim_matches r (rec_claimToken i) (rec_attempt i)"
    and rc: "prepareReceipt (receipt_of_reconcile i) = Inr rc"
    by (auto simp: reconcileActionRecord_def rbind_eq_Inr)
  let ?st = "if rec_resolution i = ResUnknown then Uncertain else if rec_resolution i = Applied then Succeeded
                else if rec_resolution i = NotApplied \<and> replayPolicy r \<noteq> Never then Pending else Failed"
  have "t = unchanged r \<and> receipt r \<noteq> None \<or>
      (t = reconcile_update r i rc \<and> status r \<in> {Claimed, Uncertain} \<and> claim r \<noteq> None)"
    using assms i m rc
    by (auto simp: reconcileActionRecord_def rbind_eq_Inr dest: replayReceipt_Inr split: if_splits option.splits)
  then show ?thesis
  proof
    assume t: "t = reconcile_update r i rc \<and> status r \<in> {Claimed, Uncertain} \<and> claim r \<noteq> None"
    have "receipt_operationId rc = rec_operationId i" "answers r rc ?st"
      using t i m rc
      by (auto simp: answers_def prepareReceipt_Inr claim_matches_def receipt_of_reconcile_def
          split: resolution.splits)
    moreover from t have "t = \<lparr>tr_record = received r rc ?st, releaseConflicts = (?st \<noteq> Uncertain), fresh = True\<rparr>"
      by (simp only: reconcile_update_received [OF rc, of r])
    ultimately show ?thesis by blast
  qed blast
qed

lemma reclaim_transition:
  "reclaimActionRecord r q = Inr t \<longleftrightarrow>
     status r = Claimed \<and> replayPolicy r = Safe \<and> (\<exists>c. claim r = Some c \<and> claim_expiresAt c \<le> req_claimedAt q) \<and>
     claimActionRecord (r\<lparr>status := Pending\<rparr>) q = Inr t"
  by (auto simp: reclaimActionRecord_def split: option.splits)

lemma expire_transition:
  "expireActionRecord r now = Inr t \<longleftrightarrow>
     is_timestamp now \<and> status r = Claimed \<and> (\<exists>c. claim r = Some c \<and> claim_expiresAt c \<le> now) \<and>
     t = \<lparr>tr_record = r\<lparr>status := Uncertain, updatedAt := now\<rparr>, releaseConflicts = False, fresh = True\<rparr>"
  by (auto simp: expireActionRecord_def rbind_eq_Inr split: option.splits)

lemma retire_transition:
  "retirePendingActionRecord r now = Inr t \<longleftrightarrow>
     is_timestamp now \<and> status r = Pending \<and> hasKnownUnappliedActionOutcome r \<and>
     t = \<lparr>tr_record = r\<lparr>status := Failed, updatedAt := now\<rparr>, releaseConflicts = True, fresh = True\<rparr>"
  by (auto simp: retirePendingActionRecord_def rbind_eq_Inr)

lemma settle_transition:
  "settleActionGoalProjectionRecord r i = Inr (r', new) \<longleftrightarrow>
     is_timestamp (set_settledAt i) \<and> intentFingerprint r = set_intentFingerprint i \<and>
     (case goalProjectionSettlement r of
        Some s \<Rightarrow> settlement_outcome s = set_outcome i \<and> r' = r \<and> \<not> new
      | None \<Rightarrow> goalProjection r \<noteq> None \<and> outcome_matches_source (set_outcome i) r \<and> new \<and>
          r' = r\<lparr>updatedAt := set_settledAt i,
                 goalProjectionSettlement := Some \<lparr>settlement_outcome = set_outcome i, settledAt = set_settledAt i\<rparr>\<rparr>)"
  by (auto simp: settleActionGoalProjectionRecord_def rbind_eq_Inr split: option.splits)

text \<open>Well-formedness after each transition.\<close>

lemma lifecycle_unsettled:
  "lifecycle_ok r \<Longrightarrow> status r \<in> {Pending, Claimed, Uncertain} \<Longrightarrow> goalProjectionSettlement r = None"
  by (cases "goalProjectionSettlement r")
    (auto simp: lifecycle_ok_def settlement_wf_def outcome_matches_source_def isActionSourceFailed_def)

lemma received_wf:
  assumes wf: "record_wf r" and a: "answers r rc st" and op: "receipt_operationId rc = operationId r"
  shows "record_wf (received r rc st)"
proof -
  from a obtain c where c: "claim r = Some c" and tok: "receipt_claimToken rc = claim_token c"
    and att: "receipt_attempt rc = claim_attempt c" and st: "status r \<in> {Claimed, Uncertain}"
    by (auto simp: answers_def)
  from wf have l: "lifecycle_ok r" and s: "action_record_schema r" by (simp_all add: record_wf_def)
  from l c have cw: "claim_wf r c" by (simp add: lifecycle_ok_def)
  from l st have none: "goalProjectionSettlement r = None" using lifecycle_unsettled by blast
  have rc: "receipt_ok rc" using a by (auto simp: answers_def receipt_ok_def)
  have "action_record_schema (received r rc st)"
    using s rc a by (auto simp: action_record_schema_def received_def stream_key_ok_def answers_def)
  moreover have "lifecycle_ok (received r rc st)"
    using l c cw none att op a is_positive_decimal_is_decimal
    by (auto simp: lifecycle_ok_def received_def receipt_wf_def claim_wf_def hasKnownUnappliedActionOutcome_def
        answers_def receipt_status_def split: receipt_outcome.splits)
  ultimately show ?thesis by (simp add: record_wf_def)
qed

lemma claim_wf_record:
  assumes wf: "record_wf (r\<lparr>status := st\<rparr>)" and st: "st \<in> {Pending, Claimed}"
    and t: "claimActionRecord (r\<lparr>status := Pending\<rparr>) q = Inr t"
  shows "record_wf (tr_record t)"
proof -
  from wf have l: "lifecycle_ok (r\<lparr>status := st\<rparr>)" and s: "action_record_schema (r\<lparr>status := st\<rparr>)"
    by (simp_all add: record_wf_def)
  from l st have none: "goalProjectionSettlement r = None" using lifecycle_unsettled [OF l] by auto
  from l have dec: "is_decimal (attempt r)" by (simp add: lifecycle_ok_def)
  then have pos: "is_positive_decimal (to_decimal (Suc (of_decimal (attempt r))))" by simp
  have nz: "to_decimal (Suc n) \<noteq> js ''0''" for n using to_decimal_inject [of "Suc n" 0] by (simp add: to_decimal_0)
  from t dec have q: "validateActionClaimRequest q = Inr ()"
    and tr: "tr_record t = r\<lparr>status := Claimed, attempt := to_decimal (Suc (of_decimal (attempt r))),
      updatedAt := req_claimedAt q, claim := Some \<lparr>claim_token = req_claimToken q, claim_claimantId = req_claimantId q,
        claim_attempt = to_decimal (Suc (of_decimal (attempt r))), claim_claimedAt = req_claimedAt q,
        claim_expiresAt = req_expiresAt q\<rparr>\<rparr>"
    by (auto simp: claim_transition simp del: validateActionClaimRequest_Inr)
  have "action_record_schema (tr_record t)"
    using s q pos by (auto simp: tr action_record_schema_def claim_ok_def stream_key_ok_def)
  moreover have "lifecycle_ok (tr_record t)"
    using l q none nz unfolding tr
    by (cases "receipt r") (auto simp: lifecycle_ok_def claim_wf_def receipt_wf_def)
  ultimately show ?thesis by (simp add: record_wf_def)
qed

section \<open>The step relation\<close>

text \<open>
  A dispatch is a transition that hands the action to a claimant; an answer is any other
  transition. A receipt or reconciliation reaches a record through its operation id, and the
  journal checks a settled record before it stores it.
\<close>

inductive dispatch_step :: "action_record \<Rightarrow> action_record \<Rightarrow> bool" where
  Claim: "claimActionRecord r q = Inr t \<Longrightarrow> dispatch_step r (tr_record t)"
| Reclaim: "reclaimActionRecord r q = Inr t \<Longrightarrow> dispatch_step r (tr_record t)"

inductive answer_step :: "action_record \<Rightarrow> action_record \<Rightarrow> bool" where
  Receipt: "receiptActionRecord r i = Inr t \<Longrightarrow> in_operationId i = operationId r \<Longrightarrow> answer_step r (tr_record t)"
| Reconciled: "reconcileActionRecord r i' = Inr t \<Longrightarrow> rec_operationId i' = operationId r \<Longrightarrow> answer_step r (tr_record t)"
| Expire: "expireActionRecord r now = Inr t \<Longrightarrow> answer_step r (tr_record t)"
| Retire: "retirePendingActionRecord r now = Inr t \<Longrightarrow> answer_step r (tr_record t)"
| Settle: "settleActionGoalProjectionRecord r s = Inr (r', new) \<Longrightarrow> record_wf r' \<Longrightarrow> answer_step r r'"

definition action_step :: "action_record \<Rightarrow> action_record \<Rightarrow> bool" where
  "action_step r r' \<longleftrightarrow> dispatch_step r r' \<or> answer_step r r'"

text \<open>The same relation by what changes, the form the proofs use.\<close>

lemma dispatch_step_cases:
  assumes "dispatch_step r r'"
  obtains q t where "claimActionRecord (r\<lparr>status := Pending\<rparr>) q = Inr t" "r' = tr_record t"
    "status r = Pending \<or> status r = Claimed \<and> replayPolicy r = Safe \<and>
      (\<exists>c. claim r = Some c \<and> claim_expiresAt c \<le> req_claimedAt q)"
  using assms
proof cases
  case (Claim q t)
  then have st: "status r = Pending" by (simp add: claim_transition)
  then have "r\<lparr>status := Pending\<rparr> = r" by (cases r) simp
  with Claim(2) have "claimActionRecord (r\<lparr>status := Pending\<rparr>) q = Inr t" by (simp only:)
  then show ?thesis by (rule that) (use Claim(1) st in simp_all)
next
  case (Reclaim q t)
  then have c: "claimActionRecord (r\<lparr>status := Pending\<rparr>) q = Inr t" by (simp add: reclaim_transition)
  from Reclaim(2) have "status r = Claimed \<and> replayPolicy r = Safe \<and>
      (\<exists>c. claim r = Some c \<and> claim_expiresAt c \<le> req_claimedAt q)" by (simp only: reclaim_transition)
  then show ?thesis using that [OF c Reclaim(1)] by fast
qed

lemma answer_step_cases:
  assumes "answer_step r r'"
  obtains "r' = r"
  | rc st where "r' = received r rc st" "answers r rc st" "receipt_operationId rc = operationId r"
  | now c where "r' = r\<lparr>status := Uncertain, updatedAt := now\<rparr>" "is_timestamp now" "status r = Claimed"
      "claim r = Some c" "claim_expiresAt c \<le> now"
  | now where "r' = r\<lparr>status := Failed, updatedAt := now\<rparr>" "is_timestamp now" "status r = Pending"
      "hasKnownUnappliedActionOutcome r"
  | s where "r' = r\<lparr>updatedAt := settledAt s, goalProjectionSettlement := Some s\<rparr>" "goalProjectionSettlement r = None"
      "outcome_matches_source (settlement_outcome s) r" "record_wf r'"
  using assms
proof cases
  case (Receipt i t)
  from receipt_transition [OF Receipt(2)] show ?thesis
  proof (elim disjE exE conjE)
    assume "t = unchanged r"
    with Receipt show ?thesis by (intro that(1)) (simp add: unchanged_def)
  next
    fix rc
    assume "t = \<lparr>tr_record = received r rc (receipt_status (receipt_outcome rc)),
            releaseConflicts = (receipt_outcome rc \<noteq> OutUnknown), fresh = True\<rparr>"
      "receipt_operationId rc = in_operationId i" "answers r rc (receipt_status (receipt_outcome rc))"
    with Receipt show ?thesis by (intro that(2)) simp_all
  qed
next
  case (Reconciled i t)
  from reconcile_transition [OF Reconciled(2)] show ?thesis
  proof (elim disjE exE conjE)
    assume "t = unchanged r"
    with Reconciled show ?thesis by (intro that(1)) (simp add: unchanged_def)
  next
    fix rc st
    assume "t = \<lparr>tr_record = received r rc st, releaseConflicts = (st \<noteq> Uncertain), fresh = True\<rparr>"
      "receipt_operationId rc = rec_operationId i" "answers r rc st"
    with Reconciled show ?thesis by (intro that(2)) simp_all
  qed
next
  case (Expire now t)
  then obtain c where "is_timestamp now" "status r = Claimed" "claim r = Some c" "claim_expiresAt c \<le> now"
    "tr_record t = r\<lparr>status := Uncertain, updatedAt := now\<rparr>" by (auto simp: expire_transition)
  with Expire(1) show ?thesis by (intro that(3)) simp_all
next
  case (Retire now t)
  then have "is_timestamp now" "status r = Pending" "hasKnownUnappliedActionOutcome r"
    "tr_record t = r\<lparr>status := Failed, updatedAt := now\<rparr>" by (simp_all add: retire_transition)
  with Retire(1) show ?thesis by (intro that(4)) simp_all
next
  case (Settle i new)
  show ?thesis
  proof (cases "goalProjectionSettlement r")
    case None
    let ?s = "\<lparr>settlement_outcome = set_outcome i, settledAt = set_settledAt i\<rparr>"
    from None Settle have "r' = r\<lparr>updatedAt := settledAt ?s, goalProjectionSettlement := Some ?s\<rparr>"
      "outcome_matches_source (settlement_outcome ?s) r" by (simp_all add: settle_transition)
    with None Settle(2) show ?thesis by (intro that(5))
  next
    case (Some s)
    with Settle(1) show ?thesis by (intro that(1)) (simp add: settle_transition)
  qed
qed

lemma dispatch_step_wf: "dispatch_step r r' \<Longrightarrow> record_wf r \<Longrightarrow> record_wf r'"
proof (erule dispatch_step_cases)
  fix q t
  assume "record_wf r" "claimActionRecord (r\<lparr>status := Pending\<rparr>) q = Inr t" "r' = tr_record t"
    "status r = Pending \<or> status r = Claimed \<and> replayPolicy r = Safe \<and>
      (\<exists>c. claim r = Some c \<and> claim_expiresAt c \<le> req_claimedAt q)"
  moreover have "r\<lparr>status := status r\<rparr> = r" by simp
  ultimately show "record_wf r'" using claim_wf_record [where r = r and st = "status r"] by auto
qed

lemma answer_step_wf: "answer_step r r' \<Longrightarrow> record_wf r \<Longrightarrow> record_wf r'"
proof (erule answer_step_cases)
  fix now c
  assume "record_wf r" "r' = r\<lparr>status := Uncertain, updatedAt := now\<rparr>" "is_timestamp now" "status r = Claimed"
    "claim r = Some c"
  then show "record_wf r'"
    using lifecycle_unsettled [of r]
    by (cases "receipt r")
      (auto simp: record_wf_def action_record_schema_def lifecycle_ok_def claim_wf_def receipt_wf_def stream_key_ok_def)
next
  fix now
  assume "record_wf r" "r' = r\<lparr>status := Failed, updatedAt := now\<rparr>" "is_timestamp now" "status r = Pending"
    "hasKnownUnappliedActionOutcome r"
  then show "record_wf r'"
    using lifecycle_unsettled [of r]
    by (cases "receipt r")
      (auto simp: record_wf_def action_record_schema_def lifecycle_ok_def receipt_wf_def stream_key_ok_def
        hasKnownUnappliedActionOutcome_def split: if_splits)
qed (auto intro: received_wf)

lemma same_intent_update [simp]:
  "same_intent r (r\<lparr>status := a\<rparr>)" "same_intent r (r\<lparr>status := a, updatedAt := b\<rparr>)"
  "same_intent r (r\<lparr>updatedAt := b, goalProjectionSettlement := d\<rparr>)"
  "same_intent r (r\<lparr>status := a, attempt := e, updatedAt := b, claim := f\<rparr>)"
  "same_intent r (received r rc st)"
  by (simp_all add: same_intent_def prepared_intent.defs received_def)

lemma dispatch_step_intent: "dispatch_step r r' \<Longrightarrow> same_intent r r'"
  by (erule dispatch_step_cases) (auto simp: claim_transition)

lemma answer_step_intent: "answer_step r r' \<Longrightarrow> same_intent r r'"
  by (erule answer_step_cases) auto

lemma action_step_admissible:
  assumes "assertActionRecord h r limits = Inr ()" and "action_step r r'"
  shows "assertActionRecord h r' limits = Inr () \<and> same_intent r r'"
  using assms dispatch_step_wf dispatch_step_intent answer_step_wf answer_step_intent
    intent_prepared_same [of r r' h limits]
  by (auto simp: assertActionRecord_wf action_step_def)

section \<open>The status graph\<close>

inductive status_edge :: "action_status \<Rightarrow> action_status \<Rightarrow> bool" where
  "status_edge Pending Claimed"
| "status_edge Pending Failed"
| "status_edge Claimed Claimed"
| "status_edge Claimed Pending"
| "status_edge Claimed Succeeded"
| "status_edge Claimed Failed"
| "status_edge Claimed Uncertain"
| "status_edge Uncertain Pending"
| "status_edge Uncertain Succeeded"
| "status_edge Uncertain Failed"
| "status_edge Uncertain Uncertain"

inductive_simps status_edge_from [simp]:
  "status_edge Pending s" "status_edge Claimed s" "status_edge Uncertain s" "status_edge Succeeded s" "status_edge Failed s"

lemma answers_status:
  "answers r rc st \<Longrightarrow> status r \<in> {Claimed, Uncertain} \<and> st \<noteq> Claimed \<and> (st = Pending \<longrightarrow> replayPolicy r \<noteq> Never)"
  by (auto simp: answers_def receipt_status_def split: receipt_outcome.splits)

lemma answers_edge: "answers r rc st \<Longrightarrow> status_edge (status r) st"
  using answers_status [of r rc st] by (cases st) auto

text \<open>What survives a step that starts in a terminal status.\<close>

definition terminal :: "action_record \<Rightarrow> bool" where
  "terminal r \<longleftrightarrow> status r = Succeeded \<or> status r = Failed"

lemma dispatch_not_terminal: "dispatch_step r r' \<Longrightarrow> \<not> terminal r"
  by (auto elim!: dispatch_step_cases simp: terminal_def)

lemma answer_terminal:
  "answer_step r r' \<Longrightarrow> terminal r \<Longrightarrow>
   status r' = status r \<and> receipt r' = receipt r \<and> attempt r' = attempt r \<and> claim r' = claim r"
  by (erule answer_step_cases) (auto simp: terminal_def dest: answers_status)

section \<open>Runs of a record\<close>

definition is_new :: "action_record \<Rightarrow> bool" where
  "is_new r \<longleftrightarrow> status r = Pending \<and> attempt r = js ''0'' \<and> claim r = None \<and> receipt r = None \<and>
     goalProjectionSettlement r = None"

text \<open>A run of a record from its admission, with the number of dispatches made.\<close>

inductive action_run :: "action_record \<Rightarrow> nat \<Rightarrow> action_record \<Rightarrow> bool" where
  Start: "record_wf r \<Longrightarrow> is_new r \<Longrightarrow> action_run r 0 r"
| Dispatched: "action_run r0 n r \<Longrightarrow> dispatch_step r r' \<Longrightarrow> action_run r0 (Suc n) r'"
| Answered: "action_run r0 n r \<Longrightarrow> answer_step r r' \<Longrightarrow> action_run r0 n r'"

lemma dispatch_step_attempt:
  "dispatch_step r r' \<Longrightarrow> is_decimal (attempt r) \<Longrightarrow>
   attempt r' = to_decimal (Suc (of_decimal (attempt r))) \<and> status r' = Claimed \<and> receipt r' = receipt r"
  by (erule dispatch_step_cases) (auto simp: claim_transition)

lemma answer_step_attempt: "answer_step r r' \<Longrightarrow> attempt r' = attempt r"
  by (erule answer_step_cases) (auto simp: received_def)

lemma answer_step_pending: "answer_step r r' \<Longrightarrow> status r' = Pending \<Longrightarrow> replayPolicy r = Never \<Longrightarrow> status r = Pending"
  by (erule answer_step_cases) (auto simp: received_def dest: answers_status)

lemma run_invariant:
  "action_run r0 n r \<Longrightarrow> record_wf r \<and> same_intent r0 r \<and> attempt r = to_decimal n"
proof (induction rule: action_run.induct)
  case (Start r)
  then show ?case by (simp add: is_new_def to_decimal_0)
next
  case (Dispatched r0 n r r')
  then show ?case
    using dispatch_step_attempt [of r r'] dispatch_step_wf dispatch_step_intent same_intent_trans by fastforce
next
  case (Answered r0 n r r')
  then show ?case using answer_step_attempt answer_step_wf answer_step_intent same_intent_trans by fastforce
qed

lemma run_never:
  "action_run r0 n r \<Longrightarrow> replayPolicy r = Never \<Longrightarrow> n \<le> 1 \<and> (status r = Pending \<longrightarrow> n = 0)"
proof (induction rule: action_run.induct)
  case (Dispatched r0 n r r')
  from Dispatched.hyps(2) Dispatched.prems have "replayPolicy r = Never"
    using dispatch_step_intent same_intentD(6) by fastforce
  with Dispatched.hyps(2) have "status r = Pending" by (auto elim!: dispatch_step_cases)
  moreover have "status r' = Claimed"
    using Dispatched.hyps run_invariant dispatch_step_attempt is_decimal_to_decimal by metis
  ultimately show ?case using Dispatched.IH \<open>replayPolicy r = Never\<close> by simp
next
  case (Answered r0 n r r')
  from Answered.hyps(2) Answered.prems have "replayPolicy r = Never"
    using answer_step_intent same_intentD(6) by fastforce
  with Answered show ?case using answer_step_pending [of r r'] by auto
qed simp

lemma run_pending_known:
  "action_run r0 n r \<Longrightarrow> status r = Pending \<Longrightarrow>
   n = 0 \<or> (\<exists>rc. receipt r = Some rc \<and> receipt_outcome rc = OutRejected \<and> receipt_attempt rc = to_decimal n)"
  using run_invariant [of r0 n r] to_decimal_inject [of n 0]
  by (auto simp: record_wf_def lifecycle_ok_def hasKnownUnappliedActionOutcome_def to_decimal_0 split: option.splits)

lemma received_idempotent_receipt:
  assumes "receiptActionRecord r i = Inr t" "fresh t"
  shows "receiptActionRecord (tr_record t) i = Inr (unchanged (tr_record t))"
proof -
  from assms(1) obtain rc where i: "validateActionReceiptInput i = Inr ()"
    and m: "claim_matches r (in_claimToken i) (in_attempt i)" and rc: "prepareReceipt i = Inr rc"
    by (auto simp: receiptActionRecord_def rbind_eq_Inr)
  have same: "same_claim rc (in_claimToken i) (in_attempt i)" using rc by (auto simp: prepareReceipt_Inr same_claim_def)
  have "\<not> (case receipt r of None \<Rightarrow> False | Some old \<Rightarrow> claim r = None \<or> same_claim old (in_claimToken i) (in_attempt i))"
    using assms i m rc by (auto simp: receiptActionRecord_def unchanged_def dest!: replayReceipt_Inr split: if_splits)
  with assms i m rc have "receipt (tr_record t) = Some rc" "claim (tr_record t) = None \<or> claim (tr_record t) = claim r"
    by (auto simp: receiptActionRecord_def rbind_eq_Inr Let_def)
  moreover from this m have "claim_matches (tr_record t) (in_claimToken i) (in_attempt i)"
    by (auto simp: claim_matches_def)
  ultimately show ?thesis
    using i rc same
    by (auto simp: receiptActionRecord_def replayReceipt_def same_claim_def simp del: validateActionReceiptInput_Inr)
qed

lemma received_idempotent_reconcile:
  assumes "reconcileActionRecord r i = Inr t" "fresh t"
  shows "reconcileActionRecord (tr_record t) i = Inr (unchanged (tr_record t))"
proof -
  from assms(1) obtain rc where i: "validateActionReconcileInput i = Inr ()"
    and m: "claim_matches r (rec_claimToken i) (rec_attempt i)" and rc: "prepareReceipt (receipt_of_reconcile i) = Inr rc"
    by (auto simp: reconcileActionRecord_def rbind_eq_Inr)
  have same: "same_claim rc (rec_claimToken i) (rec_attempt i)"
    using rc by (auto simp: prepareReceipt_Inr same_claim_def receipt_of_reconcile_def)
  have t: "t = reconcile_update r i rc"
    using assms i m rc
    by (auto simp: reconcileActionRecord_def rbind_eq_Inr unchanged_def dest!: replayReceipt_Inr split: if_splits option.splits)
  have u: "receipt (tr_record t) = Some rc" "claim (tr_record t) = None \<or> status (tr_record t) = Uncertain \<and> claim (tr_record t) = claim r"
    by (auto simp: t reconcile_update_def Let_def)
  with m have "claim_matches (tr_record t) (rec_claimToken i) (rec_attempt i)" by (auto simp: claim_matches_def)
  with u i rc same show ?thesis
    by (auto simp: reconcileActionRecord_def replayReceipt_def same_claim_def
        simp del: validateActionReconcileInput_Inr)
qed

section \<open>A concrete action\<close>

definition const_hash :: "js_string \<Rightarrow> js_string" where
  "const_hash s = digest_a"

definition sample_coordinate :: run_coordinate where
  "sample_coordinate = \<lparr>sessionId = js ''s'', actorId = js ''a'', runId = js ''r'', turn = js ''0''\<rparr>"

definition sample_authority :: action_authority where
  "sample_authority = \<lparr>timelineId = js ''t'', generation = js ''0'', revision = js ''0''\<rparr>"

definition sample_record :: "replay_policy \<Rightarrow> action_record" where
  "sample_record policy =
     \<lparr>sessionId = js ''s'', actorId = js ''a'', coordinate = sample_coordinate, actionName = js ''give'',
      operationKey = js ''k'', expectedAuthority = sample_authority, conflictKeys = [js ''door''],
      replayPolicy = policy, goalProjection = None, payload = JNull, operationId = js ''act_'' @ digest_a,
      intentFingerprint = digest_a, payloadFingerprint = digest_a, status = Pending, attempt = js ''0'',
      createdAt = t0, updatedAt = t0, claim = None, receipt = None, goalProjectionSettlement = None\<rparr>"

definition sample_request :: claim_request where
  "sample_request =
     \<lparr>sessionId = js ''s'', actorId = js ''a'', req_runId = None, req_claimantId = js ''c'', req_claimToken = js ''tok'',
      req_claimedAt = t0, req_expiresAt = t1, candidateLimit = 8\<rparr>"

definition sample_receipt :: "receipt_outcome \<Rightarrow> receipt_input" where
  "sample_receipt out =
     \<lparr>sessionId = js ''s'', actorId = js ''a'', in_operationId = js ''act_'' @ digest_a, in_claimToken = js ''tok'',
      in_attempt = js ''1'', in_outcome = out, in_receivedAt = t1, in_result = None, in_modelResult = None,
      in_authorityAfter = None\<rparr>"

lemmas sample_defs = sample_record_def sample_request_def sample_receipt_def sample_coordinate_def sample_authority_def

lemma sample_digest [simp]: "is_sha256 digest_a" "isActionOperationId (js ''act_'' @ digest_a)"
  by (simp_all add: is_sha256_def digest_a_def is_hex_unit_def list_all_iff isActionOperationId_def
      is_prefixed_digest_def js_def)

lemma sample_wf: "record_wf (sample_record policy)"
  by (simp add: record_wf_def action_record_schema_def lifecycle_ok_def sample_defs stream_key_ok_def
      run_coordinate_ok_def authority_ok_def hasKnownUnappliedActionOutcome_def timestamp_pattern)

lemma sample_prepared: "intent_prepared const_hash (sample_record policy) limits"
  by (simp add: intent_prepared_def prepareActionIntent_def draft_of_record_def sample_defs validateCoordinate_def
      actionOperationId_def normalizeConflictKeys_def fingerprintNormalizedActionPayload_def const_hash_def
      validateAuthority_def assertOpaqueIdentifier_def discard_def parseEventRevision_def normalizeJsonValue_eq)

definition sample_claimed :: "replay_policy \<Rightarrow> action_record" where
  "sample_claimed policy = (sample_record policy)\<lparr>status := Claimed, attempt := js ''1'', updatedAt := t0,
     claim := Some \<lparr>claim_token = js ''tok'', claim_claimantId = js ''c'', claim_attempt = js ''1'',
       claim_claimedAt = t0, claim_expiresAt = t1\<rparr>\<rparr>"

lemma sample_claim:
  "claimActionRecord (sample_record policy) sample_request =
   Inr \<lparr>tr_record = sample_claimed policy, releaseConflicts = False, fresh = True\<rparr>"
  by (simp add: claim_transition sample_defs sample_claimed_def stream_key_ok_def is_positive_safe_integer_def
      is_safe_integer_def max_safe_integer_def to_decimal_1)

lemma sample_dispatch: "dispatch_step (sample_record policy) (sample_claimed policy)"
  using Claim [OF sample_claim] by simp

lemma sample_run: "action_run (sample_record policy) 1 (sample_claimed policy)"
proof -
  have "is_new (sample_record policy)" by (simp add: is_new_def sample_defs)
  then have "action_run (sample_record policy) (Suc 0) (sample_claimed policy)"
    by (intro Dispatched [OF Start sample_dispatch] sample_wf)
  then show ?thesis by simp
qed

section \<open>Properties\<close>

text \<open>Every transition of the record state machine (claim, receipt, reconciliation, reclaim, expiry,
  retirement, settlement) keeps the record admissible: \<open>assertActionRecord\<close>, run on the record the
  transition returns, succeeds whenever it succeeded before, and the intent never changes.\<close>

theorem transitions_keep_records_admissible:
  assumes "assertActionRecord h r limits = Inr ()" and "action_step r r'"
  shows "assertActionRecord h r' limits = Inr () \<and> same_intent r r'"
  using assms by (rule action_step_admissible)

theorem transitions_keep_records_admissible_witness:
  "assertActionRecord const_hash (sample_claimed Safe) None = Inr () \<and> same_intent (sample_record Safe) (sample_claimed Safe)"
  by (rule transitions_keep_records_admissible)
    (simp_all add: assertActionRecord_wf sample_wf sample_prepared action_step_def sample_dispatch)

text \<open>C33: a record moves along the edges pending-claimed, pending-failed, claimed-claimed (replay),
  claimed or uncertain to any status but claimed, and along no other; a succeeded or failed record
  keeps its status, receipt, attempt and claim through any further transitions.\<close>

theorem statuses_follow_graph:
  assumes "action_step r r'"
  shows "(status r' = status r \<or> status_edge (status r) (status r')) \<and>
    (terminal r \<longrightarrow> status r' = status r \<and> receipt r' = receipt r \<and> attempt r' = attempt r \<and> claim r' = claim r)"
proof (cases "dispatch_step r r'")
  case True
  then have "status_edge (status r) (status r')" by (auto elim!: dispatch_step_cases simp: claim_transition)
  with True show ?thesis using dispatch_not_terminal by blast
next
  case False
  with assms have a: "answer_step r r'" by (simp add: action_step_def)
  then have "status r' = status r \<or> status_edge (status r) (status r')"
    by (cases rule: answer_step_cases) (auto simp: received_def dest: answers_edge)
  with a show ?thesis using answer_terminal [of r r'] by blast
qed

theorem statuses_follow_graph_witness:
  "status_edge (status (sample_record Never)) (status (sample_claimed Never))"
  using statuses_follow_graph [of "sample_record Never" "sample_claimed Never"]
  by (simp add: action_step_def sample_dispatch sample_claimed_def sample_defs)

text \<open>C3: the attempt counter is the number of dispatches made, and an action with replay policy
  \<open>never\<close> is dispatched at most once in any run of its record.\<close>

theorem never_dispatched_twice:
  assumes "action_run r0 n r"
  shows "attempt r = to_decimal n \<and> (replayPolicy r0 = Never \<longrightarrow> n \<le> 1)"
proof -
  have "attempt r = to_decimal n" and "same_intent r0 r" using run_invariant [OF assms] by blast+
  moreover from this have "replayPolicy r0 = replayPolicy r" by (simp add: same_intentD)
  ultimately show ?thesis using run_never [OF assms] by auto
qed

theorem never_dispatched_twice_witness:
  "attempt (sample_claimed Never) = to_decimal 1 \<and> replayPolicy (sample_record Never) = Never"
  using never_dispatched_twice [OF sample_run [of Never]] by (simp add: sample_record_def)

text \<open>A repeated dispatch is justified: either the policy is \<open>safe\<close> and the previous claim has expired at
  the new claim's time, or the last attempt was answered as not applied and the policy is not \<open>never\<close>.\<close>

theorem redispatch_justified:
  assumes "action_run r0 n r" and "dispatch_step r r'" and "0 < n"
  shows "(replayPolicy r0 = Safe \<and> (\<exists>c c'. claim r = Some c \<and> claim r' = Some c' \<and> claim_expiresAt c \<le> claim_claimedAt c')) \<or>
    (replayPolicy r0 \<noteq> Never \<and> (\<exists>rc. receipt r = Some rc \<and> receipt_outcome rc = OutRejected \<and>
      receipt_attempt rc = to_decimal n))"
  using assms(2)
proof (cases rule: dispatch_step_cases)
  case (1 q t)
  have pol: "replayPolicy r0 = replayPolicy r" using run_invariant [OF assms(1)] same_intentD by blast
  from 1(3) show ?thesis
  proof
    assume "status r = Pending"
    with pol assms(3) show ?thesis using run_pending_known [OF assms(1)] run_never [OF assms(1)] by auto
  qed (use 1 pol in \<open>auto simp: claim_transition\<close>)
qed

definition sample_request2 :: claim_request where
  "sample_request2 = sample_request\<lparr>req_claimToken := js ''tok'', req_claimedAt := t1, req_expiresAt := t2\<rparr>"

theorem redispatch_justified_witness:
  "\<exists>c. claim (sample_claimed Safe) = Some c \<and> claim_expiresAt c \<le> t1"
proof -
  obtain t where "reclaimActionRecord (sample_claimed Safe) sample_request2 = Inr t"
    and "claim (tr_record t) = Some \<lparr>claim_token = js ''tok'', claim_claimantId = js ''c'', claim_attempt = to_decimal 2,
       claim_claimedAt = t1, claim_expiresAt = t2\<rparr>"
    by (simp add: reclaim_transition claim_transition sample_claimed_def sample_request2_def sample_defs
        stream_key_ok_def is_positive_safe_integer_def is_safe_integer_def max_safe_integer_def numeral_2_eq_2)
  then show ?thesis
    using redispatch_justified [OF sample_run [of Safe] Reclaim, of sample_request2 t]
    by (auto simp: sample_claimed_def sample_defs)
qed

text \<open>Recording a receipt or a reconciliation a second time changes nothing: the repeated call returns the
  stored record itself.\<close>

theorem answers_are_idempotent:
  "(receiptActionRecord r i = Inr t \<and> fresh t \<longrightarrow>
      receiptActionRecord (tr_record t) i = Inr (unchanged (tr_record t))) \<and>
   (reconcileActionRecord r i' = Inr t \<and> fresh t \<longrightarrow>
      reconcileActionRecord (tr_record t) i' = Inr (unchanged (tr_record t)))"
  using received_idempotent_receipt received_idempotent_reconcile by blast

theorem answers_are_idempotent_witness:
  "\<exists>t. receiptActionRecord (sample_claimed Never) (sample_receipt OutSucceeded) = Inr t \<and>
     status (tr_record t) = Succeeded \<and>
     receiptActionRecord (tr_record t) (sample_receipt OutSucceeded) = Inr (unchanged (tr_record t))"
proof -
  obtain t where t: "receiptActionRecord (sample_claimed Never) (sample_receipt OutSucceeded) = Inr t" "fresh t"
    "status (tr_record t) = Succeeded"
    by (simp add: receiptActionRecord_def sample_claimed_def sample_defs claim_matches_def prepareReceipt_def
        normalize_optional_def validateActionReceiptInput_def validateStream_def validateTimestamp_def
        assertOpaqueIdentifier_def assertCanonicalTimestamp_def)
  then show ?thesis
    using answers_are_idempotent [of "sample_claimed Never" "sample_receipt OutSucceeded" t] by blast
qed

end
