(* ===== verification/Action_Journal.thy ===== *)
theory Action_Journal
  imports Action_Lifecycle
begin

text \<open>
  packages/actions/src/in-memory-journal.ts and run-authority.ts: the action journal. Its state
  is the map of records in admission order, the owners of the conflict keys and the admission
  sequences. Every operation runs to completion under the journal's mutex, so an operation is a
  function from the state to the state it leaves and what it returns or throws; a throw keeps the
  writes already made.
\<close>

section \<open>State\<close>

datatype authority_reply = ReturnedUndefined | ReturnedValue | Threw js_error

record journal_env =
  env_hash :: "js_string \<Rightarrow> js_string"
  env_authority :: "(run_coordinate \<Rightarrow> authority_reply) option"
  goalProjectionLimits :: "goal_projection_limits option"

record journal =
  records :: "(js_string, action_record) js_map"
  conflicts :: "(js_string, js_string) js_map"
  sequences :: "(js_string, nat) js_map"
  nextSequence :: nat

definition empty_journal :: journal where
  "empty_journal = \<lparr>records = [], conflicts = [], sequences = [], nextSequence = 0\<rparr>"

definition recordKey :: "'a stream_key_scheme \<Rightarrow> js_string \<Rightarrow> js_string" where
  "recordKey k opId = string_tuple_key [sessionId k, actorId k, opId]"

definition conflictKey :: "js_string \<Rightarrow> js_string \<Rightarrow> js_string" where
  "conflictKey session key = string_tuple_key [session, key]"

section \<open>Run authority\<close>

definition assertRunAuthorityOpen :: "journal_env \<Rightarrow> run_coordinate \<Rightarrow> unit result" where
  "assertRunAuthorityOpen env c =
     (case env_authority env of
        None \<Rightarrow> Inr ()
      | Some check \<Rightarrow> (case check c of ReturnedUndefined \<Rightarrow> Inr () | ReturnedValue \<Rightarrow> Inl TypeErr | Threw e \<Rightarrow> Inl e))"

definition isActionRunAuthorityOpen :: "unit result \<Rightarrow> bool result" where
  "isActionRunAuthorityOpen r =
     (case r of Inr _ \<Rightarrow> Inr True | Inl e \<Rightarrow> if e = RunAuthorityClosed then Inr False else Inl e)"

definition isRunOpen :: "journal_env \<Rightarrow> action_record \<Rightarrow> bool result" where
  "isRunOpen env r = isActionRunAuthorityOpen (assertRunAuthorityOpen env (coordinate r))"

section \<open>Conflict keys and the record map\<close>

definition canAcquire :: "journal \<Rightarrow> action_record \<Rightarrow> bool" where
  "canAcquire s r \<longleftrightarrow> list_all (\<lambda>key.
     case js_get (conflicts s) (conflictKey (sessionId r) key) of None \<Rightarrow> True | Some own \<Rightarrow> own = operationId r)
     (conflictKeys r)"

definition acquire :: "action_record \<Rightarrow> journal \<Rightarrow> journal" where
  "acquire r s = s\<lparr>conflicts :=
     fold (\<lambda>key. js_set (conflictKey (sessionId r) key) (operationId r)) (conflictKeys r) (conflicts s)\<rparr>"

definition release_key :: "action_record \<Rightarrow> js_string \<Rightarrow> (js_string, js_string) js_map \<Rightarrow> (js_string, js_string) js_map" where
  "release_key r key m =
     (let keyId = conflictKey (sessionId r) key in
      if js_get m keyId = Some (operationId r) then js_delete keyId m else m)"

definition release :: "action_record \<Rightarrow> journal \<Rightarrow> journal" where
  "release r s = s\<lparr>conflicts := fold (release_key r) (conflictKeys r) (conflicts s)\<rparr>"

definition store :: "action_record \<Rightarrow> journal \<Rightarrow> journal" where
  "store r s = s\<lparr>records := js_set (recordKey r (operationId r)) r (records s)\<rparr>"

definition require :: "journal \<Rightarrow> 'a stream_key_scheme \<Rightarrow> js_string option \<Rightarrow> js_string \<Rightarrow> action_record result" where
  "require s k token opId =
     rbind (validateStream k None None token) (\<lambda>_.
     rbind (assertOpaqueIdentifier opId) (\<lambda>_.
     case js_get (records s) (recordKey k opId) of None \<Rightarrow> Inl ActionNotFound | Some r \<Rightarrow> Inr r))"

section \<open>Admission\<close>

definition new_action_record :: "prepared_intent \<Rightarrow> js_string \<Rightarrow> action_record" where
  "new_action_record intent now =
     prepared_intent.extend intent
       (action_record.fields Pending (js ''0'') now now None None None)"

definition pending_goal_projections :: "journal \<Rightarrow> prepared_intent \<Rightarrow> nat" where
  "pending_goal_projections s intent =
     length (filter (\<lambda>r. same_stream r intent \<and> goalProjection r \<noteq> None \<and> goalProjectionSettlement r = None)
       (js_values (records s)))"

definition check_goal_capacity :: "journal_env \<Rightarrow> journal \<Rightarrow> prepared_intent \<Rightarrow> unit result" where
  "check_goal_capacity env s intent =
     (if goalProjection intent = None then Inr ()
      else case goalProjectionLimits env of
        None \<Rightarrow> Inl TypeErr
      | Some limits \<Rightarrow>
          ensure (int (pending_goal_projections s intent) < maxPendingPerStream limits) ActionGoalProjectionCapacity)"

definition ensure_action :: "journal_env \<Rightarrow> prepared_intent \<Rightarrow> js_string \<Rightarrow> journal \<Rightarrow> journal \<times> action_record result" where
  "ensure_action env intent now s =
     commit s (validateTimestamp now) (\<lambda>_.
     let key = recordKey intent (operationId intent) in
     case js_get (records s) key of
       Some existing \<Rightarrow>
         (s, if intentFingerprint existing \<noteq> intentFingerprint intent then Inl ActionIntentConflict else Inr existing)
     | None \<Rightarrow>
         let r = new_action_record intent now in
         commit s (checks [check_goal_capacity env s intent,
             assertActionRecord (env_hash env) r (goalProjectionLimits env),
             assertActionGoalProjectionRecordFits r (goalProjectionLimits env),
             assertRunAuthorityOpen env (coordinate r)]) (\<lambda>_.
           (s\<lparr>records := js_set key r (records s), nextSequence := Suc (nextSequence s),
              sequences := js_set key (Suc (nextSequence s)) (sequences s)\<rparr>, Inr r)))"

definition get_action :: "'a stream_key_scheme \<Rightarrow> js_string \<Rightarrow> journal \<Rightarrow> action_record option result" where
  "get_action k opId s =
     rbind (validateStream k None None None) (\<lambda>_.
     rbind (assertOpaqueIdentifier opId) (\<lambda>_. Inr (js_get (records s) (recordKey k opId))))"

section \<open>Receipts, reconciliations and settlements\<close>

definition recordReceipt :: "journal_env \<Rightarrow> receipt_input \<Rightarrow> journal \<Rightarrow> journal \<times> action_record result" where
  "recordReceipt env i s =
     commit s (require s i (Some (in_claimToken i)) (in_operationId i)) (\<lambda>r.
     commit s (receiptActionRecord r i) (\<lambda>t.
     if fresh t
     then commit s (assertActionGoalProjectionRecordFits (tr_record t) (goalProjectionLimits env)) (\<lambda>_.
       (store (tr_record t) (if releaseConflicts t then release r s else s), Inr (tr_record t)))
     else (s, Inr (tr_record t))))"

text \<open>A record that goes back to pending although its run has closed is retired at once.\<close>

definition retire_if_closed :: "journal_env \<Rightarrow> action_record \<Rightarrow> js_string \<Rightarrow> action_transition \<Rightarrow> action_transition result" where
  "retire_if_closed env r now t =
     (if status (tr_record t) = Pending
      then rbind (isRunOpen env r) (\<lambda>open.
        if open then Inr t
        else rbind (retirePendingActionRecord (tr_record t) now) (\<lambda>t'.
          Inr (t\<lparr>tr_record := tr_record t', fresh := True\<rparr>)))
      else Inr t)"

definition reconcile_action :: "journal_env \<Rightarrow> reconcile_input \<Rightarrow> journal \<Rightarrow> journal \<times> action_record result" where
  "reconcile_action env i s =
     commit s (require s i (Some (rec_claimToken i)) (rec_operationId i)) (\<lambda>r.
     commit s (reconcileActionRecord r i) (\<lambda>t0.
     commit s (retire_if_closed env r (reconciledAt i) t0) (\<lambda>t.
     if fresh t
     then commit s (assertActionGoalProjectionRecordFits (tr_record t) (goalProjectionLimits env)) (\<lambda>_.
       (store (tr_record t) (if releaseConflicts t then release r s else s), Inr (tr_record t)))
     else (s, Inr (tr_record t)))))"

definition requireGoalProjectionLimits :: "journal_env \<Rightarrow> goal_projection_limits result" where
  "requireGoalProjectionLimits env = (case goalProjectionLimits env of None \<Rightarrow> Inl TypeErr | Some l \<Rightarrow> Inr l)"

definition settleGoalProjection :: "journal_env \<Rightarrow> goal_settlement_input \<Rightarrow> journal \<Rightarrow> journal \<times> action_record result" where
  "settleGoalProjection env i s =
     commit s (requireGoalProjectionLimits env) (\<lambda>limits.
     commit s (require s i None (set_operationId i)) (\<lambda>r.
     commit s (settleActionGoalProjectionRecord r i) (\<lambda>(settled, new).
     if \<not> new then (s, Inr r)
     else commit s (checks [assertActionRecord (env_hash env) settled (Some limits),
         assertActionGoalProjectionRecordFits settled (Some limits)]) (\<lambda>_.
       (store settled s, Inr settled)))))"

section \<open>Delivery\<close>

text \<open>
  A \<open>for ... of\<close> over the map's values visits the records present when the loop starts: the loops
  only write back the record they are visiting, so its key keeps its place.
\<close>

definition is_unsettled :: "action_record \<Rightarrow> bool" where
  "is_unsettled r \<longleftrightarrow> status r = Claimed \<or> status r = Uncertain"

definition matches_run :: "action_record \<Rightarrow> js_string option \<Rightarrow> bool" where
  "matches_run r run \<longleftrightarrow> (case run of None \<Rightarrow> True | Some i \<Rightarrow> runId (coordinate r) = i)"

definition oldestUnsettled ::
  "'a stream_key_scheme \<Rightarrow> js_string option \<Rightarrow> js_string list \<Rightarrow> journal \<Rightarrow> action_record option" where
  "oldestUnsettled k run replayable s =
     find (\<lambda>r. same_stream r k \<and> matches_run r run \<and> operationId r \<notin> set replayable \<and> is_unsettled r)
       (js_values (records s))"

definition recoverDelivery :: "stream_key \<Rightarrow> journal \<Rightarrow> (delivery_kind \<times> action_record) option result" where
  "recoverDelivery k s =
     rbind (validateStream k None None None) (\<lambda>_.
     Inr (map_option (Pair Reconcile) (oldestUnsettled k None [] s)))"

text \<open>\<open>retireClosedPending\<close>: how many records were retired; the loop stops at the limit.\<close>

fun retire_closed ::
  "journal_env \<Rightarrow> claim_request \<Rightarrow> action_record list \<Rightarrow> nat \<Rightarrow> journal \<Rightarrow> journal \<times> nat result" where
  "retire_closed env q [] retired s = (s, Inr retired)"
| "retire_closed env q (r # rs) retired s =
     (if \<not> same_stream r q \<or> status r \<noteq> Pending then retire_closed env q rs retired s
      else commit s (isRunOpen env r) (\<lambda>open.
        if open then retire_closed env q rs retired s
        else commit s (retirePendingActionRecord r (req_claimedAt q)) (\<lambda>t.
          commit s (checks [assertActionRecord (env_hash env) (tr_record t) (goalProjectionLimits env),
              assertActionGoalProjectionRecordFits (tr_record t) (goalProjectionLimits env)]) (\<lambda>_.
            let s' = store (tr_record t) (release r s) in
            if candidateLimit q \<le> int (Suc retired) then (s', Inr (Suc retired))
            else retire_closed env q rs (Suc retired) s'))))"

definition retireClosedPending :: "journal_env \<Rightarrow> claim_request \<Rightarrow> journal \<Rightarrow> journal \<times> bool result" where
  "retireClosedPending env q s =
     (case retire_closed env q (js_values (records s)) 0 s of
        (s', Inl e) \<Rightarrow> (s', Inl e)
      | (s', Inr n) \<Rightarrow> (s', Inr (n \<noteq> 0)))"

text \<open>
  The due claims of the stream, earliest expiry first: each is pushed, the list is sorted stably by
  expiry, and the last is dropped when the list is over the limit.
\<close>

definition is_due :: "claim_request \<Rightarrow> action_record \<Rightarrow> bool" where
  "is_due q r \<longleftrightarrow> same_stream r q \<and> matches_run r (req_runId q) \<and> status r = Claimed \<and>
     (case claim r of None \<Rightarrow> False | Some c \<Rightarrow> claim_expiresAt c \<le> req_claimedAt q)"

definition expiry_of :: "action_record \<Rightarrow> js_string" where
  "expiry_of r = (case claim r of None \<Rightarrow> [] | Some c \<Rightarrow> claim_expiresAt c)"

definition push_due :: "int \<Rightarrow> action_record list \<Rightarrow> action_record \<Rightarrow> action_record list" where
  "push_due limit expired r =
     (let pushed = sort_key expiry_of (expired @ [r]) in
      if limit < int (length pushed) then butlast pushed else pushed)"

definition due_claims :: "claim_request \<Rightarrow> journal \<Rightarrow> action_record list" where
  "due_claims q s = foldl (push_due (candidateLimit q)) [] (filter (is_due q) (js_values (records s)))"

text \<open>The operations that may be replayed, and whether any claim was expired.\<close>

fun expire_due ::
  "journal_env \<Rightarrow> claim_request \<Rightarrow> action_record list \<Rightarrow> js_string list \<Rightarrow> bool \<Rightarrow> journal \<Rightarrow>
   journal \<times> (js_string list \<times> bool) result" where
  "expire_due env q [] replayable changed s = (s, Inr (replayable, changed))"
| "expire_due env q (r # rs) replayable changed s =
     commit s (if replayPolicy r = Safe then isRunOpen env r else Inr False) (\<lambda>replay.
     if replay then expire_due env q rs (operationId r # replayable) changed s
     else commit s (expireActionRecord r (req_claimedAt q)) (\<lambda>t.
       commit s (assertActionGoalProjectionRecordFits (tr_record t) (goalProjectionLimits env)) (\<lambda>_.
         expire_due env q rs replayable True
           (store (tr_record t) (if releaseConflicts t then release r s else s)))))"

definition expireDueClaims ::
  "journal_env \<Rightarrow> claim_request \<Rightarrow> journal \<Rightarrow> journal \<times> (js_string list \<times> bool) result" where
  "expireDueClaims env q s = expire_due env q (due_claims q s) [] False s"

fun claim_pending ::
  "journal_env \<Rightarrow> claim_request \<Rightarrow> js_string list \<Rightarrow> action_record list \<Rightarrow> int \<Rightarrow> journal \<Rightarrow>
   journal \<times> action_record option result" where
  "claim_pending env q replayable [] scanned s = (s, Inr None)"
| "claim_pending env q replayable (r # rs) scanned s =
     (if \<not> same_stream r q \<or> \<not> matches_run r (req_runId q) \<or>
         (status r \<noteq> Pending \<and> operationId r \<notin> set replayable)
      then claim_pending env q replayable rs scanned s
      else if candidateLimit q < scanned + 1 then (s, Inr None)
      else commit s (isRunOpen env r) (\<lambda>open.
        if \<not> open \<or> \<not> canAcquire s r then claim_pending env q replayable rs (scanned + 1) s
        else let replay = operationId r \<in> set replayable in
          commit s (if replay then reclaimActionRecord r q else claimActionRecord r q) (\<lambda>t.
          commit s (checks [assertActionRecord (env_hash env) (tr_record t) (goalProjectionLimits env),
              assertActionGoalProjectionRecordFits (tr_record t) (goalProjectionLimits env)]) (\<lambda>_.
            (store (tr_record t) (acquire (tr_record t) (if replay then release r s else s)), Inr (Some (tr_record t)))))))"

definition claimPendingRecord ::
  "journal_env \<Rightarrow> claim_request \<Rightarrow> js_string list \<Rightarrow> journal \<Rightarrow> journal \<times> action_record option result" where
  "claimPendingRecord env q replayable s = claim_pending env q replayable (js_values (records s)) 0 s"

record delivery_selection =
  delivery :: "(delivery_kind \<times> action_record) option"
  changed :: bool

text \<open>The selection once closed runs are retired and due claims expired.\<close>

definition selectDelivery ::
  "journal_env \<Rightarrow> claim_request \<Rightarrow> bool \<Rightarrow> js_string list \<Rightarrow> journal \<Rightarrow> journal \<times> delivery_selection result" where
  "selectDelivery env q chg replayable s =
     (case oldestUnsettled q (req_runId q) replayable s of
       Some r \<Rightarrow> (s, Inr \<lparr>delivery = Some (Reconcile, r), changed = chg\<rparr>)
     | None \<Rightarrow>
         (case claimPendingRecord env q replayable s of (s', claimed') \<Rightarrow> commit s' claimed' (\<lambda>claimed.
          case claimed of
            Some r \<Rightarrow> (s', Inr \<lparr>delivery = Some (Dispatch, r), changed = True\<rparr>)
          | None \<Rightarrow> (s', Inr \<lparr>delivery = map_option (Pair Reconcile) (oldestUnsettled q (req_runId q) [] s'),
                            changed = chg\<rparr>))))"

definition nextDelivery :: "journal_env \<Rightarrow> claim_request \<Rightarrow> journal \<Rightarrow> journal \<times> delivery_selection result" where
  "nextDelivery env q s =
     commit s (validateActionClaimRequest q) (\<lambda>_.
     case retireClosedPending env q s of (s1, retired') \<Rightarrow> commit s1 retired' (\<lambda>retired.
     case expireDueClaims env q s1 of (s2, expired') \<Rightarrow> commit s2 expired' (\<lambda>(replayable, expired).
     selectDelivery env q (retired \<or> expired) replayable s2)))"

section \<open>Goal projections and purging\<close>

record goal_candidate =
  cand_sequence :: js_string
  cand_action :: action_record

record goal_page =
  candidates :: "goal_candidate list"
  nextAfterSequence :: "js_string option"

text \<open>The scan stops one candidate past the page.\<close>

fun scan_projections ::
  "goal_projection_limits \<Rightarrow> goal_list_request \<Rightarrow> nat \<Rightarrow> journal \<Rightarrow> (js_string \<times> action_record) list \<Rightarrow>
   goal_candidate list \<Rightarrow> goal_candidate list result" where
  "scan_projections limits q after s [] found = Inr found"
| "scan_projections limits q after s ((key, r) # rest) found =
     (case js_get (sequences s) key of
        None \<Rightarrow> scan_projections limits q after s rest found
      | Some sq \<Rightarrow>
          if sq \<le> after \<or> \<not> same_stream r q \<or> goalProjection r = None \<or> goalProjectionSettlement r \<noteq> None
          then scan_projections limits q after s rest found
          else if maxRecordBytes limits < int (utf8_length (stringify (record_json r))) then Inl RangeErr
          else let found' = found @ [\<lparr>cand_sequence = to_decimal sq, cand_action = r\<rparr>] in
            if list_limit q < int (length found') then Inr found'
            else scan_projections limits q after s rest found')"

definition listGoalProjections :: "journal_env \<Rightarrow> goal_list_request \<Rightarrow> journal \<Rightarrow> goal_page result" where
  "listGoalProjections env q s =
     rbind (requireGoalProjectionLimits env) (\<lambda>limits.
     rbind (captureActionGoalProjectionListRequest q limits) (\<lambda>captured.
     rbind (parse_bigint (case afterSequence captured of None \<Rightarrow> js ''0'' | Some a \<Rightarrow> a)) (\<lambda>after.
     rbind (scan_projections limits captured after s (records s) []) (\<lambda>found.
     let hasMore = list_limit captured < int (length found);
         page = take (nat (list_limit captured)) found in
     Inr \<lparr>candidates = page,
          nextAfterSequence = (if hasMore \<and> page \<noteq> [] then Some (cand_sequence (last page)) else None)\<rparr>))))"

definition is_purgeable :: "purge_request \<Rightarrow> action_record \<Rightarrow> bool" where
  "is_purgeable q r \<longleftrightarrow> same_stream r q \<and> operationId r \<notin> set (retainOperationIds q) \<and>
     (status r = Succeeded \<or> status r = Failed) \<and> updatedAt r < beforeUpdatedAt q \<and>
     (goalProjection r = None \<or> goalProjectionSettlement r \<noteq> None)"

text \<open>The records to purge: oldest update first, admission order between equal updates.\<close>

definition purge_order :: "(js_string \<times> action_record \<times> nat) list \<Rightarrow> (js_string \<times> action_record \<times> nat) list" where
  "purge_order es = sort_key (\<lambda>(k, r, sq). updatedAt r) (sort_key (\<lambda>(k, r, sq). sq) es)"

definition purge_eligible :: "purge_request \<Rightarrow> journal \<Rightarrow> (js_string \<times> action_record \<times> nat) list" where
  "purge_eligible q s =
     take (nat (purge_limit q)) (purge_order (filter (\<lambda>(k, r, sq). is_purgeable q r)
       (concat (map (\<lambda>(k, r). case js_get (sequences s) k of None \<Rightarrow> [] | Some sq \<Rightarrow> [(k, r, sq)]) (records s)))))"

definition purge_entry :: "js_string \<times> action_record \<times> nat \<Rightarrow> journal \<Rightarrow> journal" where
  "purge_entry e s = (case e of (k, r, sq) \<Rightarrow>
     (release r s)\<lparr>records := js_delete k (records s), sequences := js_delete k (sequences s)\<rparr>)"

definition purgeTerminal :: "purge_request \<Rightarrow> journal \<Rightarrow> journal \<times> js_string list result" where
  "purgeTerminal q s =
     commit s (captureActionTerminalPurgeRequest q) (\<lambda>captured.
     let eligible = purge_eligible captured s in
     (fold purge_entry eligible s, Inr (map (\<lambda>(k, r, sq). operationId r) eligible)))"

end
