(* ===== verification/Machine.thy ===== *)
theory Machine
  imports Prelude
begin

text \<open>
  Interfaces shared by the stores: a component is a set of operations on a state that keep an
  invariant under a guard, and an entry may be guarded by a revision that every successful update
  advances.
\<close>

section \<open>Operations that keep an invariant\<close>

fun run_ops :: "('op \<Rightarrow> 's \<Rightarrow> 's) \<Rightarrow> 'op list \<Rightarrow> 's \<Rightarrow> 's" where
  "run_ops exec [] s = s"
| "run_ops exec (op # ops) s = run_ops exec ops (exec op s)"

text \<open>Every operation of the sequence meets its guard when its turn comes.\<close>

fun guarded :: "('op \<Rightarrow> 's \<Rightarrow> 's) \<Rightarrow> ('op \<Rightarrow> 's \<Rightarrow> bool) \<Rightarrow> 'op list \<Rightarrow> 's \<Rightarrow> bool" where
  "guarded exec guard [] s = True"
| "guarded exec guard (op # ops) s = (guard op s \<and> guarded exec guard ops (exec op s))"

lemma guarded_True: "guarded exec (\<lambda>op s. P op) ops s \<longleftrightarrow> list_all P ops"
  by (induction ops arbitrary: s) auto

locale invariant_machine =
  fixes exec :: "'op \<Rightarrow> 's \<Rightarrow> 's"
    and guard :: "'op \<Rightarrow> 's \<Rightarrow> bool"
    and inv :: "'s \<Rightarrow> bool"
  assumes exec_inv: "inv s \<Longrightarrow> guard op s \<Longrightarrow> inv (exec op s)"
begin

lemma run_inv: "inv s \<Longrightarrow> guarded exec guard ops s \<Longrightarrow> inv (run_ops exec ops s)"
  by (induction ops arbitrary: s) (auto intro: exec_inv)

text \<open>A relation between states that is reflexive and transitive and holds over each step holds over a run.\<close>

lemma run_related:
  assumes "\<And>s. R s s" and "\<And>a b c. R a b \<Longrightarrow> R b c \<Longrightarrow> R a c"
    and "\<And>op s. inv s \<Longrightarrow> guard op s \<Longrightarrow> R s (exec op s)"
    and "inv s" and "guarded exec guard ops s"
  shows "R s (run_ops exec ops s)"
  using assms(4,5)
proof (induction ops arbitrary: s)
  case (Cons op ops)
  then show ?case using assms(2,3) exec_inv by (metis guarded.simps(2) run_ops.simps(2))
qed (simp add: assms(1))

end

section \<open>Compare-and-set on a revision\<close>

text \<open>
  An update names the revision it expects of the entry and fails on any other; a successful one
  leaves a revision that is strictly greater. Two updates that expect the same revision therefore
  never both succeed.
\<close>

locale revision_cas =
  fixes update :: "'cmd \<Rightarrow> 's \<Rightarrow> 's option"
    and expected :: "'cmd \<Rightarrow> nat"
    and current :: "'s \<Rightarrow> nat"
  assumes update_expects: "update c s = Some s' \<Longrightarrow> current s = expected c"
    and update_advances: "update c s = Some s' \<Longrightarrow> current s < current s'"
begin

lemma no_second_update:
  assumes "update c s = Some s'" and "expected c' = expected c" and "current s' \<le> current s''"
  shows "update c' s'' = None"
proof (rule ccontr)
  assume "update c' s'' \<noteq> None"
  then obtain u where "update c' s'' = Some u" by auto
  then have "current s'' = expected c" using update_expects assms(2) by metis
  with update_expects [OF assms(1)] update_advances [OF assms(1)] assms(3) show False by simp
qed

lemma stale_update: "current s \<noteq> expected c \<Longrightarrow> update c s = None"
  using update_expects by (metis option.exhaust)

end

end
