(* ===== verification/Action_Journal_Inv.thy ===== *)
theory Action_Journal_Inv
  imports Action_Journal Machine
begin

text \<open>
  The invariant of the action journal and its preservation by every operation: records are
  admissible and filed under their own key, the conflict map lists exactly the keys held by
  claimed and uncertain records, and sequences increase in admission order.
\<close>

section \<open>The invariant\<close>

definition conflict_ids :: "action_record \<Rightarrow> js_string set" where
  "conflict_ids r = conflictKey (sessionId r) ` set (conflictKeys r)"

definition held :: "(js_string, action_record) js_map \<Rightarrow> js_string \<Rightarrow> js_string \<Rightarrow> bool" where
  "held m ck own \<longleftrightarrow>
     (\<exists>k r. js_get m k = Some r \<and> is_unsettled r \<and> ck \<in> conflict_ids r \<and> own = operationId r)"

text \<open>A record that passes the admission check and was reached by a run of the record state machine.\<close>

definition admitted :: "(js_string \<Rightarrow> js_string) \<Rightarrow> goal_projection_limits option \<Rightarrow> action_record \<Rightarrow> bool" where
  "admitted h limits r \<longleftrightarrow> assertActionRecord h r limits = Inr () \<and> (\<exists>r0 n. action_run r0 n r)"

lemma admitted_step:
  assumes "admitted h limits r" and "action_step r r'"
  shows "admitted h limits r' \<and> same_intent r r'"
  using assms action_step_admissible [of h r limits r'] Dispatched Answered
  unfolding admitted_def action_step_def by blast

definition filed :: "(js_string \<Rightarrow> js_string) \<Rightarrow> goal_projection_limits option \<Rightarrow> (js_string, action_record) js_map \<Rightarrow> bool" where
  "filed h limits m \<longleftrightarrow>
     (\<forall>k r. js_get m k = Some r \<longrightarrow> k = recordKey r (operationId r) \<and> admitted h limits r)"

text \<open>Operation ids identify a record within its session.\<close>

definition unique_ids :: "(js_string, action_record) js_map \<Rightarrow> bool" where
  "unique_ids m \<longleftrightarrow>
     (\<forall>k k' r r'. js_get m k = Some r \<longrightarrow> js_get m k' = Some r' \<longrightarrow> sessionId r = sessionId r' \<longrightarrow>
        operationId r = operationId r' \<longrightarrow> k = k')"

definition conflicts_exact :: "journal \<Rightarrow> bool" where
  "conflicts_exact s \<longleftrightarrow> (\<forall>ck own. js_get (conflicts s) ck = Some own \<longleftrightarrow> held (records s) ck own)"

definition sequences_ok :: "journal \<Rightarrow> bool" where
  "sequences_ok s \<longleftrightarrow> js_keys (sequences s) = js_keys (records s) \<and> js_ok (records s) \<and>
     sorted_wrt (<) (js_values (sequences s)) \<and> (\<forall>n \<in> set (js_values (sequences s)). n \<le> nextSequence s)"

definition journal_inv :: "(js_string \<Rightarrow> js_string) \<Rightarrow> goal_projection_limits option \<Rightarrow> journal \<Rightarrow> bool" where
  "journal_inv h limits s \<longleftrightarrow>
     filed h limits (records s) \<and> unique_ids (records s) \<and> conflicts_exact s \<and> sequences_ok s"

lemma conflictKey_inject [simp]: "conflictKey a b = conflictKey c d \<longleftrightarrow> a = c \<and> b = d"
  by (simp add: conflictKey_def)

lemma recordKey_inject [simp]:
  "recordKey k i = recordKey k' i' \<longleftrightarrow> sessionId k = sessionId k' \<and> actorId k = actorId k' \<and> i = i'"
  by (simp add: recordKey_def)

lemma conflict_ids_session: "ck \<in> conflict_ids r \<Longrightarrow> ck \<in> conflict_ids r' \<Longrightarrow> sessionId r = sessionId r'"
  by (auto simp: conflict_ids_def)

lemma same_intent_ids: "same_intent r r' \<Longrightarrow> conflict_ids r = conflict_ids r' \<and> operationId r = operationId r' \<and>
    sessionId r = sessionId r' \<and> actorId r = actorId r' \<and> recordKey r (operationId r) = recordKey r' (operationId r')"
  using same_intentD [of r r'] by (simp add: conflict_ids_def)

lemma filedD: "filed h limits m \<Longrightarrow> js_get m k = Some r \<Longrightarrow> k = recordKey r (operationId r) \<and> admitted h limits r"
  by (simp add: filed_def)

lemma unique_idsD:
  "unique_ids m \<Longrightarrow> js_get m k = Some r \<Longrightarrow> js_get m k' = Some r' \<Longrightarrow> sessionId r = sessionId r' \<Longrightarrow>
   operationId r = operationId r' \<Longrightarrow> k' = k \<and> r' = r"
  by (metis option.inject unique_ids_def)

section \<open>What acquiring and releasing do to the conflict map\<close>

lemma get_acquire:
  "js_get (conflicts (acquire r s)) ck = (if ck \<in> conflict_ids r then Some (operationId r) else js_get (conflicts s) ck)"
proof -
  have "js_get (fold (\<lambda>key. js_set (conflictKey (sessionId r) key) v) keys m) ck =
      (if ck \<in> conflictKey (sessionId r) ` set keys then Some v else js_get m ck)" for keys v and m :: "(js_string, js_string) js_map"
    by (induction keys arbitrary: m) (auto simp: js_map_simps)
  then show ?thesis by (simp add: acquire_def conflict_ids_def)
qed

lemma get_release_key:
  "js_get (release_key r key m) ck =
     (if ck = conflictKey (sessionId r) key \<and> js_get m ck = Some (operationId r) then None else js_get m ck)"
  by (auto simp: release_key_def Let_def js_map_simps)

lemma get_release:
  "js_get (conflicts (release r s)) ck =
     (if ck \<in> conflict_ids r \<and> js_get (conflicts s) ck = Some (operationId r) then None else js_get (conflicts s) ck)"
proof -
  have "js_get (fold (release_key r) keys m) ck =
      (if ck \<in> conflictKey (sessionId r) ` set keys \<and> js_get m ck = Some (operationId r) then None else js_get m ck)" for keys m
    by (induction keys arbitrary: m) (auto simp: get_release_key)
  then show ?thesis by (simp add: release_def conflict_ids_def)
qed

lemma acquire_records [simp]:
  "records (acquire r s) = records s" "sequences (acquire r s) = sequences s" "nextSequence (acquire r s) = nextSequence s"
  by (simp_all add: acquire_def)

lemma release_records [simp]:
  "records (release r s) = records s" "sequences (release r s) = sequences s" "nextSequence (release r s) = nextSequence s"
  by (simp_all add: release_def)

lemma store_fields [simp]:
  "records (store r s) = js_set (recordKey r (operationId r)) r (records s)" "conflicts (store r s) = conflicts s"
  "sequences (store r s) = sequences s" "nextSequence (store r s) = nextSequence s"
  by (simp_all add: store_def)

section \<open>Replacing a stored record\<close>

text \<open>The entry \<open>r\<close> of the journal is replaced by \<open>r'\<close>, the same intent in another state.\<close>

definition replaces :: "journal \<Rightarrow> action_record \<Rightarrow> action_record \<Rightarrow> bool" where
  "replaces s r r' \<longleftrightarrow> js_get (records s) (recordKey r (operationId r)) = Some r \<and> same_intent r r'"

lemma replaces_get:
  assumes "replaces s r r'"
  shows "js_get (js_set (recordKey r' (operationId r')) r' (records s)) k =
    (if k = recordKey r (operationId r) then Some r' else js_get (records s) k)"
  using assms same_intent_ids [of r r'] by (auto simp: replaces_def js_map_simps)

lemma filed_replace:
  assumes "replaces s r r'" and "filed h limits (records s)" and "admitted h limits r'"
  shows "filed h limits (js_set (recordKey r' (operationId r')) r' (records s))"
proof -
  have key: "recordKey r' (operationId r') = recordKey r (operationId r)"
    using assms(1) same_intent_ids [of r r'] by (simp add: replaces_def)
  show ?thesis
    unfolding filed_def replaces_get [OF assms(1)]
    using assms(2,3) key by (auto simp: filed_def simp del: recordKey_inject)
qed

lemma unique_replace:
  assumes "replaces s r r'" and "unique_ids (records s)"
  shows "unique_ids (js_set (recordKey r' (operationId r')) r' (records s))"
proof -
  have "\<exists>q. js_get (records s) k = Some q \<and> sessionId q = sessionId p \<and> operationId q = operationId p"
    if "js_get (js_set (recordKey r' (operationId r')) r' (records s)) k = Some p" for k p
    using that assms(1) same_intent_ids [of r r'] by (auto simp: replaces_get replaces_def split: if_splits)
  then show ?thesis unfolding unique_ids_def by (metis assms(2) unique_idsD)
qed

lemma sequences_replace:
  assumes "replaces s r r'" and "sequences_ok s"
  shows "sequences_ok (store r' s)"
proof -
  have "js_has (records s) (recordKey r' (operationId r'))"
    using assms(1) same_intent_ids [of r r'] by (auto simp: replaces_def js_has_def recordKey_def)
  with assms(2) show ?thesis by (simp add: sequences_ok_def js_keys_set)
qed

lemma ex_updated_entry:
  "(\<exists>k p. (if k = K then Some v else g k) = Some p \<and> P p) \<longleftrightarrow> P v \<or> (\<exists>k p. k \<noteq> K \<and> g k = Some p \<and> P p)"
  by (metis option.inject)

lemma held_replace:
  assumes "replaces s r r'" and "unique_ids (records s)"
  shows "held (js_set (recordKey r' (operationId r')) r' (records s)) ck own \<longleftrightarrow>
    (if ck \<in> conflict_ids r \<and> own = operationId r then is_unsettled r' else held (records s) ck own)"
proof -
  have at: "js_get (records s) (recordKey r (operationId r)) = Some r" using assms(1) by (simp add: replaces_def)
  have same: "conflict_ids r' = conflict_ids r" "operationId r' = operationId r"
    using assms(1) same_intent_ids [of r r'] by (auto simp: replaces_def)
  let ?K = "recordKey r (operationId r)"
  have split: "held (js_set (recordKey r' (operationId r')) r' (records s)) ck own \<longleftrightarrow>
      (is_unsettled r' \<and> ck \<in> conflict_ids r \<and> own = operationId r) \<or>
      (\<exists>k p. k \<noteq> ?K \<and> js_get (records s) k = Some p \<and> is_unsettled p \<and> ck \<in> conflict_ids p \<and> own = operationId p)"
    unfolding held_def replaces_get [OF assms(1)] by (simp only: ex_updated_entry same)
  show ?thesis
  proof (cases "ck \<in> conflict_ids r \<and> own = operationId r")
    case True
    have "k = ?K" if "js_get (records s) k = Some p" "ck \<in> conflict_ids p" "own = operationId p" for k p
      using that True unique_idsD [OF assms(2) at that(1)] conflict_ids_session by metis
    then have ex: "(\<exists>k p. k \<noteq> ?K \<and> js_get (records s) k = Some p \<and> is_unsettled p \<and> ck \<in> conflict_ids p \<and> own = operationId p) \<longleftrightarrow> False"
      by blast
    show ?thesis unfolding split ex using True by simp
  next
    case False
    have ex: "(\<exists>k p. k \<noteq> ?K \<and> js_get (records s) k = Some p \<and> is_unsettled p \<and> ck \<in> conflict_ids p \<and> own = operationId p) \<longleftrightarrow>
        held (records s) ck own"
      unfolding held_def using at False by (metis option.inject)
    show ?thesis unfolding split ex using False by auto
  qed
qed

lemma held_stored:
  fixes s :: journal
  assumes "js_get (records s) (recordKey r (operationId r)) = Some r" and "unique_ids (records s)"
    and "ck \<in> conflict_ids r"
  shows "held (records s) ck (operationId r) \<longleftrightarrow> is_unsettled r"
proof -
  have "replaces s r r" using assms(1) by (simp add: replaces_def)
  moreover have "js_get (js_set (recordKey r (operationId r)) r (records s)) = js_get (records s)"
    using assms(1) by (simp add: js_map_simps fun_upd_idem)
  ultimately show ?thesis
    using held_replace [of s r r ck "operationId r"] assms(2,3) by (simp add: held_def)
qed

lemma journal_inv_replace:
  assumes "journal_inv h limits s" and "replaces s r r'" and "admitted h limits r'"
    and c: "\<And>ck own. js_get m ck = Some own \<longleftrightarrow>
      (if ck \<in> conflict_ids r \<and> own = operationId r then is_unsettled r' else js_get (conflicts s) ck = Some own)"
  shows "journal_inv h limits (store r' (s\<lparr>conflicts := m\<rparr>))"
proof -
  from assms(1) have i: "filed h limits (records s)" "unique_ids (records s)" "conflicts_exact s" "sequences_ok s"
    by (simp_all add: journal_inv_def)
  have "conflicts_exact (store r' (s\<lparr>conflicts := m\<rparr>))"
    unfolding conflicts_exact_def using i(3)
    by (simp add: held_replace [OF assms(2) i(2)] c conflicts_exact_def)
  moreover have "sequences_ok (store r' (s\<lparr>conflicts := m\<rparr>))"
    using sequences_replace [OF assms(2) i(4)] by (simp add: sequences_ok_def)
  ultimately show ?thesis
    using filed_replace [OF assms(2) i(1) assms(3)] unique_replace [OF assms(2) i(2)] by (simp add: journal_inv_def)
qed

lemma conflicts_stored:
  assumes "journal_inv h limits s" and "replaces s r r'" and "ck \<in> conflict_ids r"
  shows "js_get (conflicts s) ck = Some (operationId r) \<longleftrightarrow> is_unsettled r"
  using assms held_stored [of s r ck] by (simp add: journal_inv_def conflicts_exact_def replaces_def)

text \<open>The four ways the operations put a record back.\<close>

lemma store_keep:
  assumes "journal_inv h limits s" "replaces s r r'" "admitted h limits r'"
    and "is_unsettled r' = is_unsettled r"
  shows "journal_inv h limits (store r' s)"
proof -
  have "journal_inv h limits (store r' (s\<lparr>conflicts := conflicts s\<rparr>))"
    by (rule journal_inv_replace [OF assms(1-3)]) (use conflicts_stored [OF assms(1,2)] assms(4) in auto)
  then show ?thesis by simp
qed

lemma store_release:
  assumes "journal_inv h limits s" "replaces s r r'" "admitted h limits r'" "\<not> is_unsettled r'"
  shows "journal_inv h limits (store r' (release r s))"
proof -
  have "journal_inv h limits (store r' (s\<lparr>conflicts := conflicts (release r s)\<rparr>))"
    by (rule journal_inv_replace [OF assms(1-3)]) (use assms(4) in \<open>auto simp: get_release\<close>)
  moreover have "s\<lparr>conflicts := conflicts (release r s)\<rparr> = release r s" by (simp add: release_def)
  ultimately show ?thesis by simp
qed

lemma canAcquire_iff:
  "canAcquire s r \<longleftrightarrow> (\<forall>ck \<in> conflict_ids r. \<forall>own. js_get (conflicts s) ck = Some own \<longrightarrow> own = operationId r)"
  by (auto simp: canAcquire_def list_all_iff conflict_ids_def split: option.splits)

lemma store_acquire:
  assumes "journal_inv h limits s" "replaces s r r'" "admitted h limits r'" "is_unsettled r'"
    and "canAcquire s r"
  shows "journal_inv h limits (store r' (acquire r' (if replay then release r s else s)))"
proof -
  let ?s = "acquire r' (if replay then release r s else s)"
  have same: "conflict_ids r' = conflict_ids r" "operationId r' = operationId r"
    using assms(2) same_intent_ids [of r r'] by (auto simp: replaces_def)
  have "journal_inv h limits (store r' (s\<lparr>conflicts := conflicts ?s\<rparr>))"
    by (rule journal_inv_replace [OF assms(1-3)])
      (use assms(4,5) in \<open>auto simp: get_acquire get_release same canAcquire_iff split: if_splits\<close>)
  moreover have "s\<lparr>conflicts := conflicts ?s\<rparr> = ?s" by (simp add: acquire_def release_def)
  ultimately show ?thesis by simp
qed

section \<open>Every operation keeps the invariant\<close>

lemma require_Inr:
  assumes "journal_inv h limits s" and "require s k token opId = Inr r"
  shows "js_get (records s) (recordKey r (operationId r)) = Some r" "operationId r = opId"
    "sessionId r = sessionId k" "actorId r = actorId k" "admitted h limits r"
proof -
  from assms(2) have g: "js_get (records s) (recordKey k opId) = Some r"
    by (auto simp: require_def rbind_eq_Inr split: option.splits)
  with assms(1) have f: "recordKey k opId = recordKey r (operationId r)" "admitted h limits r"
    using filedD [of h limits "records s" "recordKey k opId" r] by (auto simp: journal_inv_def)
  with g show "js_get (records s) (recordKey r (operationId r)) = Some r" by (simp only:)
  from f show "operationId r = opId" "sessionId r = sessionId k" "actorId r = actorId k"
    "admitted h limits r" by simp_all
qed

text \<open>A stored record and a transition of it that says rightly whether its conflict keys are released.\<close>

definition stored :: "journal \<Rightarrow> action_record \<Rightarrow> bool" where
  "stored s r \<longleftrightarrow> js_get (records s) (recordKey r (operationId r)) = Some r"

lemma stored_admissible: "journal_inv h limits s \<Longrightarrow> stored s r \<Longrightarrow> admitted h limits r"
  by (auto simp: journal_inv_def filed_def stored_def)

lemma store_transition:
  assumes "journal_inv h limits s" and "stored s r" and "same_intent r (tr_record t)"
    and "admitted h limits (tr_record t)"
    and "releaseConflicts t \<Longrightarrow> \<not> is_unsettled (tr_record t)"
    and "\<not> releaseConflicts t \<Longrightarrow> is_unsettled (tr_record t) = is_unsettled r"
  shows "journal_inv h limits (store (tr_record t) (if releaseConflicts t then release r s else s))"
proof -
  have "replaces s r (tr_record t)" using assms(2,3) by (simp add: replaces_def stored_def)
  with assms show ?thesis
    using store_keep [of h limits s r "tr_record t"] store_release [of h limits s r "tr_record t"] by auto
qed

lemmas inv_commit = commit_invariant [where I = "journal_inv h limits" for h limits]

lemma commit_store:
  "journal_inv h limits s \<Longrightarrow> (b \<Longrightarrow> journal_inv h limits s') \<Longrightarrow>
   journal_inv h limits (fst (if b then commit s c (\<lambda>_. (s', Inr x)) else (s, Inr y)))"
  by (cases c) simp_all

lemma answers_unsettled: "answers r rc st \<Longrightarrow> is_unsettled r \<and> (is_unsettled (received r rc st) \<longleftrightarrow> st = Uncertain)"
  using answers_status [of r rc st] by (auto simp: is_unsettled_def received_def)

lemma recordReceipt_inv:
  assumes "journal_inv (env_hash env) (goalProjectionLimits env) s"
  shows "journal_inv (env_hash env) (goalProjectionLimits env) (fst (recordReceipt env i s))"
  unfolding recordReceipt_def
proof (intro inv_commit assms)
  fix r t
  assume r: "require s i (Some (in_claimToken i)) (in_operationId i) = Inr r" and t: "receiptActionRecord r i = Inr t"
  note rr = require_Inr [OF assms r]
  have step: "action_step r (tr_record t)"
    using Receipt [OF t] rr(2) by (simp add: action_step_def)
  note adm = admitted_step [OF rr(5) step]
  show "journal_inv (env_hash env) (goalProjectionLimits env) (fst (if fresh t
     then commit s (assertActionGoalProjectionRecordFits (tr_record t) (goalProjectionLimits env)) (\<lambda>_.
       (store (tr_record t) (if releaseConflicts t then release r s else s), Inr (tr_record t)))
     else (s, Inr (tr_record t))))"
  proof (rule commit_store [OF assms])
    assume "fresh t"
    then have "t \<noteq> unchanged r" by (auto simp: unchanged_def)
    with receipt_transition [OF t]
    obtain rc where "t = \<lparr>tr_record = received r rc (receipt_status (receipt_outcome rc)),
            releaseConflicts = (receipt_outcome rc \<noteq> OutUnknown), fresh = True\<rparr>"
      and tr: "answers r rc (receipt_status (receipt_outcome rc))" by blast
    then have tt: "tr_record t = received r rc (receipt_status (receipt_outcome rc))"
      "releaseConflicts t = (receipt_outcome rc \<noteq> OutUnknown)" by simp_all
    have "(receipt_outcome rc \<noteq> OutUnknown) = (receipt_status (receipt_outcome rc) \<noteq> Uncertain)"
      by (cases "receipt_outcome rc") simp_all
    with answers_unsettled [OF tr] tt
    have "releaseConflicts t \<Longrightarrow> \<not> is_unsettled (tr_record t)"
      "\<not> releaseConflicts t \<Longrightarrow> is_unsettled (tr_record t) = is_unsettled r" by simp_all
    with adm rr(1) show "journal_inv (env_hash env) (goalProjectionLimits env)
        (store (tr_record t) (if releaseConflicts t then release r s else s))"
      by (intro store_transition [OF assms]) (simp_all add: stored_def)
  qed
qed

lemma retire_if_closed_cases:
  assumes "retire_if_closed env r now t = Inr t'"
  obtains "t' = t"
  | u where "status (tr_record t) = Pending" "retirePendingActionRecord (tr_record t) now = Inr u"
      "t' = t\<lparr>tr_record := tr_record u, fresh := True\<rparr>"
  using assms by (auto simp: retire_if_closed_def rbind_eq_Inr split: if_splits)

lemma reconcile_action_inv:
  assumes "journal_inv (env_hash env) (goalProjectionLimits env) s"
  shows "journal_inv (env_hash env) (goalProjectionLimits env) (fst (reconcile_action env i s))"
  unfolding reconcile_action_def
proof (intro inv_commit assms)
  fix r t0 t
  assume r: "require s i (Some (rec_claimToken i)) (rec_operationId i) = Inr r" and t0: "reconcileActionRecord r i = Inr t0"
    and t: "retire_if_closed env r (reconciledAt i) t0 = Inr t"
  note rr = require_Inr [OF assms r]
  have step: "action_step r (tr_record t0)"
    using Reconciled [OF t0] rr(2) by (simp add: action_step_def)
  note adm0 = admitted_step [OF rr(5) step]
  have shape: "t0 = unchanged r \<or> (\<exists>rc st. tr_record t0 = received r rc st \<and> releaseConflicts t0 = (st \<noteq> Uncertain) \<and>
      answers r rc st)"
    using reconcile_transition [OF t0] by (metis action_transition.select_convs(1,2))
  then have rel0: "releaseConflicts t0 \<Longrightarrow> \<not> is_unsettled (tr_record t0)"
    and keep0: "\<not> releaseConflicts t0 \<Longrightarrow> is_unsettled (tr_record t0) = is_unsettled r"
    by (auto simp: unchanged_def dest: answers_unsettled)
  have "journal_inv (env_hash env) (goalProjectionLimits env)
      (store (tr_record t) (if releaseConflicts t then release r s else s))"
    using t
  proof (cases rule: retire_if_closed_cases)
    case 1
    with adm0 rr(1) rel0 keep0 show ?thesis
      by (intro store_transition [OF assms]) (simp_all add: stored_def)
  next
    case (2 u)
    have "action_step (tr_record t0) (tr_record u)" using Retire [OF 2(2)] by (simp add: action_step_def)
    with adm0 have u: "admitted (env_hash env) (goalProjectionLimits env) (tr_record u)"
      "same_intent r (tr_record u)"
      using admitted_step same_intent_trans by blast+
    have idle: "\<not> is_unsettled (tr_record u)" using 2(2) by (auto simp: retire_transition is_unsettled_def)
    have "\<not> releaseConflicts t0 \<Longrightarrow> \<not> is_unsettled r"
      using keep0 2(1) by (simp add: is_unsettled_def)
    with u idle 2(3) rr(1) show ?thesis
      by (intro store_transition [OF assms]) (simp_all add: stored_def)
  qed
  then show "journal_inv (env_hash env) (goalProjectionLimits env) (fst (if fresh t
     then commit s (assertActionGoalProjectionRecordFits (tr_record t) (goalProjectionLimits env)) (\<lambda>_.
       (store (tr_record t) (if releaseConflicts t then release r s else s), Inr (tr_record t)))
     else (s, Inr (tr_record t))))"
    by (intro commit_store [OF assms])
qed

lemma settleGoalProjection_inv:
  assumes "journal_inv (env_hash env) (goalProjectionLimits env) s"
  shows "journal_inv (env_hash env) (goalProjectionLimits env) (fst (settleGoalProjection env i s))"
  unfolding settleGoalProjection_def
proof (intro inv_commit assms)
  fix limits r p
  assume l: "requireGoalProjectionLimits env = Inr limits" and r: "require s i None (set_operationId i) = Inr r"
    and p: "settleActionGoalProjectionRecord r i = Inr p"
  from l have limits: "goalProjectionLimits env = Some limits"
    by (simp add: requireGoalProjectionLimits_def split: option.splits)
  note rr = require_Inr [OF assms r]
  obtain r' new where p': "p = (r', new)" by (cases p)
  show "journal_inv (env_hash env) (goalProjectionLimits env) (fst (case p of (settled, new) \<Rightarrow>
     if \<not> new then (s, Inr r)
     else commit s (checks [assertActionRecord (env_hash env) settled (Some limits),
         assertActionGoalProjectionRecordFits settled (Some limits)]) (\<lambda>_.
       (store settled s, Inr settled))))"
  proof (cases "new \<and> assertActionRecord (env_hash env) r' (Some limits) = Inr ()")
    case True
    then have "record_wf r'" by (simp add: assertActionRecord_wf)
    then have "action_step r r'" using Settle [of r i r' new] p p' by (simp add: action_step_def)
    note adm = admitted_step [OF rr(5) this]
    from True p p' have "status r' = status r" by (auto simp: settle_transition split: option.splits)
    with adm rr(1) limits have "journal_inv (env_hash env) (goalProjectionLimits env) (store r' s)"
      by (intro store_keep [OF assms, of r]) (simp_all add: replaces_def is_unsettled_def)
    with p' assms show ?thesis by (auto intro!: inv_commit)
  next
    case False
    then show ?thesis using p' assms
      by (cases "assertActionRecord (env_hash env) r' (Some limits)") (auto intro!: inv_commit)
  qed
qed

text \<open>The records a loop still has to visit are stored as it saw them.\<close>

definition visiting :: "journal \<Rightarrow> action_record list \<Rightarrow> bool" where
  "visiting s rs \<longleftrightarrow> (\<forall>r \<in> set rs. stored s r) \<and> distinct (map (\<lambda>r. recordKey r (operationId r)) rs)"

lemma visiting_Cons: "visiting s (r # rs) \<Longrightarrow> stored s r \<and> visiting s rs"
  by (simp add: visiting_def)

lemma visiting_store:
  assumes "visiting s (r # rs)" and "same_intent r r'" and "records s' = records s"
  shows "visiting (store r' s') rs"
proof -
  have key: "recordKey r' (operationId r') = recordKey r (operationId r)"
    using same_intent_ids [OF assms(2)] by simp
  have "recordKey r (operationId r) \<notin> (\<lambda>q. recordKey q (operationId q)) ` set rs"
    using assms(1) by (simp add: visiting_def del: recordKey_inject)
  then have "recordKey q (operationId q) \<noteq> recordKey r (operationId r)" if "q \<in> set rs" for q
    using that by (metis image_eqI)
  with assms(1,3) key show ?thesis
    by (simp add: visiting_def stored_def js_map_simps del: recordKey_inject)
qed

lemma visiting_values:
  assumes "journal_inv h limits s"
  shows "visiting s (js_values (records s))"
proof -
  have ok: "js_ok (records s)" and f: "filed h limits (records s)"
    using assms by (simp_all add: journal_inv_def sequences_ok_def)
  have at: "k = recordKey r (operationId r) \<and> stored s r" if "(k, r) \<in> set (records s)" for k r
  proof -
    have "js_get (records s) k = Some r" using that js_get_entry [OF ok] by simp
    with filedD [OF f this] show ?thesis by (simp add: stored_def del: recordKey_inject)
  qed
  then have "map (\<lambda>r. recordKey r (operationId r)) (js_values (records s)) = js_keys (records s)"
    by (auto simp: js_values_def js_keys_def simp del: recordKey_inject)
  with ok at show ?thesis by (auto simp: visiting_def js_values_def)
qed

lemma retire_closed_inv:
  assumes "journal_inv (env_hash env) (goalProjectionLimits env) s" and "visiting s rs"
  shows "journal_inv (env_hash env) (goalProjectionLimits env) (fst (retire_closed env q rs n s))"
  using assms
proof (induction env q rs n s rule: retire_closed.induct)
  case (2 env q r rs n s)
  note inv = "2.prems"(1) and vis = visiting_Cons [OF "2.prems"(2)]
  show ?case
  proof (cases "\<not> same_stream r q \<or> status r \<noteq> Pending")
    case True
    with "2.IH"(1) [OF True inv] vis show ?thesis by simp
  next
    case False
    show ?thesis
    proof (simp only: retire_closed.simps False if_False, intro inv_commit inv)
      fix open'
      assume o: "isRunOpen env r = Inr open'"
      show "journal_inv (env_hash env) (goalProjectionLimits env) (fst (if open' then retire_closed env q rs n s
        else commit s (retirePendingActionRecord r (req_claimedAt q)) (\<lambda>t.
          commit s (checks [assertActionRecord (env_hash env) (tr_record t) (goalProjectionLimits env),
              assertActionGoalProjectionRecordFits (tr_record t) (goalProjectionLimits env)]) (\<lambda>_.
            let s' = store (tr_record t) (release r s) in
            if candidateLimit q \<le> int (Suc n) then (s', Inr (Suc n))
            else retire_closed env q rs (Suc n) s'))))"
      proof (cases open')
        case True
        then show ?thesis using "2.IH"(2) [OF False o] inv vis by simp
      next
        case closed: False
        show ?thesis
        proof (simp only: closed if_False Let_def, intro inv_commit inv)
          fix t u
          assume t: "retirePendingActionRecord r (req_claimedAt q) = Inr t"
            and c: "checks [assertActionRecord (env_hash env) (tr_record t) (goalProjectionLimits env),
              assertActionGoalProjectionRecordFits (tr_record t) (goalProjectionLimits env)] = Inr u"
          from t have idle: "\<not> is_unsettled (tr_record t)" and same: "same_intent r (tr_record t)"
            by (auto simp: retire_transition is_unsettled_def)
          let ?s = "store (tr_record t) (release r s)"
          have new: "journal_inv (env_hash env) (goalProjectionLimits env) ?s"
            using admitted_step [OF stored_admissible [OF inv], of r "tr_record t"] Retire [OF t] vis idle same
            by (intro store_release [OF inv]) (auto simp: replaces_def stored_def action_step_def)
          moreover have "visiting ?s rs" using visiting_store [OF "2.prems"(2) same] by simp
          ultimately show "journal_inv (env_hash env) (goalProjectionLimits env)
              (fst (if candidateLimit q \<le> int (Suc n) then (?s, Inr (Suc n)) else retire_closed env q rs (Suc n) ?s))"
            using "2.IH"(3) [OF False o _ t c refl] closed by simp
        qed
      qed
    qed
  qed
qed simp

text \<open>The due claims are stored records, each once.\<close>

lemma push_due_mset: "mset (push_due l xs r) \<subseteq># add_mset r (mset xs)"
proof -
  have "mset (butlast ys) \<subseteq># mset ys" for ys :: "action_record list"
    by (cases ys rule: rev_cases) auto
  from this [of "sort_key expiry_of (xs @ [r])"] show ?thesis by (auto simp: push_due_def Let_def)
qed

lemma foldl_push_due: "mset (foldl (push_due l) xs rs) \<subseteq># mset xs + mset rs"
proof (induction rs arbitrary: xs)
  case (Cons r rs)
  have "mset (foldl (push_due l) (push_due l xs r) rs) \<subseteq># mset (push_due l xs r) + mset rs" by (rule Cons)
  also have "\<dots> \<subseteq># add_mset r (mset xs) + mset rs" by (intro subset_mset.add_right_mono push_due_mset)
  finally show ?case by simp
qed simp

lemma due_claims_mset: "mset (due_claims q s) \<subseteq># mset (filter (is_due q) (js_values (records s)))"
  using foldl_push_due [of "candidateLimit q" "[]" "filter (is_due q) (js_values (records s))"] by (simp add: due_claims_def)

lemma distinct_submset:
  assumes "distinct ys" and "mset xs \<subseteq># mset ys"
  shows "distinct xs"
proof -
  have "count (mset xs) a = (if a \<in> set xs then 1 else 0)" for a
  proof -
    have "count (mset ys) a \<le> 1"
      using assms(1) by (cases "a \<in> set ys") (simp_all add: distinct_count_atmost_1 count_eq_zero_iff)
    with mset_subset_eq_count [OF assms(2), of a] have "count (mset xs) a \<le> 1" by simp
    moreover have "a \<in> set xs \<longleftrightarrow> 0 < count (mset xs) a" by simp
    ultimately show ?thesis by (cases "count (mset xs) a") auto
  qed
  then show ?thesis by (simp add: distinct_count_atmost_1)
qed

lemma visiting_submset: "visiting s rs \<Longrightarrow> mset qs \<subseteq># mset rs \<Longrightarrow> visiting s qs"
  using distinct_submset [of "map (\<lambda>r. recordKey r (operationId r)) rs" "map (\<lambda>r. recordKey r (operationId r)) qs"]
    set_mset_mono [of "mset qs" "mset rs"]
  by (auto simp: visiting_def image_mset_subseteq_mono simp del: recordKey_inject)

lemma visiting_due: "journal_inv h limits s \<Longrightarrow> visiting s (due_claims q s)"
  using visiting_submset [OF visiting_values, of h limits s "due_claims q s"] due_claims_mset [of q s]
    multiset_filter_subset [of "is_due q" "mset (js_values (records s))"] subset_mset.order_trans
  by (metis mset_filter)

lemma expire_due_inv:
  assumes "journal_inv (env_hash env) (goalProjectionLimits env) s" and "visiting s rs"
  shows "journal_inv (env_hash env) (goalProjectionLimits env) (fst (expire_due env q rs replayable chg s))"
  using assms
proof (induction env q rs replayable chg s rule: expire_due.induct)
  case (2 env q r rs replayable chg s)
  note inv = "2.prems"(1) and vis = visiting_Cons [OF "2.prems"(2)]
  show ?case
  proof (simp only: expire_due.simps, intro inv_commit inv)
    fix replay
    assume rp: "(if replayPolicy r = Safe then isRunOpen env r else Inr False) = Inr replay"
    show "journal_inv (env_hash env) (goalProjectionLimits env)
      (fst (if replay then expire_due env q rs (operationId r # replayable) chg s
         else commit s (expireActionRecord r (req_claimedAt q)) (\<lambda>t.
           commit s (assertActionGoalProjectionRecordFits (tr_record t) (goalProjectionLimits env)) (\<lambda>_.
             expire_due env q rs replayable True
               (store (tr_record t) (if releaseConflicts t then release r s else s))))))"
    proof (cases replay)
      case True
      with "2.IH"(1) [OF rp] inv vis show ?thesis by simp
    next
      case False
      show ?thesis
      proof (simp only: False if_False, intro inv_commit inv)
        fix t u
        assume t: "expireActionRecord r (req_claimedAt q) = Inr t"
          and u: "assertActionGoalProjectionRecordFits (tr_record t) (goalProjectionLimits env) = Inr u"
        have step: "action_step r (tr_record t)" using Expire [OF t] by (simp add: action_step_def)
        note adm = admitted_step [OF stored_admissible [OF inv] step]
        from t have keep: "\<not> releaseConflicts t" "is_unsettled (tr_record t) = is_unsettled r"
          by (auto simp: expire_transition is_unsettled_def)
        then have "journal_inv (env_hash env) (goalProjectionLimits env) (store (tr_record t) s)"
          using adm vis by (intro store_keep [OF inv]) (simp_all add: replaces_def stored_def)
        moreover have "visiting (store (tr_record t) s) rs"
          using visiting_store [OF "2.prems"(2)] adm vis by blast
        ultimately show "journal_inv (env_hash env) (goalProjectionLimits env) (fst (expire_due env q rs replayable True
               (store (tr_record t) (if releaseConflicts t then release r s else s))))"
          using "2.IH"(2) [OF rp False t u] keep by simp
      qed
    qed
  qed
qed simp

lemma claim_pending_inv:
  assumes "journal_inv (env_hash env) (goalProjectionLimits env) s" and "\<forall>r \<in> set rs. stored s r"
  shows "journal_inv (env_hash env) (goalProjectionLimits env) (fst (claim_pending env q replayable rs n s))"
  using assms
proof (induction env q replayable rs n s rule: claim_pending.induct)
  case (2 env q replayable r rs n s)
  note inv = "2.prems"(1)
  have st: "stored s r" and rest: "\<forall>r \<in> set rs. stored s r" using "2.prems"(2) by auto
  let ?skip = "\<not> same_stream r q \<or> \<not> matches_run r (req_runId q) \<or> (status r \<noteq> Pending \<and> operationId r \<notin> set replayable)"
  show ?case
  proof (cases "?skip \<or> candidateLimit q < n + 1")
    case True
    then show ?thesis using "2.IH"(1) inv rest by auto
  next
    case False
    then have skip: "\<not> ?skip" and lim: "\<not> candidateLimit q < n + 1" by blast+
    show ?thesis
    proof (simp only: claim_pending.simps skip lim if_False, intro inv_commit inv)
      fix open'
      assume o: "isRunOpen env r = Inr open'"
      let ?replay = "operationId r \<in> set replayable"
      show "journal_inv (env_hash env) (goalProjectionLimits env) (fst
        (if \<not> open' \<or> \<not> canAcquire s r then claim_pending env q replayable rs (n + 1) s
         else let replay = ?replay in
          commit s (if replay then reclaimActionRecord r q else claimActionRecord r q) (\<lambda>t.
          commit s (checks [assertActionRecord (env_hash env) (tr_record t) (goalProjectionLimits env),
              assertActionGoalProjectionRecordFits (tr_record t) (goalProjectionLimits env)]) (\<lambda>_.
            (store (tr_record t) (acquire (tr_record t) (if replay then release r s else s)), Inr (Some (tr_record t)))))))"
      proof (cases "\<not> open' \<or> \<not> canAcquire s r")
        case True
        then show ?thesis using "2.IH"(2) [OF skip lim o] inv rest by simp
      next
        case False
        show ?thesis
        proof (simp only: False if_False Let_def, intro inv_commit inv)
          fix t u
          assume t: "(if ?replay then reclaimActionRecord r q else claimActionRecord r q) = Inr t"
            and c: "checks [assertActionRecord (env_hash env) (tr_record t) (goalProjectionLimits env),
              assertActionGoalProjectionRecordFits (tr_record t) (goalProjectionLimits env)] = Inr u"
          have d: "dispatch_step r (tr_record t)" using t Claim Reclaim by (auto split: if_splits)
          have "status (tr_record t) = Claimed"
            using t by (auto simp: claim_transition reclaim_transition split: if_splits)
          with admitted_step [OF stored_admissible [OF inv st], of "tr_record t"] d st False
          show "journal_inv (env_hash env) (goalProjectionLimits env)
              (fst (store (tr_record t) (acquire (tr_record t) (if ?replay then release r s else s)), Inr (Some (tr_record t))))"
            using store_acquire [OF inv, of r "tr_record t" ?replay] dispatch_step_intent [OF d]
            by (simp add: replaces_def stored_def is_unsettled_def action_step_def)
        qed
      qed
    qed
  qed
qed simp

lemma nextDelivery_inv:
  assumes "journal_inv (env_hash env) (goalProjectionLimits env) s"
  shows "journal_inv (env_hash env) (goalProjectionLimits env) (fst (nextDelivery env q s))"
proof -
  let ?J = "journal_inv (env_hash env) (goalProjectionLimits env)"
  obtain s1 a where 1: "retireClosedPending env q s = (s1, a)" by (cases "retireClosedPending env q s")
  obtain s2 b where 2: "expireDueClaims env q s1 = (s2, b)" by (cases "expireDueClaims env q s1")
  have "?J s1"
    using retire_closed_inv [OF assms visiting_values [OF assms], where q = q and n = 0] 1
    by (auto simp: retireClosedPending_def split: prod.splits sum.splits)
  then have "?J (fst (expire_due env q (due_claims q s1) [] False s1))"
    using visiting_due by (intro expire_due_inv)
  with 2 have j2: "?J s2" by (simp add: expireDueClaims_def)
  have j3: "?J (fst (claimPendingRecord env q replayable s2))" for replayable
    using claim_pending_inv [OF j2, where rs = "js_values (records s2)"] visiting_values [OF j2]
    by (auto simp: claimPendingRecord_def visiting_def)
  have j4: "?J (fst (selectDelivery env q c replayable s2))" for c replayable
    using j2 j3 [of replayable]
    by (cases "claimPendingRecord env q replayable s2")
      (auto simp: selectDelivery_def commit_def split: sum.splits option.splits)
  show ?thesis
    using \<open>?J s1\<close> j2 j4 assms
    by (auto simp: nextDelivery_def 1 2 commit_def split: sum.splits)
qed

text \<open>
  The operation id of a new intent must not be taken by an action of another actor of the session.
  Ids are SHA-256 digests of the coordinate, so only a collision could make it so.
\<close>

definition fresh_id :: "prepared_intent \<Rightarrow> journal \<Rightarrow> bool" where
  "fresh_id intent s \<longleftrightarrow>
     (\<forall>k r. js_get (records s) k = Some r \<longrightarrow> sessionId r = sessionId intent \<longrightarrow> operationId r = operationId intent \<longrightarrow>
        actorId r = actorId intent)"

lemma new_action_record_simps [simp]:
  "sessionId (new_action_record intent now) = sessionId intent" "actorId (new_action_record intent now) = actorId intent"
  "operationId (new_action_record intent now) = operationId intent" "status (new_action_record intent now) = Pending"
  "coordinate (new_action_record intent now) = coordinate intent"
  "intentFingerprint (new_action_record intent now) = intentFingerprint intent"
  "attempt (new_action_record intent now) = js ''0''" "claim (new_action_record intent now) = None"
  "goalProjectionSettlement (new_action_record intent now) = None"
  "receipt (new_action_record intent now) = None" "replayPolicy (new_action_record intent now) = replayPolicy intent"
  by (cases intent; simp add: new_action_record_def prepared_intent.defs action_record.defs)+

lemma insert_record_inv:
  assumes inv: "journal_inv h limits s" and new: "js_get (records s) key = None"
    and key: "key = recordKey r (operationId r)" and adm: "admitted h limits r"
    and pending: "status r = Pending"
    and fresh: "\<And>k p. js_get (records s) k = Some p \<Longrightarrow> sessionId p = sessionId r \<Longrightarrow> operationId p = operationId r \<Longrightarrow>
      actorId p = actorId r"
  shows "journal_inv h limits (s\<lparr>records := js_set key r (records s), nextSequence := Suc (nextSequence s),
      sequences := js_set key (Suc (nextSequence s)) (sequences s)\<rparr>)"
proof -
  from inv have i: "filed h limits (records s)" "unique_ids (records s)" "conflicts_exact s" "sequences_ok s"
    by (simp_all add: journal_inv_def)
  let ?m = "js_set key r (records s)"
  have get: "js_get ?m k = (if k = key then Some r else js_get (records s) k)" for k by (simp add: js_map_simps)
  have other: "k \<noteq> key" if "js_get (records s) k = Some p" for k p using that new by auto
  have "filed h limits ?m"
    unfolding filed_def get using i(1) adm key by (auto simp: filed_def simp del: recordKey_inject)
  moreover have "unique_ids ?m"
  proof -
    have clash: False if "js_get (records s) k = Some p" "sessionId p = sessionId r" "operationId p = operationId r" for k p
    proof -
      have "k = recordKey p (operationId p)" using filedD [OF i(1) that(1)] by blast
      with that fresh [OF that] key have "k = key" by simp
      with other [OF that(1)] show False by blast
    qed
    show ?thesis
      unfolding unique_ids_def get using clash i(2)
      by (auto simp: unique_ids_def split: if_splits) (metis clash)+
  qed
  moreover have "held ?m ck own = held (records s) ck own" for ck own
  proof -
    have "\<not> is_unsettled r" using pending by (simp add: is_unsettled_def)
    then show ?thesis unfolding held_def get using other by (metis option.inject)
  qed
  then have "conflicts_exact (s\<lparr>records := ?m, nextSequence := Suc (nextSequence s),
      sequences := js_set key (Suc (nextSequence s)) (sequences s)\<rparr>)"
    using i(3) by (simp add: conflicts_exact_def)
  moreover have "sequences_ok (s\<lparr>records := ?m, nextSequence := Suc (nextSequence s),
      sequences := js_set key (Suc (nextSequence s)) (sequences s)\<rparr>)"
  proof -
    from i(4) new have none: "js_get (sequences s) key = None"
      by (metis js_has_def js_has_iff sequences_ok_def)
    from i(4) have le: "n \<le> nextSequence s" if "n \<in> set (js_values (sequences s))" for n
      using that by (simp add: sequences_ok_def)
    have keys: "js_keys (js_set key (Suc (nextSequence s)) (sequences s)) = js_keys ?m"
      using i(4) none new by (simp add: js_keys_set js_has_def sequences_ok_def)
    from i(4) none le show ?thesis
      by (auto simp: sequences_ok_def js_values_set_new sorted_wrt_append keys less_Suc_eq_le le_SucI)
  qed
  ultimately show ?thesis by (simp add: journal_inv_def)
qed

lemma ensure_action_inv:
  assumes inv: "journal_inv (env_hash env) (goalProjectionLimits env) s" and fresh: "fresh_id intent s"
  shows "journal_inv (env_hash env) (goalProjectionLimits env) (fst (ensure_action env intent now s))"
proof (cases "js_get (records s) (recordKey intent (operationId intent))")
  case (Some r)
  with inv show ?thesis by (auto simp: ensure_action_def Let_def intro!: inv_commit)
next
  case None
  show ?thesis
  proof (simp only: ensure_action_def Let_def None option.case, intro inv_commit inv)
    fix u
    let ?r = "new_action_record intent now"
    assume "checks [check_goal_capacity env s intent, assertActionRecord (env_hash env) ?r (goalProjectionLimits env),
         assertActionGoalProjectionRecordFits ?r (goalProjectionLimits env), assertRunAuthorityOpen env (coordinate ?r)] = Inr u"
    then have "assertActionRecord (env_hash env) ?r (goalProjectionLimits env) = Inr ()" by (auto simp: rbind_eq_Inr)
    moreover from this have "action_run ?r 0 ?r" by (intro Start) (simp_all add: assertActionRecord_wf is_new_def)
    ultimately have adm: "admitted (env_hash env) (goalProjectionLimits env) ?r" by (auto simp: admitted_def)
    have "recordKey intent (operationId intent) = recordKey ?r (operationId ?r)" by (simp add: recordKey_def)
    from insert_record_inv [OF inv None this adm] fresh
    show "journal_inv (env_hash env) (goalProjectionLimits env)
      (fst (s\<lparr>records := js_set (recordKey intent (operationId intent)) ?r (records s), nextSequence := Suc (nextSequence s),
         sequences := js_set (recordKey intent (operationId intent)) (Suc (nextSequence s)) (sequences s)\<rparr>, Inr ?r))"
      by (simp add: fresh_id_def)
  qed
qed

section \<open>Purging\<close>

definition entry_in :: "journal \<Rightarrow> js_string \<times> action_record \<times> nat \<Rightarrow> bool" where
  "entry_in s e \<longleftrightarrow> (case e of (k, r, sq) \<Rightarrow> js_get (records s) k = Some r \<and> terminal r)"

lemma sorted_wrt_delete:
  "sorted_wrt (<) (js_values m) \<Longrightarrow> sorted_wrt (<) (js_values (js_delete k (m :: (js_string, nat) js_map)))"
  by (simp add: js_values_def js_delete_def AList.delete_eq sorted_wrt_map sorted_wrt_filter)

lemma js_values_delete: "set (js_values (js_delete k m)) \<subseteq> set (js_values m)"
  by (auto simp: js_values_def js_delete_def AList.delete_eq)

lemma release_terminal:
  assumes inv: "journal_inv h limits s" and r: "js_get (records s) k = Some r" "terminal r"
  shows "js_get (conflicts (release r s)) = js_get (conflicts s)"
proof
  fix ck
  from inv have "k = recordKey r (operationId r)" using r(1) by (auto simp: journal_inv_def filed_def)
  with r(1) have "replaces s r r" by (simp add: replaces_def del: recordKey_inject)
  with conflicts_stored [OF inv this, of ck] r(2) show "js_get (conflicts (release r s)) ck = js_get (conflicts s) ck"
    by (auto simp: get_release terminal_def is_unsettled_def)
qed

lemma purge_entry_inv:
  assumes inv: "journal_inv h limits s" and e: "entry_in s (k, r, sq)"
  shows "journal_inv h limits (purge_entry (k, r, sq) s)"
proof -
  from inv have i: "filed h limits (records s)" "unique_ids (records s)" "conflicts_exact s" "sequences_ok s"
    by (simp_all add: journal_inv_def)
  from e have r: "js_get (records s) k = Some r" "terminal r" by (simp_all add: entry_in_def)
  let ?m = "js_delete k (records s)"
  have get: "js_get ?m k' = (if k' = k then None else js_get (records s) k')" for k' by (simp add: js_map_simps)
  have "filed h limits ?m" using i(1) by (simp add: filed_def get)
  moreover have "unique_ids ?m" using i(2) by (simp add: unique_ids_def get)
  moreover have "held ?m ck own = held (records s) ck own" for ck own
  proof -
    have "\<not> is_unsettled r" using r(2) by (auto simp: terminal_def is_unsettled_def)
    then show ?thesis unfolding held_def get using r(1) by (metis option.distinct(1) option.inject)
  qed
  then have "conflicts_exact (purge_entry (k, r, sq) s)"
    using i(3) by (simp add: conflicts_exact_def purge_entry_def release_terminal [OF inv r])
  moreover have "sequences_ok (purge_entry (k, r, sq) s)"
    using i(4) js_values_delete [of k "sequences s"] sorted_wrt_delete [of "sequences s" k]
    by (auto simp: sequences_ok_def purge_entry_def js_keys_delete distinct_removeAll)
  ultimately show ?thesis by (simp add: journal_inv_def purge_entry_def)
qed

lemma purge_fold_inv:
  assumes "journal_inv h limits s" and "\<forall>e \<in> set es. entry_in s e" and "distinct (map fst es)"
  shows "journal_inv h limits (fold purge_entry es s)"
  using assms
proof (induction es arbitrary: s)
  case (Cons e es)
  obtain k r sq where e: "e = (k, r, sq)" by (cases e)
  have "entry_in (purge_entry e s) e'" if "e' \<in> set es" for e'
    using that Cons.prems(2,3) by (force simp: e entry_in_def purge_entry_def js_map_simps)
  with Cons e purge_entry_inv [OF Cons.prems(1)] show ?case by simp
qed simp

definition sequenced :: "journal \<Rightarrow> (js_string \<times> action_record \<times> nat) list" where
  "sequenced s = concat (map (\<lambda>(k, r). case js_get (sequences s) k of None \<Rightarrow> [] | Some sq \<Rightarrow> [(k, r, sq)]) (records s))"

lemma sequenced_keys: "distinct (js_keys m) \<Longrightarrow>
    distinct (map fst (concat (map (\<lambda>(k, r). case f k of None \<Rightarrow> [] | Some sq \<Rightarrow> [(k, r, sq)]) m)))"
  by (induction m) (force simp: js_keys_def split: option.splits)+

lemma purge_order_mset [simp]: "mset (purge_order es) = mset es"
  by (simp add: purge_order_def)

lemma purge_eligible_entries:
  assumes "js_ok (records s)"
  shows "(\<forall>e \<in> set (purge_eligible q s). entry_in s e \<and> is_purgeable q (fst (snd e))) \<and> distinct (map fst (purge_eligible q s))"
proof
  let ?es = "filter (\<lambda>(k, r, sq). is_purgeable q r) (sequenced s)"
  have el: "purge_eligible q s = take (nat (purge_limit q)) (purge_order ?es)"
    by (simp add: purge_eligible_def sequenced_def)
  have "set (purge_order ?es) = set ?es" using mset_eq_setD [OF purge_order_mset] .
  then have "set (purge_eligible q s) \<subseteq> set ?es"
    unfolding el using set_take_subset [of "nat (purge_limit q)" "purge_order ?es"] by simp
  moreover have "entry_in s e \<and> is_purgeable q (fst (snd e))" if "e \<in> set ?es" for e
  proof -
    obtain k r sq where e: "e = (k, r, sq)" by (cases e)
    with that have p: "is_purgeable q r" and "(k, r) \<in> set (records s)"
      by (auto simp: sequenced_def split: option.splits)
    then have "js_get (records s) k = Some r" using js_get_entry [OF assms] by blast
    with p e show ?thesis by (simp add: entry_in_def is_purgeable_def terminal_def)
  qed
  ultimately show "\<forall>e \<in> set (purge_eligible q s). entry_in s e \<and> is_purgeable q (fst (snd e))" by blast
  have "distinct (map fst (sequenced s))"
    unfolding sequenced_def by (rule sequenced_keys) (rule assms)
  then have "distinct (map fst ?es)" by (simp add: distinct_map_filter)
  moreover have "mset (map fst (purge_eligible q s)) \<subseteq># mset (map fst ?es)"
  proof -
    have "mset (take n xs) \<subseteq># mset xs" for n and xs :: "(js_string \<times> action_record \<times> nat) list"
      by (metis append_take_drop_id mset_append mset_subset_eq_add_left)
    from this [of "nat (purge_limit q)" "purge_order ?es"] have "mset (purge_eligible q s) \<subseteq># mset ?es"
      unfolding el by (simp only: purge_order_mset)
    then show ?thesis using image_mset_subseteq_mono [of "mset (purge_eligible q s)" "mset ?es" fst]
      by (simp only: mset_map)
  qed
  ultimately show "distinct (map fst (purge_eligible q s))" by (rule distinct_submset)
qed

lemma purgeTerminal_inv:
  assumes "journal_inv h limits s"
  shows "journal_inv h limits (fst (purgeTerminal q s))"
  unfolding purgeTerminal_def Let_def
proof (intro inv_commit assms)
  fix captured
  have "js_ok (records s)" using assms by (simp add: journal_inv_def sequences_ok_def)
  from purge_eligible_entries [OF this, of captured]
  show "journal_inv h limits (fst (fold purge_entry (purge_eligible captured s) s,
      Inr (map (\<lambda>(k, r, sq). operationId r) (purge_eligible captured s))))"
    using purge_fold_inv [OF assms] by simp
qed

end
