(* ===== verification/Action_Delivery.thy ===== *)
theory Action_Delivery
  imports Action_Journal_Inv
begin

text \<open>
  What the journal's operations return: the due claims are the earliest expiries, a dispatch
  passes no unsettled action, a purge removes the oldest settled records and nothing else, and a
  listing is a page of the pending projections.
\<close>

section \<open>The journal as a machine\<close>

datatype journal_op =
    OpEnsure prepared_intent js_string
  | OpReceipt receipt_input
  | OpReconcile reconcile_input
  | OpNext claim_request
  | OpSettle goal_settlement_input
  | OpPurge purge_request

text \<open>An operation together with what the run authority answers while it runs.\<close>

type_synonym journal_call = "(run_coordinate \<Rightarrow> authority_reply) option \<times> journal_op"

definition call_env ::
  "(js_string \<Rightarrow> js_string) \<Rightarrow> goal_projection_limits option \<Rightarrow> journal_call \<Rightarrow> journal_env" where
  "call_env h limits c = \<lparr>env_hash = h, env_authority = fst c, goalProjectionLimits = limits\<rparr>"

definition journal_exec ::
  "(js_string \<Rightarrow> js_string) \<Rightarrow> goal_projection_limits option \<Rightarrow> journal_call \<Rightarrow> journal \<Rightarrow> journal" where
  "journal_exec h limits c s =
     (let env = call_env h limits c in
      case snd c of
        OpEnsure intent now \<Rightarrow> fst (ensure_action env intent now s)
      | OpReceipt i \<Rightarrow> fst (recordReceipt env i s)
      | OpReconcile i \<Rightarrow> fst (reconcile_action env i s)
      | OpNext q \<Rightarrow> fst (nextDelivery env q s)
      | OpSettle i \<Rightarrow> fst (settleGoalProjection env i s)
      | OpPurge q \<Rightarrow> fst (purgeTerminal q s))"

definition journal_guard :: "journal_call \<Rightarrow> journal \<Rightarrow> bool" where
  "journal_guard c s \<longleftrightarrow> (case snd c of OpEnsure intent now \<Rightarrow> fresh_id intent s | _ \<Rightarrow> True)"

lemma call_env_simps [simp]:
  "env_hash (call_env h limits c) = h" "goalProjectionLimits (call_env h limits c) = limits"
  by (simp_all add: call_env_def)

interpretation jr: invariant_machine "journal_exec h limits" journal_guard "journal_inv h limits" for h limits
proof
  fix s c
  assume "journal_inv h limits s" "journal_guard c s"
  then show "journal_inv h limits (journal_exec h limits c s)"
    using ensure_action_inv [of "call_env h limits c" s] recordReceipt_inv [of "call_env h limits c" s]
      reconcile_action_inv [of "call_env h limits c" s] nextDelivery_inv [of "call_env h limits c" s]
      settleGoalProjection_inv [of "call_env h limits c" s] purgeTerminal_inv [of h limits s]
    by (cases "snd c") (simp_all add: journal_exec_def journal_guard_def)
qed

lemma empty_journal_inv: "journal_inv h limits empty_journal"
  by (simp add: journal_inv_def empty_journal_def filed_def unique_ids_def conflicts_exact_def held_def
      sequences_ok_def js_values_def)

lemma unsettled_exclusive:
  assumes inv: "journal_inv h limits s"
    and r: "r \<in> set (js_values (records s))" "is_unsettled r" and r': "r' \<in> set (js_values (records s))" "is_unsettled r'"
    and common: "sessionId r = sessionId r'" "key \<in> set (conflictKeys r)" "key \<in> set (conflictKeys r')"
  shows "r = r'"
proof -
  from inv have ok: "js_ok (records s)" and u: "unique_ids (records s)" and c: "conflicts_exact s"
    by (simp_all add: journal_inv_def sequences_ok_def)
  from r(1) r'(1) ok obtain k k' where k: "js_get (records s) k = Some r" and k': "js_get (records s) k' = Some r'"
    by (auto simp: set_js_values)
  let ?ck = "conflictKey (sessionId r) key"
  have "held (records s) ?ck (operationId r)" "held (records s) ?ck (operationId r')"
    unfolding held_def conflict_ids_def using k k' r(2) r'(2) common by (metis imageI)+
  then have "js_get (conflicts s) ?ck = Some (operationId r)" "js_get (conflicts s) ?ck = Some (operationId r')"
    using c by (simp_all add: conflicts_exact_def)
  then show ?thesis using unique_idsD [OF u k k' common(1)] by simp
qed

section \<open>The earliest due claims\<close>

text \<open>A stable sort puts a new last element behind its equals.\<close>

fun insert_right :: "('a \<Rightarrow> 'k::linorder) \<Rightarrow> 'a \<Rightarrow> 'a list \<Rightarrow> 'a list" where
  "insert_right f x [] = [x]"
| "insert_right f x (y # ys) = (if f y \<le> f x then y # insert_right f x ys else x # y # ys)"

lemma insert_right_mset [simp]: "mset (insert_right f x ys) = add_mset x (mset ys)"
  by (induction ys) auto

lemma insert_right_set [simp]: "set (insert_right f x ys) = insert x (set ys)"
  by (induction ys) auto

lemma insert_right_length [simp]: "length (insert_right f x ys) = Suc (length ys)"
  by (induction ys) auto

lemma insert_right_sorted: "sorted (map f ys) \<Longrightarrow> sorted (map f (insert_right f x ys))"
  by (induction ys) auto

lemma insert_right_filter:
  "sorted (map f ys) \<Longrightarrow> filter (\<lambda>y. f y = k) (insert_right f x ys) = filter (\<lambda>y. f y = k) (ys @ [x])"
proof (induction ys)
  case (Cons y ys)
  show ?case
  proof (cases "f y \<le> f x")
    case False
    have "filter (\<lambda>z. f z = f x) (y # ys) = []" using Cons.prems False by (auto simp: filter_empty_conv)
    with False show ?thesis by auto
  next
    case True
    with Cons show ?thesis by (cases "f y = k") simp_all
  qed
qed simp

lemma sort_key_snoc: "sort_key f (xs @ [x]) = insert_right f x (sort_key f xs)"
proof (rule properties_for_sort_key)
  show "filter (\<lambda>y. f k = f y) (insert_right f x (sort_key f xs)) = filter (\<lambda>y. f k = f y) (xs @ [x])" for k
  proof -
    have eq: "(\<lambda>y. f k = f y) = (\<lambda>y. f y = f k)" by auto
    show ?thesis unfolding eq by (simp add: insert_right_filter sort_key_stable)
  qed
qed (simp_all add: insert_right_sorted)

lemma take_insert_right: "take n (insert_right f x (take n ys)) = take n (insert_right f x ys)"
proof (induction ys arbitrary: n)
  case (Cons y ys)
  then show ?case by (cases n) (auto simp: take_Cons')
qed simp

lemma sorted_sort_id': "sorted (map f xs) \<Longrightarrow> sort_key f xs = xs"
  by (rule properties_for_sort_key) auto

lemma push_due_take:
  assumes "0 < l"
  shows "push_due l (take (nat l) (sort_key expiry_of xs)) r = take (nat l) (sort_key expiry_of (xs @ [r]))"
proof -
  let ?ys = "take (nat l) (sort_key expiry_of xs)"
  have "sort_key expiry_of ?ys = ?ys"
    by (rule sorted_sort_id') (metis sorted_sort_key sorted_wrt_take take_map)
  then have pushed: "sort_key expiry_of (?ys @ [r]) = insert_right expiry_of r ?ys" by (simp only: sort_key_snoc)
  have "push_due l ?ys r = take (nat l) (insert_right expiry_of r ?ys)"
  proof (cases "l < int (length (insert_right expiry_of r ?ys))")
    case True
    then have "length (insert_right expiry_of r ?ys) - 1 = nat l" using assms by auto
    with True show ?thesis by (simp only: push_due_def pushed Let_def if_True butlast_conv_take)
  next
    case False
    then show ?thesis by (simp only: push_due_def pushed Let_def if_False) (simp add: not_less)
  qed
  then show ?thesis by (simp only: take_insert_right sort_key_snoc)
qed

lemma due_claims_take:
  assumes "0 < candidateLimit q"
  shows "due_claims q s = take (nat (candidateLimit q)) (sort_key expiry_of (filter (is_due q) (js_values (records s))))"
proof -
  have "foldl (push_due l) (take (nat l) (sort_key expiry_of xs)) rs = take (nat l) (sort_key expiry_of (xs @ rs))"
    if "0 < l" for l xs rs
    using that by (induction rs arbitrary: xs) (simp_all add: push_due_take)
  from this [OF assms, of "[]"] show ?thesis by (simp add: due_claims_def)
qed

section \<open>Dispatches\<close>

lemma visiting_mset: "visiting s rs \<Longrightarrow> mset qs = mset rs \<Longrightarrow> visiting s qs"
  using visiting_submset subset_mset.eq_refl by blast

lemma visiting_Cons_rest: "visiting s (r # rs) \<Longrightarrow> visiting s rs"
  by (rule conjunct2 [OF visiting_Cons])

definition replayable_in :: "claim_request \<Rightarrow> action_record \<Rightarrow> bool" where
  "replayable_in q r \<longleftrightarrow> is_due q r \<and> replayPolicy r = Safe"

lemma expire_due_replayable:
  assumes "expire_due env q rs acc chg s = (s', Inr (rep, c))"
    and "visiting s (D @ rs)" and "\<forall>r \<in> set rs. is_due q r" and "\<forall>r \<in> set D. replayable_in q r"
    and "set acc \<subseteq> operationId ` set D"
  shows "\<exists>D'. visiting s' D' \<and> (\<forall>r \<in> set D'. replayable_in q r) \<and> set rep \<subseteq> operationId ` set D'"
  using assms
proof (induction env q rs acc chg s arbitrary: D rule: expire_due.induct)
  case (1 env q acc chg s)
  then show ?case by auto
next
  case (2 env q r rs acc chg s)
  from "2.prems"(1) show ?case
    unfolding expire_due.simps
  proof (rule commit_cases)
    fix replay
    assume rp: "(if replayPolicy r = Safe then isRunOpen env r else Inr False) = Inr replay"
      and run: "(if replay then expire_due env q rs (operationId r # acc) chg s
        else commit s (expireActionRecord r (req_claimedAt q)) (\<lambda>t.
          commit s (assertActionGoalProjectionRecordFits (tr_record t) (goalProjectionLimits env)) (\<lambda>_.
            expire_due env q rs acc True (store (tr_record t) (if releaseConflicts t then release r s else s)))))
        = (s', Inr (rep, c))"
    show ?thesis
    proof (cases replay)
      case True
      then have safe: "replayPolicy r = Safe" using rp by (auto split: if_splits)
      have "visiting s ((r # D) @ rs)" using "2.prems"(2) by (rule visiting_mset) simp
      moreover have "\<forall>p \<in> set (r # D). replayable_in q p" using "2.prems"(3,4) safe by (simp add: replayable_in_def)
      ultimately show ?thesis using "2.IH"(1) [OF rp True, of "r # D"] run True "2.prems"(3,5) by auto
    next
      case False
      with run obtain t u where t: "expireActionRecord r (req_claimedAt q) = Inr t"
        and u: "assertActionGoalProjectionRecordFits (tr_record t) (goalProjectionLimits env) = Inr u"
        and rest: "expire_due env q rs acc True (store (tr_record t) (if releaseConflicts t then release r s else s)) = (s', Inr (rep, c))"
        by (auto elim!: commit_cases)
      have "visiting s (r # D @ rs)" using "2.prems"(2) by (rule visiting_mset) simp
      moreover have "same_intent r (tr_record t)" using t by (auto simp: expire_transition)
      ultimately have "visiting (store (tr_record t) (if releaseConflicts t then release r s else s)) (D @ rs)"
        by (rule visiting_store) simp
      then show ?thesis using "2.IH"(2) [OF rp False t u rest] "2.prems"(3-5) by simp
    qed
  qed simp
qed

definition claims ::
  "journal_env \<Rightarrow> claim_request \<Rightarrow> js_string list \<Rightarrow> journal \<Rightarrow> action_record \<Rightarrow> action_record \<Rightarrow> journal \<Rightarrow> bool" where
  "claims env q rep s r r' s' \<longleftrightarrow> (\<exists>t. r' = tr_record t \<and> same_stream r q \<and> matches_run r (req_runId q) \<and>
    isRunOpen env r = Inr True \<and> canAcquire s r \<and>
    (if operationId r \<in> set rep then reclaimActionRecord r q else claimActionRecord r q) = Inr t \<and>
    s' = store r' (acquire r' (if operationId r \<in> set rep then release r s else s)))"

lemma claim_pending_Some:
  assumes "claim_pending env q rep rs n s = (s', Inr (Some r'))"
  shows "\<exists>r \<in> set rs. claims env q rep s r r' s'"
  using assms
proof (induction env q rep rs n s rule: claim_pending.induct)
  case (2 env q rep r rs n s)
  let ?skip = "\<not> same_stream r q \<or> \<not> matches_run r (req_runId q) \<or> (status r \<noteq> Pending \<and> operationId r \<notin> set rep)"
  show ?case
  proof (cases ?skip)
    case True
    then show ?thesis using "2.IH"(1) [OF True] "2.prems" by auto
  next
    case skip: False
    from "2.prems" skip have lim: "\<not> candidateLimit q < n + 1" by (auto split: if_splits)
    from "2.prems" skip lim obtain o' where o: "isRunOpen env r = Inr o'" by (auto elim!: commit_cases)
    show ?thesis
    proof (cases "\<not> o' \<or> \<not> canAcquire s r")
      case True
      then show ?thesis using "2.IH"(2) [OF skip lim o True] "2.prems" skip lim o by auto
    next
      case False
      with "2.prems" skip lim o have "claims env q rep s r r' s'"
        by (auto simp: claims_def Let_def elim!: commit_cases)
      then show ?thesis by simp
    qed
  qed
qed simp

lemma stored_values: "js_ok (records s) \<Longrightarrow> stored s r \<Longrightarrow> r \<in> set (js_values (records s))"
  by (auto simp: stored_def set_js_values)

lemma values_stored: "journal_inv h limits s \<Longrightarrow> r \<in> set (js_values (records s)) \<Longrightarrow> stored s r"
  using visiting_values [of h limits s] by (simp add: visiting_def)

lemma stored_unique:
  "journal_inv h limits s \<Longrightarrow> stored s r \<Longrightarrow> stored s r' \<Longrightarrow> sessionId r = sessionId r' \<Longrightarrow> operationId r = operationId r' \<Longrightarrow> r = r'"
  unfolding stored_def journal_inv_def using unique_idsD by metis

lemma oldestUnsettled_None:
  "oldestUnsettled k run rep s = None \<longleftrightarrow>
   (\<forall>r \<in> set (js_values (records s)). same_stream r k \<longrightarrow> matches_run r run \<longrightarrow> is_unsettled r \<longrightarrow> operationId r \<in> set rep)"
  by (auto simp: oldestUnsettled_def find_None_iff)

text \<open>The stages of a successful \<open>nextDelivery\<close>.\<close>

lemma nextDelivery_dispatch:
  assumes "nextDelivery env q s = (s', Inr sel)" and "delivery sel = Some (Dispatch, r)"
  obtains s1 s2 rep chg p where "validateActionClaimRequest q = Inr ()"
    "fst (retireClosedPending env q s) = s1" "expireDueClaims env q s1 = (s2, Inr (rep, chg))"
    "oldestUnsettled q (req_runId q) rep s2 = None" "p \<in> set (js_values (records s2))" "claims env q rep s2 p r s'"
proof -
  obtain s1 a where 1: "retireClosedPending env q s = (s1, a)" by (cases "retireClosedPending env q s")
  obtain s2 b where 2: "expireDueClaims env q s1 = (s2, b)" by (cases "expireDueClaims env q s1")
  from assms(1) obtain rep chg retired where v: "validateActionClaimRequest q = Inr ()" and b: "b = Inr (rep, chg)"
    and rest: "selectDelivery env q (retired \<or> chg) rep s2 = (s', Inr sel)"
    by (cases b) (auto simp: nextDelivery_def 1 2 commit_eq_Inr simp del: validateActionClaimRequest_Inr)
  obtain s3 c where c: "claimPendingRecord env q rep s2 = (s3, c)" by (cases "claimPendingRecord env q rep s2")
  have none: "oldestUnsettled q (req_runId q) rep s2 = None"
  proof (cases "oldestUnsettled q (req_runId q) rep s2")
    case (Some x)
    with rest assms(2) show ?thesis by (auto simp: selectDelivery_def)
  qed
  have cl: "claimPendingRecord env q rep s2 = (s', Inr (Some r))"
  proof (cases c)
    case (Inl e)
    with rest none c show ?thesis by (simp add: selectDelivery_def)
  next
    case (Inr claimed)
    show ?thesis
    proof (cases claimed)
      case None
      with rest none c Inr assms(2) show ?thesis by (auto simp: selectDelivery_def)
    next
      case (Some x)
      with rest none c Inr assms(2) show ?thesis by (auto simp: selectDelivery_def)
    qed
  qed
  from cl obtain p where "p \<in> set (js_values (records s2))" "claims env q rep s2 p r s'"
    using claim_pending_Some [of env q rep "js_values (records s2)" 0 s2 s' r] by (auto simp: claimPendingRecord_def)
  moreover have "fst (retireClosedPending env q s) = s1" "expireDueClaims env q s1 = (s2, Inr (rep, chg))"
    using 1 2 b by simp_all
  ultimately show ?thesis using that v none by blast
qed

lemma claims_claimed:
  assumes "claims env q rep s p r s'" and "stored s p"
  shows "status r = Claimed \<and> same_intent p r \<and> stored s' r \<and> records s' = js_set (recordKey p (operationId p)) r (records s) \<and>
    (\<exists>c. claim r = Some c \<and> claim_token c = req_claimToken q \<and> claim_claimantId c = req_claimantId q \<and>
      claim_claimedAt c = req_claimedAt q \<and> claim_expiresAt c = req_expiresAt q \<and> claim_attempt c = attempt r)"
proof -
  from assms(1) obtain t where r: "r = tr_record t"
    and t: "(if operationId p \<in> set rep then reclaimActionRecord p q else claimActionRecord p q) = Inr t"
    and s': "s' = store r (acquire r (if operationId p \<in> set rep then release p s else s))"
    by (auto simp: claims_def)
  have d: "dispatch_step p r" using t r Claim Reclaim by (auto split: if_splits)
  then have same: "same_intent p r" by (rule dispatch_step_intent)
  have key: "recordKey r (operationId r) = recordKey p (operationId p)" using same_intent_ids [OF same] by simp
  have "status r = Claimed \<and> (\<exists>c. claim r = Some c \<and> claim_token c = req_claimToken q \<and> claim_claimantId c = req_claimantId q \<and>
      claim_claimedAt c = req_claimedAt q \<and> claim_expiresAt c = req_expiresAt q \<and> claim_attempt c = attempt r)"
    using t r by (auto simp: claim_transition reclaim_transition split: if_splits)
  moreover have "records s' = js_set (recordKey p (operationId p)) r (records s)"
    using s' key by (simp del: recordKey_inject)
  ultimately show ?thesis using same key by (simp add: stored_def js_map_simps del: recordKey_inject)
qed

lemma dispatch_alone:
  assumes inv: "journal_inv (env_hash env) (goalProjectionLimits env) s"
    and run: "nextDelivery env q s = (s', Inr sel)" "delivery sel = Some (Dispatch, r)"
    and r': "r' \<in> set (js_values (records s'))" "same_stream r' q" "matches_run r' (req_runId q)" "is_unsettled r'"
  shows "r' = r \<or> (is_due q r' \<and> replayPolicy r' = Safe)"
proof -
  let ?J = "journal_inv (env_hash env) (goalProjectionLimits env)"
  obtain s1 s2 rep chg p where "validateActionClaimRequest q = Inr ()" and s1: "fst (retireClosedPending env q s) = s1"
    and s2: "expireDueClaims env q s1 = (s2, Inr (rep, chg))" and none: "oldestUnsettled q (req_runId q) rep s2 = None"
    and p: "p \<in> set (js_values (records s2))" "claims env q rep s2 p r s'"
    by (rule nextDelivery_dispatch [OF run])
  have j1: "?J s1"
    using retire_closed_inv [OF inv visiting_values [OF inv], where q = q and n = 0] s1
    by (auto simp: retireClosedPending_def split: prod.splits sum.splits)
  then have "?J (fst (expire_due env q (due_claims q s1) [] False s1))"
    using visiting_due by (intro expire_due_inv)
  with s2 have j2: "?J s2" by (simp add: expireDueClaims_def)
  have due: "\<forall>d \<in> set (due_claims q s1). is_due q d"
    using set_mset_mono [OF due_claims_mset [of q s1]] by auto
  have ex: "expire_due env q (due_claims q s1) [] False s1 = (s2, Inr (rep, chg))"
    using s2 by (simp add: expireDueClaims_def)
  have vis: "visiting s1 ([] @ due_claims q s1)" using visiting_due [OF j1] by simp
  obtain D where D: "visiting s2 D" "\<forall>d \<in> set D. replayable_in q d" "set rep \<subseteq> operationId ` set D"
    using expire_due_replayable [OF ex vis due] by auto
  from values_stored [OF j2 p(1)] have ps: "stored s2 p" .
  note cl = claims_claimed [OF p(2) ps]
  from cl have rec: "records s' = js_set (recordKey p (operationId p)) r (records s2)" by blast
  with j2 have ok': "js_ok (records s')" by (simp only: journal_inv_def sequences_ok_def js_ok_set)
  show ?thesis
  proof (cases "js_get (records s2) (recordKey r' (operationId r')) = Some r'")
    case True
    then have st: "stored s2 r'" by (simp add: stored_def)
    have "r' \<in> set (js_values (records s2))"
      using stored_values [OF _ st] j2 by (simp add: journal_inv_def sequences_ok_def)
    with none r'(2-4) have "operationId r' \<in> set rep" by (auto simp: oldestUnsettled_None)
    with D(3) obtain d where d: "d \<in> set D" "operationId d = operationId r'" by auto
    with D(1,2) have "stored s2 d" "is_due q d" "replayPolicy d = Safe" by (auto simp: visiting_def replayable_in_def)
    moreover from this r'(2) have "sessionId d = sessionId r'" by (simp add: is_due_def same_stream_def)
    ultimately show ?thesis using stored_unique [OF j2 _ st, of d] d(2) by simp
  next
    case False
    obtain k where k: "js_get (records s') k = Some r'" using r'(1) ok' by (auto simp: set_js_values)
    show ?thesis
    proof (cases "k = recordKey p (operationId p)")
      case True
      with k rec show ?thesis by (simp add: js_map_simps del: recordKey_inject)
    next
      case False
      with k rec have "js_get (records s2) k = Some r'" by (simp add: js_map_simps)
      moreover from this j2 have "k = recordKey r' (operationId r')" using filedD by (metis journal_inv_def)
      ultimately show ?thesis using \<open>js_get (records s2) (recordKey r' (operationId r')) \<noteq> Some r'\<close> by simp
    qed
  qed
qed

section \<open>What a purge leaves\<close>

lemma get_purge_fold:
  "js_get (records (fold purge_entry es s)) k = (if k \<in> fst ` set es then None else js_get (records s) k)"
  by (induction es arbitrary: s) (auto simp: purge_entry_def js_map_simps)

fun purge_before :: "js_string \<times> action_record \<times> nat \<Rightarrow> js_string \<times> action_record \<times> nat \<Rightarrow> bool" where
  "purge_before (k, r, sq) (k', r', sq') \<longleftrightarrow> updatedAt r < updatedAt r' \<or> (updatedAt r = updatedAt r' \<and> sq \<le> sq')"

text \<open>Sorting by one key a list already sorted by another leaves the second order between equals.\<close>

lemma sort_key_lexicographic:
  assumes "sorted (map g xs)"
  shows "sorted_wrt (\<lambda>x y. f x < f y \<or> (f x = f y \<and> g x \<le> g y)) (sort_key f xs)"
  using assms
proof (induction xs rule: rev_induct)
  case (snoc x xs)
  have "sorted_wrt (\<lambda>x y. f x < f y \<or> (f x = f y \<and> g x \<le> g y)) (insert_right f x ys)"
    if "sorted_wrt (\<lambda>x y. f x < f y \<or> (f x = f y \<and> g x \<le> g y)) ys" and "\<forall>y \<in> set ys. g y \<le> g x" for ys
    using that by (induction ys) (auto simp: order_le_less)
  with snoc show ?case by (simp add: sort_key_snoc sorted_append)
qed simp

lemma purge_order_sorted: "sorted_wrt purge_before (purge_order es)"
proof -
  let ?u = "\<lambda>(k, r, sq). updatedAt r" and ?q = "\<lambda>(k, r, sq). sq"
  have "sorted_wrt (\<lambda>x y. ?u x < ?u y \<or> (?u x = ?u y \<and> ?q x \<le> ?q y)) (purge_order es)"
    unfolding purge_order_def by (rule sort_key_lexicographic) simp
  then show ?thesis by (rule sorted_wrt_mono_rel [rotated]) auto
qed

lemma purgeTerminal_Inr:
  assumes inv: "journal_inv h limits s" and run: "purgeTerminal q s = (s', Inr ids)"
  defines "es \<equiv> purge_eligible q s"
  shows "ids = map (\<lambda>(k, r, sq). operationId r) es \<and> s' = fold purge_entry es s"
  using run by (auto simp: purgeTerminal_def commit_eq_Inr captureActionTerminalPurgeRequest_def rbind_eq_Inr
      captureRetainedIdentifiers_Inr Let_def es_def)

section \<open>Listing goal projections\<close>

definition pending_entry :: "'a stream_key_scheme \<Rightarrow> js_string \<times> action_record \<times> nat \<Rightarrow> bool" where
  "pending_entry q e \<longleftrightarrow> (case e of (k, r, sq) \<Rightarrow>
     same_stream r q \<and> goalProjection r \<noteq> None \<and> goalProjectionSettlement r = None)"

text \<open>The pending projections of a stream after a sequence, in admission order.\<close>

definition pending_after :: "journal \<Rightarrow> 'a stream_key_scheme \<Rightarrow> nat \<Rightarrow> (js_string \<times> action_record \<times> nat) list" where
  "pending_after s q a = filter (\<lambda>e. pending_entry q e \<and> a < snd (snd e)) (sequenced s)"

definition candidate :: "js_string \<times> action_record \<times> nat \<Rightarrow> goal_candidate" where
  "candidate e = (case e of (k, r, sq) \<Rightarrow> \<lparr>cand_sequence = to_decimal sq, cand_action = r\<rparr>)"

lemma scan_projections_Inr:
  assumes "scan_projections limits q after s es found = Inr res" and "int (length found) \<le> list_limit q"
  shows "res = take (Suc (nat (list_limit q))) (found @ map candidate (filter (\<lambda>e. pending_entry q e \<and> after < snd (snd e))
    (concat (map (\<lambda>(k, r). case js_get (sequences s) k of None \<Rightarrow> [] | Some sq \<Rightarrow> [(k, r, sq)]) es))))"
  using assms
proof (induction limits q after s es found rule: scan_projections.induct)
  case (1 limits q after s found)
  then show ?case by simp
next
  case (2 limits q after s key r rest found)
  show ?case
  proof (cases "js_get (sequences s) key")
    case None
    with 2 show ?thesis by simp
  next
    case (Some sq)
    let ?skip = "sq \<le> after \<or> \<not> same_stream r q \<or> goalProjection r = None \<or> goalProjectionSettlement r \<noteq> None"
    show ?thesis
    proof (cases ?skip)
      case True
      then have no: "(pending_entry q (key, r, sq) \<and> after < snd (snd (key, r, sq))) = False"
        by (auto simp: pending_entry_def)
      from "2.prems"(1) Some True have run: "scan_projections limits q after s rest found = Inr res" by simp
      from "2.IH"(2) [OF Some True run "2.prems"(2)] show ?thesis
        by (simp only: list.map concat.simps append_Cons append_Nil filter.simps prod.case Some option.case no if_False)
    next
      case False
      then have f: "(sq \<le> after) = False" "same_stream r q = True" "(goalProjection r = None) = False"
        "(goalProjectionSettlement r \<noteq> None) = False" by simp_all
      from False have elig: "pending_entry q (key, r, sq) \<and> after < sq" by (simp add: pending_entry_def)
      let ?c = "\<lparr>cand_sequence = to_decimal sq, cand_action = r\<rparr>"
      from False "2.prems"(1) Some have bytes: "\<not> maxRecordBytes limits < int (utf8_length (stringify (record_json r)))"
        by (auto split: if_splits)
      have cand: "candidate (key, r, sq) = ?c" by (simp add: candidate_def)
      show ?thesis
      proof (cases "list_limit q < int (length (found @ [?c]))")
        case True
        with "2.prems" have "Suc (nat (list_limit q)) = length (found @ [?c])" by simp
        moreover have "res = found @ [?c]" using "2.prems"(1) bytes True
          by (simp only: scan_projections.simps Some option.case f Let_def if_True if_False simp_thms) simp
        ultimately show ?thesis using Some elig cand by simp
      next
        case more: False
        then have "scan_projections limits q after s rest (found @ [?c]) = Inr res"
          using "2.prems"(1) bytes
          by (simp only: scan_projections.simps Some option.case f Let_def if_True if_False simp_thms)
        from "2.IH"(3) [OF Some False bytes refl more this] more show ?thesis using Some elig cand by simp
      qed
    qed
  qed
qed

lemma sequenced_zip:
  assumes "map fst m = map fst n" and "\<forall>(k, sq) \<in> set n. f k = Some sq"
  shows "map (\<lambda>(k, r, sq). sq) (concat (map (\<lambda>(k, r). case f k of None \<Rightarrow> [] | Some sq \<Rightarrow> [(k, r, sq)]) m)) = map snd n"
  using assms by (induction m n rule: list_induct2') auto

lemma sequenced_increasing:
  assumes "sequences_ok s"
  shows "sorted_wrt (<) (map (\<lambda>e. snd (snd e)) (sequenced s))"
proof -
  have keys: "map fst (records s) = map fst (sequences s)" and ok: "js_ok (sequences s)"
    using assms by (simp_all add: sequences_ok_def js_keys_def)
  have "\<forall>(k, sq) \<in> set (sequences s). js_get (sequences s) k = Some sq" using js_get_entry [OF ok] by blast
  from sequenced_zip [OF keys this] have "map (\<lambda>(k, r, sq). sq) (sequenced s) = js_values (sequences s)"
    by (simp add: sequenced_def js_values_def)
  moreover have "map (\<lambda>e. snd (snd e)) (sequenced s) = map (\<lambda>(k, r, sq). sq) (sequenced s)" by (rule map_cong) auto
  ultimately show ?thesis using assms by (simp add: sequences_ok_def)
qed

lemma filter_after_nth:
  assumes "sorted_wrt (<) (map f xs)" and "n < length xs"
  shows "filter (\<lambda>x. f (xs ! n) < (f x :: nat)) xs = drop (Suc n) xs"
proof -
  have "xs = take (Suc n) xs @ drop (Suc n) xs" by simp
  moreover have "filter (\<lambda>x. f (xs ! n) < f x) (take (Suc n) xs) = []"
  proof -
    have "f x \<le> f (xs ! n)" if x: "x \<in> set (take (Suc n) xs)" for x
    proof -
      from x obtain i where i: "i < Suc n" "x = xs ! i" using assms(2) by (auto simp: in_set_conv_nth)
      show ?thesis
      proof (cases "i = n")
        case False
        with i(1) have "i < n" by simp
        with sorted_wrt_nth_less [OF assms(1), of i n] assms(2) i(2) show ?thesis by simp
      qed (simp add: i)
    qed
    then show ?thesis by (auto simp: filter_empty_conv not_less)
  qed
  moreover have "filter (\<lambda>x. f (xs ! n) < f x) (drop (Suc n) xs) = drop (Suc n) xs"
  proof -
    have "f (xs ! n) < f x" if x: "x \<in> set (drop (Suc n) xs)" for x
    proof -
      from x obtain i where "i < length xs - Suc n" "x = xs ! (Suc n + i)" by (auto simp: in_set_conv_nth)
      with sorted_wrt_nth_less [OF assms(1), of n "Suc n + i"] assms(2) show ?thesis by simp
    qed
    then show ?thesis by simp
  qed
  ultimately show ?thesis by (metis append_Nil filter_append)
qed

lemma pending_after_cursor:
  assumes "sequences_ok s" and "n < length (pending_after s q a)"
  shows "pending_after s q (snd (snd (pending_after s q a ! n))) = drop (Suc n) (pending_after s q a)"
proof -
  let ?P = "pending_after s q a"
  let ?f = "\<lambda>e :: js_string \<times> action_record \<times> nat. snd (snd e)"
  have "sorted_wrt (<) (map ?f ?P)"
    using sequenced_increasing [OF assms(1)]
    by (simp add: pending_after_def sorted_wrt_map sorted_wrt_filter)
  from filter_after_nth [OF this assms(2)]
  have *: "filter (\<lambda>x. ?f (?P ! n) < ?f x) ?P = drop (Suc n) ?P" .
  have "?P ! n \<in> set ?P" using assms(2) by simp
  then have "a < ?f (?P ! n)" by (simp add: pending_after_def)
  then have "pending_after s q (?f (?P ! n)) = filter (\<lambda>x. ?f (?P ! n) < ?f x) ?P"
    by (auto simp: pending_after_def intro!: filter_cong)
  with * show ?thesis by simp
qed

section \<open>Consequences for the properties\<close>

definition journal_reachable :: "(js_string \<Rightarrow> js_string) \<Rightarrow> goal_projection_limits option \<Rightarrow> journal \<Rightarrow> bool" where
  "journal_reachable h limits s \<longleftrightarrow>
     (\<exists>calls. guarded (journal_exec h limits) journal_guard calls empty_journal \<and>
        s = run_ops (journal_exec h limits) calls empty_journal)"

lemma reachable_inv: "journal_reachable h limits s \<Longrightarrow> journal_inv h limits s"
  using jr.run_inv empty_journal_inv by (auto simp: journal_reachable_def)

lemma purge_fold_conflicts:
  assumes "journal_inv h limits s" and "\<forall>e \<in> set es. entry_in s e" and "distinct (map fst es)"
  shows "js_get (conflicts (fold purge_entry es s)) = js_get (conflicts s)"
  using assms
proof (induction es arbitrary: s)
  case (Cons e es)
  obtain k r sq where e: "e = (k, r, sq)" by (cases e)
  have "entry_in (purge_entry e s) e'" if "e' \<in> set es" for e'
    using that Cons.prems(2,3) by (force simp: e entry_in_def purge_entry_def js_map_simps)
  moreover have "js_get (records s) k = Some r" "terminal r" using Cons.prems(2) by (simp_all add: e entry_in_def)
  from release_terminal [OF Cons.prems(1) this]
  have "js_get (conflicts (purge_entry e s)) = js_get (conflicts s)" by (simp add: e purge_entry_def)
  ultimately show ?case
    using Cons e purge_entry_inv [OF Cons.prems(1), of k r sq] by simp
qed simp

lemma purge_keeps_younger:
  assumes "js_get (records s) k = Some r" and "is_purgeable q r" and "k \<notin> fst ` set (purge_eligible q s)"
    and "sequences_ok s" and "(k0, r0, sq0) \<in> set (purge_eligible q s)"
  shows "updatedAt r0 \<le> updatedAt r"
proof -
  let ?es = "purge_order (filter (\<lambda>(k, r, sq). is_purgeable q r) (sequenced s))"
  let ?n = "nat (purge_limit q)"
  have el: "purge_eligible q s = take ?n ?es" by (simp add: purge_eligible_def sequenced_def)
  have "js_has (sequences s) k"
    using assms(1,4) by (metis js_has_def js_has_iff option.distinct(1) sequences_ok_def)
  then obtain sq where sq: "js_get (sequences s) k = Some sq" by (auto simp: js_has_def)
  have "(k, r) \<in> set (records s)"
    using assms(1,4) js_get_entry [of "records s" k r] by (simp add: sequences_ok_def)
  then have "(k, r, sq) \<in> set (sequenced s)" using sq by (force simp: sequenced_def)
  then have "(k, r, sq) \<in> set ?es" using assms(2) by (simp add: purge_order_def)
  moreover have "(k, r, sq) \<notin> set (take ?n ?es)" using assms(3) unfolding el by force
  ultimately have "(k, r, sq) \<in> set (drop ?n ?es)" by (metis UnE append_take_drop_id set_append)
  moreover have "sorted_wrt purge_before (take ?n ?es @ drop ?n ?es)" using purge_order_sorted by simp
  ultimately have "purge_before (k0, r0, sq0) (k, r, sq)"
    using assms(5) unfolding el sorted_wrt_append by blast
  then show ?thesis by auto
qed

section \<open>A concrete journal\<close>

definition sample_env :: journal_env where
  "sample_env = \<lparr>env_hash = const_hash, env_authority = None, goalProjectionLimits = None\<rparr>"

definition sample_intent :: "replay_policy \<Rightarrow> prepared_intent" where
  "sample_intent policy = prepared_intent.truncate (sample_record policy)"

definition sample_key :: js_string where
  "sample_key = string_tuple_key [js ''s'', js ''a'', js ''act_'' @ digest_a]"

definition sample_journal :: "replay_policy \<Rightarrow> journal" where
  "sample_journal policy =
     \<lparr>records = [(sample_key, sample_record policy)], conflicts = [], sequences = [(sample_key, 1)], nextSequence = 1\<rparr>"

definition sample_journal2 :: "replay_policy \<Rightarrow> journal" where
  "sample_journal2 policy =
     \<lparr>records = [(sample_key, sample_claimed policy)], conflicts = [(conflictKey (js ''s'') (js ''door''), js ''act_'' @ digest_a)],
      sequences = [(sample_key, 1)], nextSequence = 1\<rparr>"

lemma sample_new: "new_action_record (sample_intent policy) t0 = sample_record policy"
  by (simp add: new_action_record_def sample_intent_def sample_defs prepared_intent.defs action_record.defs)

lemma sample_admitted [simp]:
  "assertActionRecord const_hash (sample_record policy) limits = Inr ()"
  "assertActionRecord const_hash (sample_claimed policy) limits = Inr ()"
proof -
  show a: "assertActionRecord const_hash (sample_record policy) limits = Inr ()"
    by (simp add: assertActionRecord_wf sample_wf sample_prepared)
  from action_step_admissible [OF a, of "sample_claimed policy"]
  show "assertActionRecord const_hash (sample_claimed policy) limits = Inr ()"
    by (simp add: action_step_def sample_dispatch)
qed

lemma sample_fits [simp]:
  "assertActionGoalProjectionRecordFits (sample_record policy) limits = Inr ()"
  "assertActionGoalProjectionRecordFits (sample_claimed policy) limits = Inr ()"
  by (simp_all add: assertActionGoalProjectionRecordFits_def sample_defs sample_claimed_def)

lemma sample_ensure: "ensure_action sample_env (sample_intent policy) t0 empty_journal = (sample_journal policy, Inr (sample_record policy))"
proof -
  have "goalProjection (sample_intent policy) = None" "operationId (sample_intent policy) = js ''act_'' @ digest_a"
    "recordKey (sample_intent policy) (js ''act_'' @ digest_a) = sample_key"
    by (simp_all add: sample_intent_def sample_defs prepared_intent.defs recordKey_def sample_key_def)
  moreover have v: "validateTimestamp t0 = Inr ()" by simp
  ultimately show ?thesis
    by (simp add: ensure_action_def empty_journal_def sample_env_def Let_def check_goal_capacity_def sample_new v
        assertRunAuthorityOpen_def sample_journal_def js_set_def del: validateTimestamp_Inr)
qed

lemma sample_next:
  "nextDelivery sample_env sample_request (sample_journal policy) =
     (sample_journal2 policy, Inr \<lparr>delivery = Some (Dispatch, sample_claimed policy), changed = True\<rparr>)"
proof -
  let ?r = "sample_record policy"
  have r: "same_stream ?r sample_request" "status ?r = Pending" "matches_run ?r (req_runId sample_request)" "\<not> is_unsettled ?r"
    "conflictKeys (sample_claimed policy) = [js ''door'']" "sessionId (sample_claimed policy) = js ''s''"
    "operationId (sample_claimed policy) = js ''act_'' @ digest_a" "conflictKeys ?r = [js ''door'']" "sessionId ?r = js ''s''"
    "\<not> is_due sample_request ?r" "recordKey (sample_claimed policy) (js ''act_'' @ digest_a) = sample_key"
    by (simp_all add: same_stream_def sample_defs matches_run_def is_unsettled_def sample_claimed_def is_due_def
        recordKey_def sample_key_def)
  have v: "validateActionClaimRequest sample_request = Inr ()"
    by (simp add: sample_defs stream_key_ok_def is_positive_safe_integer_def is_safe_integer_def max_safe_integer_def)
  have o: "isRunOpen sample_env ?r = Inr True"
    by (simp add: isRunOpen_def isActionRunAuthorityOpen_def assertRunAuthorityOpen_def sample_env_def)
  have values': "js_values (records (sample_journal policy)) = [?r]" by (simp add: sample_journal_def js_values_def)
  have retire: "retireClosedPending sample_env sample_request (sample_journal policy) = (sample_journal policy, Inr False)"
    by (simp add: retireClosedPending_def values' r o)
  have due: "expireDueClaims sample_env sample_request (sample_journal policy) = (sample_journal policy, Inr ([], False))"
    by (simp add: expireDueClaims_def due_claims_def values' r)
  have e: "env_hash sample_env = const_hash" "goalProjectionLimits sample_env = None" "candidateLimit sample_request = 8"
    by (simp_all add: sample_env_def sample_request_def)
  have "claimPendingRecord sample_env sample_request [] (sample_journal policy) = (sample_journal2 policy, Inr (Some (sample_claimed policy)))"
    using o r sample_claim
    by (simp add: claimPendingRecord_def values' e canAcquire_def store_def acquire_def)
      (simp add: sample_journal_def sample_journal2_def js_set_def)
  then show ?thesis
    using v r by (simp add: nextDelivery_def retire due selectDelivery_def oldestUnsettled_def values'
        del: validateActionClaimRequest_Inr)
qed

lemma sample_reachable:
  "journal_reachable const_hash None (sample_journal policy)" "journal_reachable const_hash None (sample_journal2 policy)"
proof -
  let ?ensure = "(None, OpEnsure (sample_intent policy) t0)" and ?next = "(None, OpNext sample_request)"
  have env: "call_env const_hash None (None, op) = sample_env" for op by (simp add: call_env_def sample_env_def)
  have g: "journal_guard ?ensure empty_journal" by (simp add: journal_guard_def fresh_id_def empty_journal_def)
  have e: "journal_exec const_hash None ?ensure empty_journal = sample_journal policy"
    by (simp add: journal_exec_def env sample_ensure)
  have g2: "journal_guard ?next (sample_journal policy)" by (simp add: journal_guard_def)
  have n: "journal_exec const_hash None ?next (sample_journal policy) = sample_journal2 policy"
    by (simp add: journal_exec_def env sample_next)
  show "journal_reachable const_hash None (sample_journal policy)"
    unfolding journal_reachable_def by (rule exI [of _ "[?ensure]"]) (simp add: g e)
  show "journal_reachable const_hash None (sample_journal2 policy)"
    unfolding journal_reachable_def by (rule exI [of _ "[?ensure, ?next]"]) (simp add: g g2 e n)
qed

section \<open>Properties\<close>

text \<open>C1: whatever sequence of journal calls runs (admissions, deliveries, receipts, reconciliations,
  settlements, purges, with any answers of the run authority), two different actions of a session that
  are claimed or uncertain at the same time never share a conflict key.\<close>

theorem conflicting_actions_exclude:
  assumes "journal_reachable h limits s"
    and "r \<in> set (js_values (records s))" and "is_unsettled r"
    and "r' \<in> set (js_values (records s))" and "is_unsettled r'"
    and "sessionId r = sessionId r'" and "key \<in> set (conflictKeys r)" and "key \<in> set (conflictKeys r')"
  shows "r = r'"
  using unsettled_exclusive [OF reachable_inv [OF assms(1)]] assms(2-8) by blast

theorem conflicting_actions_exclude_witness:
  "\<exists>r \<in> set (js_values (records (sample_journal2 Safe))). is_unsettled r \<and> r = sample_claimed Safe"
proof -
  have "sample_claimed Safe \<in> set (js_values (records (sample_journal2 Safe)))"
    by (simp add: sample_journal2_def js_values_def)
  moreover have "is_unsettled (sample_claimed Safe)" by (simp add: is_unsettled_def sample_claimed_def)
  moreover have "js ''door'' \<in> set (conflictKeys (sample_claimed Safe))" by (simp add: sample_claimed_def sample_defs)
  ultimately show ?thesis
    using conflicting_actions_exclude [OF sample_reachable(2), of "sample_claimed Safe" Safe "sample_claimed Safe" "js ''door''"]
    by blast
qed

text \<open>C32: after any sequence of journal calls every stored record is filed under its own key, passes
  \<open>assertActionRecord\<close>, also after receipts and reconciliations, where the code does not check it
  again, and an action with policy \<open>never\<close> has been dispatched at most once.\<close>

theorem journal_records_admissible:
  assumes "journal_reachable h limits s" and "js_get (records s) k = Some r"
  shows "k = recordKey r (operationId r) \<and> assertActionRecord h r limits = Inr () \<and>
    (replayPolicy r = Never \<longrightarrow> attempt r \<in> {js ''0'', js ''1''})"
proof -
  from reachable_inv [OF assms(1)] assms(2) have k: "k = recordKey r (operationId r)" and a: "admitted h limits r"
    using filedD by (metis journal_inv_def)+
  from a obtain r0 n where run: "action_run r0 n r" by (auto simp: admitted_def)
  have "attempt r = to_decimal n" using run_invariant [OF run] by blast
  moreover have "n \<le> 1" if "replayPolicy r = Never" using run_never [OF run that] by blast
  ultimately show ?thesis using k a by (auto simp: admitted_def to_decimal_0 to_decimal_1 le_Suc_eq)
qed

theorem journal_records_admissible_witness:
  "assertActionRecord const_hash (sample_claimed Never) None = Inr () \<and> attempt (sample_claimed Never) \<in> {js ''0'', js ''1''}"
  using journal_records_admissible [OF sample_reachable(2), of Never sample_key "sample_claimed Never"]
  by (simp add: sample_journal2_def js_get_def sample_claimed_def sample_defs)

text \<open>C2: a delivery dispatches an action only to the claimant of the request and only when no other action
  of the stream (and run, when the request names one) is claimed or uncertain, except \<open>safe\<close> actions
  whose claim has expired and whose turn has not come.\<close>

theorem dispatch_passes_no_unsettled:
  assumes "journal_reachable (env_hash env) (goalProjectionLimits env) s"
    and "nextDelivery env q s = (s', Inr sel)" and "delivery sel = Some (Dispatch, r)"
  shows "stored s' r \<and> status r = Claimed \<and> same_stream r q \<and> matches_run r (req_runId q) \<and>
    (\<exists>c. claim r = Some c \<and> claim_token c = req_claimToken q \<and> claim_claimantId c = req_claimantId q \<and>
       claim_expiresAt c = req_expiresAt q) \<and>
    (\<forall>r' \<in> set (js_values (records s')). same_stream r' q \<longrightarrow> matches_run r' (req_runId q) \<longrightarrow> is_unsettled r' \<longrightarrow>
       r' = r \<or> (is_due q r' \<and> replayPolicy r' = Safe))"
proof -
  note inv = reachable_inv [OF assms(1)]
  obtain s1 s2 rep chg p where "validateActionClaimRequest q = Inr ()" and s1: "fst (retireClosedPending env q s) = s1"
    and s2: "expireDueClaims env q s1 = (s2, Inr (rep, chg))" and "oldestUnsettled q (req_runId q) rep s2 = None"
    and p: "p \<in> set (js_values (records s2))" "claims env q rep s2 p r s'"
    by (rule nextDelivery_dispatch [OF assms(2,3)])
  have j1: "journal_inv (env_hash env) (goalProjectionLimits env) s1"
    using retire_closed_inv [OF inv visiting_values [OF inv], where q = q and n = 0] s1
    by (auto simp: retireClosedPending_def split: prod.splits sum.splits)
  then have "journal_inv (env_hash env) (goalProjectionLimits env) (fst (expire_due env q (due_claims q s1) [] False s1))"
    using visiting_due by (intro expire_due_inv)
  with s2 have "journal_inv (env_hash env) (goalProjectionLimits env) s2" by (simp add: expireDueClaims_def)
  from values_stored [OF this p(1)] claims_claimed [OF p(2)]
  have cl: "status r = Claimed" "stored s' r" "same_intent p r"
    "\<exists>c. claim r = Some c \<and> claim_token c = req_claimToken q \<and> claim_claimantId c = req_claimantId q \<and>
       claim_expiresAt c = req_expiresAt q" by blast+
  have "same_stream p q" "matches_run p (req_runId q)" using p(2) by (auto simp: claims_def)
  with cl(3) have "same_stream r q" "matches_run r (req_runId q)"
    using same_intentD(1,2,4) [OF cl(3)] by (simp_all add: same_stream_def matches_run_def split: option.splits)
  then show ?thesis using cl dispatch_alone [OF inv assms(2,3)] by blast
qed

theorem dispatch_passes_no_unsettled_witness:
  "stored (sample_journal2 Never) (sample_claimed Never) \<and> same_stream (sample_claimed Never) sample_request"
proof -
  have "env_hash sample_env = const_hash" "goalProjectionLimits sample_env = None" by (simp_all add: sample_env_def)
  then show ?thesis
    using dispatch_passes_no_unsettled [of sample_env "sample_journal Never", OF _ sample_next]
      sample_reachable(1) [of Never] by simp
qed

text \<open>The loop that keeps a sorted list of at most \<open>candidateLimit\<close> due claims, dropping the last on
  every overflow, yields the first \<open>candidateLimit\<close> of all due claims in order of expiry, admission
  order between equal expiries.\<close>

theorem due_claims_are_earliest:
  assumes "validateActionClaimRequest q = Inr ()"
  shows "due_claims q s = take (nat (candidateLimit q)) (sort_key expiry_of (filter (is_due q) (js_values (records s))))"
  using assms by (intro due_claims_take) (simp add: is_positive_safe_integer_def)

theorem due_claims_are_earliest_witness:
  "due_claims sample_request2 (sample_journal2 Safe) = [sample_claimed Safe]"
proof -
  have "validateActionClaimRequest sample_request2 = Inr ()"
    by (simp add: sample_request2_def sample_defs stream_key_ok_def is_positive_safe_integer_def is_safe_integer_def
        max_safe_integer_def)
  from due_claims_are_earliest [OF this, of "sample_journal2 Safe"] show ?thesis
    by (simp add: sample_journal2_def js_values_def is_due_def sample_request2_def sample_claimed_def sample_defs
        same_stream_def matches_run_def)
qed

text \<open>A purge removes only settled, unprotected records of the stream that are older than the cutoff, at
  most \<open>limit\<close> of them and the oldest first, reports the ids of what it removed, and leaves every other
  record and the ownership of the conflict keys as they were.\<close>

theorem purge_removes_oldest_settled:
  assumes "journal_reachable h limits s" and "purgeTerminal q s = (s', Inr ids)"
  shows "(\<forall>k. js_get (records s') k = js_get (records s) k \<or>
       (js_get (records s') k = None \<and> (\<exists>r. js_get (records s) k = Some r \<and> is_purgeable q r \<and> operationId r \<in> set ids \<and>
          (\<forall>k' r'. js_get (records s') k' = Some r' \<longrightarrow> is_purgeable q r' \<longrightarrow> updatedAt r \<le> updatedAt r')))) \<and>
    int (length ids) \<le> purge_limit q \<and> js_get (conflicts s') = js_get (conflicts s)"
proof -
  note inv = reachable_inv [OF assms(1)]
  then have seq: "sequences_ok s" and ok: "js_ok (records s)" by (simp_all add: journal_inv_def sequences_ok_def)
  let ?es = "purge_eligible q s"
  note es = purge_eligible_entries [OF ok, of q]
  from purgeTerminal_Inr [OF inv assms(2)]
  have ids: "ids = map (\<lambda>(k, r, sq). operationId r) ?es" and s': "s' = fold purge_entry ?es s" by blast+
  have get: "js_get (records s') k = (if k \<in> fst ` set ?es then None else js_get (records s) k)" for k
    by (simp add: s' get_purge_fold)
  have "js_get (records s') k = None \<and> (\<exists>r. js_get (records s) k = Some r \<and> is_purgeable q r \<and> operationId r \<in> set ids \<and>
      (\<forall>k' r'. js_get (records s') k' = Some r' \<longrightarrow> is_purgeable q r' \<longrightarrow> updatedAt r \<le> updatedAt r'))"
    if "k \<in> fst ` set ?es" for k
  proof -
    from that obtain r sq where e: "(k, r, sq) \<in> set ?es" by force
    with es have "js_get (records s) k = Some r" "is_purgeable q r" by (auto simp: entry_in_def)
    moreover have "operationId r \<in> set ids" using e ids by force
    moreover have "updatedAt r \<le> updatedAt r'" if "js_get (records s') k' = Some r'" "is_purgeable q r'" for k' r'
      using that e seq by (intro purge_keeps_younger [where k = k' and k0 = k]) (auto simp: get split: if_splits)
    ultimately show ?thesis using that by (auto simp: get)
  qed
  moreover have "int (length ids) \<le> purge_limit q"
    using assms(2) by (auto simp: ids purge_eligible_def purgeTerminal_def commit_eq_Inr
        captureActionTerminalPurgeRequest_def rbind_eq_Inr assertPositiveSafeInteger_def)
  moreover have "js_get (conflicts s') = js_get (conflicts s)"
    unfolding s' using es by (intro purge_fold_conflicts [OF inv]) blast+
  ultimately show ?thesis by (metis get)
qed

definition sample_purge :: purge_request where
  "sample_purge = \<lparr>sessionId = js ''s'', actorId = js ''a'', beforeUpdatedAt = t2, purge_limit = 1, retainOperationIds = [],
     retainBudget = \<lparr>maxCount = 1, maxRetainedBytes = 1\<rparr>\<rparr>"

theorem purge_removes_oldest_settled_witness:
  "js_get (conflicts (fst (purgeTerminal sample_purge (sample_journal2 Safe)))) = js_get (conflicts (sample_journal2 Safe))"
proof -
  have "\<exists>s' ids. purgeTerminal sample_purge (sample_journal2 Safe) = (s', Inr ids)"
    by (simp add: purgeTerminal_def captureActionTerminalPurgeRequest_def sample_purge_def validateStream_def
        assertOpaqueIdentifier_def validateTimestamp_def assertCanonicalTimestamp_def assertPositiveSafeInteger_def
        is_safe_integer_def max_safe_integer_def captureRetainedIdentifiers_def Let_def)
  then obtain s' ids where p: "purgeTerminal sample_purge (sample_journal2 Safe) = (s', Inr ids)" by blast
  from purge_removes_oldest_settled [OF sample_reachable(2) p] p show ?thesis by simp
qed

text \<open>A listing of goal projections is the next page of the stream's pending projections in admission
  order, it has a cursor exactly when more remain, and listing from that cursor continues right after the
  page: nothing is repeated and nothing skipped.\<close>

theorem goal_projection_pages:
  assumes "journal_reachable h limits s" and "listGoalProjections env q s = Inr page"
  defines "a \<equiv> (case afterSequence q of None \<Rightarrow> 0 | Some t \<Rightarrow> of_decimal t)"
  defines "P \<equiv> pending_after s q a"
  shows "candidates page = map candidate (take (nat (list_limit q)) P) \<and>
    (nextAfterSequence page = None \<longleftrightarrow> int (length P) \<le> list_limit q) \<and>
    (\<forall>c. nextAfterSequence page = Some c \<longrightarrow> pending_after s q (of_decimal c) = drop (nat (list_limit q)) P)"
proof -
  let ?n = "nat (list_limit q)"
  from assms(2) obtain l after found where
    cap: "captureActionGoalProjectionListRequest q l = Inr q"
    and after: "parse_bigint (case afterSequence q of None \<Rightarrow> js ''0'' | Some t \<Rightarrow> t) = Inr after"
    and found: "scan_projections l q after s (records s) [] = Inr found"
    and page: "page = \<lparr>candidates = take ?n found,
      nextAfterSequence = (if list_limit q < int (length found) \<and> take ?n found \<noteq> [] then Some (cand_sequence (last (take ?n found))) else None)\<rparr>"
    by (auto simp: listGoalProjections_def rbind_eq_Inr Let_def captureActionGoalProjectionListRequest_def)
  from cap have pos: "0 < list_limit q"
    by (auto simp: captureActionGoalProjectionListRequest_def rbind_eq_Inr assertPositiveSafeInteger_def)
  have a: "after = a"
    using after cap by (cases "afterSequence q")
      (auto simp: a_def captureActionGoalProjectionListRequest_def rbind_eq_Inr parse_bigint_decimal)
  have found: "found = take (Suc ?n) (map candidate P)"
    using scan_projections_Inr [OF found] pos by (simp add: P_def pending_after_def sequenced_def a)
  have cands: "take ?n found = map candidate (take ?n P)" by (simp add: found take_map)
  show ?thesis
  proof (cases "int (length P) \<le> list_limit q")
    case True
    then have "\<not> list_limit q < int (length found)" using pos by (simp add: found)
    with True show ?thesis by (simp add: page cands)
  next
    case False
    then have n: "?n < length P" and "0 < ?n" using pos by simp_all
    then have more: "list_limit q < int (length found)" using pos by (simp add: found)
    have len: "length (take ?n P) = ?n" using n by simp
    then have "take ?n P \<noteq> []" using \<open>0 < ?n\<close> by (metis list.size(3) less_irrefl)
    from last_conv_nth [OF this] have last: "last (take ?n P) = P ! (?n - 1)"
      using \<open>0 < ?n\<close> by (simp only: len) (rule nth_take, simp)
    have "P \<noteq> []" using n by (metis list.size(3) not_less_zero)
    then have "take ?n found \<noteq> []" using \<open>0 < ?n\<close> by (simp add: cands)
    with more have next': "nextAfterSequence page = Some (to_decimal (snd (snd (P ! (?n - 1)))))"
      using n \<open>0 < ?n\<close> \<open>P \<noteq> []\<close> by (simp add: page cands last_map last candidate_def split_def)
    have "sequences_ok s" using reachable_inv [OF assms(1)] by (simp add: journal_inv_def)
    from pending_after_cursor [OF this, of "?n - 1" q a] n \<open>0 < ?n\<close>
    have "pending_after s q (snd (snd (P ! (?n - 1)))) = drop ?n P" by (simp add: P_def)
    with next' False show ?thesis by (simp add: page cands)
  qed
qed

definition sample_limits :: goal_projection_limits where
  "sample_limits = \<lparr>maxBindingBytes = 1000, maxPendingPerStream = 10, maxListBatchSize = 10, maxRecordBytes = 10000\<rparr>"

definition sample_list :: goal_list_request where
  "sample_list = \<lparr>sessionId = js ''s'', actorId = js ''a'', afterSequence = None, list_limit = 5\<rparr>"

theorem goal_projection_pages_witness:
  "\<exists>page. listGoalProjections (sample_env\<lparr>goalProjectionLimits := Some sample_limits\<rparr>) sample_list (sample_journal Safe) = Inr page \<and>
     candidates page = map candidate (take 5 (pending_after (sample_journal Safe) sample_list 0))"
proof -
  have "captureActionGoalProjectionListRequest sample_list sample_limits = Inr sample_list"
    by (simp add: captureActionGoalProjectionListRequest_def sample_list_def sample_limits_def assertOpaqueIdentifier_def
        assertPositiveSafeInteger_def is_safe_integer_def max_safe_integer_def)
  then have "\<exists>page. listGoalProjections (sample_env\<lparr>goalProjectionLimits := Some sample_limits\<rparr>) sample_list (sample_journal Safe) = Inr page"
    by (simp add: listGoalProjections_def requireGoalProjectionLimits_def sample_list_def sample_journal_def js_get_def
        sample_defs Let_def)
  then obtain page where p: "listGoalProjections (sample_env\<lparr>goalProjectionLimits := Some sample_limits\<rparr>) sample_list (sample_journal Safe) = Inr page"
    by blast
  from goal_projection_pages [OF sample_reachable(1) p] p show ?thesis by (simp add: sample_list_def)
qed

text \<open>Admission is idempotent: once an intent is admitted, admitting it again, at any later state of the
  journal that still has its record, returns the stored record and changes nothing, and an intent with
  the same operation id but another fingerprint is refused without a change.\<close>

theorem admission_is_idempotent:
  assumes "js_get (records s) (recordKey intent (operationId intent)) = Some r" and "is_timestamp now"
  shows "ensure_action env intent now s =
    (s, if intentFingerprint r = intentFingerprint intent then Inr r else Inl ActionIntentConflict)"
proof -
  have "validateTimestamp now = Inr ()" using assms(2) by simp
  then show ?thesis using assms(1) by (simp add: ensure_action_def Let_def del: validateTimestamp_Inr)
qed

theorem admission_is_idempotent_witness:
  "ensure_action sample_env (sample_intent Safe) t1 (sample_journal2 Safe) = (sample_journal2 Safe, Inr (sample_claimed Safe))"
proof -
  have "js_get (records (sample_journal2 Safe)) (recordKey (sample_intent Safe) (operationId (sample_intent Safe))) = Some (sample_claimed Safe)"
    by (simp add: sample_journal2_def js_get_def sample_intent_def sample_defs prepared_intent.defs recordKey_def sample_key_def)
  from admission_is_idempotent [OF this, of t1 sample_env] show ?thesis
    by (simp add: sample_intent_def sample_defs sample_claimed_def prepared_intent.defs)
qed

end
