(* ===== verification/Action_Approvals.thy ===== *)
theory Action_Approvals
  imports Action_Identity Machine
begin

text \<open>
  packages/actions/src/approvals.ts: action policies, content-bound approval requests, the
  approval record state machine with its optimistic revision, and the in-memory store. A value the
  code receives as \<open>unknown\<close> has its declared type here, so the \<open>typeof\<close> checks always pass.
\<close>

section \<open>Policies\<close>

datatype approval_mode = Disabled | ExplicitOnly | ConfirmOnce | AllowedInTask

record approval_policy =
  policyId :: js_string
  mode :: approval_mode

record invocation_scope =
  explicitlyRequestedActionNames :: "js_string list option"
  scope_taskId :: "js_string option"
  taskAllowedActionNames :: "js_string list option"

datatype denial_reason = DisabledReason | ExplicitRequestRequired | TaskAuthorizationRequired | ApprovalRequired

datatype policy_decision = Authorized "js_string option" | Denied denial_reason

definition listed :: "js_string \<Rightarrow> js_string list option \<Rightarrow> bool" where
  "listed n ns \<longleftrightarrow> (case ns of None \<Rightarrow> False | Some xs \<Rightarrow> n \<in> set xs)"

definition evaluateActionPolicy :: "approval_policy \<Rightarrow> js_string \<Rightarrow> invocation_scope \<Rightarrow> policy_decision result" where
  "evaluateActionPolicy policy name scope =
     rbind (checks [assertOpaqueIdentifier (policyId policy), assertOpaqueIdentifier name,
         when_some (scope_taskId scope) assertOpaqueIdentifier]) (\<lambda>_.
     Inr (case mode policy of
       Disabled \<Rightarrow> Denied DisabledReason
     | ExplicitOnly \<Rightarrow>
         if listed name (explicitlyRequestedActionNames scope) then Authorized (scope_taskId scope)
         else Denied ExplicitRequestRequired
     | AllowedInTask \<Rightarrow>
         if (case scope_taskId scope of None \<Rightarrow> False | Some t \<Rightarrow> t \<noteq> []) \<and> listed name (taskAllowedActionNames scope)
         then Authorized (scope_taskId scope) else Denied TaskAuthorizationRequired
     | ConfirmOnce \<Rightarrow> Denied ApprovalRequired))"

section \<open>Requests and records\<close>

record approval_request = stream_key +
  ar_coordinate :: run_coordinate
  approvalId :: js_string
  requestFingerprint :: js_string
  ar_policyId :: js_string
  ar_operationId :: js_string
  ar_intentFingerprint :: js_string
  ar_actionName :: js_string
  ar_expectedAuthority :: action_authority
  taskId :: "js_string option"
  presentation :: "json option"
  requestedAt :: js_string
  ar_expiresAt :: js_string

datatype approval_status = ApPending | ApApproved | ApRejected | ApConsumed | ApExpired

record approval_decision =
  approved :: bool
  reviewerId :: js_string
  decidedAt :: js_string
  reason :: "js_string option"

record approval_record =
  request :: approval_request
  ap_status :: approval_status
  ap_revision :: js_string
  ap_updatedAt :: js_string
  decision :: "approval_decision option"
  consumedAt :: "js_string option"

record decision_input = stream_key +
  di_approvalId :: js_string
  di_expectedRevision :: js_string
  di_requestFingerprint :: js_string
  di_approve :: bool
  di_reviewerId :: js_string
  di_reason :: "js_string option"
  di_decidedAt :: js_string

record consume_input = stream_key +
  ci_coordinate :: run_coordinate
  ci_approvalId :: js_string
  ci_expectedRevision :: js_string
  ci_operationId :: js_string
  ci_intentFingerprint :: js_string
  currentAuthority :: action_authority
  ci_consumedAt :: js_string

text \<open>\<open>aborted\<close>: the error the input's abort signal throws, if it is aborted.\<close>

record expire_input = stream_key +
  ei_approvalId :: js_string
  ei_expectedRevision :: js_string
  expiredAt :: js_string
  aborted :: "js_error option"

record approval_list_request = stream_key +
  al_runId :: "js_string option"
  al_limit :: int

record approval_purge_request = stream_key +
  pr_beforeUpdatedAt :: js_string
  pr_limit :: int
  retainApprovalIds :: "js_string list"
  pr_retainBudget :: retention_budget

section \<open>Fingerprints\<close>

definition approval_fingerprint_json :: "'a approval_request_scheme \<Rightarrow> json" where
  "approval_fingerprint_json q = JObj [(js ''protocolVersion'', JStr (js ''3'')),
     (js ''coordinate'', coordinate_json (ar_coordinate q)), (js ''policyId'', JStr (ar_policyId q)),
     (js ''operationId'', JStr (ar_operationId q)), (js ''intentFingerprint'', JStr (ar_intentFingerprint q)),
     (js ''actionName'', JStr (ar_actionName q)), (js ''expectedAuthority'', authority_json (ar_expectedAuthority q)),
     (js ''taskId'', opt_or_null JStr (taskId q)), (js ''presentationPresent'', JBool (presentation q \<noteq> None)),
     (js ''presentation'', opt_or_null id (presentation q))]"

definition fingerprintApprovalRequest :: "(js_string \<Rightarrow> js_string) \<Rightarrow> 'a approval_request_scheme \<Rightarrow> js_string result" where
  "fingerprintApprovalRequest h q = rbind (canonicalizeJsonValue (of_json (approval_fingerprint_json q))) (\<lambda>text. Inr (h text))"

definition approval_id_json :: "js_string \<Rightarrow> js_string \<Rightarrow> json" where
  "approval_id_json opId print = JObj [(js ''protocolVersion'', JStr (js ''1'')), (js ''operationId'', JStr opId),
     (js ''requestFingerprint'', JStr print)]"

definition approvalIdOf :: "(js_string \<Rightarrow> js_string) \<Rightarrow> js_string \<Rightarrow> js_string \<Rightarrow> js_string result" where
  "approvalIdOf h opId print =
     rbind (canonicalizeJsonValue (of_json (approval_id_json opId print))) (\<lambda>text. Inr (js ''apr_'' @ h text))"

section \<open>Validation\<close>

definition validateApprovalStream :: "'a stream_key_scheme \<Rightarrow> unit result" where
  "validateApprovalStream k = checks [assertOpaqueIdentifier (sessionId k), assertOpaqueIdentifier (actorId k)]"

definition assertApprovalId :: "js_string \<Rightarrow> unit result" where
  "assertApprovalId s = ensure (is_prefixed_digest ''apr_'' s) TypeErr"

definition stream_of :: "'a stream_key_scheme \<Rightarrow> stream_key" where
  "stream_of k = \<lparr>sessionId = sessionId k, actorId = actorId k\<rparr>"

definition assertActionApprovalRequest :: "(js_string \<Rightarrow> js_string) \<Rightarrow> approval_request \<Rightarrow> unit result" where
  "assertActionApprovalRequest h q =
     checks [validateApprovalStream q, assertEventStreamCoordinate (stream_of q) (ar_coordinate q),
       assertApprovalId (approvalId q), ensure (is_sha256 (requestFingerprint q)) TypeErr,
       check_all assertOpaqueIdentifier [ar_policyId q, ar_operationId q, ar_actionName q],
       ensure (is_sha256 (ar_intentFingerprint q)) TypeErr, when_some (taskId q) assertOpaqueIdentifier,
       when_some (presentation q) (\<lambda>j. discard (canonicalizeJsonValue (of_json j))),
       validateAuthority (ar_expectedAuthority q), validateTimestamp (requestedAt q), validateTimestamp (ar_expiresAt q),
       ensure (requestedAt q < ar_expiresAt q) TypeErr,
       rbind (fingerprintApprovalRequest h q) (\<lambda>print. ensure (print = requestFingerprint q) TypeErr),
       rbind (approvalIdOf h (ar_operationId q) (requestFingerprint q)) (\<lambda>i. ensure (i = approvalId q) TypeErr)]"

definition assert_decision :: "approval_record \<Rightarrow> approval_decision \<Rightarrow> unit result" where
  "assert_decision r d =
     checks [assertOpaqueIdentifier (reviewerId d), validateTimestamp (decidedAt d),
       ensure (\<not> (decidedAt d < requestedAt (request r) \<or> ar_expiresAt (request r) \<le> decidedAt d)) TypeErr]"

definition decided_as :: "bool \<Rightarrow> approval_record \<Rightarrow> bool" where
  "decided_as a r \<longleftrightarrow> (case decision r of None \<Rightarrow> False | Some d \<Rightarrow> approved d = a)"

definition assert_consumption :: "approval_record \<Rightarrow> js_string \<Rightarrow> unit result" where
  "assert_consumption r at =
     checks [validateTimestamp at,
       ensure (case decision r of None \<Rightarrow> False
         | Some d \<Rightarrow> \<not> (at < decidedAt d \<or> ar_expiresAt (request r) \<le> at \<or> ap_updatedAt r \<noteq> at)) TypeErr]"

definition assertActionApprovalRecord :: "(js_string \<Rightarrow> js_string) \<Rightarrow> approval_record \<Rightarrow> unit result" where
  "assertActionApprovalRecord h r =
     checks [assertActionApprovalRequest h (request r), ensure (is_positive_decimal (ap_revision r)) TypeErr,
       validateTimestamp (ap_updatedAt r), when_some (decision r) (assert_decision r),
       ensure (\<not> (ap_status r = ApPending \<and> decision r \<noteq> None)) TypeErr,
       ensure (\<not> (ap_status r \<in> {ApApproved, ApRejected, ApConsumed} \<and> decision r = None)) TypeErr,
       ensure (\<not> (ap_status r = ApApproved \<and> \<not> decided_as True r)) TypeErr,
       ensure (\<not> (ap_status r = ApRejected \<and> \<not> decided_as False r)) TypeErr,
       ensure (\<not> (ap_status r \<in> {ApApproved, ApRejected} \<and> Some (ap_updatedAt r) \<noteq> map_option decidedAt (decision r))) TypeErr,
       ensure (\<not> (ap_status r = ApConsumed \<and> \<not> decided_as True r)) TypeErr,
       ensure (\<not> (ap_status r = ApExpired \<and> ap_updatedAt r \<noteq> ar_expiresAt (request r))) TypeErr,
       ensure ((ap_status r = ApConsumed) = (consumedAt r \<noteq> None)) TypeErr,
       when_some (consumedAt r) (assert_consumption r)]"

definition assertDecisionInput :: "decision_input \<Rightarrow> unit result" where
  "assertDecisionInput i =
     checks [validateApprovalStream i, assertApprovalId (di_approvalId i), discard (parseEventRevision (di_expectedRevision i)),
       ensure (is_sha256 (di_requestFingerprint i)) TypeErr, assertOpaqueIdentifier (di_reviewerId i),
       validateTimestamp (di_decidedAt i)]"

definition assertConsumeInput :: "consume_input \<Rightarrow> unit result" where
  "assertConsumeInput i =
     checks [validateApprovalStream i, assertEventStreamCoordinate (stream_of i) (ci_coordinate i),
       assertApprovalId (ci_approvalId i), discard (parseEventRevision (ci_expectedRevision i)),
       assertOpaqueIdentifier (ci_operationId i), ensure (is_sha256 (ci_intentFingerprint i)) TypeErr,
       validateAuthority (currentAuthority i), validateTimestamp (ci_consumedAt i)]"

definition assertExpireInput :: "expire_input \<Rightarrow> unit result" where
  "assertExpireInput i =
     checks [validateApprovalStream i, assertApprovalId (ei_approvalId i), discard (parseEventRevision (ei_expectedRevision i)),
       validateTimestamp (expiredAt i)]"

section \<open>Transitions\<close>

definition advanceApproval ::
  "approval_record \<Rightarrow> approval_status \<Rightarrow> js_string \<Rightarrow> approval_decision option \<Rightarrow> js_string option \<Rightarrow> approval_record result" where
  "advanceApproval r st at d c =
     rbind (bigint_succ (ap_revision r)) (\<lambda>rev.
     Inr (r\<lparr>decision := (case d of None \<Rightarrow> decision r | Some x \<Rightarrow> Some x),
            consumedAt := (case c of None \<Rightarrow> consumedAt r | Some x \<Rightarrow> Some x),
            ap_status := st, ap_revision := rev, ap_updatedAt := at\<rparr>))"

definition decideActionApprovalRecord :: "(js_string \<Rightarrow> js_string) \<Rightarrow> approval_record \<Rightarrow> decision_input \<Rightarrow> approval_record result" where
  "decideActionApprovalRecord h r i =
     rbind (checks [assertActionApprovalRecord h r, assertDecisionInput i,
       ensure (ap_status r = ApPending \<and> ap_revision r = di_expectedRevision i) ActionApprovalConflict,
       ensure (requestFingerprint (request r) = di_requestFingerprint i) ActionApprovalConflict,
       ensure (\<not> di_decidedAt i < requestedAt (request r)) ActionApprovalConflict]) (\<lambda>_.
     if ar_expiresAt (request r) \<le> di_decidedAt i
     then advanceApproval r ApExpired (ar_expiresAt (request r)) None None
     else advanceApproval r (if di_approve i then ApApproved else ApRejected) (di_decidedAt i)
       (Some \<lparr>approved = di_approve i, reviewerId = di_reviewerId i, decidedAt = di_decidedAt i, reason = di_reason i\<rparr>) None)"

definition consumeActionApprovalRecord :: "(js_string \<Rightarrow> js_string) \<Rightarrow> approval_record \<Rightarrow> consume_input \<Rightarrow> approval_record result" where
  "consumeActionApprovalRecord h r i =
     rbind (checks [assertActionApprovalRecord h r, assertConsumeInput i,
       ensure (ap_status r = ApApproved \<and> ap_revision r = ci_expectedRevision i) ActionApprovalConflict]) (\<lambda>_.
     rbind (canonicalizeJsonValue (of_json (coordinate_json (ar_coordinate (request r))))) (\<lambda>c1.
     rbind (canonicalizeJsonValue (of_json (coordinate_json (ci_coordinate i)))) (\<lambda>c2.
     rbind (canonicalizeJsonValue (of_json (authority_json (ar_expectedAuthority (request r))))) (\<lambda>a1.
     rbind (canonicalizeJsonValue (of_json (authority_json (currentAuthority i)))) (\<lambda>a2.
     rbind (ensure (\<not> (c1 \<noteq> c2 \<or> ar_operationId (request r) \<noteq> ci_operationId i \<or>
         ar_intentFingerprint (request r) \<noteq> ci_intentFingerprint i \<or> a1 \<noteq> a2)) ActionApprovalConflict) (\<lambda>_.
     if ar_expiresAt (request r) \<le> ci_consumedAt i
     then advanceApproval r ApExpired (ar_expiresAt (request r)) None None
     else advanceApproval r ApConsumed (ci_consumedAt i) None (Some (ci_consumedAt i))))))))"

definition expireActionApprovalRecord :: "(js_string \<Rightarrow> js_string) \<Rightarrow> approval_record \<Rightarrow> expire_input \<Rightarrow> approval_record result" where
  "expireActionApprovalRecord h r i =
     rbind (checks [assertActionApprovalRecord h r, assertExpireInput i,
       ensure (\<not> (ap_status r \<noteq> ApPending \<or> ap_revision r \<noteq> ei_expectedRevision i \<or>
         expiredAt i < ar_expiresAt (request r))) ActionApprovalConflict]) (\<lambda>_.
     advanceApproval r ApExpired (ar_expiresAt (request r)) None None)"

section \<open>The in-memory store\<close>

type_synonym approval_store = "(js_string, approval_record) js_map"

definition approvalKey :: "'a stream_key_scheme \<Rightarrow> js_string \<Rightarrow> js_string" where
  "approvalKey k i = string_tuple_key [sessionId k, actorId k, i]"

definition ensure_approval ::
  "(js_string \<Rightarrow> js_string) \<Rightarrow> approval_request \<Rightarrow> approval_store \<Rightarrow> approval_store \<times> approval_record result" where
  "ensure_approval h q s =
     commit s (assertActionApprovalRequest h q) (\<lambda>_.
     let key = approvalKey q (approvalId q) in
     case js_get s key of
       Some existing \<Rightarrow>
         (s, if requestFingerprint (request existing) \<noteq> requestFingerprint q then Inl ActionApprovalConflict else Inr existing)
     | None \<Rightarrow>
         let r = \<lparr>request = q, ap_status = ApPending, ap_revision = js ''1'', ap_updatedAt = requestedAt q,
                  decision = None, consumedAt = None\<rparr> in
         (js_set key r s, Inr r))"

definition get_approval :: "stream_key \<Rightarrow> js_string \<Rightarrow> approval_store \<Rightarrow> approval_record option result" where
  "get_approval k i s =
     rbind (checks [validateApprovalStream k, assertApprovalId i]) (\<lambda>_. Inr (js_get s (approvalKey k i)))"

definition listPending :: "approval_list_request \<Rightarrow> js_string \<Rightarrow> approval_store \<Rightarrow> approval_record list result" where
  "listPending q now s =
     rbind (checks [validateApprovalStream q, when_some (al_runId q) assertOpaqueIdentifier,
         assertPositiveSafeInteger (al_limit q), validateTimestamp now]) (\<lambda>_.
     Inr (take (nat (al_limit q)) (filter (\<lambda>r. same_stream (request r) q \<and>
         (case al_runId q of None \<Rightarrow> True | Some i \<Rightarrow> runId (ar_coordinate (request r)) = i) \<and>
         ap_status r = ApPending \<and> now < ar_expiresAt (request r)) (js_values s))))"

text \<open>Look up, run a record transition, write the result back.\<close>

definition update_approval ::
  "'a stream_key_scheme \<Rightarrow> js_string \<Rightarrow> (approval_record \<Rightarrow> approval_record result) \<Rightarrow> approval_store \<Rightarrow>
   approval_store \<times> approval_record result" where
  "update_approval k i f s =
     (let key = approvalKey k i in
      case js_get s key of
        None \<Rightarrow> (s, Inl ActionApprovalNotFound)
      | Some current \<Rightarrow> commit s (f current) (\<lambda>r. (js_set key r s, Inr r)))"

definition decide_approval ::
  "(js_string \<Rightarrow> js_string) \<Rightarrow> decision_input \<Rightarrow> approval_store \<Rightarrow> approval_store \<times> approval_record result" where
  "decide_approval h i s = update_approval i (di_approvalId i) (\<lambda>r. decideActionApprovalRecord h r i) s"

definition consume_approval ::
  "(js_string \<Rightarrow> js_string) \<Rightarrow> consume_input \<Rightarrow> approval_store \<Rightarrow> approval_store \<times> approval_record result" where
  "consume_approval h i s = update_approval i (ci_approvalId i) (\<lambda>r. consumeActionApprovalRecord h r i) s"

definition expire_approval ::
  "(js_string \<Rightarrow> js_string) \<Rightarrow> expire_input \<Rightarrow> approval_store \<Rightarrow> approval_store \<times> approval_record result" where
  "expire_approval h i s =
     (case aborted i of
        Some e \<Rightarrow> (s, Inl e)
      | None \<Rightarrow> update_approval i (ei_approvalId i) (\<lambda>r. expireActionApprovalRecord h r i) s)"

definition captureApprovalTerminalPurgeRequest :: "approval_purge_request \<Rightarrow> approval_purge_request result" where
  "captureApprovalTerminalPurgeRequest q =
     rbind (checks [validateApprovalStream q, validateTimestamp (pr_beforeUpdatedAt q), assertPositiveSafeInteger (pr_limit q)]) (\<lambda>_.
     rbind (captureRetainedIdentifiers (retainApprovalIds q) (pr_retainBudget q)) (\<lambda>ids.
     rbind (check_all assertApprovalId ids) (\<lambda>_. Inr (q\<lparr>retainApprovalIds := ids\<rparr>))))"

definition is_purgeable_approval :: "approval_purge_request \<Rightarrow> approval_record \<Rightarrow> bool" where
  "is_purgeable_approval q r \<longleftrightarrow> same_stream (request r) q \<and> approvalId (request r) \<notin> set (retainApprovalIds q) \<and>
     ap_status r \<in> {ApRejected, ApConsumed, ApExpired} \<and> ap_updatedAt r < pr_beforeUpdatedAt q"

text \<open>
  The candidates in order of update, store order between equal updates. \<open>localeCompare\<close> on canonical
  timestamps is the order of their digits.
\<close>

definition purge_candidates :: "approval_purge_request \<Rightarrow> approval_store \<Rightarrow> (js_string \<times> approval_record) list" where
  "purge_candidates q s =
     take (nat (pr_limit q)) (sort_key (\<lambda>(k, r). ap_updatedAt r) (filter (\<lambda>(k, r). is_purgeable_approval q r) s))"

definition purge_approvals ::
  "approval_purge_request \<Rightarrow> approval_store \<Rightarrow> approval_store \<times> js_string list result" where
  "purge_approvals q s =
     commit s (captureApprovalTerminalPurgeRequest q) (\<lambda>captured.
     let candidates = purge_candidates captured s in
     (fold (\<lambda>(k, r). js_delete k) candidates s, Inr (map (\<lambda>(k, r). approvalId (request r)) candidates)))"

end
