(* ===== verification/Approval_Facts.thy ===== *)
theory Approval_Facts
  imports Action_Approvals Action_Lifecycle
begin

text \<open>
  What the approval store guarantees: its records stay well formed, a revision is used once, a
  decided approval is spent at most once and only for the action it was requested for, and the
  fingerprint of a request determines its content.
\<close>

section \<open>Well-formed approvals\<close>

definition approval_request_ok :: "(js_string \<Rightarrow> js_string) \<Rightarrow> approval_request \<Rightarrow> bool" where
  "approval_request_ok h q \<longleftrightarrow> assertActionApprovalRequest h q = Inr ()"

definition decision_ok :: "approval_record \<Rightarrow> approval_decision \<Rightarrow> bool" where
  "decision_ok r d \<longleftrightarrow> is_opaque_identifier (reviewerId d) \<and> is_timestamp (decidedAt d) \<and>
     requestedAt (request r) \<le> decidedAt d \<and> decidedAt d < ar_expiresAt (request r)"

definition consumption_ok :: "approval_record \<Rightarrow> js_string \<Rightarrow> bool" where
  "consumption_ok r at \<longleftrightarrow> is_timestamp at \<and> at < ar_expiresAt (request r) \<and> ap_updatedAt r = at \<and>
     (\<exists>d. decision r = Some d \<and> decidedAt d \<le> at)"

text \<open>The shape of a record in each status.\<close>

definition status_ok :: "approval_record \<Rightarrow> bool" where
  "status_ok r \<longleftrightarrow> (case ap_status r of
     ApPending \<Rightarrow> decision r = None \<and> consumedAt r = None
   | ApApproved \<Rightarrow> (\<exists>d. decision r = Some d \<and> approved d \<and> ap_updatedAt r = decidedAt d) \<and> consumedAt r = None
   | ApRejected \<Rightarrow> (\<exists>d. decision r = Some d \<and> \<not> approved d \<and> ap_updatedAt r = decidedAt d) \<and> consumedAt r = None
   | ApConsumed \<Rightarrow> (\<exists>d. decision r = Some d \<and> approved d) \<and> (\<exists>c. consumedAt r = Some c)
   | ApExpired \<Rightarrow> ap_updatedAt r = ar_expiresAt (request r) \<and> consumedAt r = None)"

definition approval_ok :: "(js_string \<Rightarrow> js_string) \<Rightarrow> approval_record \<Rightarrow> bool" where
  "approval_ok h r \<longleftrightarrow> approval_request_ok h (request r) \<and> is_positive_decimal (ap_revision r) \<and>
     is_timestamp (ap_updatedAt r) \<and> opt_ok (decision_ok r) (decision r) \<and> status_ok r \<and>
     opt_ok (consumption_ok r) (consumedAt r)"

lemma assert_decision_Inr: "assert_decision r d = Inr u \<longleftrightarrow> decision_ok r d"
  by (auto simp: assert_decision_def decision_ok_def rbind_eq_Inr)

lemma assert_consumption_Inr: "assert_consumption r c = Inr u \<longleftrightarrow> consumption_ok r c"
  by (auto simp: assert_consumption_def consumption_ok_def rbind_eq_Inr split: option.splits)

lemma assertActionApprovalRecord_iff: "assertActionApprovalRecord h r = Inr u \<longleftrightarrow> approval_ok h r"
  by (cases "ap_status r"; cases "decision r"; cases "consumedAt r")
    (auto simp: assertActionApprovalRecord_def approval_ok_def approval_request_ok_def status_ok_def rbind_eq_Inr
      assert_decision_Inr assert_consumption_Inr decided_as_def)

lemma request_ok_times:
  "approval_request_ok h q \<Longrightarrow> is_timestamp (ar_expiresAt q) \<and> requestedAt q < ar_expiresAt q"
  by (simp add: approval_request_ok_def assertActionApprovalRequest_def rbind_eq_Inr)

section \<open>What each transition does\<close>

definition advanced :: "approval_record \<Rightarrow> approval_status \<Rightarrow> js_string \<Rightarrow> approval_decision option \<Rightarrow> js_string option \<Rightarrow> approval_record" where
  "advanced r st at d c = r\<lparr>decision := (case d of None \<Rightarrow> decision r | Some x \<Rightarrow> Some x),
     consumedAt := (case c of None \<Rightarrow> consumedAt r | Some x \<Rightarrow> Some x), ap_status := st,
     ap_revision := to_decimal (Suc (of_decimal (ap_revision r))), ap_updatedAt := at\<rparr>"

lemma advanceApproval_eq:
  "is_positive_decimal (ap_revision r) \<Longrightarrow> advanceApproval r st at d c = Inr (advanced r st at d c)"
  by (simp add: advanceApproval_def advanced_def is_positive_decimal_is_decimal)

lemma decide_cases:
  assumes "decideActionApprovalRecord h r i = Inr r'"
  obtains "approval_ok h r" "ap_status r = ApPending" "ap_revision r = di_expectedRevision i"
      "requestFingerprint (request r) = di_requestFingerprint i" "ar_expiresAt (request r) \<le> di_decidedAt i"
      "r' = advanced r ApExpired (ar_expiresAt (request r)) None None"
  | d where "approval_ok h r" "ap_status r = ApPending" "ap_revision r = di_expectedRevision i"
      "requestFingerprint (request r) = di_requestFingerprint i" "decision_ok r d"
      "d = \<lparr>approved = di_approve i, reviewerId = di_reviewerId i, decidedAt = di_decidedAt i, reason = di_reason i\<rparr>"
      "r' = advanced r (if di_approve i then ApApproved else ApRejected) (di_decidedAt i) (Some d) None"
proof -
  from assms have ok: "approval_ok h r" and i: "assertDecisionInput i = Inr ()"
    and c: "ap_status r = ApPending" "ap_revision r = di_expectedRevision i"
      "requestFingerprint (request r) = di_requestFingerprint i" "requestedAt (request r) \<le> di_decidedAt i"
    by (auto simp: decideActionApprovalRecord_def rbind_eq_Inr assertActionApprovalRecord_iff)
  from ok have rev: "is_positive_decimal (ap_revision r)" by (simp add: approval_ok_def)
  show ?thesis
  proof (cases "ar_expiresAt (request r) \<le> di_decidedAt i")
    case True
    with assms have "r' = advanced r ApExpired (ar_expiresAt (request r)) None None"
      by (auto simp: decideActionApprovalRecord_def rbind_eq_Inr advanceApproval_eq [OF rev])
    with that(1) ok c True show ?thesis by blast
  next
    case False
    let ?d = "\<lparr>approved = di_approve i, reviewerId = di_reviewerId i, decidedAt = di_decidedAt i, reason = di_reason i\<rparr>"
    from False assms have "r' = advanced r (if di_approve i then ApApproved else ApRejected) (di_decidedAt i) (Some ?d) None"
      by (auto simp: decideActionApprovalRecord_def rbind_eq_Inr advanceApproval_eq [OF rev])
    moreover have "decision_ok r ?d" using False c i by (auto simp: decision_ok_def assertDecisionInput_def rbind_eq_Inr)
    ultimately show ?thesis using that(2) ok c by blast
  qed
qed

lemma consume_cases:
  assumes "consumeActionApprovalRecord h r i = Inr r'"
  obtains "approval_ok h r" "ap_status r = ApApproved" "ap_revision r = ci_expectedRevision i"
      "ar_expiresAt (request r) \<le> ci_consumedAt i"
      "r' = advanced r ApExpired (ar_expiresAt (request r)) None None"
  | "approval_ok h r" "ap_status r = ApApproved" "ap_revision r = ci_expectedRevision i"
      "ar_operationId (request r) = ci_operationId i" "ar_intentFingerprint (request r) = ci_intentFingerprint i"
      "canonical (coordinate_json (ar_coordinate (request r))) = canonical (coordinate_json (ci_coordinate i))"
      "canonical (authority_json (ar_expectedAuthority (request r))) = canonical (authority_json (currentAuthority i))"
      "is_timestamp (ci_consumedAt i)" "ci_consumedAt i < ar_expiresAt (request r)"
      "r' = advanced r ApConsumed (ci_consumedAt i) None (Some (ci_consumedAt i))"
proof -
  from assms have ok: "approval_ok h r" and i: "assertConsumeInput i = Inr ()"
    and c: "ap_status r = ApApproved" "ap_revision r = ci_expectedRevision i"
      "ar_operationId (request r) = ci_operationId i" "ar_intentFingerprint (request r) = ci_intentFingerprint i"
      "canonical (coordinate_json (ar_coordinate (request r))) = canonical (coordinate_json (ci_coordinate i))"
      "canonical (authority_json (ar_expectedAuthority (request r))) = canonical (authority_json (currentAuthority i))"
    by (auto simp: consumeActionApprovalRecord_def rbind_eq_Inr assertActionApprovalRecord_iff)
  from ok have rev: "is_positive_decimal (ap_revision r)" by (simp add: approval_ok_def)
  from i have t: "is_timestamp (ci_consumedAt i)" by (auto simp: assertConsumeInput_def rbind_eq_Inr)
  show ?thesis
  proof (cases "ar_expiresAt (request r) \<le> ci_consumedAt i")
    case True
    with assms have "r' = advanced r ApExpired (ar_expiresAt (request r)) None None"
      by (auto simp: consumeActionApprovalRecord_def rbind_eq_Inr advanceApproval_eq [OF rev])
    with that(1) ok c True show ?thesis by blast
  next
    case False
    with assms have "r' = advanced r ApConsumed (ci_consumedAt i) None (Some (ci_consumedAt i))"
      by (auto simp: consumeActionApprovalRecord_def rbind_eq_Inr advanceApproval_eq [OF rev])
    with that(2) ok c t False show ?thesis by (simp only: not_le)
  qed
qed

lemma expire_cases:
  assumes "expireActionApprovalRecord h r i = Inr r'"
  shows "approval_ok h r \<and> ap_status r = ApPending \<and> ap_revision r = ei_expectedRevision i \<and>
    ar_expiresAt (request r) \<le> expiredAt i \<and> r' = advanced r ApExpired (ar_expiresAt (request r)) None None"
proof -
  from assms have ok: "approval_ok h r"
    by (auto simp: expireActionApprovalRecord_def rbind_eq_Inr assertActionApprovalRecord_iff)
  then have "is_positive_decimal (ap_revision r)" by (simp add: approval_ok_def)
  from assms ok advanceApproval_eq [OF this] show ?thesis
    by (auto simp: expireActionApprovalRecord_def rbind_eq_Inr)
qed

section \<open>The commands of a record\<close>

datatype approval_command = DecideBy decision_input | ConsumeBy consume_input | ExpireBy expire_input

fun command_revision :: "approval_command \<Rightarrow> js_string" where
  "command_revision (DecideBy i) = di_expectedRevision i"
| "command_revision (ConsumeBy i) = ci_expectedRevision i"
| "command_revision (ExpireBy i) = ei_expectedRevision i"

fun apply_command :: "(js_string \<Rightarrow> js_string) \<Rightarrow> approval_command \<Rightarrow> approval_record \<Rightarrow> approval_record result" where
  "apply_command h (DecideBy i) r = decideActionApprovalRecord h r i"
| "apply_command h (ConsumeBy i) r = consumeActionApprovalRecord h r i"
| "apply_command h (ExpireBy i) r = expireActionApprovalRecord h r i"

lemma advanced_simps [simp]:
  "request (advanced r st at d c) = request r" "ap_status (advanced r st at d c) = st"
  "ap_updatedAt (advanced r st at d c) = at" "ap_revision (advanced r st at d c) = to_decimal (Suc (of_decimal (ap_revision r)))"
  "decision (advanced r st at d c) = (case d of None \<Rightarrow> decision r | Some x \<Rightarrow> Some x)"
  "consumedAt (advanced r st at d c) = (case c of None \<Rightarrow> consumedAt r | Some x \<Rightarrow> Some x)"
  by (simp_all add: advanced_def)

text \<open>What \<open>assertActionApprovalRecord\<close> asks of a record beside the order of decision and consumption.\<close>

definition consumed_in_order :: "approval_record \<Rightarrow> bool" where
  "consumed_in_order r \<longleftrightarrow> (\<forall>d c. decision r = Some d \<longrightarrow> consumedAt r = Some c \<longrightarrow> decidedAt d \<le> c)"

definition consumption_core :: "approval_record \<Rightarrow> js_string \<Rightarrow> bool" where
  "consumption_core r at \<longleftrightarrow> is_timestamp at \<and> at < ar_expiresAt (request r) \<and> ap_updatedAt r = at"

definition approval_core :: "(js_string \<Rightarrow> js_string) \<Rightarrow> approval_record \<Rightarrow> bool" where
  "approval_core h r \<longleftrightarrow> approval_request_ok h (request r) \<and> is_positive_decimal (ap_revision r) \<and>
     is_timestamp (ap_updatedAt r) \<and> opt_ok (decision_ok r) (decision r) \<and> status_ok r \<and>
     opt_ok (consumption_core r) (consumedAt r)"

lemma approval_ok_core: "approval_ok h r \<longleftrightarrow> approval_core h r \<and> consumed_in_order r"
  by (cases "ap_status r"; cases "decision r"; cases "consumedAt r")
    (auto simp: approval_ok_def approval_core_def consumption_ok_def consumption_core_def consumed_in_order_def status_ok_def)

lemma expired_core:
  assumes "approval_ok h r" "ap_status r \<in> {ApPending, ApApproved}"
  shows "approval_core h (advanced r ApExpired (ar_expiresAt (request r)) None None)"
  using assms request_ok_times [of h "request r"]
  by (cases "decision r") (auto simp: approval_ok_def approval_core_def status_ok_def decision_ok_def)

lemma decided_core:
  assumes "approval_ok h r" "ap_status r = ApPending" "decision_ok r d"
  shows "approval_core h (advanced r (if approved d then ApApproved else ApRejected) (decidedAt d) (Some d) None)"
  using assms by (auto simp: approval_ok_def approval_core_def status_ok_def decision_ok_def)

lemma consumed_core:
  assumes "approval_ok h r" "ap_status r = ApApproved" "is_timestamp c" "c < ar_expiresAt (request r)"
  shows "approval_core h (advanced r ApConsumed c None (Some c))"
  using assms by (auto simp: approval_ok_def approval_core_def status_ok_def decision_ok_def consumption_core_def)

text \<open>Every command that succeeds, in one rule.\<close>

lemma command_cases:
  assumes "apply_command h c r = Inr r'"
  obtains st at d k where "r' = advanced r st at d k" "approval_ok h r" "ap_revision r = command_revision c"
    "ap_status r \<in> {ApPending, ApApproved}" "approval_core h r'"
    "st = ApConsumed \<longrightarrow> (\<exists>i. c = ConsumeBy i) \<and> ap_status r = ApApproved"
    "st \<in> {ApApproved, ApRejected} \<longrightarrow> (\<exists>i. c = DecideBy i) \<and> ap_status r = ApPending"
    "st \<noteq> ApPending"
proof (cases c)
  case (DecideBy i)
  with assms have "decideActionApprovalRecord h r i = Inr r'" by simp
  then show thesis
  proof (cases rule: decide_cases)
    case 1
    then show thesis using that DecideBy expired_core [of h r] by simp
  next
    case (2 d)
    then show thesis using that [of _ _ "Some d" None] DecideBy decided_core [of h r d] by simp
  qed
next
  case (ConsumeBy i)
  with assms have "consumeActionApprovalRecord h r i = Inr r'" by simp
  then show thesis
  proof (cases rule: consume_cases)
    case 1
    then show thesis using that ConsumeBy expired_core [of h r] by simp
  next
    case 2
    then show thesis using that ConsumeBy consumed_core [of h r] by simp
  qed
next
  case (ExpireBy i)
  with assms expire_cases [of h r i r'] show thesis using that expired_core [of h r] by simp
qed

text \<open>A record is the state of a compare-and-set: the interface's laws hold of its commands.\<close>

definition command_update :: "(js_string \<Rightarrow> js_string) \<Rightarrow> approval_command \<Rightarrow> approval_record \<Rightarrow> approval_record option" where
  "command_update h c r = (case apply_command h c r of Inl e \<Rightarrow> None | Inr r' \<Rightarrow> Some r')"

lemma command_update_Some: "command_update h c r = Some r' \<longleftrightarrow> apply_command h c r = Inr r'"
  by (simp add: command_update_def split: sum.splits)

interpretation approval_cas: revision_cas "command_update h" "\<lambda>c. of_decimal (command_revision c)"
  "\<lambda>r. of_decimal (ap_revision r)" for h
  by unfold_locales (auto simp: command_update_Some elim: command_cases)

end
