(* ===== verification/Approval_Store.thy ===== *)
theory Approval_Store
  imports Approval_Facts
begin

text \<open>
  The in-memory approval store over sequences of calls: every stored record is filed under its own
  identity and passes the store's own record check up to one clause, a revision is used once, and
  a decided or spent approval stays as it is until it is purged.
\<close>

section \<open>Calls\<close>

datatype approval_op =
    EnsureApproval approval_request
  | CommandApproval approval_command
  | PurgeApprovals approval_purge_request

fun run_command ::
  "(js_string \<Rightarrow> js_string) \<Rightarrow> approval_command \<Rightarrow> approval_store \<Rightarrow> approval_store \<times> approval_record result" where
  "run_command h (DecideBy i) s = decide_approval h i s"
| "run_command h (ConsumeBy i) s = consume_approval h i s"
| "run_command h (ExpireBy i) s = expire_approval h i s"

fun command_key :: "approval_command \<Rightarrow> js_string" where
  "command_key (DecideBy i) = approvalKey i (di_approvalId i)"
| "command_key (ConsumeBy i) = approvalKey i (ci_approvalId i)"
| "command_key (ExpireBy i) = approvalKey i (ei_approvalId i)"

fun approval_exec :: "(js_string \<Rightarrow> js_string) \<Rightarrow> approval_op \<Rightarrow> approval_store \<Rightarrow> approval_store" where
  "approval_exec h (EnsureApproval q) s = fst (ensure_approval h q s)"
| "approval_exec h (CommandApproval c) s = fst (run_command h c s)"
| "approval_exec h (PurgeApprovals q) s = fst (purge_approvals q s)"

fun keeps_approvals :: "approval_op \<Rightarrow> bool" where
  "keeps_approvals (PurgeApprovals q) = False"
| "keeps_approvals _ = True"

lemma update_approval_cases:
  assumes "update_approval k i f s = (s', out)"
  obtains r r' where "js_get s (approvalKey k i) = Some r" "f r = Inr r'" "s' = js_set (approvalKey k i) r' s" "out = Inr r'"
  | e where "s' = s" "out = Inl e"
proof (cases "js_get s (approvalKey k i)")
  case (Some r)
  show thesis
  proof (cases "f r")
    case (Inl e)
    with Some assms show thesis by (intro that(2) [of e]) (simp_all add: update_approval_def)
  next
    case (Inr r')
    with Some assms show thesis by (intro that(1) [of r r']) (simp_all add: update_approval_def)
  qed
qed (use assms in \<open>intro that(2) [of ActionApprovalNotFound], simp_all add: update_approval_def\<close>)

lemma run_command_cases:
  assumes "run_command h c s = (s', out)"
  obtains r r' where "js_get s (command_key c) = Some r" "apply_command h c r = Inr r'"
      "s' = js_set (command_key c) r' s" "out = Inr r'"
  | e where "s' = s" "out = Inl e"
proof (cases c)
  case (DecideBy i)
  with assms have "update_approval i (di_approvalId i) (\<lambda>r. decideActionApprovalRecord h r i) s = (s', out)"
    by (simp add: decide_approval_def)
  then show thesis by (rule update_approval_cases) (use that DecideBy in simp_all)
next
  case (ConsumeBy i)
  with assms have "update_approval i (ci_approvalId i) (\<lambda>r. consumeActionApprovalRecord h r i) s = (s', out)"
    by (simp add: consume_approval_def)
  then show thesis by (rule update_approval_cases) (use that ConsumeBy in simp_all)
next
  case (ExpireBy i)
  show thesis
  proof (cases "aborted i")
    case (Some e)
    with assms ExpireBy show thesis by (intro that(2) [of e]) (simp_all add: expire_approval_def)
  next
    case None
    with assms ExpireBy have "update_approval i (ei_approvalId i) (\<lambda>r. expireActionApprovalRecord h r i) s = (s', out)"
      by (simp add: expire_approval_def)
    then show thesis by (rule update_approval_cases) (use that ExpireBy in simp_all)
  qed
qed

lemma command_fails:
  assumes "\<And>r r'. js_get s (command_key c) = Some r \<Longrightarrow> apply_command h c r \<noteq> Inr r'"
  shows "\<exists>e. run_command h c s = (s, Inl e)"
proof -
  obtain s' out where run: "run_command h c s = (s', out)" by fastforce
  then show ?thesis
  proof (cases rule: run_command_cases)
    case (2 e)
    with run show ?thesis by simp
  qed (use assms in blast)
qed

lemma command_succeeds:
  assumes "run_command h c s = (s', Inr r')"
  obtains r where "js_get s (command_key c) = Some r" "apply_command h c r = Inr r'" "js_get s' (command_key c) = Some r'"
  using assms
proof (cases rule: run_command_cases)
  case (1 r x)
  then show thesis using that [of r] by simp
qed simp

section \<open>The store invariant\<close>

definition approval_entry_ok :: "(js_string \<Rightarrow> js_string) \<Rightarrow> js_string \<Rightarrow> approval_record \<Rightarrow> bool" where
  "approval_entry_ok h k r \<longleftrightarrow> k = approvalKey (request r) (approvalId (request r)) \<and> approval_core h r"

definition approval_store_inv :: "(js_string \<Rightarrow> js_string) \<Rightarrow> approval_store \<Rightarrow> bool" where
  "approval_store_inv h s \<longleftrightarrow> js_ok s \<and> (\<forall>(k, r) \<in> set s. approval_entry_ok h k r)"

lemma inv_get: "approval_store_inv h s \<Longrightarrow> js_get s k = Some r \<Longrightarrow> approval_entry_ok h k r"
  using js_get_entry by (fastforce simp: approval_store_inv_def)

lemma inv_put: "approval_store_inv h s \<Longrightarrow> approval_entry_ok h k r \<Longrightarrow> approval_store_inv h (js_set k r s)"
  using jm.all_entries_put [of s "approval_entry_ok h" k r] by (simp add: approval_store_inv_def js_ok_set)

definition new_approval :: "approval_request \<Rightarrow> approval_record" where
  "new_approval q = \<lparr>request = q, ap_status = ApPending, ap_revision = js ''1'', ap_updatedAt = requestedAt q,
     decision = None, consumedAt = None\<rparr>"

lemma new_approval_core: "approval_request_ok h q \<Longrightarrow> approval_core h (new_approval q)"
  by (simp add: approval_core_def new_approval_def approval_request_ok_def assertActionApprovalRequest_def rbind_eq_Inr
      status_ok_def opt_ok_def)

lemma ensure_approval_cases:
  assumes "ensure_approval h q s = (s', out)"
  obtains "approval_request_ok h q" "js_get s (approvalKey q (approvalId q)) = None"
      "s' = js_set (approvalKey q (approvalId q)) (new_approval q) s" "out = Inr (new_approval q)"
  | r where "js_get s (approvalKey q (approvalId q)) = Some r" "requestFingerprint (request r) = requestFingerprint q"
      "s' = s" "out = Inr r"
  | e where "s' = s" "out = Inl e"
  using assms
  by (auto simp: ensure_approval_def Let_def commit_def approval_request_ok_def new_approval_def
      split: option.splits sum.splits if_splits)

lemma ensure_approval_inv: "approval_store_inv h s \<Longrightarrow> approval_store_inv h (fst (ensure_approval h q s))"
  by (rule ensure_approval_cases [OF prod.collapse [symmetric], where h = h and q = q and s = s])
    (auto intro!: inv_put simp: approval_entry_ok_def new_approval_core, simp_all add: new_approval_def)

lemma run_command_inv:
  assumes "approval_store_inv h s"
  shows "approval_store_inv h (fst (run_command h c s))"
proof -
  obtain s' out where run: "run_command h c s = (s', out)" by fastforce
  then show ?thesis
  proof (cases rule: run_command_cases)
    case (1 r r')
    from 1(2) have "approval_core h r'" "request r' = request r" by (auto elim: command_cases)
    with inv_get [OF assms 1(1)] have "approval_entry_ok h (command_key c) r'" by (simp add: approval_entry_ok_def)
    with inv_put [OF assms] run 1(3) show ?thesis by simp
  qed (use assms run in simp)
qed

lemma fold_delete_get:
  "js_get (fold (\<lambda>(k, r). js_delete k) xs s) k = (if k \<in> fst ` set xs then None else js_get s k)"
  by (induction xs arbitrary: s) (auto simp: js_get_delete split_def)

lemma fold_delete_ok: "js_ok s \<Longrightarrow> js_ok (fold (\<lambda>(k, r). js_delete k) xs s)"
  by (induction xs arbitrary: s) (auto simp: split_def)

lemma purge_approvals_inv: "approval_store_inv h s \<Longrightarrow> approval_store_inv h (fst (purge_approvals q s))"
proof (cases "captureApprovalTerminalPurgeRequest q")
  case (Inr captured)
  assume inv: "approval_store_inv h s"
  let ?s = "fold (\<lambda>(k, r). js_delete k) (purge_candidates captured s) s"
  have ok: "js_ok ?s" by (rule fold_delete_ok) (use inv in \<open>simp add: approval_store_inv_def\<close>)
  then have "\<forall>(k, r) \<in> set ?s. approval_entry_ok h k r"
    using inv_get [OF inv] by (auto simp: js_get_entry fold_delete_get split: if_splits)
  with ok Inr show ?thesis by (simp add: purge_approvals_def approval_store_inv_def Let_def)
qed (simp add: purge_approvals_def)

lemma approval_exec_inv: "approval_store_inv h s \<Longrightarrow> approval_store_inv h (approval_exec h op s)"
  by (cases op) (simp_all add: ensure_approval_inv run_command_inv purge_approvals_inv)

interpretation approvals: invariant_machine "approval_exec h" "\<lambda>op s. True" "approval_store_inv h" for h
  by unfold_locales (rule approval_exec_inv)

interpretation unpurged: invariant_machine "approval_exec h" "\<lambda>op s. keeps_approvals op" "approval_store_inv h" for h
  by unfold_locales (rule approval_exec_inv)

definition approvals_reachable :: "(js_string \<Rightarrow> js_string) \<Rightarrow> approval_store \<Rightarrow> bool" where
  "approvals_reachable h s \<longleftrightarrow> (\<exists>ops. s = run_ops (approval_exec h) ops [])"

lemma approvals_reachable_inv: "approvals_reachable h s \<Longrightarrow> approval_store_inv h s"
  using approvals.run_inv [of h "[]"]
  by (auto simp: approvals_reachable_def approval_store_inv_def guarded_True list_all_iff)

section \<open>Entries only move forward\<close>

definition closed_approval :: "approval_record \<Rightarrow> bool" where
  "closed_approval r \<longleftrightarrow> ap_status r \<in> {ApRejected, ApConsumed, ApExpired}"

definition approval_later :: "approval_record \<Rightarrow> approval_record \<Rightarrow> bool" where
  "approval_later r r' \<longleftrightarrow> request r' = request r \<and>
     (r' = r \<or> of_decimal (ap_revision r) < of_decimal (ap_revision r') \<and> \<not> closed_approval r)"

definition store_later :: "approval_store \<Rightarrow> approval_store \<Rightarrow> bool" where
  "store_later s s' \<longleftrightarrow> (\<forall>k r. js_get s k = Some r \<longrightarrow> (\<exists>r'. js_get s' k = Some r' \<and> approval_later r r'))"

lemma approval_later_trans: "approval_later a b \<Longrightarrow> approval_later b c \<Longrightarrow> approval_later a c"
  by (auto simp: approval_later_def)

lemma store_later_trans: "store_later a b \<Longrightarrow> store_later b c \<Longrightarrow> store_later a c"
  by (meson store_later_def approval_later_trans)

lemma store_later_refl: "store_later s s"
  by (simp add: store_later_def approval_later_def)

lemma store_later_put:
  "js_get s k = None \<or> (\<exists>r. js_get s k = Some r \<and> approval_later r r') \<Longrightarrow> store_later s (js_set k r' s)"
  by (auto simp: store_later_def js_get_set approval_later_def)

lemma command_later: "apply_command h c r = Inr r' \<Longrightarrow> approval_later r r'"
  using approval_cas.update_advances [of h c r r']
  by (auto simp: command_update_Some approval_later_def closed_approval_def elim: command_cases)

lemma approval_exec_later: "keeps_approvals op \<Longrightarrow> store_later s (approval_exec h op s)"
proof (cases op)
  case (EnsureApproval q)
  show ?thesis
    by (rule ensure_approval_cases [OF prod.collapse [symmetric], where h = h and q = q and s = s])
      (auto simp: EnsureApproval store_later_refl intro: store_later_put)
next
  case (CommandApproval c)
  show ?thesis
    by (rule run_command_cases [OF prod.collapse [symmetric], where h = h and c = c and s = s])
      (auto simp: CommandApproval store_later_refl intro!: store_later_put dest: command_later)
qed simp

lemma run_later:
  "approval_store_inv h s \<Longrightarrow> list_all keeps_approvals ops \<Longrightarrow> store_later s (run_ops (approval_exec h) ops s)"
  by (rule unpurged.run_related)
    (auto simp: guarded_True store_later_refl intro: store_later_trans approval_exec_later)

section \<open>What a request and its fingerprint determine\<close>

lemma canonical_coordinate: "canonical (coordinate_json c) = canonical (coordinate_json d) \<longleftrightarrow> c = d"
  using canonical_members [of "[(js ''sessionId'', JStr (sessionId c)), (js ''actorId'', JStr (actorId c)),
      (js ''runId'', JStr (runId c)), (js ''turn'', JStr (turn c))]" "[(js ''sessionId'', JStr (sessionId d)),
      (js ''actorId'', JStr (actorId d)), (js ''runId'', JStr (runId d)), (js ''turn'', JStr (turn d))]"]
  by (auto simp: coordinate_json_def)

lemma canonical_authority: "canonical (authority_json c) = canonical (authority_json d) \<longleftrightarrow> c = d"
  using canonical_members [of "[(js ''timelineId'', JStr (timelineId c)), (js ''generation'', JStr (generation c)),
      (js ''revision'', JStr (revision c))]" "[(js ''timelineId'', JStr (timelineId d)),
      (js ''generation'', JStr (generation d)), (js ''revision'', JStr (revision d))]"]
  by (auto simp: authority_json_def)

text \<open>The fields a fingerprint covers; the presentation counts up to the order of its members.\<close>

definition same_content :: "approval_request \<Rightarrow> approval_request \<Rightarrow> bool" where
  "same_content q q' \<longleftrightarrow> ar_coordinate q = ar_coordinate q' \<and> ar_policyId q = ar_policyId q' \<and>
     ar_operationId q = ar_operationId q' \<and> ar_intentFingerprint q = ar_intentFingerprint q' \<and>
     ar_actionName q = ar_actionName q' \<and> ar_expectedAuthority q = ar_expectedAuthority q' \<and> taskId q = taskId q' \<and>
     map_option canon_form (presentation q) = map_option canon_form (presentation q')"

lemma canon_coordinate: "canon_form (coordinate_json c) = canon_form (coordinate_json d) \<longleftrightarrow> c = d"
  using canonical_coordinate [of c d] canonical_eq_iff [of "coordinate_json c" "coordinate_json d"]
  by (simp add: coordinate_json_def)

lemma canon_authority: "canon_form (authority_json c) = canon_form (authority_json d) \<longleftrightarrow> c = d"
  using canonical_authority [of c d] canonical_eq_iff [of "authority_json c" "authority_json d"]
  by (simp add: authority_json_def)

lemma canon_optional:
  "((x = None) = (y = None)) \<and> canon_form (opt_or_null id x) = canon_form (opt_or_null id y) \<longleftrightarrow>
   map_option canon_form x = map_option canon_form y"
  by (cases x; cases y) (auto simp: opt_or_null_def)

lemma canon_optional_string: "canon_form (opt_or_null JStr x) = canon_form (opt_or_null JStr y) \<longleftrightarrow> x = y"
  by (cases x; cases y) (auto simp: opt_or_null_def)

lemma json_ok_optional: "opt_ok json_ok x \<Longrightarrow> json_ok (opt_or_null id x)"
  by (cases x) (auto simp: opt_or_null_def)

lemma json_ok_fingerprint:
  "opt_ok json_ok (presentation q) \<Longrightarrow> json_ok (approval_fingerprint_json q)"
  using json_ok_optional
  by (cases "taskId q") (auto simp: approval_fingerprint_json_def coordinate_json_def authority_json_def opt_or_null_def)

lemma canonical_fingerprint:
  fixes q q' :: approval_request
  assumes "opt_ok json_ok (presentation q)" and "opt_ok json_ok (presentation q')"
  shows "canonical (approval_fingerprint_json q) = canonical (approval_fingerprint_json q') \<longleftrightarrow> same_content q q'"
proof -
  have "canonical (approval_fingerprint_json q) = canonical (approval_fingerprint_json q') \<longleftrightarrow>
      list_all2 (\<lambda>x y. canon_form (snd x) = canon_form (snd y))
        (case approval_fingerprint_json q of JObj ms \<Rightarrow> ms) (case approval_fingerprint_json q' of JObj ms \<Rightarrow> ms)"
    using json_ok_fingerprint [OF assms(1)] json_ok_fingerprint [OF assms(2)]
    unfolding approval_fingerprint_json_def json.case by (intro canonical_members) (simp_all only: list.map fst_conv)
  also have "\<dots> \<longleftrightarrow> same_content q q'"
    using canon_optional [of "presentation q" "presentation q'"]
    by (auto simp: approval_fingerprint_json_def canon_coordinate canon_authority canon_optional_string same_content_def
        simp del: canon_form.simps(2))
  finally show ?thesis .
qed

section \<open>A concrete approval\<close>

definition sample_approval :: approval_request where
  "sample_approval = \<lparr>sessionId = js ''s'', actorId = js ''a'', ar_coordinate = sample_coordinate,
     approvalId = js ''apr_'' @ digest_a, requestFingerprint = digest_a, ar_policyId = js ''k'',
     ar_operationId = js ''k'', ar_intentFingerprint = digest_a, ar_actionName = js ''give'',
     ar_expectedAuthority = sample_authority, taskId = None, presentation = None, requestedAt = t0, ar_expiresAt = t3\<rparr>"

definition sample_decision :: "js_string \<Rightarrow> decision_input" where
  "sample_decision at = \<lparr>sessionId = js ''s'', actorId = js ''a'', di_approvalId = js ''apr_'' @ digest_a,
     di_expectedRevision = js ''1'', di_requestFingerprint = digest_a, di_approve = True, di_reviewerId = js ''c'',
     di_reason = None, di_decidedAt = at\<rparr>"

definition sample_consume :: "js_string \<Rightarrow> consume_input" where
  "sample_consume at = \<lparr>sessionId = js ''s'', actorId = js ''a'', ci_coordinate = sample_coordinate,
     ci_approvalId = js ''apr_'' @ digest_a, ci_expectedRevision = js ''2'', ci_operationId = js ''k'',
     ci_intentFingerprint = digest_a, currentAuthority = sample_authority, ci_consumedAt = at\<rparr>"

definition sample_approved :: "js_string \<Rightarrow> approval_record" where
  "sample_approved at = (new_approval sample_approval)\<lparr>decision := Some \<lparr>approved = True, reviewerId = js ''c'',
     decidedAt = at, reason = None\<rparr>, ap_status := ApApproved, ap_revision := js ''2'', ap_updatedAt := at\<rparr>"

definition sample_spent :: "js_string \<Rightarrow> js_string \<Rightarrow> approval_record" where
  "sample_spent at c = (sample_approved at)\<lparr>consumedAt := Some c, ap_status := ApConsumed, ap_revision := js ''3'', ap_updatedAt := c\<rparr>"

lemma sample_apr [simp]: "is_prefixed_digest ''apr_'' (js ''apr_'' @ digest_a)"
  by (simp add: is_prefixed_digest_def js_def)

lemma sample_request_ok [simp]: "approval_request_ok const_hash sample_approval"
  by (simp add: approval_request_ok_def assertActionApprovalRequest_def sample_approval_def validateApprovalStream_def
      assertEventStreamCoordinate_def stream_of_def sample_coordinate_def stream_key_ok_def run_coordinate_ok_def
      assertApprovalId_def validateAuthority_def sample_authority_def validateTimestamp_def
      fingerprintApprovalRequest_def approvalIdOf_def const_hash_def discard_def parseEventRevision_def
      assertOpaqueIdentifier_def assertCanonicalTimestamp_def)

lemma new_approval_fields [simp]:
  "request (new_approval q) = q" "ap_status (new_approval q) = ApPending" "ap_revision (new_approval q) = js ''1''"
  "decision (new_approval q) = None" "consumedAt (new_approval q) = None" "ap_updatedAt (new_approval q) = requestedAt q"
  by (simp_all add: new_approval_def)

lemma sample_approval_fields [simp]:
  "requestedAt sample_approval = t0" "ar_expiresAt sample_approval = t3" "requestFingerprint sample_approval = digest_a"
  "ar_coordinate sample_approval = sample_coordinate" "ar_operationId sample_approval = js ''k''"
  "ar_intentFingerprint sample_approval = digest_a" "ar_expectedAuthority sample_approval = sample_authority"
  "approvalId sample_approval = js ''apr_'' @ digest_a"
  by (simp_all add: sample_approval_def)

lemma sample_new_asserts: "assertActionApprovalRecord const_hash (new_approval sample_approval) = Inr ()"
  by (simp add: assertActionApprovalRecord_iff approval_ok_core new_approval_core consumed_in_order_def)

lemma sample_approved_fields [simp]:
  "request (sample_approved at) = sample_approval" "ap_status (sample_approved at) = ApApproved"
  "ap_revision (sample_approved at) = js ''2''" "ap_updatedAt (sample_approved at) = at" "consumedAt (sample_approved at) = None"
  "decision (sample_approved at) = Some \<lparr>approved = True, reviewerId = js ''c'', decidedAt = at, reason = None\<rparr>"
  by (simp_all add: sample_approved_def)

lemma sample_approved_asserts:
  "at \<in> {t1, t2} \<Longrightarrow> assertActionApprovalRecord const_hash (sample_approved at) = Inr ()"
  by (auto simp: assertActionApprovalRecord_iff approval_ok_def status_ok_def decision_ok_def)

lemma sample_spent_fields [simp]:
  "decision (sample_spent at c) = decision (sample_approved at)" "consumedAt (sample_spent at c) = Some c"
  "ap_status (sample_spent at c) = ApConsumed" "request (sample_spent at c) = sample_approval"
  by (simp_all add: sample_spent_def)

lemma sample_decision_fields [simp]:
  "sessionId (sample_decision at) = js ''s''" "actorId (sample_decision at) = js ''a''"
  "di_approvalId (sample_decision at) = js ''apr_'' @ digest_a" "di_expectedRevision (sample_decision at) = js ''1''"
  "di_requestFingerprint (sample_decision at) = digest_a" "di_approve (sample_decision at)"
  "di_reviewerId (sample_decision at) = js ''c''" "di_reason (sample_decision at) = None" "di_decidedAt (sample_decision at) = at"
  by (simp_all add: sample_decision_def)

lemma sample_decide:
  assumes "at \<in> {t1, t2}"
  shows "decideActionApprovalRecord const_hash (new_approval sample_approval) (sample_decision at) = Inr (sample_approved at)"
proof -
  have "is_timestamp at" "\<not> at < t0" "\<not> t3 \<le> at" using assms by auto
  then show ?thesis
    by (simp add: decideActionApprovalRecord_def sample_new_asserts assertDecisionInput_def validateApprovalStream_def
      assertApprovalId_def validateTimestamp_def discard_def parseEventRevision_def
      assertOpaqueIdentifier_def assertCanonicalTimestamp_def advanceApproval_def sample_approved_def)
qed

lemma sample_consumption:
  assumes "at \<in> {t1, t2}" and "c \<in> {t1, t2}"
  shows "consumeActionApprovalRecord const_hash (sample_approved at) (sample_consume c) = Inr (sample_spent at c)"
proof -
  have "\<not> t3 \<le> c" "is_timestamp c" using assms by auto
  then show ?thesis
    by (simp add: consumeActionApprovalRecord_def sample_approved_asserts [OF assms(1)] assertConsumeInput_def
        validateApprovalStream_def assertEventStreamCoordinate_def stream_of_def stream_key_ok_def run_coordinate_ok_def
        sample_coordinate_def assertApprovalId_def sample_consume_def validateAuthority_def sample_authority_def
        validateTimestamp_def discard_def parseEventRevision_def assertOpaqueIdentifier_def
        assertCanonicalTimestamp_def advanceApproval_def sample_spent_def)
qed

definition approval_key :: js_string where
  "approval_key = approvalKey sample_approval (approvalId sample_approval)"

lemma approval_keys [simp]:
  "approvalKey sample_approval (js ''apr_'' @ digest_a) = approval_key"
  "approvalKey (sample_decision at) (js ''apr_'' @ digest_a) = approval_key"
  "approvalKey (sample_consume at) (js ''apr_'' @ digest_a) = approval_key"
  by (simp_all add: approval_key_def approvalKey_def sample_approval_def sample_decision_def sample_consume_def)

lemma sample_runs:
  assumes "at \<in> {t1, t2}" "c \<in> {t1, t2}"
  shows "ensure_approval const_hash sample_approval [] = ([(approval_key, new_approval sample_approval)], Inr (new_approval sample_approval))"
    and "run_command const_hash (DecideBy (sample_decision at)) [(approval_key, new_approval sample_approval)] =
      ([(approval_key, sample_approved at)], Inr (sample_approved at))"
    and "run_command const_hash (ConsumeBy (sample_consume c)) [(approval_key, sample_approved at)] =
      ([(approval_key, sample_spent at c)], Inr (sample_spent at c))"
proof -
  have ids: "ci_approvalId (sample_consume c) = js ''apr_'' @ digest_a"
    by (simp add: sample_consume_def)
  show "ensure_approval const_hash sample_approval [] = ([(approval_key, new_approval sample_approval)], Inr (new_approval sample_approval))"
    using sample_request_ok by (simp add: approval_request_ok_def ensure_approval_def ids new_approval_def Let_def js_set_def)
  show "run_command const_hash (DecideBy (sample_decision at)) [(approval_key, new_approval sample_approval)] =
      ([(approval_key, sample_approved at)], Inr (sample_approved at))"
    by (simp add: decide_approval_def update_approval_def ids js_get_def sample_decide [OF assms(1)] js_set_def)
  show "run_command const_hash (ConsumeBy (sample_consume c)) [(approval_key, sample_approved at)] =
      ([(approval_key, sample_spent at c)], Inr (sample_spent at c))"
    by (simp add: consume_approval_def update_approval_def ids js_get_def sample_consumption [OF assms] js_set_def)
qed

lemma approval_samples_reachable:
  assumes "at \<in> {t1, t2}" "c \<in> {t1, t2}"
  shows "approvals_reachable const_hash [(approval_key, new_approval sample_approval)]"
    and "approvals_reachable const_hash [(approval_key, sample_approved at)]"
    and "approvals_reachable const_hash [(approval_key, sample_spent at c)]"
proof -
  let ?e = "EnsureApproval sample_approval" and ?d = "CommandApproval (DecideBy (sample_decision at))"
    and ?c = "CommandApproval (ConsumeBy (sample_consume c))"
  show "approvals_reachable const_hash [(approval_key, new_approval sample_approval)]"
    unfolding approvals_reachable_def by (rule exI [of _ "[?e]"]) (simp add: sample_runs(1) [OF assms])
  show "approvals_reachable const_hash [(approval_key, sample_approved at)]"
    unfolding approvals_reachable_def
    by (rule exI [of _ "[?e, ?d]"]) (simp add: sample_runs(1,2) [OF assms] del: run_command.simps)
  show "approvals_reachable const_hash [(approval_key, sample_spent at c)]"
    unfolding approvals_reachable_def
    by (rule exI [of _ "[?e, ?d, ?c]"]) (simp add: sample_runs [OF assms] del: run_command.simps)
qed

section \<open>Properties\<close>

text \<open>C39: after any sequence of store calls every stored approval is filed under its own stream and identifier and
  passes \<open>assertActionApprovalRecord\<close>, except in one case: a record consumed at a time before its
  decision, which the consume call accepts, is refused by every later check of the record.\<close>

theorem stored_approvals_admissible:
  assumes "approvals_reachable h s" and "js_get s k = Some r"
  shows "k = approvalKey (request r) (approvalId (request r)) \<and>
    (assertActionApprovalRecord h r = Inr () \<longleftrightarrow>
      (\<forall>d c. decision r = Some d \<longrightarrow> consumedAt r = Some c \<longrightarrow> decidedAt d \<le> c))"
  using inv_get [OF approvals_reachable_inv [OF assms(1)] assms(2)]
  by (simp add: approval_entry_ok_def assertActionApprovalRecord_iff approval_ok_core consumed_in_order_def)

theorem stored_approvals_admissible_witness:
  "assertActionApprovalRecord const_hash (sample_spent t1 t2) = Inr () \<and>
   assertActionApprovalRecord const_hash (sample_spent t2 t1) \<noteq> Inr ()"
  using stored_approvals_admissible [OF approval_samples_reachable(3), of t1 t2 approval_key "sample_spent t1 t2"]
    stored_approvals_admissible [OF approval_samples_reachable(3), of t2 t1 approval_key "sample_spent t2 t1"]
  by (simp add: js_get_def)

text \<open>C34: a revision of an approval is used once. After a decide, consume or expire call succeeded, no later call that
  names the same approval and the same expected revision succeeds, and it leaves the store as it
  is, whatever calls other than a purge came in between.\<close>

theorem approval_revision_used_once:
  assumes "approvals_reachable h s" and "run_command h c s = (s', Inr r)" and "list_all keeps_approvals ops"
    and "command_key c' = command_key c" and "command_revision c' = command_revision c"
  shows "\<exists>e. run_command h c' (run_ops (approval_exec h) ops s') = (run_ops (approval_exec h) ops s', Inl e)"
proof -
  let ?s = "run_ops (approval_exec h) ops s'"
  have inv: "approval_store_inv h s'"
    using run_command_inv [OF approvals_reachable_inv [OF assms(1)], of c] assms(2) by simp
  obtain r0 where "apply_command h c r0 = Inr r" and s': "js_get s' (command_key c) = Some r"
    by (rule command_succeeds [OF assms(2)])
  then have upd: "command_update h c r0 = Some r" by (simp add: command_update_Some)
  from run_later [OF inv assms(3)] s' obtain r1 where r1: "js_get ?s (command_key c) = Some r1" "approval_later r r1"
    by (auto simp: store_later_def)
  then have "of_decimal (ap_revision r) \<le> of_decimal (ap_revision r1)" by (auto simp: approval_later_def)
  then have none: "command_update h c' r1 = None"
    by (intro approval_cas.no_second_update [OF upd]) (simp_all add: assms(5))
  show ?thesis
  proof (rule command_fails)
    fix r2 r3
    assume "js_get ?s (command_key c') = Some r2"
    with r1(1) assms(4) none show "apply_command h c' r2 \<noteq> Inr r3" by (simp add: command_update_def split: sum.splits)
  qed
qed

theorem approval_revision_used_once_witness:
  "\<exists>e. run_command const_hash (DecideBy (sample_decision t2)) [(approval_key, sample_approved t1)] =
     ([(approval_key, sample_approved t1)], Inl e)"
proof -
  have "command_key (DecideBy (sample_decision t2)) = command_key (DecideBy (sample_decision t1))"
    by (simp add: sample_decision_def approvalKey_def)
  with approval_revision_used_once [OF approval_samples_reachable(1) [of t1 t1] sample_runs(2) [of t1 t1],
      of "[]" "DecideBy (sample_decision t2)"]
  show ?thesis by (simp del: run_command.simps command_key.simps)
qed

text \<open>C4: an approval is spent only for the action it was granted to, and once: a consume call that succeeds
  as consumed found an approval a reviewer approved within its lifetime, not expired at the
  consumption time, with the same coordinate, operation, intent fingerprint and authority; from
  then on, until a purge, the record stays and every further command on it fails.\<close>

theorem spent_approval_was_granted:
  assumes "approvals_reachable h s" and "consume_approval h i s = (s', Inr r')" and "ap_status r' = ApConsumed"
  shows "(\<exists>r d. js_get s (approvalKey i (ci_approvalId i)) = Some r \<and> ap_status r = ApApproved \<and> decision r = Some d \<and>
      approved d \<and> requestedAt (request r) \<le> decidedAt d \<and> decidedAt d < ar_expiresAt (request r) \<and>
      ci_consumedAt i < ar_expiresAt (request r) \<and> ar_coordinate (request r) = ci_coordinate i \<and>
      ar_operationId (request r) = ci_operationId i \<and> ar_intentFingerprint (request r) = ci_intentFingerprint i \<and>
      ar_expectedAuthority (request r) = currentAuthority i) \<and>
    (list_all keeps_approvals ops \<and> command_key c = approvalKey i (ci_approvalId i) \<longrightarrow>
      js_get (run_ops (approval_exec h) ops s') (approvalKey i (ci_approvalId i)) = Some r' \<and>
      (\<exists>e. run_command h c (run_ops (approval_exec h) ops s') = (run_ops (approval_exec h) ops s', Inl e)))"
proof (intro conjI impI; (elim conjE)?)
  let ?k = "approvalKey i (ci_approvalId i)"
  have run: "run_command h (ConsumeBy i) s = (s', Inr r')" using assms(2) by simp
  obtain r where r: "js_get s ?k = Some r" "consumeActionApprovalRecord h r i = Inr r'" "js_get s' ?k = Some r'"
    by (rule command_succeeds [OF run]) simp
  from r(2) assms(3) have "approval_ok h r" "ap_status r = ApApproved" "ci_consumedAt i < ar_expiresAt (request r)"
    "ar_operationId (request r) = ci_operationId i" "ar_intentFingerprint (request r) = ci_intentFingerprint i"
    "ar_coordinate (request r) = ci_coordinate i" "ar_expectedAuthority (request r) = currentAuthority i"
    by (auto elim!: consume_cases simp: canonical_coordinate canonical_authority)
  with r(1) show "\<exists>r d. js_get s ?k = Some r \<and> ap_status r = ApApproved \<and> decision r = Some d \<and>
      approved d \<and> requestedAt (request r) \<le> decidedAt d \<and> decidedAt d < ar_expiresAt (request r) \<and>
      ci_consumedAt i < ar_expiresAt (request r) \<and> ar_coordinate (request r) = ci_coordinate i \<and>
      ar_operationId (request r) = ci_operationId i \<and> ar_intentFingerprint (request r) = ci_intentFingerprint i \<and>
      ar_expectedAuthority (request r) = currentAuthority i"
    by (auto simp: approval_ok_def status_ok_def decision_ok_def opt_ok_def)
  assume ops: "list_all keeps_approvals ops" and key: "command_key c = ?k"
  let ?s = "run_ops (approval_exec h) ops s'"
  have "store_later s' ?s"
    using run_later run_command_inv [OF approvals_reachable_inv [OF assms(1)], of "ConsumeBy i"] run ops by (metis fst_conv)
  with r(3) assms(3) show kept: "js_get ?s ?k = Some r'"
    by (auto simp: store_later_def approval_later_def closed_approval_def)
  have "apply_command h c r' \<noteq> Inr r2" for r2 using assms(3) by (auto elim: command_cases)
  with kept key show "\<exists>e. run_command h c ?s = (?s, Inl e)" by (intro command_fails) simp
qed

theorem spent_approval_was_granted_witness:
  "\<exists>e. run_command const_hash (ConsumeBy (sample_consume t2)) [(approval_key, sample_spent t1 t2)] =
     ([(approval_key, sample_spent t1 t2)], Inl e)"
proof -
  have run: "consume_approval const_hash (sample_consume t2) [(approval_key, sample_approved t1)] =
    ([(approval_key, sample_spent t1 t2)], Inr (sample_spent t1 t2))" using sample_runs(3) [of t1 t2] by simp
  have "ap_status (sample_spent t1 t2) = ApConsumed" by (simp add: sample_spent_def)
  from spent_approval_was_granted [OF approval_samples_reachable(2) [of t1 t1] run this, of "[]" "ConsumeBy (sample_consume t2)"]
  show ?thesis by (simp add: sample_consume_def)
qed

text \<open>When the hash is injective, two approval requests have the same fingerprint exactly when they ask for the
  same thing: coordinate, policy, operation, intent, action, authority, task and presentation, an
  absent presentation and a null one told apart.\<close>

theorem fingerprint_identifies_request:
  fixes q q' :: approval_request
  assumes "inj h" and "opt_ok json_ok (presentation q)" and "opt_ok json_ok (presentation q')"
  shows "fingerprintApprovalRequest h q = fingerprintApprovalRequest h q' \<longleftrightarrow>
    ar_coordinate q = ar_coordinate q' \<and> ar_policyId q = ar_policyId q' \<and> ar_operationId q = ar_operationId q' \<and>
    ar_intentFingerprint q = ar_intentFingerprint q' \<and> ar_actionName q = ar_actionName q' \<and>
    ar_expectedAuthority q = ar_expectedAuthority q' \<and> taskId q = taskId q' \<and>
    map_option canon_form (presentation q) = map_option canon_form (presentation q')"
  using canonical_fingerprint [OF assms(2,3)] inj_eq [OF assms(1)]
  by (simp add: fingerprintApprovalRequest_def same_content_def)

theorem fingerprint_identifies_request_witness:
  "fingerprintApprovalRequest (\<lambda>s. s) sample_approval \<noteq>
   fingerprintApprovalRequest (\<lambda>s. s) (sample_approval\<lparr>presentation := Some JNull\<rparr>)"
  by (subst fingerprint_identifies_request) (simp_all add: sample_approval_def)

end
