(* ===== verification/Run_Authority.thy ===== *)
theory Run_Authority
  imports Json_Embed
begin

text \<open>
  packages/protocol/src/run-authority.ts: the keys that scope run admissions and delegated work, and
  the capture functions that validate a request to close an authority. A capture copies the fields
  the source names and checks them against its schema; the copy is the value itself here.
\<close>

record game_time =
  gt_timelineId :: js_string
  gt_generation :: js_string
  tick :: js_string

definition game_time_ok :: "game_time \<Rightarrow> bool" where
  "game_time_ok t \<longleftrightarrow> is_opaque_identifier (gt_timelineId t) \<and> is_decimal (gt_generation t) \<and> is_decimal (tick t)"

definition assertGameTime :: "game_time \<Rightarrow> unit result" where
  "assertGameTime t = ensure (game_time_ok t) (ProtocolValidation ''invalid_game_time'')"

section \<open>Keys\<close>

record run_admission_authority =
  scope :: js_string
  scope_generation :: js_string

record run_authority_key = stream_key +
  key_authority :: run_admission_authority

record work_lane = stream_key +
  lane_ownerId :: js_string
  lane_timelineId :: js_string
  lane_generation :: js_string

record work_retirement =
  wr_retirementId :: js_string
  wr_partition :: work_lane
  wr_recordedAt :: js_string

record authority_partition =
  pt_ownerId :: js_string
  pt_timelineId :: js_string
  pt_generation :: js_string
  pt_sessionId :: "js_string option"
  pt_actorId :: "js_string option"

record goal_retirement =
  gr_retirementId :: js_string
  gr_stateRevision :: js_string
  gr_partition :: authority_partition
  gr_gameTime :: game_time
  gr_recordedAt :: js_string

record close_request = run_authority_key +
  cl_operationId :: js_string
  goalRetirement :: "goal_retirement option"
  workRetirement :: "work_retirement option"

definition work_lane_ok :: "'a work_lane_scheme \<Rightarrow> bool" where
  "work_lane_ok l \<longleftrightarrow> list_all is_opaque_identifier [lane_ownerId l, lane_timelineId l, sessionId l, actorId l] \<and>
     is_decimal (lane_generation l)"

definition work_retirement_ok :: "work_retirement \<Rightarrow> bool" where
  "work_retirement_ok w \<longleftrightarrow> is_opaque_identifier (wr_retirementId w) \<and> work_lane_ok (wr_partition w) \<and>
     timestamp_pattern (wr_recordedAt w)"

definition admission_authority_ok :: "run_admission_authority \<Rightarrow> bool" where
  "admission_authority_ok a \<longleftrightarrow> is_opaque_identifier (scope a) \<and> is_decimal (scope_generation a)"

definition run_authority_key_ok :: "'a run_authority_key_scheme \<Rightarrow> bool" where
  "run_authority_key_ok k \<longleftrightarrow> stream_key_ok k \<and> admission_authority_ok (key_authority k)"

definition authority_partition_ok :: "authority_partition \<Rightarrow> bool" where
  "authority_partition_ok p \<longleftrightarrow> is_opaque_identifier (pt_ownerId p) \<and> is_opaque_identifier (pt_timelineId p) \<and>
     is_decimal (pt_generation p) \<and> opt_ok is_opaque_identifier (pt_sessionId p) \<and>
     opt_ok is_opaque_identifier (pt_actorId p)"

definition goal_retirement_ok :: "goal_retirement \<Rightarrow> bool" where
  "goal_retirement_ok g \<longleftrightarrow> is_opaque_identifier (gr_retirementId g) \<and> is_decimal (gr_stateRevision g) \<and>
     authority_partition_ok (gr_partition g) \<and> game_time_ok (gr_gameTime g) \<and> timestamp_pattern (gr_recordedAt g)"

definition close_request_ok :: "close_request \<Rightarrow> bool" where
  "close_request_ok r \<longleftrightarrow> run_authority_key_ok r \<and> is_opaque_identifier (cl_operationId r) \<and>
     opt_ok goal_retirement_ok (goalRetirement r) \<and> opt_ok work_retirement_ok (workRetirement r)"

section \<open>Captures\<close>

definition captureWorkAuthorityLane :: "'a work_lane_scheme \<Rightarrow> unit result" where
  "captureWorkAuthorityLane l = ensure (work_lane_ok l) TypeErr"

definition captureWorkAuthorityRetirementRequest :: "work_retirement \<Rightarrow> work_retirement result" where
  "captureWorkAuthorityRetirementRequest w =
     rbind (checks [captureWorkAuthorityLane (wr_partition w), ensure (work_retirement_ok w) TypeErr,
       assertCanonicalTimestamp (wr_recordedAt w)]) (\<lambda>_. Inr w)"

definition captureRunAdmissionAuthority :: "run_admission_authority \<Rightarrow> run_admission_authority result" where
  "captureRunAdmissionAuthority a = rbind (ensure (admission_authority_ok a) TypeErr) (\<lambda>_. Inr a)"

definition captureRunAuthorityKey :: "'a run_authority_key_scheme \<Rightarrow> unit result" where
  "captureRunAuthorityKey k =
     checks [discard (captureRunAdmissionAuthority (key_authority k)), ensure (run_authority_key_ok k) TypeErr]"

definition capture_goal_retirement :: "goal_retirement \<Rightarrow> unit result" where
  "capture_goal_retirement g =
     checks [ensure (goal_retirement_ok g) TypeErr, assertCanonicalTimestamp (gr_recordedAt g),
       ensure (pt_timelineId (gr_partition g) = gt_timelineId (gr_gameTime g) \<and>
         pt_generation (gr_partition g) = gt_generation (gr_gameTime g)) TypeErr]"

definition capture_work_retirement :: "'a stream_key_scheme \<Rightarrow> work_retirement \<Rightarrow> unit result" where
  "capture_work_retirement k w =
     checks [discard (captureWorkAuthorityRetirementRequest w),
       ensure (sessionId (wr_partition w) = sessionId k \<and> actorId (wr_partition w) = actorId k) TypeErr]"

definition captureCloseRunAuthorityRequest :: "close_request \<Rightarrow> close_request result" where
  "captureCloseRunAuthorityRequest r =
     rbind (checks [captureRunAuthorityKey r, when_some (goalRetirement r) capture_goal_retirement,
       when_some (workRetirement r) (capture_work_retirement r), ensure (close_request_ok r) TypeErr]) (\<lambda>_. Inr r)"

section \<open>Canonical texts\<close>

definition game_time_json :: "game_time \<Rightarrow> json" where
  "game_time_json t = JObj [(js ''timelineId'', JStr (gt_timelineId t)), (js ''generation'', JStr (gt_generation t)),
     (js ''tick'', JStr (tick t))]"

definition authority_partition_json :: "authority_partition \<Rightarrow> json" where
  "authority_partition_json p = JObj ([(js ''ownerId'', JStr (pt_ownerId p)), (js ''timelineId'', JStr (pt_timelineId p)),
     (js ''generation'', JStr (pt_generation p))] @ opt_member ''sessionId'' JStr (pt_sessionId p) @
     opt_member ''actorId'' JStr (pt_actorId p))"

definition goal_retirement_json :: "goal_retirement \<Rightarrow> json" where
  "goal_retirement_json g = JObj [(js ''retirementId'', JStr (gr_retirementId g)),
     (js ''stateRevision'', JStr (gr_stateRevision g)), (js ''partition'', authority_partition_json (gr_partition g)),
     (js ''gameTime'', game_time_json (gr_gameTime g)), (js ''recordedAt'', JStr (gr_recordedAt g))]"

definition work_lane_json :: "work_lane \<Rightarrow> json" where
  "work_lane_json l = JObj [(js ''ownerId'', JStr (lane_ownerId l)), (js ''timelineId'', JStr (lane_timelineId l)),
     (js ''generation'', JStr (lane_generation l)), (js ''sessionId'', JStr (sessionId l)), (js ''actorId'', JStr (actorId l))]"

definition work_retirement_json :: "work_retirement \<Rightarrow> json" where
  "work_retirement_json w = JObj [(js ''retirementId'', JStr (wr_retirementId w)),
     (js ''partition'', work_lane_json (wr_partition w)), (js ''recordedAt'', JStr (wr_recordedAt w))]"

definition close_request_json :: "close_request \<Rightarrow> json" where
  "close_request_json r = JObj ([(js ''sessionId'', JStr (sessionId r)), (js ''actorId'', JStr (actorId r)),
     (js ''scope'', JStr (scope (key_authority r))), (js ''generation'', JStr (scope_generation (key_authority r))),
     (js ''operationId'', JStr (cl_operationId r))] @ opt_member ''goalRetirement'' goal_retirement_json (goalRetirement r) @
     opt_member ''workRetirement'' work_retirement_json (workRetirement r))"

end
