(* ===== verification/Mailbox.thy ===== *)
theory Mailbox
  imports Run_Authority Machine Js_Map
begin

text \<open>
  packages/extensions/src/mailbox-types.ts, mailbox-validation.ts and in-memory-mailbox-store.ts:
  messages queued for a recipient, delivered in order under expiring leases, completed or
  cancelled once, and fenced when the recipient's authority is retired. Each operation runs without
  awaiting, so it is a function from the store to the store it leaves and its result.
\<close>

section \<open>Data\<close>

record message_base =
  messageId :: js_string
  recipient :: work_lane
  senderId :: "js_string option"
  kind :: js_string
  gameTime :: game_time
  correlationId :: "js_string option"
  recordedAt :: js_string

record message_input = message_base +
  input_payload :: js_value

record message_draft = message_base +
  payload :: json

datatype message_status = Pending | Completed | Cancelled

record message = message_draft +
  messageKey :: int
  status :: message_status
  revision :: js_string
  attempt :: js_string
  createdAt :: js_string
  updatedAt :: js_string
  completedAt :: "js_string option"
  cancelledAt :: "js_string option"

record message_key = work_lane +
  mk_messageId :: js_string

record sequence_key = work_lane +
  sk_messageKey :: int

record delivery =
  dv_message :: message
  leaseToken :: js_string
  leaseOwnerId :: js_string
  leaseExpiresAt :: js_string

record mailbox_limits =
  maxIdentifierBytes :: int
  maxPayloadBytes :: int
  maxTickDigits :: int
  maxCounterDigits :: int
  maxPendingMessagesPerTimelineGeneration :: int
  maxPendingMessagesPerRecipient :: int
  maxActiveDeliveries :: int
  maxPageSize :: int
  maxClaimBatchSize :: int
  maxPurgeBatchSize :: int

record list_request =
  ls_ownerId :: js_string
  ls_timelineId :: js_string
  ls_generation :: js_string
  ls_sessionId :: "js_string option"
  ls_actorId :: "js_string option"
  statuses :: "message_status list option"
  afterMessageKey :: "int option"
  ls_limit :: int

record mailbox_page =
  page_records :: "message list"
  nextAfterMessageKey :: "int option"

record claim_request = work_lane +
  cq_leaseOwnerId :: js_string
  cq_operationalNow :: js_string
  cq_leaseExpiresAt :: js_string
  cq_limit :: int

record renew_request = sequence_key +
  rn_leaseToken :: js_string
  rn_operationalNow :: js_string
  rn_leaseExpiresAt :: js_string

record status_summary =
  sm_pending :: nat
  sm_completed :: nat
  sm_cancelled :: nat
  oldestPendingMessageKey :: "int option"
  latestMessageKey :: "int option"

datatype retirement_phase = Fenced | Finalized

record retirement_record = work_retirement +
  phase :: retirement_phase
  cancelledMessageCount :: int

section \<open>Validation\<close>

definition validateMailboxIdentifier :: "js_string \<Rightarrow> int \<Rightarrow> string \<Rightarrow> unit result" where
  "validateMailboxIdentifier s maximum name =
     checks [ensure (is_opaque_identifier s) (MailboxValidation (''invalid_mailbox_'' @ name)),
       ensure (int (utf8_length s) \<le> maximum) (MailboxValidation (''mailbox_'' @ name @ ''_too_large''))]"

definition validateMailboxTimestamp :: "js_string \<Rightarrow> unit result" where
  "validateMailboxTimestamp s = ensure (is_timestamp s) (MailboxValidation ''invalid_mailbox_timestamp'')"

definition validateMailboxDecimal :: "js_string \<Rightarrow> string \<Rightarrow> int \<Rightarrow> unit result" where
  "validateMailboxDecimal s name maximum =
     ensure (is_decimal s \<and> int (length s) \<le> maximum) (MailboxValidation (''invalid_mailbox_'' @ name))"

definition incrementMailboxDecimal :: "js_string \<Rightarrow> int \<Rightarrow> string \<Rightarrow> js_string result" where
  "incrementMailboxDecimal s maximum name =
     rbind (validateMailboxDecimal s name maximum) (\<lambda>_.
     rbind (bigint_succ s) (\<lambda>t.
     rbind (ensure (int (length t) \<le> maximum) (MailboxValidation (''mailbox_'' @ name @ ''_overflow''))) (\<lambda>_. Inr t)))"

definition validateMailboxCursor :: "int option \<Rightarrow> unit result" where
  "validateMailboxCursor c = when_some c (\<lambda>n. ensure (0 \<le> n) (MailboxValidation ''invalid_mailbox_cursor''))"

definition validatePositiveMailboxKey :: "int \<Rightarrow> string \<Rightarrow> unit result" where
  "validatePositiveMailboxKey n name = ensure (1 \<le> n) (MailboxValidation (''invalid_mailbox_'' @ name))"

definition validateMailboxPageLimit :: "int \<Rightarrow> int \<Rightarrow> string \<Rightarrow> unit result" where
  "validateMailboxPageLimit n maximum code =
     ensure (is_safe_integer n \<and> 1 \<le> n \<and> n \<le> maximum) (MailboxValidation code)"

definition validateCapacity :: "int \<Rightarrow> int \<Rightarrow> unit result" where
  "validateCapacity n maximum =
     ensure (is_safe_integer n \<and> 1 \<le> n \<and> n \<le> maximum) (MailboxValidation ''invalid_mailbox_capacity'')"

definition validate_limit :: "string \<Rightarrow> int \<Rightarrow> unit result" where
  "validate_limit name n =
     ensure (is_safe_integer n \<and> 1 \<le> n \<and> n < max_safe_integer) (MailboxValidation (''invalid_mailbox_limit:'' @ name))"

definition validateMailboxLimits :: "mailbox_limits \<Rightarrow> unit result" where
  "validateMailboxLimits l =
     checks [validate_limit ''maxIdentifierBytes'' (maxIdentifierBytes l),
       validate_limit ''maxPayloadBytes'' (maxPayloadBytes l), validate_limit ''maxTickDigits'' (maxTickDigits l),
       validate_limit ''maxCounterDigits'' (maxCounterDigits l),
       validate_limit ''maxPendingMessagesPerTimelineGeneration'' (maxPendingMessagesPerTimelineGeneration l),
       validate_limit ''maxPendingMessagesPerRecipient'' (maxPendingMessagesPerRecipient l),
       validate_limit ''maxActiveDeliveries'' (maxActiveDeliveries l), validate_limit ''maxPageSize'' (maxPageSize l),
       validate_limit ''maxClaimBatchSize'' (maxClaimBatchSize l), validate_limit ''maxPurgeBatchSize'' (maxPurgeBatchSize l),
       ensure (maxPendingMessagesPerRecipient l \<le> maxPendingMessagesPerTimelineGeneration l)
         (MailboxValidation ''invalid_mailbox_limit:recipient_exceeds_timeline_generation'')]"

definition normalizeMailboxRecipient :: "'a work_lane_scheme \<Rightarrow> mailbox_limits \<Rightarrow> unit result" where
  "normalizeMailboxRecipient r l =
     checks [validateMailboxIdentifier (lane_ownerId r) (maxIdentifierBytes l) ''owner_id'',
       validateMailboxIdentifier (lane_timelineId r) (maxIdentifierBytes l) ''timeline_id'',
       validateMailboxDecimal (lane_generation r) ''generation'' (maxCounterDigits l),
       validateMailboxIdentifier (sessionId r) (maxIdentifierBytes l) ''session_id'',
       validateMailboxIdentifier (actorId r) (maxIdentifierBytes l) ''actor_id'']"

definition normalizeMailboxAuthorityRetirement :: "work_retirement \<Rightarrow> mailbox_limits \<Rightarrow> work_retirement result" where
  "normalizeMailboxAuthorityRetirement w l =
     rbind (captureWorkAuthorityRetirementRequest w) (\<lambda>request.
     rbind (checks [normalizeMailboxRecipient (wr_partition request) l,
         validateMailboxIdentifier (wr_retirementId request) (maxIdentifierBytes l) ''retirement_id'']) (\<lambda>_. Inr request))"

definition normalizeMailboxListScope :: "list_request \<Rightarrow> mailbox_limits \<Rightarrow> unit result" where
  "normalizeMailboxListScope q l =
     checks [validateMailboxIdentifier (ls_ownerId q) (maxIdentifierBytes l) ''owner_id'',
       validateMailboxIdentifier (ls_timelineId q) (maxIdentifierBytes l) ''timeline_id'',
       validateMailboxDecimal (ls_generation q) ''generation'' (maxCounterDigits l),
       when_some (ls_sessionId q) (\<lambda>s. validateMailboxIdentifier s (maxIdentifierBytes l) ''session_id''),
       when_some (ls_actorId q) (\<lambda>s. validateMailboxIdentifier s (maxIdentifierBytes l) ''actor_id'')]"

definition normalizeMailboxMessage :: "message_input \<Rightarrow> mailbox_limits \<Rightarrow> message_draft result" where
  "normalizeMailboxMessage i l =
     rbind (checks [validateMailboxIdentifier (messageId i) (maxIdentifierBytes l) ''message_id'',
         normalizeMailboxRecipient (recipient i) l,
         when_some (senderId i) (\<lambda>s. validateMailboxIdentifier s (maxIdentifierBytes l) ''sender_id''),
         validateMailboxIdentifier (kind i) (maxIdentifierBytes l) ''kind'',
         when_some (correlationId i) (\<lambda>s. validateMailboxIdentifier s (maxIdentifierBytes l) ''correlation_id'')]) (\<lambda>_.
     rbind (normalizeJsonValue (input_payload i)) (\<lambda>body.
     rbind (canonicalizeJsonValue (of_json body)) (\<lambda>text.
     rbind (checks [ensure (int (utf8_length text) \<le> maxPayloadBytes l) (MailboxValidation ''mailbox_payload_too_large''),
         ensure (game_time_ok (gameTime i)) (MailboxValidation ''invalid_mailbox_game_time''),
         ensure (gt_timelineId (gameTime i) = lane_timelineId (recipient i) \<and>
           gt_generation (gameTime i) = lane_generation (recipient i)) (MailboxValidation ''mailbox_time_partition_mismatch''),
         validateMailboxDecimal (tick (gameTime i)) ''game_tick'' (maxTickDigits l),
         validateMailboxTimestamp (recordedAt i)]) (\<lambda>_.
     Inr \<lparr>messageId = messageId i, recipient = recipient i, senderId = senderId i, kind = kind i, gameTime = gameTime i,
          correlationId = correlationId i, recordedAt = recordedAt i, payload = body\<rparr>))))"

definition normalizeMailboxClaim :: "claim_request \<Rightarrow> mailbox_limits \<Rightarrow> unit result" where
  "normalizeMailboxClaim q l =
     checks [normalizeMailboxRecipient q l,
       validateMailboxIdentifier (cq_leaseOwnerId q) (maxIdentifierBytes l) ''lease_owner_id'',
       validateMailboxTimestamp (cq_operationalNow q), validateMailboxTimestamp (cq_leaseExpiresAt q),
       ensure (cq_operationalNow q < cq_leaseExpiresAt q) (MailboxValidation ''invalid_mailbox_lease_window''),
       validateMailboxPageLimit (cq_limit q) (maxClaimBatchSize l) ''invalid_mailbox_claim_limit'']"

definition validateMailboxMessageKey :: "message_key \<Rightarrow> mailbox_limits \<Rightarrow> unit result" where
  "validateMailboxMessageKey k l =
     checks [normalizeMailboxRecipient k l, validateMailboxIdentifier (mk_messageId k) (maxIdentifierBytes l) ''message_id'']"

definition validateMailboxMessageSequenceKey :: "'a sequence_key_scheme \<Rightarrow> mailbox_limits \<Rightarrow> unit result" where
  "validateMailboxMessageSequenceKey k l =
     checks [normalizeMailboxRecipient k l, validatePositiveMailboxKey (sk_messageKey k) ''message_key'']"

definition normalizeMailboxRenew :: "renew_request \<Rightarrow> mailbox_limits \<Rightarrow> unit result" where
  "normalizeMailboxRenew q l =
     checks [validateMailboxMessageSequenceKey q l,
       validateMailboxIdentifier (rn_leaseToken q) (maxIdentifierBytes l) ''lease_token'',
       validateMailboxTimestamp (rn_operationalNow q), validateMailboxTimestamp (rn_leaseExpiresAt q),
       ensure (rn_operationalNow q < rn_leaseExpiresAt q) (MailboxValidation ''invalid_mailbox_lease_window'')]"

fun status_name :: "message_status \<Rightarrow> js_string" where
  "status_name Pending = js ''pending''"
| "status_name Completed = js ''completed''"
| "status_name Cancelled = js ''cancelled''"

definition normalizeMailboxStatusFilter :: "message_status list option \<Rightarrow> message_status list option result" where
  "normalizeMailboxStatusFilter values =
     (case values of
        None \<Rightarrow> Inr None
      | Some vs \<Rightarrow>
          rbind (ensure (vs \<noteq> []) (MailboxValidation ''empty_mailbox_status_filter'')) (\<lambda>_.
          let normalized = sort_key status_name vs in
          rbind (ensure (card (set normalized) = length normalized) (MailboxValidation ''duplicate_mailbox_status_filter'')) (\<lambda>_.
          Inr (Some normalized))))"

definition draft_json :: "'a message_draft_scheme \<Rightarrow> json" where
  "draft_json d = JObj ([(js ''messageId'', JStr (messageId d)), (js ''recipient'', work_lane_json (recipient d))] @
     opt_member ''senderId'' JStr (senderId d) @ [(js ''kind'', JStr (kind d)), (js ''payload'', payload d),
       (js ''gameTime'', game_time_json (gameTime d))] @ opt_member ''correlationId'' JStr (correlationId d) @
     [(js ''recordedAt'', JStr (recordedAt d))])"

definition mailboxFingerprint :: "'a message_draft_scheme \<Rightarrow> js_string result" where
  "mailboxFingerprint d = canonicalizeJsonValue (of_json (draft_json d))"

definition sameMailboxGeneration :: "'a work_lane_scheme \<Rightarrow> 'b work_lane_scheme \<Rightarrow> bool" where
  "sameMailboxGeneration a b \<longleftrightarrow> lane_ownerId a = lane_ownerId b \<and> lane_timelineId a = lane_timelineId b \<and>
     lane_generation a = lane_generation b"

definition sameMailboxRecipient :: "'a work_lane_scheme \<Rightarrow> 'b work_lane_scheme \<Rightarrow> bool" where
  "sameMailboxRecipient a b \<longleftrightarrow> sameMailboxGeneration a b \<and> sessionId a = sessionId b \<and> actorId a = actorId b"

definition laterMailboxTimestamp :: "js_string \<Rightarrow> js_string \<Rightarrow> js_string result" where
  "laterMailboxTimestamp left right =
     rbind (checks [validateMailboxTimestamp left, validateMailboxTimestamp right]) (\<lambda>_.
     Inr (if left < right then right else left))"

end
