(* ===== verification/Mailbox_Store.thy ===== *)
theory Mailbox_Store
  imports Mailbox
begin

text \<open>
  The class InMemoryMailboxStore of packages/extensions/src/in-memory-mailbox-store.ts: its maps
  and every operation on them. The limits are the constructor's; the source of lease tokens is a
  callback that may call back into the store, so it maps the number of the call and the store to
  the store it leaves and the token it returns or the error it throws.
\<close>

record lease =
  token :: js_string
  ownerId :: js_string
  expiresAt :: js_string

record mailbox =
  messages :: "(js_string, message) js_map"
  fingerprints :: "(js_string, js_string) js_map"
  leases :: "(int, lease) js_map"
  settledLeaseProofs :: "(int, js_string) js_map"
  releasedLeaseProofs :: "(int, js_string) js_map"
  retirements :: "(js_string, retirement_record) js_map"
  retirementIds :: "(js_string, js_string) js_map"
  nextMessageKey :: int

definition empty_mailbox :: mailbox where
  "empty_mailbox = \<lparr>messages = [], fingerprints = [], leases = [], settledLeaseProofs = [], releasedLeaseProofs = [],
     retirements = [], retirementIds = [], nextMessageKey = 1\<rparr>"

section \<open>Keys and lookups\<close>

definition messageMapKey :: "'a work_lane_scheme \<Rightarrow> js_string \<Rightarrow> js_string" where
  "messageMapKey r i =
     string_tuple_key [lane_ownerId r, lane_timelineId r, lane_generation r, sessionId r, actorId r, i]"

definition retirementMapKey :: "'a work_lane_scheme \<Rightarrow> js_string" where
  "retirementMapKey r = string_tuple_key [lane_ownerId r, lane_timelineId r, lane_generation r, sessionId r, actorId r]"

definition leaseProofKey :: "js_string \<Rightarrow> js_string \<Rightarrow> js_string" where
  "leaseProofKey tok own = string_tuple_key [tok, own]"

definition assertAuthorityOpen :: "'a work_lane_scheme \<Rightarrow> mailbox \<Rightarrow> unit result" where
  "assertAuthorityOpen r s = ensure (\<not> js_has (retirements s) (retirementMapKey r)) WorkAuthorityRetired"

definition recipientMessages :: "'a work_lane_scheme \<Rightarrow> mailbox \<Rightarrow> message list" where
  "recipientMessages r s =
     sort_key messageKey (filter (\<lambda>m. sameMailboxRecipient (recipient m) r) (js_values (messages s)))"

definition findRequired :: "'a sequence_key_scheme \<Rightarrow> mailbox \<Rightarrow> message result" where
  "findRequired k s =
     (case find (\<lambda>m. messageKey m = sk_messageKey k \<and> sameMailboxRecipient (recipient m) k) (js_values (messages s)) of
        None \<Rightarrow> Inl MailboxNotFound | Some m \<Rightarrow> Inr m)"

definition assertActiveLease :: "message \<Rightarrow> lease option \<Rightarrow> js_string \<Rightarrow> js_string \<Rightarrow> lease result" where
  "assertActiveLease m l tok now =
     (case l of
        None \<Rightarrow> Inl MailboxLeaseConflict
      | Some x \<Rightarrow>
          if status m \<noteq> Pending \<or> token x \<noteq> tok \<or> now < updatedAt m \<or> expiresAt x \<le> now
          then Inl MailboxLeaseConflict else Inr x)"

definition earlier_pending :: "message \<Rightarrow> mailbox \<Rightarrow> bool" where
  "earlier_pending m s \<longleftrightarrow>
     list_ex (\<lambda>m'. status m' = Pending \<and> messageKey m' < messageKey m) (recipientMessages (recipient m) s)"

definition put_message :: "message \<Rightarrow> mailbox \<Rightarrow> mailbox" where
  "put_message m s = s\<lparr>messages := js_set (messageMapKey (recipient m) (messageId m)) m (messages s)\<rparr>"

definition delivery_of :: "message \<Rightarrow> lease \<Rightarrow> delivery" where
  "delivery_of m l = \<lparr>dv_message = m, leaseToken = token l, leaseOwnerId = ownerId l, leaseExpiresAt = expiresAt l\<rparr>"

section \<open>Enqueue and reads\<close>

definition pending_messages :: "mailbox \<Rightarrow> message list" where
  "pending_messages s = filter (\<lambda>m. status m = Pending) (js_values (messages s))"

definition new_message :: "message_draft \<Rightarrow> int \<Rightarrow> message" where
  "new_message d n = message_draft.extend d
     (message.fields n Pending (js ''1'') (js ''0'') (recordedAt d) (recordedAt d) None None)"

definition enqueue :: "mailbox_limits \<Rightarrow> message_input \<Rightarrow> int \<Rightarrow> int \<Rightarrow> mailbox \<Rightarrow> mailbox \<times> message result" where
  "enqueue l i perGeneration perRecipient s =
     commit s (normalizeMailboxMessage i l) (\<lambda>draft.
     commit s (checks [assertAuthorityOpen (recipient draft) s,
         validateCapacity perGeneration (maxPendingMessagesPerTimelineGeneration l),
         validateCapacity perRecipient (maxPendingMessagesPerRecipient l)]) (\<lambda>_.
     let key = messageMapKey (recipient draft) (messageId draft) in
     commit s (mailboxFingerprint draft) (\<lambda>print.
     case js_get (messages s) key of
       Some existing \<Rightarrow> (s, if js_get (fingerprints s) key \<noteq> Some print then Inl MailboxConflict else Inr existing)
     | None \<Rightarrow>
         let pending = pending_messages s in
         if perGeneration \<le> int (length (filter (\<lambda>m. sameMailboxGeneration (recipient m) (recipient draft)) pending))
         then (s, Inl (MailboxCapacity ''timeline_generation''))
         else if perRecipient \<le> int (length (filter (\<lambda>m. sameMailboxRecipient (recipient m) (recipient draft)) pending))
         then (s, Inl (MailboxCapacity ''recipient''))
         else let m = new_message draft (nextMessageKey s) in
           (s\<lparr>nextMessageKey := nextMessageKey s + 1, messages := js_set key m (messages s),
              fingerprints := js_set key print (fingerprints s)\<rparr>, Inr m))))"

definition get_message :: "mailbox_limits \<Rightarrow> message_key \<Rightarrow> mailbox \<Rightarrow> message option result" where
  "get_message l k s =
     rbind (validateMailboxMessageKey k l) (\<lambda>_. Inr (js_get (messages s) (messageMapKey k (mk_messageId k))))"

definition getByKey :: "mailbox_limits \<Rightarrow> sequence_key \<Rightarrow> mailbox \<Rightarrow> message option result" where
  "getByKey l k s =
     rbind (validateMailboxMessageSequenceKey k l) (\<lambda>_.
     Inr (find (\<lambda>m. messageKey m = sk_messageKey k \<and> sameMailboxRecipient (recipient m) k) (js_values (messages s))))"

definition in_scope :: "list_request \<Rightarrow> message \<Rightarrow> bool" where
  "in_scope q m \<longleftrightarrow> lane_ownerId (recipient m) = ls_ownerId q \<and> lane_timelineId (recipient m) = ls_timelineId q \<and>
     lane_generation (recipient m) = ls_generation q \<and>
     (case ls_sessionId q of None \<Rightarrow> True | Some x \<Rightarrow> sessionId (recipient m) = x) \<and>
     (case ls_actorId q of None \<Rightarrow> True | Some x \<Rightarrow> actorId (recipient m) = x)"

definition listed :: "list_request \<Rightarrow> message_status list option \<Rightarrow> message \<Rightarrow> bool" where
  "listed q sts m \<longleftrightarrow> (case sts of None \<Rightarrow> True | Some xs \<Rightarrow> status m \<in> set xs) \<and>
     (case afterMessageKey q of None \<Rightarrow> True | Some n \<Rightarrow> n < messageKey m)"

definition list_messages :: "mailbox_limits \<Rightarrow> list_request \<Rightarrow> mailbox \<Rightarrow> mailbox_page result" where
  "list_messages l q s =
     rbind (normalizeMailboxListScope q l) (\<lambda>_.
     rbind (normalizeMailboxStatusFilter (statuses q)) (\<lambda>sts.
     rbind (checks [validateMailboxCursor (afterMessageKey q),
         validateMailboxPageLimit (ls_limit q) (maxPageSize l) ''invalid_mailbox_page_limit'']) (\<lambda>_.
     let matches = filter (listed q sts) (sort_key messageKey (filter (in_scope q) (js_values (messages s))));
         selected = take (nat (ls_limit q)) matches in
     Inr \<lparr>page_records = selected,
       nextAfterMessageKey = (if length selected < length matches then map_option messageKey (if selected = [] then None else Some (last selected)) else None)\<rparr>)))"

definition status_of :: "mailbox_limits \<Rightarrow> work_lane \<Rightarrow> mailbox \<Rightarrow> status_summary result" where
  "status_of l r s =
     rbind (normalizeMailboxRecipient r l) (\<lambda>_.
     let ms = recipientMessages r s; pending = filter (\<lambda>m. status m = Pending) ms in
     Inr \<lparr>sm_pending = length pending, sm_completed = length (filter (\<lambda>m. status m = Completed) ms),
       sm_cancelled = length (filter (\<lambda>m. status m = Cancelled) ms),
       oldestPendingMessageKey = (case pending of [] \<Rightarrow> None | m # _ \<Rightarrow> Some (messageKey m)),
       latestMessageKey = (if ms = [] then None else Some (messageKey (last ms)))\<rparr>)"

section \<open>Claims and leases\<close>

text \<open>The messages a claim takes: pending ones in order, stopping at a live lease or at the limit.\<close>

fun select_claim :: "claim_request \<Rightarrow> (int, lease) js_map \<Rightarrow> message list \<Rightarrow> message list \<Rightarrow> message list result" where
  "select_claim q ls [] selected = Inr selected"
| "select_claim q ls (m # ms) selected =
     (if status m \<noteq> Pending then select_claim q ls ms selected
      else if cq_operationalNow q < updatedAt m then Inl MailboxLeaseConflict
      else if (case js_get ls (messageKey m) of None \<Rightarrow> False | Some l \<Rightarrow> cq_operationalNow q < expiresAt l) then Inr selected
      else if int (length (selected @ [m])) = cq_limit q then Inr (selected @ [m])
      else select_claim q ls ms (selected @ [m]))"

definition prepare_delivery :: "mailbox_limits \<Rightarrow> claim_request \<Rightarrow> message \<Rightarrow> js_string \<Rightarrow> delivery result" where
  "prepare_delivery l q m tok =
     rbind (validateMailboxIdentifier tok (maxIdentifierBytes l) ''lease_token'') (\<lambda>_.
     rbind (incrementMailboxDecimal (revision m) (maxCounterDigits l) ''revision'') (\<lambda>rev.
     rbind (incrementMailboxDecimal (attempt m) (maxCounterDigits l) ''attempt'') (\<lambda>att.
     Inr \<lparr>dv_message = m\<lparr>revision := rev, attempt := att, updatedAt := cq_operationalNow q\<rparr>, leaseToken = tok,
          leaseOwnerId = cq_leaseOwnerId q, leaseExpiresAt = cq_leaseExpiresAt q\<rparr>)))"

type_synonym token_source = "nat \<Rightarrow> mailbox \<Rightarrow> mailbox \<times> js_string result"

fun prepare_deliveries ::
  "token_source \<Rightarrow> mailbox_limits \<Rightarrow> claim_request \<Rightarrow> nat \<Rightarrow> message list \<Rightarrow> mailbox \<Rightarrow> mailbox \<times> delivery list result" where
  "prepare_deliveries newLeaseToken l q n [] s = (s, Inr [])"
| "prepare_deliveries newLeaseToken l q n (m # ms) s =
     (case newLeaseToken n s of (s1, reply) \<Rightarrow>
      commit s1 reply (\<lambda>tok.
      commit s1 (prepare_delivery l q m tok) (\<lambda>d.
      case prepare_deliveries newLeaseToken l q (Suc n) ms s1 of
        (s2, Inl e) \<Rightarrow> (s2, Inl e)
      | (s2, Inr ds) \<Rightarrow> (s2, Inr (d # ds)))))"

definition lease_delivery :: "delivery \<Rightarrow> mailbox \<Rightarrow> mailbox" where
  "lease_delivery d s =
     (let m = dv_message d; s1 = put_message m s in
      s1\<lparr>releasedLeaseProofs := js_delete (messageKey m) (releasedLeaseProofs s1),
         leases := js_set (messageKey m) \<lparr>token = leaseToken d, ownerId = leaseOwnerId d, expiresAt = leaseExpiresAt d\<rparr>
           (leases s1)\<rparr>)"

text \<open>
  The source compares the stored object with the one it selected: every operation that changes a
  message stores a new object with a new revision, so comparing the values decides the same.
\<close>

definition claim :: "token_source \<Rightarrow> mailbox_limits \<Rightarrow> claim_request \<Rightarrow> mailbox \<Rightarrow> mailbox \<times> delivery list result" where
  "claim newLeaseToken l q s =
     commit s (normalizeMailboxClaim q l) (\<lambda>_.
     commit s (assertAuthorityOpen q s) (\<lambda>_.
     commit s (select_claim q (leases s) (recipientMessages q s) []) (\<lambda>selected.
     case prepare_deliveries newLeaseToken l q 0 selected s of
       (s1, Inl e) \<Rightarrow> (s1, Inl e)
     | (s1, Inr ds) \<Rightarrow>
         commit s1 (checks [assertAuthorityOpen q s1,
           ensure (list_all (\<lambda>m. js_get (messages s1) (messageMapKey (recipient m) (messageId m)) = Some m) selected)
             MailboxLeaseConflict]) (\<lambda>_.
         (fold lease_delivery ds s1, Inr ds)))))"

definition renew :: "mailbox_limits \<Rightarrow> renew_request \<Rightarrow> mailbox \<Rightarrow> mailbox \<times> delivery result" where
  "renew l q s =
     commit s (normalizeMailboxRenew q l) (\<lambda>_.
     commit s (assertAuthorityOpen q s) (\<lambda>_.
     commit s (findRequired q s) (\<lambda>m.
     commit s (assertActiveLease m (js_get (leases s) (messageKey m)) (rn_leaseToken q) (rn_operationalNow q)) (\<lambda>x.
     if rn_leaseExpiresAt q = expiresAt x then (s, Inr (delivery_of m x))
     else if rn_leaseExpiresAt q < expiresAt x then (s, Inl MailboxLeaseConflict)
     else commit s (incrementMailboxDecimal (revision m) (maxCounterDigits l) ''revision'') (\<lambda>rev.
       let updated = m\<lparr>revision := rev, updatedAt := rn_operationalNow q\<rparr>;
           nextLease = x\<lparr>expiresAt := rn_leaseExpiresAt q\<rparr> in
       ((put_message updated s)\<lparr>leases := js_set (messageKey m) nextLease (leases s)\<rparr>, Inr (delivery_of updated nextLease)))))))"

definition assertLease :: "mailbox_limits \<Rightarrow> sequence_key \<Rightarrow> js_string \<Rightarrow> js_string \<Rightarrow> mailbox \<Rightarrow> delivery result" where
  "assertLease l k tok now s =
     rbind (checks [validateMailboxMessageSequenceKey k l, validateMailboxIdentifier tok (maxIdentifierBytes l) ''lease_token'',
       validateMailboxTimestamp now, assertAuthorityOpen k s]) (\<lambda>_.
     rbind (findRequired k s) (\<lambda>m.
     rbind (assertActiveLease m (js_get (leases s) (messageKey m)) tok now) (\<lambda>x.
     rbind (ensure (\<not> earlier_pending m s) MailboxOrderConflict) (\<lambda>_. Inr (delivery_of m x)))))"

section \<open>Settling a message\<close>

definition complete :: "mailbox_limits \<Rightarrow> sequence_key \<Rightarrow> js_string \<Rightarrow> js_string \<Rightarrow> js_string \<Rightarrow> mailbox \<Rightarrow> mailbox \<times> message result" where
  "complete l k tok own now s =
     commit s (checks [validateMailboxMessageSequenceKey k l, validateMailboxIdentifier tok (maxIdentifierBytes l) ''lease_token'',
       validateMailboxIdentifier own (maxIdentifierBytes l) ''lease_owner_id'', validateMailboxTimestamp now]) (\<lambda>_.
     commit s (findRequired k s) (\<lambda>m.
     let proof = leaseProofKey tok own in
     if status m = Completed
     then (s, if js_get (settledLeaseProofs s) (messageKey m) \<noteq> Some proof then Inl MailboxLeaseConflict else Inr m)
     else commit s (assertAuthorityOpen k s) (\<lambda>_.
       commit s (assertActiveLease m (js_get (leases s) (messageKey m)) tok now) (\<lambda>x.
       commit s (checks [ensure (ownerId x = own) MailboxLeaseConflict, ensure (\<not> earlier_pending m s) MailboxOrderConflict]) (\<lambda>_.
       commit s (laterMailboxTimestamp (updatedAt m) now) (\<lambda>at.
       commit s (incrementMailboxDecimal (revision m) (maxCounterDigits l) ''revision'') (\<lambda>rev.
       let updated = m\<lparr>status := Completed, revision := rev, updatedAt := at, completedAt := Some at\<rparr> in
       ((put_message updated s)\<lparr>leases := js_delete (messageKey m) (leases s),
          releasedLeaseProofs := js_delete (messageKey m) (releasedLeaseProofs s),
          settledLeaseProofs := js_set (messageKey m) proof (settledLeaseProofs s)\<rparr>, Inr updated))))))))"

definition abandon :: "mailbox_limits \<Rightarrow> sequence_key \<Rightarrow> js_string \<Rightarrow> js_string \<Rightarrow> js_string \<Rightarrow> mailbox \<Rightarrow> mailbox \<times> message result" where
  "abandon l k tok own now s =
     commit s (checks [validateMailboxMessageSequenceKey k l, validateMailboxIdentifier tok (maxIdentifierBytes l) ''lease_token'',
       validateMailboxIdentifier own (maxIdentifierBytes l) ''lease_owner_id'', validateMailboxTimestamp now,
       assertAuthorityOpen k s]) (\<lambda>_.
     commit s (findRequired k s) (\<lambda>m.
     let proof = leaseProofKey tok own; found = js_get (leases s) (messageKey m) in
     if status m = Pending \<and> found = None
     then (s, if js_get (releasedLeaseProofs s) (messageKey m) \<noteq> Some proof then Inl MailboxLeaseConflict else Inr m)
     else commit s (assertActiveLease m found tok now) (\<lambda>x.
       commit s (ensure (ownerId x = own) MailboxLeaseConflict) (\<lambda>_.
       commit s (incrementMailboxDecimal (revision m) (maxCounterDigits l) ''revision'') (\<lambda>rev.
       commit s (laterMailboxTimestamp (updatedAt m) now) (\<lambda>at.
       let updated = m\<lparr>revision := rev, updatedAt := at\<rparr> in
       ((put_message updated s)\<lparr>leases := js_delete (messageKey m) (leases s),
          releasedLeaseProofs := js_set (messageKey m) proof (releasedLeaseProofs s)\<rparr>, Inr updated)))))))"

definition cancel :: "mailbox_limits \<Rightarrow> message_key \<Rightarrow> js_string \<Rightarrow> js_string \<Rightarrow> mailbox \<Rightarrow> mailbox \<times> message result" where
  "cancel l k expected now s =
     commit s (checks [validateMailboxMessageKey k l, validateMailboxDecimal expected ''revision'' (maxCounterDigits l),
       validateMailboxTimestamp now, assertAuthorityOpen k s]) (\<lambda>_.
     let key = messageMapKey k (mk_messageId k) in
     case js_get (messages s) key of
       None \<Rightarrow> (s, Inl MailboxNotFound)
     | Some m \<Rightarrow>
         commit s (checks [ensure (revision m = expected) MailboxRevisionConflict, ensure (status m = Pending) MailboxTerminal,
           ensure (\<not> now < updatedAt m) MailboxLeaseConflict,
           ensure (case js_get (leases s) (messageKey m) of None \<Rightarrow> True | Some x \<Rightarrow> expiresAt x \<le> now) MailboxLeaseConflict]) (\<lambda>_.
         commit s (laterMailboxTimestamp (updatedAt m) now) (\<lambda>at.
         commit s (incrementMailboxDecimal (revision m) (maxCounterDigits l) ''revision'') (\<lambda>rev.
         let updated = m\<lparr>status := Cancelled, revision := rev, updatedAt := at, cancelledAt := Some at\<rparr> in
         (s\<lparr>messages := js_set key updated (messages s), leases := js_delete (messageKey m) (leases s),
            releasedLeaseProofs := js_delete (messageKey m) (releasedLeaseProofs s)\<rparr>, Inr updated)))))"

definition purge_message :: "message \<Rightarrow> mailbox \<Rightarrow> mailbox" where
  "purge_message m s =
     (let key = messageMapKey (recipient m) (messageId m) in
      s\<lparr>messages := js_delete key (messages s), fingerprints := js_delete key (fingerprints s),
        leases := js_delete (messageKey m) (leases s),
        settledLeaseProofs := js_delete (messageKey m) (settledLeaseProofs s),
        releasedLeaseProofs := js_delete (messageKey m) (releasedLeaseProofs s)\<rparr>)"

definition purgeTerminal :: "mailbox_limits \<Rightarrow> work_lane \<Rightarrow> js_string \<Rightarrow> int \<Rightarrow> mailbox \<Rightarrow> mailbox \<times> int list result" where
  "purgeTerminal l r before n s =
     commit s (checks [normalizeMailboxRecipient r l, validateMailboxTimestamp before,
       validateMailboxPageLimit n (maxPurgeBatchSize l) ''invalid_mailbox_purge_limit'']) (\<lambda>_.
     let selected = take (nat n) (filter (\<lambda>m. status m \<noteq> Pending \<and> updatedAt m < before) (recipientMessages r s)) in
     (fold purge_message selected s, Inr (map messageKey selected)))"

section \<open>Retirement of a recipient's authority\<close>

definition findRetirement :: "work_retirement \<Rightarrow> mailbox \<Rightarrow> retirement_record option result" where
  "findRetirement q s =
     (let key = retirementMapKey (wr_partition q); idKey = js_get (retirementIds s) (wr_retirementId q);
          existing = js_get (retirements s) key in
      if (idKey \<noteq> None \<and> idKey \<noteq> Some key) \<or>
         (case existing of None \<Rightarrow> False
          | Some x \<Rightarrow> wr_retirementId x \<noteq> wr_retirementId q \<or> wr_recordedAt x \<noteq> wr_recordedAt q)
      then Inl WorkAuthorityRetirementConflict else Inr existing)"

definition cancel_retired :: "mailbox_limits \<Rightarrow> work_retirement \<Rightarrow> message \<Rightarrow> message result" where
  "cancel_retired l q m =
     rbind (laterMailboxTimestamp (updatedAt m) (wr_recordedAt q)) (\<lambda>at.
     rbind (incrementMailboxDecimal (revision m) (maxCounterDigits l) ''revision'') (\<lambda>rev.
     Inr (m\<lparr>status := Cancelled, cancelledAt := Some at, updatedAt := at, revision := rev\<rparr>)))"

definition store_cancelled :: "message \<Rightarrow> mailbox \<Rightarrow> mailbox" where
  "store_cancelled m s =
     (let s1 = put_message m s in
      s1\<lparr>leases := js_delete (messageKey m) (leases s1), releasedLeaseProofs := js_delete (messageKey m) (releasedLeaseProofs s1)\<rparr>)"

definition commitRetirement ::
  "mailbox_limits \<Rightarrow> work_retirement \<Rightarrow> retirement_phase \<Rightarrow> int \<Rightarrow> mailbox \<Rightarrow> mailbox \<times> retirement_record result" where
  "commitRetirement l q ph cancelled s =
     (let selected = filter (\<lambda>m. status m = Pending \<and> (ph = Finalized \<or> \<not> js_has (leases s) (messageKey m)))
        (recipientMessages (wr_partition q) s) in
      commit s (checks [ensure (int (length selected) \<le> maxPendingMessagesPerRecipient l) (MailboxCapacity ''recipient''),
        ensure (int (length selected) \<le> maxPendingMessagesPerTimelineGeneration l) (MailboxCapacity ''timeline_generation'')]) (\<lambda>_.
      commit s (map_checked (cancel_retired l q) selected) (\<lambda>updates.
      let rec = work_retirement.extend q (retirement_record.fields ph (cancelled + int (length updates))) in
      commit s (ensure (is_safe_integer (cancelledMessageCount rec)) (MailboxValidation ''mailbox_retirement_count_overflow'')) (\<lambda>_.
      let key = retirementMapKey (wr_partition q) in
      (fold store_cancelled updates
         (s\<lparr>retirements := js_set key rec (retirements s), retirementIds := js_set (wr_retirementId q) key (retirementIds s)\<rparr>),
       Inr rec)))))"

definition beginAuthorityRetirement :: "mailbox_limits \<Rightarrow> work_retirement \<Rightarrow> mailbox \<Rightarrow> mailbox \<times> retirement_record result" where
  "beginAuthorityRetirement l i s =
     commit s (normalizeMailboxAuthorityRetirement i l) (\<lambda>q.
     commit s (findRetirement q s) (\<lambda>existing.
     case existing of Some x \<Rightarrow> (s, Inr x) | None \<Rightarrow> commitRetirement l q Fenced 0 s))"

definition finalizeAuthorityRetirement :: "mailbox_limits \<Rightarrow> work_retirement \<Rightarrow> mailbox \<Rightarrow> mailbox \<times> retirement_record result" where
  "finalizeAuthorityRetirement l i s =
     commit s (normalizeMailboxAuthorityRetirement i l) (\<lambda>q.
     commit s (findRetirement q s) (\<lambda>existing.
     case existing of
       None \<Rightarrow> (s, Inl WorkAuthorityRetirementConflict)
     | Some x \<Rightarrow> if phase x = Finalized then (s, Inr x) else commitRetirement l q Finalized (cancelledMessageCount x) s))"

definition readAuthorityRetirement :: "mailbox_limits \<Rightarrow> work_lane \<Rightarrow> mailbox \<Rightarrow> retirement_record option result" where
  "readAuthorityRetirement l r s =
     rbind (normalizeMailboxRecipient r l) (\<lambda>_. Inr (js_get (retirements s) (retirementMapKey r)))"

end
