(* ===== verification/Mailbox_Inv.thy ===== *)
theory Mailbox_Inv
  imports Mailbox_Store
begin

text \<open>
  The invariant of the mailbox store and its preservation by every operation: identities and order of
  messages, leases only on pending messages, proofs only on what they prove, completion in order,
  capacities, and nothing pending outside a lease once a recipient is fenced.
\<close>

section \<open>The invariant\<close>

definition message_wf :: "message \<Rightarrow> bool" where
  "message_wf m \<longleftrightarrow> is_positive_decimal (revision m) \<and> is_decimal (attempt m) \<and> is_timestamp (createdAt m) \<and>
     is_timestamp (updatedAt m) \<and> createdAt m \<le> updatedAt m \<and>
     (case status m of
        Pending \<Rightarrow> completedAt m = None \<and> cancelledAt m = None
      | Completed \<Rightarrow> completedAt m = Some (updatedAt m) \<and> cancelledAt m = None
      | Cancelled \<Rightarrow> completedAt m = None \<and> cancelledAt m = Some (updatedAt m))"

definition stored :: "mailbox \<Rightarrow> message \<Rightarrow> bool" where
  "stored s m \<longleftrightarrow> js_get (messages s) (messageMapKey (recipient m) (messageId m)) = Some m"

definition maps_ok :: "mailbox \<Rightarrow> bool" where
  "maps_ok s \<longleftrightarrow> js_ok (messages s) \<and> js_ok (fingerprints s) \<and> js_ok (leases s) \<and> js_ok (settledLeaseProofs s) \<and>
     js_ok (releasedLeaseProofs s) \<and> js_ok (retirements s) \<and> js_ok (retirementIds s)"

definition messages_filed :: "mailbox \<Rightarrow> bool" where
  "messages_filed s \<longleftrightarrow> (\<forall>k m. js_get (messages s) k = Some m \<longrightarrow> k = messageMapKey (recipient m) (messageId m) \<and>
     message_wf m \<and> 1 \<le> messageKey m \<and> messageKey m < nextMessageKey s) \<and>
     sorted_wrt (<) (map messageKey (js_values (messages s))) \<and> 1 \<le> nextMessageKey s"

definition prints_ok :: "mailbox \<Rightarrow> bool" where
  "prints_ok s \<longleftrightarrow> (\<forall>k. js_get (fingerprints s) k = map_option (\<lambda>m. canonical (draft_json m)) (js_get (messages s) k))"

definition leases_ok :: "mailbox \<Rightarrow> bool" where
  "leases_ok s \<longleftrightarrow> (\<forall>n x. js_get (leases s) n = Some x \<longrightarrow>
     (\<exists>m. stored s m \<and> messageKey m = n \<and> status m = Pending \<and> updatedAt m < expiresAt x))"

definition proofs_ok :: "mailbox \<Rightarrow> bool" where
  "proofs_ok s \<longleftrightarrow>
     (\<forall>n. js_get (settledLeaseProofs s) n \<noteq> None \<longleftrightarrow> (\<exists>m. stored s m \<and> messageKey m = n \<and> status m = Completed)) \<and>
     (\<forall>n. js_get (releasedLeaseProofs s) n \<noteq> None \<longrightarrow>
        js_get (leases s) n = None \<and> (\<exists>m. stored s m \<and> messageKey m = n \<and> status m = Pending))"

definition in_order :: "mailbox \<Rightarrow> bool" where
  "in_order s \<longleftrightarrow> (\<forall>m m'. stored s m \<longrightarrow> stored s m' \<longrightarrow> sameMailboxRecipient (recipient m) (recipient m') \<longrightarrow>
     messageKey m < messageKey m' \<longrightarrow> status m' = Completed \<longrightarrow> status m \<noteq> Pending)"

definition pending_count :: "(work_lane \<Rightarrow> bool) \<Rightarrow> mailbox \<Rightarrow> nat" where
  "pending_count P s = length (filter (\<lambda>m. status m = Pending \<and> P (recipient m)) (js_values (messages s)))"

definition within_capacity :: "mailbox_limits \<Rightarrow> mailbox \<Rightarrow> bool" where
  "within_capacity l s \<longleftrightarrow>
     (\<forall>r :: work_lane. int (pending_count (\<lambda>x. sameMailboxRecipient x r) s) \<le> maxPendingMessagesPerRecipient l) \<and>
     (\<forall>r :: work_lane. int (pending_count (\<lambda>x. sameMailboxGeneration x r) s) \<le> maxPendingMessagesPerTimelineGeneration l)"

definition fenced_ok :: "mailbox \<Rightarrow> bool" where
  "fenced_ok s \<longleftrightarrow> (\<forall>k x. js_get (retirements s) k = Some x \<longrightarrow>
     k = retirementMapKey (wr_partition x) \<and> js_get (retirementIds s) (wr_retirementId x) = Some k \<and>
     (\<forall>m. stored s m \<longrightarrow> status m = Pending \<longrightarrow> retirementMapKey (recipient m) = k \<longrightarrow>
        phase x = Fenced \<and> js_has (leases s) (messageKey m)))"

definition mailbox_inv :: "mailbox_limits \<Rightarrow> mailbox \<Rightarrow> bool" where
  "mailbox_inv l s \<longleftrightarrow> maps_ok s \<and> messages_filed s \<and> prints_ok s \<and> leases_ok s \<and> proofs_ok s \<and> in_order s \<and>
     within_capacity l s \<and> fenced_ok s"

lemma messageMapKey_inject [simp]:
  fixes r :: "'a work_lane_scheme" and r' :: "'b work_lane_scheme"
  shows "messageMapKey r i = messageMapKey r' i' \<longleftrightarrow> sameMailboxRecipient r r' \<and> i = i'"
  by (auto simp: messageMapKey_def sameMailboxRecipient_def sameMailboxGeneration_def)

lemma retirementMapKey_inject [simp]:
  fixes r :: "'a work_lane_scheme" and r' :: "'b work_lane_scheme"
  shows "retirementMapKey r = retirementMapKey r' \<longleftrightarrow> sameMailboxRecipient r r'"
  by (auto simp: retirementMapKey_def sameMailboxRecipient_def sameMailboxGeneration_def)

lemma same_recipient_eq: "sameMailboxRecipient (r :: work_lane) r' \<longleftrightarrow> r = r'"
  by (auto simp: sameMailboxRecipient_def sameMailboxGeneration_def)

lemma stored_value: "maps_ok s \<Longrightarrow> messages_filed s \<Longrightarrow> m \<in> set (js_values (messages s)) \<longleftrightarrow> stored s m"
  by (auto simp: stored_def messages_filed_def maps_ok_def set_js_values)

lemma stored_unique_key:
  "maps_ok s \<Longrightarrow> messages_filed s \<Longrightarrow> stored s m \<Longrightarrow> stored s m' \<Longrightarrow> messageKey m = messageKey m' \<Longrightarrow> m = m'"
  by (rule sorted_keys_inject [where f = messageKey and xs = "js_values (messages s)"])
    (auto simp: messages_filed_def stored_value)

lemma empty_mailbox_inv: "validateMailboxLimits l = Inr () \<Longrightarrow> mailbox_inv l empty_mailbox"
  by (simp add: mailbox_inv_def empty_mailbox_def maps_ok_def messages_filed_def prints_ok_def leases_ok_def proofs_ok_def
      in_order_def within_capacity_def fenced_ok_def stored_def pending_count_def js_values_def validateMailboxLimits_def
      rbind_eq_Inr validate_limit_def)

section \<open>Replacing one message\<close>

text \<open>\<open>m'\<close> is a later state of the stored message \<open>m\<close>: same identity, key and draft.\<close>

definition same_message :: "message \<Rightarrow> message \<Rightarrow> bool" where
  "same_message m m' \<longleftrightarrow> messageId m' = messageId m \<and> recipient m' = recipient m \<and> messageKey m' = messageKey m \<and>
     draft_json m' = draft_json m \<and> createdAt m' = createdAt m"

definition update :: "message \<Rightarrow> lease option \<Rightarrow> js_string option \<Rightarrow> js_string option \<Rightarrow> mailbox \<Rightarrow> mailbox \<Rightarrow> bool" where
  "update m' x st rl s s' \<longleftrightarrow>
     s' = s\<lparr>messages := js_set (messageMapKey (recipient m') (messageId m')) m' (messages s), leases := leases s',
            settledLeaseProofs := settledLeaseProofs s', releasedLeaseProofs := releasedLeaseProofs s'\<rparr> \<and>
     js_get (leases s') = (js_get (leases s))(messageKey m' := x) \<and>
     js_get (settledLeaseProofs s') = (js_get (settledLeaseProofs s))(messageKey m' := st) \<and>
     js_get (releasedLeaseProofs s') = (js_get (releasedLeaseProofs s))(messageKey m' := rl) \<and>
     js_ok (leases s') \<and> js_ok (settledLeaseProofs s') \<and> js_ok (releasedLeaseProofs s')"

lemma update_fields:
  assumes "update m' x st rl s s'"
  shows "messages s' = js_set (messageMapKey (recipient m') (messageId m')) m' (messages s)"
    "fingerprints s' = fingerprints s" "retirements s' = retirements s" "retirementIds s' = retirementIds s"
    "nextMessageKey s' = nextMessageKey s"
    "js_get (leases s') = (js_get (leases s))(messageKey m' := x)"
    "js_get (settledLeaseProofs s') = (js_get (settledLeaseProofs s))(messageKey m' := st)"
    "js_get (releasedLeaseProofs s') = (js_get (releasedLeaseProofs s))(messageKey m' := rl)"
proof -
  have eq: "s' = s\<lparr>messages := js_set (messageMapKey (recipient m') (messageId m')) m' (messages s), leases := leases s',
      settledLeaseProofs := settledLeaseProofs s', releasedLeaseProofs := releasedLeaseProofs s'\<rparr>"
    using assms by (simp only: update_def)
  show "messages s' = js_set (messageMapKey (recipient m') (messageId m')) m' (messages s)"
    by (rule trans [OF arg_cong [OF eq, of messages]]) simp
  show "fingerprints s' = fingerprints s" by (rule trans [OF arg_cong [OF eq, of fingerprints]]) simp
  show "retirements s' = retirements s" by (rule trans [OF arg_cong [OF eq, of retirements]]) simp
  show "retirementIds s' = retirementIds s" by (rule trans [OF arg_cong [OF eq, of retirementIds]]) simp
  show "nextMessageKey s' = nextMessageKey s" by (rule trans [OF arg_cong [OF eq, of nextMessageKey]]) simp
qed (use assms in \<open>simp_all only: update_def\<close>)

lemma stored_update:
  assumes "maps_ok s" "messages_filed s" "stored s m" "same_message m m'" "update m' x st rl s s'"
  shows "stored s' p \<longleftrightarrow> p = m' \<or> (stored s p \<and> messageKey p \<noteq> messageKey m)"
proof -
  have id: "messageMapKey (recipient m') (messageId m') = messageMapKey (recipient m) (messageId m)"
    using assms(4) by (simp add: same_message_def sameMailboxRecipient_def sameMailboxGeneration_def)
  show ?thesis
  proof (cases "messageMapKey (recipient p) (messageId p) = messageMapKey (recipient m) (messageId m)")
    case True
    then have "stored s' p \<longleftrightarrow> p = m'"
      by (auto simp: stored_def update_fields(1) [OF assms(5)] js_get_set id simp del: messageMapKey_inject)
    moreover have "stored s p \<Longrightarrow> p = m" using True assms(3) by (simp add: stored_def del: messageMapKey_inject)
    ultimately show ?thesis by auto
  next
    case False
    then have "stored s' p \<longleftrightarrow> stored s p"
      by (auto simp: stored_def update_fields(1) [OF assms(5)] js_get_set id simp del: messageMapKey_inject)
    moreover have "p \<noteq> m'" using False id by (auto simp del: messageMapKey_inject)
    moreover have "stored s p \<Longrightarrow> messageKey p \<noteq> messageKey m"
      using False stored_unique_key [OF assms(1,2) _ assms(3), of p] by metis
    ultimately show ?thesis by auto
  qed
qed

lemma replaced_values:
  assumes "stored s m" "same_message m m'" "update m' x st rl s s'"
  obtains xs ys where "js_values (messages s) = xs @ m # ys" "js_values (messages s') = xs @ m' # ys"
proof -
  have "js_get (messages s) (messageMapKey (recipient m') (messageId m')) = Some m"
    using assms(1,2) by (simp add: stored_def same_message_def)
  from js_values_set_present [OF this, of m'] show ?thesis using that update_fields(1) [OF assms(3)] by auto
qed

lemma pending_count_update:
  assumes "stored s m" "same_message m m'" "update m' x st rl s s'" "status m = Pending"
  shows "pending_count P s' \<le> pending_count P s"
proof -
  obtain xs ys where "js_values (messages s) = xs @ m # ys" "js_values (messages s') = xs @ m' # ys"
    by (rule replaced_values [OF assms(1-3)])
  then show ?thesis using assms(2,4) by (simp add: pending_count_def same_message_def)
qed

lemma within_capacity_mono:
  "within_capacity l s \<Longrightarrow> (\<And>P. pending_count P s' \<le> pending_count P s) \<Longrightarrow> within_capacity l s'"
  unfolding within_capacity_def by (meson of_nat_le_iff order_trans)

text \<open>What an update must satisfy to keep the invariant.\<close>

definition update_ok :: "message \<Rightarrow> lease option \<Rightarrow> js_string option \<Rightarrow> js_string option \<Rightarrow> mailbox \<Rightarrow> bool" where
  "update_ok m' x st rl s \<longleftrightarrow> message_wf m' \<and>
     (\<forall>y. x = Some y \<longrightarrow> status m' = Pending \<and> updatedAt m' < expiresAt y) \<and>
     (st \<noteq> None \<longleftrightarrow> status m' = Completed) \<and> (rl \<noteq> None \<longrightarrow> status m' = Pending \<and> x = None) \<and>
     (status m' = Completed \<longrightarrow> (\<forall>p. stored s p \<longrightarrow> sameMailboxRecipient (recipient p) (recipient m') \<longrightarrow>
        messageKey p < messageKey m' \<longrightarrow> status p \<noteq> Pending)) \<and>
     (status m' = Pending \<longrightarrow> \<not> js_has (retirements s) (retirementMapKey (recipient m')))"

lemma update_inv:
  assumes inv: "mailbox_inv l s" and m: "stored s m" "status m = Pending" and same: "same_message m m'"
    and up: "update m' x st rl s s'" and ok: "update_ok m' x st rl s"
  shows "mailbox_inv l s'"
proof -
  from inv have i: "maps_ok s" "messages_filed s" "prints_ok s" "leases_ok s" "proofs_ok s" "in_order s" "within_capacity l s"
    "fenced_ok s" by (simp_all add: mailbox_inv_def)
  note st = stored_update [OF i(1,2) m(1) same up]
  note f = update_fields [OF up]
  have key: "messageKey m' = messageKey m" and rec: "recipient m' = recipient m" and mid: "messageId m' = messageId m"
    and draft: "draft_json m' = draft_json m" using same by (simp_all add: same_message_def)
  have unique: "p = m" if "stored s p" "messageKey p = messageKey m" for p
    using stored_unique_key [OF i(1,2)] m(1) that by blast
  have get: "js_get (messages s) (messageMapKey (recipient m') (messageId m')) = Some m"
    using m(1) by (simp add: stored_def rec mid)
  obtain xs ys where vals: "js_values (messages s) = xs @ m # ys" "js_values (messages s') = xs @ m' # ys"
    by (rule replaced_values [OF m(1) same up])
  have "maps_ok s'" using i(1) up f by (simp add: maps_ok_def update_def)
  moreover have "messages_filed s'"
  proof -
    have "map messageKey (js_values (messages s')) = map messageKey (js_values (messages s))" using vals key by simp
    moreover have "k = messageMapKey (recipient p) (messageId p) \<and> message_wf p \<and> 1 \<le> messageKey p \<and> messageKey p < nextMessageKey s'"
      if "js_get (messages s') k = Some p" for k p
      using that i(2) ok get key f(1,5)
      by (auto simp: messages_filed_def update_ok_def js_get_set split: if_splits simp del: messageMapKey_inject)
    ultimately show ?thesis using i(2) f(5) by (simp add: messages_filed_def)
  qed
  moreover have "prints_ok s'"
    using i(3) f(1,2) get draft by (auto simp: prints_ok_def js_get_set simp del: messageMapKey_inject)
  moreover have "leases_ok s'"
    unfolding leases_ok_def
  proof (intro allI impI)
    fix n y assume "js_get (leases s') n = Some y"
    then show "\<exists>p. stored s' p \<and> messageKey p = n \<and> status p = Pending \<and> updatedAt p < expiresAt y"
      using i(4) ok unfolding f(6) leases_ok_def st update_ok_def key by (cases "n = messageKey m") (auto simp: key)
  qed
  moreover have "proofs_ok s'"
    unfolding proofs_ok_def
  proof (intro conjI allI)
    fix n
    show "(js_get (settledLeaseProofs s') n \<noteq> None) \<longleftrightarrow> (\<exists>p. stored s' p \<and> messageKey p = n \<and> status p = Completed)"
      using i(5) ok unfolding f(7) proofs_ok_def st update_ok_def key by (cases "n = messageKey m") (auto simp: key)
    show "js_get (releasedLeaseProofs s') n \<noteq> None \<longrightarrow>
        js_get (leases s') n = None \<and> (\<exists>p. stored s' p \<and> messageKey p = n \<and> status p = Pending)"
      using i(5) ok unfolding f(6,8) proofs_ok_def st update_ok_def key by (cases "n = messageKey m") (auto simp: key)
  qed
  moreover have "in_order s'"
    unfolding in_order_def
  proof (intro allI impI)
    fix p q
    assume *: "stored s' p" "stored s' q" "sameMailboxRecipient (recipient p) (recipient q)" "messageKey p < messageKey q"
      "status q = Completed"
    then have "p = m' \<or> stored s p" "q = m' \<or> stored s q" using st by blast+
    then show "status p \<noteq> Pending"
      using * i(6) ok m key rec unfolding in_order_def update_ok_def by (metis less_irrefl)
  qed
  moreover have "within_capacity l s'"
    using within_capacity_mono [OF i(7)] pending_count_update [OF m(1) same up m(2)] by blast
  moreover have "fenced_ok s'"
    unfolding fenced_ok_def f(3,4)
  proof (intro allI impI)
    fix k y
    assume y: "js_get (retirements s) k = Some y"
    show "k = retirementMapKey (wr_partition y) \<and> js_get (retirementIds s) (wr_retirementId y) = Some k \<and>
       (\<forall>p. stored s' p \<longrightarrow> status p = Pending \<longrightarrow> retirementMapKey (recipient p) = k \<longrightarrow>
          phase y = Fenced \<and> js_has (leases s') (messageKey p))"
    proof (intro conjI allI impI)
      fix p
      assume p: "stored s' p" "status p = Pending" "retirementMapKey (recipient p) = k"
      have "p \<noteq> m'" using ok y p by (auto simp: update_ok_def js_has_def)
      then have "stored s p" "messageKey p \<noteq> messageKey m" using p(1) st by blast+
      then show "phase y = Fenced" "js_has (leases s') (messageKey p)"
        using i(8) y p by (auto simp: fenced_ok_def js_has_def f(6) key)
    qed (use i(8) y in \<open>auto simp: fenced_ok_def\<close>)
  qed
  ultimately show ?thesis by (simp add: mailbox_inv_def)
qed

end
