(* ===== verification/Mailbox_Ops.thy ===== *)
theory Mailbox_Ops
  imports Mailbox_Inv
begin

text \<open>
  What the checks of the mailbox store establish, and the operations on one message: renew, complete, abandon
  and cancel each leave the store unchanged or take one step that keeps the invariant.
\<close>

section \<open>Checks\<close>

lemma mailbox_timestamp_Inr [simp]: "validateMailboxTimestamp t = Inr u \<longleftrightarrow> is_timestamp t"
  by (simp add: validateMailboxTimestamp_def)

lemma incrementMailboxDecimal_Inr:
  "incrementMailboxDecimal t maximum name = Inr t' \<longleftrightarrow>
     is_decimal t \<and> int (length t) \<le> maximum \<and> t' = to_decimal (Suc (of_decimal t)) \<and> int (length t') \<le> maximum"
  by (auto simp: incrementMailboxDecimal_def validateMailboxDecimal_def rbind_eq_Inr)

lemma laterMailboxTimestamp_Inr:
  "laterMailboxTimestamp a b = Inr c \<longleftrightarrow> is_timestamp a \<and> is_timestamp b \<and> c = max a b"
  by (auto simp: laterMailboxTimestamp_def rbind_eq_Inr max_def)

lemma assertActiveLease_Inr:
  "assertActiveLease m y tok now = Inr x \<longleftrightarrow>
     y = Some x \<and> status m = Pending \<and> token x = tok \<and> updatedAt m \<le> now \<and> now < expiresAt x"
  by (auto simp: assertActiveLease_def split: option.splits)

lemma recipient_open_Inr: "assertAuthorityOpen k s = Inr u \<longleftrightarrow> \<not> js_has (retirements s) (retirementMapKey k)"
  by (simp add: assertAuthorityOpen_def)

lemma sorted_sort_key: "sorted_wrt (<) (map f xs) \<Longrightarrow> sort_key f xs = (xs :: 'a list)" for f :: "'a \<Rightarrow> int"
  by (rule sort_key_id_if_sorted) (auto intro: sorted_wrt_mono_rel [of _ "(<)"])

lemma recipientMessages_eq:
  "messages_filed s \<Longrightarrow> recipientMessages r s = filter (\<lambda>m. sameMailboxRecipient (recipient m) r) (js_values (messages s))"
  unfolding recipientMessages_def
  by (rule sorted_sort_key) (simp add: messages_filed_def sorted_wrt_map sorted_wrt_filter)

lemma recipientMessages_set:
  "maps_ok s \<Longrightarrow> messages_filed s \<Longrightarrow> m \<in> set (recipientMessages r s) \<longleftrightarrow> stored s m \<and> sameMailboxRecipient (recipient m) r"
  by (auto simp: recipientMessages_eq stored_value)

lemma find_stored:
  assumes "maps_ok s" "messages_filed s"
    and "find (\<lambda>m. messageKey m = sk_messageKey k \<and> sameMailboxRecipient (recipient m) k) (js_values (messages s)) = Some m"
  shows "stored s m \<and> messageKey m = sk_messageKey k \<and> sameMailboxRecipient (recipient m) k"
  using assms(3) stored_value [OF assms(1,2), of m] by (auto simp: find_Some_iff)

lemma findRequired_Inr:
  assumes "maps_ok s" "messages_filed s" "findRequired k s = Inr m"
  shows "stored s m \<and> messageKey m = sk_messageKey k \<and> sameMailboxRecipient (recipient m) k"
  using assms(3) find_stored [OF assms(1,2), of k m] by (auto simp: findRequired_def split: option.splits)

lemma earlier_pending_iff:
  "maps_ok s \<Longrightarrow> messages_filed s \<Longrightarrow> earlier_pending m s \<longleftrightarrow>
     (\<exists>p. stored s p \<and> sameMailboxRecipient (recipient p) (recipient m) \<and> messageKey p < messageKey m \<and> status p = Pending)"
  by (auto simp: earlier_pending_def list_ex_iff recipientMessages_set)

lemma mailbox_invD:
  assumes "mailbox_inv l s"
  shows "maps_ok s" "messages_filed s" "prints_ok s" "leases_ok s" "proofs_ok s" "in_order s" "within_capacity l s" "fenced_ok s"
  using assms by (simp_all add: mailbox_inv_def)

lemma stored_wf: "mailbox_inv l s \<Longrightarrow> stored s m \<Longrightarrow> message_wf m"
  by (auto simp: stored_def mailbox_inv_def messages_filed_def)

lemma pending_unsettled: "mailbox_inv l s \<Longrightarrow> stored s m \<Longrightarrow> status m = Pending \<Longrightarrow> js_get (settledLeaseProofs s) (messageKey m) = None"
  using stored_unique_key [OF mailbox_invD(1,2)] mailbox_invD(5) unfolding proofs_ok_def by (metis message_status.distinct(1))

lemma leased_unreleased: "mailbox_inv l s \<Longrightarrow> js_get (leases s) n = Some x \<Longrightarrow> js_get (releasedLeaseProofs s) n = None"
  using mailbox_invD(5) unfolding proofs_ok_def by (metis option.distinct(1))

lemma same_key_open:
  fixes k :: "'a work_lane_scheme"
  assumes "sameMailboxRecipient (recipient m) k" "\<not> js_has (retirements s) (retirementMapKey k)"
  shows "\<not> js_has (retirements s) (retirementMapKey (recipient m))"
  using assms retirementMapKey_inject [of "recipient m" k] by metis

lemma wf_decimals: "message_wf m \<Longrightarrow> is_decimal (revision m) \<and> is_decimal (attempt m) \<and> is_timestamp (updatedAt m)"
  by (simp add: message_wf_def is_positive_decimal_is_decimal)

section \<open>Settling\<close>

lemma put_message_fields [simp]:
  "fingerprints (put_message m s) = fingerprints s" "retirements (put_message m s) = retirements s"
  "retirementIds (put_message m s) = retirementIds s" "nextMessageKey (put_message m s) = nextMessageKey s"
  "leases (put_message m s) = leases s" "settledLeaseProofs (put_message m s) = settledLeaseProofs s"
  "releasedLeaseProofs (put_message m s) = releasedLeaseProofs s"
  "messages (put_message m s) = js_set (messageMapKey (recipient m) (messageId m)) m (messages s)"
  by (simp_all add: put_message_def)

text \<open>A step that replaces one pending message by a later state of it.\<close>

definition message_step :: "mailbox \<Rightarrow> mailbox \<Rightarrow> bool" where
  "message_step s s' \<longleftrightarrow> (\<exists>m m' x st rl. stored s m \<and> status m = Pending \<and> same_message m m' \<and>
     revision m' = to_decimal (Suc (of_decimal (revision m))) \<and> update m' x st rl s s' \<and> update_ok m' x st rl s)"

lemma message_step_inv: "mailbox_inv l s \<Longrightarrow> message_step s s' \<Longrightarrow> mailbox_inv l s'"
  unfolding message_step_def using update_inv by blast

lemma renewed_step:
  assumes inv: "mailbox_inv l s" and m: "stored s m" and opened: "\<not> js_has (retirements s) (retirementMapKey (recipient m))"
    and active: "assertActiveLease m (js_get (leases s) (messageKey m)) tok now = Inr x"
    and t: "is_timestamp now" "now < e" and rv: "incrementMailboxDecimal (revision m) digits name = Inr rv"
  shows "message_step s ((put_message (m\<lparr>revision := rv, updatedAt := now\<rparr>) s)\<lparr>leases :=
     js_set (messageKey m) (x\<lparr>expiresAt := e\<rparr>) (leases s)\<rparr>)" (is "message_step s ?s")
proof -
  let ?m = "m\<lparr>revision := rv, updatedAt := now\<rparr>"
  have a: "js_get (leases s) (messageKey m) = Some x" "status m = Pending" "updatedAt m \<le> now"
    using active by (auto simp: assertActiveLease_Inr)
  have "message_wf ?m" using stored_wf [OF inv m] a t rv by (auto simp: message_wf_def incrementMailboxDecimal_Inr)
  then have "update_ok ?m (Some (x\<lparr>expiresAt := e\<rparr>)) None None s" using a t opened by (auto simp: update_ok_def)
  moreover have "update ?m (Some (x\<lparr>expiresAt := e\<rparr>)) None None s ?s"
    using mailbox_invD(1) [OF inv] pending_unsettled [OF inv m a(2)] leased_unreleased [OF inv a(1)]
    by (auto simp: update_def maps_ok_def js_get_set put_message_def)
  moreover have "same_message m ?m" by (simp add: same_message_def draft_json_def)
  ultimately show ?thesis unfolding message_step_def using m a(2) rv
    by (intro exI [of _ m] exI [of _ ?m]) (auto simp: incrementMailboxDecimal_Inr)
qed

lemma renew_step:
  assumes inv: "mailbox_inv l s"
  shows "fst (renew l q s) = s \<or> message_step s (fst (renew l q s))"
proof (cases "renew l q s")
  case (Pair s' out)
  show ?thesis
  proof (cases "s' = s")
    case False
    from Pair [unfolded renew_def] obtain m where found: "findRequired q s = Inr m"
      using False by (elim commit_cases) auto
    note m = findRequired_Inr [OF mailbox_invD(1,2) [OF inv] found]
    from Pair False obtain x rv where *:
      "\<not> js_has (retirements s) (retirementMapKey q)"
      "assertActiveLease m (js_get (leases s) (messageKey m)) (rn_leaseToken q) (rn_operationalNow q) = Inr x"
      "is_timestamp (rn_operationalNow q)" "rn_operationalNow q < rn_leaseExpiresAt q"
      "incrementMailboxDecimal (revision m) (maxCounterDigits l) ''revision'' = Inr rv"
      "s' = (put_message (m\<lparr>revision := rv, updatedAt := rn_operationalNow q\<rparr>) s)\<lparr>leases :=
          js_set (messageKey m) (x\<lparr>expiresAt := rn_leaseExpiresAt q\<rparr>) (leases s)\<rparr>"
      by (auto simp: renew_def found Let_def commit_def rbind_eq_Inr recipient_open_Inr normalizeMailboxRenew_def
          split: sum.splits if_splits)
    from renewed_step [OF inv _ same_key_open *(2-5)] m *(1,6) Pair show ?thesis by auto
  qed (use Pair in simp)
qed

lemma completed_step:
  assumes inv: "mailbox_inv l s" and m: "stored s m"
    and active: "assertActiveLease m (js_get (leases s) (messageKey m)) tok now = Inr x" and first: "\<not> earlier_pending m s"
    and at: "laterMailboxTimestamp (updatedAt m) now = Inr at" and rv: "incrementMailboxDecimal (revision m) digits name = Inr rv"
  shows "message_step s ((put_message (m\<lparr>status := Completed, revision := rv, updatedAt := at, completedAt := Some at\<rparr>) s)
     \<lparr>leases := js_delete (messageKey m) (leases s), releasedLeaseProofs := js_delete (messageKey m) (releasedLeaseProofs s),
      settledLeaseProofs := js_set (messageKey m) proof (settledLeaseProofs s)\<rparr>)" (is "message_step s ?s")
proof -
  let ?m = "m\<lparr>status := Completed, revision := rv, updatedAt := at, completedAt := Some at\<rparr>"
  have a: "status m = Pending" using active by (auto simp: assertActiveLease_Inr)
  have "message_wf ?m"
    using stored_wf [OF inv m] a at rv by (auto simp: message_wf_def incrementMailboxDecimal_Inr laterMailboxTimestamp_Inr max_def)
  then have "update_ok ?m None (Some proof) None s"
    using first earlier_pending_iff [OF mailbox_invD(1,2) [OF inv], of m] by (auto simp: update_ok_def)
  moreover have "update ?m None (Some proof) None s ?s"
    using mailbox_invD(1) [OF inv] by (auto simp: update_def maps_ok_def js_get_set js_get_delete put_message_def)
  moreover have "same_message m ?m" by (simp add: same_message_def draft_json_def)
  ultimately show ?thesis unfolding message_step_def using m a rv
    by (intro exI [of _ m] exI [of _ ?m]) (auto simp: incrementMailboxDecimal_Inr)
qed

lemma complete_step:
  assumes inv: "mailbox_inv l s"
  shows "fst (complete l k tok own now s) = s \<or> message_step s (fst (complete l k tok own now s))"
proof (cases "complete l k tok own now s")
  case (Pair s' out)
  show ?thesis
  proof (cases "s' = s")
    case False
    from Pair [unfolded complete_def] obtain m where found: "findRequired k s = Inr m"
      using False by (elim commit_cases) auto
    from Pair False obtain x at rv where
      "assertActiveLease m (js_get (leases s) (messageKey m)) tok now = Inr x" "\<not> earlier_pending m s"
      "laterMailboxTimestamp (updatedAt m) now = Inr at"
      "incrementMailboxDecimal (revision m) (maxCounterDigits l) ''revision'' = Inr rv"
      "s' = (put_message (m\<lparr>status := Completed, revision := rv, updatedAt := at, completedAt := Some at\<rparr>) s)
       \<lparr>leases := js_delete (messageKey m) (leases s), releasedLeaseProofs := js_delete (messageKey m) (releasedLeaseProofs s),
        settledLeaseProofs := js_set (messageKey m) (leaseProofKey tok own) (settledLeaseProofs s)\<rparr>"
      by (auto simp: complete_def found Let_def commit_def rbind_eq_Inr split: sum.splits if_splits)
    with completed_step [OF inv, of m] findRequired_Inr [OF mailbox_invD(1,2) [OF inv] found] Pair show ?thesis by auto
  qed (use Pair in simp)
qed

lemma released_step:
  assumes inv: "mailbox_inv l s" and m: "stored s m" and opened: "\<not> js_has (retirements s) (retirementMapKey (recipient m))"
    and active: "assertActiveLease m (js_get (leases s) (messageKey m)) tok now = Inr x"
    and at: "laterMailboxTimestamp (updatedAt m) now = Inr at" and rv: "incrementMailboxDecimal (revision m) digits name = Inr rv"
  shows "message_step s ((put_message (m\<lparr>revision := rv, updatedAt := at\<rparr>) s)\<lparr>leases := js_delete (messageKey m) (leases s),
      releasedLeaseProofs := js_set (messageKey m) proof (releasedLeaseProofs s)\<rparr>)" (is "message_step s ?s")
proof -
  let ?m = "m\<lparr>revision := rv, updatedAt := at\<rparr>"
  have a: "status m = Pending" using active by (auto simp: assertActiveLease_Inr)
  have "message_wf ?m"
    using stored_wf [OF inv m] a at rv by (auto simp: message_wf_def incrementMailboxDecimal_Inr laterMailboxTimestamp_Inr max_def)
  then have "update_ok ?m None None (Some proof) s" using a opened by (auto simp: update_ok_def)
  moreover have "update ?m None None (Some proof) s ?s"
    using mailbox_invD(1) [OF inv] pending_unsettled [OF inv m a]
    by (auto simp: update_def maps_ok_def js_get_set js_get_delete put_message_def)
  moreover have "same_message m ?m" by (simp add: same_message_def draft_json_def)
  ultimately show ?thesis unfolding message_step_def using m a rv
    by (intro exI [of _ m] exI [of _ ?m]) (auto simp: incrementMailboxDecimal_Inr)
qed

lemma abandon_step:
  assumes inv: "mailbox_inv l s"
  shows "fst (abandon l k tok own now s) = s \<or> message_step s (fst (abandon l k tok own now s))"
proof (cases "abandon l k tok own now s")
  case (Pair s' out)
  show ?thesis
  proof (cases "s' = s")
    case False
    from Pair [unfolded abandon_def] obtain m where found: "findRequired k s = Inr m"
      using False by (elim commit_cases) auto
    note m = findRequired_Inr [OF mailbox_invD(1,2) [OF inv] found]
    from Pair False obtain x at rv where *:
      "\<not> js_has (retirements s) (retirementMapKey k)"
      "assertActiveLease m (js_get (leases s) (messageKey m)) tok now = Inr x"
      "laterMailboxTimestamp (updatedAt m) now = Inr at"
      "incrementMailboxDecimal (revision m) (maxCounterDigits l) ''revision'' = Inr rv"
      "s' = (put_message (m\<lparr>revision := rv, updatedAt := at\<rparr>) s)\<lparr>leases := js_delete (messageKey m) (leases s),
        releasedLeaseProofs := js_set (messageKey m) (leaseProofKey tok own) (releasedLeaseProofs s)\<rparr>"
      by (auto simp: abandon_def found Let_def commit_def rbind_eq_Inr recipient_open_Inr split: sum.splits if_splits)
    from released_step [OF inv _ same_key_open *(2-4)] m *(1,5) Pair show ?thesis by auto
  qed (use Pair in simp)
qed

lemma cancelled_update:
  assumes inv: "mailbox_inv l s" and m: "stored s m" "status m = Pending"
    and at: "laterMailboxTimestamp (updatedAt m) now = Inr at" and rv: "incrementMailboxDecimal (revision m) digits name = Inr rv"
    and s': "s' = (put_message (m\<lparr>status := Cancelled, revision := rv, updatedAt := at, cancelledAt := Some at\<rparr>) s)
       \<lparr>leases := js_delete (messageKey m) (leases s), releasedLeaseProofs := js_delete (messageKey m) (releasedLeaseProofs s)\<rparr>"
    and m': "m' = m\<lparr>status := Cancelled, revision := rv, updatedAt := at, cancelledAt := Some at\<rparr>"
  shows "same_message m m'" and "update m' None None None s s'" and "message_step s s'"
proof -
  have "message_wf m'"
    using stored_wf [OF inv m(1)] m(2) at rv
    by (auto simp: m' message_wf_def incrementMailboxDecimal_Inr laterMailboxTimestamp_Inr max_def)
  then have ok: "update_ok m' None None None s" by (auto simp: update_ok_def m')
  show up: "update m' None None None s s'"
    using mailbox_invD(1) [OF inv] pending_unsettled [OF inv m]
    by (auto simp: update_def s' m' maps_ok_def js_get_delete put_message_def)
  show same: "same_message m m'" by (simp add: same_message_def draft_json_def m')
  have "revision m' = to_decimal (Suc (of_decimal (revision m)))" using rv by (simp add: m' incrementMailboxDecimal_Inr)
  with m same up ok show "message_step s s'" unfolding message_step_def by blast
qed

lemmas cancelled_step = cancelled_update(3) [OF _ _ _ _ _ _ refl]

lemma cancel_step:
  assumes inv: "mailbox_inv l s"
  shows "fst (cancel l k expected now s) = s \<or> message_step s (fst (cancel l k expected now s))"
proof (cases "cancel l k expected now s")
  case (Pair s' out)
  show ?thesis
  proof (cases "s' = s")
    case False
    from Pair [unfolded cancel_def] obtain m where m: "js_get (messages s) (messageMapKey k (mk_messageId k)) = Some m"
      using False by (elim commit_cases) (auto simp: Let_def split: option.splits)
    then have key: "messageMapKey k (mk_messageId k) = messageMapKey (recipient m) (messageId m)"
      using mailbox_invD(2) [OF inv] by (simp add: messages_filed_def del: messageMapKey_inject)
    then have "stored s m" using m by (simp add: stored_def del: messageMapKey_inject)
    moreover from Pair False obtain at rv where "status m = Pending" "laterMailboxTimestamp (updatedAt m) now = Inr at"
      "incrementMailboxDecimal (revision m) (maxCounterDigits l) ''revision'' = Inr rv"
      "s' = (put_message (m\<lparr>status := Cancelled, revision := rv, updatedAt := at, cancelledAt := Some at\<rparr>) s)
       \<lparr>leases := js_delete (messageKey m) (leases s), releasedLeaseProofs := js_delete (messageKey m) (releasedLeaseProofs s)\<rparr>"
      by (auto simp: cancel_def m [unfolded key] Let_def commit_def rbind_eq_Inr put_message_def key split: sum.splits simp del: messageMapKey_inject)
    ultimately show ?thesis using cancelled_step [OF inv] Pair by auto
  qed (use Pair in simp)
qed

end
