(* ===== verification/Mailbox_Claims.thy ===== *)
theory Mailbox_Claims
  imports Mailbox_Ops Samples
begin

text \<open>
  The operations of the mailbox store on several messages keep its invariant: enqueue, purge, claim and
  retirement; a claim does so even when its source of lease tokens calls back into the store.
\<close>

section \<open>Enqueue\<close>

lemma new_message_simps [simp]:
  "messageId (new_message d n) = messageId d" "recipient (new_message d n) = recipient d" "messageKey (new_message d n) = n"
  "status (new_message d n) = Pending" "revision (new_message d n) = js ''1''" "attempt (new_message d n) = js ''0''"
  "createdAt (new_message d n) = recordedAt d" "updatedAt (new_message d n) = recordedAt d"
  "completedAt (new_message d n) = None" "cancelledAt (new_message d n) = None" "draft_json (new_message d n) = draft_json d"
  by (simp_all add: new_message_def message_draft.defs message.defs draft_json_def)

definition inserted :: "message_draft \<Rightarrow> mailbox \<Rightarrow> mailbox" where
  "inserted d s = (let key = messageMapKey (recipient d) (messageId d) in
     s\<lparr>nextMessageKey := nextMessageKey s + 1, messages := js_set key (new_message d (nextMessageKey s)) (messages s),
       fingerprints := js_set key (canonical (draft_json d)) (fingerprints s)\<rparr>)"

lemma enqueue_cases:
  assumes "enqueue l i g r s = (s', out)"
  obtains (known) d m where "normalizeMailboxMessage i l = Inr d" "js_get (messages s) (messageMapKey (recipient d) (messageId d)) = Some m"
      "js_get (fingerprints s) (messageMapKey (recipient d) (messageId d)) = Some (canonical (draft_json d))" "s' = s" "out = Inr m"
  | (new) d where "normalizeMailboxMessage i l = Inr d" "js_get (messages s) (messageMapKey (recipient d) (messageId d)) = None"
      "\<not> js_has (retirements s) (retirementMapKey (recipient d))"
      "int (pending_count (\<lambda>x. sameMailboxGeneration x (recipient d)) s) < maxPendingMessagesPerTimelineGeneration l"
      "int (pending_count (\<lambda>x. sameMailboxRecipient x (recipient d)) s) < maxPendingMessagesPerRecipient l"
      "s' = inserted d s" "out = Inr (new_message d (nextMessageKey s))"
  | (failed) e where "s' = s" "out = Inl e"
proof (cases "normalizeMailboxMessage i l")
  case (Inr d)
  let ?k = "messageMapKey (recipient d) (messageId d)"
  have print: "mailboxFingerprint d = Inr (canonical (draft_json d))" by (simp add: mailboxFingerprint_def)
  let ?c = "checks [assertAuthorityOpen (recipient d) s, validateCapacity g (maxPendingMessagesPerTimelineGeneration l),
      validateCapacity r (maxPendingMessagesPerRecipient l)]"
  show thesis
  proof (cases ?c)
    case (Inl e)
    with assms Inr have "s' = s" "out = Inl e" by (simp_all add: enqueue_def commit_def)
    then show thesis by (rule that(3))
  next
    case opened: (Inr u)
    show thesis
    proof (cases "js_get (messages s) ?k")
      case (Some m)
      with assms Inr opened print have "s' = s" "out = (if js_get (fingerprints s) ?k \<noteq> Some (canonical (draft_json d)) then Inl MailboxConflict else Inr m)"
        by (auto simp: enqueue_def Let_def split: if_splits)
      with that(1) [OF Inr Some] that(3) show thesis by (cases "js_get (fingerprints s) ?k = Some (canonical (draft_json d))") auto
    next
      case None
      have count: "length (filter (\<lambda>m. sameMailboxGeneration (recipient m) (recipient d)) (pending_messages s)) =
            pending_count (\<lambda>x. sameMailboxGeneration x (recipient d)) s"
          "length (filter (\<lambda>m. sameMailboxRecipient (recipient m) (recipient d)) (pending_messages s)) =
            pending_count (\<lambda>x. sameMailboxRecipient x (recipient d)) s"
        by (simp_all add: pending_messages_def pending_count_def conj_commute)
      let ?full = "g \<le> int (pending_count (\<lambda>x. sameMailboxGeneration x (recipient d)) s) \<or>
        r \<le> int (pending_count (\<lambda>x. sameMailboxRecipient x (recipient d)) s)"
      show thesis
      proof (cases ?full)
        case True
        with assms Inr opened print None have "s' = s" "\<exists>e. out = Inl e"
          by (auto simp: enqueue_def Let_def count split: if_splits)
        with that(3) show thesis by blast
      next
        case False
        with assms Inr opened print None have "s' = inserted d s" "out = Inr (new_message d (nextMessageKey s))"
          by (auto simp: enqueue_def Let_def count inserted_def)
        moreover have "\<not> js_has (retirements s) (retirementMapKey (recipient d))" "g \<le> maxPendingMessagesPerTimelineGeneration l"
          "r \<le> maxPendingMessagesPerRecipient l" using opened by (auto simp: rbind_eq_Inr validateCapacity_def recipient_open_Inr)
        ultimately show thesis using that(2) [OF Inr None] False by auto
      qed
    qed
  qed
qed (use assms that(3) in \<open>auto simp: enqueue_def\<close>)

lemma normalized_timestamp: "normalizeMailboxMessage i l = Inr d \<Longrightarrow> is_timestamp (recordedAt d)"
  by (auto simp: normalizeMailboxMessage_def rbind_eq_Inr)

lemma inserted_inv:
  assumes inv: "mailbox_inv l s" and d: "is_timestamp (recordedAt d)"
    and new: "js_get (messages s) (messageMapKey (recipient d) (messageId d)) = None"
    and opened: "\<not> js_has (retirements s) (retirementMapKey (recipient d))"
    and cap: "int (pending_count (\<lambda>x. sameMailboxGeneration x (recipient d)) s) < maxPendingMessagesPerTimelineGeneration l"
      "int (pending_count (\<lambda>x. sameMailboxRecipient x (recipient d)) s) < maxPendingMessagesPerRecipient l"
  shows "mailbox_inv l (inserted d s)" (is "mailbox_inv l ?s")
proof -
  note i = mailbox_invD [OF inv]
  let ?m = "new_message d (nextMessageKey s)"
  have f: "messages ?s = js_set (messageMapKey (recipient d) (messageId d)) ?m (messages s)"
    "fingerprints ?s = js_set (messageMapKey (recipient d) (messageId d)) (canonical (draft_json d)) (fingerprints s)"
    "leases ?s = leases s" "settledLeaseProofs ?s = settledLeaseProofs s" "releasedLeaseProofs ?s = releasedLeaseProofs s"
    "retirements ?s = retirements s" "retirementIds ?s = retirementIds s" "nextMessageKey ?s = nextMessageKey s + 1"
    by (simp_all add: inserted_def Let_def)
  have vals: "js_values (messages ?s) = js_values (messages s) @ [?m]" using new by (simp add: f js_values_set_new)
  have st: "stored ?s p \<longleftrightarrow> p = ?m \<or> stored s p" for p
    using new by (auto simp: stored_def f js_get_set simp del: messageMapKey_inject)
  have less: "messageKey p < nextMessageKey s" if "stored s p" for p using that i(2) by (auto simp: stored_def messages_filed_def)
  have wf: "message_wf ?m" using d by (simp add: message_wf_def)
  have "maps_ok ?s" using i(1) by (simp add: maps_ok_def f)
  moreover have "messages_filed ?s"
  proof -
    have "sorted_wrt (<) (map messageKey (js_values (messages ?s)))"
      using i(2) less stored_value [OF i(1,2)] by (auto simp: vals sorted_wrt_append messages_filed_def)
    moreover have "k = messageMapKey (recipient p) (messageId p) \<and> message_wf p \<and> 1 \<le> messageKey p \<and> messageKey p < nextMessageKey s + 1"
      if "js_get (messages ?s) k = Some p" for k p
      using that i(2) wf by (fastforce simp: messages_filed_def f js_get_set split: if_splits simp del: messageMapKey_inject)
    ultimately show ?thesis using i(2) by (simp add: messages_filed_def f(8))
  qed
  moreover have "prints_ok ?s" using i(3) by (auto simp: prints_ok_def f js_get_set)
  moreover have "leases_ok ?s" using i(4) unfolding leases_ok_def st f by blast
  moreover have "proofs_ok ?s" using i(5) unfolding proofs_ok_def st f by (metis message_status.distinct(1) new_message_simps(4))
  moreover have "in_order ?s"
    unfolding in_order_def st
  proof (intro allI impI)
    fix p q
    assume "p = ?m \<or> stored s p" "q = ?m \<or> stored s q" "sameMailboxRecipient (recipient p) (recipient q)"
      "messageKey p < messageKey q" "status q = Completed"
    then show "status p \<noteq> Pending" using i(6) less by (fastforce simp: in_order_def)
  qed
  moreover have "within_capacity l ?s"
  proof -
    have count: "pending_count P ?s = pending_count P s + (if P (recipient d) then 1 else 0)" for P
      by (simp add: pending_count_def vals)
    have g: "pending_count (\<lambda>x. sameMailboxGeneration x r) s = pending_count (\<lambda>x. sameMailboxGeneration x (recipient d)) s"
      if "sameMailboxGeneration (recipient d) (r :: work_lane)" for r
      using that by (simp add: pending_count_def sameMailboxGeneration_def)
    show ?thesis using i(7) cap g by (fastforce simp: within_capacity_def count same_recipient_eq)
  qed
  moreover have "fenced_ok ?s"
    using i(8) opened unfolding fenced_ok_def st f by (metis js_has_def new_message_simps(2) option.distinct(1))
  ultimately show ?thesis by (simp add: mailbox_inv_def)
qed

lemma enqueue_inv: "mailbox_inv l s \<Longrightarrow> mailbox_inv l (fst (enqueue l i g r s))"
  by (rule enqueue_cases [OF prod.collapse [symmetric], where l = l and i = i and g = g and r = r and s = s])
    (auto intro: inserted_inv normalized_timestamp)

section \<open>Purge\<close>

lemma purge_message_inv:
  assumes inv: "mailbox_inv l s" and m: "stored s m" "status m \<noteq> Pending"
  shows "mailbox_inv l (purge_message m s) \<and> (\<forall>p. stored (purge_message m s) p \<longleftrightarrow> stored s p \<and> messageKey p \<noteq> messageKey m)"
proof -
  note i = mailbox_invD [OF inv]
  let ?s = "purge_message m s" and ?k = "messageMapKey (recipient m) (messageId m)"
  have f: "messages ?s = js_delete ?k (messages s)" "fingerprints ?s = js_delete ?k (fingerprints s)"
    "leases ?s = js_delete (messageKey m) (leases s)" "settledLeaseProofs ?s = js_delete (messageKey m) (settledLeaseProofs s)"
    "releasedLeaseProofs ?s = js_delete (messageKey m) (releasedLeaseProofs s)"
    "retirements ?s = retirements s" "retirementIds ?s = retirementIds s" "nextMessageKey ?s = nextMessageKey s"
    by (simp_all add: purge_message_def Let_def)
  have st: "stored ?s p \<longleftrightarrow> stored s p \<and> messageKey p \<noteq> messageKey m" for p
  proof (cases "messageMapKey (recipient p) (messageId p) = ?k")
    case True
    then have "\<not> stored ?s p" by (simp add: stored_def f js_get_delete del: messageMapKey_inject)
    moreover have "stored s p \<Longrightarrow> p = m" using True m(1) by (simp add: stored_def del: messageMapKey_inject)
    ultimately show ?thesis by auto
  next
    case False
    then have "stored ?s p \<longleftrightarrow> stored s p" by (simp add: stored_def f js_get_delete del: messageMapKey_inject)
    moreover have "stored s p \<Longrightarrow> messageKey p \<noteq> messageKey m" using stored_unique_key [OF i(1,2) _ m(1)] False by metis
    ultimately show ?thesis by auto
  qed
  have vals: "js_values (messages ?s) = map snd (filter (\<lambda>e. ?k \<noteq> fst e) (messages s))"
    by (simp add: f js_values_def js_delete_def AList.delete_eq case_prod_unfold)
  have free: "js_get (leases s) (messageKey m) = None" "js_get (releasedLeaseProofs s) (messageKey m) = None"
    using i(4,5) m stored_unique_key [OF i(1,2)] unfolding leases_ok_def proofs_ok_def by (metis option.exhaust)+
  have "maps_ok ?s" using i(1) by (simp add: maps_ok_def f)
  moreover have "messages_filed ?s"
  proof -
    have "sorted_wrt (<) (map messageKey (js_values (messages ?s)))"
      using i(2) unfolding vals by (simp add: messages_filed_def js_values_def sorted_wrt_map sorted_wrt_filter)
    then show ?thesis using i(2) by (simp add: messages_filed_def f(1,8) js_get_delete del: messageMapKey_inject)
  qed
  moreover have "prints_ok ?s" using i(3) by (simp add: prints_ok_def f js_get_delete)
  moreover have "leases_ok ?s" using i(4) unfolding leases_ok_def st f js_get_delete by (auto split: if_splits)
  moreover have "proofs_ok ?s" using i(5) unfolding proofs_ok_def st f js_get_delete by auto
  moreover have "in_order ?s" using i(6) unfolding in_order_def st by blast
  moreover have "within_capacity l ?s"
  proof (rule within_capacity_mono [OF i(7)])
    fix P
    have "length (filter Q (map snd (filter R xs))) \<le> length (filter Q (map snd xs))" for Q R and xs :: "(js_string \<times> message) list"
      by (induction xs) auto
    then show "pending_count P ?s \<le> pending_count P s" unfolding pending_count_def vals by (simp only: js_values_def)
  qed
  moreover have "fenced_ok ?s"
    using i(8) unfolding fenced_ok_def st f js_has_def js_get_delete by auto
  ultimately show ?thesis using st by (simp add: mailbox_inv_def)
qed

lemma purge_fold_messages_inv:
  assumes "mailbox_inv l s" and "\<forall>m \<in> set ms. stored s m \<and> status m \<noteq> Pending" and "distinct (map messageKey ms)"
  shows "mailbox_inv l (fold purge_message ms s) \<and>
    (\<forall>p. stored (fold purge_message ms s) p \<longleftrightarrow> stored s p \<and> messageKey p \<notin> messageKey ` set ms)"
  using assms
proof (induction ms arbitrary: s)
  case (Cons m ms)
  with purge_message_inv [of l s m]
  have m: "mailbox_inv l (purge_message m s)" "\<And>p. stored (purge_message m s) p \<longleftrightarrow> stored s p \<and> messageKey p \<noteq> messageKey m"
    by simp_all
  have "\<forall>p \<in> set ms. stored (purge_message m s) p \<and> status p \<noteq> Pending" using Cons.prems(2,3) m(2) by (auto simp: image_iff)
  from Cons.IH [OF m(1) this] Cons.prems(3) m(2) show ?case by auto
qed simp

lemma distinct_recipient_keys: "messages_filed s \<Longrightarrow> distinct (map messageKey (filter P (recipientMessages r s)))"
proof -
  assume m: "messages_filed s"
  then have "sorted_wrt (<) (map messageKey (filter P (recipientMessages r s)))"
    by (simp add: recipientMessages_eq messages_filed_def sorted_wrt_map sorted_wrt_filter)
  then show ?thesis by (simp add: strict_sorted_iff)
qed

lemma mailbox_purge_inv:
  assumes inv: "mailbox_inv l s"
  shows "mailbox_inv l (fst (purgeTerminal l r before n s))"
proof -
  let ?ms = "take (nat n) (filter (\<lambda>m. status m \<noteq> Pending \<and> updatedAt m < before) (recipientMessages r s))"
  have "\<forall>m \<in> set ?ms. stored s m \<and> status m \<noteq> Pending"
    by (auto dest!: in_set_takeD simp: recipientMessages_set [OF mailbox_invD(1,2) [OF inv]])
  moreover have "distinct (map messageKey ?ms)"
    unfolding take_map [symmetric] by (rule distinct_take [OF distinct_recipient_keys [OF mailbox_invD(2) [OF inv]]])
  ultimately have "mailbox_inv l (fold purge_message ?ms s)" using purge_fold_messages_inv [OF inv] by blast
  then show ?thesis using inv by (simp add: purgeTerminal_def commit_def Let_def split: sum.splits)
qed

section \<open>Claims\<close>

text \<open>The messages a claim takes: the pending ones before the first live lease, at most the limit.\<close>

definition live :: "claim_request \<Rightarrow> (int, lease) js_map \<Rightarrow> message \<Rightarrow> bool" where
  "live q ls m \<longleftrightarrow> (\<exists>x. js_get ls (messageKey m) = Some x \<and> cq_operationalNow q < expiresAt x)"

definition claimable :: "claim_request \<Rightarrow> mailbox \<Rightarrow> message list" where
  "claimable q s = takeWhile (\<lambda>m. \<not> live q (leases s) m) (filter (\<lambda>m. status m = Pending) (recipientMessages q s))"

lemma select_claim_spec:
  assumes "select_claim q ls ms sel = Inr out" and "int (length sel) < cq_limit q"
  shows "out = sel @ take (nat (cq_limit q) - length sel) (takeWhile (\<lambda>m. \<not> live q ls m) (filter (\<lambda>m. status m = Pending) ms)) \<and>
    (\<forall>m \<in> set (take (nat (cq_limit q) - length sel) (takeWhile (\<lambda>m. \<not> live q ls m) (filter (\<lambda>m. status m = Pending) ms))).
       updatedAt m \<le> cq_operationalNow q)"
  using assms
proof (induction q ls ms sel rule: select_claim.induct)
  case (2 q ls m ms sel)
  have live: "(case js_get ls (messageKey m) of None \<Rightarrow> False | Some x \<Rightarrow> cq_operationalNow q < expiresAt x) \<longleftrightarrow> live q ls m"
    by (simp add: live_def split: option.splits)
  show ?case
  proof (cases "status m = Pending \<and> \<not> live q ls m")
    case True
    then have upd: "updatedAt m \<le> cq_operationalNow q" using "2.prems"(1) by (auto simp: live split: if_splits)
    show ?thesis
    proof (cases "int (length (sel @ [m])) = cq_limit q")
      case full: True
      then have "nat (cq_limit q) - length sel = 1" by auto
      moreover have "out = sel @ [m]" using "2.prems"(1) True upd full by (auto simp: live split: if_splits)
      ultimately show ?thesis using True upd by simp
    next
      case False
      then have more: "int (length (sel @ [m])) < cq_limit q" using "2.prems"(2) by simp
      then have n: "nat (cq_limit q) - length sel = Suc (nat (cq_limit q) - length (sel @ [m]))" by auto
      have "select_claim q ls ms (sel @ [m]) = Inr out" using "2.prems"(1) True upd False by (auto simp: live split: if_splits)
      moreover have "\<not> (status m \<noteq> Pending)" "\<not> cq_operationalNow q < updatedAt m" using True upd by auto
      ultimately show ?thesis using "2.IH"(2) [OF _ _ _ False] more True upd unfolding n by (simp add: live)
    qed
  qed (use 2 in \<open>auto simp: live split: if_splits\<close>)
qed simp

lemma select_claim_claimable:
  assumes "select_claim q (leases s) (recipientMessages q s) [] = Inr sel" and "0 < cq_limit q"
  shows "sel = take (nat (cq_limit q)) (claimable q s) \<and> (\<forall>m \<in> set sel. updatedAt m \<le> cq_operationalNow q)"
  using select_claim_spec [OF assms(1)] assms(2) by (auto simp: claimable_def)

definition prepared :: "mailbox_limits \<Rightarrow> claim_request \<Rightarrow> message \<Rightarrow> delivery \<Rightarrow> bool" where
  "prepared l q m d \<longleftrightarrow> (\<exists>tok. prepare_delivery l q m tok = Inr d)"

lemma prepare_deliveries_keeps:
  assumes "\<And>n s. R s (fst (src n s))" and "\<And>s. R s s" and "\<And>a b c. R a b \<Longrightarrow> R b c \<Longrightarrow> R a c"
  shows "R s (fst (prepare_deliveries src l q n ms s))"
proof (induction ms arbitrary: s n)
  case (Cons m ms)
  obtain s1 reply where src: "src n s = (s1, reply)" by fastforce
  then have "R s s1" using assms(1) [of s n] by simp
  moreover have "R s (fst (prepare_deliveries src l q (Suc n) ms s1))" by (rule assms(3) [OF \<open>R s s1\<close> Cons.IH])
  ultimately show ?case using src by (auto simp: commit_def split: sum.splits prod.splits)
qed (simp add: assms(2))

lemma prepare_deliveries_Inr:
  "prepare_deliveries src l q n ms s = (s1, Inr ds) \<Longrightarrow> list_all2 (prepared l q) ms ds"
proof (induction ms arbitrary: s n ds)
  case (Cons m ms)
  then show ?case by (auto simp: commit_def prepared_def split: prod.splits sum.splits)
qed simp

lemma prepared_iff:
  "prepared l q m d \<Longrightarrow> dv_message d = m\<lparr>revision := to_decimal (Suc (of_decimal (revision m))),
     attempt := to_decimal (Suc (of_decimal (attempt m))), updatedAt := cq_operationalNow q\<rparr> \<and>
   leaseOwnerId d = cq_leaseOwnerId q \<and> leaseExpiresAt d = cq_leaseExpiresAt q"
  by (auto simp: prepared_def prepare_delivery_def rbind_eq_Inr incrementMailboxDecimal_Inr)

definition lease_of :: "delivery \<Rightarrow> lease" where
  "lease_of d = \<lparr>token = leaseToken d, ownerId = leaseOwnerId d, expiresAt = leaseExpiresAt d\<rparr>"

lemma lease_delivery_step:
  assumes inv: "mailbox_inv l s" and m: "stored s m" "status m = Pending"
    and opened: "\<not> js_has (retirements s) (retirementMapKey (recipient m))" and d: "prepared l q m d"
    and t: "is_timestamp (cq_operationalNow q)" "cq_operationalNow q < cq_leaseExpiresAt q" "updatedAt m \<le> cq_operationalNow q"
  shows "message_step s (lease_delivery d s) \<and> same_message m (dv_message d) \<and>
    update (dv_message d) (Some (lease_of d)) None None s (lease_delivery d s)"
proof -
  let ?m = "dv_message d"
  note pr = prepared_iff [OF d]
  have same: "same_message m ?m" using pr by (simp add: same_message_def draft_json_def)
  have "message_wf ?m" using stored_wf [OF inv m(1)] t pr m(2) by (auto simp: message_wf_def)
  then have "update_ok ?m (Some (lease_of d)) None None s" using pr m(2) t opened by (auto simp: update_ok_def lease_of_def)
  moreover have "update ?m (Some (lease_of d)) None None s (lease_delivery d s)"
    using mailbox_invD(1) [OF inv] pending_unsettled [OF inv m] pr
    by (auto simp: update_def lease_delivery_def Let_def lease_of_def maps_ok_def js_get_set js_get_delete put_message_def)
  moreover have "revision ?m = to_decimal (Suc (of_decimal (revision m)))" using pr by simp
  ultimately show ?thesis unfolding message_step_def using m same by blast
qed

definition leased_as :: "message list \<Rightarrow> delivery list \<Rightarrow> mailbox \<Rightarrow> mailbox \<Rightarrow> bool" where
  "leased_as ms ds s s' \<longleftrightarrow>
     (\<forall>d \<in> set ds. stored s' (dv_message d) \<and> js_get (leases s') (messageKey (dv_message d)) = Some (lease_of d)) \<and>
     (\<forall>p. messageKey p \<notin> messageKey ` set ms \<longrightarrow>
       (stored s' p \<longleftrightarrow> stored s p) \<and> js_get (leases s') (messageKey p) = js_get (leases s) (messageKey p))"

lemma leased_as_Cons:
  assumes d: "stored s1 (dv_message d)" "js_get (leases s1) (messageKey (dv_message d)) = Some (lease_of d)"
    and key: "messageKey (dv_message d) = messageKey m" and new: "messageKey m \<notin> messageKey ` set ms"
    and others: "\<And>p :: message. messageKey p \<noteq> messageKey m \<Longrightarrow>
      (stored s1 p \<longleftrightarrow> stored s p) \<and> js_get (leases s1) (messageKey p) = js_get (leases s) (messageKey p)"
    and rest: "leased_as ms ds s1 s'"
  shows "leased_as (m # ms) (d # ds) s s'"
  unfolding leased_as_def
proof (intro conjI ballI allI impI)
  fix e assume "e \<in> set (d # ds)"
  then consider "e = d" | "e \<in> set ds" by auto
  then show "stored s' (dv_message e)" "js_get (leases s') (messageKey (dv_message e)) = Some (lease_of e)"
    using rest d key new unfolding leased_as_def by (cases; metis)+
next
  fix p :: message assume "messageKey p \<notin> messageKey ` set (m # ms)"
  then have "messageKey p \<noteq> messageKey m" "messageKey p \<notin> messageKey ` set ms" by auto
  then show "stored s' p \<longleftrightarrow> stored s p" "js_get (leases s') (messageKey p) = js_get (leases s) (messageKey p)"
    using rest others [of p] unfolding leased_as_def by metis+
qed

definition to_lease :: "claim_request \<Rightarrow> mailbox \<Rightarrow> message \<Rightarrow> bool" where
  "to_lease q s m \<longleftrightarrow> stored s m \<and> status m = Pending \<and> \<not> js_has (retirements s) (retirementMapKey (recipient m)) \<and>
     updatedAt m \<le> cq_operationalNow q"

lemma lease_deliveries:
  assumes "list_all2 (prepared l q) ms ds" and "mailbox_inv l s" and "distinct (map messageKey ms)"
    and "\<forall>m \<in> set ms. to_lease q s m"
    and t: "is_timestamp (cq_operationalNow q)" "cq_operationalNow q < cq_leaseExpiresAt q"
  shows "mailbox_inv l (fold lease_delivery ds s) \<and> message_step\<^sup>*\<^sup>* s (fold lease_delivery ds s) \<and>
    leased_as ms ds s (fold lease_delivery ds s)"
  using assms(1-4)
proof (induction ms ds arbitrary: s rule: list_all2_induct)
  case (Cons m ms d ds)
  let ?s1 = "lease_delivery d s"
  from Cons.prems(3) have m: "stored s m" "status m = Pending" "\<not> js_has (retirements s) (retirementMapKey (recipient m))"
    "updatedAt m \<le> cq_operationalNow q" by (simp_all add: to_lease_def)
  note step = lease_delivery_step [OF Cons.prems(1) m(1-3) Cons.hyps(1) t m(4)]
  then have same: "same_message m (dv_message d)"
    and up: "update (dv_message d) (Some (lease_of d)) None None s ?s1" and ms: "message_step s ?s1" by blast+
  have inv1: "mailbox_inv l ?s1" by (rule message_step_inv [OF Cons.prems(1) ms])
  note st = stored_update [OF mailbox_invD(1,2) [OF Cons.prems(1)] m(1) same up]
  have key: "messageKey (dv_message d) = messageKey m" using same by (simp add: same_message_def)
  have notin: "messageKey m \<notin> messageKey ` set ms" using Cons.prems(2) by simp
  have "to_lease q ?s1 p" if "p \<in> set ms" for p
  proof -
    have "messageKey p \<noteq> messageKey m" using that notin by (metis image_eqI)
    moreover have "to_lease q s p" using Cons.prems(3) that by simp
    ultimately show ?thesis using st [of p] update_fields(3) [OF up] by (simp add: to_lease_def)
  qed
  with Cons.prems(2) Cons.IH [OF inv1]
  have IH: "mailbox_inv l (fold lease_delivery ds ?s1)" "message_step\<^sup>*\<^sup>* ?s1 (fold lease_delivery ds ?s1)"
    "leased_as ms ds ?s1 (fold lease_delivery ds ?s1)" by simp_all
  have "leased_as (m # ms) (d # ds) s (fold lease_delivery ds ?s1)"
  proof (rule leased_as_Cons [OF _ _ key notin _ IH(3)])
    show "stored ?s1 (dv_message d)" by (simp add: st)
    show "js_get (leases ?s1) (messageKey (dv_message d)) = Some (lease_of d)" by (simp add: update_fields(6) [OF up])
    show "(stored ?s1 p \<longleftrightarrow> stored s p) \<and> js_get (leases ?s1) (messageKey p) = js_get (leases s) (messageKey p)"
      if "messageKey p \<noteq> messageKey m" for p
    proof -
      have "p \<noteq> dv_message d" using that key by auto
      then show ?thesis using that st [of p] by (simp add: update_fields(6) [OF up] key)
    qed
  qed
  with IH ms show ?case by (simp add: converse_rtranclp_into_rtranclp)
qed (simp add: leased_as_def)

end
