(* ===== verification/Mailbox_Run.thy ===== *)
theory Mailbox_Run
  imports Mailbox_Claims
begin

text \<open>
  Runs of the mailbox store. A message keeps its identity and only moves on from pending, with its
  revision counting every change; a recorded retirement is only ever finalized. Every run of store calls, a
  claim whose token source calls back into the store included, keeps the invariant and this order.
\<close>

section \<open>Later states\<close>

definition retirement_later :: "retirement_record \<Rightarrow> retirement_record \<Rightarrow> bool" where
  "retirement_later x x' \<longleftrightarrow> x' = x \<or> (phase x = Fenced \<and> phase x' = Finalized \<and> wr_retirementId x' = wr_retirementId x \<and>
     wr_partition x' = wr_partition x \<and> wr_recordedAt x' = wr_recordedAt x \<and>
     cancelledMessageCount x \<le> cancelledMessageCount x')"

definition kept_or_moved :: "mailbox \<Rightarrow> mailbox \<Rightarrow> message \<Rightarrow> message \<Rightarrow> bool" where
  "kept_or_moved s s' m p \<longleftrightarrow> p = m \<and> js_get (leases s') (messageKey m) = js_get (leases s) (messageKey m) \<and>
       js_get (settledLeaseProofs s') (messageKey m) = js_get (settledLeaseProofs s) (messageKey m) \<or>
     status m = Pending \<and> of_decimal (revision m) < of_decimal (revision p)"

definition mailbox_later :: "mailbox \<Rightarrow> mailbox \<Rightarrow> bool" where
  "mailbox_later s s' \<longleftrightarrow> nextMessageKey s \<le> nextMessageKey s' \<and>
     (\<forall>p. stored s' p \<longrightarrow> messageKey p < nextMessageKey s \<longrightarrow> (\<exists>m. stored s m \<and> same_message m p \<and> kept_or_moved s s' m p)) \<and>
     (\<forall>k x. js_get (retirements s) k = Some x \<longrightarrow> (\<exists>x'. js_get (retirements s') k = Some x' \<and> retirement_later x x'))"

lemma same_message_trans: "same_message a b \<Longrightarrow> same_message b c \<Longrightarrow> same_message a c"
  by (simp add: same_message_def)

lemma same_message_refl [simp]: "same_message m m"
  by (simp add: same_message_def)

lemma mailbox_later_refl [simp]: "mailbox_later s s"
  by (auto simp: mailbox_later_def kept_or_moved_def retirement_later_def intro: exI)

lemma retirement_later_trans: "retirement_later x y \<Longrightarrow> retirement_later y z \<Longrightarrow> retirement_later x z"
  by (auto simp: retirement_later_def)

lemma kept_or_moved_trans: "kept_or_moved s t m p \<Longrightarrow> kept_or_moved t u p q \<Longrightarrow> messageKey p = messageKey m \<Longrightarrow> kept_or_moved s u m q"
  by (auto simp: kept_or_moved_def)

lemma mailbox_later_trans:
  assumes "mailbox_later s t" and "mailbox_later t u"
  shows "mailbox_later s u"
  unfolding mailbox_later_def
proof (intro conjI allI impI)
  show "nextMessageKey s \<le> nextMessageKey u" using assms by (simp add: mailbox_later_def)
next
  fix p assume p: "stored u p" "messageKey p < nextMessageKey s"
  then have "messageKey p < nextMessageKey t" using assms(1) by (simp add: mailbox_later_def)
  then obtain m where m: "stored t m" "same_message m p" "kept_or_moved t u m p" using assms(2) p(1) by (auto simp: mailbox_later_def)
  then have "messageKey m < nextMessageKey s" using p(2) by (simp add: same_message_def)
  then obtain n where n: "stored s n" "same_message n m" "kept_or_moved s t n m" using assms(1) m(1) by (auto simp: mailbox_later_def)
  from n m have "same_message n p" "kept_or_moved s u n p"
    by (auto intro: same_message_trans kept_or_moved_trans simp: same_message_def)
  with n(1) show "\<exists>m. stored s m \<and> same_message m p \<and> kept_or_moved s u m p" by blast
next
  fix k x assume "js_get (retirements s) k = Some x"
  then show "\<exists>x'. js_get (retirements u) k = Some x' \<and> retirement_later x x'"
    using assms unfolding mailbox_later_def by (meson retirement_later_trans)
qed

lemma of_decimal_succ: "is_decimal t \<Longrightarrow> of_decimal t < of_decimal (to_decimal (Suc (of_decimal t)))"
  by simp

lemma message_step_later:
  assumes inv: "mailbox_inv l s" and step: "message_step s s'"
  shows "mailbox_later s s'"
proof -
  from step obtain m m' x st rl where m: "stored s m" "status m = Pending" and same: "same_message m m'"
    and rv: "revision m' = to_decimal (Suc (of_decimal (revision m)))" and up: "update m' x st rl s s'"
    unfolding message_step_def by blast
  note f = update_fields [OF up]
  note st = stored_update [OF mailbox_invD(1,2) [OF inv] m(1) same up]
  have key: "messageKey m' = messageKey m" using same by (simp add: same_message_def)
  have "\<exists>n. stored s n \<and> same_message n p \<and> kept_or_moved s s' n p" if "stored s' p" for p
  proof (cases "p = m'")
    case True
    have "of_decimal (revision m) < of_decimal (revision m')" using rv wf_decimals [OF stored_wf [OF inv m(1)]] by simp
    with m same True show ?thesis by (auto simp: kept_or_moved_def)
  next
    case False
    with that st have "stored s p" "messageKey p \<noteq> messageKey m" by auto
    then show ?thesis by (intro exI [of _ p]) (simp add: kept_or_moved_def f(6,7) key)
  qed
  then show ?thesis by (simp add: mailbox_later_def f(3,5) retirement_later_def)
qed

text \<open>What a step from a state within the invariant gives.\<close>

definition advances :: "mailbox_limits \<Rightarrow> mailbox \<Rightarrow> mailbox \<Rightarrow> bool" where
  "advances l s s' \<longleftrightarrow> (mailbox_inv l s \<longrightarrow> mailbox_inv l s' \<and> mailbox_later s s')"

lemma advances_refl [simp]: "advances l s s"
  by (simp add: advances_def)

lemma advances_trans: "advances l s t \<Longrightarrow> advances l t u \<Longrightarrow> advances l s u"
  by (auto simp: advances_def intro: mailbox_later_trans)

lemma message_step_advances: "message_step s s' \<Longrightarrow> advances l s s'"
  by (simp add: advances_def message_step_inv message_step_later)

lemma message_steps_advance: "message_step\<^sup>*\<^sup>* s s' \<Longrightarrow> advances l s s'"
  by (induction rule: rtranclp_induct) (auto intro: advances_trans message_step_advances)

lemma maybe_step_advances: "(mailbox_inv l s \<Longrightarrow> s' = s \<or> message_step s s') \<Longrightarrow> advances l s s'"
  using message_step_advances [of s s' l] by (auto simp: advances_def)

section \<open>Enqueue and purge\<close>

lemma inserted_later: "mailbox_later s (inserted d s)"
proof -
  have "p = new_message d (nextMessageKey s) \<or> stored s p" if "stored (inserted d s) p" for p
    using that by (auto simp: stored_def inserted_def Let_def js_get_set split: if_splits)
  then show ?thesis
    by (fastforce simp: mailbox_later_def kept_or_moved_def inserted_def Let_def retirement_later_def)
qed

lemma enqueue_advances: "advances l s (fst (enqueue l i g r s))"
  by (rule enqueue_cases [OF prod.collapse [symmetric], where l = l and i = i and g = g and r = r and s = s])
    (auto simp: advances_def inserted_later intro: inserted_inv normalized_timestamp)

lemma purge_fold_fields:
  "js_get (settledLeaseProofs (fold purge_message ms s)) n = (if n \<in> messageKey ` set ms then None else js_get (settledLeaseProofs s) n)"
  "js_get (leases (fold purge_message ms s)) n = (if n \<in> messageKey ` set ms then None else js_get (leases s) n)"
  "nextMessageKey (fold purge_message ms s) = nextMessageKey s" "retirements (fold purge_message ms s) = retirements s"
  by (induction ms arbitrary: s) (auto simp: purge_message_def Let_def js_get_delete)

lemma purge_advances: "advances l s (fst (purgeTerminal l r before n s))"
  unfolding advances_def
proof (intro impI conjI)
  assume inv: "mailbox_inv l s"
  show "mailbox_inv l (fst (purgeTerminal l r before n s))" by (rule mailbox_purge_inv [OF inv])
  let ?ms = "take (nat n) (filter (\<lambda>m. status m \<noteq> Pending \<and> updatedAt m < before) (recipientMessages r s))"
  have "\<forall>m \<in> set ?ms. stored s m \<and> status m \<noteq> Pending"
    by (auto dest!: in_set_takeD simp: recipientMessages_set [OF mailbox_invD(1,2) [OF inv]])
  moreover have "distinct (map messageKey ?ms)"
    unfolding take_map [symmetric] by (rule distinct_take [OF distinct_recipient_keys [OF mailbox_invD(2) [OF inv]]])
  ultimately have st: "stored (fold purge_message ?ms s) p \<longleftrightarrow> stored s p \<and> messageKey p \<notin> messageKey ` set ?ms" for p
    using purge_fold_messages_inv [OF inv] by blast
  have "mailbox_later s (fold purge_message ?ms s)"
    unfolding mailbox_later_def st by (auto simp: purge_fold_fields kept_or_moved_def retirement_later_def)
  then show "mailbox_later s (fst (purgeTerminal l r before n s))"
    by (simp add: purgeTerminal_def commit_def Let_def split: sum.splits)
qed

section \<open>Claims\<close>

lemma claim_fails: "claim src l q s = (s', Inl e) \<Longrightarrow> s' = s \<or> (\<exists>ms. s' = fst (prepare_deliveries src l q 0 ms s))"
  unfolding claim_def commit_def by (auto split: sum.splits prod.splits) (metis fst_conv)+

text \<open>What a successful claim did: it selected messages, ran the token source, found the lane still open and every
  selected message unchanged, and leased them.\<close>

lemma claim_succeeds:
  assumes "claim src l q s = (s', Inr ds)"
  obtains ms s1 where "normalizeMailboxClaim q l = Inr ()" "\<not> js_has (retirements s) (retirementMapKey q)"
    "ms = take (nat (cq_limit q)) (claimable q s)" "\<forall>m \<in> set ms. updatedAt m \<le> cq_operationalNow q"
    "prepare_deliveries src l q 0 ms s = (s1, Inr ds)" "\<not> js_has (retirements s1) (retirementMapKey q)"
    "\<forall>m \<in> set ms. stored s1 m" "s' = fold lease_delivery ds s1"
proof -
  obtain ms where ms: "normalizeMailboxClaim q l = Inr ()" "assertAuthorityOpen q s = Inr ()"
    "select_claim q (leases s) (recipientMessages q s) [] = Inr ms"
    using assms by (auto simp: claim_def commit_def split: sum.splits)
  obtain s1 out where prep: "prepare_deliveries src l q 0 ms s = (s1, out)" by fastforce
  with assms ms have out: "out = Inr ds" and fin: "s' = fold lease_delivery ds s1" and rest: "assertAuthorityOpen q s1 = Inr ()"
    "list_all (\<lambda>m. js_get (messages s1) (messageMapKey (recipient m) (messageId m)) = Some m) ms"
    by (auto simp: claim_def commit_def rbind_eq_Inr split: sum.splits)
  have "0 < cq_limit q" using ms(1) by (auto simp: normalizeMailboxClaim_def rbind_eq_Inr validateMailboxPageLimit_def)
  note sel = select_claim_claimable [OF ms(3) this]
  show thesis
    by (rule that [OF ms(1) _ conjunct1 [OF sel] conjunct2 [OF sel] prep [unfolded out] _ _ fin])
      (use ms(2) rest in \<open>simp_all add: recipient_open_Inr list_all_iff stored_def\<close>)
qed

definition source_advances :: "mailbox_limits \<Rightarrow> token_source \<Rightarrow> bool" where
  "source_advances l src \<longleftrightarrow> (\<forall>n s. advances l s (fst (src n s)))"

lemma prepare_advances: "source_advances l src \<Longrightarrow> advances l s (fst (prepare_deliveries src l q n ms s))"
  by (rule prepare_deliveries_keeps) (auto simp: source_advances_def intro: advances_trans)

lemma claimable_stored:
  assumes "mailbox_inv l s" and "m \<in> set (take n (claimable q s))"
  shows "stored s m" "status m = Pending" "sameMailboxRecipient (recipient m) q" "\<not> live q (leases s) m"
  using assms(2) recipientMessages_set [OF mailbox_invD(1,2) [OF assms(1)], of m q]
  by (auto simp: claimable_def dest!: in_set_takeD set_takeWhileD)

lemma claim_leases:
  assumes inv: "mailbox_inv l s" and src: "source_advances l src" and claim: "claim src l q s = (s', Inr ds)"
  obtains ms s1 where "ms = take (nat (cq_limit q)) (claimable q s)" "list_all2 (prepared l q) ms ds"
    "mailbox_inv l s1" "mailbox_later s s1" "\<forall>m \<in> set ms. stored s1 m" "distinct (map messageKey ms)"
    "mailbox_inv l s'" "advances l s1 s'" "leased_as ms ds s1 s'" "s' = fold lease_delivery ds s1"
proof -
  obtain ms s1 where c: "normalizeMailboxClaim q l = Inr ()" "ms = take (nat (cq_limit q)) (claimable q s)"
    "\<forall>m \<in> set ms. updatedAt m \<le> cq_operationalNow q" "prepare_deliveries src l q 0 ms s = (s1, Inr ds)"
    "\<not> js_has (retirements s1) (retirementMapKey q)" "\<forall>m \<in> set ms. stored s1 m" "s' = fold lease_delivery ds s1"
    by (rule claim_succeeds [OF claim])
  have adv: "mailbox_inv l s1" "mailbox_later s s1" using prepare_advances [OF src, of s q 0 ms] inv c(4) by (simp_all add: advances_def)
  have dist: "distinct (map messageKey ms)"
  proof -
    have "distinct (map messageKey (claimable q s))" unfolding claimable_def
      by (metis distinct_recipient_keys [OF mailbox_invD(2) [OF inv]] takeWhile_eq_take distinct_take take_map)
    then show ?thesis by (metis c(2) distinct_take take_map)
  qed
  have "to_lease q s1 m" if "m \<in> set ms" for m
    using that c(3,5,6) claimable_stored [OF inv, of m _ q] same_key_open [of m q s1] unfolding c(2) to_lease_def by blast
  moreover have "is_timestamp (cq_operationalNow q)" "cq_operationalNow q < cq_leaseExpiresAt q"
    using c(1) by (auto simp: normalizeMailboxClaim_def rbind_eq_Inr)
  ultimately have *: "mailbox_inv l s'" "message_step\<^sup>*\<^sup>* s1 s'" "leased_as ms ds s1 s'"
    using lease_deliveries [OF prepare_deliveries_Inr [OF c(4)] adv(1) dist] c(7) by blast+
  show thesis
    by (rule that [OF c(2) prepare_deliveries_Inr [OF c(4)] adv c(6) dist *(1) message_steps_advance [OF *(2)] *(3) c(7)])
qed

lemma claim_advances:
  assumes src: "source_advances l src"
  shows "advances l s (fst (claim src l q s))"
proof (cases "claim src l q s")
  case (Pair s' out)
  show ?thesis
  proof (cases out)
    case (Inl e)
    with claim_fails Pair prepare_advances [OF src] show ?thesis by (metis advances_refl fst_conv)
  next
    case (Inr ds)
    with Pair have c: "claim src l q s = (s', Inr ds)" by simp
    have "mailbox_inv l s' \<and> mailbox_later s s'" if inv: "mailbox_inv l s"
      by (rule claim_leases [OF inv src c]) (auto simp: advances_def intro: mailbox_later_trans)
    then show ?thesis by (simp add: advances_def c)
  qed
qed

section \<open>Retirement\<close>

lemma store_cancelled_retirements:
  "fold store_cancelled us (s\<lparr>retirements := a, retirementIds := b\<rparr>) =
     (fold store_cancelled us s)\<lparr>retirements := a, retirementIds := b\<rparr>"
proof (induction us arbitrary: s)
  case (Cons u us)
  have "store_cancelled u (s\<lparr>retirements := a, retirementIds := b\<rparr>) =
    (store_cancelled u s)\<lparr>retirements := a, retirementIds := b\<rparr>" by (simp add: store_cancelled_def put_message_def Let_def)
  with Cons show ?case by simp
qed simp

lemma cancel_retired_update:
  assumes inv: "mailbox_inv l s" and m: "stored s m" "status m = Pending" and u: "cancel_retired l q m = Inr u"
  shows "same_message m u" and "update u None None None s (store_cancelled u s)" and "message_step s (store_cancelled u s)"
    and "status u = Cancelled"
proof -
  obtain at rv where *: "laterMailboxTimestamp (updatedAt m) (wr_recordedAt q) = Inr at"
    "incrementMailboxDecimal (revision m) (maxCounterDigits l) ''revision'' = Inr rv"
    "u = m\<lparr>status := Cancelled, revision := rv, updatedAt := at, cancelledAt := Some at\<rparr>"
    using u by (auto simp: cancel_retired_def rbind_eq_Inr)
  have "store_cancelled u s = (put_message (m\<lparr>status := Cancelled, revision := rv, updatedAt := at, cancelledAt := Some at\<rparr>) s)
       \<lparr>leases := js_delete (messageKey m) (leases s), releasedLeaseProofs := js_delete (messageKey m) (releasedLeaseProofs s)\<rparr>"
    by (simp add: store_cancelled_def Let_def * put_message_def)
  note cu = cancelled_update [OF inv m *(1,2) this *(3)]
  show "same_message m u" "update u None None None s (store_cancelled u s)" "message_step s (store_cancelled u s)" by (rule cu)+
  show "status u = Cancelled" using *(3) by simp
qed

definition cancels_all :: "message list \<Rightarrow> message list \<Rightarrow> mailbox \<Rightarrow> mailbox \<Rightarrow> bool" where
  "cancels_all ms us s s' \<longleftrightarrow> message_step\<^sup>*\<^sup>* s s' \<and>
     (\<forall>p. stored s' p \<longleftrightarrow> p \<in> set us \<or> stored s p \<and> messageKey p \<notin> messageKey ` set ms) \<and>
     (\<forall>n. n \<notin> messageKey ` set ms \<longrightarrow> js_get (leases s') n = js_get (leases s) n) \<and>
     retirements s' = retirements s \<and> retirementIds s' = retirementIds s \<and> map messageKey us = map messageKey ms \<and>
     (\<forall>u \<in> set us. status u = Cancelled)"

lemma cancel_all:
  assumes "list_all2 (\<lambda>m u. cancel_retired l q m = Inr u) ms us" and "mailbox_inv l s" and "distinct (map messageKey ms)"
    and "\<forall>m \<in> set ms. stored s m \<and> status m = Pending"
  shows "cancels_all ms us s (fold store_cancelled us s)"
  using assms
proof (induction ms us arbitrary: s rule: list_all2_induct)
  case (Cons m ms u us)
  let ?s1 = "store_cancelled u s"
  from Cons.prems(3) have m: "stored s m" "status m = Pending" by simp_all
  note cu = cancel_retired_update [OF Cons.prems(1) m Cons.hyps(1)]
  note st = stored_update [OF mailbox_invD(1,2) [OF Cons.prems(1)] m(1) cu(1,2)]
  note f = update_fields [OF cu(2)]
  have key: "messageKey u = messageKey m" using cu(1) by (simp add: same_message_def)
  have notin: "messageKey m \<notin> messageKey ` set ms" using Cons.prems(2) by simp
  have "stored ?s1 p \<and> status p = Pending" if "p \<in> set ms" for p
  proof -
    have "messageKey p \<noteq> messageKey m" using that notin by (metis image_eqI)
    then show ?thesis using that Cons.prems(3) st [of p] by simp
  qed
  with Cons.IH [OF message_step_inv [OF Cons.prems(1) cu(3)]] Cons.prems(2)
  have IH: "cancels_all ms us ?s1 (fold store_cancelled us ?s1)" by simp
  then have keys: "messageKey ` set us = messageKey ` set ms" by (metis cancels_all_def set_map)
  have "messageKey x \<noteq> messageKey m" if "x \<in> set ms" for x using that notin by (metis image_eqI)
  with IH cu(3,4) f key notin st keys show ?case
    unfolding cancels_all_def by (auto intro: converse_rtranclp_into_rtranclp)
qed (simp add: cancels_all_def)

definition recorded :: "retirement_record \<Rightarrow> mailbox \<Rightarrow> mailbox" where
  "recorded x s = (let key = retirementMapKey (wr_partition x) in
     s\<lparr>retirements := js_set key x (retirements s), retirementIds := js_set (wr_retirementId x) key (retirementIds s)\<rparr>)"

text \<open>The messages a retirement cancels: the pending ones, under a fence only those without a lease.\<close>

definition to_cancel :: "work_retirement \<Rightarrow> retirement_phase \<Rightarrow> mailbox \<Rightarrow> message list" where
  "to_cancel q ph s = filter (\<lambda>m. status m = Pending \<and> (ph = Finalized \<or> \<not> js_has (leases s) (messageKey m)))
     (recipientMessages (wr_partition q) s)"

definition new_record :: "work_retirement \<Rightarrow> retirement_phase \<Rightarrow> int \<Rightarrow> retirement_record" where
  "new_record q ph n = work_retirement.extend q (retirement_record.fields ph n)"

lemma new_record_simps [simp]:
  "wr_retirementId (new_record q ph n) = wr_retirementId q" "wr_partition (new_record q ph n) = wr_partition q"
  "wr_recordedAt (new_record q ph n) = wr_recordedAt q" "phase (new_record q ph n) = ph" "cancelledMessageCount (new_record q ph n) = n"
  by (simp_all add: new_record_def work_retirement.defs retirement_record.defs)

lemma commitRetirement_succeeds:
  assumes "commitRetirement l q ph n s = (s', Inr x)"
  obtains us where "list_all2 (\<lambda>m u. cancel_retired l q m = Inr u) (to_cancel q ph s) us"
    "x = new_record q ph (n + int (length us))" "s' = recorded x (fold store_cancelled us s)"
proof -
  from assms obtain us where us: "map_checked (cancel_retired l q) (to_cancel q ph s) = Inr us"
    and x: "x = new_record q ph (n + int (length us))"
    and s': "s' = fold store_cancelled us (s\<lparr>retirements := js_set (retirementMapKey (wr_partition q)) x (retirements s),
      retirementIds := js_set (wr_retirementId q) (retirementMapKey (wr_partition q)) (retirementIds s)\<rparr>)"
    by (auto simp: commitRetirement_def to_cancel_def Let_def commit_def new_record_def split: sum.splits)
  have c: "retirements (fold store_cancelled us s) = retirements s" "retirementIds (fold store_cancelled us s) = retirementIds s"
    by (induction us arbitrary: s) (simp_all add: store_cancelled_def Let_def)
  show thesis
    by (rule that [of us]) (use us x s' in \<open>simp_all add: map_checked_Inr recorded_def Let_def store_cancelled_retirements c\<close>)
qed

lemma commitRetirement_fails: "commitRetirement l q ph n s = (s', Inl e) \<Longrightarrow> s' = s"
  by (auto simp: commitRetirement_def Let_def commit_def split: sum.splits)

lemma to_cancel_set:
  assumes "mailbox_inv l s"
  shows "m \<in> set (to_cancel q ph s) \<longleftrightarrow> stored s m \<and> sameMailboxRecipient (recipient m) (wr_partition q) \<and>
    status m = Pending \<and> (ph = Finalized \<or> \<not> js_has (leases s) (messageKey m))"
  by (auto simp: to_cancel_def recipientMessages_set [OF mailbox_invD(1,2) [OF assms], of m "wr_partition q"])

lemma to_cancel_distinct: "mailbox_inv l s \<Longrightarrow> distinct (map messageKey (to_cancel q ph s))"
  unfolding to_cancel_def by (rule distinct_recipient_keys [OF mailbox_invD(2)])

lemma recorded_inv:
  assumes inv: "mailbox_inv l s"
    and ids: "js_get (retirementIds s) (wr_retirementId x) \<in> {None, Some (retirementMapKey (wr_partition x))}"
    and drained: "\<And>m. stored s m \<Longrightarrow> status m = Pending \<Longrightarrow> retirementMapKey (recipient m) = retirementMapKey (wr_partition x) \<Longrightarrow>
      phase x = Fenced \<and> js_has (leases s) (messageKey m)"
  shows "mailbox_inv l (recorded x s)" (is "mailbox_inv l ?s")
proof -
  note i = mailbox_invD [OF inv]
  have f: "messages ?s = messages s" "fingerprints ?s = fingerprints s" "leases ?s = leases s"
    "settledLeaseProofs ?s = settledLeaseProofs s" "releasedLeaseProofs ?s = releasedLeaseProofs s" "nextMessageKey ?s = nextMessageKey s"
    "retirements ?s = js_set (retirementMapKey (wr_partition x)) x (retirements s)"
    "retirementIds ?s = js_set (wr_retirementId x) (retirementMapKey (wr_partition x)) (retirementIds s)"
    by (simp_all add: recorded_def Let_def)
  have st: "stored ?s = stored s" by (simp add: stored_def f fun_eq_iff)
  have "fenced_ok ?s"
    unfolding fenced_ok_def st f js_get_set
  proof (intro allI impI)
    fix k y assume y: "((js_get (retirements s))(retirementMapKey (wr_partition x) \<mapsto> x)) k = Some y"
    show "k = retirementMapKey (wr_partition y) \<and>
      ((js_get (retirementIds s))(wr_retirementId x \<mapsto> retirementMapKey (wr_partition x))) (wr_retirementId y) = Some k \<and>
      (\<forall>m. stored s m \<longrightarrow> status m = Pending \<longrightarrow> retirementMapKey (recipient m) = k \<longrightarrow>
        phase y = Fenced \<and> js_has (leases s) (messageKey m))"
    proof (cases "k = retirementMapKey (wr_partition x)")
      case True
      with y drained show ?thesis by (simp del: retirementMapKey_inject)
    next
      case False
      with y have "js_get (retirements s) k = Some y" by simp
      with i(8) have o: "k = retirementMapKey (wr_partition y)" "js_get (retirementIds s) (wr_retirementId y) = Some k"
        "\<forall>m. stored s m \<longrightarrow> status m = Pending \<longrightarrow> retirementMapKey (recipient m) = k \<longrightarrow>
          phase y = Fenced \<and> js_has (leases s) (messageKey m)" unfolding fenced_ok_def by blast+
      with ids False have "wr_retirementId y \<noteq> wr_retirementId x" by (auto simp del: retirementMapKey_inject)
      with o show ?thesis by (simp del: retirementMapKey_inject)
    qed
  qed
  then show ?thesis
    using i unfolding mailbox_inv_def
    by (simp add: maps_ok_def messages_filed_def prints_ok_def leases_ok_def proofs_ok_def in_order_def within_capacity_def
      pending_count_def st f)
qed

lemma recorded_later:
  assumes "\<And>y. js_get (retirements s) (retirementMapKey (wr_partition x)) = Some y \<Longrightarrow> retirement_later y x"
  shows "mailbox_later s (recorded x s)"
proof -
  have "stored (recorded x s) = stored s" by (simp add: stored_def recorded_def Let_def fun_eq_iff)
  moreover have "leases (recorded x s) = leases s" "settledLeaseProofs (recorded x s) = settledLeaseProofs s" "nextMessageKey (recorded x s) = nextMessageKey s"
    "js_get (retirements (recorded x s)) = (js_get (retirements s))(retirementMapKey (wr_partition x) \<mapsto> x)"
    by (simp_all add: recorded_def Let_def js_get_set)
  ultimately show ?thesis using assms
    by (auto simp: mailbox_later_def kept_or_moved_def retirement_later_def simp del: retirementMapKey_inject)
qed

text \<open>A retirement that is recorded leaves no pending message of its recipient outside a lease, and none at all once finalized.\<close>

lemma commitRetirement_advances:
  assumes inv: "mailbox_inv l s" and c: "commitRetirement l q ph n s = (s', Inr x)"
    and ids: "js_get (retirementIds s) (wr_retirementId q) \<in> {None, Some (retirementMapKey (wr_partition q))}"
    and old: "\<And>y x. js_get (retirements s) (retirementMapKey (wr_partition q)) = Some y \<Longrightarrow> phase x = ph \<Longrightarrow>
      wr_retirementId x = wr_retirementId q \<Longrightarrow> wr_partition x = wr_partition q \<Longrightarrow> wr_recordedAt x = wr_recordedAt q \<Longrightarrow>
      n \<le> cancelledMessageCount x \<Longrightarrow> retirement_later y x"
  shows "mailbox_inv l s' \<and> mailbox_later s s'"
proof -
  obtain us where us: "list_all2 (\<lambda>m u. cancel_retired l q m = Inr u) (to_cancel q ph s) us"
    and x: "x = new_record q ph (n + int (length us))" and s': "s' = recorded x (fold store_cancelled us s)"
    by (rule commitRetirement_succeeds [OF c])
  let ?t = "fold store_cancelled us s"
  have t: "cancels_all (to_cancel q ph s) us s ?t"
    by (rule cancel_all [OF us inv to_cancel_distinct [OF inv]]) (simp add: to_cancel_set [OF inv])
  then have adv: "mailbox_inv l ?t" "mailbox_later s ?t"
    using message_steps_advance [of s ?t l] inv by (simp_all add: cancels_all_def advances_def)
  have "phase x = Fenced \<and> js_has (leases ?t) (messageKey m)"
    if m: "stored ?t m" "status m = Pending" "retirementMapKey (recipient m) = retirementMapKey (wr_partition x)" for m
  proof -
    have keys: "messageKey ` set us = messageKey ` set (to_cancel q ph s)" using t unfolding cancels_all_def by (metis set_map)
    from m(1,2) t have "stored s m" "messageKey m \<notin> messageKey ` set (to_cancel q ph s)" by (auto simp: cancels_all_def)
    moreover from this have "m \<notin> set (to_cancel q ph s)" by blast
    moreover have "js_has (leases ?t) (messageKey m) \<longleftrightarrow> js_has (leases s) (messageKey m)"
      using t calculation(2) by (simp add: cancels_all_def js_has_def)
    ultimately show ?thesis using m(2,3) x by (cases ph) (auto simp: to_cancel_set [OF inv])
  qed
  moreover have "retirements ?t = retirements s" "retirementIds ?t = retirementIds s" using t by (simp_all add: cancels_all_def)
  ultimately have "mailbox_inv l s'" "mailbox_later ?t s'"
    unfolding s' using adv(1) ids old x by (auto intro!: recorded_inv recorded_later simp del: retirementMapKey_inject)
  then show ?thesis using adv(2) by (auto intro: mailbox_later_trans)
qed

lemma findRetirement_Inr:
  assumes "findRetirement q s = Inr e"
  shows "e = js_get (retirements s) (retirementMapKey (wr_partition q))"
    and "js_get (retirementIds s) (wr_retirementId q) \<in> {None, Some (retirementMapKey (wr_partition q))}"
    and "e = Some x \<Longrightarrow> wr_retirementId x = wr_retirementId q \<and> wr_recordedAt x = wr_recordedAt q"
  using assms by (auto simp: findRetirement_def Let_def split: if_splits option.splits)

lemma begin_advances: "advances l s (fst (beginAuthorityRetirement l i s))"
  unfolding advances_def
proof (intro impI)
  assume inv: "mailbox_inv l s"
  show "mailbox_inv l (fst (beginAuthorityRetirement l i s)) \<and> mailbox_later s (fst (beginAuthorityRetirement l i s))"
  proof (cases "beginAuthorityRetirement l i s")
    case (Pair s' out)
    show ?thesis
    proof (cases "s' = s")
      case False
      with Pair obtain q where q: "normalizeMailboxAuthorityRetirement i l = Inr q" "findRetirement q s = Inr None"
        and c: "commitRetirement l q Fenced 0 s = (s', out)"
        by (auto simp: beginAuthorityRetirement_def commit_def split: sum.splits option.splits)
      obtain x where x: "out = Inr x" using False c by (cases out) (auto dest: commitRetirement_fails)
      have "mailbox_inv l s' \<and> mailbox_later s s'"
        by (rule commitRetirement_advances [OF inv c [unfolded x] findRetirement_Inr(2) [OF q(2)]])
          (use findRetirement_Inr(1) [OF q(2)] in \<open>simp del: retirementMapKey_inject\<close>)
      then show ?thesis using Pair by simp
    qed (use Pair inv in simp)
  qed
qed

lemma finalize_advances: "advances l s (fst (finalizeAuthorityRetirement l i s))"
  unfolding advances_def
proof (intro impI)
  assume inv: "mailbox_inv l s"
  show "mailbox_inv l (fst (finalizeAuthorityRetirement l i s)) \<and> mailbox_later s (fst (finalizeAuthorityRetirement l i s))"
  proof (cases "finalizeAuthorityRetirement l i s")
    case (Pair s' out)
    show ?thesis
    proof (cases "s' = s")
      case False
      with Pair obtain q y where q: "normalizeMailboxAuthorityRetirement i l = Inr q" "findRetirement q s = Inr (Some y)"
        and y: "phase y \<noteq> Finalized" and c: "commitRetirement l q Finalized (cancelledMessageCount y) s = (s', out)"
        by (auto simp: finalizeAuthorityRetirement_def commit_def split: sum.splits option.splits if_splits)
      have fenced: "phase y = Fenced" using y by (cases "phase y") simp_all
      obtain x where x: "out = Inr x" using False c by (cases out) (auto dest: commitRetirement_fails)
      note found = findRetirement_Inr(1) [OF q(2)] findRetirement_Inr(3) [OF q(2) refl]
      have "retirementMapKey (wr_partition q) = retirementMapKey (wr_partition y)"
        using mailbox_invD(8) [OF inv] found(1) by (simp add: fenced_ok_def del: retirementMapKey_inject)
      then have part: "wr_partition q = wr_partition y" by (simp add: same_recipient_eq)
      have "mailbox_inv l s' \<and> mailbox_later s s'"
        by (rule commitRetirement_advances [OF inv c [unfolded x] findRetirement_Inr(2) [OF q(2)]])
          (use found fenced part in \<open>auto simp: retirement_later_def simp del: retirementMapKey_inject\<close>)
      then show ?thesis using Pair by simp
    qed (use Pair inv in simp)
  qed
qed

section \<open>Runs\<close>

datatype mailbox_op =
    Enqueue message_input int int
  | Renew renew_request
  | Complete sequence_key js_string js_string js_string
  | Abandon sequence_key js_string js_string js_string
  | Cancel message_key js_string js_string
  | PurgeTerminal work_lane js_string int
  | BeginRetirement work_retirement
  | FinalizeRetirement work_retirement

fun mailbox_exec :: "mailbox_limits \<Rightarrow> mailbox_op \<Rightarrow> mailbox \<Rightarrow> mailbox" where
  "mailbox_exec l (Enqueue i g r) s = fst (enqueue l i g r s)"
| "mailbox_exec l (Renew q) s = fst (renew l q s)"
| "mailbox_exec l (Complete k tok own now) s = fst (complete l k tok own now s)"
| "mailbox_exec l (Abandon k tok own now) s = fst (abandon l k tok own now s)"
| "mailbox_exec l (Cancel k expected now) s = fst (cancel l k expected now s)"
| "mailbox_exec l (PurgeTerminal r before n) s = fst (purgeTerminal l r before n s)"
| "mailbox_exec l (BeginRetirement q) s = fst (beginAuthorityRetirement l q s)"
| "mailbox_exec l (FinalizeRetirement q) s = fst (finalizeAuthorityRetirement l q s)"

lemma mailbox_exec_advances: "advances l s (mailbox_exec l op s)"
proof (cases op)
  case (Renew q)
  show ?thesis unfolding Renew mailbox_exec.simps by (rule maybe_step_advances, rule renew_step)
next
  case (Complete k tok own now)
  show ?thesis unfolding Complete mailbox_exec.simps by (rule maybe_step_advances, rule complete_step)
next
  case (Abandon k tok own now)
  show ?thesis unfolding Abandon mailbox_exec.simps by (rule maybe_step_advances, rule abandon_step)
next
  case (Cancel k expected now)
  show ?thesis unfolding Cancel mailbox_exec.simps by (rule maybe_step_advances, rule cancel_step)
qed (simp_all add: enqueue_advances purge_advances begin_advances finalize_advances)

interpretation mailbox_ops: invariant_machine "mailbox_exec l" "\<lambda>_ _. True" "mailbox_inv l" for l
  by unfold_locales (use mailbox_exec_advances in \<open>simp add: advances_def\<close>)

lemma run_ops_advance: "advances l s (run_ops (mailbox_exec l) ops s)"
  using mailbox_ops.run_inv mailbox_ops.run_related [of mailbox_later] mailbox_later_trans mailbox_exec_advances
  by (simp add: advances_def guarded_True list.pred_True)

text \<open>
  The states the store can be brought to: by operations, and by claims whose token source itself runs the
  store at each of its calls.
\<close>

inductive mailbox_run :: "mailbox_limits \<Rightarrow> mailbox \<Rightarrow> mailbox \<Rightarrow> bool" for l where
  start: "mailbox_run l s s"
| operations: "mailbox_run l s t \<Longrightarrow> mailbox_run l s (run_ops (mailbox_exec l) ops t)"
| claiming: "mailbox_run l s t \<Longrightarrow> (\<And>n u. mailbox_run l u (fst (src n u))) \<Longrightarrow> mailbox_run l s (fst (claim src l q t))"

lemma run_advances: "mailbox_run l s s' \<Longrightarrow> advances l s s'"
proof (induction rule: mailbox_run.induct)
  case (claiming s t src q)
  then have "source_advances l src" by (simp add: source_advances_def)
  with claiming show ?case by (blast intro: advances_trans claim_advances)
qed (auto intro: advances_trans run_ops_advance)

definition mailbox_reachable :: "mailbox_limits \<Rightarrow> mailbox \<Rightarrow> bool" where
  "mailbox_reachable l s \<longleftrightarrow> validateMailboxLimits l = Inr () \<and> mailbox_run l empty_mailbox s"

lemma mailbox_reachable_inv: "mailbox_reachable l s \<Longrightarrow> mailbox_inv l s"
  using run_advances empty_mailbox_inv unfolding mailbox_reachable_def advances_def by blast

lemma mailbox_run_trans: "mailbox_run l t u \<Longrightarrow> mailbox_run l s t \<Longrightarrow> mailbox_run l s u"
  by (induction rule: mailbox_run.induct) (auto intro: mailbox_run.intros)

lemma reachable_run: "mailbox_reachable l s \<Longrightarrow> mailbox_run l s s' \<Longrightarrow> mailbox_inv l s' \<and> mailbox_later s s' \<and> mailbox_reachable l s'"
  using run_advances mailbox_reachable_inv mailbox_run_trans unfolding mailbox_reachable_def advances_def by blast

section \<open>The result of a completion\<close>

lemma complete_result:
  assumes "findRequired k s = Inr m0" and "status m0 \<noteq> Completed" and "complete l k tok own now s = (s', Inr m)"
  shows "s' = (put_message m s)\<lparr>leases := js_delete (messageKey m0) (leases s),
      releasedLeaseProofs := js_delete (messageKey m0) (releasedLeaseProofs s),
      settledLeaseProofs := js_set (messageKey m0) (leaseProofKey tok own) (settledLeaseProofs s)\<rparr>"
    and "\<exists>at rv. m = m0\<lparr>status := Completed, revision := rv, updatedAt := at, completedAt := Some at\<rparr>"
proof -
  from assms obtain at rv where m: "m = m0\<lparr>status := Completed, revision := rv, updatedAt := at, completedAt := Some at\<rparr>"
    and s': "s' = (put_message m s)\<lparr>leases := js_delete (messageKey m0) (leases s),
      releasedLeaseProofs := js_delete (messageKey m0) (releasedLeaseProofs s),
      settledLeaseProofs := js_set (messageKey m0) (leaseProofKey tok own) (settledLeaseProofs s)\<rparr>"
    by (auto simp: complete_def Let_def commit_def split: sum.splits)
  show "s' = (put_message m s)\<lparr>leases := js_delete (messageKey m0) (leases s),
      releasedLeaseProofs := js_delete (messageKey m0) (releasedLeaseProofs s),
      settledLeaseProofs := js_set (messageKey m0) (leaseProofKey tok own) (settledLeaseProofs s)\<rparr>" by (rule s')
  show "\<exists>at rv. m = m0\<lparr>status := Completed, revision := rv, updatedAt := at, completedAt := Some at\<rparr>" using m by blast
qed

end
