(* ===== verification/Mailbox_Samples.thy ===== *)
theory Mailbox_Samples
  imports Mailbox_Run
begin

text \<open>
  A concrete mailbox for the witnesses: two messages for one recipient, the first leased, then completed.
\<close>

definition sample_limits :: mailbox_limits where
  "sample_limits = \<lparr>maxIdentifierBytes = 9, maxPayloadBytes = 9, maxTickDigits = 9, maxCounterDigits = 9,
     maxPendingMessagesPerTimelineGeneration = 9, maxPendingMessagesPerRecipient = 9, maxActiveDeliveries = 9,
     maxPageSize = 9, maxClaimBatchSize = 9, maxPurgeBatchSize = 9\<rparr>"

definition sample_lane :: work_lane where
  "sample_lane = \<lparr>sessionId = js ''s'', actorId = js ''a'', lane_ownerId = js ''c'', lane_timelineId = js ''t'',
     lane_generation = js ''1''\<rparr>"

definition sample_draft :: "js_string \<Rightarrow> message_draft" where
  "sample_draft i = \<lparr>messageId = i, recipient = sample_lane, senderId = None, kind = js ''k'',
     gameTime = \<lparr>gt_timelineId = js ''t'', gt_generation = js ''1'', tick = js ''0''\<rparr>, correlationId = None, recordedAt = t0,
     payload = JNull\<rparr>"

definition sample_input :: "js_string \<Rightarrow> message_input" where
  "sample_input i = \<lparr>messageId = i, recipient = sample_lane, senderId = None, kind = js ''k'',
     gameTime = \<lparr>gt_timelineId = js ''t'', gt_generation = js ''1'', tick = js ''0''\<rparr>, correlationId = None, recordedAt = t0,
     input_payload = VNull\<rparr>"

lemma length_js [simp]: "length (js x) = length x"
  by (simp add: js_def)

lemma sample_limits_ok [simp]: "validateMailboxLimits sample_limits = Inr ()"
  by (simp add: validateMailboxLimits_def sample_limits_def validate_limit_def is_safe_integer_def max_safe_integer_def)

lemma sample_limits_fields [simp]:
  "maxIdentifierBytes sample_limits = 9" "maxPayloadBytes sample_limits = 9" "maxTickDigits sample_limits = 9"
  "maxCounterDigits sample_limits = 9" "maxPendingMessagesPerTimelineGeneration sample_limits = 9"
  "maxPendingMessagesPerRecipient sample_limits = 9" "maxPageSize sample_limits = 9" "maxClaimBatchSize sample_limits = 9"
  by (simp_all add: sample_limits_def)

lemma sample_draft_fields [simp]:
  "messageId (sample_draft i) = i" "recipient (sample_draft i) = sample_lane" "recordedAt (sample_draft i) = t0"
  by (simp_all add: sample_draft_def)

lemma sample_lengths:
  "utf8_length (js ''tok'') = 3" "x \<in> {''s'', ''a'', ''r'', ''t'', ''c'', ''k''} \<Longrightarrow> utf8_length (js x) = 1"
  "utf8_length (canonical JNull) = 4"
  by (auto simp: js_def is_high_def canonical_def utf8_length.simps)

lemma sample_identifiers [simp]: "x \<in> {''s'', ''a'', ''r'', ''t'', ''c'', ''k'', ''tok''} \<Longrightarrow> validateMailboxIdentifier (js x) 9 name = Inr ()"
  by (auto simp: validateMailboxIdentifier_def sample_lengths)

lemma sample_lane_fields [simp]:
  "sessionId sample_lane = js ''s''" "actorId sample_lane = js ''a''" "lane_ownerId sample_lane = js ''c''"
  "lane_timelineId sample_lane = js ''t''" "lane_generation sample_lane = js ''1''"
  by (simp_all add: sample_lane_def)

lemma sample_recipient [simp]: "normalizeMailboxRecipient sample_lane sample_limits = Inr ()"
  by (simp add: normalizeMailboxRecipient_def validateMailboxDecimal_def)

lemma sample_normalized [simp]:
  "x \<in> {''r'', ''c''} \<Longrightarrow> normalizeMailboxMessage (sample_input (js x)) sample_limits = Inr (sample_draft (js x))"
  by (auto simp: normalizeMailboxMessage_def sample_input_def sample_draft_def normalizeJsonValue_eq
     game_time_ok_def validateMailboxDecimal_def sample_lengths validateMailboxTimestamp_def)


section \<open>A run\<close>

definition sample_key :: "js_string \<Rightarrow> js_string" where
  "sample_key i = messageMapKey sample_lane i"

definition one_message :: mailbox where
  "one_message = inserted (sample_draft (js ''r'')) empty_mailbox"

definition two_messages :: mailbox where
  "two_messages = inserted (sample_draft (js ''c'')) one_message"

abbreviation first_message :: message where
  "first_message \<equiv> new_message (sample_draft (js ''r'')) 1"

abbreviation second_message :: message where
  "second_message \<equiv> new_message (sample_draft (js ''c'')) 2"

definition sample_claim :: "js_string \<Rightarrow> js_string \<Rightarrow> claim_request" where
  "sample_claim now till = work_lane.extend sample_lane
     \<lparr>cq_leaseOwnerId = js ''k'', cq_operationalNow = now, cq_leaseExpiresAt = till, cq_limit = 1\<rparr>"

definition sample_source :: token_source where
  "sample_source n s = (s, Inr (js ''tok''))"

lemma sample_enqueue:
  "enqueue sample_limits (sample_input (js ''r'')) 9 9 empty_mailbox = (one_message, Inr first_message)"
  "enqueue sample_limits (sample_input (js ''c'')) 9 9 one_message = (two_messages, Inr second_message)"
proof -
  show "enqueue sample_limits (sample_input (js ''r'')) 9 9 empty_mailbox = (one_message, Inr first_message)"
    by (simp add: enqueue_def assertAuthorityOpen_def empty_mailbox_def js_has_def validateCapacity_def is_safe_integer_def
      max_safe_integer_def mailboxFingerprint_def pending_messages_def js_values_def one_message_def inserted_def Let_def)
  show "enqueue sample_limits (sample_input (js ''c'')) 9 9 one_message = (two_messages, Inr second_message)"
    by (simp add: enqueue_def assertAuthorityOpen_def empty_mailbox_def js_has_def validateCapacity_def is_safe_integer_def
      max_safe_integer_def mailboxFingerprint_def pending_messages_def js_values_def one_message_def inserted_def Let_def
      two_messages_def js_get_def js_set_def sameMailboxRecipient_def sameMailboxGeneration_def)
qed


lemma sample_map_keys: "sample_key (js ''r'') \<noteq> sample_key (js ''c'')"
  by (simp add: sample_key_def)

lemma sample_states:
  "one_message = \<lparr>messages = [(sample_key (js ''r''), first_message)],
     fingerprints = [(sample_key (js ''r''), canonical (draft_json (sample_draft (js ''r''))))], leases = [],
     settledLeaseProofs = [], releasedLeaseProofs = [], retirements = [], retirementIds = [], nextMessageKey = 2\<rparr>"
  "two_messages = \<lparr>messages = [(sample_key (js ''r''), first_message), (sample_key (js ''c''), second_message)],
     fingerprints = [(sample_key (js ''r''), canonical (draft_json (sample_draft (js ''r'')))),
       (sample_key (js ''c''), canonical (draft_json (sample_draft (js ''c''))))], leases = [],
     settledLeaseProofs = [], releasedLeaseProofs = [], retirements = [], retirementIds = [], nextMessageKey = 3\<rparr>"
proof -
  show one: "one_message = \<lparr>messages = [(sample_key (js ''r''), first_message)],
     fingerprints = [(sample_key (js ''r''), canonical (draft_json (sample_draft (js ''r''))))], leases = [],
     settledLeaseProofs = [], releasedLeaseProofs = [], retirements = [], retirementIds = [], nextMessageKey = 2\<rparr>"
    by (simp add: one_message_def inserted_def empty_mailbox_def sample_key_def js_set_def Let_def)
  show "two_messages = \<lparr>messages = [(sample_key (js ''r''), first_message), (sample_key (js ''c''), second_message)],
     fingerprints = [(sample_key (js ''r''), canonical (draft_json (sample_draft (js ''r'')))),
       (sample_key (js ''c''), canonical (draft_json (sample_draft (js ''c''))))], leases = [],
     settledLeaseProofs = [], releasedLeaseProofs = [], retirements = [], retirementIds = [], nextMessageKey = 3\<rparr>"
    using sample_map_keys by (simp add: two_messages_def inserted_def one js_set_def sample_key_def [symmetric] Let_def)
qed

definition leased_message :: message where
  "leased_message = first_message\<lparr>revision := js ''2'', attempt := js ''1'', updatedAt := t1\<rparr>"

lemma leased_message_fields [simp]:
  "recipient leased_message = sample_lane" "messageId leased_message = js ''r''" "messageKey leased_message = 1"
  "status leased_message = Pending" "updatedAt leased_message = t1" "revision leased_message = js ''2''"
  by (simp_all add: leased_message_def)

definition sample_delivery :: "js_string \<Rightarrow> delivery" where
  "sample_delivery till = \<lparr>dv_message = leased_message, leaseToken = js ''tok'', leaseOwnerId = js ''k'', leaseExpiresAt = till\<rparr>"

definition leased_mailbox :: "js_string \<Rightarrow> mailbox" where
  "leased_mailbox till = lease_delivery (sample_delivery till) two_messages"

lemma sample_claim_fields [simp]:
  "sessionId (sample_claim now till) = js ''s''" "actorId (sample_claim now till) = js ''a''"
  "lane_ownerId (sample_claim now till) = js ''c''" "lane_timelineId (sample_claim now till) = js ''t''"
  "lane_generation (sample_claim now till) = js ''1''" "cq_leaseOwnerId (sample_claim now till) = js ''k''"
  "cq_operationalNow (sample_claim now till) = now" "cq_leaseExpiresAt (sample_claim now till) = till"
  "cq_limit (sample_claim now till) = 1"
  by (simp_all add: sample_claim_def work_lane.defs sample_lane_def)

lemma sample_claimed:
  assumes "till \<in> {t2, t3}"
  shows "claim sample_source sample_limits (sample_claim t1 till) two_messages = (leased_mailbox till, Inr [sample_delivery till])"
proof -
  have "normalizeMailboxClaim (sample_claim t1 till) sample_limits = Inr ()"
    using assms by (auto simp: normalizeMailboxClaim_def normalizeMailboxRecipient_def validateMailboxDecimal_def
      validateMailboxTimestamp_def validateMailboxPageLimit_def is_safe_integer_def max_safe_integer_def)
  moreover have "recipientMessages (sample_claim t1 till) two_messages = [first_message, second_message]"
    by (simp add: recipientMessages_def sample_states js_values_def sameMailboxRecipient_def sameMailboxGeneration_def)
  moreover have "\<not> t1 < t0" by simp
  ultimately show ?thesis
    by (simp add: claim_def assertAuthorityOpen_def sample_states js_has_def js_get_def sample_source_def prepare_delivery_def
      incrementMailboxDecimal_def validateMailboxDecimal_def to_decimal_1 sample_key_def leased_mailbox_def sample_delivery_def
      leased_message_def)
qed


definition sample_sequence :: sequence_key where
  "sample_sequence = work_lane.extend sample_lane \<lparr>sk_messageKey = 1\<rparr>"

lemma sample_sequence_fields [simp]:
  "sessionId sample_sequence = js ''s''" "actorId sample_sequence = js ''a''" "lane_ownerId sample_sequence = js ''c''"
  "lane_timelineId sample_sequence = js ''t''" "lane_generation sample_sequence = js ''1''" "sk_messageKey sample_sequence = 1"
  by (simp_all add: sample_sequence_def work_lane.defs sample_lane_def)

definition completed_message :: message where
  "completed_message = leased_message\<lparr>status := Completed, revision := js ''3'', updatedAt := t2, completedAt := Some t2\<rparr>"

definition completed_mailbox :: mailbox where
  "completed_mailbox = fst (complete sample_limits sample_sequence (js ''tok'') (js ''k'') t2 (leased_mailbox t3))"

lemma leased_mailbox_eq:
  "leased_mailbox till = \<lparr>messages = [(sample_key (js ''r''), leased_message), (sample_key (js ''c''), second_message)],
     fingerprints = fingerprints two_messages, leases = [(1, \<lparr>token = js ''tok'', ownerId = js ''k'', expiresAt = till\<rparr>)],
     settledLeaseProofs = [], releasedLeaseProofs = [], retirements = [], retirementIds = [], nextMessageKey = 3\<rparr>"
  using sample_map_keys
  by (simp add: leased_mailbox_def lease_delivery_def sample_delivery_def sample_states put_message_def js_set_def js_delete_def
    Let_def sample_key_def [symmetric] del: messageMapKey_inject)

lemma sample_complete:
  "complete sample_limits sample_sequence (js ''tok'') (js ''k'') t2 (leased_mailbox t3) = (completed_mailbox, Inr completed_message)"
proof -
  have "find (\<lambda>m. messageKey m = 1 \<and> sameMailboxRecipient (recipient m) sample_sequence) [leased_message, second_message] = Some leased_message"
    by (simp add: leased_message_def sameMailboxRecipient_def sameMailboxGeneration_def)
  then have "findRequired sample_sequence (leased_mailbox t3) = Inr leased_message"
    by (simp add: findRequired_def leased_mailbox_eq js_values_def)
  moreover have "\<not> earlier_pending leased_message (leased_mailbox t3)"
    by (simp add: earlier_pending_def recipientMessages_def leased_mailbox_eq js_values_def sameMailboxRecipient_def
      sameMailboxGeneration_def leased_message_def)
  moreover have "\<not> t2 < t1" using sample_order(2) by (metis order_less_asym)
  ultimately have "\<exists>s. complete sample_limits sample_sequence (js ''tok'') (js ''k'') t2 (leased_mailbox t3) = (s, Inr completed_message)"
    by (simp add: complete_def validateMailboxMessageSequenceKey_def normalizeMailboxRecipient_def validateMailboxDecimal_def
      validatePositiveMailboxKey_def validateMailboxTimestamp_def leased_mailbox_eq js_get_def assertActiveLease_def
      laterMailboxTimestamp_def incrementMailboxDecimal_def Let_def completed_message_def assertAuthorityOpen_def js_has_def)
  then show ?thesis by (auto simp: completed_mailbox_def)
qed

section \<open>Reachability\<close>

lemma sample_source_runs: "mailbox_run l u (fst (sample_source n u))"
  unfolding sample_source_def fst_conv by (rule mailbox_run.start)

lemma reachable_ops:
  "mailbox_reachable l s \<Longrightarrow> run_ops (mailbox_exec l) ops s = t \<Longrightarrow> mailbox_reachable l t"
  using reachable_run [OF _ mailbox_run.operations [OF mailbox_run.start]] by blast

lemma reachable_claim:
  "mailbox_reachable l s \<Longrightarrow> (\<And>n u. mailbox_run l u (fst (src n u))) \<Longrightarrow> claim src l q s = (t, r) \<Longrightarrow> mailbox_reachable l t"
  using reachable_run [OF _ mailbox_run.claiming [OF mailbox_run.start]] by (metis fst_conv)

lemma empty_reachable: "mailbox_reachable sample_limits empty_mailbox"
  unfolding mailbox_reachable_def by (rule conjI [OF sample_limits_ok mailbox_run.start])

lemma two_reachable: "mailbox_reachable sample_limits two_messages"
proof (rule reachable_ops [OF empty_reachable])
  show "run_ops (mailbox_exec sample_limits) [Enqueue (sample_input (js ''r'')) 9 9, Enqueue (sample_input (js ''c'')) 9 9]
    empty_mailbox = two_messages" unfolding run_ops.simps mailbox_exec.simps sample_enqueue fst_conv by (rule refl)
qed

lemma leased_reachable: "till \<in> {t2, t3} \<Longrightarrow> mailbox_reachable sample_limits (leased_mailbox till)"
  by (rule reachable_claim [OF two_reachable sample_source_runs sample_claimed])

lemma sample_keys_distinct [simp]: "sample_key (js ''r'') \<noteq> sample_key (js ''c'')" "sample_key (js ''c'') \<noteq> sample_key (js ''r'')"
  using sample_map_keys by simp_all

lemma completed_message_fields [simp]:
  "recipient completed_message = sample_lane" "messageId completed_message = js ''r''" "messageKey completed_message = 1"
  "status completed_message = Completed"
  by (simp_all add: completed_message_def)

lemma completed_mailbox_eq:
  "completed_mailbox = \<lparr>messages = [(sample_key (js ''r''), completed_message), (sample_key (js ''c''), second_message)],
     fingerprints = fingerprints two_messages, leases = [],
     settledLeaseProofs = [(1, leaseProofKey (js ''tok'') (js ''k''))], releasedLeaseProofs = [], retirements = [],
     retirementIds = [], nextMessageKey = 3\<rparr>"
proof -
  have "find (\<lambda>m. messageKey m = 1 \<and> sameMailboxRecipient (recipient m) sample_sequence) [leased_message, second_message] = Some leased_message"
    by (simp add: sameMailboxRecipient_def sameMailboxGeneration_def)
  then have "findRequired sample_sequence (leased_mailbox t3) = Inr leased_message"
    by (simp add: findRequired_def leased_mailbox_eq js_values_def)
  from complete_result(1) [OF this _ sample_complete] show ?thesis
    by (simp add: leased_mailbox_eq put_message_def js_set_def js_delete_def sample_key_def [symmetric] del: messageMapKey_inject)
qed

lemma completed_reachable: "mailbox_reachable sample_limits completed_mailbox"
proof (rule reachable_ops [OF leased_reachable])
  show "run_ops (mailbox_exec sample_limits) [Complete sample_sequence (js ''tok'') (js ''k'') t2] (leased_mailbox t3) =
    completed_mailbox" unfolding run_ops.simps mailbox_exec.simps sample_complete fst_conv by (rule refl)
qed simp

definition second_leased :: message where
  "second_leased = second_message\<lparr>revision := js ''2'', attempt := js ''1'', updatedAt := t2\<rparr>"

definition second_delivery :: delivery where
  "second_delivery = \<lparr>dv_message = second_leased, leaseToken = js ''tok'', leaseOwnerId = js ''k'', leaseExpiresAt = t3\<rparr>"

definition second_completed :: message where
  "second_completed = second_leased\<lparr>status := Completed, revision := js ''3'', updatedAt := t2, completedAt := Some t2\<rparr>"

definition second_sequence :: sequence_key where
  "second_sequence = sample_sequence\<lparr>sk_messageKey := 2\<rparr>"

lemma sample_claimed_again:
  "claim sample_source sample_limits (sample_claim t2 t3) completed_mailbox =
    (lease_delivery second_delivery completed_mailbox, Inr [second_delivery])"
proof -
  have "normalizeMailboxClaim (sample_claim t2 t3) sample_limits = Inr ()"
    by (simp add: normalizeMailboxClaim_def normalizeMailboxRecipient_def validateMailboxDecimal_def
      validateMailboxTimestamp_def validateMailboxPageLimit_def is_safe_integer_def max_safe_integer_def)
  moreover have "recipientMessages (sample_claim t2 t3) completed_mailbox = [completed_message, second_message]"
    by (simp add: recipientMessages_def completed_mailbox_eq js_values_def sameMailboxRecipient_def sameMailboxGeneration_def)
  moreover have "\<not> t2 < t0" by simp
  ultimately show ?thesis
    by (simp add: claim_def assertAuthorityOpen_def completed_mailbox_eq js_has_def js_get_def sample_source_def prepare_delivery_def
      incrementMailboxDecimal_def validateMailboxDecimal_def to_decimal_1 sample_key_def [symmetric] second_delivery_def
      second_leased_def del: messageMapKey_inject)
qed

lemma second_leased_fields [simp]:
  "recipient second_leased = sample_lane" "messageId second_leased = js ''c''" "messageKey second_leased = 2"
  "status second_leased = Pending" "updatedAt second_leased = t2" "revision second_leased = js ''2''"
  by (simp_all add: second_leased_def)

definition both_completed :: mailbox where
  "both_completed = fst (complete sample_limits second_sequence (js ''tok'') (js ''k'') t2 (lease_delivery second_delivery completed_mailbox))"

lemma second_mailbox_eq:
  "lease_delivery second_delivery completed_mailbox = \<lparr>messages = [(sample_key (js ''r''), completed_message), (sample_key (js ''c''), second_leased)],
     fingerprints = fingerprints two_messages, leases = [(2, \<lparr>token = js ''tok'', ownerId = js ''k'', expiresAt = t3\<rparr>)],
     settledLeaseProofs = [(1, leaseProofKey (js ''tok'') (js ''k''))], releasedLeaseProofs = [], retirements = [],
     retirementIds = [], nextMessageKey = 3\<rparr>"
  by (simp add: lease_delivery_def second_delivery_def completed_mailbox_eq put_message_def js_set_def js_delete_def
    Let_def sample_key_def [symmetric] del: messageMapKey_inject)

lemma sample_complete_again:
  "complete sample_limits second_sequence (js ''tok'') (js ''k'') t2 (lease_delivery second_delivery completed_mailbox) =
     (both_completed, Inr second_completed)"
  "both_completed = \<lparr>messages = [(sample_key (js ''r''), completed_message), (sample_key (js ''c''), second_completed)],
     fingerprints = fingerprints two_messages, leases = [],
     settledLeaseProofs = [(1, leaseProofKey (js ''tok'') (js ''k'')), (2, leaseProofKey (js ''tok'') (js ''k''))],
     releasedLeaseProofs = [], retirements = [], retirementIds = [], nextMessageKey = 3\<rparr>"
proof -
  let ?s = "lease_delivery second_delivery completed_mailbox"
  have k: "sessionId second_sequence = js ''s''" "actorId second_sequence = js ''a''" "lane_ownerId second_sequence = js ''c''"
    "lane_timelineId second_sequence = js ''t''" "lane_generation second_sequence = js ''1''" "sk_messageKey second_sequence = 2"
    by (simp_all add: second_sequence_def)
  have "find (\<lambda>m. messageKey m = 2 \<and> sameMailboxRecipient (recipient m) second_sequence) [completed_message, second_leased] = Some second_leased"
    by (simp add: sameMailboxRecipient_def sameMailboxGeneration_def k)
  then have found: "findRequired second_sequence ?s = Inr second_leased"
    by (simp add: findRequired_def second_mailbox_eq js_values_def k)
  have "\<not> earlier_pending second_leased ?s"
    by (simp add: earlier_pending_def recipientMessages_def second_mailbox_eq js_values_def sameMailboxRecipient_def
      sameMailboxGeneration_def)
  moreover have "\<not> t3 \<le> t2" "\<not> t2 < t2" by simp_all
  ultimately have "\<exists>s. complete sample_limits second_sequence (js ''tok'') (js ''k'') t2 ?s = (s, Inr second_completed)"
    using found
    by (simp add: complete_def validateMailboxMessageSequenceKey_def normalizeMailboxRecipient_def validateMailboxDecimal_def
      validatePositiveMailboxKey_def validateMailboxTimestamp_def second_mailbox_eq js_get_def assertActiveLease_def
      laterMailboxTimestamp_def incrementMailboxDecimal_def Let_def second_completed_def assertAuthorityOpen_def js_has_def k)
  then show c: "complete sample_limits second_sequence (js ''tok'') (js ''k'') t2 ?s = (both_completed, Inr second_completed)"
    by (auto simp: both_completed_def)
  have "recipient second_completed = sample_lane" "messageId second_completed = js ''c''" by (simp_all add: second_completed_def)
  with complete_result(1) [OF found _ c] show "both_completed = \<lparr>messages = [(sample_key (js ''r''), completed_message), (sample_key (js ''c''), second_completed)],
     fingerprints = fingerprints two_messages, leases = [],
     settledLeaseProofs = [(1, leaseProofKey (js ''tok'') (js ''k'')), (2, leaseProofKey (js ''tok'') (js ''k''))],
     releasedLeaseProofs = [], retirements = [], retirementIds = [], nextMessageKey = 3\<rparr>"
    by (simp add: second_mailbox_eq put_message_def js_set_def js_delete_def sample_key_def [symmetric] del: messageMapKey_inject)
qed

lemma both_reachable: "mailbox_reachable sample_limits both_completed"
proof (rule reachable_ops)
  show "mailbox_reachable sample_limits (lease_delivery second_delivery completed_mailbox)"
    by (rule reachable_claim [OF completed_reachable sample_source_runs sample_claimed_again])
  show "run_ops (mailbox_exec sample_limits) [Complete second_sequence (js ''tok'') (js ''k'') t2]
    (lease_delivery second_delivery completed_mailbox) = both_completed"
    unfolding run_ops.simps mailbox_exec.simps sample_complete_again(1) fst_conv by (rule refl)
qed

section \<open>Reads of the samples\<close>

lemma sample_stored [simp]:
  "stored two_messages first_message" "stored two_messages second_message" "stored (leased_mailbox till) leased_message"
  "stored completed_mailbox completed_message" "stored both_completed completed_message" "stored both_completed second_completed"
  "stored one_message first_message"
  by (simp_all add: stored_def sample_states leased_mailbox_eq completed_mailbox_eq sample_complete_again(2) js_get_def
    second_completed_def sample_key_def [symmetric] del: messageMapKey_inject)

lemma sample_recipient_messages:
  fixes q :: "'a work_lane_scheme"
  assumes "sameMailboxRecipient sample_lane q"
  shows "recipientMessages q two_messages = [first_message, second_message]"
    and "recipientMessages q (leased_mailbox till) = [leased_message, second_message]"
  using assms by (simp_all add: recipientMessages_def sample_states leased_mailbox_eq js_values_def)

lemma sample_claim_recipient [simp]: "sameMailboxRecipient sample_lane (sample_claim now till)"
  by (simp add: sameMailboxRecipient_def sameMailboxGeneration_def)

lemma sample_lane_recipient [simp]: "sameMailboxRecipient sample_lane sample_lane"
  by (simp add: sameMailboxRecipient_def sameMailboxGeneration_def)

lemma sample_claim_ok:
  "now < till \<Longrightarrow> is_timestamp now \<Longrightarrow> is_timestamp till \<Longrightarrow> normalizeMailboxClaim (sample_claim now till) sample_limits = Inr ()"
  by (simp add: normalizeMailboxClaim_def normalizeMailboxRecipient_def validateMailboxDecimal_def
    validateMailboxTimestamp_def validateMailboxPageLimit_def is_safe_integer_def max_safe_integer_def)

section \<open>A retirement\<close>

definition sample_retirement :: work_retirement where
  "sample_retirement = \<lparr>wr_retirementId = js ''k'', wr_partition = sample_lane, wr_recordedAt = t1\<rparr>"

definition sample_retired :: mailbox where
  "sample_retired = recorded (new_record sample_retirement Fenced 0) empty_mailbox"

lemma sample_retirement_fields [simp]:
  "wr_retirementId sample_retirement = js ''k''" "wr_partition sample_retirement = sample_lane" "wr_recordedAt sample_retirement = t1"
  by (simp_all add: sample_retirement_def)

lemma sample_pattern: "timestamp_pattern t1"
  using sample_timestamps(2) by (simp add: is_timestamp_def)

lemma sample_retirement_ok [simp]:
  "normalizeMailboxAuthorityRetirement sample_retirement sample_limits = Inr sample_retirement"
  by (simp add: normalizeMailboxAuthorityRetirement_def captureWorkAuthorityRetirementRequest_def work_retirement_ok_def
    captureWorkAuthorityLane_def work_lane_ok_def stream_key_ok_def assertCanonicalTimestamp_def
    sample_pattern)

lemma sample_begin: "beginAuthorityRetirement sample_limits sample_retirement empty_mailbox =
    (sample_retired, Inr (new_record sample_retirement Fenced 0))"
  by (simp add: beginAuthorityRetirement_def findRetirement_def empty_mailbox_def Let_def commitRetirement_def
    recipientMessages_def js_values_def is_safe_integer_def max_safe_integer_def sample_retired_def recorded_def new_record_def
    work_retirement.defs retirement_record.defs)

lemma retired_reachable: "mailbox_reachable sample_limits sample_retired"
proof (rule reachable_ops [OF empty_reachable])
  show "run_ops (mailbox_exec sample_limits) [BeginRetirement sample_retirement] empty_mailbox = sample_retired"
    unfolding run_ops.simps mailbox_exec.simps sample_begin fst_conv by (rule refl)
qed

end
