(* ===== verification/Mailbox_Spec.thy ===== *)
theory Mailbox_Spec
  imports Mailbox_Samples
begin

text \<open>
  What the mailbox store promises its callers, over every run of its operations: order of completion, leases,
  replays, final states, retirement and listing.
\<close>

section \<open>Helpers\<close>

lemma list_all2_left: "list_all2 P xs ys \<Longrightarrow> x \<in> set xs \<Longrightarrow> \<exists>y \<in> set ys. P x y"
  by (induction rule: list_all2_induct) auto

lemma list_all2_right: "list_all2 P xs ys \<Longrightarrow> y \<in> set ys \<Longrightarrow> \<exists>x \<in> set xs. P x y"
  by (induction rule: list_all2_induct) auto

lemma mailbox_run_later:
  "mailbox_reachable l s \<Longrightarrow> mailbox_run l s t \<Longrightarrow> stored t p \<Longrightarrow> messageKey p < nextMessageKey s \<Longrightarrow>
    \<exists>m. stored s m \<and> same_message m p \<and> kept_or_moved s t m p"
  using reachable_run unfolding mailbox_later_def by blast

lemma stored_below: "mailbox_inv l s \<Longrightarrow> stored s m \<Longrightarrow> 1 \<le> messageKey m \<and> messageKey m < nextMessageKey s"
  using mailbox_invD(2) by (fastforce simp: messages_filed_def stored_def)

text \<open>A message stored now and still stored later is the same message, unchanged or moved on from pending.\<close>

lemma message_later:
  assumes "mailbox_reachable l s" "mailbox_run l s t" "stored s m" "stored t p" "messageKey p = messageKey m"
  shows "same_message m p \<and> kept_or_moved s t m p"
proof -
  note inv = mailbox_reachable_inv [OF assms(1)]
  have "messageKey p < nextMessageKey s" using stored_below [OF inv assms(3)] assms(5) by simp
  from mailbox_run_later [OF assms(1,2,4) this] obtain n where n: "stored s n" "same_message n p" "kept_or_moved s t n p" by blast
  then have "messageKey n = messageKey m" using assms(5) by (simp add: same_message_def)
  with n stored_unique_key [OF mailbox_invD(1,2) [OF inv] n(1) assms(3)] show ?thesis by blast
qed

lemma findRequired_stored:
  assumes "mailbox_inv l t" "stored t p" "messageKey p = sk_messageKey k" "sameMailboxRecipient (recipient p) k"
  shows "findRequired k t = Inr p"
proof -
  note i = mailbox_invD(1,2) [OF assms(1)]
  have "p \<in> set (js_values (messages t))" using assms(2) stored_value [OF i] by simp
  then obtain q where q: "find (\<lambda>m. messageKey m = sk_messageKey k \<and> sameMailboxRecipient (recipient m) k) (js_values (messages t)) = Some q"
    using assms(3,4) by (cases "find (\<lambda>m. messageKey m = sk_messageKey k \<and> sameMailboxRecipient (recipient m) k) (js_values (messages t))")
      (auto simp: find_None_iff)
  from find_stored [OF i q] assms(3) stored_unique_key [OF i _ assms(2)] have "q = p" by simp
  with q show ?thesis by (simp add: findRequired_def)
qed

text \<open>A complete call that succeeds leaves the message completed and its proof recorded.\<close>

lemma completed_by:
  assumes inv: "mailbox_inv l s" and c: "complete l k tok own now s = (s', Inr m)"
  shows "stored s' m \<and> status m = Completed \<and> messageKey m = sk_messageKey k \<and> sameMailboxRecipient (recipient m) k \<and>
    js_get (settledLeaseProofs s') (messageKey m) = Some (leaseProofKey tok own) \<and>
    checks [validateMailboxMessageSequenceKey k l, validateMailboxIdentifier tok (maxIdentifierBytes l) ''lease_token'',
      validateMailboxIdentifier own (maxIdentifierBytes l) ''lease_owner_id''] = Inr ()"
proof -
  let ?c = "checks [validateMailboxMessageSequenceKey k l, validateMailboxIdentifier tok (maxIdentifierBytes l) ''lease_token'',
      validateMailboxIdentifier own (maxIdentifierBytes l) ''lease_owner_id'', validateMailboxTimestamp now]"
  obtain m0 where found: "findRequired k s = Inr m0" and chk: "?c = Inr ()"
    using c by (auto simp: complete_def commit_def split: sum.splits)
  note m0 = findRequired_Inr [OF mailbox_invD(1,2) [OF inv] found]
  show ?thesis
  proof (cases "status m0 = Completed")
    case True
    with c chk found have "s' = s" "m = m0" "js_get (settledLeaseProofs s) (messageKey m0) = Some (leaseProofKey tok own)"
      by (auto simp: complete_def Let_def split: if_splits)
    then show ?thesis using m0 True chk by (auto simp: rbind_eq_Inr)
  next
    case False
    note complete_result [OF found False c]
    then show ?thesis using m0 chk by (auto simp: stored_def rbind_eq_Inr)
  qed
qed

text \<open>The next counter fits the configured number of digits.\<close>

definition has_room :: "mailbox_limits \<Rightarrow> js_string \<Rightarrow> bool" where
  "has_room l t \<longleftrightarrow> int (length t) \<le> maxCounterDigits l \<and> int (length (to_decimal (Suc (of_decimal t)))) \<le> maxCounterDigits l"

lemma increment_room: "is_decimal t \<Longrightarrow> has_room l t \<Longrightarrow>
    incrementMailboxDecimal t (maxCounterDigits l) name = Inr (to_decimal (Suc (of_decimal t)))"
  by (simp add: incrementMailboxDecimal_Inr has_room_def)

lemma select_claim_total:
  "\<forall>m \<in> set ms. status m = Pending \<longrightarrow> updatedAt m \<le> cq_operationalNow q \<Longrightarrow> \<exists>out. select_claim q ls ms sel = Inr out"
  by (induction q ls ms sel rule: select_claim.induct) (auto simp: not_less)

lemma prepare_total:
  assumes "\<And>n u. \<exists>tok. src n u = (u, Inr tok) \<and> validateMailboxIdentifier tok (maxIdentifierBytes l) ''lease_token'' = Inr ()"
    and "\<forall>m \<in> set ms. message_wf m \<and> has_room l (revision m) \<and> has_room l (attempt m)"
  shows "\<exists>ds. prepare_deliveries src l q n ms s = (s, Inr ds)"
  using assms(2)
proof (induction ms arbitrary: n)
  case (Cons m ms)
  obtain tok where tok: "src n s = (s, Inr tok)" "validateMailboxIdentifier tok (maxIdentifierBytes l) ''lease_token'' = Inr ()"
    using assms(1) by blast
  have "\<exists>d. prepare_delivery l q m tok = Inr d"
    using Cons.prems wf_decimals [of m] tok(2) by (simp add: prepare_delivery_def increment_room)
  moreover obtain ds where "prepare_deliveries src l q (Suc n) ms s = (s, Inr ds)" using Cons.IH [of "Suc n"] Cons.prems by auto
  ultimately show ?case using tok(1) by auto
qed simp

text \<open>The messages a listing ranges over, in order.\<close>

definition matching :: "list_request \<Rightarrow> mailbox \<Rightarrow> message list" where
  "matching q s = filter (listed q (statuses q)) (sort_key messageKey (filter (in_scope q) (js_values (messages s))))"

lemma matching_sorted: "mailbox_inv l s \<Longrightarrow> sorted_wrt (<) (map messageKey (matching q s))"
  using sorted_sort_key [of messageKey "filter (in_scope q) (js_values (messages s))"] mailbox_invD(2) [of l s]
  by (simp add: matching_def messages_filed_def sorted_wrt_map sorted_wrt_filter)

lemma filter_after: "sorted_wrt (<) (map f xs) \<Longrightarrow> n < length xs \<Longrightarrow> filter (\<lambda>x. f (xs ! n) < f x) xs = drop (Suc n) xs"
  for f :: "'a \<Rightarrow> int"
proof (induction xs arbitrary: n)
  case (Cons x xs)
  show ?case
  proof (cases n)
    case 0
    then show ?thesis using Cons.prems by (auto intro: filter_True)
  next
    case (Suc k)
    then have "\<not> f (xs ! k) < f x" using Cons.prems by (auto simp: not_less intro!: less_imp_le)
    with Suc Cons show ?thesis by simp
  qed
qed simp

lemma normalized_filter: "normalizeMailboxStatusFilter v = Inr sts \<Longrightarrow> listed q sts = listed q v"
  by (auto simp: normalizeMailboxStatusFilter_def listed_def rbind_eq_Inr Let_def fun_eq_iff split: option.splits)

lemma length_filter_le: "(\<And>x. P x \<Longrightarrow> Q x) \<Longrightarrow> length (filter P xs) \<le> length (filter Q xs)"
  by (induction xs) auto

text \<open>What a retirement cancels is within the capacities.\<close>

lemma to_cancel_bounds:
  assumes "mailbox_inv l s" and "validateMailboxLimits l = Inr ()"
  shows "int (length (to_cancel q ph s)) \<le> maxPendingMessagesPerRecipient l"
    and "int (length (to_cancel q ph s)) \<le> maxPendingMessagesPerTimelineGeneration l"
    and "is_safe_integer (int (length (to_cancel q ph s)))"
proof -
  have "length (to_cancel q ph s) \<le> pending_count (\<lambda>x. sameMailboxRecipient x (wr_partition q)) s"
    unfolding to_cancel_def recipientMessages_eq [OF mailbox_invD(2) [OF assms(1)]] pending_count_def filter_filter
    by (rule length_filter_le) auto
  with mailbox_invD(7) [OF assms(1)] show cap: "int (length (to_cancel q ph s)) \<le> maxPendingMessagesPerRecipient l"
    unfolding within_capacity_def by (meson le_trans of_nat_mono order_trans)
  moreover have lim: "maxPendingMessagesPerRecipient l \<le> maxPendingMessagesPerTimelineGeneration l" "maxPendingMessagesPerRecipient l < max_safe_integer"
    using assms(2) by (auto simp: validateMailboxLimits_def rbind_eq_Inr validate_limit_def)
  ultimately show "int (length (to_cancel q ph s)) \<le> maxPendingMessagesPerTimelineGeneration l" by simp
  show "is_safe_integer (int (length (to_cancel q ph s)))" using cap lim by (simp add: is_safe_integer_def)
qed

lemma commitRetirement_total:
  assumes "int (length (to_cancel q ph s)) \<le> maxPendingMessagesPerRecipient l"
    and "int (length (to_cancel q ph s)) \<le> maxPendingMessagesPerTimelineGeneration l"
    and "map_checked (cancel_retired l q) (to_cancel q ph s) = Inr us" and "is_safe_integer (n + int (length us))"
  shows "\<exists>s'. commitRetirement l q ph n s = (s', Inr (new_record q ph (n + int (length us))))"
proof -
  have "is_safe_integer (cancelledMessageCount (new_record q ph (n + int (length us))))" using assms(4) by simp
  then show ?thesis
    using assms(1-3) unfolding commitRetirement_def to_cancel_def [symmetric] new_record_def [symmetric] Let_def
    by (simp del: new_record_simps)
qed

definition sample_list :: "int option \<Rightarrow> list_request" where
  "sample_list c = \<lparr>ls_ownerId = js ''c'', ls_timelineId = js ''t'', ls_generation = js ''1'', ls_sessionId = None,
     ls_actorId = None, statuses = None, afterMessageKey = c, ls_limit = 1\<rparr>"

section \<open>Properties\<close>

text \<open>C5: over every run of the mailbox store, including claims whose token source calls back into the store, messages
  of one recipient are completed in the order they were enqueued: a completed message has no pending
  message before it.\<close>

theorem mailbox_completes_in_order:
  assumes "mailbox_reachable l s" and "stored s m" and "stored s m'" and "sameMailboxRecipient (recipient m) (recipient m')"
    and "messageKey m < messageKey m'" and "status m' = Completed"
  shows "status m \<noteq> Pending"
  using mailbox_invD(6) [OF mailbox_reachable_inv [OF assms(1)]] assms(2-6) unfolding in_order_def by blast

theorem mailbox_completes_in_order_witness: "status completed_message \<noteq> Pending"
  by (rule mailbox_completes_in_order [OF both_reachable, of completed_message second_completed])
    (simp_all, simp_all add: second_completed_def)

text \<open>Every stored message is filed under its recipient and identifier, its times and status agree, its key is
  unique and below the next key; a lease is only held on a pending message, and a completion proof exactly
  on a completed one.\<close>

theorem mailbox_messages_well_formed:
  assumes "mailbox_reachable l s" and "js_get (messages s) k = Some m"
  shows "k = messageMapKey (recipient m) (messageId m) \<and> message_wf m \<and> 1 \<le> messageKey m \<and> messageKey m < nextMessageKey s \<and>
    (\<forall>k' m'. js_get (messages s) k' = Some m' \<and> messageKey m' = messageKey m \<longrightarrow> k' = k) \<and>
    (js_has (leases s) (messageKey m) \<longrightarrow> status m = Pending) \<and>
    (js_has (settledLeaseProofs s) (messageKey m) \<longleftrightarrow> status m = Completed)"
proof -
  note i = mailbox_invD [OF mailbox_reachable_inv [OF assms(1)]]
  have filed: "\<And>k' m'. js_get (messages s) k' = Some m' \<Longrightarrow> k' = messageMapKey (recipient m') (messageId m') \<and> stored s m'"
    using i(2) unfolding messages_filed_def stored_def by metis
  have unique: "stored s m' \<Longrightarrow> messageKey m' = messageKey m \<Longrightarrow> m' = m" for m'
    using stored_unique_key [OF i(1,2) _ conjunct2 [OF filed [OF assms(2)]]] by blast
  have "js_has (leases s) (messageKey m) \<longrightarrow> status m = Pending"
    using i(4) unique unfolding leases_ok_def js_has_def by blast
  moreover have "js_has (settledLeaseProofs s) (messageKey m) \<longleftrightarrow> status m = Completed"
    using i(5) unique filed [OF assms(2)] unfolding proofs_ok_def js_has_def by blast
  ultimately show ?thesis using filed unique i(2) assms(2) unfolding messages_filed_def by metis
qed

theorem mailbox_messages_well_formed_witness:
  "message_wf completed_message \<and> js_has (settledLeaseProofs completed_mailbox) 1 \<and> \<not> js_has (leases completed_mailbox) 1"
  using mailbox_messages_well_formed [OF completed_reachable, of "sample_key (js ''r'')" completed_message]
  by (simp add: completed_mailbox_eq js_get_def js_has_def)

text \<open>A message that is completed or cancelled never changes again while it is stored, and a pending one changes
  only with a greater revision and keeps its identity and content.\<close>

theorem mailbox_settled_is_final:
  assumes "mailbox_reachable l s" and "mailbox_run l s t" and "stored s m" and "stored t p" and "messageKey p = messageKey m"
  shows "recipient p = recipient m \<and> messageId p = messageId m \<and> draft_json p = draft_json m \<and>
    (p = m \<or> status m = Pending \<and> of_decimal (revision m) < of_decimal (revision p))"
  using message_later [OF assms] by (auto simp: same_message_def kept_or_moved_def)

theorem mailbox_settled_is_final_witness: "of_decimal (revision leased_message) < of_decimal (revision completed_message)"
proof -
  have "run_ops (mailbox_exec sample_limits) [Complete sample_sequence (js ''tok'') (js ''k'') t2] (leased_mailbox t3) = completed_mailbox"
    unfolding run_ops.simps mailbox_exec.simps sample_complete fst_conv by (rule refl)
  then have run: "mailbox_run sample_limits (leased_mailbox t3) completed_mailbox"
    using mailbox_run.operations [OF mailbox_run.start] by metis
  have "completed_message \<noteq> leased_message" by (metis completed_message_fields(4) leased_message_fields(4) message_status.distinct(1))
  with mailbox_settled_is_final [OF leased_reachable run, of leased_message completed_message] show ?thesis by simp
qed

text \<open>C8: a completion is recorded once: after a complete call succeeded, whatever ran since and as long as the
  message is stored, the same call returns the same record and leaves the store as it is, and a
  call with another lease token or owner fails as a lease conflict.\<close>

theorem completion_recorded_once:
  assumes "mailbox_reachable l s" and "complete l k tok own now s = (s', Inr m)" and "mailbox_run l s' t"
    and "stored t p" and "messageKey p = messageKey m" and "is_timestamp now'"
  shows "complete l k tok own now' t = (t, Inr m) \<and>
    ((tok', own') \<noteq> (tok, own) \<and> validateMailboxIdentifier tok' (maxIdentifierBytes l) ''lease_token'' = Inr () \<and>
       validateMailboxIdentifier own' (maxIdentifierBytes l) ''lease_owner_id'' = Inr () \<longrightarrow>
     complete l k tok' own' now' t = (t, Inl MailboxLeaseConflict))"
proof -
  have reach: "mailbox_reachable l s'"
    using reachable_ops [OF assms(1), of "[Complete k tok own now]" s'] assms(2) by simp
  note done_by = completed_by [OF mailbox_reachable_inv [OF assms(1)] assms(2)]
  have p: "p = m" "js_get (settledLeaseProofs t) (messageKey m) = Some (leaseProofKey tok own)"
    using message_later [OF reach assms(3) _ assms(4,5)] done_by by (auto simp: kept_or_moved_def)
  have inv: "mailbox_inv l t" using reachable_run [OF reach assms(3)] by blast
  have found: "findRequired k t = Inr m"
    using findRequired_stored [OF inv assms(4), of k] p(1) done_by by simp
  show ?thesis
    using done_by p(2) found assms(6) by (auto simp: complete_def Let_def rbind_eq_Inr validateMailboxTimestamp_def leaseProofKey_def)
qed

theorem completion_recorded_once_witness:
  "complete sample_limits sample_sequence (js ''tok'') (js ''k'') t3 completed_mailbox = (completed_mailbox, Inr completed_message) \<and>
   complete sample_limits sample_sequence (js ''tok'') (js ''a'') t3 completed_mailbox = (completed_mailbox, Inl MailboxLeaseConflict)"
  using completion_recorded_once [OF leased_reachable [of t3] sample_complete mailbox_run.start, of completed_message t3 "js ''tok''" "js ''a''"]
  by simp

text \<open>C6: a claim takes the recipient's oldest pending messages, stopping at the first one under a live lease and at the
  limit; each delivered message is stored with its next revision and attempt under exactly the lease
  returned, and the lease it had before, if any, was expired at the time of the claim. This holds for
  every token source, also one that calls back into the store while the claim runs.\<close>

theorem claim_delivers_oldest:
  assumes "mailbox_reachable l s" and "\<And>n u. mailbox_run l u (fst (src n u))" and "claim src l q s = (s', Inr ds)"
  shows "map (\<lambda>d. messageKey (dv_message d)) ds = map messageKey (take (nat (cq_limit q)) (claimable q s)) \<and>
    (\<forall>d \<in> set ds. \<exists>m. stored s m \<and> status m = Pending \<and> sameMailboxRecipient (recipient m) q \<and> \<not> live q (leases s) m \<and>
      dv_message d = m\<lparr>revision := to_decimal (Suc (of_decimal (revision m))),
        attempt := to_decimal (Suc (of_decimal (attempt m))), updatedAt := cq_operationalNow q\<rparr> \<and>
      stored s' (dv_message d) \<and> js_get (leases s') (messageKey m) =
        Some \<lparr>token = leaseToken d, ownerId = cq_leaseOwnerId q, expiresAt = cq_leaseExpiresAt q\<rparr>)"
proof -
  have src: "source_advances l src" using run_advances assms(2) by (simp add: source_advances_def)
  note inv = mailbox_reachable_inv [OF assms(1)]
  obtain ms s1 where ms: "ms = take (nat (cq_limit q)) (claimable q s)" and ds: "list_all2 (prepared l q) ms ds"
    and leased: "leased_as ms ds s1 s'"
    by (rule claim_leases [OF inv src assms(3)])
  have "map (\<lambda>d. messageKey (dv_message d)) ds = map messageKey ms"
    using ds by (induction rule: list_all2_induct) (auto dest: prepared_iff)
  moreover have "\<exists>m. stored s m \<and> status m = Pending \<and> sameMailboxRecipient (recipient m) q \<and> \<not> live q (leases s) m \<and>
      dv_message d = m\<lparr>revision := to_decimal (Suc (of_decimal (revision m))),
        attempt := to_decimal (Suc (of_decimal (attempt m))), updatedAt := cq_operationalNow q\<rparr> \<and>
      stored s' (dv_message d) \<and> js_get (leases s') (messageKey m) =
        Some \<lparr>token = leaseToken d, ownerId = cq_leaseOwnerId q, expiresAt = cq_leaseExpiresAt q\<rparr>"
    if d: "d \<in> set ds" for d
  proof -
    obtain m where m: "m \<in> set ms" "prepared l q m d" using list_all2_right [OF ds d] by blast
    note pr = prepared_iff [OF m(2)]
    have "stored s' (dv_message d)" "js_get (leases s') (messageKey (dv_message d)) = Some (lease_of d)"
      using leased d unfolding leased_as_def by blast+
    moreover have "messageKey (dv_message d) = messageKey m" using pr by simp
    ultimately show ?thesis using claimable_stored [OF inv m(1) [unfolded ms]] pr by (auto simp: lease_of_def)
  qed
  ultimately show ?thesis by (simp add: ms)
qed

theorem claim_delivers_oldest_witness:
  "map messageKey (take 1 (claimable (sample_claim t1 t3) two_messages)) = [1] \<and> \<not> live (sample_claim t1 t3) (leases two_messages) first_message"
proof -
  have "\<not> live (sample_claim t1 t3) (leases two_messages) first_message" by (simp add: live_def sample_states js_get_def)
  then show ?thesis
    using claim_delivers_oldest [OF two_reachable sample_source_runs sample_claimed [of t3]] by (simp add: sample_delivery_def)
qed

text \<open>Enqueue is idempotent: a message that was accepted is returned as it stands when it is sent again, without
  change to the store, until it is purged or its recipient retired; the same identifier with other
  content fails as a conflict.\<close>

theorem enqueue_replay:
  assumes "mailbox_reachable l s" and "enqueue l i g r s = (s', Inr m)" and "mailbox_run l s' t"
    and "stored t p" and "messageKey p = messageKey m" and "\<not> js_has (retirements t) (retirementMapKey (recipient i))"
    and "validateCapacity g' (maxPendingMessagesPerTimelineGeneration l) = Inr ()"
    and "validateCapacity r' (maxPendingMessagesPerRecipient l) = Inr ()"
    and "normalizeMailboxMessage i' l = Inr d'" and "messageId i' = messageId i" and "recipient i' = recipient i"
  shows "enqueue l i' g' r' t = (t, if canonical (draft_json d') = canonical (draft_json m) then Inr p else Inl MailboxConflict)"
proof -
  note inv = mailbox_reachable_inv [OF assms(1)]
  have reach: "mailbox_reachable l s'" using reachable_ops [OF assms(1), of "[Enqueue i g r]" s'] assms(2) by simp
  have copy: "messageId d = messageId j \<and> recipient d = recipient j" if "normalizeMailboxMessage j l = Inr d" for d j
    using that by (auto simp: normalizeMailboxMessage_def rbind_eq_Inr)
  have m: "stored s' m \<and> messageId m = messageId i \<and> recipient m = recipient i"
  proof (rule enqueue_cases [OF assms(2)])
    fix d n assume d: "normalizeMailboxMessage i l = Inr d" "js_get (messages s) (messageMapKey (recipient d) (messageId d)) = Some n"
      "s' = s" "Inr m = Inr n"
    then have "messageMapKey (recipient d) (messageId d) = messageMapKey (recipient n) (messageId n)"
      using mailbox_invD(2) [OF inv] unfolding messages_filed_def by blast
    with d copy [OF d(1)] show ?thesis by (auto simp: stored_def same_recipient_eq)
  next
    fix d assume "normalizeMailboxMessage i l = Inr d" "s' = inserted d s" "Inr m = Inr (new_message d (nextMessageKey s))"
    with copy [of i d] show ?thesis by (auto simp: stored_def inserted_def Let_def)
  qed simp
  have later: "same_message m p" using message_later [OF reach assms(3) _ assms(4,5)] m by blast
  have tinv: "mailbox_inv l t" using reachable_run [OF reach assms(3)] by blast
  let ?k = "messageMapKey (recipient d') (messageId d')"
  have key: "?k = messageMapKey (recipient p) (messageId p)" using copy [OF assms(9)] assms(10,11) m later
    by (simp add: same_message_def del: messageMapKey_inject)
  with assms(4) have get: "js_get (messages t) ?k = Some p" by (simp add: stored_def del: messageMapKey_inject)
  with mailbox_invD(3) [OF tinv] have print: "js_get (fingerprints t) ?k = Some (canonical (draft_json m))"
    using later by (simp add: prints_ok_def same_message_def)
  have "assertAuthorityOpen (recipient d') t = Inr ()" using assms(6,11) copy [OF assms(9)] by (simp add: recipient_open_Inr)
  then show ?thesis using get print assms(7-9) by (auto simp: enqueue_def mailboxFingerprint_def)
qed

theorem enqueue_replay_witness:
  "enqueue sample_limits (sample_input (js ''r'')) 9 9 one_message = (one_message, Inr first_message)"
proof -
  have "\<not> js_has (retirements one_message) (retirementMapKey (recipient (sample_input (js ''r''))))"
    by (simp add: sample_states js_has_def)
  then show ?thesis
    using enqueue_replay [OF empty_reachable sample_enqueue(1) mailbox_run.start, of first_message 9 9 "sample_input (js ''r'')" "sample_draft (js ''r'')"]
    by (simp add: validateCapacity_def is_safe_integer_def max_safe_integer_def)
qed

text \<open>C7: once a recipient's authority is retired, it drains: in every later state no message of the recipient is
  pending except under a lease, and none at all after the retirement was finalized; every enqueue, claim,
  renew, abandon and cancel for the recipient fails without changing the store.\<close>

theorem retired_recipient_drains:
  fixes r :: work_lane
  assumes "mailbox_reachable l s" and "js_get (retirements s) (retirementMapKey r) = Some x" and "mailbox_run l s t"
  shows "(\<forall>m. stored t m \<and> recipient m = r \<and> status m = Pending \<longrightarrow> phase x = Fenced \<and> js_has (leases t) (messageKey m)) \<and>
    (recipient i = r \<longrightarrow> (\<exists>e. enqueue l i g p t = (t, Inl e))) \<and>
    (sameMailboxRecipient q r \<longrightarrow> (\<exists>e. claim src l q t = (t, Inl e))) \<and>
    (sameMailboxRecipient rq r \<longrightarrow> (\<exists>e. renew l rq t = (t, Inl e))) \<and>
    (sameMailboxRecipient k r \<longrightarrow> (\<exists>e. abandon l k tok own now t = (t, Inl e))) \<and>
    (sameMailboxRecipient mk r \<longrightarrow> (\<exists>e. cancel l mk expected now t = (t, Inl e)))"
proof -
  have run: "mailbox_inv l t" "mailbox_later s t" using reachable_run [OF assms(1,3)] by blast+
  then obtain x' where x': "js_get (retirements t) (retirementMapKey r) = Some x'" "retirement_later x x'"
    using assms(2) unfolding mailbox_later_def by blast
  have closed: "assertAuthorityOpen y t = Inl WorkAuthorityRetired" if "retirementMapKey y = retirementMapKey r"
    for y :: "'c work_lane_scheme"
    using x'(1) that by (simp add: assertAuthorityOpen_def js_has_def del: retirementMapKey_inject)
  have "phase x = Fenced \<and> js_has (leases t) (messageKey m)" if "stored t m" "recipient m = r" "status m = Pending" for m
  proof -
    have "phase x' = Fenced \<and> js_has (leases t) (messageKey m)"
      using mailbox_invD(8) [OF run(1)] x'(1) that unfolding fenced_ok_def by blast
    then show ?thesis using x'(2) by (auto simp: retirement_later_def)
  qed
  moreover have "\<exists>e. enqueue l i g p t = (t, Inl e)" if "recipient i = r"
  proof (cases "normalizeMailboxMessage i l")
    case (Inr d)
    then have "recipient d = r" using that by (auto simp: normalizeMailboxMessage_def rbind_eq_Inr)
    then show ?thesis using Inr closed [of "recipient d"] by (simp add: enqueue_def)
  qed (simp add: enqueue_def)
  moreover have "\<exists>e. claim src l q t = (t, Inl e)" if "sameMailboxRecipient q r"
    using closed [of q] that by (cases "normalizeMailboxClaim q l") (simp_all add: claim_def)
  moreover have "\<exists>e. renew l rq t = (t, Inl e)" if "sameMailboxRecipient rq r"
    using closed [of rq] that by (cases "normalizeMailboxRenew rq l") (simp_all add: renew_def)
  moreover have "\<exists>e. abandon l k tok own now t = (t, Inl e)" if "sameMailboxRecipient k r"
    using closed [of k] that by (auto simp: abandon_def commit_def rbind_eq_Inr split: sum.splits)
  moreover have "\<exists>e. cancel l mk expected now t = (t, Inl e)" if "sameMailboxRecipient mk r"
    using closed [of mk] that by (auto simp: cancel_def commit_def rbind_eq_Inr split: sum.splits)
  ultimately show ?thesis by blast
qed

theorem retired_recipient_drains_witness:
  "(\<exists>e. enqueue sample_limits (sample_input (js ''r'')) 9 9 sample_retired = (sample_retired, Inl e)) \<and>
   (\<exists>e. claim sample_source sample_limits (sample_claim t1 t3) sample_retired = (sample_retired, Inl e))"
proof -
  have "js_get (retirements sample_retired) (retirementMapKey sample_lane) = Some (new_record sample_retirement Fenced 0)"
    by (simp add: sample_retired_def recorded_def Let_def)
  moreover have "sameMailboxRecipient (sample_claim t1 t3) sample_lane" by (simp add: sameMailboxRecipient_def sameMailboxGeneration_def)
  moreover have "recipient (sample_input (js ''r'')) = sample_lane" by (simp add: sample_input_def)
  ultimately show ?thesis
    using retired_recipient_drains [OF retired_reachable _ mailbox_run.start] by blast
qed

text \<open>C35: work is delivered: when the lane is open, a valid claim whose time is not before any pending message's last
  change returns at least the oldest pending message, unless that one is under a live lease, provided
  the counters have room and the token source gives valid tokens; so a message whose lease expired is
  delivered again.\<close>

theorem claim_redelivers:
  assumes "mailbox_reachable l s" and "normalizeMailboxClaim q l = Inr ()" and "\<not> js_has (retirements s) (retirementMapKey q)"
    and "\<And>m. m \<in> set (recipientMessages q s) \<Longrightarrow> status m = Pending \<Longrightarrow>
      updatedAt m \<le> cq_operationalNow q \<and> has_room l (revision m) \<and> has_room l (attempt m)"
    and "\<And>n u. \<exists>tok. src n u = (u, Inr tok) \<and> validateMailboxIdentifier tok (maxIdentifierBytes l) ''lease_token'' = Inr ()"
    and "claimable q s = m # ms"
  shows "\<exists>s' d ds. claim src l q s = (s', Inr (d # ds)) \<and> messageKey (dv_message d) = messageKey m"
proof -
  note inv = mailbox_reachable_inv [OF assms(1)]
  have limit: "0 < cq_limit q" using assms(2) by (auto simp: normalizeMailboxClaim_def rbind_eq_Inr validateMailboxPageLimit_def)
  obtain sel where sel: "select_claim q (leases s) (recipientMessages q s) [] = Inr sel"
    using select_claim_total assms(4) by metis
  have eq: "sel = take (nat (cq_limit q)) (claimable q s)" using select_claim_claimable [OF sel limit] by blast
  have st: "stored s p" "p \<in> set (recipientMessages q s)" "status p = Pending" if "p \<in> set sel" for p
    using claimable_stored [OF inv that [unfolded eq]] recipientMessages_set [OF mailbox_invD(1,2) [OF inv], of p q] by blast+
  have "\<forall>p \<in> set sel. message_wf p \<and> has_room l (revision p) \<and> has_room l (attempt p)"
    using st assms(4) stored_wf [OF inv] by blast
  from prepare_total [where src = src, OF assms(5) this, where q = q and n = 0 and s = s] obtain ds where ds: "prepare_deliveries src l q 0 sel s = (s, Inr ds)" by blast
  have all: "list_all2 (prepared l q) sel ds" by (rule prepare_deliveries_Inr [OF ds])
  obtain sel' where "sel = m # sel'" using eq assms(6) limit by (cases "nat (cq_limit q)") auto
  with all obtain d ds' where d: "ds = d # ds'" "prepared l q m d" by (auto simp: list_all2_Cons1)
  have "claim src l q s = (fold lease_delivery ds s, Inr ds)"
    using assms(2,3) sel ds st(1) by (simp add: claim_def assertAuthorityOpen_def list_all_iff stored_def)
  then show ?thesis using d prepared_iff [OF d(2)] by simp
qed

theorem claim_redelivers_witness:
  "\<exists>s' d ds. claim sample_source sample_limits (sample_claim t2 t3) (leased_mailbox t2) = (s', Inr (d # ds)) \<and>
     messageKey (dv_message d) = 1"
proof -
  note msgs = sample_recipient_messages(2) [OF sample_claim_recipient, of t2 t3 t2]
  have "claimable (sample_claim t2 t3) (leased_mailbox t2) = [leased_message, second_message]"
    unfolding claimable_def msgs by (simp add: live_def leased_mailbox_eq js_get_def)
  moreover have "\<not> js_has (retirements (leased_mailbox t2)) (retirementMapKey (sample_claim t2 t3))"
    by (simp add: leased_mailbox_eq js_has_def)
  moreover have "updatedAt m \<le> cq_operationalNow (sample_claim t2 t3) \<and> has_room sample_limits (revision m) \<and> has_room sample_limits (attempt m)"
    if "m \<in> set (recipientMessages (sample_claim t2 t3) (leased_mailbox t2))" for m
    using that by (auto simp: msgs has_room_def leased_message_def to_decimal_1)
  moreover have "\<exists>tok. sample_source n u = (u, Inr tok) \<and> validateMailboxIdentifier tok (maxIdentifierBytes sample_limits) ''lease_token'' = Inr ()" for n u
    by (simp add: sample_source_def)
  ultimately show ?thesis
    using claim_redelivers [OF leased_reachable [of t2] sample_claim_ok [of t2 t3], of sample_source leased_message "[second_message]"] by simp
qed

text \<open>A retirement of an open lane is always possible: a valid request that conflicts with no recorded retirement
  fences the lane and cancels exactly the pending messages that are not leased, never exceeding a
  capacity or the range of the count, provided the revisions have room.\<close>

theorem retirement_begins:
  assumes "mailbox_reachable l s" and "normalizeMailboxAuthorityRetirement i l = Inr q" and "findRetirement q s = Inr None"
    and "\<And>m. m \<in> set (to_cancel q Fenced s) \<Longrightarrow> has_room l (revision m)"
  shows "\<exists>s'. beginAuthorityRetirement l i s = (s', Inr (new_record q Fenced (int (length (to_cancel q Fenced s))))) \<and>
    (\<forall>m. stored s m \<and> recipient m = wr_partition q \<and> status m = Pending \<longrightarrow>
      (if js_has (leases s) (messageKey m) then stored s' m
       else \<exists>p. stored s' p \<and> same_message m p \<and> status p = Cancelled))"
proof -
  note inv = mailbox_reachable_inv [OF assms(1)]
  let ?ms = "to_cancel q Fenced s"
  have lim: "validateMailboxLimits l = Inr ()" using assms(1) by (simp add: mailbox_reachable_def)
  have at: "is_timestamp (wr_recordedAt q)"
    using assms(2) by (auto simp: normalizeMailboxAuthorityRetirement_def captureWorkAuthorityRetirementRequest_def rbind_eq_Inr
        work_retirement_ok_def)
  have "\<exists>u. cancel_retired l q m = Inr u" if "m \<in> set ?ms" for m
    using that to_cancel_set [OF inv] assms(4) stored_wf [OF inv, of m] wf_decimals [of m] at
    by (auto simp: cancel_retired_def increment_room laterMailboxTimestamp_def validateMailboxTimestamp_def)
  then have total: "map_checked (cancel_retired l q) ?ms = Inr (map (\<lambda>m. projr (cancel_retired l q m)) ?ms)"
    by (intro map_checked_total) force
  note bounds = to_cancel_bounds [OF inv lim, of q Fenced]
  let ?us = "map (\<lambda>m. projr (cancel_retired l q m)) ?ms"
  have "\<exists>s'. commitRetirement l q Fenced 0 s = (s', Inr (new_record q Fenced (int (length ?ms))))"
  proof -
    have "is_safe_integer (0 + int (length ?us))" using bounds(3) by (simp only: length_map add_0)
    from commitRetirement_total [OF bounds(1,2) total this] show ?thesis by (simp only: length_map add_0)
  qed
  then obtain s' where c: "commitRetirement l q Fenced 0 s = (s', Inr (new_record q Fenced (int (length ?ms))))" by blast
  obtain us where us: "list_all2 (\<lambda>m u. cancel_retired l q m = Inr u) ?ms us"
    and s': "s' = recorded (new_record q Fenced (int (length ?ms))) (fold store_cancelled us s)"
    by (rule commitRetirement_succeeds [OF c]) simp
  have all: "cancels_all ?ms us s (fold store_cancelled us s)"
    by (rule cancel_all [OF us inv to_cancel_distinct [OF inv]]) (simp add: to_cancel_set [OF inv])
  have st: "stored s' p \<longleftrightarrow> p \<in> set us \<or> stored s p \<and> messageKey p \<notin> messageKey ` set ?ms" for p
    using all by (simp add: s' cancels_all_def recorded_def Let_def stored_def)
  have "if js_has (leases s) (messageKey m) then stored s' m else \<exists>p. stored s' p \<and> same_message m p \<and> status p = Cancelled"
    if m: "stored s m" "recipient m = wr_partition q" "status m = Pending" for m
  proof (cases "js_has (leases s) (messageKey m)")
    case True
    then have "messageKey m \<notin> messageKey ` set ?ms"
      using stored_unique_key [OF mailbox_invD(1,2) [OF inv] m(1)] by (auto simp: to_cancel_set [OF inv])
    with m(1) True show ?thesis by (simp add: st)
  next
    case False
    with m have "m \<in> set ?ms" by (simp add: to_cancel_set [OF inv] same_recipient_eq)
    then obtain u where u: "u \<in> set us" "cancel_retired l q m = Inr u" using list_all2_left [OF us] by blast
    from cancel_retired_update(1,4) [OF inv m(1,3) u(2)] u(1) False show ?thesis by (auto simp: st)
  qed
  moreover have "beginAuthorityRetirement l i s = (s', Inr (new_record q Fenced (int (length ?ms))))"
    using assms(2,3) c by (simp add: beginAuthorityRetirement_def)
  ultimately show ?thesis by blast
qed

theorem retirement_begins_witness:
  "\<exists>s'. beginAuthorityRetirement sample_limits sample_retirement two_messages = (s', Inr (new_record sample_retirement Fenced 2)) \<and>
     (\<exists>p. stored s' p \<and> same_message first_message p \<and> status p = Cancelled)"
proof -
  have ms: "to_cancel sample_retirement Fenced two_messages = [first_message, second_message]"
    by (simp add: to_cancel_def sample_recipient_messages(1)) (simp add: sample_states js_has_def)
  have "findRetirement sample_retirement two_messages = Inr None" by (simp add: findRetirement_def sample_states Let_def)
  moreover have "has_room sample_limits (revision m)" if "m \<in> set (to_cancel sample_retirement Fenced two_messages)" for m
    using that by (auto simp: ms has_room_def)
  moreover have "\<not> js_has (leases two_messages) 1" by (simp add: sample_states js_has_def)
  ultimately show ?thesis using retirement_begins [OF two_reachable sample_retirement_ok] by (force simp: ms)
qed

text \<open>C38: the pages of a listing chain: a page followed by the listing from its cursor gives every matching message once,
  in key order, and a page without a cursor is the last.\<close>

theorem listing_pages_chain:
  assumes "mailbox_reachable l s" and "list_messages l q s = Inr pg"
  shows "matching q s = page_records pg @ (case nextAfterMessageKey pg of None \<Rightarrow> []
      | Some n \<Rightarrow> matching (q\<lparr>afterMessageKey := Some n\<rparr>) s) \<and>
    sorted_wrt (<) (map messageKey (page_records pg)) \<and> int (length (page_records pg)) \<le> ls_limit q"
proof -
  let ?ms = "matching q s" and ?n = "nat (ls_limit q)"
  note inv = mailbox_reachable_inv [OF assms(1)]
  from assms(2) obtain sts where sts: "normalizeMailboxStatusFilter (statuses q) = Inr sts" and n: "1 \<le> ls_limit q"
    and pg: "pg = (let ms = filter (listed q sts) (sort_key messageKey (filter (in_scope q) (js_values (messages s)))); sel = take ?n ms in
      \<lparr>page_records = sel, nextAfterMessageKey = (if length sel < length ms then map_option messageKey
        (if sel = [] then None else Some (last sel)) else None)\<rparr>)"
    by (auto simp: list_messages_def rbind_eq_Inr validateMailboxPageLimit_def Let_def)
  have pg: "page_records pg = take ?n ?ms"
    "nextAfterMessageKey pg = (if length (take ?n ?ms) < length ?ms then map_option messageKey
        (if take ?n ?ms = [] then None else Some (last (take ?n ?ms))) else None)"
    by (simp_all add: pg matching_def normalized_filter [OF sts, of q] Let_def)
  have sorted: "sorted_wrt (<) (map messageKey ?ms)" by (rule matching_sorted [OF inv])
  then have "sorted_wrt (<) (map messageKey (take ?n ?ms))" by (metis append_take_drop_id map_append sorted_wrt_append)
  moreover have "int (length (take ?n ?ms)) \<le> ls_limit q" using n by simp
  moreover have "?ms = take ?n ?ms @ (case nextAfterMessageKey pg of None \<Rightarrow> []
      | Some k \<Rightarrow> matching (q\<lparr>afterMessageKey := Some k\<rparr>) s)"
  proof (cases "?n < length ?ms")
    case True
    then have ne: "take ?n ?ms \<noteq> []" using n by auto
    have last: "last (take ?n ?ms) = ?ms ! (?n - 1)" using True n last_conv_nth [OF ne] by (simp add: min_def)
    define k where "k = messageKey (?ms ! (?n - 1))"
    have cursor: "nextAfterMessageKey pg = Some k" using True ne last by (simp add: pg(2) min_def k_def)
    have lt: "?n - 1 < length ?ms" using True by simp
    then have "?ms ! (?n - 1) \<in> set ?ms" by (rule nth_mem)
    then have "listed q (statuses q) (?ms ! (?n - 1))" by (simp add: matching_def)
    then have more: "listed (q\<lparr>afterMessageKey := Some k\<rparr>) (statuses q) = (\<lambda>m. listed q (statuses q) m \<and> k < messageKey m)"
      by (auto simp: listed_def k_def fun_eq_iff split: option.splits)
    have "in_scope (q\<lparr>afterMessageKey := Some k\<rparr>) = in_scope q" by (simp add: in_scope_def fun_eq_iff)
    then have "matching (q\<lparr>afterMessageKey := Some k\<rparr>) s = filter (\<lambda>m. k < messageKey m) ?ms"
      by (simp add: matching_def more)
    also have "\<dots> = drop ?n ?ms" using filter_after [OF sorted lt] n by (simp add: k_def)
    finally show ?thesis by (simp add: cursor)
  next
    case False
    then show ?thesis by (simp add: pg(2))
  qed
  ultimately show ?thesis by (simp add: pg(1))
qed

theorem listing_pages_chain_witness:
  "matching (sample_list None) two_messages = [first_message] @ matching (sample_list (Some 1)) two_messages"
proof -
  have "list_messages sample_limits (sample_list None) two_messages = Inr \<lparr>page_records = [first_message], nextAfterMessageKey = Some 1\<rparr>"
    by (simp add: list_messages_def normalizeMailboxListScope_def sample_list_def validateMailboxDecimal_def normalizeMailboxStatusFilter_def
      validateMailboxCursor_def validateMailboxPageLimit_def is_safe_integer_def max_safe_integer_def sample_states js_values_def
      in_scope_def listed_def Let_def)
  from listing_pages_chain [OF two_reachable this] show ?thesis by (simp add: sample_list_def)
qed

end
