(* ===== verification/Protocol_Events.thy ===== *)
theory Protocol_Events
  imports Run_Authority
begin

text \<open>
  The canonical events of packages/protocol/src/schema.ts: audiences, message parts, items, event data and
  the events of a stream, each with the conditions of its schema, the checks on metrics and the
  audience an event is for.
\<close>

section \<open>Audiences and content\<close>

datatype audience = Internal | Owner | Public | Recipients "js_string list"

definition audience_ok :: "audience \<Rightarrow> bool" where
  "audience_ok a \<longleftrightarrow> (case a of Recipients ids \<Rightarrow> ids \<noteq> [] \<and> distinct ids \<and> list_all is_opaque_identifier ids | _ \<Rightarrow> True)"

datatype image_media_type = Png | Jpeg | Webp | Gif

record image_reference =
  attachmentId :: js_string
  image_mediaType :: image_media_type
  image_bytes :: int
  width :: int
  height :: int
  image_name :: "js_string option"

definition schema_integer :: "int \<Rightarrow> int \<Rightarrow> bool" where
  "schema_integer minimum n \<longleftrightarrow> minimum \<le> n \<and> n \<le> max_safe_integer"

definition image_reference_ok :: "image_reference \<Rightarrow> bool" where
  "image_reference_ok i \<longleftrightarrow> is_prefixed_digest ''img_'' (attachmentId i) \<and> schema_integer 1 (image_bytes i) \<and>
     schema_integer 1 (width i) \<and> schema_integer 1 (height i) \<and> opt_ok is_opaque_identifier (image_name i)"

datatype message_content = TextPart js_string | ImagePart image_reference

fun message_content_ok :: "message_content \<Rightarrow> bool" where
  "message_content_ok (TextPart t) = True"
| "message_content_ok (ImagePart i) = image_reference_ok i"

text \<open>The content of an internal context message: a text, then images without names.\<close>

fun context_content_ok :: "message_content list \<Rightarrow> bool" where
  "context_content_ok (TextPart t # rest) =
     list_all (\<lambda>c. case c of ImagePart i \<Rightarrow> image_reference_ok i \<and> image_name i = None | TextPart _ \<Rightarrow> False) rest"
| "context_content_ok _ = False"

datatype assistant_content = AssistantText js_string int | ReasoningSummary js_string int

fun assistant_content_ok :: "assistant_content \<Rightarrow> bool" where
  "assistant_content_ok (AssistantText t i) = schema_integer 0 i"
| "assistant_content_ok (ReasoningSummary t i) = schema_integer 0 i"

record media_summary =
  media_mediaType :: js_string
  media_bytes :: int
  media_sha256 :: js_string

datatype tool_result_content = ResultText js_string | ResultMedia media_summary

fun tool_result_content_ok :: "tool_result_content \<Rightarrow> bool" where
  "tool_result_content_ok (ResultText t) = True"
| "tool_result_content_ok (ResultMedia m) =
     (media_mediaType m \<noteq> [] \<and> schema_integer 1 (media_bytes m) \<and> is_sha256 (media_sha256 m))"

record context_reference =
  sourceId :: js_string
  referenceId :: js_string
  context_revision :: js_string
  contentFingerprint :: js_string

definition context_reference_ok :: "context_reference \<Rightarrow> bool" where
  "context_reference_ok r \<longleftrightarrow> is_opaque_identifier (sourceId r) \<and> is_opaque_identifier (referenceId r) \<and>
     is_opaque_identifier (context_revision r) \<and> is_sha256 (contentFingerprint r)"

record context_snapshot =
  context_fingerprint :: js_string
  references :: "context_reference list"

definition context_snapshot_ok :: "context_snapshot \<Rightarrow> bool" where
  "context_snapshot_ok c \<longleftrightarrow> is_sha256 (context_fingerprint c) \<and> references c \<noteq> [] \<and> list_all context_reference_ok (references c)"

section \<open>Items\<close>

record tool_call =
  tc_toolCallId :: js_string
  tc_toolName :: js_string
  parentMessageItemId :: "js_string option"
  sourceIndex :: "int option"

record tool_result =
  tr_toolCallId :: js_string
  tr_toolName :: js_string
  isError :: bool
  tr_content :: "tool_result_content list"

datatype item_body =
    UserMessage "message_content list"
  | AssistantMessage "assistant_content list"
  | ContextMessage "message_content list" context_snapshot
  | ToolCall tool_call
  | ToolResult tool_result

record canonical_item =
  itemId :: js_string
  item_audience :: audience
  body :: item_body

fun item_body_ok :: "audience \<Rightarrow> item_body \<Rightarrow> bool" where
  "item_body_ok a (UserMessage cs) = list_all message_content_ok cs"
| "item_body_ok a (AssistantMessage cs) = list_all assistant_content_ok cs"
| "item_body_ok a (ContextMessage cs c) = (context_content_ok cs \<and> a = Internal \<and> context_snapshot_ok c)"
| "item_body_ok a (ToolCall t) =
     (is_opaque_identifier (tc_toolCallId t) \<and> is_opaque_identifier (tc_toolName t) \<and>
      opt_ok is_opaque_identifier (parentMessageItemId t) \<and> opt_ok (schema_integer 0) (sourceIndex t))"
| "item_body_ok a (ToolResult t) =
     (is_opaque_identifier (tr_toolCallId t) \<and> is_opaque_identifier (tr_toolName t) \<and>
      list_all tool_result_content_ok (tr_content t))"

definition canonical_item_ok :: "canonical_item \<Rightarrow> bool" where
  "canonical_item_ok i \<longleftrightarrow> is_opaque_identifier (itemId i) \<and> audience_ok (item_audience i) \<and> item_body_ok (item_audience i) (body i)"

text \<open>The white space \<open>String.prototype.trim\<close> removes.\<close>

definition is_js_space :: "16 word \<Rightarrow> bool" where
  "is_js_space c \<longleftrightarrow> 0x9 \<le> c \<and> c \<le> 0xd \<or> c \<in> {0x20, 0xa0, 0x1680, 0x2028, 0x2029, 0x202f, 0x205f, 0x3000, 0xfeff} \<or>
     0x2000 \<le> c \<and> c \<le> 0x200a"

fun text_part :: "assistant_content \<Rightarrow> js_string" where
  "text_part (AssistantText t i) = t"
| "text_part (ReasoningSummary t i) = []"

definition canonicalAssistantText :: "canonical_item \<Rightarrow> js_string option" where
  "canonicalAssistantText i =
     (case body i of
        AssistantMessage cs \<Rightarrow>
          let text = concat (map text_part cs) in if list_all is_js_space text then None else Some text
      | _ \<Rightarrow> None)"

section \<open>Event data\<close>

datatype finish_reason = Stop | ToolUse | MaxLength | FinishAborted | FinishError | FinishDeferred | FinishOther
datatype control = Abort | Steer | FollowUp
datatype repeat_action = Advisory | Terminated
datatype run_status = RunDone | RunAborted | RunFailed
datatype segment_status = SegmentCompleted | SegmentAborted | SegmentFailed | SegmentDeferred

record metric_durations =
  contextAndRecall :: js_string
  provider :: js_string
  durable :: js_string
  native :: js_string
  total_duration :: js_string
  firstResponse :: "js_string option"
  providerFirstResponse :: "js_string option"
  firstTool :: "js_string option"
  admission :: "js_string option"
  queue :: "js_string option"
  memoryPrepare :: "js_string option"
  memorySearch :: "js_string option"
  tool_duration :: "js_string option"
  approval :: "js_string option"
  settlement :: "js_string option"

record metric_counts =
  providerAttempts :: js_string
  retries :: js_string
  fallbacks :: js_string
  toolCalls :: js_string

definition metric_durations_ok :: "metric_durations \<Rightarrow> bool" where
  "metric_durations_ok d \<longleftrightarrow> list_all is_decimal [contextAndRecall d, provider d, durable d, native d, total_duration d] \<and>
     list_all (opt_ok is_decimal) [firstResponse d, providerFirstResponse d, firstTool d, admission d, queue d,
       memoryPrepare d, memorySearch d, tool_duration d, approval d, settlement d]"

definition metric_counts_ok :: "metric_counts \<Rightarrow> bool" where
  "metric_counts_ok c \<longleftrightarrow> list_all is_decimal [providerAttempts c, retries c, fallbacks c, toolCalls c]"

datatype event_data =
    RunQueued js_string js_string "run_admission_authority option" \<comment> \<open>inputId, inputFingerprint, admissionAuthority\<close>
  | RunStarted js_string
  | RunResumed js_string
  | RunSuspended js_string
  | TurnStarted
  | ItemStarted canonical_item
  | ItemDelta js_string audience int js_string \<comment> \<open>itemId, audience, contentIndex, text\<close>
  | ItemUpdated js_string audience js_string "tool_result_content list" \<comment> \<open>itemId, audience, updateOrdinal, content\<close>
  | ItemCompleted canonical_item
  | TurnCompleted finish_reason "js_string list"
  | ControlAccepted control
  | ToolRepeatDetected js_string js_string js_string repeat_action \<comment> \<open>toolCallId, toolName, consecutiveCount\<close>
  | RunCompleted run_status
  | RunMetrics segment_status metric_durations metric_counts

fun event_data_ok :: "event_data \<Rightarrow> bool" where
  "event_data_ok (RunQueued i f a) = (is_opaque_identifier i \<and> is_sha256 f \<and> opt_ok admission_authority_ok a)"
| "event_data_ok (RunStarted i) = is_opaque_identifier i"
| "event_data_ok (RunResumed i) = is_opaque_identifier i"
| "event_data_ok (RunSuspended i) = is_opaque_identifier i"
| "event_data_ok TurnStarted = True"
| "event_data_ok (ItemStarted i) = canonical_item_ok i"
| "event_data_ok (ItemDelta i a n t) = (is_opaque_identifier i \<and> audience_ok a \<and> schema_integer 0 n)"
| "event_data_ok (ItemUpdated i a n cs) =
     (is_opaque_identifier i \<and> audience_ok a \<and> is_decimal n \<and> list_all tool_result_content_ok cs)"
| "event_data_ok (ItemCompleted i) = canonical_item_ok i"
| "event_data_ok (TurnCompleted r ids) = list_all is_opaque_identifier ids"
| "event_data_ok (ControlAccepted c) = True"
| "event_data_ok (ToolRepeatDetected i n c a) = (is_opaque_identifier i \<and> is_opaque_identifier n \<and> is_positive_decimal c)"
| "event_data_ok (RunCompleted s) = True"
| "event_data_ok (RunMetrics s d c) = (metric_durations_ok d \<and> metric_counts_ok c)"

definition within_total :: "js_string option \<Rightarrow> js_string \<Rightarrow> bool" where
  "within_total x t \<longleftrightarrow> (case x of None \<Rightarrow> True | Some n \<Rightarrow> of_decimal n \<le> of_decimal t)"

definition assertRunMetrics :: "event_data \<Rightarrow> unit result" where
  "assertRunMetrics e =
     (case e of
        RunMetrics s d c \<Rightarrow>
          let attempts = of_decimal (providerAttempts c); again = of_decimal (retries c); whole = of_decimal (total_duration d) in
          ensure (\<not> (again > (if attempts = 0 then 0 else attempts - 1) \<or> of_decimal (fallbacks c) > again \<or>
              of_decimal (contextAndRecall d) + of_decimal (provider d) + of_decimal (native d) \<noteq> whole \<or>
              of_decimal (durable d) > whole \<or> \<not> within_total (firstResponse d) (total_duration d) \<or>
              \<not> within_total (firstTool d) (total_duration d) \<or> \<not> within_total (providerFirstResponse d) (total_duration d)))
            (ProtocolValidation ''invalid_event_data'')
      | _ \<Rightarrow> Inr ())"

definition assertCanonicalEventData :: "event_data \<Rightarrow> unit result" where
  "assertCanonicalEventData e =
     checks [ensure (event_data_ok e) (ProtocolValidation ''invalid_event_data''), assertRunMetrics e]"

section \<open>Events\<close>

fun eventAudience :: "event_data \<Rightarrow> audience" where
  "eventAudience (ItemStarted i) = item_audience i"
| "eventAudience (ItemCompleted i) = item_audience i"
| "eventAudience (ItemDelta i a n t) = a"
| "eventAudience (ItemUpdated i a n cs) = a"
| "eventAudience _ = Owner"

fun audiencesEqual :: "audience \<Rightarrow> audience \<Rightarrow> bool" where
  "audiencesEqual (Recipients xs) (Recipients ys) = (length xs = length ys \<and> list_all2 (=) xs ys)"
| "audiencesEqual Internal Internal = True"
| "audiencesEqual Owner Owner = True"
| "audiencesEqual Public Public = True"
| "audiencesEqual _ _ = False"

record canonical_event =
  protocolVersion :: js_string
  eventId :: js_string
  sequence :: js_string
  ev_revision :: js_string
  occurredAt :: js_string
  ev_coordinate :: run_coordinate
  ev_audience :: audience
  ev_data :: event_data

definition canonical_event_ok :: "canonical_event \<Rightarrow> bool" where
  "canonical_event_ok e \<longleftrightarrow> protocolVersion e = js ''1'' \<and> is_opaque_identifier (eventId e) \<and> is_decimal (sequence e) \<and>
     is_decimal (ev_revision e) \<and> timestamp_pattern (occurredAt e) \<and> run_coordinate_ok (ev_coordinate e) \<and>
     audience_ok (ev_audience e) \<and> event_data_ok (ev_data e)"

definition assertCanonicalEvent :: "canonical_event \<Rightarrow> unit result" where
  "assertCanonicalEvent e =
     checks [ensure (canonical_event_ok e) (ProtocolValidation ''invalid_event''),
       ensure (audiencesEqual (ev_audience e) (eventAudience (ev_data e))) (ProtocolValidation ''invalid_event''),
       assertCanonicalTimestamp (occurredAt e), assertRunMetrics (ev_data e)]"

section \<open>Facts\<close>

lemma audiencesEqual_iff [simp]: "audiencesEqual a b \<longleftrightarrow> a = b"
  by (cases a; cases b) (auto simp: list_all2_eq list_all2_lengthD)

lemma eventAudience_ok: "event_data_ok e \<Longrightarrow> audience_ok (eventAudience e)"
  by (cases e) (auto simp: canonical_item_ok_def audience_ok_def)

end
