(* ===== verification/Event_Store.thy ===== *)
theory Event_Store
  imports Protocol_Events Machine Js_Map
begin

text \<open>
  The class InMemoryEventStore of packages/runtime/src/in-memory-event-store.ts: the event streams of actors
  with their revisions, the run authorities that were closed, and the operations on them. The
  clock and the source of event identifiers are callbacks that may call back into the store; the goal
  binding retires goals elsewhere and does not touch the store.
\<close>

record run_closure = close_request +
  closedAt :: js_string

record event_store =
  streams :: "(js_string, canonical_event list) js_map"
  revisions :: "(js_string, nat) js_map"
  authorityClosures :: "(js_string, run_closure) js_map"
  closeOperations :: "(js_string, js_string) js_map"
  runAuthorities :: "(js_string, run_admission_authority) js_map"

definition empty_event_store :: event_store where
  "empty_event_store = \<lparr>streams = [], revisions = [], authorityClosures = [], closeOperations = [], runAuthorities = []\<rparr>"

type_synonym event_callback = "event_store \<Rightarrow> event_store \<times> js_string result"
type_synonym goal_binding = "(goal_retirement \<Rightarrow> unit result) option"

section \<open>Keys\<close>

definition authorityMapKey :: "'a run_authority_key_scheme \<Rightarrow> js_string" where
  "authorityMapKey k = string_tuple_key [sessionId k, actorId k, scope (key_authority k), scope_generation (key_authority k)]"

definition runMapKey :: "'a run_coordinate_scheme \<Rightarrow> js_string" where
  "runMapKey c = string_tuple_key [sessionId c, actorId c, runId c]"

definition streamMapKey :: "'a stream_key_scheme \<Rightarrow> js_string" where
  "streamMapKey k = string_tuple_key [sessionId k, actorId k]"

definition validateStream :: "stream_key \<Rightarrow> unit result" where
  "validateStream k = checks [assertOpaqueIdentifier (sessionId k), assertOpaqueIdentifier (actorId k)]"

definition parseRevision :: "js_string \<Rightarrow> nat result" where
  "parseRevision r = rbind (ensure (is_decimal r) TypeErr) (\<lambda>_. Inr (of_decimal r))"

definition events_of :: "'a stream_key_scheme \<Rightarrow> event_store \<Rightarrow> canonical_event list" where
  "events_of k s = (case js_get (streams s) (streamMapKey k) of None \<Rightarrow> [] | Some es \<Rightarrow> es)"

definition stream_revision :: "'a stream_key_scheme \<Rightarrow> event_store \<Rightarrow> js_string" where
  "stream_revision k s = (case js_get (revisions s) (streamMapKey k) of None \<Rightarrow> js ''empty'' | Some n \<Rightarrow> to_decimal n)"

section \<open>Closing an authority\<close>

definition readExisting :: "close_request \<Rightarrow> js_string \<Rightarrow> event_store \<Rightarrow> run_closure option result" where
  "readExisting request serialized s =
     rbind (case js_get (closeOperations s) (cl_operationId request) of
         None \<Rightarrow> Inr () | Some k \<Rightarrow> ensure (k = authorityMapKey request) RunAuthorityConflict) (\<lambda>_.
     case js_get (authorityClosures s) (authorityMapKey request) of
       None \<Rightarrow> Inr None
     | Some c \<Rightarrow>
         rbind (canonicalizeJsonValue (of_json (close_request_json (close_request.truncate c)))) (\<lambda>previous.
         rbind (ensure (previous = serialized) RunAuthorityConflict) (\<lambda>_. Inr (Some c))))"

definition new_closure :: "close_request \<Rightarrow> js_string \<Rightarrow> run_closure" where
  "new_closure r t = close_request.extend r (run_closure.fields t)"

definition record_closure :: "close_request \<Rightarrow> run_closure \<Rightarrow> event_store \<Rightarrow> event_store" where
  "record_closure request c s =
     s\<lparr>authorityClosures := js_set (authorityMapKey request) c (authorityClosures s),
       closeOperations := js_set (cl_operationId request) (authorityMapKey request) (closeOperations s)\<rparr>"

definition retire_goal :: "goal_binding \<Rightarrow> goal_retirement option \<Rightarrow> unit result" where
  "retire_goal binding g =
     when_some g (\<lambda>x. case binding of None \<Rightarrow> Inl TypeErr | Some retireGoalAuthority \<Rightarrow> retireGoalAuthority x)"

definition closeAuthority ::
  "event_callback \<Rightarrow> goal_binding \<Rightarrow> close_request \<Rightarrow> event_store \<Rightarrow> event_store \<times> run_closure result" where
  "closeAuthority now binding input s =
     commit s (captureCloseRunAuthorityRequest input) (\<lambda>request.
     commit s (ensure (workRetirement request = None) TypeErr) (\<lambda>_.
     commit s (canonicalizeJsonValue (of_json (close_request_json request))) (\<lambda>serialized.
     commit s (readExisting request serialized s) (\<lambda>existing.
     case existing of
       Some c \<Rightarrow> (s, Inr c)
     | None \<Rightarrow>
         (case now s of (s1, reply) \<Rightarrow>
          commit s1 reply (\<lambda>at.
          commit s1 (assertCanonicalTimestamp at) (\<lambda>_.
          commit s1 (readExisting request serialized s1) (\<lambda>reentrant.
          case reentrant of
            Some c \<Rightarrow> (s1, Inr c)
          | None \<Rightarrow>
              let closure = new_closure request at in
              commit s1 (retire_goal binding (goalRetirement request)) (\<lambda>_.
              (record_closure request closure s1, Inr closure))))))))))"

definition readAuthorityClosure :: "run_authority_key \<Rightarrow> event_store \<Rightarrow> run_closure option result" where
  "readAuthorityClosure k s = rbind (captureRunAuthorityKey k) (\<lambda>_. Inr (js_get (authorityClosures s) (authorityMapKey k)))"

definition finalizeAuthorityClosure :: "close_request \<Rightarrow> event_store \<Rightarrow> run_closure result" where
  "finalizeAuthorityClosure input s =
     rbind (captureCloseRunAuthorityRequest input) (\<lambda>request.
     case js_get (authorityClosures s) (authorityMapKey request) of
       None \<Rightarrow> Inl RunAuthorityConflict
     | Some c \<Rightarrow>
         rbind (captureCloseRunAuthorityRequest (close_request.truncate c)) (\<lambda>captured.
         rbind (canonicalizeJsonValue (of_json (close_request_json captured))) (\<lambda>left.
         rbind (canonicalizeJsonValue (of_json (close_request_json request))) (\<lambda>right.
         rbind (ensure (left = right) RunAuthorityConflict) (\<lambda>_. Inr c)))))"

definition authority_key :: "'a stream_key_scheme \<Rightarrow> run_admission_authority \<Rightarrow> run_authority_key" where
  "authority_key k a = \<lparr>sessionId = sessionId k, actorId = actorId k, key_authority = a\<rparr>"

definition assertAuthorityOpen :: "run_authority_key \<Rightarrow> event_store \<Rightarrow> unit result" where
  "assertAuthorityOpen k s =
     (if js_has (authorityClosures s) (authorityMapKey k)
      then rbind (captureRunAuthorityKey k) (\<lambda>_. Inl RunAuthorityClosed) else Inr ())"

definition assertRunAuthorityOpenSynchronously :: "run_coordinate \<Rightarrow> event_store \<Rightarrow> unit result" where
  "assertRunAuthorityOpenSynchronously c s =
     rbind (assertEventStreamCoordinate \<lparr>sessionId = sessionId c, actorId = actorId c\<rparr> c) (\<lambda>_.
     when_some (js_get (runAuthorities s) (runMapKey c)) (\<lambda>a. assertAuthorityOpen (authority_key c a) s))"

section \<open>Reads\<close>

record read_request =
  afterRevision :: "js_string option"
  rd_limit :: int

record event_page =
  page_events :: "canonical_event list"
  cursor :: js_string
  hasMore :: bool

definition revision_of :: "canonical_event \<Rightarrow> nat" where
  "revision_of e = of_decimal (ev_revision e)"

definition read_events :: "stream_key \<Rightarrow> read_request \<Rightarrow> event_store \<Rightarrow> event_page result" where
  "read_events k q s =
     rbind (checks [validateStream k, assertEventReadLimit (rd_limit q)]) (\<lambda>_.
     let from_revision = (case afterRevision q of None \<Rightarrow> js ''0'' | Some r \<Rightarrow> r) in
     rbind (parseRevision from_revision) (\<lambda>after.
     let candidates = take (nat (rd_limit q + 1)) (filter (\<lambda>e. after < revision_of e) (events_of k s));
         es = take (nat (rd_limit q)) candidates in
     Inr \<lparr>page_events = es, cursor = (if es = [] then from_revision else ev_revision (last es)),
          hasMore = (rd_limit q < int (length candidates))\<rparr>))"

definition readRevision :: "stream_key \<Rightarrow> event_store \<Rightarrow> js_string result" where
  "readRevision k s = rbind (validateStream k) (\<lambda>_. Inr (stream_revision k s))"

record stream_bounds =
  earliestRevision :: "js_string option"
  latestRevision :: js_string

definition bounds_of :: "'a stream_key_scheme \<Rightarrow> event_store \<Rightarrow> stream_bounds" where
  "bounds_of k s = \<lparr>earliestRevision = (case events_of k s of [] \<Rightarrow> None | e # _ \<Rightarrow> Some (ev_revision e)),
     latestRevision = (case js_get (revisions s) (streamMapKey k) of None \<Rightarrow> js ''0'' | Some n \<Rightarrow> to_decimal n)\<rparr>"

definition readBounds :: "stream_key \<Rightarrow> event_store \<Rightarrow> stream_bounds result" where
  "readBounds k s = rbind (validateStream k) (\<lambda>_. Inr (bounds_of k s))"

datatype stored_status =
    StoredCompleted "js_string option" | StoredAborted | StoredFailed | StoredDeferred js_string | StoredActive

record stored_run =
  admissionAuthority :: "run_admission_authority option"
  inputId :: js_string
  inputFingerprint :: js_string
  eventCursor :: js_string
  initialCoordinate :: run_coordinate
  latestCoordinate :: run_coordinate
  run_record_status :: stored_status

definition is_admission :: "js_string \<Rightarrow> canonical_event \<Rightarrow> bool" where
  "is_admission i e \<longleftrightarrow> (case ev_data e of RunQueued i' f a \<Rightarrow> i' = i | _ \<Rightarrow> False)"

definition run_completed :: "canonical_event \<Rightarrow> bool" where
  "run_completed e \<longleftrightarrow> (case ev_data e of RunCompleted st \<Rightarrow> True | _ \<Rightarrow> False)"

definition run_deferral :: "canonical_event \<Rightarrow> bool" where
  "run_deferral e \<longleftrightarrow> (case ev_data e of RunSuspended p \<Rightarrow> True | RunResumed p \<Rightarrow> True | _ \<Rightarrow> False)"

definition completed_text :: "canonical_event \<Rightarrow> js_string option" where
  "completed_text e = (case ev_data e of ItemCompleted i \<Rightarrow> canonicalAssistantText i | _ \<Rightarrow> None)"

text \<open>The last assistant text of the run: the first text of the reversed events.\<close>

definition last_text :: "canonical_event list \<Rightarrow> js_string option" where
  "last_text es = (case List.map_filter completed_text (List.rev es) of [] \<Rightarrow> None | t # _ \<Rightarrow> Some t)"

definition status_of_run :: "canonical_event list \<Rightarrow> stored_status" where
  "status_of_run es =
     (case find run_completed (List.rev es) of
        Some e \<Rightarrow>
          (case ev_data e of
             RunCompleted RunAborted \<Rightarrow> StoredAborted | RunCompleted RunFailed \<Rightarrow> StoredFailed | _ \<Rightarrow> StoredCompleted (last_text es))
      | None \<Rightarrow>
          (case find run_deferral (List.rev es) of
             Some e \<Rightarrow> (case ev_data e of RunSuspended p \<Rightarrow> StoredDeferred p | _ \<Rightarrow> StoredActive)
           | None \<Rightarrow> StoredActive))"

definition readRun :: "stream_key \<Rightarrow> js_string \<Rightarrow> event_store \<Rightarrow> stored_run option result" where
  "readRun k i s =
     rbind (checks [validateStream k, assertOpaqueIdentifier i]) (\<lambda>_.
     let es = events_of k s in
     case find (is_admission i) es of
       None \<Rightarrow> Inr None
     | Some adm \<Rightarrow>
         let run = filter (\<lambda>e. runId (ev_coordinate e) = runId (ev_coordinate adm)) es;
             latest = (if run = [] then adm else last run) in
         rbind (parseRevision (ev_revision adm)) (\<lambda>n.
         Inr (Some \<lparr>admissionAuthority = (case ev_data adm of RunQueued _ _ a \<Rightarrow> a | _ \<Rightarrow> None), inputId = i,
           inputFingerprint = (case ev_data adm of RunQueued _ f _ \<Rightarrow> f | _ \<Rightarrow> []),
           eventCursor = to_decimal (n - 1), initialCoordinate = ev_coordinate adm, latestCoordinate = ev_coordinate latest,
           run_record_status = status_of_run run\<rparr>)))"

section \<open>Append\<close>

definition check_admission :: "run_coordinate \<Rightarrow> event_data \<Rightarrow> event_store \<Rightarrow> unit result" where
  "check_admission c e s =
     (case e of
        RunQueued i f a \<Rightarrow>
          checks [when_some (js_get (runAuthorities s) (runMapKey c)) (\<lambda>existing. ensure (a = Some existing) RunAuthorityConflict),
            when_some a (\<lambda>x. assertAuthorityOpen (authority_key c x) s)]
      | RunStarted i \<Rightarrow> assertRunAuthorityOpenSynchronously c s
      | RunResumed p \<Rightarrow> assertRunAuthorityOpenSynchronously c s
      | _ \<Rightarrow> Inr ())"

definition new_event :: "js_string \<Rightarrow> js_string \<Rightarrow> nat \<Rightarrow> run_coordinate \<Rightarrow> event_data \<Rightarrow> canonical_event" where
  "new_event i at n c e = \<lparr>protocolVersion = js ''1'', eventId = i, sequence = to_decimal n, ev_revision = to_decimal n,
     occurredAt = at, ev_coordinate = c, ev_audience = eventAudience e, ev_data = e\<rparr>"

definition append_event :: "stream_key \<Rightarrow> canonical_event \<Rightarrow> nat \<Rightarrow> event_store \<Rightarrow> event_store" where
  "append_event k e n s =
     (let c = ev_coordinate e;
          s1 = s\<lparr>streams := js_set (streamMapKey k) (events_of k s @ [e]) (streams s),
                 revisions := js_set (streamMapKey k) n (revisions s)\<rparr> in
      case ev_data e of
        RunQueued i f (Some a) \<Rightarrow> s1\<lparr>runAuthorities := js_set (runMapKey c) a (runAuthorities s1)\<rparr>
      | _ \<Rightarrow> s1)"

text \<open>The part of \<open>append\<close> after the identifier and the time were taken; it calls nothing outside the store.\<close>

definition append_checked ::
  "stream_key \<Rightarrow> js_string \<Rightarrow> run_coordinate \<Rightarrow> event_data \<Rightarrow> js_string \<Rightarrow> js_string \<Rightarrow> event_store \<Rightarrow>
   event_store \<times> canonical_event result" where
  "append_checked k expected c e i at s =
     commit s (ensure (expected = stream_revision k s) WrongExpectedRevision) (\<lambda>_.
     commit s (check_admission c e s) (\<lambda>_.
     let n = (case js_get (revisions s) (streamMapKey k) of None \<Rightarrow> 0 | Some m \<Rightarrow> m) + 1; event = new_event i at n c e in
     (append_event k event n s, Inr event)))"

definition append_to_stream ::
  "event_callback \<Rightarrow> event_callback \<Rightarrow> stream_key \<Rightarrow> js_string \<Rightarrow> run_coordinate \<Rightarrow> event_data \<Rightarrow> event_store \<Rightarrow>
   event_store \<times> canonical_event result" where
  "append_to_stream newEventId now k expected c e s =
     commit s (checks [assertEventStreamCoordinate k c, assertCanonicalEventData e]) (\<lambda>_.
     case newEventId s of (s1, id_reply) \<Rightarrow>
     commit s1 id_reply (\<lambda>i.
     commit s1 (assertOpaqueIdentifier i) (\<lambda>_.
     case now s1 of (s2, time_reply) \<Rightarrow>
     commit s2 time_reply (\<lambda>at.
     commit s2 (assertCanonicalTimestamp at) (\<lambda>_.
     append_checked k expected c e i at s2)))))"

section \<open>Purge\<close>

record event_purge_request =
  beforeOccurredAt :: js_string
  pg_limit :: int
  retainRunIds :: "js_string list"
  retainBudget :: retention_budget

record event_purge_result = stream_bounds +
  purgedEventCount :: nat
  purgedRunIds :: "js_string list"

definition capturePurgeRequest :: "event_purge_request \<Rightarrow> event_purge_request result" where
  "capturePurgeRequest q =
     rbind (checks [assertCanonicalTimestamp (beforeOccurredAt q), assertEventReadLimit (pg_limit q)]) (\<lambda>_.
     rbind (captureRetainedIdentifiers (retainRunIds q) (retainBudget q)) (\<lambda>ids.
     rbind (discard (map_checked assertOpaqueIdentifier ids)) (\<lambda>_. Inr (q\<lparr>retainRunIds := ids\<rparr>))))"

definition add_id :: "js_string \<Rightarrow> js_string list \<Rightarrow> js_string list" where
  "add_id x xs = (if x \<in> set xs then xs else xs @ [x])"

text \<open>The loop of \<open>terminalPrefix\<close>: \<open>n\<close> counts the events passed, \<open>out\<close> is the last prefix whose runs are all complete.\<close>

fun terminal_scan ::
  "event_purge_request \<Rightarrow> nat \<Rightarrow> js_string list \<Rightarrow> js_string list \<Rightarrow> nat \<times> js_string list \<Rightarrow> canonical_event list \<Rightarrow>
   nat \<times> js_string list" where
  "terminal_scan q n seen terminal out [] = out"
| "terminal_scan q n seen terminal out (e # es) =
     (let run = runId (ev_coordinate e) in
      if run \<in> set (retainRunIds q) then out
      else if run_completed e \<and> beforeOccurredAt q \<le> occurredAt e then out
      else let seen' = add_id run seen; terminal' = (if run_completed e then add_id run terminal else terminal) in
        terminal_scan q (Suc n) seen' terminal' (if length seen' = length terminal' then (Suc n, seen') else out) es)"

definition terminalPrefix :: "canonical_event list \<Rightarrow> event_purge_request \<Rightarrow> nat \<times> js_string list" where
  "terminalPrefix es q = terminal_scan q 0 [] [] (0, []) es"

definition purgeTerminalRuns ::
  "stream_key \<Rightarrow> event_purge_request \<Rightarrow> event_store \<Rightarrow> event_store \<times> event_purge_result result" where
  "purgeTerminalRuns k q s =
     commit s (validateStream k) (\<lambda>_.
     commit s (capturePurgeRequest q) (\<lambda>captured.
     case terminalPrefix (take (nat (pg_limit captured)) (events_of k s)) captured of (purged, ids) \<Rightarrow>
     let rest = drop purged (events_of k s);
         s1 = (if 0 < purged then s\<lparr>streams := js_set (streamMapKey k) rest (streams s)\<rparr> else s) in
     commit s (ensure (purged = 0 \<or> \<not> list_ex (\<lambda>r. list_ex (\<lambda>e. runId (ev_coordinate e) = r) rest) ids) TypeErr) (\<lambda>_.
     (s1, Inr (stream_bounds.extend (bounds_of k s1) (event_purge_result.fields purged ids))))))"

end
