(* ===== verification/Event_Inv.thy ===== *)
theory Event_Inv
  imports Event_Store
begin

text \<open>
  The invariant of the event store, the order its states are in, and that every operation keeps both.
\<close>

section \<open>Canonical texts of close requests\<close>

lemma canon_lookup:
  assumes "canon_form (JObj kvs) = canon_form (JObj ms)" and "distinct (map fst kvs)" and "distinct (map fst ms)"
  shows "map_option canon_form (map_of kvs k) = map_option canon_form (map_of ms k)"
proof -
  have "sorted_members (map canon_member kvs) = sorted_members (map canon_member ms)"
    using assms(1) by (simp only: canon_form_object json.inject)
  then have "set (map canon_member kvs) = set (map canon_member ms)" by (metis set_sorted_members)
  then have "map_of (map canon_member kvs) = map_of (map canon_member ms)"
    using assms(2,3) by (intro map_of_inject_set [THEN iffD2]) (simp_all only: map_fst_canon_member)
  moreover have "map_of (map canon_member xs) k = map_option canon_form (map_of xs k)" for xs
    by (induction xs) (auto simp: canon_member_def)
  ultimately show ?thesis by metis
qed

lemma authority_partition_canon:
  "canon_form (authority_partition_json p) = canon_form (authority_partition_json p') \<longleftrightarrow> p = p'"
proof
  assume eq: "canon_form (authority_partition_json p) = canon_form (authority_partition_json p')"
  have d: "distinct (map fst ([(js ''ownerId'', JStr (pt_ownerId p)), (js ''timelineId'', JStr (pt_timelineId p)),
     (js ''generation'', JStr (pt_generation p))] @ opt_member ''sessionId'' JStr (pt_sessionId p) @
     opt_member ''actorId'' JStr (pt_actorId p)))" for p by (simp add: opt_member_def split: option.splits)
  note look = canon_lookup [OF eq [unfolded authority_partition_json_def] d d]
  show "p = p'"
    using look [of "js ''ownerId''"] look [of "js ''timelineId''"] look [of "js ''generation''"] look [of "js ''sessionId''"]
      look [of "js ''actorId''"]
    by (cases "pt_sessionId p"; cases "pt_sessionId p'"; cases "pt_actorId p"; cases "pt_actorId p'")
      (simp_all add: opt_member_def authority_partition.equality)
qed simp

lemma game_time_canon: "canon_form (game_time_json t) = canon_form (game_time_json t') \<longleftrightarrow> t = t'"
  unfolding game_time_json_def by (subst canon_members) (auto intro: game_time.equality)

lemma goal_retirement_canon: "canon_form (goal_retirement_json g) = canon_form (goal_retirement_json g') \<longleftrightarrow> g = g'"
  unfolding goal_retirement_json_def
  by (subst canon_members) (auto simp: authority_partition_canon game_time_canon intro: goal_retirement.equality)

lemma work_lane_canon: "canon_form (work_lane_json t) = canon_form (work_lane_json t') \<longleftrightarrow> t = t'"
  unfolding work_lane_json_def by (subst canon_members) (auto intro: work_lane.equality)

lemma work_retirement_canon: "canon_form (work_retirement_json w) = canon_form (work_retirement_json w') \<longleftrightarrow> w = w'"
  unfolding work_retirement_json_def by (subst canon_members) (auto simp: work_lane_canon intro: work_retirement.equality)

lemma close_request_canon: "canonical (close_request_json r) = canonical (close_request_json r') \<longleftrightarrow> r = r'"
proof
  assume eq: "canonical (close_request_json r) = canonical (close_request_json r')"
  let ?m = "\<lambda>r. [(js ''sessionId'', JStr (sessionId r)), (js ''actorId'', JStr (actorId r)),
     (js ''scope'', JStr (scope (key_authority r))), (js ''generation'', JStr (scope_generation (key_authority r))),
     (js ''operationId'', JStr (cl_operationId r))] @ opt_member ''goalRetirement'' goal_retirement_json (goalRetirement r) @
     opt_member ''workRetirement'' work_retirement_json (workRetirement r)"
  have ok: "json_ok (goal_retirement_json g)" "json_ok (work_retirement_json w)" for g w
    by (auto simp: goal_retirement_json_def work_retirement_json_def authority_partition_json_def game_time_json_def
      work_lane_json_def opt_member_def split: option.splits)
  have d: "distinct (map fst (?m r))" for r :: close_request by (simp add: opt_member_def split: option.splits)
  have "json_ok (close_request_json r)" for r
    using d [of r] ok by (auto simp: close_request_json_def opt_member_def split: option.splits)
  with eq have "canon_form (JObj (?m r)) = canon_form (JObj (?m r'))"
    unfolding close_request_json_def [symmetric] by (simp only: canonical_eq_iff)
  note look = canon_lookup [OF this d d]
  have "sessionId r = sessionId r'" using look [of "js ''sessionId''"] by simp
  moreover have "actorId r = actorId r'" using look [of "js ''actorId''"] by simp
  moreover have "key_authority r = key_authority r'"
    using look [of "js ''scope''"] look [of "js ''generation''"] by (intro run_admission_authority.equality) simp_all
  moreover have "cl_operationId r = cl_operationId r'" using look [of "js ''operationId''"] by simp
  moreover have "goalRetirement r = goalRetirement r'"
    using look [of "js ''goalRetirement''"]
    by (cases "goalRetirement r"; cases "goalRetirement r'"; cases "workRetirement r"; cases "workRetirement r'")
      (simp_all add: opt_member_def goal_retirement_canon)
  moreover have "workRetirement r = workRetirement r'"
    using look [of "js ''workRetirement''"]
    by (cases "goalRetirement r"; cases "goalRetirement r'"; cases "workRetirement r"; cases "workRetirement r'")
      (simp_all add: opt_member_def work_retirement_canon)
  ultimately show "r = r'" by (intro close_request.equality) simp_all
qed simp

section \<open>The invariant\<close>

definition head_at :: "js_string \<Rightarrow> event_store \<Rightarrow> nat" where
  "head_at k s = (case js_get (revisions s) k of None \<Rightarrow> 0 | Some h \<Rightarrow> h)"

definition events_at :: "js_string \<Rightarrow> event_store \<Rightarrow> canonical_event list" where
  "events_at k s = (case js_get (streams s) k of None \<Rightarrow> [] | Some es \<Rightarrow> es)"

definition event_wf :: "js_string \<Rightarrow> canonical_event \<Rightarrow> bool" where
  "event_wf k e \<longleftrightarrow> assertCanonicalEvent e = Inr () \<and> streamMapKey (ev_coordinate e) = k \<and>
     ev_revision e = to_decimal (revision_of e) \<and> sequence e = ev_revision e"

definition streams_ok :: "event_store \<Rightarrow> bool" where
  "streams_ok s \<longleftrightarrow> (\<forall>k. list_all (event_wf k) (events_at k s) \<and> length (events_at k s) \<le> head_at k s \<and>
     map revision_of (events_at k s) = [head_at k s + 1 - length (events_at k s) ..< head_at k s + 1] \<and>
     js_get (revisions s) k \<noteq> Some 0)"

definition closures_ok :: "event_store \<Rightarrow> bool" where
  "closures_ok s \<longleftrightarrow>
     (\<forall>k c. js_get (authorityClosures s) k = Some c \<longrightarrow> k = authorityMapKey c \<and> workRetirement c = None \<and>
        captureCloseRunAuthorityRequest (close_request.truncate c) = Inr (close_request.truncate c) \<and>
        is_timestamp (closedAt c) \<and> js_get (closeOperations s) (cl_operationId c) = Some k) \<and>
     (\<forall>i k. js_get (closeOperations s) i = Some k \<longrightarrow>
        (\<exists>c. js_get (authorityClosures s) k = Some c \<and> cl_operationId c = i))"

definition authorities_ok :: "event_store \<Rightarrow> bool" where
  "authorities_ok s \<longleftrightarrow>
     (\<forall>k a. js_get (runAuthorities s) k = Some a \<longrightarrow> admission_authority_ok a) \<and>
     (\<forall>k e i f a. e \<in> set (events_at k s) \<longrightarrow> ev_data e = RunQueued i f (Some a) \<longrightarrow>
        js_get (runAuthorities s) (runMapKey (ev_coordinate e)) = Some a)"

definition event_inv :: "event_store \<Rightarrow> bool" where
  "event_inv s \<longleftrightarrow> streams_ok s \<and> closures_ok s \<and> authorities_ok s"

lemma empty_event_store_inv: "event_inv empty_event_store"
  by (simp add: event_inv_def streams_ok_def closures_ok_def authorities_ok_def empty_event_store_def events_at_def head_at_def)

lemma events_of_at: "events_of k s = events_at (streamMapKey k) s"
  by (simp add: events_of_def events_at_def)

section \<open>Later states\<close>

definition closed :: "'a stream_key_scheme \<Rightarrow> run_admission_authority \<Rightarrow> event_store \<Rightarrow> bool" where
  "closed k a s \<longleftrightarrow> js_has (authorityClosures s) (authorityMapKey (authority_key k a))"

text \<open>The data of an event the store may admit when it is in state \<open>s\<close>.\<close>

definition admitted :: "event_store \<Rightarrow> run_coordinate \<Rightarrow> event_data \<Rightarrow> bool" where
  "admitted s c e \<longleftrightarrow>
     (case e of
        RunQueued i f a \<Rightarrow>
          (\<forall>x. js_get (runAuthorities s) (runMapKey c) = Some x \<longrightarrow> a = Some x) \<and> (\<forall>x. a = Some x \<longrightarrow> \<not> closed c x s)
      | RunStarted i \<Rightarrow> (\<forall>x. js_get (runAuthorities s) (runMapKey c) = Some x \<longrightarrow> \<not> closed c x s)
      | RunResumed p \<Rightarrow> (\<forall>x. js_get (runAuthorities s) (runMapKey c) = Some x \<longrightarrow> \<not> closed c x s)
      | _ \<Rightarrow> True)"

definition map_grows :: "('k, 'v) js_map \<Rightarrow> ('k, 'v) js_map \<Rightarrow> bool" where
  "map_grows m m' \<longleftrightarrow> (\<forall>k v. js_get m k = Some v \<longrightarrow> js_get m' k = Some v)"

definition log_extends :: "event_store \<Rightarrow> event_store \<Rightarrow> bool" where
  "log_extends s s' \<longleftrightarrow> (\<forall>k. head_at k s \<le> head_at k s' \<and>
     (\<forall>e \<in> set (events_at k s'). if revision_of e \<le> head_at k s then e \<in> set (events_at k s)
        else admitted s (ev_coordinate e) (ev_data e)))"

definition event_later :: "event_store \<Rightarrow> event_store \<Rightarrow> bool" where
  "event_later s s' \<longleftrightarrow> log_extends s s' \<and> map_grows (authorityClosures s) (authorityClosures s') \<and>
     map_grows (closeOperations s) (closeOperations s') \<and> map_grows (runAuthorities s) (runAuthorities s')"

lemma map_grows_refl [simp]: "map_grows m m"
  by (simp add: map_grows_def)

lemma map_grows_trans: "map_grows a b \<Longrightarrow> map_grows b c \<Longrightarrow> map_grows a c"
  by (auto simp: map_grows_def)

lemma map_grows_set: "js_get m k = None \<or> js_get m k = Some v \<Longrightarrow> map_grows m (js_set k v m)"
  by (auto simp: map_grows_def js_get_set)

lemma closed_mono: "map_grows (authorityClosures s) (authorityClosures t) \<Longrightarrow> closed k a s \<Longrightarrow> closed k a t"
  by (auto simp: closed_def js_has_def map_grows_def)

lemma admitted_antimono:
  "map_grows (authorityClosures s) (authorityClosures t) \<Longrightarrow> map_grows (runAuthorities s) (runAuthorities t) \<Longrightarrow>
   admitted t c e \<Longrightarrow> admitted s c e"
  using closed_mono [of s t c] by (cases e) (auto simp: admitted_def map_grows_def)

lemma streams_ok_head: "streams_ok s \<Longrightarrow> e \<in> set (events_at k s) \<Longrightarrow> 0 < revision_of e \<and> revision_of e \<le> head_at k s"
proof -
  assume ok: "streams_ok s" "e \<in> set (events_at k s)"
  then have "revision_of e \<in> set (map revision_of (events_at k s))" by simp
  also have "\<dots> = {head_at k s + 1 - length (events_at k s) ..< head_at k s + 1}"
    using ok(1) unfolding streams_ok_def by (metis set_upt)
  finally have "head_at k s + 1 - length (events_at k s) \<le> revision_of e" "revision_of e \<le> head_at k s" by auto
  moreover have "length (events_at k s) \<le> head_at k s" using ok(1) by (simp add: streams_ok_def)
  ultimately show ?thesis by simp
qed

lemma event_later_refl: "streams_ok s \<Longrightarrow> event_later s s"
  using streams_ok_head by (auto simp: event_later_def log_extends_def)

lemma event_later_trans:
  assumes "event_later s t" and "event_later t u"
  shows "event_later s u"
proof -
  have g: "map_grows (authorityClosures s) (authorityClosures t)" "map_grows (runAuthorities s) (runAuthorities t)"
    using assms(1) by (simp_all add: event_later_def)
  have "log_extends s u"
    unfolding log_extends_def
  proof (intro allI conjI ballI)
    fix k
    show "head_at k s \<le> head_at k u" using assms unfolding event_later_def log_extends_def by (meson order_trans)
    fix e assume e: "e \<in> set (events_at k u)"
    have h: "head_at k s \<le> head_at k t" using assms(1) by (simp add: event_later_def log_extends_def)
    show "if revision_of e \<le> head_at k s then e \<in> set (events_at k s) else admitted s (ev_coordinate e) (ev_data e)"
    proof (cases "revision_of e \<le> head_at k t")
      case True
      then have "e \<in> set (events_at k t)" using assms(2) e by (auto simp: event_later_def log_extends_def)
      then show ?thesis using assms(1) by (auto simp: event_later_def log_extends_def)
    next
      case False
      then have "admitted t (ev_coordinate e) (ev_data e)" using assms(2) e by (auto simp: event_later_def log_extends_def)
      with False h admitted_antimono [OF g] show ?thesis by auto
    qed
  qed
  with assms show ?thesis by (auto simp: event_later_def intro: map_grows_trans)
qed

end
