(* ===== verification/Event_Run.thy ===== *)
theory Event_Run
  imports Event_Inv
begin

text \<open>
  Every operation of the event store keeps its invariant and leaves a later state; the runs of the store, with
  a clock and a source of identifiers that may themselves run it.
\<close>

section \<open>Append\<close>

lemma assertAuthorityOpen_Inr: "assertAuthorityOpen (authority_key c a) s = Inr u \<longleftrightarrow> \<not> closed c a s"
  by (auto simp: assertAuthorityOpen_def closed_def rbind_eq_Inr)

lemma check_admission_Inr: "check_admission c e s = Inr u \<Longrightarrow> admitted s c e"
  by (cases e) (auto simp: check_admission_def admitted_def rbind_eq_Inr when_some_Inr assertAuthorityOpen_Inr
    assertRunAuthorityOpenSynchronously_def)

lemma append_checked_cases:
  assumes "append_checked k x c e i at s = (s', out)"
  obtains (appended) "x = stream_revision k s" "check_admission c e s = Inr ()"
      "out = Inr (new_event i at (head_at (streamMapKey k) s + 1) c e)"
      "s' = append_event k (new_event i at (head_at (streamMapKey k) s + 1) c e) (head_at (streamMapKey k) s + 1) s"
  | (failed) err where "out = Inl err" "s' = s"
proof (cases "x = stream_revision k s")
  case False
  with assms show thesis by (intro failed [of WrongExpectedRevision]) (simp_all add: append_checked_def)
next
  case expected: True
  show thesis
  proof (cases "check_admission c e s")
    case (Inl err)
    with assms expected show thesis by (intro failed [of err]) (simp_all add: append_checked_def)
  next
    case (Inr u)
    with assms expected show thesis
      unfolding head_at_def by (intro appended) (simp_all add: append_checked_def head_at_def Let_def)
  qed
qed

lemma new_event_simps [simp]:
  "revision_of (new_event i at n c e) = n" "ev_coordinate (new_event i at n c e) = c" "ev_data (new_event i at n c e) = e"
  "occurredAt (new_event i at n c e) = at" "eventId (new_event i at n c e) = i"
  by (simp_all add: new_event_def revision_of_def)

lemma append_event_fields:
  "head_at k' (append_event k e n s) = (if k' = streamMapKey k then n else head_at k' s)"
  "events_at k' (append_event k e n s) = (if k' = streamMapKey k then events_at k' s @ [e] else events_at k' s)"
  "js_get (revisions (append_event k e n s)) = (js_get (revisions s))(streamMapKey k \<mapsto> n)"
  "authorityClosures (append_event k e n s) = authorityClosures s" "closeOperations (append_event k e n s) = closeOperations s"
  "js_get (runAuthorities (append_event k e n s)) =
     (case ev_data e of RunQueued i f (Some a) \<Rightarrow> (js_get (runAuthorities s))(runMapKey (ev_coordinate e) \<mapsto> a) | _ \<Rightarrow> js_get (runAuthorities s))"
  by (auto simp: append_event_def Let_def head_at_def events_at_def events_of_def js_get_set split: event_data.splits option.splits)

lemma new_event_wf:
  assumes "assertEventStreamCoordinate k c = Inr ()" "assertCanonicalEventData e = Inr ()" "is_opaque_identifier i" "is_timestamp at"
  shows "event_wf (streamMapKey k) (new_event i at n c e)"
proof -
  have "timestamp_pattern at" using assms(4) by (simp add: is_timestamp_def)
  then show ?thesis using assms eventAudience_ok [of e]
    by (auto simp: event_wf_def assertCanonicalEvent_def canonical_event_ok_def new_event_def revision_of_def
      assertEventStreamCoordinate_def assertCanonicalEventData_def rbind_eq_Inr streamMapKey_def)
qed

lemma upt_snoc: "n \<le> h \<Longrightarrow> [h + 1 - n ..< h + 1] @ [h + 1] = [h + 1 + 1 - (n + 1) ..< h + 1 + 1]"
  by (simp add: Suc_diff_le)

lemma appended_advances:
  assumes inv: "event_inv s" and ok: "assertEventStreamCoordinate k c = Inr ()" "assertCanonicalEventData e = Inr ()"
      "is_opaque_identifier i" "is_timestamp at" and adm: "admitted s c e"
  defines "s' \<equiv> append_event k (new_event i at (head_at (streamMapKey k) s + 1) c e) (head_at (streamMapKey k) s + 1) s"
  shows "event_inv s' \<and> event_later s s'"
proof -
  let ?h = "head_at (streamMapKey k) s" and ?e = "new_event i at (head_at (streamMapKey k) s + 1) c e"
  have i: "streams_ok s" "closures_ok s" "authorities_ok s" using inv by (simp_all add: event_inv_def)
  note f = append_event_fields [where k = k and e = ?e and n = "?h + 1" and s = s, folded s'_def]
  have e_ok: "event_data_ok e" using ok(2) by (auto simp: assertCanonicalEventData_def rbind_eq_Inr)
  have auth: "map_grows (runAuthorities s) (runAuthorities s')"
    using adm by (auto simp: map_grows_def f admitted_def split: event_data.splits option.splits)
  have "streams_ok s'"
    unfolding streams_ok_def
  proof (intro allI)
    fix k'
    have o: "list_all (event_wf k') (events_at k' s)" "length (events_at k' s) \<le> head_at k' s"
      "map revision_of (events_at k' s) = [head_at k' s + 1 - length (events_at k' s) ..< head_at k' s + 1]"
      "js_get (revisions s) k' \<noteq> Some 0" using i(1) unfolding streams_ok_def by blast+
    show "list_all (event_wf k') (events_at k' s') \<and> length (events_at k' s') \<le> head_at k' s' \<and>
      map revision_of (events_at k' s') = [head_at k' s' + 1 - length (events_at k' s') ..< head_at k' s' + 1] \<and>
      js_get (revisions s') k' \<noteq> Some 0"
    proof (cases "k' = streamMapKey k")
      case True
      then have "events_at k' s' = events_at k' s @ [?e]" "head_at k' s' = ?h + 1" "js_get (revisions s') k' = Some (?h + 1)"
        by (simp_all add: f)
      with True o new_event_wf [OF ok, of "?h + 1"] upt_snoc [of "length (events_at k' s)" ?h] show ?thesis
        by (simp del: upt_Suc)
    next
      case False
      then have "events_at k' s' = events_at k' s" "head_at k' s' = head_at k' s" "js_get (revisions s') k' = js_get (revisions s) k'"
        by (simp_all add: f)
      with o show ?thesis by simp
    qed
  qed
  moreover have "closures_ok s'" using i(2) by (simp add: closures_ok_def f)
  moreover have "authorities_ok s'"
    unfolding authorities_ok_def
  proof (intro conjI allI impI)
    fix k' a assume "js_get (runAuthorities s') k' = Some a"
    then show "admission_authority_ok a" using i(3) e_ok
      by (auto simp: authorities_ok_def f split: event_data.splits option.splits if_splits)
  next
    fix k' d j fp a assume d: "d \<in> set (events_at k' s')" "ev_data d = RunQueued j fp (Some a)"
    then consider "d = ?e" | "d \<in> set (events_at k' s)" by (auto simp: f split: if_splits)
    then show "js_get (runAuthorities s') (runMapKey (ev_coordinate d)) = Some a"
    proof cases
      case 1
      with d(2) show ?thesis by (auto simp: f)
    next
      case 2
      with d(2) i(3) auth show ?thesis unfolding authorities_ok_def map_grows_def by blast
    qed
  qed
  moreover have "log_extends s s'"
    unfolding log_extends_def using streams_ok_head [OF i(1)] adm by (auto simp: f)
  ultimately show ?thesis using auth by (simp add: event_inv_def event_later_def f)
qed

section \<open>Advancing\<close>

definition event_advances :: "event_store \<Rightarrow> event_store \<Rightarrow> bool" where
  "event_advances s s' \<longleftrightarrow> (event_inv s \<longrightarrow> event_inv s' \<and> event_later s s')"

lemma event_advances_refl [simp]: "event_advances s s"
  by (simp add: event_advances_def event_inv_def event_later_refl)

lemma event_advances_trans: "event_advances s t \<Longrightarrow> event_advances t u \<Longrightarrow> event_advances s u"
  by (auto simp: event_advances_def intro: event_later_trans)

lemma append_checked_advances:
  assumes ok: "assertEventStreamCoordinate k c = Inr ()" "assertCanonicalEventData e = Inr ()" "is_opaque_identifier i" "is_timestamp at"
  shows "event_advances s (fst (append_checked k x c e i at s))"
proof (cases "append_checked k x c e i at s" rule: prod.exhaust)
  case (Pair s' out)
  from Pair show ?thesis
  proof (cases rule: append_checked_cases)
    case appended
    with appended_advances [OF _ ok check_admission_Inr, of s "()"] Pair show ?thesis by (simp add: event_advances_def)
  qed (use Pair in simp)
qed

text \<open>What a successful append did: it took an identifier and a time from its callbacks, in the states these left.\<close>

lemma append_succeeds:
  assumes "append_to_stream newId now k x c e s = (s', Inr ev)"
  obtains i at s1 s2 where "assertEventStreamCoordinate k c = Inr ()" "assertCanonicalEventData e = Inr ()"
    "newId s = (s1, Inr i)" "is_opaque_identifier i" "now s1 = (s2, Inr at)" "is_timestamp at" "append_checked k x c e i at s2 = (s', Inr ev)"
proof -
  have ok: "assertEventStreamCoordinate k c = Inr ()" "assertCanonicalEventData e = Inr ()"
    using assms by (auto simp: append_to_stream_def commit_eq_Inr rbind_eq_Inr)
  obtain s1 id_reply where a: "newId s = (s1, id_reply)" by fastforce
  then obtain i where i: "id_reply = Inr i" "is_opaque_identifier i"
    using assms ok by (auto simp: append_to_stream_def commit_eq_Inr)
  obtain s2 time_reply where b: "now s1 = (s2, time_reply)" by fastforce
  then obtain at where "time_reply = Inr at" "is_timestamp at" "append_checked k x c e i at s2 = (s', Inr ev)"
    using assms ok a i by (auto simp: append_to_stream_def commit_eq_Inr)
  with ok a i b show thesis by (intro that) simp_all
qed

lemma append_advances:
  assumes "\<And>u. event_advances u (fst (newId u))" and "\<And>u. event_advances u (fst (now u))"
  shows "event_advances s (fst (append_to_stream newId now k x c e s))"
proof (cases "checks [assertEventStreamCoordinate k c, assertCanonicalEventData e]")
  case (Inr u)
  then have ok: "assertEventStreamCoordinate k c = Inr ()" "assertCanonicalEventData e = Inr ()" by (auto simp: rbind_eq_Inr)
  obtain s1 id_reply where a: "newId s = (s1, id_reply)" by fastforce
  obtain s2 time_reply where b: "now s1 = (s2, time_reply)" by fastforce
  have adv: "event_advances s s1" "event_advances s s2"
    using assms(1) [of s] assms(2) [of s1] a b event_advances_trans by (metis fst_conv)+
  have core: "event_advances s (fst (append_checked k x c e i at s2))" if "is_opaque_identifier i" "is_timestamp at" for i at
    by (rule event_advances_trans [OF adv(2) append_checked_advances [OF ok that]])
  have "fst (append_to_stream newId now k x c e s) \<in> {s1, s2} \<or>
    (\<exists>i at. is_opaque_identifier i \<and> is_timestamp at \<and> fst (append_to_stream newId now k x c e s) = fst (append_checked k x c e i at s2))"
    using ok a b by (auto simp: append_to_stream_def commit_def split: sum.splits)
  with adv core show ?thesis by auto
qed (simp add: append_to_stream_def)

section \<open>Purge\<close>

definition dropped :: "js_string \<Rightarrow> nat \<Rightarrow> event_store \<Rightarrow> event_store" where
  "dropped k n s = s\<lparr>streams := js_set k (drop n (events_at k s)) (streams s)\<rparr>"

lemma dropped_fields:
  "events_at k' (dropped k n s) = (if k' = k then drop n (events_at k s) else events_at k' s)" "head_at k' (dropped k n s) = head_at k' s"
  "revisions (dropped k n s) = revisions s" "authorityClosures (dropped k n s) = authorityClosures s"
  "closeOperations (dropped k n s) = closeOperations s" "runAuthorities (dropped k n s) = runAuthorities s"
  by (auto simp: dropped_def events_at_def head_at_def js_get_set)

lemma drop_upt_suffix: "n \<le> len \<Longrightarrow> len \<le> h \<Longrightarrow> drop n [h + 1 - len ..< h + 1] = [h + 1 - (len - n) ..< h + 1]"
  by (simp add: drop_upt del: upt_Suc)

lemma dropped_advances: "n \<le> length (events_at k s) \<Longrightarrow> event_advances s (dropped k n s)"
  unfolding event_advances_def
proof (intro impI)
  assume n: "n \<le> length (events_at k s)" and inv: "event_inv s"
  have i: "streams_ok s" "closures_ok s" "authorities_ok s" using inv by (simp_all add: event_inv_def)
  note f = dropped_fields [where k = k and n = n and s = s]
  have sub: "set (events_at k' (dropped k n s)) \<subseteq> set (events_at k' s)" for k' by (simp add: f set_drop_subset)
  have "streams_ok (dropped k n s)"
    unfolding streams_ok_def
  proof (intro allI)
    fix k'
    have o: "list_all (event_wf k') (events_at k' s)" "length (events_at k' s) \<le> head_at k' s"
      "map revision_of (events_at k' s) = [head_at k' s + 1 - length (events_at k' s) ..< head_at k' s + 1]"
      "js_get (revisions s) k' \<noteq> Some 0" using i(1) unfolding streams_ok_def by blast+
    have "map revision_of (drop n (events_at k s)) = [head_at k s + 1 - (length (events_at k s) - n) ..< head_at k s + 1]"
      if "k' = k" using o(2,3) drop_upt_suffix [OF n, of "head_at k s"] that by (simp add: drop_map [symmetric] del: upt_Suc)
    with o sub [of k'] show "list_all (event_wf k') (events_at k' (dropped k n s)) \<and> length (events_at k' (dropped k n s)) \<le> head_at k' (dropped k n s) \<and>
      map revision_of (events_at k' (dropped k n s)) =
        [head_at k' (dropped k n s) + 1 - length (events_at k' (dropped k n s)) ..< head_at k' (dropped k n s) + 1] \<and>
      js_get (revisions (dropped k n s)) k' \<noteq> Some 0"
      by (cases "k' = k") (auto simp: f list_all_iff subset_iff simp del: upt_Suc)
  qed
  moreover have "closures_ok (dropped k n s)" using i(2) by (simp add: closures_ok_def f)
  moreover have "authorities_ok (dropped k n s)" using i(3) sub unfolding authorities_ok_def by (simp add: f(6)) blast
  moreover have "log_extends s (dropped k n s)"
    unfolding log_extends_def f(2)
  proof (intro allI conjI ballI)
    fix k' e assume "e \<in> set (events_at k' (dropped k n s))"
    then have "e \<in> set (events_at k' s)" using sub by blast
    with streams_ok_head [OF i(1) this]
    show "if revision_of e \<le> head_at k' s then e \<in> set (events_at k' s) else admitted s (ev_coordinate e) (ev_data e)" by simp
  qed simp
  ultimately show "event_inv (dropped k n s) \<and> event_later s (dropped k n s)"
    by (simp add: event_inv_def event_later_def f)
qed

text \<open>What \<open>terminalPrefix\<close> returns: a prefix of the events in which no run is retained and every run completed
  before the cutoff, with the runs in the order of their first events.\<close>

definition runs_of :: "canonical_event list \<Rightarrow> js_string set" where
  "runs_of es = (\<lambda>e. runId (ev_coordinate e)) ` set es"

definition purgeable :: "event_purge_request \<Rightarrow> canonical_event list \<Rightarrow> nat \<Rightarrow> bool" where
  "purgeable q es n \<longleftrightarrow> n \<le> length es \<and>
     (\<forall>e \<in> set (take n es). runId (ev_coordinate e) \<notin> set (retainRunIds q) \<and>
       (run_completed e \<longrightarrow> occurredAt e < beforeOccurredAt q) \<and>
       (\<exists>d \<in> set (take n es). run_completed d \<and> runId (ev_coordinate d) = runId (ev_coordinate e)))"

definition scan_ok :: "event_purge_request \<Rightarrow> canonical_event list \<Rightarrow> nat \<times> js_string list \<Rightarrow> bool" where
  "scan_ok q es out \<longleftrightarrow> purgeable q es (fst out) \<and> distinct (snd out) \<and> set (snd out) = runs_of (take (fst out) es)"

lemma add_id_set [simp]: "set (add_id x xs) = insert x (set xs)" and add_id_distinct [simp]: "distinct xs \<Longrightarrow> distinct (add_id x xs)"
  by (auto simp: add_id_def)

lemma runs_of_append [simp]: "runs_of (xs @ ys) = runs_of xs \<union> runs_of ys" and runs_of_simps [simp]: "runs_of [] = {}"
  "runs_of [e] = {runId (ev_coordinate e)}"
  by (auto simp: runs_of_def)

lemma terminal_scan_ok:
  assumes "n = length pre" and "distinct seen" "set seen = runs_of pre" and "distinct terminal" "set terminal = runs_of (filter run_completed pre)"
    and "\<forall>e \<in> set pre. runId (ev_coordinate e) \<notin> set (retainRunIds q) \<and> (run_completed e \<longrightarrow> occurredAt e < beforeOccurredAt q)"
    and "scan_ok q (pre @ es) out"
  shows "scan_ok q (pre @ es) (terminal_scan q n seen terminal out es)"
  using assms
proof (induction es arbitrary: n pre seen terminal out)
  case (Cons e es)
  let ?r = "runId (ev_coordinate e)" and ?pre = "pre @ [e]"
  show ?case
  proof (cases "?r \<in> set (retainRunIds q) \<or> run_completed e \<and> beforeOccurredAt q \<le> occurredAt e")
    case True
    then show ?thesis using Cons.prems(7) by (auto simp: Let_def)
  next
    case False
    let ?seen = "add_id ?r seen" and ?terminal = "if run_completed e then add_id ?r terminal else terminal"
    let ?out = "if length ?seen = length ?terminal then (Suc n, ?seen) else out"
    have seen: "distinct ?seen" "set ?seen = runs_of ?pre" using Cons.prems(2,3) by auto
    have terminal: "distinct ?terminal" "set ?terminal = runs_of (filter run_completed ?pre)" using Cons.prems(4,5) by auto
    have pre: "\<forall>d \<in> set ?pre. runId (ev_coordinate d) \<notin> set (retainRunIds q) \<and> (run_completed d \<longrightarrow> occurredAt d < beforeOccurredAt q)"
      using Cons.prems(6) False by (auto simp: not_le)
    have "scan_ok q (?pre @ es) ?out"
    proof (cases "length ?seen = length ?terminal")
      case True
      have "set ?terminal \<subseteq> set ?seen" using seen(2) terminal(2) by (auto simp: runs_of_def)
      moreover have "card (set ?terminal) = card (set ?seen)" using True seen(1) terminal(1) by (metis distinct_card)
      ultimately have "set ?terminal = set ?seen" by (metis List.finite_set card_subset_eq)
      then have "runs_of (filter run_completed ?pre) = runs_of ?pre" using seen(2) terminal(2) by simp
      then have "\<exists>d \<in> set ?pre. run_completed d \<and> runId (ev_coordinate d) = runId (ev_coordinate x)" if "x \<in> set ?pre" for x
      proof -
        have "runId (ev_coordinate x) \<in> runs_of (filter run_completed ?pre)"
          using that \<open>runs_of (filter run_completed ?pre) = runs_of ?pre\<close> unfolding runs_of_def by blast
        then show ?thesis unfolding runs_of_def by (auto split: if_splits)
      qed
      moreover have "take (Suc n) (?pre @ es) = ?pre" using Cons.prems(1) by simp
      ultimately show ?thesis using True pre seen Cons.prems(1) unfolding scan_ok_def purgeable_def by (auto simp del: append.assoc)
    qed (use Cons.prems(7) in simp)
    then have "scan_ok q (?pre @ es) (terminal_scan q (Suc n) ?seen ?terminal ?out es)"
      by (intro Cons.IH) (use Cons.prems(1) seen terminal pre in simp_all)
    then show ?thesis using False by (auto simp: Let_def not_le)
  qed
qed simp

lemma terminalPrefix_ok: "scan_ok q es (terminalPrefix es q)"
  using terminal_scan_ok [of 0 "[]" "[]" "[]" q es "(0, [])"] by (simp add: terminalPrefix_def scan_ok_def purgeable_def)

text \<open>No longer prefix satisfies the conditions.\<close>

lemma purgeable_counts:
  assumes "distinct seen" "set seen = runs_of pre" "distinct terminal" "set terminal = runs_of (filter run_completed pre)"
    and "purgeable q (pre @ es) (length pre)"
  shows "length seen = length terminal"
proof -
  have "runs_of pre \<subseteq> runs_of (filter run_completed pre)"
  proof
    fix r assume "r \<in> runs_of pre"
    then obtain x where "x \<in> set pre" "r = runId (ev_coordinate x)" by (auto simp: runs_of_def)
    moreover from this obtain d where "d \<in> set pre" "run_completed d" "runId (ev_coordinate d) = runId (ev_coordinate x)"
      using assms(5) by (fastforce simp: purgeable_def)
    ultimately show "r \<in> runs_of (filter run_completed pre)" unfolding runs_of_def by (auto intro!: image_eqI [of _ _ d])
  qed
  moreover have "runs_of (filter run_completed pre) \<subseteq> runs_of pre" by (auto simp: runs_of_def)
  ultimately have "set seen = set terminal" using assms(2,4) by simp
  then show ?thesis using assms(1,3) by (metis distinct_card)
qed

lemma terminal_scan_max:
  assumes "n = length pre" and "distinct seen" "set seen = runs_of pre" and "distinct terminal" "set terminal = runs_of (filter run_completed pre)"
    and "\<And>m. purgeable q (pre @ es) m \<Longrightarrow> m \<le> n \<Longrightarrow> m \<le> fst out"
    and "purgeable q (pre @ es) m"
  shows "m \<le> fst (terminal_scan q n seen terminal out es)"
  using assms
proof (induction es arbitrary: n pre seen terminal out)
  case Nil
  then show ?case by (simp add: purgeable_def)
next
  case (Cons e es)
  let ?r = "runId (ev_coordinate e)" and ?pre = "pre @ [e]"
  show ?case
  proof (cases "?r \<in> set (retainRunIds q) \<or> run_completed e \<and> beforeOccurredAt q \<le> occurredAt e")
    case True
    have "m \<le> n"
    proof (rule ccontr)
      assume "\<not> m \<le> n"
      then have "e \<in> set (take m (pre @ e # es))" using Cons.prems(1) by (cases "m - length pre") auto
      with True Cons.prems(7) show False unfolding purgeable_def by (metis linorder_not_le)
    qed
    then show ?thesis using True Cons.prems(6,7) by (auto simp: Let_def)
  next
    case False
    let ?seen = "add_id ?r seen" and ?terminal = "if run_completed e then add_id ?r terminal else terminal"
    let ?out = "if length ?seen = length ?terminal then (Suc n, ?seen) else out"
    have seen: "distinct ?seen" "set ?seen = runs_of ?pre" using Cons.prems(2,3) by auto
    have terminal: "distinct ?terminal" "set ?terminal = runs_of (filter run_completed ?pre)" using Cons.prems(4,5) by auto
    have out: "j \<le> fst ?out" if "purgeable q (?pre @ es) j" "j \<le> Suc n" for j
    proof (cases "j = Suc n")
      case True
      then show ?thesis using purgeable_counts [OF seen terminal, of q es] that Cons.prems(1) by simp
    next
      case False
      then have "j \<le> n" using that(2) by simp
      moreover from this that(1) Cons.prems(6) have "j \<le> fst out" by simp
      ultimately show ?thesis by simp
    qed
    have "m \<le> fst (terminal_scan q (Suc n) ?seen ?terminal ?out es)"
      by (rule Cons.IH [of "Suc n" ?pre, OF _ seen terminal out]) (use Cons.prems(1,7) in simp_all)
    then show ?thesis using False by (auto simp: Let_def not_le)
  qed
qed

lemma terminalPrefix_max: "purgeable q es m \<Longrightarrow> m \<le> fst (terminalPrefix es q)"
  using terminal_scan_max [of 0 "[]" "[]" "[]" q es "(0, [])" m] by (simp add: terminalPrefix_def runs_of_def)

lemma purge_cases:
  assumes "purgeTerminalRuns k q s = (s', out)"
  obtains (purged) n ids where "terminalPrefix (take (nat (pg_limit q)) (events_of k s)) q = (n, ids)"
      "s' = (if 0 < n then dropped (streamMapKey k) n s else s)" "out = Inr (stream_bounds.extend (bounds_of k s') (event_purge_result.fields n ids))"
      "n = 0 \<or> (\<forall>r \<in> set ids. r \<notin> runs_of (drop n (events_of k s)))"
      "checks [validateStream k, discard (capturePurgeRequest q)] = Inr ()"
  | (failed) e where "out = Inl e" "s' = s"
proof (cases "checks [validateStream k, discard (capturePurgeRequest q)]")
  case (Inl e)
  have "capturePurgeRequest q = Inr q' \<Longrightarrow> q' = q" for q'
    by (auto simp: capturePurgeRequest_def rbind_eq_Inr captureRetainedIdentifiers_Inr)
  with Inl assms have "\<exists>e. out = Inl e \<and> s' = s"
    by (cases "validateStream k"; cases "capturePurgeRequest q") (auto simp: purgeTerminalRuns_def discard_def)
  with failed show thesis by blast
next
  case (Inr u)
  then obtain q' where ok: "validateStream k = Inr ()" "capturePurgeRequest q = Inr q'" by (auto simp: rbind_eq_Inr)
  then have "q' = q" by (auto simp: capturePurgeRequest_def rbind_eq_Inr captureRetainedIdentifiers_Inr)
  note ok = ok [unfolded this]
  obtain n ids where t: "terminalPrefix (take (nat (pg_limit q)) (events_of k s)) q = (n, ids)" by fastforce
  let ?s1 = "if 0 < n then s\<lparr>streams := js_set (streamMapKey k) (drop n (events_of k s)) (streams s)\<rparr> else s"
  have s1: "?s1 = (if 0 < n then dropped (streamMapKey k) n s else s)" by (simp add: dropped_def events_of_at)
  have cont: "list_ex (\<lambda>r. list_ex (\<lambda>e. runId (ev_coordinate e) = r) xs) ids \<longleftrightarrow> (\<exists>r \<in> set ids. r \<in> runs_of xs)" for xs
    by (auto simp: list_ex_iff runs_of_def)
  show thesis
  proof (cases "n = 0 \<or> (\<forall>r \<in> set ids. r \<notin> runs_of (drop n (events_of k s)))")
    case True
    with assms ok t have "s' = ?s1" "out = Inr (stream_bounds.extend (bounds_of k ?s1) (event_purge_result.fields n ids))"
      by (auto simp: purgeTerminalRuns_def Let_def cont)
    with purged [OF t] s1 True Inr show thesis by simp
  next
    case False
    with assms ok t have "out = Inl TypeErr" "s' = s" by (auto simp: purgeTerminalRuns_def Let_def cont)
    with failed show thesis by blast
  qed
qed

lemma event_purge_advances: "event_advances s (fst (purgeTerminalRuns k q s))"
proof (cases "purgeTerminalRuns k q s" rule: prod.exhaust)
  case (Pair s' out)
  then show ?thesis
  proof (cases rule: purge_cases)
    case (purged n ids)
    have "n \<le> length (events_of k s)"
      using terminalPrefix_ok [of q "take (nat (pg_limit q)) (events_of k s)"] purged(1) by (simp add: scan_ok_def purgeable_def)
    with dropped_advances [of n "streamMapKey k" s] Pair purged(2) show ?thesis by (simp add: events_of_at)
  qed (use Pair in simp)
qed

section \<open>Closing an authority\<close>

lemma new_closure_simps [simp]:
  "close_request.truncate (new_closure r t) = r" "closedAt (new_closure r t) = t" "workRetirement (new_closure r t) = workRetirement r"
  "cl_operationId (new_closure r t) = cl_operationId r" "authorityMapKey (new_closure r t) = authorityMapKey r"
  "goalRetirement (new_closure r t) = goalRetirement r"
  by (simp_all add: new_closure_def close_request.defs run_closure.defs authorityMapKey_def)

lemma readExisting_Some:
  assumes "readExisting r (canonical (close_request_json r)) s = Inr (Some c)"
  shows "js_get (authorityClosures s) (authorityMapKey r) = Some c \<and> close_request.truncate c = r"
  using assms close_request_canon [of "close_request.truncate c" r]
  by (auto simp: readExisting_def rbind_eq_Inr split: option.splits)

lemma readExisting_None:
  assumes "closures_ok s" and "readExisting r (canonical (close_request_json r)) s = Inr None"
  shows "js_get (authorityClosures s) (authorityMapKey r) = None \<and> js_get (closeOperations s) (cl_operationId r) = None"
proof -
  have none: "js_get (authorityClosures s) (authorityMapKey r) = None"
    using assms(2) by (auto simp: readExisting_def rbind_eq_Inr split: option.splits)
  have "js_get (closeOperations s) (cl_operationId r) \<noteq> Some k" for k
  proof
    assume op: "js_get (closeOperations s) (cl_operationId r) = Some k"
    then have "k = authorityMapKey r" using assms(2) by (auto simp: readExisting_def rbind_eq_Inr)
    with op assms(1) none show False unfolding closures_ok_def by force
  qed
  with none show ?thesis by auto
qed

lemma record_closure_advances:
  assumes "captureCloseRunAuthorityRequest r = Inr r" "workRetirement r = None" "is_timestamp t"
    and "readExisting r (canonical (close_request_json r)) s = Inr None"
  shows "event_advances s (record_closure r (new_closure r t) s)"
  unfolding event_advances_def
proof (intro impI)
  assume inv: "event_inv s"
  let ?s = "record_closure r (new_closure r t) s"
  have i: "streams_ok s" "closures_ok s" "authorities_ok s" using inv by (simp_all add: event_inv_def)
  note none = readExisting_None [OF i(2) assms(4)]
  have f: "streams ?s = streams s" "revisions ?s = revisions s" "runAuthorities ?s = runAuthorities s"
    "js_get (authorityClosures ?s) = (js_get (authorityClosures s))(authorityMapKey r \<mapsto> new_closure r t)"
    "js_get (closeOperations ?s) = (js_get (closeOperations s))(cl_operationId r \<mapsto> authorityMapKey r)"
    by (simp_all add: record_closure_def js_get_set)
  have same: "events_at k ?s = events_at k s" "head_at k ?s = head_at k s" for k by (simp_all add: events_at_def head_at_def f)
  have "closures_ok ?s"
    unfolding closures_ok_def
  proof (rule conjI; intro allI impI)
    fix k c
    assume c: "js_get (authorityClosures ?s) k = Some c"
    show "k = authorityMapKey c \<and> workRetirement c = None \<and>
        captureCloseRunAuthorityRequest (close_request.truncate c) = Inr (close_request.truncate c) \<and>
        is_timestamp (closedAt c) \<and> js_get (closeOperations ?s) (cl_operationId c) = Some k"
    proof (cases "k = authorityMapKey r")
      case True
      with c have "c = new_closure r t" by (simp add: f)
      with True assms(1-3) show ?thesis by (simp add: f)
    next
      case False
      with c have old: "js_get (authorityClosures s) k = Some c" by (simp add: f)
      with i(2) have o: "k = authorityMapKey c" "workRetirement c = None"
        "captureCloseRunAuthorityRequest (close_request.truncate c) = Inr (close_request.truncate c)"
        "is_timestamp (closedAt c)" "js_get (closeOperations s) (cl_operationId c) = Some k" unfolding closures_ok_def by blast+
      with none have "cl_operationId c \<noteq> cl_operationId r" by auto
      then have "js_get (closeOperations ?s) (cl_operationId c) = Some k" using o(5) by (simp add: f)
      with o(1-4) show ?thesis by blast
    qed
  next
    fix j k assume op: "js_get (closeOperations ?s) j = Some k"
    show "\<exists>c. js_get (authorityClosures ?s) k = Some c \<and> cl_operationId c = j"
    proof (cases "j = cl_operationId r")
      case True
      with op show ?thesis by (simp add: f)
    next
      case False
      with op have "js_get (closeOperations s) j = Some k" by (simp add: f)
      with i(2) obtain c where c: "js_get (authorityClosures s) k = Some c" "cl_operationId c = j" unfolding closures_ok_def by blast
      with none have "k \<noteq> authorityMapKey r" by auto
      with c show ?thesis by (simp add: f)
    qed
  qed
  moreover have "log_extends s ?s" using streams_ok_head [OF i(1)] by (auto simp: log_extends_def same)
  moreover have "map_grows (authorityClosures s) (authorityClosures ?s)" "map_grows (closeOperations s) (closeOperations ?s)"
    using none by (auto simp: map_grows_def f)
  moreover have "streams_ok ?s" using i(1) by (simp add: streams_ok_def same f)
  moreover have "authorities_ok ?s" using i(3) by (simp add: authorities_ok_def same f)
  ultimately show "event_inv ?s \<and> event_later s ?s" by (simp add: event_inv_def event_later_def f)
qed

lemma closeAuthority_advances:
  assumes "\<And>u. event_advances u (fst (now u))"
  shows "event_advances s (fst (closeAuthority now binding r s))"
proof (cases "closeAuthority now binding r s" rule: prod.exhaust)
  case (Pair s' out)
  obtain s1 reply where now: "now s = (s1, reply)" by fastforce
  then have adv: "event_advances s s1" using assms [of s] by simp
  have cap: "captureCloseRunAuthorityRequest r = Inr r' \<Longrightarrow> r' = r" for r' by (auto simp: captureCloseRunAuthorityRequest_def rbind_eq_Inr)
  have "s' \<in> {s, s1} \<or> (\<exists>t. captureCloseRunAuthorityRequest r = Inr r \<and> workRetirement r = None \<and> is_timestamp t \<and>
    readExisting r (canonical (close_request_json r)) s1 = Inr None \<and> s' = record_closure r (new_closure r t) s1)"
    using Pair now cap unfolding closeAuthority_def commit_def
    by (auto simp: Let_def split: sum.splits option.splits)
  with adv record_closure_advances show ?thesis by (auto simp: Pair intro: event_advances_trans)
qed

section \<open>Runs\<close>

inductive event_run :: "event_store \<Rightarrow> event_store \<Rightarrow> bool" where
  start: "event_run s s"
| purging: "event_run s t \<Longrightarrow> event_run s (fst (purgeTerminalRuns k q t))"
| appending: "event_run s t \<Longrightarrow> (\<And>u. event_run u (fst (newId u))) \<Longrightarrow> (\<And>u. event_run u (fst (now u))) \<Longrightarrow>
    event_run s (fst (append_to_stream newId now k x c e t))"
| closing: "event_run s t \<Longrightarrow> (\<And>u. event_run u (fst (now u))) \<Longrightarrow> event_run s (fst (closeAuthority now binding r t))"

lemma event_run_advances: "event_run s s' \<Longrightarrow> event_advances s s'"
proof (induction rule: event_run.induct)
  case (appending s t newId now k x c e)
  then show ?case using append_advances event_advances_trans by blast
next
  case (closing s t now binding r)
  then show ?case using closeAuthority_advances event_advances_trans by blast
qed (auto intro: event_advances_trans event_purge_advances)

lemma event_run_trans: "event_run t u \<Longrightarrow> event_run s t \<Longrightarrow> event_run s u"
  by (induction rule: event_run.induct) (auto intro: event_run.intros)

definition events_reachable :: "event_store \<Rightarrow> bool" where
  "events_reachable s \<longleftrightarrow> event_run empty_event_store s"

lemma events_reachable_inv: "events_reachable s \<Longrightarrow> event_inv s"
  using event_run_advances empty_event_store_inv unfolding events_reachable_def event_advances_def by blast

lemma events_reachable_run: "events_reachable s \<Longrightarrow> event_run s t \<Longrightarrow> event_inv t \<and> event_later s t \<and> events_reachable t"
  using event_run_advances events_reachable_inv event_run_trans unfolding events_reachable_def event_advances_def by blast

end
