(* ===== verification/Event_Samples.thy ===== *)
theory Event_Samples
  imports Event_Run Samples
begin

text \<open>A concrete event store for the witnesses: one run, queued under an authority and completed.\<close>

definition event_key :: stream_key where
  "event_key = \<lparr>sessionId = js ''s'', actorId = js ''a''\<rparr>"

definition event_coordinate :: run_coordinate where
  "event_coordinate = \<lparr>sessionId = js ''s'', actorId = js ''a'', runId = js ''r'', turn = js ''0''\<rparr>"

definition run_scope :: run_admission_authority where
  "run_scope = \<lparr>scope = js ''c'', scope_generation = js ''1''\<rparr>"

definition fixed :: "js_string \<Rightarrow> event_callback" where
  "fixed x s = (s, Inr x)"

definition queue_data :: event_data where
  "queue_data = RunQueued (js ''k'') digest_a (Some run_scope)"

definition stream_text :: js_string where
  "stream_text = streamMapKey event_key"

definition run_text :: js_string where
  "run_text = runMapKey event_coordinate"

definition queue_event :: canonical_event where
  "queue_event = new_event (js ''k'') t0 1 event_coordinate queue_data"

definition done_event :: canonical_event where
  "done_event = new_event (js ''k'') t0 2 event_coordinate (RunCompleted RunDone)"

definition queued_store :: event_store where
  "queued_store = \<lparr>streams = [(stream_text, [queue_event])], revisions = [(stream_text, 1)], authorityClosures = [],
     closeOperations = [], runAuthorities = [(run_text, run_scope)]\<rparr>"

definition done_store :: event_store where
  "done_store = queued_store\<lparr>streams := [(stream_text, [queue_event, done_event])], revisions := [(stream_text, 2)]\<rparr>"

lemma digest_sha [simp]: "is_sha256 digest_a"
  by (simp add: is_sha256_def digest_a_def is_hex_unit_def list_all_iff)

lemma sample_admission [simp]:
  "assertEventStreamCoordinate event_key event_coordinate = Inr ()" "assertCanonicalEventData queue_data = Inr ()"
  "assertCanonicalEventData (RunCompleted st) = Inr ()" "assertCanonicalEventData TurnStarted = Inr ()"
  "assertCanonicalEventData (RunStarted (js ''k'')) = Inr ()" "validateStream event_key = Inr ()"
  by (simp_all add: assertEventStreamCoordinate_def event_key_def event_coordinate_def stream_key_ok_def run_coordinate_ok_def
    assertCanonicalEventData_def queue_data_def admission_authority_ok_def run_scope_def assertRunMetrics_def validateStream_def
    assertOpaqueIdentifier_def)

lemma fixed_runs: "event_run u (fst (fixed x u))"
  unfolding fixed_def fst_conv by (rule event_run.start)

lemma sample_queue:
  "append_to_stream (fixed (js ''k'')) (fixed t0) event_key (js ''empty'') event_coordinate queue_data empty_event_store =
     (queued_store, Inr queue_event)"
proof -
  have "check_admission event_coordinate queue_data empty_event_store = Inr ()"
    by (simp add: check_admission_def queue_data_def empty_event_store_def assertAuthorityOpen_def js_has_def)
  then show ?thesis
    by (simp add: append_to_stream_def fixed_def append_checked_def stream_revision_def empty_event_store_def append_event_def
      events_of_def js_set_def Let_def queue_event_def queued_store_def stream_text_def run_text_def)
      (simp add: queue_data_def assertOpaqueIdentifier_def assertCanonicalTimestamp_def js_set_def)
qed

lemma sample_done:
  "append_to_stream (fixed (js ''k'')) (fixed t0) event_key (js ''1'') event_coordinate (RunCompleted RunDone) queued_store =
     (done_store, Inr done_event)"
  by (simp add: append_to_stream_def fixed_def append_checked_def stream_revision_def check_admission_def append_event_def
    events_of_def js_set_def js_get_def Let_def done_event_def done_store_def queued_store_def stream_text_def to_decimal_1
    assertOpaqueIdentifier_def assertCanonicalTimestamp_def numeral_2_eq_2)

lemma appended_run: "append_to_stream (fixed i) (fixed at) k x c e s = (t, r) \<Longrightarrow> event_run s t"
  using event_run.appending [OF event_run.start fixed_runs [where x = i] fixed_runs [where x = at], of s k x c e] by simp

lemma reachable_step: "events_reachable s \<Longrightarrow> event_run s t \<Longrightarrow> events_reachable t"
  unfolding events_reachable_def by (rule event_run_trans)

lemma no_events_reachable: "events_reachable empty_event_store"
  unfolding events_reachable_def by (rule event_run.start)

lemma queued_reachable: "events_reachable queued_store"
  by (rule reachable_step [OF no_events_reachable appended_run [OF sample_queue]])

lemma done_reachable: "events_reachable done_store"
  by (rule reachable_step [OF queued_reachable appended_run [OF sample_done]])

section \<open>Closing\<close>

definition sample_close :: close_request where
  "sample_close = \<lparr>sessionId = js ''s'', actorId = js ''a'', key_authority = run_scope, cl_operationId = js ''k'',
     goalRetirement = None, workRetirement = None\<rparr>"

definition closed_store :: event_store where
  "closed_store = record_closure sample_close (new_closure sample_close t0) queued_store"

lemma sample_close_ok [simp]: "captureCloseRunAuthorityRequest sample_close = Inr sample_close"
  by (simp add: captureCloseRunAuthorityRequest_def captureRunAuthorityKey_def captureRunAdmissionAuthority_def sample_close_def
    run_authority_key_ok_def stream_key_ok_def admission_authority_ok_def run_scope_def close_request_ok_def discard_def)

lemma sample_close_fields [simp]: "workRetirement sample_close = None" "goalRetirement sample_close = None"
  by (simp_all add: sample_close_def)

lemma sample_closes: "closeAuthority (fixed t0) None sample_close queued_store = (closed_store, Inr (new_closure sample_close t0))"
  by (simp add: closeAuthority_def readExisting_def queued_store_def fixed_def Let_def retire_goal_def closed_store_def record_closure_def
    assertCanonicalTimestamp_def)

lemma closed_run: "closeAuthority (fixed at) b r s = (t, out) \<Longrightarrow> event_run s t"
  using event_run.closing [OF event_run.start fixed_runs [where x = at], of s b r] by simp

lemma closed_reachable: "events_reachable closed_store"
  by (rule reachable_step [OF queued_reachable closed_run [OF sample_closes]])

end
