(* ===== verification/Event_Spec.thy ===== *)
theory Event_Spec
  imports Event_Samples
begin

text \<open>
  What the event store promises: contiguous revisions, one successful append per expected revision, closed
  authorities that stay closed and fence their runs, pages that chain, and purges of complete runs.
\<close>

section \<open>Appends as compare-and-set\<close>

text \<open>The revision a caller expects, as a number: an empty stream is at revision 0.\<close>

definition expected_number :: "js_string \<Rightarrow> nat" where
  "expected_number x = (if x = js ''empty'' then 0 else of_decimal x)"

type_synonym append_command = "js_string \<times> run_coordinate \<times> event_data \<times> js_string \<times> js_string"

fun append_update :: "stream_key \<Rightarrow> append_command \<Rightarrow> event_store \<Rightarrow> event_store option" where
  "append_update k (x, c, e, i, at) s = (case append_checked k x c e i at s of (s', Inr ev) \<Rightarrow> Some s' | (s', Inl err) \<Rightarrow> None)"

lemma decimal_not_empty: "to_decimal n \<noteq> js ''empty''"
proof
  assume "to_decimal n = js ''empty''"
  then have "list_all is_digit (js ''empty'')" by (metis list_all_to_decimal)
  then show False by (simp add: js_def is_digit_def)
qed

lemma expected_stream_revision [simp]: "expected_number (stream_revision k s) = head_at (streamMapKey k) s"
  by (auto simp: expected_number_def stream_revision_def head_at_def decimal_not_empty split: option.splits)

lemma append_update_Some:
  assumes "append_update k cmd s = Some s'"
  shows "head_at (streamMapKey k) s = expected_number (fst cmd) \<and> head_at (streamMapKey k) s' = head_at (streamMapKey k) s + 1"
proof (cases cmd)
  case (fields x c e i at)
  with assms obtain ev where "append_checked k x c e i at s = (s', Inr ev)" by (auto split: prod.splits sum.splits)
  then show ?thesis using fields by (cases rule: append_checked_cases) (auto simp: append_event_fields)
qed

interpretation event_cas: revision_cas "append_update k" "\<lambda>cmd. expected_number (fst cmd)" "head_at (streamMapKey k)" for k
  by unfold_locales (use append_update_Some in fastforce)+

section \<open>Helpers\<close>

definition runs_store :: "event_callback \<Rightarrow> bool" where
  "runs_store f \<longleftrightarrow> (\<forall>u. event_run u (fst (f u)))"

lemma run_head_mono: "event_inv s \<Longrightarrow> event_run s t \<Longrightarrow> head_at k s \<le> head_at k t"
  using event_run_advances unfolding event_advances_def event_later_def log_extends_def by blast

lemma closeAuthority_succeeds:
  assumes "closeAuthority now binding r s = (s', Inr c)"
  shows "captureCloseRunAuthorityRequest r = Inr r \<and> workRetirement r = None \<and>
    js_get (authorityClosures s') (authorityMapKey r) = Some c \<and> close_request.truncate c = r"
proof -
  have cap: "captureCloseRunAuthorityRequest r = Inr r' \<Longrightarrow> r' = r" for r' by (auto simp: captureCloseRunAuthorityRequest_def rbind_eq_Inr)
  obtain s1 reply where now: "now s = (s1, reply)" by fastforce
  have ok: "captureCloseRunAuthorityRequest r = Inr r" "workRetirement r = None"
    using assms cap by (auto simp: closeAuthority_def commit_eq_Inr)
  consider "readExisting r (canonical (close_request_json r)) s = Inr (Some c)" "s' = s"
    | "readExisting r (canonical (close_request_json r)) s1 = Inr (Some c)" "s' = s1"
    | t where "c = new_closure r t" "s' = record_closure r (new_closure r t) s1"
    using assms ok now by (auto simp: closeAuthority_def commit_eq_Inr Let_def split: option.splits)
  then show ?thesis
  proof cases
    case 3
    then show ?thesis using ok by (simp add: record_closure_def)
  qed (use ok readExisting_Some in blast)+
qed

definition later_events :: "nat \<Rightarrow> stream_key \<Rightarrow> event_store \<Rightarrow> canonical_event list" where
  "later_events n k s = filter (\<lambda>e. n < revision_of e) (events_of k s)"

definition read_start :: "read_request \<Rightarrow> nat" where
  "read_start q = of_decimal (case afterRevision q of None \<Rightarrow> js ''0'' | Some r \<Rightarrow> r)"

lemma filter_beyond: "sorted_wrt (<) (map f xs) \<Longrightarrow> n < length xs \<Longrightarrow> filter (\<lambda>x. f (xs ! n) < f x) xs = drop (Suc n) xs"
  for f :: "'a \<Rightarrow> nat"
proof (induction xs arbitrary: n)
  case (Cons x xs)
  show ?case
  proof (cases n)
    case 0
    then show ?thesis using Cons.prems by (auto intro: filter_True)
  next
    case (Suc k)
    then have "\<not> f (xs ! k) < f x" using Cons.prems by (auto simp: not_less intro!: less_imp_le)
    with Suc Cons show ?thesis by simp
  qed
qed simp

text \<open>The state of a run as a machine that reads its events in order: how it ended, whether it is deferred, and its last
  assistant text.\<close>

datatype run_end = Running | Ended run_status

record run_view =
  ended :: run_end
  deferred :: "js_string option"
  latest_text :: "js_string option"

definition run_start :: run_view where
  "run_start = \<lparr>ended = Running, deferred = None, latest_text = None\<rparr>"

definition run_step :: "canonical_event \<Rightarrow> run_view \<Rightarrow> run_view" where
  "run_step e v =
     (case ev_data e of
        RunCompleted st \<Rightarrow> v\<lparr>ended := Ended st\<rparr>
      | RunSuspended p \<Rightarrow> v\<lparr>deferred := Some p\<rparr>
      | RunResumed p \<Rightarrow> v\<lparr>deferred := None\<rparr>
      | ItemCompleted i \<Rightarrow> (case canonicalAssistantText i of None \<Rightarrow> v | Some t \<Rightarrow> v\<lparr>latest_text := Some t\<rparr>)
      | _ \<Rightarrow> v)"

fun view_status :: "run_view \<Rightarrow> stored_status" where
  "view_status v =
     (case ended v of
        Ended RunDone \<Rightarrow> StoredCompleted (latest_text v) | Ended RunAborted \<Rightarrow> StoredAborted | Ended RunFailed \<Rightarrow> StoredFailed
      | Running \<Rightarrow> (case deferred v of None \<Rightarrow> StoredActive | Some p \<Rightarrow> StoredDeferred p))"

definition end_in :: "canonical_event list \<Rightarrow> run_end" where
  "end_in es = (case find run_completed (List.rev es) of
     Some e \<Rightarrow> (case ev_data e of RunCompleted st \<Rightarrow> Ended st | _ \<Rightarrow> Running) | None \<Rightarrow> Running)"

definition deferral_in :: "canonical_event list \<Rightarrow> js_string option" where
  "deferral_in es = (case find run_deferral (List.rev es) of
     Some e \<Rightarrow> (case ev_data e of RunSuspended p \<Rightarrow> Some p | _ \<Rightarrow> None) | None \<Rightarrow> None)"

lemma run_fold: "fold run_step es run_start = \<lparr>ended = end_in es, deferred = deferral_in es, latest_text = last_text es\<rparr>"
proof (induction es rule: rev_induct)
  case Nil
  show ?case by (simp add: run_start_def end_in_def deferral_in_def last_text_def)
next
  case (snoc e es)
  show ?case
  proof (cases "ev_data e")
    case (ItemCompleted i)
    then show ?thesis using snoc
      by (cases "canonicalAssistantText i") (simp_all add: run_step_def end_in_def deferral_in_def last_text_def run_completed_def
        run_deferral_def completed_text_def)
  qed (use snoc in \<open>simp_all add: run_step_def end_in_def deferral_in_def last_text_def run_completed_def
        run_deferral_def completed_text_def\<close>)
qed

lemma status_of_run_fold: "status_of_run es = view_status (fold run_step es run_start)"
proof (cases "find run_completed (List.rev es)")
  case (Some e)
  then have "run_completed e" by (auto simp: find_Some_iff)
  then obtain st where "ev_data e = RunCompleted st" by (cases "ev_data e") (simp_all add: run_completed_def)
  with Some show ?thesis by (cases st) (simp_all add: status_of_run_def run_fold end_in_def)
next
  case None
  show ?thesis
  proof (cases "find run_deferral (List.rev es)")
    case (Some e)
    then have "run_deferral e" by (auto simp: find_Some_iff)
    then show ?thesis using None Some
      by (cases "ev_data e") (simp_all add: status_of_run_def run_fold end_in_def deferral_in_def run_deferral_def)
  qed (use None in \<open>simp add: status_of_run_def run_fold end_in_def deferral_in_def\<close>)
qed

section \<open>Properties\<close>

text \<open>C36: the events of every stream pass \<open>assertCanonicalEvent\<close>, belong to the stream, and carry consecutive
  revisions, equal to their sequence numbers, up to the stream's current revision.\<close>

theorem event_streams_contiguous:
  assumes "events_reachable s"
  shows "list_all (\<lambda>e. assertCanonicalEvent e = Inr () \<and> streamMapKey (ev_coordinate e) = streamMapKey k \<and> sequence e = ev_revision e)
      (events_of k s) \<and>
    map ev_revision (events_of k s) = map to_decimal
      [head_at (streamMapKey k) s + 1 - length (events_of k s) ..< head_at (streamMapKey k) s + 1] \<and>
    length (events_of k s) \<le> head_at (streamMapKey k) s"
proof -
  have ok: "list_all (event_wf (streamMapKey k)) (events_of k s)" "length (events_of k s) \<le> head_at (streamMapKey k) s"
    "map revision_of (events_of k s) = [head_at (streamMapKey k) s + 1 - length (events_of k s) ..< head_at (streamMapKey k) s + 1]"
    using events_reachable_inv [OF assms] unfolding event_inv_def streams_ok_def events_of_at by blast+
  have "map ev_revision (events_of k s) = map to_decimal (map revision_of (events_of k s))"
    using ok(1) by (auto simp: list_all_iff event_wf_def)
  moreover have "list_all (\<lambda>e. assertCanonicalEvent e = Inr () \<and> streamMapKey (ev_coordinate e) = streamMapKey k \<and> sequence e = ev_revision e) (events_of k s)"
    using ok(1) by (auto simp: list_all_iff event_wf_def)
  ultimately show ?thesis using ok(2,3) by metis
qed

theorem event_streams_contiguous_witness:
  "map ev_revision (events_of event_key done_store) = [js ''1'', js ''2''] \<and> assertCanonicalEvent done_event = Inr ()"
proof -
  have ev: "events_of event_key done_store = [queue_event, done_event]" "head_at (streamMapKey event_key) done_store = 2"
    by (simp_all add: events_of_def head_at_def done_store_def js_get_def stream_text_def)
  have "[1..<3] = [1, Suc 1]" by (simp add: upt_rec)
  then show ?thesis
    using event_streams_contiguous [OF done_reachable, of event_key] by (simp add: ev to_decimal_1 del: upt_Suc)
qed

text \<open>C13: an append succeeds only at the revision it expects, and no two appends to a stream that expect the same
  revision succeed, whatever ran in between, also when their clocks and identifier sources call back
  into the store.\<close>

theorem appends_serialize:
  assumes "events_reachable s" and "runs_store newId" and "runs_store now" and "append_to_stream newId now k x c e s = (s', Inr ev)"
    and "event_run s' t" and "runs_store newId'" and "runs_store now'"
  shows "revision_of ev = expected_number x + 1 \<and> (\<exists>err. snd (append_to_stream newId' now' k x c' e' t) = Inl err)"
proof -
  obtain i at s1 s2 where a: "newId s = (s1, Inr i)" "now s1 = (s2, Inr at)" "append_checked k x c e i at s2 = (s', Inr ev)"
    by (rule append_succeeds [OF assms(4)])
  have upd: "append_update k (x, c, e, i, at) s2 = Some s'" using a(3) by simp
  have rev: "revision_of ev = expected_number x + 1"
    using a(3) append_update_Some [OF upd] by (cases rule: append_checked_cases) auto
  have run: "event_run s s'" using event_run.appending [OF event_run.start, of newId now s k x c e] assms(2-4) by (simp add: runs_store_def)
  have inv: "event_inv s'" "event_inv t"
    using events_reachable_run [OF assms(1) run] events_reachable_run [OF _ assms(5)] by blast+
  have "\<exists>err. out = Inl err" if "append_to_stream newId' now' k x c' e' t = (t', out)" for t' out
  proof (cases out)
    case (Inr ev')
    with that obtain i' at' t1 t2 where b: "newId' t = (t1, Inr i')" "now' t1 = (t2, Inr at')" "append_checked k x c' e' i' at' t2 = (t', Inr ev')"
      by (metis append_succeeds)
    have "event_run t t1" "event_run t1 t2" using assms(6,7) b(1,2) unfolding runs_store_def by (metis fst_conv)+
    then have "head_at (streamMapKey k) s' \<le> head_at (streamMapKey k) t2"
      using run_head_mono [OF inv(1) event_run_trans [OF event_run_trans assms(5)]] by blast
    from event_cas.no_second_update [OF upd, of "(x, c', e', i', at')", OF _ this] b(3) show ?thesis by simp
  qed simp
  then show ?thesis using rev by (metis prod.collapse)
qed

theorem appends_serialize_witness:
  "revision_of queue_event = 1 \<and>
   (\<exists>err. snd (append_to_stream (fixed (js ''a'')) (fixed t1) event_key (js ''empty'') event_coordinate TurnStarted queued_store) = Inl err)"
proof -
  have "runs_store (fixed x)" for x unfolding runs_store_def using fixed_runs by blast
  with appends_serialize [OF no_events_reachable _ _ sample_queue event_run.start, of "fixed (js ''a'')" "fixed t1" event_coordinate TurnStarted]
  show ?thesis by (simp add: expected_number_def)
qed

text \<open>C14: closing a run authority is final: the closure stays as it is, and no event admitted after it queues a
  run under the closed authority, or starts or resumes a run that was admitted under it.\<close>

theorem closed_authority_fences:
  assumes "events_reachable s" and "js_get (authorityClosures s) (authorityMapKey (authority_key y a)) = Some cl" and "event_run s t"
    and "e \<in> set (events_of k t)" and "head_at (streamMapKey k) s < revision_of e"
  shows "js_get (authorityClosures t) (authorityMapKey (authority_key y a)) = Some cl \<and>
    (same_stream (ev_coordinate e) y \<longrightarrow>
      (\<forall>i f. ev_data e \<noteq> RunQueued i f (Some a)) \<and>
      (js_get (runAuthorities s) (runMapKey (ev_coordinate e)) = Some a \<longrightarrow>
        (\<forall>i. ev_data e \<noteq> RunStarted i \<and> ev_data e \<noteq> RunResumed i)))"
proof -
  have later: "event_later s t" using events_reachable_run [OF assms(1,3)] by blast
  have "admitted s (ev_coordinate e) (ev_data e)"
    using later assms(4,5) unfolding event_later_def log_extends_def events_of_at by force
  moreover have "closed (ev_coordinate e) a s" if "same_stream (ev_coordinate e) y"
    using assms(2) that by (simp add: closed_def js_has_def authorityMapKey_def authority_key_def same_stream_def)
  moreover have "js_get (authorityClosures t) (authorityMapKey (authority_key y a)) = Some cl"
    using later assms(2) by (simp add: event_later_def map_grows_def)
  ultimately show ?thesis by (auto simp: admitted_def)
qed

theorem closed_authority_fences_witness:
  "\<exists>t ev. append_to_stream (fixed (js ''k'')) (fixed t1) event_key (js ''1'') event_coordinate TurnStarted closed_store = (t, Inr ev) \<and>
     js_get (authorityClosures t) (authorityMapKey (authority_key event_key run_scope)) = Some (new_closure sample_close t0) \<and>
     ev_data ev \<noteq> RunStarted (js ''k'')"
proof -
  let ?ev = "new_event (js ''k'') t1 2 event_coordinate TurnStarted"
  let ?t = "append_event event_key ?ev 2 closed_store"
  have app: "append_to_stream (fixed (js ''k'')) (fixed t1) event_key (js ''1'') event_coordinate TurnStarted closed_store = (?t, Inr ?ev)"
    by (simp add: append_to_stream_def fixed_def append_checked_def stream_revision_def check_admission_def js_get_def Let_def
      closed_store_def record_closure_def queued_store_def stream_text_def to_decimal_1 assertOpaqueIdentifier_def
      assertCanonicalTimestamp_def numeral_2_eq_2)
  have at: "js_get (authorityClosures closed_store) (authorityMapKey (authority_key event_key run_scope)) = Some (new_closure sample_close t0)"
    by (simp add: closed_store_def record_closure_def authorityMapKey_def authority_key_def event_key_def sample_close_def)
  have head: "head_at (streamMapKey event_key) closed_store = 1"
    by (simp add: head_at_def closed_store_def record_closure_def queued_store_def js_get_def stream_text_def)
  have "?ev \<in> set (events_of event_key ?t)" by (simp add: events_of_at append_event_fields)
  from closed_authority_fences [OF closed_reachable at appended_run [OF app] this] head app show ?thesis by auto
qed

text \<open>A close request is idempotent: after it succeeded, in every later state the same request returns the same
  closure without changing the store or asking the clock, and another request for the same authority, or
  under the same operation identifier, fails without changing the store.\<close>

theorem close_authority_idempotent:
  assumes "events_reachable s" and "runs_store now" and "closeAuthority now binding r s = (s', Inr c)" and "event_run s' t"
  shows "closeAuthority now' binding' r t = (t, Inr c) \<and>
    (r' \<noteq> r \<and> (authorityMapKey r' = authorityMapKey r \<or> cl_operationId r' = cl_operationId r) \<longrightarrow>
      (\<exists>err. closeAuthority now' binding' r' t = (t, Inl err)))"
proof -
  note c = closeAuthority_succeeds [OF assms(3)]
  have run: "event_run s s'" using event_run.closing [OF event_run.start, of now s binding r] assms(2,3) by (simp add: runs_store_def)
  have reach: "events_reachable s'" using events_reachable_run [OF assms(1) run] by blast
  have inv: "event_inv t" and later: "event_later s' t" using events_reachable_run [OF reach assms(4)] by blast+
  have at: "js_get (authorityClosures t) (authorityMapKey r) = Some c" using c later by (simp add: event_later_def map_grows_def)
  have cl: "cl_operationId c = cl_operationId r" using c by (metis close_request.select_convs(1) close_request.truncate_def)
  then have op: "js_get (closeOperations t) (cl_operationId r) = Some (authorityMapKey r)"
    using inv at unfolding event_inv_def closures_ok_def by metis
  have "readExisting r (canonical (close_request_json r)) t = Inr (Some c)"
    using at op c by (simp add: readExisting_def)
  then have "closeAuthority now' binding' r t = (t, Inr c)" using c by (simp add: closeAuthority_def)
  moreover have "\<exists>err. closeAuthority now' binding' r' t = (t, Inl err)"
    if r': "r' \<noteq> r" "authorityMapKey r' = authorityMapKey r \<or> cl_operationId r' = cl_operationId r"
  proof -
    have cap: "captureCloseRunAuthorityRequest r' = Inr r'' \<Longrightarrow> r'' = r'" for r''
      by (auto simp: captureCloseRunAuthorityRequest_def rbind_eq_Inr)
    have "\<exists>err. readExisting r' (canonical (close_request_json r')) t = Inl err"
    proof (cases "readExisting r' (canonical (close_request_json r')) t")
      case (Inr x)
      have "x \<noteq> None"
      proof
        assume "x = None"
        with Inr readExisting_None [of t r'] inv at op r'(2) show False by (auto simp: event_inv_def)
      qed
      then obtain d where d: "x = Some d" by (cases x) simp_all
      note ex = readExisting_Some [OF Inr [unfolded d]]
      have "authorityMapKey r' = authorityMapKey r"
        using r'(2) op Inr by (auto simp: readExisting_def rbind_eq_Inr)
      with ex at c r'(1) show ?thesis by auto
    qed simp
    then obtain err where err: "readExisting r' (canonical (close_request_json r')) t = Inl err" by blast
    show ?thesis
    proof (cases "captureCloseRunAuthorityRequest r'")
      case (Inr r'')
      with cap err show ?thesis by (cases "workRetirement r' = None") (auto simp: closeAuthority_def)
    qed (simp add: closeAuthority_def)
  qed
  ultimately show ?thesis by blast
qed

theorem close_authority_idempotent_witness:
  "closeAuthority (fixed t1) None sample_close closed_store = (closed_store, Inr (new_closure sample_close t0)) \<and>
   (\<exists>err. closeAuthority (fixed t1) None (sample_close\<lparr>cl_operationId := js ''a''\<rparr>) closed_store = (closed_store, Inl err))"
proof -
  have "runs_store (fixed t0)" unfolding runs_store_def using fixed_runs by blast
  moreover have "sample_close\<lparr>cl_operationId := js ''a''\<rparr> \<noteq> sample_close" by (simp add: sample_close_def)
  moreover have "authorityMapKey (sample_close\<lparr>cl_operationId := js ''a''\<rparr>) = authorityMapKey sample_close" by (simp add: authorityMapKey_def)
  ultimately show ?thesis
    using close_authority_idempotent [OF queued_reachable _ sample_closes event_run.start] by blast
qed

text \<open>The pages of a stream chain: a page followed by what comes after its cursor gives every event after the
  requested revision once, in order; a page says there is more exactly when there is.\<close>

theorem event_pages_chain:
  assumes "events_reachable s" and "read_events k q s = Inr pg"
  shows "later_events (read_start q) k s = page_events pg @ later_events (of_decimal (cursor pg)) k s \<and>
    (hasMore pg \<longleftrightarrow> later_events (of_decimal (cursor pg)) k s \<noteq> []) \<and> int (length (page_events pg)) \<le> rd_limit q"
proof -
  let ?es = "later_events (read_start q) k s" and ?n = "nat (rd_limit q)"
  have "streams_ok s" using events_reachable_inv [OF assms(1)] by (simp add: event_inv_def)
  then have "map revision_of (events_of k s) = [head_at (streamMapKey k) s + 1 - length (events_of k s) ..< head_at (streamMapKey k) s + 1]"
    unfolding streams_ok_def events_of_at by blast
  then have "sorted_wrt (<) (map revision_of (events_of k s))" by (metis sorted_wrt_upt)
  then have sorted: "sorted_wrt (<) (map revision_of ?es)" by (simp add: later_events_def sorted_wrt_map sorted_wrt_filter)
  have n: "0 < rd_limit q" and pg: "page_events pg = take ?n (take (nat (rd_limit q + 1)) ?es)"
    "cursor pg = (if take ?n (take (nat (rd_limit q + 1)) ?es) = [] then (case afterRevision q of None \<Rightarrow> js ''0'' | Some r \<Rightarrow> r)
       else ev_revision (last (take ?n (take (nat (rd_limit q + 1)) ?es))))"
    "hasMore pg \<longleftrightarrow> rd_limit q < int (length (take (nat (rd_limit q + 1)) ?es))"
    using assms(2) by (auto simp: read_events_def rbind_eq_Inr parseRevision_def Let_def later_events_def read_start_def assertEventReadLimit_def)
  have two: "take ?n (take (nat (rd_limit q + 1)) ?es) = take ?n ?es" using n by (simp add: min_def)
  have more: "hasMore pg \<longleftrightarrow> ?n < length ?es" using pg(3) n by auto
  have rest: "later_events (of_decimal (cursor pg)) k s = drop ?n ?es"
  proof (cases "take ?n ?es = []")
    case True
    then have "?es = []" using n by auto
    moreover have "of_decimal (cursor pg) = read_start q" using True by (simp add: pg(2) two read_start_def)
    ultimately show ?thesis by simp
  next
    case False
    define l where "l = last (take ?n ?es)"
    let ?m = "min (length ?es) ?n - 1"
    have "0 < length ?es" using False by auto
    then have lt: "?m < length ?es" by (auto simp: min_def)
    have l: "l = ?es ! ?m" using False n last_conv_nth [OF False] by (auto simp: l_def)
    have "l \<in> set ?es" unfolding l by (rule nth_mem [OF lt])
    then have "read_start q < revision_of l" by (simp add: later_events_def)
    moreover have "of_decimal (cursor pg) = revision_of l" using False by (simp add: pg(2) two l_def revision_of_def)
    ultimately have "later_events (of_decimal (cursor pg)) k s = filter (\<lambda>e. revision_of l < revision_of e) ?es"
      by (auto simp: later_events_def intro!: filter_cong)
    also have "\<dots> = drop (Suc ?m) ?es" unfolding l by (rule filter_beyond [OF sorted lt])
    also have "\<dots> = drop ?n ?es" using lt n by (simp add: min_def split: if_splits)
    finally show ?thesis .
  qed
  show ?thesis using more rest n by (auto simp: pg(1) two min_def)
qed

theorem event_pages_chain_witness:
  "later_events 0 event_key done_store = [queue_event] @ later_events 1 event_key done_store"
proof -
  let ?q = "\<lparr>afterRevision = None, rd_limit = 1\<rparr>"
  have ev: "events_of event_key done_store = [queue_event, done_event]"
    by (simp add: events_of_def done_store_def js_get_def stream_text_def)
  have rev: "revision_of queue_event = 1" "revision_of done_event = 2" "ev_revision queue_event = js ''1''"
    by (simp_all add: queue_event_def done_event_def) (simp add: new_event_def to_decimal_1)
  have "read_events event_key ?q done_store = Inr \<lparr>page_events = [queue_event], cursor = js ''1'', hasMore = True\<rparr>"
    by (simp add: read_events_def ev rev parseRevision_def assertEventReadLimit_def is_safe_integer_def max_safe_integer_def Let_def)
  from event_pages_chain [OF done_reachable this] show ?thesis by (simp add: read_start_def)
qed

text \<open>C37: a purge removes the longest prefix, within its limit, whose runs are all unretained and completed before the
  cutoff, and only when none of these runs goes on behind it; the stream keeps its revision, the other
  streams their events.\<close>

theorem purge_removes_complete_runs:
  assumes "purgeTerminalRuns k q s = (s', Inr r)"
  shows "events_of k s' = drop (purgedEventCount r) (events_of k s) \<and>
    purgeable q (take (nat (pg_limit q)) (events_of k s)) (purgedEventCount r) \<and>
    (\<forall>m. purgeable q (take (nat (pg_limit q)) (events_of k s)) m \<longrightarrow> m \<le> purgedEventCount r) \<and>
    set (purgedRunIds r) = runs_of (take (purgedEventCount r) (events_of k s)) \<and>
    set (purgedRunIds r) \<inter> runs_of (events_of k s') = {} \<and>
    revisions s' = revisions s \<and> (\<forall>k'. streamMapKey k' \<noteq> streamMapKey k \<longrightarrow> events_of k' s' = events_of (k' :: stream_key) s)"
  using assms
proof (cases rule: purge_cases)
  case (purged n ids)
  let ?es = "take (nat (pg_limit q)) (events_of k s)"
  have r: "purgedEventCount r = n" "purgedRunIds r = ids"
    using purged(3) by (simp_all add: stream_bounds.defs event_purge_result.defs)
  have ok: "purgeable q ?es n" "set ids = runs_of (take n ?es)"
    using terminalPrefix_ok [of q ?es] by (simp_all add: purged(1) scan_ok_def)
  have ev: "events_of k s' = drop n (events_of k s)" by (simp add: purged(2) events_of_at dropped_fields)
  have "n \<le> nat (pg_limit q)" using ok(1) by (simp add: purgeable_def)
  then have "take n ?es = take n (events_of k s)" by (simp add: min_def)
  moreover have "set ids \<inter> runs_of (drop n (events_of k s)) = {}" using purged(4) ok(2) by auto
  moreover have "m \<le> n" if "purgeable q ?es m" for m using terminalPrefix_max [OF that] by (simp add: purged(1))
  ultimately show ?thesis using ok by (simp add: r ev purged(2) events_of_at dropped_fields)
qed simp

theorem purge_removes_complete_runs_witness:
  "\<exists>s' r. purgeTerminalRuns event_key \<lparr>beforeOccurredAt = t1, pg_limit = 9, retainRunIds = [],
       retainBudget = \<lparr>maxCount = 0, maxRetainedBytes = 0\<rparr>\<rparr> done_store = (s', Inr r) \<and> purgedEventCount r = 2 \<and> events_of event_key s' = []"
proof -
  let ?q = "\<lparr>beforeOccurredAt = t1, pg_limit = 9, retainRunIds = [], retainBudget = \<lparr>maxCount = 0, maxRetainedBytes = 0\<rparr>\<rparr>"
  have ev: "events_of event_key done_store = [queue_event, done_event]"
    by (simp add: events_of_def done_store_def js_get_def stream_text_def)
  have "\<not> t1 \<le> t0" using sample_order(1) by (metis not_le)
  then have scan: "terminalPrefix [queue_event, done_event] ?q = (2, [js ''r''])"
    by (simp add: terminalPrefix_def queue_event_def done_event_def run_completed_def queue_data_def event_coordinate_def add_id_def Let_def)
  have "captureRetainedIdentifiers [] \<lparr>maxCount = 0, maxRetainedBytes = 0\<rparr> = Inr []"
    by (simp add: captureRetainedIdentifiers_Inr is_safe_integer_def max_safe_integer_def)
  then have "capturePurgeRequest ?q = Inr ?q"
    by (simp add: capturePurgeRequest_def assertEventReadLimit_def is_safe_integer_def max_safe_integer_def
      assertCanonicalTimestamp_def discard_def)
  then have "\<exists>s' r. purgeTerminalRuns event_key ?q done_store = (s', Inr r) \<and> purgedEventCount r = 2"
    by (simp add: purgeTerminalRuns_def ev scan stream_bounds.defs event_purge_result.defs Let_def)
  then obtain s' r where r: "purgeTerminalRuns event_key ?q done_store = (s', Inr r)" "purgedEventCount r = 2" by blast
  with purge_removes_complete_runs [OF r(1)] show ?thesis by (simp add: ev)
qed

text \<open>Reading a run back gives what a machine that steps through the run's events in order arrives at: the searches
  from the end of \<open>readRun\<close> find the last terminal event, the last deferral and the last
  assistant text; an input that was never queued, or was purged, has no record.\<close>

theorem read_run_follows_events:
  assumes "events_reachable s" and "validateStream k = Inr ()" and "is_opaque_identifier i"
  shows "case find (is_admission i) (events_of k s) of
      None \<Rightarrow> readRun k i s = Inr None
    | Some adm \<Rightarrow> \<exists>rec. readRun k i s = Inr (Some rec) \<and> inputId rec = i \<and> initialCoordinate rec = ev_coordinate adm \<and>
        Suc (of_decimal (eventCursor rec)) = revision_of adm \<and>
        run_record_status rec = view_status (fold run_step
          (filter (\<lambda>e. runId (ev_coordinate e) = runId (ev_coordinate adm)) (events_of k s)) run_start)"
proof (cases "find (is_admission i) (events_of k s)")
  case None
  then show ?thesis using assms(2,3) by (simp add: readRun_def assertOpaqueIdentifier_def)
next
  case (Some adm)
  then have mem: "adm \<in> set (events_of k s)" by (auto simp: find_Some_iff)
  have ok: "streams_ok s" using events_reachable_inv [OF assms(1)] by (simp add: event_inv_def)
  then have pos: "0 < revision_of adm" using streams_ok_head mem unfolding events_of_at by blast
  have "is_decimal (ev_revision adm)" using ok mem unfolding streams_ok_def events_of_at list_all_iff event_wf_def
    by (metis is_decimal_to_decimal)
  then show ?thesis using Some assms(2,3) pos
    by (simp add: readRun_def Let_def parseRevision_def status_of_run_fold revision_of_def assertOpaqueIdentifier_def)
qed

theorem read_run_follows_events_witness:
  "\<exists>rec. readRun event_key (js ''k'') done_store = Inr (Some rec) \<and> run_record_status rec = StoredCompleted None"
proof -
  have ev: "events_of event_key done_store = [queue_event, done_event]"
    by (simp add: events_of_def done_store_def js_get_def stream_text_def)
  have adm: "is_admission (js ''k'') queue_event" by (simp add: is_admission_def queue_event_def queue_data_def)
  have "ev_coordinate queue_event = event_coordinate" "ev_coordinate done_event = event_coordinate"
    by (simp_all add: queue_event_def done_event_def)
  moreover have "view_status (fold run_step [queue_event, done_event] run_start) = StoredCompleted None"
    by (simp add: run_step_def queue_event_def done_event_def queue_data_def run_start_def)
  ultimately show ?thesis
    using read_run_follows_events [OF done_reachable, of event_key "js ''k''"] by (auto simp: ev adm)
qed

end
