(* ===== verification/Run_Fence.thy ===== *)
theory Run_Fence
  imports Action_Delivery Event_Spec
begin

text \<open>
  The action journal and the event store together: the journal asks the event store, through
  \<open>assertRunAuthorityOpenSynchronously\<close>, whether the run of an action is still open, so closing the
  authority of a run in the event store stops the journal from dispatching the run's actions.
\<close>

definition event_authority :: "event_store \<Rightarrow> run_coordinate \<Rightarrow> authority_reply" where
  "event_authority s c = (case assertRunAuthorityOpenSynchronously c s of Inr _ \<Rightarrow> ReturnedUndefined | Inl e \<Rightarrow> Threw e)"

lemma open_run:
  assumes "env_authority env = Some (event_authority t)" and "isRunOpen env r = Inr True"
  shows "assertRunAuthorityOpenSynchronously (coordinate r) t = Inr ()"
proof (cases "assertRunAuthorityOpenSynchronously (coordinate r) t")
  case (Inl e)
  with assms show ?thesis
    by (auto simp: isRunOpen_def isActionRunAuthorityOpen_def assertRunAuthorityOpen_def event_authority_def split: if_splits)
qed simp

lemma dispatched_open:
  assumes "env_authority env = Some (event_authority t)" and "nextDelivery env q j = (j', Inr sel)" and "delivery sel = Some (Dispatch, r)"
  shows "assertRunAuthorityOpenSynchronously (coordinate r) t = Inr ()"
proof -
  obtain s1 s2 rep chg p where p: "claims env q rep s2 p r j'" by (rule nextDelivery_dispatch [OF assms(2,3)])
  then obtain u where r: "r = tr_record u" and open_p: "isRunOpen env p = Inr True"
    and u: "(if operationId p \<in> set rep then reclaimActionRecord p q else claimActionRecord p q) = Inr u"
    by (auto simp: claims_def)
  have "dispatch_step p r" using u r Claim Reclaim by (auto split: if_splits)
  then have "same_intent p r" by (rule dispatch_step_intent)
  then have "coordinate p = coordinate r" by (simp add: same_intentD)
  with open_run [OF assms(1) open_p] show ?thesis by simp
qed

text \<open>C9: once the authority a run was admitted under is closed in the event store, a journal that asks this store
  never dispatches an action of the run, whatever both did since.\<close>

theorem closed_run_never_dispatched:
  assumes "events_reachable s" and "js_get (runAuthorities s) (runMapKey c) = Some a" and "closed c a s" and "event_run s t"
    and "env_authority env = Some (event_authority t)"
  shows "\<not> (nextDelivery env q j = (j', Inr sel) \<and> delivery sel = Some (Dispatch, r) \<and> same_stream (coordinate r) c \<and>
    runId (coordinate r) = runId c)"
proof
  assume d: "nextDelivery env q j = (j', Inr sel) \<and> delivery sel = Some (Dispatch, r) \<and> same_stream (coordinate r) c \<and>
    runId (coordinate r) = runId c"
  then have ok: "assertRunAuthorityOpenSynchronously (coordinate r) t = Inr ()" using dispatched_open [OF assms(5)] by blast
  have later: "event_later s t" using events_reachable_run [OF assms(1,4)] by blast
  have key: "runMapKey (coordinate r) = runMapKey c" using d by (simp add: runMapKey_def same_stream_def)
  have "js_get (runAuthorities t) (runMapKey (coordinate r)) = Some a"
    using later assms(2) unfolding key by (simp add: event_later_def map_grows_def)
  moreover have "closed (coordinate r) a t"
    using closed_mono [of s t c a] later assms(3) d
    by (simp add: event_later_def closed_def authorityMapKey_def authority_key_def same_stream_def)
  ultimately show False using ok by (auto simp: assertRunAuthorityOpenSynchronously_def rbind_eq_Inr assertAuthorityOpen_Inr)
qed

theorem closed_run_never_dispatched_witness:
  "\<not> (nextDelivery (sample_env\<lparr>env_authority := Some (event_authority closed_store)\<rparr>) sample_request (sample_journal Safe) =
      (sample_journal2 Safe, Inr \<lparr>delivery = Some (Dispatch, sample_claimed Safe), changed = True\<rparr>))"
proof -
  have "js_get (runAuthorities closed_store) (runMapKey event_coordinate) = Some run_scope"
    by (simp add: closed_store_def record_closure_def queued_store_def js_get_def run_text_def)
  moreover have "closed event_coordinate run_scope closed_store"
    by (simp add: closed_def closed_store_def record_closure_def js_has_def authorityMapKey_def authority_key_def
      event_coordinate_def sample_close_def js_map_simps)
  moreover have "same_stream (coordinate (sample_claimed Safe)) event_coordinate"
    "runId (coordinate (sample_claimed Safe)) = runId event_coordinate"
    by (simp_all add: same_stream_def event_coordinate_def sample_claimed_def sample_defs)
  ultimately show ?thesis
    using closed_run_never_dispatched [OF closed_reachable _ _ event_run.start, of event_coordinate run_scope
        "sample_env\<lparr>env_authority := Some (event_authority closed_store)\<rparr>" sample_request "sample_journal Safe" "sample_journal2 Safe"
        "\<lparr>delivery = Some (Dispatch, sample_claimed Safe), changed = True\<rparr>" "sample_claimed Safe"]
    by simp
qed

end
