(* ===== verification/Goal.thy ===== *)
theory Goal
  imports Run_Authority Machine Js_Map
begin

text \<open>
  packages/extensions/src/goal-types.ts and goal-validation.ts: the goals an actor pursues, each with a plan of steps
  and the evidence that completed them, and the checks on everything a goal store or service is given.
\<close>

section \<open>Data\<close>

record goal_key = authority_partition +
  gk_goalId :: js_string

datatype goal_status = Active | Paused | Achieved | Failed | Cancelled

datatype step_status = StepPending | StepInProgress | StepCompleted

record goal_evidence =
  evidenceKind :: js_string
  referenceId :: js_string

record plan_step =
  stepId :: js_string
  description :: js_string
  stepStatus :: step_status
  evidence :: "goal_evidence list"

record goal_draft =
  goalId :: js_string
  goalPartition :: authority_partition
  objective :: js_string
  plan :: "plan_step list"
  goalTime :: game_time
  goalRecordedAt :: js_string

record goal_record =
  r_goalId :: js_string
  r_partition :: authority_partition
  r_objective :: js_string
  r_plan :: "plan_step list"
  r_gameTime :: game_time
  goalKey :: nat
  r_revision :: js_string
  r_status :: goal_status
  createdGameTime :: game_time
  r_createdAt :: js_string
  r_updatedAt :: js_string
  lastHostAdvanceFingerprint :: "js_string option"

record goal_replacement =
  x_plan :: "plan_step list"
  x_status :: goal_status
  x_gameTime :: game_time
  x_recordedAt :: js_string
  x_fingerprint :: "js_string option"

record goal_list_request = authority_partition +
  statuses :: "goal_status list option"
  afterGoalKey :: "int option"
  gl_limit :: int

record goal_page =
  goal_records :: "goal_record list"
  nextAfterGoalKey :: "nat option"

record goal_limits =
  maxObjectiveBytes :: int
  maxStepsPerGoal :: int
  maxStepBytes :: int
  maxPlanBytes :: int
  maxRecordBytes :: int
  maxModelResultBytes :: int
  maxEvidencePerStep :: int
  maxEvidenceKindBytes :: int
  maxEvidenceReferenceBytes :: int
  maxOpenGoalsPerOwnerGeneration :: int
  maxListPageSize :: int
  maxPurgeBatchSize :: int

text \<open>The draft of a retirement is the goal retirement of a closing request.\<close>

record goal_retirement_record = goal_retirement +
  cancelledGoalCount :: nat

section \<open>Bounded texts\<close>

definition evidence_json :: "goal_evidence \<Rightarrow> json" where
  "evidence_json e = JObj [(js ''kind'', JStr (evidenceKind e)), (js ''referenceId'', JStr (referenceId e))]"

fun step_status_name :: "step_status \<Rightarrow> js_string" where
  "step_status_name StepPending = js ''pending''"
| "step_status_name StepInProgress = js ''in_progress''"
| "step_status_name StepCompleted = js ''completed''"

fun goal_status_name :: "goal_status \<Rightarrow> js_string" where
  "goal_status_name Active = js ''active''"
| "goal_status_name Paused = js ''paused''"
| "goal_status_name Achieved = js ''achieved''"
| "goal_status_name Failed = js ''failed''"
| "goal_status_name Cancelled = js ''cancelled''"

definition step_json :: "plan_step \<Rightarrow> json" where
  "step_json st = JObj [(js ''stepId'', JStr (stepId st)), (js ''description'', JStr (description st)),
     (js ''status'', JStr (step_status_name (stepStatus st))), (js ''evidence'', JArr (map evidence_json (evidence st)))]"

definition plan_json :: "plan_step list \<Rightarrow> json" where
  "plan_json p = JArr (map step_json p)"

definition goal_record_json :: "goal_record \<Rightarrow> json" where
  "goal_record_json r = JObj [(js ''goalId'', JStr (r_goalId r)), (js ''partition'', authority_partition_json (r_partition r)),
     (js ''objective'', JStr (r_objective r)), (js ''plan'', plan_json (r_plan r)), (js ''gameTime'', game_time_json (r_gameTime r)),
     (js ''goalKey'', JStr (to_decimal (goalKey r))), (js ''revision'', JStr (r_revision r)),
     (js ''status'', JStr (goal_status_name (r_status r))), (js ''createdGameTime'', game_time_json (createdGameTime r)),
     (js ''createdAt'', JStr (r_createdAt r)), (js ''updatedAt'', JStr (r_updatedAt r)),
     (js ''lastHostAdvanceFingerprint'', opt_or_null JStr (lastHostAdvanceFingerprint r))]"

definition model_result_json :: "js_string \<Rightarrow> js_string \<Rightarrow> goal_status \<Rightarrow> js_string \<Rightarrow> plan_step list \<Rightarrow> json" where
  "model_result_json i n st obj p = JObj [(js ''goalId'', JStr i), (js ''revision'', JStr n),
     (js ''status'', JStr (goal_status_name st)), (js ''objective'', JStr obj), (js ''plan'', plan_json p)]"

definition serializeBoundedGoalJson :: "json \<Rightarrow> int \<Rightarrow> int \<Rightarrow> string \<Rightarrow> js_string result" where
  "serializeBoundedGoalJson j mb md code =
     (case canonicalizeJsonValueWithin (of_json j) \<lparr>maxDepth = md, maxBytes = mb\<rparr> of
        Inl e \<Rightarrow> Inl (if e = JsonTooLarge then GoalValidation code else e) | Inr t \<Rightarrow> Inr t)"

definition serializeGoalPlan :: "plan_step list \<Rightarrow> goal_limits \<Rightarrow> js_string result" where
  "serializeGoalPlan p l = serializeBoundedGoalJson (plan_json p) (maxPlanBytes l) 5 ''goal_plan_too_large''"

definition serializeGoalRecord :: "goal_record \<Rightarrow> goal_limits \<Rightarrow> js_string result" where
  "serializeGoalRecord r l = serializeBoundedGoalJson (goal_record_json r) (maxRecordBytes l) 6 ''goal_record_too_large''"

definition serializeGoalModelResult ::
  "js_string \<Rightarrow> js_string \<Rightarrow> goal_status \<Rightarrow> js_string \<Rightarrow> plan_step list \<Rightarrow> goal_limits \<Rightarrow> js_string result" where
  "serializeGoalModelResult i n st obj p l =
     serializeBoundedGoalJson (model_result_json i n st obj p) (maxModelResultBytes l) 6 ''goal_model_result_too_large''"

definition not_found_result :: js_string where
  "not_found_result = serializeCanonicalJsonValue (JObj [(js ''found'', JBool False)])"

definition serializeGoalNotFoundResult :: "goal_limits \<Rightarrow> js_string result" where
  "serializeGoalNotFoundResult l =
     (if maxModelResultBytes l < int (utf8_length not_found_result) then Inl (GoalValidation ''goal_model_result_too_large'')
      else Inr not_found_result)"

section \<open>Validation\<close>

definition goal_limit :: "string \<Rightarrow> int \<Rightarrow> unit result" where
  "goal_limit name n =
     ensure (is_safe_integer n \<and> 1 \<le> n \<and> n < max_safe_integer) (GoalValidation (''invalid_limit:'' @ name))"

definition captureGoalLimits :: "goal_limits \<Rightarrow> goal_limits result" where
  "captureGoalLimits l =
     rbind (checks [goal_limit ''maxObjectiveBytes'' (maxObjectiveBytes l), goal_limit ''maxStepsPerGoal'' (maxStepsPerGoal l),
       goal_limit ''maxStepBytes'' (maxStepBytes l), goal_limit ''maxPlanBytes'' (maxPlanBytes l),
       goal_limit ''maxRecordBytes'' (maxRecordBytes l), goal_limit ''maxModelResultBytes'' (maxModelResultBytes l),
       goal_limit ''maxEvidencePerStep'' (maxEvidencePerStep l), goal_limit ''maxEvidenceKindBytes'' (maxEvidenceKindBytes l),
       goal_limit ''maxEvidenceReferenceBytes'' (maxEvidenceReferenceBytes l),
       goal_limit ''maxOpenGoalsPerOwnerGeneration'' (maxOpenGoalsPerOwnerGeneration l),
       goal_limit ''maxListPageSize'' (maxListPageSize l), goal_limit ''maxPurgeBatchSize'' (maxPurgeBatchSize l),
       ensure (int (utf8_length not_found_result) \<le> maxModelResultBytes l) (GoalValidation ''invalid_limit:maxModelResultBytes'')])
     (\<lambda>_. Inr l)"

definition goal_decimal :: "js_string \<Rightarrow> string \<Rightarrow> unit result" where
  "goal_decimal s name = ensure (is_decimal s) (GoalValidation (''invalid_goal_'' @ name))"

definition goal_bytes :: "js_string \<Rightarrow> int \<Rightarrow> string \<Rightarrow> unit result" where
  "goal_bytes s maximum code =
     ensure (1 \<le> utf8_length s \<and> int (utf8_length s) \<le> maximum) (GoalValidation code)"

definition validateObjective :: "js_string \<Rightarrow> goal_limits \<Rightarrow> unit result" where
  "validateObjective s l = goal_bytes s (maxObjectiveBytes l) ''invalid_goal_objective_bytes''"

definition validateGoalTimestamp :: "js_string \<Rightarrow> unit result" where
  "validateGoalTimestamp t = ensure (is_timestamp t) (GoalValidation ''invalid_goal_timestamp'')"

definition validateGoalRevision :: "js_string \<Rightarrow> unit result" where
  "validateGoalRevision r = goal_decimal r ''revision''"

definition validateGoalPageLimit :: "int \<Rightarrow> int \<Rightarrow> string \<Rightarrow> unit result" where
  "validateGoalPageLimit n maximum code = ensure (is_safe_integer n \<and> 1 \<le> n \<and> n \<le> maximum) (GoalValidation code)"

definition validateGoalAfterKey :: "int option \<Rightarrow> unit result" where
  "validateGoalAfterKey c = when_some c (\<lambda>n. ensure (0 \<le> n) (GoalValidation ''invalid_goal_cursor''))"

definition validateGoalHostAdvanceFingerprint :: "js_string option \<Rightarrow> unit result" where
  "validateGoalHostAdvanceFingerprint f =
     when_some f (\<lambda>s. ensure (is_sha256 s) (GoalValidation ''invalid_goal_host_advance_fingerprint''))"

text \<open>A normalised partition or key is a copy of the fields the source names.\<close>

definition normalizeGoalPartition :: "'a authority_partition_scheme \<Rightarrow> authority_partition result" where
  "normalizeGoalPartition p =
     rbind (checks [assertOpaqueIdentifier (pt_ownerId p), assertOpaqueIdentifier (pt_timelineId p),
       goal_decimal (pt_generation p) ''generation'', when_some (pt_sessionId p) assertOpaqueIdentifier,
       when_some (pt_actorId p) assertOpaqueIdentifier]) (\<lambda>_. Inr (authority_partition.truncate p))"

definition normalizeGoalKey :: "goal_key \<Rightarrow> goal_key result" where
  "normalizeGoalKey k =
     rbind (normalizeGoalPartition k) (\<lambda>_. rbind (assertOpaqueIdentifier (gk_goalId k)) (\<lambda>_. Inr k))"

definition normalizeGoalTime :: "game_time \<Rightarrow> authority_partition \<Rightarrow> game_time result" where
  "normalizeGoalTime t p =
     rbind (checks [assertGameTime t, ensure (gt_timelineId t = pt_timelineId p \<and> gt_generation t = pt_generation p)
       (GoalValidation ''goal_time_partition_mismatch'')]) (\<lambda>_. Inr t)"

fun normalize_evidence :: "goal_limits \<Rightarrow> js_string list \<Rightarrow> goal_evidence list \<Rightarrow> unit result" where
  "normalize_evidence l unique [] = Inr ()"
| "normalize_evidence l unique (e # es) =
     (let key = evidenceKind e @ 0 # referenceId e in
      rbind (checks [assertOpaqueIdentifier (evidenceKind e), assertOpaqueIdentifier (referenceId e),
        goal_bytes (evidenceKind e) (maxEvidenceKindBytes l) ''invalid_goal_evidence_kind_bytes'',
        goal_bytes (referenceId e) (maxEvidenceReferenceBytes l) ''invalid_goal_evidence_reference_bytes'',
        ensure (key \<notin> set unique) (GoalValidation ''duplicate_goal_evidence'')]) (\<lambda>_.
      normalize_evidence l (key # unique) es))"

definition normalizeGoalEvidenceList :: "goal_evidence list \<Rightarrow> goal_limits \<Rightarrow> goal_evidence list result" where
  "normalizeGoalEvidenceList es l = rbind (normalize_evidence l [] es) (\<lambda>_. Inr es)"

definition normalizeGoalEvidence :: "goal_evidence \<Rightarrow> goal_limits \<Rightarrow> goal_evidence result" where
  "normalizeGoalEvidence e l = rbind (normalizeGoalEvidenceList [e] l) (\<lambda>es. Inr (hd es))"

fun normalize_steps :: "goal_limits \<Rightarrow> js_string list \<Rightarrow> plan_step list \<Rightarrow> unit result" where
  "normalize_steps l stepIds [] = Inr ()"
| "normalize_steps l stepIds (st # sts) =
     rbind (checks [assertOpaqueIdentifier (stepId st),
       ensure (stepId st \<notin> set stepIds) (GoalValidation ''duplicate_goal_step''),
       goal_bytes (description st) (maxStepBytes l) ''invalid_goal_step_bytes'',
       ensure (int (length (evidence st)) \<le> maxEvidencePerStep l) (GoalValidation ''too_many_goal_evidence_items''),
       discard (normalizeGoalEvidenceList (evidence st) l),
       ensure (\<not> (stepStatus st \<noteq> StepCompleted \<and> 0 < length (evidence st))) (GoalValidation ''evidence_on_incomplete_step'')])
     (\<lambda>_. normalize_steps l (stepId st # stepIds) sts)"

text \<open>The phase of the loop is the status of the last step that was not completed.\<close>

fun plan_shape :: "step_status \<Rightarrow> plan_step list \<Rightarrow> unit result" where
  "plan_shape ph [] = Inr ()"
| "plan_shape ph (st # sts) =
     (case stepStatus st of
        StepCompleted \<Rightarrow>
          if ph \<noteq> StepCompleted then Inl (GoalValidation ''invalid_goal_plan_order'') else plan_shape ph sts
      | StepInProgress \<Rightarrow>
          if ph \<noteq> StepCompleted then Inl (GoalValidation ''invalid_goal_plan_order'') else plan_shape StepInProgress sts
      | StepPending \<Rightarrow> plan_shape StepPending sts)"

definition validatePlanShape :: "plan_step list \<Rightarrow> unit result" where
  "validatePlanShape p = plan_shape StepCompleted p"

definition normalizeGoalPlan :: "plan_step list \<Rightarrow> goal_limits \<Rightarrow> plan_step list result" where
  "normalizeGoalPlan p l =
     rbind (checks [ensure (int (length p) \<le> maxStepsPerGoal l) (GoalValidation ''too_many_goal_steps''),
       normalize_steps l [] p, validatePlanShape p, discard (serializeGoalPlan p l)]) (\<lambda>_. Inr p)"

definition normalizeGoalDraft :: "goal_draft \<Rightarrow> goal_limits \<Rightarrow> goal_draft result" where
  "normalizeGoalDraft d l =
     rbind (normalizeGoalPartition (goalPartition d)) (\<lambda>p.
     rbind (checks [assertOpaqueIdentifier (goalId d), validateObjective (objective d) l]) (\<lambda>_.
     rbind (normalizeGoalPlan (plan d) l) (\<lambda>steps.
     rbind (ensure (\<not> list_ex (\<lambda>st. stepStatus st = StepCompleted) steps) (GoalValidation ''completed_step_in_new_goal'')) (\<lambda>_.
     rbind (normalizeGoalTime (goalTime d) p) (\<lambda>t.
     rbind (validateGoalTimestamp (goalRecordedAt d)) (\<lambda>_.
     Inr \<lparr>goalId = goalId d, goalPartition = p, objective = objective d, plan = steps, goalTime = t,
          goalRecordedAt = goalRecordedAt d\<rparr>))))))"

definition normalizeGoalReplacement :: "goal_replacement \<Rightarrow> goal_key \<Rightarrow> goal_limits \<Rightarrow> goal_replacement result" where
  "normalizeGoalReplacement x k l =
     rbind (normalizeGoalPartition k) (\<lambda>p.
     rbind (normalizeGoalPlan (x_plan x) l) (\<lambda>steps.
     rbind (normalizeGoalTime (x_gameTime x) p) (\<lambda>t.
     rbind (checks [validateGoalTimestamp (x_recordedAt x), validateGoalHostAdvanceFingerprint (x_fingerprint x)]) (\<lambda>_.
     Inr \<lparr>x_plan = steps, x_status = x_status x, x_gameTime = t, x_recordedAt = x_recordedAt x, x_fingerprint = x_fingerprint x\<rparr>))))"

definition normalizeGoalAuthorityRetirement :: "goal_retirement \<Rightarrow> goal_retirement result" where
  "normalizeGoalAuthorityRetirement d =
     rbind (normalizeGoalPartition (gr_partition d)) (\<lambda>p.
     rbind (normalizeGoalTime (gr_gameTime d) p) (\<lambda>t.
     rbind (checks [assertOpaqueIdentifier (gr_retirementId d), validateGoalRevision (gr_stateRevision d),
       validateGoalTimestamp (gr_recordedAt d)]) (\<lambda>_.
     Inr \<lparr>gr_retirementId = gr_retirementId d, gr_stateRevision = gr_stateRevision d, gr_partition = p, gr_gameTime = t,
          gr_recordedAt = gr_recordedAt d\<rparr>)))"

definition normalizeGoalStatusFilter :: "goal_status list option \<Rightarrow> goal_status list option result" where
  "normalizeGoalStatusFilter values =
     (case values of
        None \<Rightarrow> Inr None
      | Some vs \<Rightarrow>
          rbind (ensure (vs \<noteq> []) (GoalValidation ''empty_goal_status_filter'')) (\<lambda>_.
          let normalized = sort_key goal_status_name vs in
          rbind (ensure (card (set normalized) = length normalized) (GoalValidation ''duplicate_goal_status_filter'')) (\<lambda>_.
          Inr (Some normalized))))"

definition compareGoalTicks :: "js_string \<Rightarrow> js_string \<Rightarrow> int result" where
  "compareGoalTicks left right =
     rbind (checks [goal_decimal left ''tick'', goal_decimal right ''tick'']) (\<lambda>_.
     Inr (if length left \<noteq> length right then (if length left < length right then - 1 else 1)
          else if left = right then 0 else if left < right then - 1 else 1))"

end
