(* ===== verification/Goal_Store.thy ===== *)
theory Goal_Store
  imports Goal
begin

text \<open>
  The class InMemoryGoalStore of packages/extensions/src/in-memory-goal-store.ts. Every operation runs without
  awaiting, so it is a function from the store to the store it leaves and its result; an operation that
  takes an abort signal takes whether it has aborted.
\<close>

record goal_store =
  goals :: "(js_string, goal_record) js_map"
  goalRetirements :: "(js_string, goal_retirement_record) js_map"
  nextGoalKey :: nat

definition empty_goal_store :: goal_store where
  "empty_goal_store = \<lparr>goals = [], goalRetirements = [], nextGoalKey = 1\<rparr>"

section \<open>Keys and comparisons\<close>

text \<open>The source joins the parts with the NUL character.\<close>

definition mapKey :: "'a authority_partition_scheme \<Rightarrow> js_string \<Rightarrow> js_string" where
  "mapKey p i = pt_ownerId p @ 0 # pt_timelineId p @ 0 # pt_generation p @ 0 # i"

definition or_empty :: "js_string option \<Rightarrow> js_string" where
  "or_empty x = (case x of None \<Rightarrow> [] | Some s \<Rightarrow> s)"

definition partitionKey :: "'a authority_partition_scheme \<Rightarrow> js_string" where
  "partitionKey p = pt_ownerId p @ 0 # pt_timelineId p @ 0 # pt_generation p @ 0 # or_empty (pt_sessionId p) @ 0 # or_empty (pt_actorId p)"

definition sameOwnerGeneration :: "'a authority_partition_scheme \<Rightarrow> 'b authority_partition_scheme \<Rightarrow> bool" where
  "sameOwnerGeneration a b \<longleftrightarrow> pt_ownerId a = pt_ownerId b \<and> pt_timelineId a = pt_timelineId b \<and> pt_generation a = pt_generation b"

definition samePartition :: "'a authority_partition_scheme \<Rightarrow> 'b authority_partition_scheme \<Rightarrow> bool" where
  "samePartition a b \<longleftrightarrow> pt_ownerId a = pt_ownerId b \<and> pt_timelineId a = pt_timelineId b \<and> pt_generation a = pt_generation b \<and>
     pt_sessionId a = pt_sessionId b \<and> pt_actorId a = pt_actorId b"

definition isOpen :: "goal_record \<Rightarrow> bool" where
  "isOpen r \<longleftrightarrow> r_status r = Active \<or> r_status r = Paused"

definition sameRetirement :: "goal_retirement_record \<Rightarrow> goal_retirement \<Rightarrow> bool" where
  "sameRetirement a b \<longleftrightarrow> gr_retirementId a = gr_retirementId b \<and> gr_stateRevision a = gr_stateRevision b \<and>
     samePartition (gr_partition a) (gr_partition b) \<and> gt_timelineId (gr_gameTime a) = gt_timelineId (gr_gameTime b) \<and>
     gt_generation (gr_gameTime a) = gt_generation (gr_gameTime b) \<and> tick (gr_gameTime a) = tick (gr_gameTime b) \<and>
     gr_recordedAt a = gr_recordedAt b"

section \<open>Operations\<close>

definition throw_if_aborted :: "bool \<Rightarrow> unit result" where
  "throw_if_aborted aborted = ensure (\<not> aborted) Aborted"

definition new_goal :: "goal_draft \<Rightarrow> nat \<Rightarrow> goal_record" where
  "new_goal d n = \<lparr>r_goalId = goalId d, r_partition = goalPartition d, r_objective = objective d, r_plan = plan d,
     r_gameTime = goalTime d, goalKey = n, r_revision = js ''1'', r_status = Active, createdGameTime = goalTime d,
     r_createdAt = goalRecordedAt d, r_updatedAt = goalRecordedAt d, lastHostAdvanceFingerprint = None\<rparr>"

definition open_goals :: "'a authority_partition_scheme \<Rightarrow> goal_store \<Rightarrow> goal_record list" where
  "open_goals p s = filter (\<lambda>r. sameOwnerGeneration (r_partition r) p \<and> isOpen r) (js_values (goals s))"

definition create_goal :: "goal_limits \<Rightarrow> bool \<Rightarrow> goal_draft \<Rightarrow> int \<Rightarrow> goal_store \<Rightarrow> goal_store \<times> goal_record result" where
  "create_goal l aborted input maxOpenGoals s =
     commit s (normalizeGoalDraft input l) (\<lambda>draft.
     let key = mapKey (goalPartition draft) (goalId draft); r = new_goal draft (nextGoalKey s) in
     commit s (checks [validateGoalPageLimit maxOpenGoals (maxOpenGoalsPerOwnerGeneration l) ''invalid_goal_capacity'',
         throw_if_aborted aborted,
         ensure (\<not> js_has (goalRetirements s) (partitionKey (goalPartition draft))) GoalAuthorityRetired,
         ensure (\<not> js_has (goals s) key) GoalConflict,
         ensure (int (length (open_goals (goalPartition draft) s)) < maxOpenGoals) GoalCapacity,
         discard (serializeGoalPlan (r_plan r) l), discard (serializeGoalRecord r l)]) (\<lambda>_.
     (s\<lparr>nextGoalKey := nextGoalKey s + 1, goals := js_set key r (goals s)\<rparr>, Inr r)))"

definition cancelled_goal :: "goal_limits \<Rightarrow> goal_retirement \<Rightarrow> goal_record \<Rightarrow> goal_record result" where
  "cancelled_goal l d r =
     rbind (compareGoalTicks (tick (gr_gameTime d)) (tick (r_gameTime r))) (\<lambda>c.
     rbind (ensure (0 \<le> c) (GoalValidation ''goal_time_regression'')) (\<lambda>_.
     rbind (bigint_succ (r_revision r)) (\<lambda>n.
     let updated = r\<lparr>r_status := Cancelled, r_gameTime := gr_gameTime d, r_updatedAt := gr_recordedAt d, r_revision := n,
       lastHostAdvanceFingerprint := None\<rparr> in
     rbind (serializeGoalRecord updated l) (\<lambda>_. Inr updated))))"

definition retirement_entry :: "goal_limits \<Rightarrow> goal_retirement \<Rightarrow> js_string \<times> goal_record \<Rightarrow> (js_string \<times> goal_record) result" where
  "retirement_entry l d e = rbind (cancelled_goal l d (snd e)) (\<lambda>r. Inr (fst e, r))"

definition retireAuthoritySynchronously ::
  "goal_limits \<Rightarrow> bool \<Rightarrow> goal_retirement \<Rightarrow> goal_store \<Rightarrow> goal_store \<times> goal_retirement_record result" where
  "retireAuthoritySynchronously l aborted input s =
     commit s (normalizeGoalAuthorityRetirement input) (\<lambda>draft.
     commit s (throw_if_aborted aborted) (\<lambda>_.
     let key = partitionKey (gr_partition draft) in
     case js_get (goalRetirements s) key of
       Some existing \<Rightarrow> (s, if sameRetirement existing draft then Inr existing else Inl GoalAuthorityRetirementConflict)
     | None \<Rightarrow>
         let selected = filter (\<lambda>(k, r). samePartition (r_partition r) (gr_partition draft) \<and> isOpen r) (goals s) in
         commit s (ensure (int (length selected) \<le> maxOpenGoalsPerOwnerGeneration l) GoalCapacity) (\<lambda>_.
         commit s (map_checked (retirement_entry l draft) selected) (\<lambda>updates.
         let retirement = goal_retirement.extend draft (goal_retirement_record.fields (length updates)) in
         (s\<lparr>goals := fold (\<lambda>(k, r). js_set k r) updates (goals s),
            goalRetirements := js_set key retirement (goalRetirements s)\<rparr>, Inr retirement)))))"

definition get_goal :: "goal_key \<Rightarrow> goal_store \<Rightarrow> goal_record option result" where
  "get_goal k s =
     rbind (normalizeGoalKey k) (\<lambda>key.
     Inr (case js_get (goals s) (mapKey key (gk_goalId key)) of
            None \<Rightarrow> None | Some r \<Rightarrow> if samePartition (r_partition r) key then Some r else None))"

definition replaced_goal :: "goal_record \<Rightarrow> goal_replacement \<Rightarrow> js_string \<Rightarrow> goal_record" where
  "replaced_goal r x n = r\<lparr>r_plan := x_plan x, r_status := x_status x, r_gameTime := x_gameTime x,
     r_updatedAt := x_recordedAt x, r_revision := n, lastHostAdvanceFingerprint := x_fingerprint x\<rparr>"

definition replace_goal ::
  "goal_limits \<Rightarrow> goal_key \<Rightarrow> js_string \<Rightarrow> goal_replacement \<Rightarrow> goal_store \<Rightarrow> goal_store \<times> goal_record result" where
  "replace_goal l k expectedRevision input s =
     commit s (normalizeGoalKey k) (\<lambda>key.
     commit s (validateGoalRevision expectedRevision) (\<lambda>_.
     commit s (normalizeGoalReplacement input key l) (\<lambda>x.
     let storageKey = mapKey key (gk_goalId key) in
     commit s (ensure (\<not> js_has (goalRetirements s) (partitionKey key)) GoalAuthorityRetired) (\<lambda>_.
     case js_get (goals s) storageKey of
       None \<Rightarrow> (s, Inl GoalNotFound)
     | Some current \<Rightarrow>
         commit s (ensure (samePartition (r_partition current) key) GoalNotFound) (\<lambda>_.
         commit s (ensure (r_revision current = expectedRevision) GoalRevisionConflict) (\<lambda>_.
         commit s (bigint_succ (r_revision current)) (\<lambda>n.
         let updated = replaced_goal current x n in
         commit s (checks [discard (serializeGoalPlan (r_plan updated) l), discard (serializeGoalRecord updated l)]) (\<lambda>_.
         (s\<lparr>goals := js_set storageKey updated (goals s)\<rparr>, Inr updated)))))))))"

definition goal_listed :: "goal_list_request \<Rightarrow> goal_status list option \<Rightarrow> goal_record \<Rightarrow> bool" where
  "goal_listed q sts r \<longleftrightarrow> sameOwnerGeneration (r_partition r) q \<and>
     (pt_sessionId q = None \<or> pt_sessionId (r_partition r) = pt_sessionId q) \<and>
     (pt_actorId q = None \<or> pt_actorId (r_partition r) = pt_actorId q) \<and>
     (case sts of None \<Rightarrow> True | Some xs \<Rightarrow> r_status r \<in> set xs) \<and>
     (case afterGoalKey q of None \<Rightarrow> True | Some n \<Rightarrow> n < int (goalKey r))"

definition list_goals :: "goal_limits \<Rightarrow> goal_list_request \<Rightarrow> goal_store \<Rightarrow> goal_page result" where
  "list_goals l q s =
     rbind (normalizeGoalPartition q) (\<lambda>_.
     rbind (normalizeGoalStatusFilter (statuses q)) (\<lambda>sts.
     rbind (checks [validateGoalAfterKey (afterGoalKey q),
         validateGoalPageLimit (gl_limit q) (maxListPageSize l) ''invalid_goal_page_limit'']) (\<lambda>_.
     let matches = sort_key goalKey (filter (goal_listed q sts) (js_values (goals s)));
         selected = take (nat (gl_limit q)) matches in
     Inr \<lparr>goal_records = selected,
       nextAfterGoalKey = (if length selected < length matches
         then (if selected = [] then None else Some (goalKey (last selected))) else None)\<rparr>)))"

definition purge_goals ::
  "goal_limits \<Rightarrow> authority_partition \<Rightarrow> js_string \<Rightarrow> int \<Rightarrow> goal_store \<Rightarrow> goal_store \<times> nat list result" where
  "purge_goals l input beforeRecordedAt limit s =
     commit s (normalizeGoalPartition input) (\<lambda>p.
     commit s (checks [validateGoalTimestamp beforeRecordedAt,
         validateGoalPageLimit limit (maxPurgeBatchSize l) ''invalid_goal_purge_limit'']) (\<lambda>_.
     let candidates = take (nat limit) (sort_key (\<lambda>(k, r). goalKey r)
       (filter (\<lambda>(k, r). sameOwnerGeneration (r_partition r) p \<and> \<not> isOpen r \<and> r_updatedAt r < beforeRecordedAt) (goals s))) in
     (s\<lparr>goals := fold js_delete (map fst candidates) (goals s)\<rparr>, Inr (map (\<lambda>(k, r). goalKey r) candidates))))"

end
