(* ===== verification/Goal_Service.thy ===== *)
theory Goal_Service
  imports Goal_Store
begin

text \<open>
  The class GoalService of packages/extensions/src/goal-service.ts over the in-memory store. The service awaits
  the store and its two verifiers, and other calls may run meanwhile: \<open>while_waiting\<close> gives, for the n-th await of a
  call, what they make of the store. A read or a write of the store happens when it is called, before the await. The
  verifiers and the abort signal belong to the caller, so they are arguments as well.
\<close>

record goal_env =
  while_waiting :: "nat \<Rightarrow> goal_store \<Rightarrow> goal_store"
  aborted_at :: "nat \<Rightarrow> bool"
  committed_input :: "(authority_partition \<Rightarrow> js_string \<Rightarrow> bool result) option"
  evidence_accepted :: "goal_record \<Rightarrow> plan_step \<Rightarrow> goal_evidence \<Rightarrow> game_time \<Rightarrow> js_string option \<Rightarrow> bool result"

definition throwIfAborted :: "goal_env \<Rightarrow> nat \<Rightarrow> unit result" where
  "throwIfAborted env n = throw_if_aborted (aborted_at env n)"

record host_advance =
  h_goalId :: js_string
  h_stepId :: js_string
  h_inputId :: js_string
  h_expectedRevision :: js_string
  h_recordedAt :: js_string
  h_partition :: authority_partition
  h_gameTime :: game_time
  h_evidence :: goal_evidence

datatype host_status = Advanced | AlreadyAdvanced | RevisionConflict | PlanNotActive | InputNotCommitted | StepNotCurrent
  | StepAlreadyCompleted | EvidenceRejected

datatype host_result = HostGoalNotFound | HostResult host_status goal_record

section \<open>Comparisons and transitions\<close>

definition key_of :: "authority_partition \<Rightarrow> js_string \<Rightarrow> goal_key" where
  "key_of p i = authority_partition.extend p (goal_key.fields i)"

text \<open>\<open>stringify\<close> is \<open>JSON.stringify\<close>.\<close>

definition sameStep :: "plan_step \<Rightarrow> plan_step \<Rightarrow> bool" where
  "sameStep a b \<longleftrightarrow> stepId a = stepId b \<and> description a = description b \<and> stepStatus a = stepStatus b \<and>
     stringify (JArr (map evidence_json (evidence a))) = stringify (JArr (map evidence_json (evidence b)))"

definition samePlan :: "plan_step list \<Rightarrow> plan_step list \<Rightarrow> bool" where
  "samePlan a b \<longleftrightarrow> length a = length b \<and> list_all (\<lambda>(x, y). sameStep x y) (zip a b)"

definition isTerminal :: "goal_status \<Rightarrow> bool" where
  "isTerminal st \<longleftrightarrow> st = Achieved \<or> st = Failed \<or> st = Cancelled"

definition validateStatusTransition :: "goal_status \<Rightarrow> goal_status \<Rightarrow> plan_step list \<Rightarrow> unit result" where
  "validateStatusTransition current after steps =
     (if current = Active \<and> (after = Active \<or> after = Paused \<or> after = Failed \<or> after = Cancelled) then Inr ()
      else if current = Paused \<and> (after = Paused \<or> after = Active \<or> after = Cancelled) then Inr ()
      else if current = Active \<and> after = Achieved \<and> 0 < length steps \<and> list_all (\<lambda>st. stepStatus st = StepCompleted) steps
      then Inr ()
      else Inl (GoalValidation ''invalid_goal_status_transition''))"

definition hasExactEvidence :: "plan_step \<Rightarrow> goal_evidence \<Rightarrow> bool" where
  "hasExactEvidence st e \<longleftrightarrow> stepStatus st = StepCompleted \<and>
     (case evidence st of [x] \<Rightarrow> evidenceKind x = evidenceKind e \<and> referenceId x = referenceId e | _ \<Rightarrow> False)"

definition host_advance_json :: "host_advance \<Rightarrow> json" where
  "host_advance_json q = JObj [(js ''ownerId'', JStr (pt_ownerId (h_partition q))),
     (js ''timelineId'', JStr (pt_timelineId (h_partition q))), (js ''generation'', JStr (pt_generation (h_partition q))),
     (js ''sessionId'', opt_or_null JStr (pt_sessionId (h_partition q))), (js ''actorId'', opt_or_null JStr (pt_actorId (h_partition q))),
     (js ''goalId'', JStr (h_goalId q)), (js ''stepId'', JStr (h_stepId q)), (js ''inputId'', JStr (h_inputId q)),
     (js ''expectedRevision'', JStr (h_expectedRevision q)), (js ''evidence'', evidence_json (h_evidence q)),
     (js ''gameTime'', game_time_json (h_gameTime q)), (js ''recordedAt'', JStr (h_recordedAt q))]"

definition fingerprintHostAdvance :: "(js_string \<Rightarrow> js_string) \<Rightarrow> host_advance \<Rightarrow> js_string result" where
  "fingerprintHostAdvance sha q = rbind (canonicalizeJsonValue (of_json (host_advance_json q))) (\<lambda>t. Inr (sha t))"

text \<open>The expected revision is a checked decimal here, so \<open>BigInt\<close> does not throw on it.\<close>

definition isExactHostAdvanceReplay :: "goal_record \<Rightarrow> host_advance \<Rightarrow> js_string \<Rightarrow> bool" where
  "isExactHostAdvanceReplay r q print \<longleftrightarrow> lastHostAdvanceFingerprint r = Some print \<and>
     bigint_succ (h_expectedRevision q) = Inr (r_revision r) \<and> r_updatedAt r = h_recordedAt q \<and>
     gt_timelineId (r_gameTime r) = gt_timelineId (h_gameTime q) \<and> gt_generation (r_gameTime r) = gt_generation (h_gameTime q) \<and>
     tick (r_gameTime r) = tick (h_gameTime q) \<and>
     (case find (\<lambda>st. stepId st = h_stepId q) (r_plan r) of None \<Rightarrow> False | Some st \<Rightarrow> hasExactEvidence st (h_evidence q))"

definition validateNextModelResult :: "goal_limits \<Rightarrow> goal_record \<Rightarrow> goal_status \<Rightarrow> plan_step list \<Rightarrow> unit result" where
  "validateNextModelResult l current st steps =
     rbind (bigint_succ (r_revision current)) (\<lambda>n.
     discard (serializeGoalModelResult (r_goalId current) n st (r_objective current) steps l))"

section \<open>Advancing from the host\<close>

definition step_index :: "js_string \<Rightarrow> plan_step list \<Rightarrow> nat" where
  "step_index i steps = length (takeWhile (\<lambda>st. stepId st \<noteq> i) steps)"

definition advance_plan :: "nat \<Rightarrow> goal_evidence \<Rightarrow> plan_step list \<Rightarrow> plan_step list" where
  "advance_plan n e steps =
     map (\<lambda>(j, st). if j = n then st\<lparr>stepStatus := StepCompleted, evidence := [e]\<rparr>
                    else if j = n + 1 then st\<lparr>stepStatus := StepInProgress\<rparr> else st) (enumerate 0 steps)"

definition capture_advance :: "goal_limits \<Rightarrow> goal_env \<Rightarrow> host_advance \<Rightarrow> host_advance result" where
  "capture_advance l env q =
     rbind (checks [assertOpaqueIdentifier (h_goalId q), assertOpaqueIdentifier (h_stepId q), assertOpaqueIdentifier (h_inputId q),
         validateGoalRevision (h_expectedRevision q), validateGoalTimestamp (h_recordedAt q), throwIfAborted env 0]) (\<lambda>_.
     rbind (normalizeGoalPartition (h_partition q)) (\<lambda>p.
     rbind (normalizeGoalTime (h_gameTime q) p) (\<lambda>t.
     rbind (normalizeGoalEvidence (h_evidence q) l) (\<lambda>e.
     Inr (q\<lparr>h_partition := p, h_gameTime := t, h_evidence := e\<rparr>)))))"

text \<open>What is decided about the goal that was read, before anything is asked of the verifiers: an answer, or the
  step to complete.\<close>

definition judge_advance :: "goal_record \<Rightarrow> host_advance \<Rightarrow> js_string \<Rightarrow> (host_result + plan_step) result" where
  "judge_advance current q print =
     (if isExactHostAdvanceReplay current q print then Inr (Inl (HostResult AlreadyAdvanced current))
      else rbind (compareGoalTicks (tick (h_gameTime q)) (tick (r_gameTime current))) (\<lambda>c.
      rbind (ensure (0 \<le> c) (GoalValidation ''goal_time_regression'')) (\<lambda>_.
      let n = step_index (h_stepId q) (r_plan current) in
      if r_revision current \<noteq> h_expectedRevision q then Inr (Inl (HostResult RevisionConflict current))
      else if r_status current \<noteq> Active then Inr (Inl (HostResult PlanNotActive current))
      else if n < length (r_plan current) \<and> stepStatus (r_plan current ! n) = StepCompleted
      then Inr (Inl (HostResult StepAlreadyCompleted current))
      else if \<not> (n < length (r_plan current)) \<or> stepStatus (r_plan current ! n) \<noteq> StepInProgress
      then Inr (Inl (HostResult StepNotCurrent current))
      else Inr (Inr (r_plan current ! n)))))"

text \<open>The verifiers: whether the input was committed, then whether the evidence is accepted.\<close>

definition verify_advance ::
  "goal_env \<Rightarrow> goal_record \<Rightarrow> host_advance \<Rightarrow> plan_step \<Rightarrow> goal_store \<Rightarrow> goal_store \<times> host_status option result" where
  "verify_advance env current q st s =
     (case committed_input env of
        None \<Rightarrow> (s, Inr (Some InputNotCommitted))
      | Some validate \<Rightarrow>
          let s1 = while_waiting env 1 s in
          commit s1 (validate (h_partition q) (h_inputId q)) (\<lambda>committed.
          if \<not> committed then (s1, Inr (Some InputNotCommitted))
          else commit s1 (throwIfAborted env 2) (\<lambda>_.
          let s2 = while_waiting env 2 s1 in
          commit s2 (evidence_accepted env current st (h_evidence q) (h_gameTime q) (Some (h_inputId q))) (\<lambda>accepted.
          commit s2 (throwIfAborted env 3) (\<lambda>_.
          (s2, Inr (if accepted then None else Some EvidenceRejected)))))))"

definition advance_replacement :: "goal_record \<Rightarrow> host_advance \<Rightarrow> js_string \<Rightarrow> goal_replacement" where
  "advance_replacement current q print =
     (let n = step_index (h_stepId q) (r_plan current); steps = advance_plan n (h_evidence q) (r_plan current) in
      \<lparr>x_plan = steps, x_status = (if n + 1 = length steps then Achieved else r_status current), x_gameTime = h_gameTime q,
        x_recordedAt = h_recordedAt q, x_fingerprint = Some print\<rparr>)"

text \<open>The write, and what a conflict on the revision turns into after a second read.\<close>

definition commit_advance ::
  "goal_limits \<Rightarrow> goal_env \<Rightarrow> goal_record \<Rightarrow> host_advance \<Rightarrow> js_string \<Rightarrow> goal_store \<Rightarrow> goal_store \<times> host_result result" where
  "commit_advance l env current q print s =
     (let k = key_of (h_partition q) (h_goalId q); x = advance_replacement current q print in
      commit s (validateNextModelResult l current (x_status x) (x_plan x)) (\<lambda>_.
      case replace_goal l k (h_expectedRevision q) x s of
        (s1, Inr r) \<Rightarrow> (while_waiting env 3 s1, Inr (HostResult Advanced r))
      | (s1, Inl e) \<Rightarrow>
          let s2 = while_waiting env 3 s1 in
          if e \<noteq> GoalRevisionConflict then (s2, Inl e)
          else commit s2 (get_goal k s2) (\<lambda>latest.
          let s3 = while_waiting env 4 s2 in
          commit s3 (throwIfAborted env 4) (\<lambda>_.
          (s3, Inr (case latest of
             None \<Rightarrow> HostGoalNotFound
           | Some r \<Rightarrow>
               if \<not> samePartition (r_partition r) (h_partition q) then HostGoalNotFound
               else if isExactHostAdvanceReplay r q print then HostResult AlreadyAdvanced r
               else HostResult RevisionConflict r))))))"

definition advanceFromHost ::
  "goal_limits \<Rightarrow> (js_string \<Rightarrow> js_string) \<Rightarrow> goal_env \<Rightarrow> host_advance \<Rightarrow> goal_store \<Rightarrow> goal_store \<times> host_result result" where
  "advanceFromHost l sha env request s =
     commit s (capture_advance l env request) (\<lambda>q.
     commit s (fingerprintHostAdvance sha q) (\<lambda>print.
     commit s (get_goal (key_of (h_partition q) (h_goalId q)) s) (\<lambda>found.
     let s1 = while_waiting env 0 s in
     commit s1 (throwIfAborted env 1) (\<lambda>_.
     case found of
       None \<Rightarrow> (s1, Inr HostGoalNotFound)
     | Some current \<Rightarrow>
         if \<not> samePartition (r_partition current) (h_partition q) then (s1, Inr HostGoalNotFound)
         else commit s1 (judge_advance current q print) (\<lambda>judged.
         case judged of
           Inl answer \<Rightarrow> (s1, Inr answer)
         | Inr st \<Rightarrow>
             (case verify_advance env current q st s1 of
                (s2, reply) \<Rightarrow>
                  commit s2 reply (\<lambda>refusal.
                  case refusal of
                    Some h \<Rightarrow> (s2, Inr (HostResult h current))
                  | None \<Rightarrow> commit_advance l env current q print s2)))))))"

section \<open>Creating, reading and updating\<close>

definition service_create ::
  "goal_limits \<Rightarrow> goal_env \<Rightarrow> goal_draft \<Rightarrow> goal_store \<Rightarrow> goal_store \<times> goal_record result" where
  "service_create l env d s =
     commit s (assertOpaqueIdentifier (goalId d)) (\<lambda>_.
     commit s (normalizeGoalPartition (goalPartition d)) (\<lambda>p.
     commit s (validateObjective (objective d) l) (\<lambda>_.
     commit s (normalizeGoalPlan (plan d) l) (\<lambda>steps.
     commit s (ensure (\<not> list_ex (\<lambda>st. stepStatus st = StepCompleted) steps) (GoalValidation ''completed_step_in_new_goal'')) (\<lambda>_.
     commit s (normalizeGoalTime (goalTime d) p) (\<lambda>t.
     commit s (checks [validateGoalTimestamp (goalRecordedAt d),
         discard (serializeGoalModelResult (goalId d) (js ''1'') Active (objective d) steps l), throwIfAborted env 0]) (\<lambda>_.
     case create_goal l (aborted_at env 1)
         \<lparr>goalId = goalId d, goalPartition = p, objective = objective d, plan = steps, goalTime = t, goalRecordedAt = goalRecordedAt d\<rparr>
         (maxOpenGoalsPerOwnerGeneration l) s of
       (s1, reply) \<Rightarrow>
         let s2 = while_waiting env 0 s1 in
         commit s2 reply (\<lambda>r.
         commit s2 (serializeGoalModelResult (r_goalId r) (r_revision r) (r_status r) (r_objective r) (r_plan r) l) (\<lambda>_.
         (s2, Inr r))))))))))"

definition service_get :: "goal_env \<Rightarrow> goal_key \<Rightarrow> goal_store \<Rightarrow> goal_store \<times> goal_record option result" where
  "service_get env k s =
     commit s (normalizeGoalKey k) (\<lambda>key.
     commit s (normalizeGoalPartition key) (\<lambda>p.
     let s1 = while_waiting env 0 s in
     commit s1 (get_goal key s) (\<lambda>found.
     (s1, Inr (case found of None \<Rightarrow> None | Some r \<Rightarrow> if samePartition (r_partition r) p then Some r else None)))))"

record goal_update = goal_key +
  u_expectedRevision :: js_string
  u_plan :: "plan_step list option"
  u_status :: "goal_status option"
  u_gameTime :: game_time
  u_recordedAt :: js_string

text \<open>\<open>new Map\<close> over the steps of the goal: a later step with the same identifier replaces an earlier one.\<close>

definition steps_by_id :: "plan_step list \<Rightarrow> (js_string, plan_step) js_map" where
  "steps_by_id steps = fold (\<lambda>st. js_set (stepId st) st) steps []"

definition completed_kept :: "plan_step list \<Rightarrow> plan_step list \<Rightarrow> unit result" where
  "completed_kept old new =
     check_all (\<lambda>(i, st). ensure (i < length new \<and> sameStep st (new ! i)) (GoalValidation ''completed_goal_step_changed''))
       (enumerate 0 (filter (\<lambda>st. stepStatus st = StepCompleted) old))"

text \<open>The verifier is asked about one piece of evidence after the other. The number of awaits and checks of the signal so
  far is passed on.\<close>

fun verify_evidence ::
  "goal_env \<Rightarrow> goal_record \<Rightarrow> game_time \<Rightarrow> plan_step \<Rightarrow> goal_evidence list \<Rightarrow> nat \<Rightarrow> goal_store \<Rightarrow> goal_store \<times> nat result" where
  "verify_evidence env g t st [] n s = (s, Inr n)"
| "verify_evidence env g t st (e # es) n s =
     commit s (throwIfAborted env n) (\<lambda>_.
     let s1 = while_waiting env n s in
     commit s1 (evidence_accepted env g st e t None) (\<lambda>accepted.
     commit s1 (throwIfAborted env (n + 1)) (\<lambda>_.
     if \<not> accepted then (s1, Inl GoalEvidenceRejected) else verify_evidence env g t st es (n + 2) s1)))"

fun verify_steps ::
  "goal_env \<Rightarrow> goal_record \<Rightarrow> game_time \<Rightarrow> plan_step list \<Rightarrow> nat \<Rightarrow> goal_store \<Rightarrow> goal_store \<times> nat result" where
  "verify_steps env g t [] n s = (s, Inr n)"
| "verify_steps env g t (st # sts) n s =
     (let previous = js_get (steps_by_id (r_plan g)) (stepId st) in
      commit s (ensure (\<not> (\<exists>p \<in> set_option previous. description p \<noteq> description st)) (GoalValidation ''goal_step_description_changed'')) (\<lambda>_.
      if stepStatus st \<noteq> StepCompleted \<or> map_option stepStatus previous = Some StepCompleted then verify_steps env g t sts n s
      else commit s (checks [ensure (map_option stepStatus previous = Some StepInProgress) (GoalValidation ''goal_step_skipped_in_progress''),
             ensure (evidence st \<noteq> []) (GoalValidation ''missing_goal_evidence'')]) (\<lambda>_.
           case verify_evidence env g t st (evidence st) n s of
             (s1, reply) \<Rightarrow> commit s1 reply (\<lambda>m. verify_steps env g t sts m s1))))"

definition validatePlanTransition ::
  "goal_env \<Rightarrow> goal_record \<Rightarrow> plan_step list \<Rightarrow> game_time \<Rightarrow> nat \<Rightarrow> goal_store \<Rightarrow> goal_store \<times> nat result" where
  "validatePlanTransition env g new t n s =
     commit s (completed_kept (r_plan g) new) (\<lambda>_. verify_steps env g t new n s)"

text \<open>The new plan is checked, with the awaits of its verification, only when the update has one.\<close>

definition update_plan_checks ::
  "goal_env \<Rightarrow> goal_record \<Rightarrow> goal_update \<Rightarrow> plan_step list \<Rightarrow> goal_status \<Rightarrow> game_time \<Rightarrow> goal_store \<Rightarrow> goal_store \<times> nat result" where
  "update_plan_checks env current q steps st t s =
     (case u_plan q of
        None \<Rightarrow> (s, Inr 2)
      | Some _ \<Rightarrow>
          commit s (ensure (\<not> (r_status current = Paused \<and> st \<noteq> Active \<and> \<not> samePlan (r_plan current) steps))
              (GoalValidation ''paused_goal_plan_update'')) (\<lambda>_.
          case validatePlanTransition env current steps t 2 s of
            (s1, reply) \<Rightarrow>
              let m = (case reply of Inr k \<Rightarrow> k | Inl _ \<Rightarrow> 2); s2 = while_waiting env m s1 in
              commit s2 reply (\<lambda>_. commit s2 (throwIfAborted env m) (\<lambda>_. (s2, Inr (m + 1))))))"

definition capture_update :: "goal_env \<Rightarrow> goal_update \<Rightarrow> goal_key result" where
  "capture_update env q =
     rbind (normalizeGoalPartition q) (\<lambda>p.
     let k = key_of p (gk_goalId q) in
     rbind (checks [discard (normalizeGoalKey k), validateGoalRevision (u_expectedRevision q), validateGoalTimestamp (u_recordedAt q),
       throwIfAborted env 0, ensure (\<not> (u_plan q = None \<and> u_status q = None)) (GoalValidation ''empty_goal_update'')]) (\<lambda>_.
     Inr k))"

text \<open>What is decided about the goal that was read: the time, plan and status the update asks for.\<close>

definition judge_update :: "goal_limits \<Rightarrow> goal_key \<Rightarrow> goal_update \<Rightarrow> goal_record \<Rightarrow> (game_time \<times> plan_step list \<times> goal_status) result" where
  "judge_update l k q current =
     rbind (checks [ensure (samePartition (r_partition current) k) GoalNotFound,
         ensure (r_revision current = u_expectedRevision q) GoalRevisionConflict,
         ensure (\<not> isTerminal (r_status current)) (GoalValidation ''terminal_goal_update'')]) (\<lambda>_.
     rbind (normalizeGoalTime (u_gameTime q) (r_partition current)) (\<lambda>t.
     rbind (compareGoalTicks (tick t) (tick (r_gameTime current))) (\<lambda>c.
     rbind (ensure (0 \<le> c) (GoalValidation ''goal_time_regression'')) (\<lambda>_.
     rbind (case u_plan q of None \<Rightarrow> Inr (r_plan current) | Some p \<Rightarrow> normalizeGoalPlan p l) (\<lambda>steps.
     let st = (case u_status q of None \<Rightarrow> r_status current | Some x \<Rightarrow> x) in
     rbind (validateStatusTransition (r_status current) st steps) (\<lambda>_. Inr (t, steps, st)))))))"

definition commit_update ::
  "goal_limits \<Rightarrow> goal_env \<Rightarrow> goal_key \<Rightarrow> goal_update \<Rightarrow> goal_record \<Rightarrow> game_time \<Rightarrow> plan_step list \<Rightarrow> goal_status \<Rightarrow>
   goal_store \<Rightarrow> goal_store \<times> goal_record result" where
  "commit_update l env k q current t steps st s =
     (case update_plan_checks env current q steps st t s of
        (s1, reply) \<Rightarrow>
          commit s1 reply (\<lambda>m.
          commit s1 (validateNextModelResult l current st steps) (\<lambda>_.
          case replace_goal l k (u_expectedRevision q)
              \<lparr>x_plan = steps, x_status = st, x_gameTime = t, x_recordedAt = u_recordedAt q, x_fingerprint = None\<rparr> s1 of
            (s2, out) \<Rightarrow> (while_waiting env m s2, out))))"

definition service_update ::
  "goal_limits \<Rightarrow> goal_env \<Rightarrow> goal_update \<Rightarrow> goal_store \<Rightarrow> goal_store \<times> goal_record result" where
  "service_update l env q s =
     commit s (capture_update env q) (\<lambda>k.
     commit s (get_goal k s) (\<lambda>found.
     let s1 = while_waiting env 0 s in
     commit s1 (throwIfAborted env 1) (\<lambda>_.
     case found of
       None \<Rightarrow> (s1, Inl GoalNotFound)
     | Some current \<Rightarrow>
         commit s1 (judge_update l k q current) (\<lambda>(t, steps, st). commit_update l env k q current t steps st s1))))"

section \<open>Listing, retiring and purging\<close>

definition service_list :: "goal_limits \<Rightarrow> goal_env \<Rightarrow> goal_list_request \<Rightarrow> goal_store \<Rightarrow> goal_store \<times> goal_page result" where
  "service_list l env q s =
     commit s (normalizeGoalPartition q) (\<lambda>_.
     commit s (normalizeGoalStatusFilter (statuses q)) (\<lambda>sts.
     commit s (checks [validateGoalAfterKey (afterGoalKey q),
         validateGoalPageLimit (gl_limit q) (maxListPageSize l) ''invalid_goal_page_limit'']) (\<lambda>_.
     (while_waiting env 0 s, list_goals l (q\<lparr>statuses := sts\<rparr>) s))))"

definition service_retire ::
  "goal_limits \<Rightarrow> goal_env \<Rightarrow> goal_retirement \<Rightarrow> goal_store \<Rightarrow> goal_store \<times> goal_retirement_record result" where
  "service_retire l env d s =
     commit s (checks [assertOpaqueIdentifier (gr_retirementId d), validateGoalRevision (gr_stateRevision d),
         validateGoalTimestamp (gr_recordedAt d)]) (\<lambda>_.
     commit s (normalizeGoalPartition (gr_partition d)) (\<lambda>p.
     commit s (normalizeGoalTime (gr_gameTime d) p) (\<lambda>t.
     commit s (throwIfAborted env 0) (\<lambda>_.
     case retireAuthoritySynchronously l (aborted_at env 1) (d\<lparr>gr_partition := p, gr_gameTime := t\<rparr>) s of
       (s1, out) \<Rightarrow> (while_waiting env 0 s1, out)))))"

definition service_purge ::
  "goal_limits \<Rightarrow> goal_env \<Rightarrow> authority_partition \<Rightarrow> js_string \<Rightarrow> int \<Rightarrow> goal_store \<Rightarrow> goal_store \<times> nat list result" where
  "service_purge l env p beforeRecordedAt limit s =
     commit s (normalizeGoalPartition p) (\<lambda>normalized.
     commit s (checks [validateGoalTimestamp beforeRecordedAt,
         validateGoalPageLimit limit (maxPurgeBatchSize l) ''invalid_goal_purge_limit'']) (\<lambda>_.
     case purge_goals l normalized beforeRecordedAt limit s of (s1, out) \<Rightarrow> (while_waiting env 0 s1, out)))"

end
