(* ===== verification/Goal_Facts.thy ===== *)
theory Goal_Facts
  imports Goal_Service
begin

text \<open>
  What the checks of goal-validation.ts establish, that the joined keys of the store identify what they are built
  from, the order of ticks, and the bounded texts of plans and records.
\<close>

section \<open>Joined keys\<close>

lemma opaque_no_nul: "is_opaque_identifier s \<Longrightarrow> 0 \<notin> set s"
  by (auto simp: is_opaque_identifier_def list_all_iff is_control_unit_def)

lemma decimal_no_nul: "is_decimal s \<Longrightarrow> 0 \<notin> set s"
  by (auto simp: is_decimal_def is_positive_decimal_def list_all_iff is_digit_def js_def)

lemma nul_join: "0 \<notin> set a \<Longrightarrow> 0 \<notin> set b \<Longrightarrow> a @ 0 # c = b @ 0 # d \<longleftrightarrow> a = b \<and> c = (d :: js_string)"
proof (induction a arbitrary: b)
  case Nil
  then show ?case by (cases b) auto
next
  case (Cons x a)
  then show ?case by (cases b) auto
qed

definition partition_ok :: "'a authority_partition_scheme \<Rightarrow> bool" where
  "partition_ok p \<longleftrightarrow> authority_partition_ok (authority_partition.truncate p)"

lemma partition_ok_iff:
  "partition_ok p \<longleftrightarrow> is_opaque_identifier (pt_ownerId p) \<and> is_opaque_identifier (pt_timelineId p) \<and> is_decimal (pt_generation p) \<and>
     opt_ok is_opaque_identifier (pt_sessionId p) \<and> opt_ok is_opaque_identifier (pt_actorId p)"
  by (simp add: partition_ok_def authority_partition_ok_def authority_partition.truncate_def)

lemma truncate_partition [simp]: "authority_partition.truncate (p :: authority_partition) = p"
  by (cases p) (simp add: authority_partition.truncate_def)

lemma truncate_fields [simp]:
  "pt_ownerId (authority_partition.truncate p) = pt_ownerId p" "pt_timelineId (authority_partition.truncate p) = pt_timelineId p"
  "pt_generation (authority_partition.truncate p) = pt_generation p" "pt_sessionId (authority_partition.truncate p) = pt_sessionId p"
  "pt_actorId (authority_partition.truncate p) = pt_actorId p"
  by (simp_all add: authority_partition.truncate_def)

lemma mapKey_inject:
  assumes "partition_ok p" "partition_ok q"
  shows "mapKey p i = mapKey q j \<longleftrightarrow> sameOwnerGeneration p q \<and> i = j"
  using assms by (auto simp: mapKey_def sameOwnerGeneration_def partition_ok_iff nul_join opaque_no_nul decimal_no_nul)

lemma or_empty_inject:
  "opt_ok is_opaque_identifier x \<Longrightarrow> opt_ok is_opaque_identifier y \<Longrightarrow> or_empty x = or_empty y \<longleftrightarrow> x = y"
  by (auto simp: or_empty_def opt_ok_def is_opaque_identifier_def split: option.splits)

lemma or_empty_no_nul: "opt_ok is_opaque_identifier x \<Longrightarrow> 0 \<notin> set (or_empty x)"
  by (auto simp: or_empty_def opt_ok_def opaque_no_nul split: option.splits)

lemma partitionKey_inject:
  assumes "partition_ok p" "partition_ok q"
  shows "partitionKey p = partitionKey q \<longleftrightarrow> samePartition p q"
  using assms
  by (auto simp: partitionKey_def samePartition_def partition_ok_iff nul_join opaque_no_nul decimal_no_nul or_empty_no_nul or_empty_inject)

lemma samePartition_eq: "samePartition (p :: authority_partition) q \<longleftrightarrow> p = q"
  by (auto simp: samePartition_def)

lemma samePartition_truncate [simp]:
  "samePartition (authority_partition.truncate p) q = samePartition p q"
  "samePartition p (authority_partition.truncate q) = samePartition p q"
  by (simp_all add: samePartition_def)

lemma keys_truncate [simp]:
  "mapKey (authority_partition.truncate p) i = mapKey p i" "partitionKey (authority_partition.truncate p) = partitionKey p"
  "partition_ok (authority_partition.truncate p) = partition_ok p"
  by (simp_all add: mapKey_def partitionKey_def partition_ok_iff)

lemma key_of_simps [simp]:
  "gk_goalId (key_of p i) = i" "authority_partition.truncate (key_of p i) = p" "mapKey (key_of p i) = mapKey p"
  "partitionKey (key_of p i) = partitionKey p" "partition_ok (key_of p i) = partition_ok p"
  "samePartition r (key_of p i) = samePartition r p" "pt_timelineId (key_of p i) = pt_timelineId p" "pt_generation (key_of p i) = pt_generation p"
  by (cases p; simp add: key_of_def authority_partition.extend_def goal_key.fields_def authority_partition.truncate_def mapKey_def
      partitionKey_def partition_ok_iff samePartition_def fun_eq_iff)+

section \<open>Ticks\<close>

lemma of_decimal_append: "of_decimal (s @ t) = of_decimal s * 10 ^ length t + of_decimal t"
proof (induction t rule: rev_induct)
  case (snoc c t)
  then show ?case using of_decimal_snoc [of "s @ t" c] by (simp add: algebra_simps)
qed simp

lemma of_decimal_less: "list_all is_digit s \<Longrightarrow> of_decimal s < 10 ^ length s"
proof (induction s rule: rev_induct)
  case (snoc c s)
  then have "of_decimal s < 10 ^ length s" "digit_value c < 10" by (simp_all add: digit_value_less)
  then show ?case by simp
qed simp

lemma of_decimal_Cons: "of_decimal (c # s) = digit_value c * 10 ^ length s + of_decimal s"
  using of_decimal_append [of "[c]" s] of_decimal_snoc [of "[]" c] by simp

lemma decimal_digits: "is_decimal s \<Longrightarrow> list_all is_digit s"
  by (metis list_all_to_decimal to_of_decimal)

lemma digit_less_iff: "is_digit c \<Longrightarrow> is_digit d \<Longrightarrow> c < d \<longleftrightarrow> digit_value c < digit_value d"
  by (auto simp: is_digit_def digit_value_def word_less_nat_alt)

lemma same_length_less:
  "length s = length t \<Longrightarrow> list_all is_digit s \<Longrightarrow> list_all is_digit t \<Longrightarrow> s < t \<longleftrightarrow> of_decimal s < of_decimal t"
proof (induction s t rule: list_induct2)
  case (Cons c s d t)
  have s: "of_decimal s < 10 ^ length s" "of_decimal t < 10 ^ length s"
    using Cons of_decimal_less [of s] of_decimal_less [of t] by simp_all
  consider "digit_value c < digit_value d" | "digit_value d < digit_value c" | "c = d"
    using Cons.prems digit_unit_digit_value by (metis list.pred_inject(2) linorder_neqE_nat)
  then show ?case
  proof cases
    case 1
    then have "Suc (digit_value c) * 10 ^ length s \<le> digit_value d * 10 ^ length s" by (intro mult_le_mono1) simp
    with s Cons 1 show ?thesis by (simp add: of_decimal_Cons digit_less_iff)
  next
    case 2
    then have "Suc (digit_value d) * 10 ^ length s \<le> digit_value c * 10 ^ length s" by (intro mult_le_mono1) simp
    with s Cons 2 show ?thesis by (auto simp: of_decimal_Cons digit_less_iff)
  next
    case 3
    with Cons show ?thesis by (simp add: of_decimal_Cons)
  qed
qed simp

lemma shorter_less:
  assumes "is_decimal s" "is_decimal t" "length s < length t"
  shows "of_decimal s < of_decimal t"
proof -
  obtain c u where t: "t = c # u" using assms(3) by (cases t) auto
  have "is_positive_decimal t" using assms by (auto simp: is_decimal_def js_def is_positive_decimal_def)
  with t have "1 \<le> digit_value c" by (auto simp: is_positive_decimal_def is_digit_def digit_value_def)
  then have "10 ^ length u \<le> of_decimal t" unfolding t of_decimal_Cons
    by (metis mult_1 mult_le_mono1 trans_le_add1)
  moreover have "of_decimal s < 10 ^ length s" using assms(1) by (intro of_decimal_less decimal_digits)
  moreover have "(10 :: nat) ^ length s \<le> 10 ^ length u" using assms(3) t by (intro power_increasing) simp_all
  ultimately show ?thesis by linarith
qed

lemma compareGoalTicks_Inr:
  "compareGoalTicks a b = Inr c \<longleftrightarrow> is_decimal a \<and> is_decimal b \<and>
     c = (if of_decimal a < of_decimal b then - 1 else if of_decimal a = of_decimal b then 0 else 1)"
proof (cases "is_decimal a \<and> is_decimal b")
  case True
  then have d: "is_decimal a" "is_decimal b" by simp_all
  then have "(if length a \<noteq> length b then (if length a < length b then - 1 else 1) else if a = b then 0 else if a < b then - 1 else 1)
      = (if of_decimal a < of_decimal b then - 1 else if of_decimal a = of_decimal b then 0 else (1 :: int))"
    using shorter_less [OF d] shorter_less [OF d(2,1)] same_length_less [of a b] decimal_digits of_decimal_inject [OF d] by auto
  with d show ?thesis by (auto simp: compareGoalTicks_def goal_decimal_def)
next
  case False
  then show ?thesis by (auto simp: compareGoalTicks_def goal_decimal_def ensure_def)
qed

lemma compareGoalTicks_ge: "compareGoalTicks a b = Inr c \<Longrightarrow> 0 \<le> c \<longleftrightarrow> of_decimal b \<le> of_decimal a"
  by (auto simp: compareGoalTicks_Inr split: if_splits)

section \<open>What the checks establish\<close>

definition time_ok :: "game_time \<Rightarrow> 'a authority_partition_scheme \<Rightarrow> bool" where
  "time_ok t p \<longleftrightarrow> game_time_ok t \<and> gt_timelineId t = pt_timelineId p \<and> gt_generation t = pt_generation p"

definition plan_ok :: "goal_limits \<Rightarrow> plan_step list \<Rightarrow> bool" where
  "plan_ok l p \<longleftrightarrow> normalizeGoalPlan p l = Inr p"

lemma normalizeGoalPartition_Inr [simp]:
  "normalizeGoalPartition p = Inr q \<longleftrightarrow> partition_ok p \<and> q = authority_partition.truncate p"
  by (auto simp: normalizeGoalPartition_def goal_decimal_def rbind_eq_Inr when_some_Inr partition_ok_iff opt_ok_def split: option.splits)

lemma normalizeGoalKey_Inr [simp]:
  "normalizeGoalKey k = Inr k' \<longleftrightarrow> partition_ok k \<and> is_opaque_identifier (gk_goalId k) \<and> k' = k"
  by (auto simp: normalizeGoalKey_def rbind_eq_Inr)

lemma normalizeGoalTime_Inr [simp]: "normalizeGoalTime t p = Inr t' \<longleftrightarrow> time_ok t p \<and> t' = t"
  by (auto simp: normalizeGoalTime_def time_ok_def assertGameTime_def rbind_eq_Inr)

lemma normalizeGoalPlan_Inr [simp]: "normalizeGoalPlan p l = Inr q \<longleftrightarrow> plan_ok l p \<and> q = p"
  by (auto simp: plan_ok_def normalizeGoalPlan_def rbind_eq_Inr)

lemma validateGoalTimestamp_Inr [simp]: "validateGoalTimestamp t = Inr u \<longleftrightarrow> is_timestamp t"
  by (simp add: validateGoalTimestamp_def)

lemma validateGoalRevision_Inr [simp]: "validateGoalRevision r = Inr u \<longleftrightarrow> is_decimal r"
  by (simp add: validateGoalRevision_def goal_decimal_def)

lemma normalizeGoalEvidence_Inr: "normalizeGoalEvidence e l = Inr e' \<Longrightarrow> e' = e"
  by (auto simp: normalizeGoalEvidence_def normalizeGoalEvidenceList_def rbind_eq_Inr)

definition draft_ok :: "goal_limits \<Rightarrow> goal_draft \<Rightarrow> bool" where
  "draft_ok l d \<longleftrightarrow> partition_ok (goalPartition d) \<and> is_opaque_identifier (goalId d) \<and> validateObjective (objective d) l = Inr () \<and>
     plan_ok l (plan d) \<and> \<not> list_ex (\<lambda>st. stepStatus st = StepCompleted) (plan d) \<and> time_ok (goalTime d) (goalPartition d) \<and>
     is_timestamp (goalRecordedAt d)"

lemma normalizeGoalDraft_Inr [simp]: "normalizeGoalDraft d l = Inr d' \<longleftrightarrow> draft_ok l d \<and> d' = d"
  by (auto simp: normalizeGoalDraft_def draft_ok_def rbind_eq_Inr)

definition replacement_ok :: "goal_limits \<Rightarrow> 'a authority_partition_scheme \<Rightarrow> goal_replacement \<Rightarrow> bool" where
  "replacement_ok l p x \<longleftrightarrow> plan_ok l (x_plan x) \<and> time_ok (x_gameTime x) p \<and> is_timestamp (x_recordedAt x) \<and>
     opt_ok is_sha256 (x_fingerprint x)"

lemma time_ok_truncate [simp]: "time_ok t (authority_partition.truncate p) = time_ok t p"
  by (simp add: time_ok_def)

lemma fingerprint_Inr [simp]: "validateGoalHostAdvanceFingerprint f = Inr u \<longleftrightarrow> opt_ok is_sha256 f"
  by (auto simp: validateGoalHostAdvanceFingerprint_def when_some_Inr opt_ok_def split: option.splits)

lemma normalizeGoalReplacement_Inr [simp]:
  "normalizeGoalReplacement x k l = Inr x' \<longleftrightarrow> partition_ok k \<and> replacement_ok l k x \<and> x' = x"
  by (auto simp: normalizeGoalReplacement_def replacement_ok_def rbind_eq_Inr)

definition retirement_ok :: "goal_retirement \<Rightarrow> bool" where
  "retirement_ok d \<longleftrightarrow> partition_ok (gr_partition d) \<and> time_ok (gr_gameTime d) (gr_partition d) \<and>
     is_opaque_identifier (gr_retirementId d) \<and> is_decimal (gr_stateRevision d) \<and> is_timestamp (gr_recordedAt d)"

lemma normalizeGoalAuthorityRetirement_Inr [simp]:
  "normalizeGoalAuthorityRetirement d = Inr d' \<longleftrightarrow> retirement_ok d \<and> d' = d"
  by (auto simp: normalizeGoalAuthorityRetirement_def retirement_ok_def rbind_eq_Inr)

lemma get_goal_Inr:
  "get_goal k s = Inr x \<longleftrightarrow> partition_ok k \<and> is_opaque_identifier (gk_goalId k) \<and>
     x = (case js_get (goals s) (mapKey k (gk_goalId k)) of None \<Rightarrow> None | Some r \<Rightarrow> if samePartition (r_partition r) k then Some r else None)"
  by (auto simp: get_goal_def rbind_eq_Inr)

section \<open>Plans\<close>

lemma normalize_steps_distinct:
  "normalize_steps l ids p = Inr u \<Longrightarrow> distinct (map stepId p) \<and> set ids \<inter> stepId ` set p = {}"
proof (induction p arbitrary: ids)
  case (Cons st p)
  then have "stepId st \<notin> set ids" and "normalize_steps l (stepId st # ids) p = Inr u" by (auto simp: rbind_eq_Inr)
  with Cons.IH [of "stepId st # ids"] show ?case by auto
qed simp

lemma plan_ok_distinct: "plan_ok l p \<Longrightarrow> distinct (map stepId p)"
  using normalize_steps_distinct by (auto simp: plan_ok_def normalizeGoalPlan_def rbind_eq_Inr)

text \<open>A valid plan is completed steps, at most one in progress, then pending ones.\<close>

definition completed_steps :: "plan_step list \<Rightarrow> plan_step list" where
  "completed_steps p = filter (\<lambda>st. stepStatus st = StepCompleted) p"

lemma plan_shape_open: "ph \<noteq> StepCompleted \<Longrightarrow> plan_shape ph p = Inr u \<longleftrightarrow> list_all (\<lambda>st. stepStatus st = StepPending) p"
  by (induction p arbitrary: ph) (auto split: step_status.splits)

definition open_part :: "plan_step list \<Rightarrow> bool" where
  "open_part p \<longleftrightarrow> (case p of [] \<Rightarrow> True | st # sts \<Rightarrow> stepStatus st \<noteq> StepCompleted \<and> list_all (\<lambda>x. stepStatus x = StepPending) sts)"

lemma plan_shape_completed:
  "plan_shape StepCompleted p = Inr u \<Longrightarrow> \<exists>rest. p = completed_steps p @ rest \<and> open_part rest"
proof (induction p)
  case (Cons st p)
  show ?case
  proof (cases "stepStatus st = StepCompleted")
    case True
    with Cons obtain rest where "p = completed_steps p @ rest" "open_part rest" by auto
    with True show ?thesis by (auto simp: completed_steps_def)
  next
    case False
    then have pending: "list_all (\<lambda>x. stepStatus x = StepPending) p"
      using Cons.prems by (cases "stepStatus st") (simp_all add: plan_shape_open)
    then have "filter (\<lambda>x. stepStatus x = StepCompleted) p = []" by (induction p) auto
    with False pending show ?thesis
      by (intro exI [of _ "st # p"]) (simp add: completed_steps_def open_part_def)
  qed
qed (simp add: completed_steps_def open_part_def)

lemma plan_ok_shape:
  assumes "plan_ok l p"
  obtains rest where "p = completed_steps p @ rest" "open_part rest"
proof -
  have "plan_shape StepCompleted p = Inr ()"
    using assms by (auto simp: plan_ok_def normalizeGoalPlan_def validatePlanShape_def rbind_eq_Inr)
  with that plan_shape_completed show thesis by blast
qed

lemma steps_by_id_get:
  assumes "distinct (map stepId p)"
  shows "js_get (steps_by_id p) i = Some st \<longleftrightarrow> st \<in> set p \<and> stepId st = i"
proof -
  have put: "js_get (fold (\<lambda>st. js_set (stepId st) st) p []) (stepId x) = Some x" if "x \<in> set p" for x
    using jm.get_fold_put [OF assms that, of "\<lambda>x. x" "[]"] by simp
  have other: "i \<notin> stepId ` set p \<Longrightarrow> js_get (fold (\<lambda>st. js_set (stepId st) st) p []) i = None"
    using jm.get_fold_put_other [of i stepId p "\<lambda>x. x" "[]"] by simp
  show ?thesis
  proof (cases "i \<in> stepId ` set p")
    case True
    then obtain x where x: "x \<in> set p" "stepId x = i" by auto
    then show ?thesis using put [OF x(1)] assms unfolding steps_by_id_def
      by (auto simp: distinct_map inj_on_def)
  qed (auto simp: steps_by_id_def other)
qed

lemma evidence_json_inject: "evidence_json a = evidence_json b \<longleftrightarrow> a = b"
  by (cases a; cases b) (simp add: evidence_json_def)

lemma stringify_evidence:
  "stringify (JArr (map evidence_json xs)) = stringify (JArr (map evidence_json ys)) \<longleftrightarrow> xs = ys"
proof
  assume "stringify (JArr (map evidence_json xs)) = stringify (JArr (map evidence_json ys))"
  moreover have "json_ok (JArr (map evidence_json zs))" for zs
    by (auto simp: list_all_iff evidence_json_def)
  ultimately have "JArr (map evidence_json xs) = JArr (map evidence_json ys)"
    using stringify_prefix [of "JArr (map evidence_json xs)" "JArr (map evidence_json ys)" "[]" "[]"]
    by (simp add: ends_value_def del: stringify.simps)
  then show "xs = ys" using evidence_json_inject by (auto simp: inj_def intro: map_injective)
qed simp

lemma sameStep_eq: "sameStep a b \<longleftrightarrow> a = b"
  unfolding sameStep_def stringify_evidence by (cases a; cases b) auto

lemma samePlan_eq: "samePlan a b \<longleftrightarrow> a = b"
proof -
  have "length a = length b \<Longrightarrow> list_all (\<lambda>(x, y). x = y) (zip a b) \<longleftrightarrow> a = b"
    by (induction a b rule: list_induct2) auto
  then show ?thesis unfolding samePlan_def sameStep_eq by auto
qed

lemma check_enumerate:
  "check_all (\<lambda>(i, x). ensure (P i x) e) (enumerate 0 xs) = Inr u \<longleftrightarrow> (\<forall>i < length xs. P i (xs ! i))"
  by (auto simp: check_all_eq_Inr in_set_enumerate_eq Ball_def split_beta)

lemma take_eq_iff: "(\<forall>i < length xs. i < length ys \<and> xs ! i = ys ! i) \<longleftrightarrow> take (length xs) ys = xs"
proof
  assume *: "\<forall>i < length xs. i < length ys \<and> xs ! i = ys ! i"
  then have "length xs \<le> length ys" by (metis not_le order_less_irrefl)
  with * show "take (length xs) ys = xs" by (auto simp: list_eq_iff_nth_eq)
next
  assume *: "take (length xs) ys = xs"
  then have "length xs \<le> length ys" by (metis length_take min.absorb_iff1 min.commute)
  with * show "\<forall>i < length xs. i < length ys \<and> xs ! i = ys ! i" by (metis less_le_trans nth_take)
qed

lemma completed_kept_Inr: "completed_kept p q = Inr u \<longleftrightarrow> take (length (completed_steps p)) q = completed_steps p"
  unfolding completed_kept_def check_enumerate sameStep_eq take_eq_iff [symmetric] completed_steps_def by simp

end
