(* ===== verification/Goal_Bounds.thy ===== *)
theory Goal_Bounds
  imports Goal_Facts Json_Admission
begin

text \<open>
  The bounded texts of plans, records and model results: the depth limits the source passes are never reached, so a
  text is refused exactly when it has too many bytes.
\<close>

lemma value_ok_of_json: "json_ok j \<Longrightarrow> value_ok (of_json j)"
proof (induction j)
  case (JArr xs)
  then show ?case by (auto simp: value_ok_array entry_ok_def list_all_iff)
next
  case (JObj kvs)
  then have "map fst (map (\<lambda>(k, x). (k, Some (of_json x))) kvs) = map fst kvs" by (simp add: comp_def split_def)
  with JObj show ?case by (fastforce simp: value_ok_object entry_ok_def list_all_iff snds.simps simp del: map_map)
qed simp_all

lemma norm_value_within: "json_ok j \<Longrightarrow> within mb b \<Longrightarrow> norm_value md mb d (of_json j) b = Inr (b', x) \<Longrightarrow> within mb b'"
  using norm_decides(1) [OF value_ok_of_json] by blast

lemma norm_elems_refused:
  assumes "\<forall>x \<in> set xs. \<forall>b e. within mb b \<longrightarrow> norm_value md mb d (of_json x) b = Inl e \<longrightarrow> e = JsonTooLarge"
    and "list_all json_ok xs" "within mb b" "norm_elems md mb d (map (\<lambda>x. Some (of_json x)) xs) b = Inl e"
  shows "e = JsonTooLarge"
  using assms
proof (induction xs arbitrary: b)
  case (Cons x xs)
  show ?case
  proof (cases "norm_value md mb d (of_json x) b")
    case (Inl e')
    then show ?thesis using Cons.prems by auto
  next
    case (Inr y)
    then obtain b' j where y: "norm_value md mb d (of_json x) b = Inr (b', j)" by (cases y) simp
    then have "within mb b'" using Cons.prems(2,3) norm_value_within by auto
    moreover have "norm_elems md mb d (map (\<lambda>x. Some (of_json x)) xs) b' = Inl e" using Cons.prems(4) y by (auto simp: rbind_eq_Inl)
    ultimately show ?thesis using Cons.IH [of b'] Cons.prems(1,2) by auto
  qed
qed simp

lemma norm_members_refused:
  assumes "\<forall>p \<in> set kvs. \<forall>b e. within mb b \<longrightarrow> norm_value md mb d (of_json (snd p)) b = Inl e \<longrightarrow> e = JsonTooLarge"
    and "list_all (\<lambda>(k, x). json_ok x) kvs" "within mb b" "norm_members md mb d (map (\<lambda>(k, x). (k, Some (of_json x))) kvs) b = Inl e"
  shows "e = JsonTooLarge"
  using assms
proof (induction kvs arbitrary: b)
  case (Cons p kvs)
  obtain k x where p: "p = (k, x)" by (cases p)
  show ?case
  proof (cases "norm_value md mb d (of_json x) b")
    case (Inl e')
    then show ?thesis using Cons.prems p by auto
  next
    case (Inr y)
    then obtain b' j where y: "norm_value md mb d (of_json x) b = Inr (b', j)" by (cases y) simp
    then have "within mb b'" using Cons.prems(2,3) norm_value_within p by auto
    moreover have "norm_members md mb d (map (\<lambda>(k, x). (k, Some (of_json x))) kvs) b' = Inl e"
      using Cons.prems(4) y p by (auto simp: rbind_eq_Inl)
    ultimately show ?thesis using Cons.IH [of b'] Cons.prems(1,2) by auto
  qed
qed simp

text \<open>A value that is JSON and not too deep is refused only for its bytes.\<close>

lemma norm_value_refused:
  "json_ok j \<Longrightarrow> entry_shallow md d j \<Longrightarrow> within mb b \<Longrightarrow> norm_value md mb d (of_json j) b = Inl e \<Longrightarrow> e = JsonTooLarge"
proof (induction j arbitrary: d b e)
  case (JArr xs)
  have sh: "shallow md d" "\<And>x. x \<in> set xs \<Longrightarrow> entry_shallow md (d + 1) x"
    using JArr.prems(2) by (simp_all add: entry_shallow_def [of md d] shallow_array del: json_depth.simps)
  have "\<forall>x \<in> set xs. \<forall>b e. within mb b \<longrightarrow> norm_value md mb (d + 1) (of_json x) b = Inl e \<longrightarrow> e = JsonTooLarge"
    using JArr.IH JArr.prems(1) sh(2) by (simp add: list_all_iff) blast
  note r = norm_elems_refused [where md = md and mb = mb and d = "d + 1" and xs = xs, OF this]
  show ?case using JArr.prems sh(1) r by (auto simp: norm_value.simps [of md mb d "VArray xs" for xs] capture_array rbind_eq_Inl split: if_splits)
next
  case (JObj kvs)
  have sh: "shallow md d" "\<And>p. p \<in> set kvs \<Longrightarrow> entry_shallow md (d + 1) (snd p)"
    using JObj.prems(2) by (auto simp: entry_shallow_def [of md d] shallow_object simp del: json_depth.simps)
  have "\<forall>p \<in> set kvs. \<forall>b e. within mb b \<longrightarrow> norm_value md mb (d + 1) (of_json (snd p)) b = Inl e \<longrightarrow> e = JsonTooLarge"
    using JObj.IH JObj.prems(1) sh(2) by (fastforce simp: list_all_iff snds.simps)
  note r = norm_members_refused [where md = md and mb = mb and d = "d + 1" and kvs = kvs, OF this]
  show ?case using JObj.prems sh(1) r by (auto simp: norm_value.simps [of md mb d "VObject p xs" for p xs] capture_object rbind_eq_Inl split: if_splits)
qed (auto simp: norm_value.simps capture_primitive entry_shallow_def split: if_splits)

section \<open>Bounded texts\<close>

definition bytes_of :: "json \<Rightarrow> int" where
  "bytes_of j = int (utf8_length (canonical j))"

lemma bounded_json_Inr:
  assumes "json_ok j" "int (json_depth j) \<le> md" "is_positive_safe_integer md" "is_positive_safe_integer mb"
  shows "serializeBoundedGoalJson j mb md code =
     (if bytes_of j \<le> mb then Inr (canonical j) else Inl (GoalValidation code))"
proof -
  let ?l = "\<lparr>maxDepth = md, maxBytes = mb\<rparr>"
  have iff: "normalizeJsonValueWithin (of_json j) ?l = Inr j' \<longleftrightarrow> j' = j \<and> bytes_of j \<le> mb" for j'
    using normalizeJson_iff [OF value_ok_of_json [OF assms(1)], of "Some mb" "Some md" j'] assms
    by (auto simp: normalizeJsonValueWithin_def captureJsonValueLimits_def is_positive_safe_integer_def within_def shallow_def
      canonical_bytes_def bytes_of_def)
  have err: "normalizeJsonValueWithin (of_json j) ?l = Inl e \<Longrightarrow> e = JsonTooLarge" for e
    using norm_value_refused [OF assms(1), of "Some md" 1 "Some mb" 0 e] assms
    by (auto simp: normalizeJsonValueWithin_def captureJsonValueLimits_def is_positive_safe_integer_def within_def shallow_def
      normalizeJson_eq rbind_eq_Inl entry_shallow_def)
  have "normalizeJsonValueWithin (of_json j) ?l = (if bytes_of j \<le> mb then Inr j else Inl JsonTooLarge)"
  proof (cases "bytes_of j \<le> mb")
    case False
    then have "normalizeJsonValueWithin (of_json j) ?l \<noteq> Inr x" for x using iff [of x] by blast
    then show ?thesis using False err by (cases "normalizeJsonValueWithin (of_json j) ?l") auto
  qed (simp add: iff)
  then show ?thesis by (simp add: serializeBoundedGoalJson_def canonicalizeJsonValueWithin_def serialize_eq_canonical)
qed


lemma plan_json_shape: "json_ok (plan_json p) \<and> json_depth (plan_json p) \<le> 5"
proof -
  have "json_ok (step_json st) \<and> json_depth (step_json st) \<le> 4" for st
    by (simp add: step_json_def evidence_json_def fold_max_le list_all_iff)
  then show ?thesis by (simp add: plan_json_def fold_max_le list_all_iff)
qed

lemma partition_json_shape: "json_ok (authority_partition_json p) \<and> json_depth (authority_partition_json p) \<le> 2"
  by (auto simp: authority_partition_json_def opt_member_def fold_max_le split: option.splits)

lemma record_json_shape: "json_ok (goal_record_json r) \<and> json_depth (goal_record_json r) \<le> 6"
  using plan_json_shape [of "r_plan r"] partition_json_shape [of "r_partition r"]
  by (auto simp: goal_record_json_def game_time_json_def opt_or_null_def fold_max_le split: option.splits)

lemma model_result_json_shape: "json_ok (model_result_json i n st obj p) \<and> json_depth (model_result_json i n st obj p) \<le> 6"
  using plan_json_shape [of p] by (simp add: model_result_json_def fold_max_le)

definition limits_ok :: "goal_limits \<Rightarrow> bool" where
  "limits_ok l \<longleftrightarrow> captureGoalLimits l = Inr l"

lemma limits_positive:
  assumes "limits_ok l"
  shows "is_positive_safe_integer (maxPlanBytes l)" "is_positive_safe_integer (maxRecordBytes l)"
    "is_positive_safe_integer (maxModelResultBytes l)"
  using assms by (auto simp: limits_ok_def captureGoalLimits_def rbind_eq_Inr goal_limit_def is_positive_safe_integer_def)

lemma small_positive: "is_positive_safe_integer 5" "is_positive_safe_integer 6"
  by (simp_all add: is_positive_safe_integer_def is_safe_integer_def max_safe_integer_def)

lemma serializeGoalPlan_eq: "limits_ok l \<Longrightarrow> serializeGoalPlan p l =
    (if bytes_of (plan_json p) \<le> maxPlanBytes l then Inr (canonical (plan_json p)) else Inl (GoalValidation ''goal_plan_too_large''))"
  unfolding serializeGoalPlan_def using plan_json_shape [of p] by (subst bounded_json_Inr) (simp_all add: limits_positive small_positive)

lemma serializeGoalRecord_eq: "limits_ok l \<Longrightarrow> serializeGoalRecord r l =
    (if bytes_of (goal_record_json r) \<le> maxRecordBytes l then Inr (canonical (goal_record_json r))
     else Inl (GoalValidation ''goal_record_too_large''))"
  unfolding serializeGoalRecord_def using record_json_shape [of r] by (subst bounded_json_Inr) (simp_all add: limits_positive small_positive)

lemma serializeGoalModelResult_eq: "limits_ok l \<Longrightarrow> serializeGoalModelResult i n st obj p l =
    (if bytes_of (model_result_json i n st obj p) \<le> maxModelResultBytes l then Inr (canonical (model_result_json i n st obj p))
     else Inl (GoalValidation ''goal_model_result_too_large''))"
  unfolding serializeGoalModelResult_def using model_result_json_shape [of i n st obj p]
  by (subst bounded_json_Inr) (simp_all add: limits_positive small_positive)

end
