(* ===== verification/Goal_Inv.thy ===== *)
theory Goal_Inv
  imports Goal_Facts
begin

text \<open>
  The contract of the goal store: the invariant of its states, the atomic steps the goal service may take, and the order
  these steps respect. Every step keeps the invariant and leaves a later state.
\<close>

section \<open>The invariant\<close>

definition model_result_fits :: "goal_limits \<Rightarrow> goal_record \<Rightarrow> bool" where
  "model_result_fits l r \<longleftrightarrow>
     discard (serializeGoalModelResult (r_goalId r) (r_revision r) (r_status r) (r_objective r) (r_plan r) l) = Inr ()"

definition goal_ok :: "goal_limits \<Rightarrow> goal_record \<Rightarrow> bool" where
  "goal_ok l r \<longleftrightarrow> partition_ok (r_partition r) \<and> is_opaque_identifier (r_goalId r) \<and> validateObjective (r_objective r) l = Inr () \<and>
     plan_ok l (r_plan r) \<and> time_ok (r_gameTime r) (r_partition r) \<and> is_positive_decimal (r_revision r) \<and>
     is_timestamp (r_updatedAt r) \<and> opt_ok is_sha256 (lastHostAdvanceFingerprint r) \<and>
     discard (serializeGoalRecord r l) = Inr () \<and> (isOpen r \<longrightarrow> model_result_fits l r) \<and>
     (r_status r = Achieved \<longrightarrow> r_plan r \<noteq> [] \<and> completed_steps (r_plan r) = r_plan r)"

definition goal_key_of :: "goal_record \<Rightarrow> js_string" where
  "goal_key_of r = mapKey (r_partition r) (r_goalId r)"

definition stored :: "goal_store \<Rightarrow> goal_record \<Rightarrow> bool" where
  "stored s r \<longleftrightarrow> js_get (goals s) (goal_key_of r) = Some r"

definition retired :: "'a authority_partition_scheme \<Rightarrow> goal_store \<Rightarrow> bool" where
  "retired p s \<longleftrightarrow> js_has (goalRetirements s) (partitionKey p)"

definition goals_filed :: "goal_limits \<Rightarrow> goal_store \<Rightarrow> bool" where
  "goals_filed l s \<longleftrightarrow> js_ok (goals s) \<and> js_ok (goalRetirements s) \<and> 1 \<le> nextGoalKey s \<and>
     (\<forall>k r. js_get (goals s) k = Some r \<longrightarrow> k = goal_key_of r \<and> goal_ok l r \<and> 1 \<le> goalKey r \<and> goalKey r < nextGoalKey s) \<and>
     sorted_wrt (<) (map goalKey (js_values (goals s)))"

definition retirements_hold :: "goal_store \<Rightarrow> bool" where
  "retirements_hold s \<longleftrightarrow>
     (\<forall>k x. js_get (goalRetirements s) k = Some x \<longrightarrow> k = partitionKey (gr_partition x) \<and> partition_ok (gr_partition x)) \<and>
     (\<forall>r. stored s r \<longrightarrow> retired (r_partition r) s \<longrightarrow> \<not> isOpen r)"

definition open_bounded :: "goal_limits \<Rightarrow> goal_store \<Rightarrow> bool" where
  "open_bounded l s \<longleftrightarrow> (\<forall>p :: authority_partition. int (length (open_goals p s)) \<le> maxOpenGoalsPerOwnerGeneration l)"

definition goal_inv :: "goal_limits \<Rightarrow> goal_store \<Rightarrow> bool" where
  "goal_inv l s \<longleftrightarrow> goals_filed l s \<and> retirements_hold s \<and> open_bounded l s"

section \<open>Atomic steps\<close>

definition same_goal :: "goal_record \<Rightarrow> goal_record \<Rightarrow> bool" where
  "same_goal r r' \<longleftrightarrow> r_goalId r' = r_goalId r \<and> r_partition r' = r_partition r \<and> r_objective r' = r_objective r \<and>
     goalKey r' = goalKey r \<and> createdGameTime r' = createdGameTime r \<and> r_createdAt r' = r_createdAt r"

definition status_edge :: "goal_status \<Rightarrow> goal_status \<Rightarrow> bool" where
  "status_edge a b \<longleftrightarrow> a = Active \<or> a = Paused \<and> b \<in> {Paused, Active, Cancelled}"

text \<open>Steps are completed one by one from work in progress and with evidence, and stay as they were completed.\<close>

definition plan_progress :: "plan_step list \<Rightarrow> plan_step list \<Rightarrow> bool" where
  "plan_progress p q \<longleftrightarrow> take (length (completed_steps p)) q = completed_steps p \<and>
     (\<forall>st \<in> set q. stepStatus st = StepCompleted \<longrightarrow> st \<in> set (completed_steps p) \<or>
        evidence st \<noteq> [] \<and> (\<exists>x \<in> set p. stepId x = stepId st \<and> description x = description st \<and> stepStatus x = StepInProgress))"

definition progress :: "goal_record \<Rightarrow> goal_record \<Rightarrow> bool" where
  "progress r r' \<longleftrightarrow> same_goal r r' \<and> isOpen r \<and> r_revision r' = to_decimal (Suc (of_decimal (r_revision r))) \<and>
     of_decimal (tick (r_gameTime r)) \<le> of_decimal (tick (r_gameTime r')) \<and> status_edge (r_status r) (r_status r') \<and>
     plan_progress (r_plan r) (r_plan r') \<and> (r_status r = Paused \<longrightarrow> r_status r' \<noteq> Active \<longrightarrow> r_plan r' = r_plan r)"

definition put_goal :: "goal_record \<Rightarrow> goal_store \<Rightarrow> goal_store" where
  "put_goal r s = s\<lparr>goals := js_set (goal_key_of r) r (goals s)\<rparr>"

inductive goal_step :: "goal_limits \<Rightarrow> goal_store \<Rightarrow> goal_store \<Rightarrow> bool" for l where
  created: "create_goal l aborted d m s = (s', Inr r) \<Longrightarrow> model_result_fits l r \<Longrightarrow> goal_step l s s'"
| revised: "stored s r \<Longrightarrow> \<not> retired (r_partition r) s \<Longrightarrow> progress r r' \<Longrightarrow> goal_ok l r' \<Longrightarrow> goal_step l s (put_goal r' s)"
| retirement: "retireAuthoritySynchronously l aborted d s = (s', Inr x) \<Longrightarrow> goal_step l s s'"
| purged: "purge_goals l p t n s = (s', Inr ks) \<Longrightarrow> goal_step l s s'"

abbreviation goal_steps :: "goal_limits \<Rightarrow> goal_store \<Rightarrow> goal_store \<Rightarrow> bool" where
  "goal_steps l \<equiv> (goal_step l)\<^sup>*\<^sup>*"

section \<open>The order of states\<close>

definition goal_later :: "goal_record \<Rightarrow> goal_record \<Rightarrow> bool" where
  "goal_later r r' \<longleftrightarrow> r' = r \<or> same_goal r r' \<and> isOpen r \<and> of_decimal (r_revision r) < of_decimal (r_revision r') \<and>
     of_decimal (tick (r_gameTime r)) \<le> of_decimal (tick (r_gameTime r')) \<and>
     take (length (completed_steps (r_plan r))) (r_plan r') = completed_steps (r_plan r)"

definition goals_later :: "goal_store \<Rightarrow> goal_store \<Rightarrow> bool" where
  "goals_later s s' \<longleftrightarrow> nextGoalKey s \<le> nextGoalKey s' \<and>
     (\<forall>k x. js_get (goalRetirements s) k = Some x \<longrightarrow> js_get (goalRetirements s') k = Some x) \<and>
     (\<forall>r'. stored s' r' \<longrightarrow> goalKey r' < nextGoalKey s \<longrightarrow> (\<exists>r. stored s r \<and> goal_later r r'))"

lemma goal_later_refl [simp]: "goal_later r r"
  by (simp add: goal_later_def)

lemma completed_prefix:
  assumes "take (length (completed_steps p)) q = completed_steps p" and "take (length (completed_steps q)) u = completed_steps q"
  shows "take (length (completed_steps p)) u = completed_steps p"
proof -
  have "completed_steps (completed_steps p) = completed_steps p" by (simp add: completed_steps_def)
  moreover have "completed_steps q = completed_steps (take (length (completed_steps p)) q) @ completed_steps (drop (length (completed_steps p)) q)"
    by (simp only: completed_steps_def filter_append [symmetric] append_take_drop_id)
  ultimately obtain z where z: "completed_steps q = completed_steps p @ z" using assms(1) by metis
  have "take (length (completed_steps p)) (take (length (completed_steps q)) u) = completed_steps p"
    unfolding assms(2) by (simp add: z)
  then show ?thesis using z by simp
qed

lemma goal_later_trans: "goal_later r r' \<Longrightarrow> goal_later r' r'' \<Longrightarrow> goal_later r r''"
  using completed_prefix by (auto simp: goal_later_def same_goal_def)

lemma progress_later: "goal_ok l r \<Longrightarrow> progress r r' \<Longrightarrow> goal_later r r'"
  by (simp add: progress_def goal_later_def plan_progress_def)

lemma same_goal_key: "same_goal r r' \<Longrightarrow> goal_key_of r' = goal_key_of r"
  by (simp add: same_goal_def goal_key_of_def)

lemma goal_later_key: "goal_later r r' \<Longrightarrow> goal_key_of r' = goal_key_of r \<and> goalKey r' = goalKey r"
  by (auto simp: goal_later_def same_goal_key) (simp add: same_goal_def)

lemma goals_later_refl [simp]: "goals_later s s"
  by (auto simp: goals_later_def intro: goal_later_refl)

lemma goals_later_trans:
  assumes "goals_later s t" and "goals_later t u"
  shows "goals_later s u"
proof -
  have "\<exists>r. stored s r \<and> goal_later r r'" if u: "stored u r'" and new: "goalKey r' < nextGoalKey s" for r'
  proof -
    have "goalKey r' < nextGoalKey t" using new assms(1) by (auto simp: goals_later_def)
    then obtain q where "stored t q" "goal_later q r'" using u assms(2) unfolding goals_later_def by blast
    moreover from this have "goalKey q < nextGoalKey s" using new goal_later_key by metis
    ultimately show ?thesis using assms(1) goal_later_trans by (fastforce simp: goals_later_def)
  qed
  then show ?thesis using assms by (auto simp: goals_later_def)
qed

lemma goals_filedD:
  assumes "goals_filed l s" and "js_get (goals s) k = Some r"
  shows "k = goal_key_of r" "goal_ok l r" "1 \<le> goalKey r" "goalKey r < nextGoalKey s" "stored s r"
  using assms unfolding goals_filed_def stored_def by metis+

lemma goal_stored_value: "goals_filed l s \<Longrightarrow> r \<in> set (js_values (goals s)) \<longleftrightarrow> stored s r"
  by (auto simp: goals_filed_def set_js_values stored_def)

lemma goal_stored_unique: "goals_filed l s \<Longrightarrow> stored s r \<Longrightarrow> stored s x \<Longrightarrow> goalKey x = goalKey r \<Longrightarrow> x = r"
  by (rule sorted_keys_inject [where f = goalKey and xs = "js_values (goals s)"])
    (auto simp: goal_stored_value, simp add: goals_filed_def)

lemma stored_ok: "goals_filed l s \<Longrightarrow> stored s r \<Longrightarrow> goal_ok l r \<and> goalKey r < nextGoalKey s"
  using goals_filedD [of l s "goal_key_of r" r] by (simp add: stored_def)

section \<open>Replacing a goal\<close>

lemma put_goal_simps [simp]:
  "goalRetirements (put_goal r s) = goalRetirements s" "nextGoalKey (put_goal r s) = nextGoalKey s" "retired p (put_goal r s) = retired p s"
  by (simp_all add: put_goal_def retired_def)

lemma stored_put:
  assumes "goals_filed l s" "stored s r" "same_goal r r'"
  shows "stored (put_goal r' s) x \<longleftrightarrow> x = r' \<or> stored s x \<and> goalKey x \<noteq> goalKey r"
proof (cases "goal_key_of x = goal_key_of r")
  case True
  then have "stored s x \<Longrightarrow> x = r" using assms(2) by (simp add: stored_def)
  with True show ?thesis using same_goal_key [OF assms(3)] by (auto simp: stored_def put_goal_def js_get_set)
next
  case False
  then have "stored (put_goal r' s) x \<longleftrightarrow> stored s x" "x \<noteq> r'"
    using same_goal_key [OF assms(3)] by (auto simp: stored_def put_goal_def js_get_set)
  then show ?thesis using False goal_stored_unique [OF assms(1,2), of x] by auto
qed

lemma put_values:
  assumes "stored s r" "same_goal r r'"
  obtains xs ys where "js_values (goals s) = xs @ r # ys" "js_values (goals (put_goal r' s)) = xs @ r' # ys"
proof -
  have "js_get (goals s) (goal_key_of r') = Some r" using assms same_goal_key [OF assms(2)] by (simp add: stored_def)
  from js_values_set_present [OF this, of r'] obtain xs ys
    where "js_values (goals s) = xs @ r # ys" "js_values (js_set (goal_key_of r') r' (goals s)) = xs @ r' # ys" by blast
  then show thesis by (intro that) (simp_all add: put_goal_def)
qed

lemma put_goals_filed:
  assumes "goals_filed l s" "stored s r" "same_goal r r'" "goal_ok l r'"
  shows "goals_filed l (put_goal r' s)"
proof -
  obtain xs ys where v: "js_values (goals s) = xs @ r # ys" "js_values (goals (put_goal r' s)) = xs @ r' # ys"
    by (rule put_values [OF assms(2,3)])
  have key: "goalKey r' = goalKey r" using assms(3) by (simp add: same_goal_def)
  have "k = goal_key_of x \<and> goal_ok l x \<and> 1 \<le> goalKey x \<and> goalKey x < nextGoalKey s" if "js_get (goals (put_goal r' s)) k = Some x" for k x
  proof (cases "k = goal_key_of r'")
    case True
    with that have "x = r'" by (simp add: put_goal_def js_get_set)
    with True show ?thesis using assms(4) key goals_filedD(3,4) [OF assms(1) assms(2) [unfolded stored_def]] by simp
  next
    case False
    with that have "js_get (goals s) k = Some x" by (simp add: put_goal_def js_get_set)
    then show ?thesis using goals_filedD [OF assms(1)] by blast
  qed
  moreover have "sorted_wrt (<) (map goalKey (js_values (goals (put_goal r' s))))"
    using assms(1) v key by (simp add: goals_filed_def)
  moreover have "js_ok (goals (put_goal r' s))" "js_ok (goalRetirements (put_goal r' s))" "1 \<le> nextGoalKey (put_goal r' s)"
    using assms(1) by (simp_all add: goals_filed_def put_goal_def js_ok_set)
  ultimately show ?thesis unfolding goals_filed_def put_goal_simps by blast
qed

lemma put_open_goals:
  assumes "stored s r" "same_goal r r'" "isOpen r"
  shows "length (open_goals p (put_goal r' s)) \<le> length (open_goals p s)"
proof -
  obtain xs ys where v: "js_values (goals s) = xs @ r # ys" "js_values (goals (put_goal r' s)) = xs @ r' # ys"
    by (rule put_values [OF assms(1,2)])
  then show ?thesis using assms(2,3) by (simp add: open_goals_def same_goal_def)
qed

lemma put_open_bounded:
  "open_bounded l s \<Longrightarrow> stored s r \<Longrightarrow> same_goal r r' \<Longrightarrow> isOpen r \<Longrightarrow> open_bounded l (put_goal r' s)"
  unfolding open_bounded_def by (meson of_nat_le_iff order_trans put_open_goals)

lemma put_goals_later:
  assumes "goals_filed l s" "stored s r" "progress r r'"
  shows "goals_later s (put_goal r' s)"
proof -
  have same: "same_goal r r'" using assms(3) by (simp add: progress_def)
  have "goal_later r r'" using assms stored_ok progress_later by blast
  then show ?thesis using assms(2) stored_put [OF assms(1,2) same] by (auto simp: goals_later_def intro: goal_later_refl)
qed

lemma revised_ok:
  assumes inv: "goal_inv l s" and r: "stored s r" "\<not> retired (r_partition r) s" "progress r r'" "goal_ok l r'"
  shows "goal_inv l (put_goal r' s) \<and> goals_later s (put_goal r' s)"
proof -
  have i: "goals_filed l s" "retirements_hold s" "open_bounded l s" using inv by (simp_all add: goal_inv_def)
  have same: "same_goal r r'" "isOpen r" using r(3) by (simp_all add: progress_def)
  have "r_partition r' = r_partition r" using same by (simp add: same_goal_def)
  then have "retirements_hold (put_goal r' s)"
    using i(2) r(2) by (auto simp: retirements_hold_def stored_put [OF i(1) r(1) same(1)])
  then show ?thesis
    using put_goals_filed [OF i(1) r(1) same(1) r(4)] put_open_bounded [OF i(3) r(1) same] put_goals_later [OF i(1) r(1,3)]
    by (simp add: goal_inv_def)
qed

end
