(* ===== verification/Goal_Steps.thy ===== *)
theory Goal_Steps
  imports Goal_Inv
begin

text \<open>Every atomic step of the goal store keeps its invariant and leaves a later state.\<close>

section \<open>Creating\<close>

lemma create_goal_cases:
  assumes "create_goal l aborted d m s = (s', Inr r)"
  shows "draft_ok l d" "m \<le> maxOpenGoalsPerOwnerGeneration l" "\<not> retired (goalPartition d) s" "\<not> js_has (goals s) (goal_key_of r)"
    "int (length (open_goals (goalPartition d) s)) < m" "discard (serializeGoalRecord r l) = Inr ()" "r = new_goal d (nextGoalKey s)"
    "s' = s\<lparr>nextGoalKey := nextGoalKey s + 1, goals := js_set (goal_key_of r) r (goals s)\<rparr>"
  using assms
  by (auto simp: create_goal_def commit_eq_Inr Let_def validateGoalPageLimit_def retired_def goal_key_of_def new_goal_def rbind_eq_Inr)

lemma positive_one: "is_positive_decimal (js ''1'')" and of_decimal_one: "of_decimal (js ''1'') = 1"
  by (simp_all add: is_positive_decimal_def js_def is_digit_def of_decimal_def digit_value_def)

lemma new_goal_ok:
  assumes "draft_ok l d" "discard (serializeGoalRecord (new_goal d n) l) = Inr ()" "model_result_fits l (new_goal d n)"
  shows "goal_ok l (new_goal d n)"
  using assms by (simp add: goal_ok_def new_goal_def draft_ok_def positive_one opt_ok_def)

lemma created_ok:
  assumes inv: "goal_inv l s" and c: "create_goal l aborted d m s = (s', Inr r)" and fits: "model_result_fits l r"
  shows "goal_inv l s' \<and> goals_later s s'"
proof -
  note c = create_goal_cases [OF c]
  have i: "goals_filed l s" "retirements_hold s" "open_bounded l s" using inv by (simp_all add: goal_inv_def)
  have ok: "goal_ok l r" using new_goal_ok c(1,6,7) fits by simp
  have key: "goalKey r = nextGoalKey s" "r_partition r = goalPartition d" "isOpen r" using c(7) by (simp_all add: new_goal_def isOpen_def)
  have new: "js_get (goals s) (goal_key_of r) = None" using c(4) by (simp add: js_has_def)
  have vals: "js_values (goals s') = js_values (goals s) @ [r]" by (simp add: c(8) js_values_set_new [OF new])
  have st: "stored s' x \<longleftrightarrow> x = r \<or> stored s x" for x
    using new by (auto simp: stored_def c(8) js_get_set)
  have old: "goalKey x < nextGoalKey s" if "stored s x" for x using that stored_ok [OF i(1)] by blast
  have "goals_filed l s'"
    unfolding goals_filed_def
  proof (intro conjI allI impI)
    fix k x assume "js_get (goals s') k = Some x"
    then show "k = goal_key_of x" "goal_ok l x" "1 \<le> goalKey x" "goalKey x < nextGoalKey s'"
      using ok key i(1) goals_filedD [OF i(1)] by (auto simp: c(8) js_get_set goals_filed_def less_Suc_eq split: if_splits)
  next
    have "\<forall>x \<in> set (js_values (goals s)). goalKey x < goalKey r" using goal_stored_value [OF i(1)] old key by simp
    then show "sorted_wrt (<) (map goalKey (js_values (goals s')))"
      using i(1) by (simp add: vals goals_filed_def sorted_wrt_append)
  qed (use i(1) in \<open>simp_all add: c(8) goals_filed_def js_ok_set\<close>)
  moreover have "retirements_hold s'"
  proof -
    have "retired q s' \<longleftrightarrow> retired q s" "goalRetirements s' = goalRetirements s" for q :: authority_partition
      by (simp_all add: retired_def c(8))
    then show ?thesis using i(2) c(3) key unfolding retirements_hold_def st by metis
  qed
  moreover have "open_bounded l s'"
    unfolding open_bounded_def
  proof
    fix p :: authority_partition
    have same: "sameOwnerGeneration (goalPartition d) p \<Longrightarrow> open_goals p s = open_goals (goalPartition d) s"
      by (auto simp: open_goals_def sameOwnerGeneration_def intro: filter_cong)
    have "int (length (open_goals p s)) \<le> maxOpenGoalsPerOwnerGeneration l" using i(3) by (simp add: open_bounded_def)
    then show "int (length (open_goals p s')) \<le> maxOpenGoalsPerOwnerGeneration l"
      using c(2,5) same key by (auto simp: open_goals_def [of _ s'] vals open_goals_def [of p s, symmetric])
  qed
  moreover have "goals_later s s'"
    using key old unfolding goals_later_def st by (auto simp: c(8) intro: goal_later_refl)
  ultimately show ?thesis by (simp add: goal_inv_def)
qed

section \<open>Purging\<close>

lemma fold_delete_filter: "fold js_delete ks m = filter (\<lambda>(k, v). k \<notin> set ks) m"
  by (induction ks arbitrary: m) (auto simp: js_delete_def AList.delete_eq intro!: filter_cong)

lemma length_filter_filter: "length (filter P (map f (filter Q xs))) \<le> length (filter P (map f xs))"
  by (induction xs) auto

lemma purged_ok:
  assumes inv: "goal_inv l s" and p: "purge_goals l p t n s = (s', Inr ks)"
  shows "goal_inv l s' \<and> goals_later s s'"
proof -
  have i: "goals_filed l s" "retirements_hold s" "open_bounded l s" using inv by (simp_all add: goal_inv_def)
  obtain ids where "s' = s\<lparr>goals := fold js_delete ids (goals s)\<rparr>"
    using p unfolding purge_goals_def commit_eq_Inr Let_def prod.inject by blast
  then have s': "s' = s\<lparr>goals := filter (\<lambda>(k, v). k \<notin> set ids) (goals s)\<rparr>" by (simp add: fold_delete_filter)
  have g: "goals s' = fold js_delete ids (goals s)" by (simp add: s' fold_delete_filter)
  have get: "js_get (goals s') k = (if k \<in> set ids then None else js_get (goals s) k)" for k
    by (simp add: g jm.get_fold_del)
  have st: "stored s' x \<Longrightarrow> stored s x" for x by (simp add: stored_def get split: if_splits)
  have "goals_filed l s'"
    unfolding goals_filed_def
  proof (intro conjI allI impI)
    fix k x assume "js_get (goals s') k = Some x"
    then have "js_get (goals s) k = Some x" by (simp add: get split: if_splits)
    then show "k = goal_key_of x" "goal_ok l x" "1 \<le> goalKey x" "goalKey x < nextGoalKey s'"
      using goals_filedD [OF i(1)] by (simp_all add: s')
  next
    show "sorted_wrt (<) (map goalKey (js_values (goals s')))"
      using i(1) by (simp add: s' goals_filed_def js_values_def sorted_wrt_map sorted_wrt_filter)
    show "js_ok (goals s')" unfolding g using i(1) by (intro jm.ok_fold_del) (simp add: goals_filed_def)
  qed (use i(1) in \<open>simp_all add: s' goals_filed_def\<close>)
  moreover have "retirements_hold s'" using i(2) st by (auto simp: retirements_hold_def s' retired_def)
  moreover have "open_bounded l s'"
  proof -
    have "length (open_goals q s') \<le> length (open_goals q s)" for q :: authority_partition
      unfolding open_goals_def js_values_def g fold_delete_filter by (rule length_filter_filter)
    then show ?thesis using i(3) unfolding open_bounded_def by (meson of_nat_le_iff order_trans)
  qed
  moreover have "goals_later s s'" using st by (auto simp: goals_later_def s' intro: goal_later_refl)
  ultimately show ?thesis by (simp add: goal_inv_def)
qed

section \<open>Retiring\<close>

text \<open>The goals a retirement cancels are put one after the other.\<close>

lemma cancelled_goal_Inr:
  assumes "cancelled_goal l d r = Inr r'" and "goal_ok l r" and "isOpen r" and "retirement_ok d" and "samePartition (r_partition r) (gr_partition d)"
  shows "progress r r' \<and> goal_ok l r' \<and> \<not> isOpen r'"
proof -
  obtain c t where c: "compareGoalTicks (tick (gr_gameTime d)) (tick (r_gameTime r)) = Inr c" "0 \<le> c"
      and r': "r' = r\<lparr>r_status := Cancelled, r_gameTime := gr_gameTime d, r_updatedAt := gr_recordedAt d,
        r_revision := to_decimal (Suc (of_decimal (r_revision r))), lastHostAdvanceFingerprint := None\<rparr>"
      and fits: "serializeGoalRecord r' l = Inr t"
    using assms(1,2) by (auto simp: cancelled_goal_def rbind_eq_Inr Let_def goal_ok_def is_positive_decimal_is_decimal)
  have "progress r r'"
    using c assms(3) compareGoalTicks_ge [OF c(1)]
    by (auto simp: r' progress_def same_goal_def status_edge_def isOpen_def plan_progress_def completed_steps_def take_map
      dest: arg_cong [where f = length])
       (metis assms(2) completed_steps_def append_eq_conv_conj goal_ok_def plan_ok_shape)+
  moreover have "goal_ok l r'"
    using assms(2,4,5) fits by (simp add: r' goal_ok_def retirement_ok_def time_ok_def samePartition_def isOpen_def opt_ok_def)
  ultimately show ?thesis by (simp add: r' isOpen_def)
qed

lemma fold_put_goal:
  assumes "list_all2 (\<lambda>r r'. progress r r' \<and> goal_ok l r') rs rs'" and "goals_filed l s" and "open_bounded l s"
    and "\<forall>r \<in> set rs. stored s r" and "distinct (map goalKey rs)"
  shows "goals_filed l (fold put_goal rs' s) \<and> open_bounded l (fold put_goal rs' s) \<and> goals_later s (fold put_goal rs' s) \<and>
    goalRetirements (fold put_goal rs' s) = goalRetirements s \<and>
    (\<forall>x. stored (fold put_goal rs' s) x \<longleftrightarrow> x \<in> set rs' \<or> stored s x \<and> goalKey x \<notin> goalKey ` set rs)"
  using assms
proof (induction rs rs' arbitrary: s rule: list_all2_induct)
  case (Cons r rs r' rs')
  have r: "stored s r" "same_goal r r'" "isOpen r" "goal_ok l r'" using Cons by (auto simp: progress_def)
  let ?s = "put_goal r' s"
  note st = stored_put [OF Cons.prems(1) r(1,2)]
  have rest: "distinct (map goalKey rs)" "goalKey r \<notin> goalKey ` set rs" using Cons.prems(4) by auto
  then have rest_stored: "\<forall>x \<in> set rs. stored ?s x" using Cons.prems(3) by (metis st image_eqI list.set_intros(2))
  have "goals_filed l ?s" "open_bounded l ?s" "goals_later s ?s"
    using put_goals_filed [OF Cons.prems(1) r(1,2,4)] put_open_bounded [OF Cons.prems(2) r(1,2,3)]
      put_goals_later [OF Cons.prems(1) r(1)] Cons.hyps(1) by simp_all
  then have IH: "goals_filed l (fold put_goal rs' ?s) \<and> open_bounded l (fold put_goal rs' ?s) \<and> goals_later ?s (fold put_goal rs' ?s) \<and>
      goalRetirements (fold put_goal rs' ?s) = goalRetirements ?s \<and>
      (\<forall>x. stored (fold put_goal rs' ?s) x \<longleftrightarrow> x \<in> set rs' \<or> stored ?s x \<and> goalKey x \<notin> goalKey ` set rs)"
    and later: "goals_later s ?s" using Cons.IH [of ?s] rest rest_stored by blast+
  have "goalKey r' = goalKey r" using r(2) by (simp add: same_goal_def)
  then have "stored (fold put_goal rs' ?s) x \<longleftrightarrow> x \<in> set (r' # rs') \<or> stored s x \<and> goalKey x \<notin> goalKey ` set (r # rs)" for x
    using IH st rest(2) by (auto simp: image_iff)
  with IH later show ?case using goals_later_trans [of s ?s] by simp
qed simp

lemma retirement_updates:
  assumes "list_all2 (\<lambda>e e'. retirement_entry l d e = Inr e') es us" and "goals_filed l s" and "retirement_ok d"
    and "\<forall>(k, r) \<in> set es. js_get (goals s) k = Some r \<and> samePartition (r_partition r) (gr_partition d) \<and> isOpen r"
  shows "list_all2 (\<lambda>r r'. progress r r' \<and> goal_ok l r') (map snd es) (map snd us) \<and> (\<forall>r \<in> set (map snd us). \<not> isOpen r) \<and>
    s\<lparr>goals := fold (\<lambda>(k, r). js_set k r) us m\<rparr> = fold put_goal (map snd us) (s\<lparr>goals := m\<rparr>)"
  using assms(1,4)
proof (induction es us arbitrary: m rule: list_all2_induct)
  case (Cons e es u us)
  obtain k r where e: "e = (k, r)" by (cases e)
  with Cons.prems have r: "js_get (goals s) k = Some r" "samePartition (r_partition r) (gr_partition d)" "isOpen r" by auto
  from Cons.hyps(1) e obtain r' where u: "u = (k, r')" "cancelled_goal l d r = Inr r'"
    by (auto simp: retirement_entry_def rbind_eq_Inr)
  note f = goals_filedD [OF assms(2) r(1)]
  note r' = cancelled_goal_Inr [OF u(2) f(2) r(3) assms(3) r(2)]
  then have "goal_key_of r' = k" using f(1) same_goal_key by (auto simp: progress_def)
  then have "js_set k r' m = goals (put_goal r' (s\<lparr>goals := m\<rparr>))" "put_goal r' (s\<lparr>goals := m\<rparr>) = s\<lparr>goals := js_set k r' m\<rparr>"
    by (simp_all add: put_goal_def)
  moreover have "list_all2 (\<lambda>r r'. progress r r' \<and> goal_ok l r') (map snd es) (map snd us) \<and> (\<forall>r \<in> set (map snd us). \<not> isOpen r) \<and>
      s\<lparr>goals := fold (\<lambda>(k, r). js_set k r) us (js_set k r' m)\<rparr> = fold put_goal (map snd us) (s\<lparr>goals := js_set k r' m\<rparr>)"
    by (rule Cons.IH) (use Cons.prems in simp)
  ultimately show ?case using r' unfolding e u by simp
qed simp

lemma retire_cases:
  assumes "retireAuthoritySynchronously l aborted d s = (s', Inr x)"
  obtains (replay) "js_get (goalRetirements s) (partitionKey (gr_partition d)) = Some x" "sameRetirement x d" "s' = s"
  | (fresh) us where "retirement_ok d" "js_get (goalRetirements s) (partitionKey (gr_partition d)) = None"
      "map_checked (retirement_entry l d)
         (filter (\<lambda>(k, r). samePartition (r_partition r) (gr_partition d) \<and> isOpen r) (goals s)) = Inr us"
      "x = goal_retirement.extend d (goal_retirement_record.fields (length us))"
      "s' = s\<lparr>goals := fold (\<lambda>(k, r). js_set k r) us (goals s),
              goalRetirements := js_set (partitionKey (gr_partition d)) x (goalRetirements s)\<rparr>"
proof (cases "js_get (goalRetirements s) (partitionKey (gr_partition d))")
  case None
  with assms obtain us where "retirement_ok d" "map_checked (retirement_entry l d)
      (filter (\<lambda>(k, r). samePartition (r_partition r) (gr_partition d) \<and> isOpen r) (goals s)) = Inr us"
    "x = goal_retirement.extend d (goal_retirement_record.fields (length us))"
    "s' = s\<lparr>goals := fold (\<lambda>(k, r). js_set k r) us (goals s),
       goalRetirements := js_set (partitionKey (gr_partition d)) x (goalRetirements s)\<rparr>"
    by (auto simp: retireAuthoritySynchronously_def commit_eq_Inr Let_def)
  with None show thesis by (intro fresh)
next
  case (Some y)
  with assms show thesis
    by (intro replay) (auto simp: retireAuthoritySynchronously_def commit_eq_Inr Let_def split: if_splits)
qed

lemma retired_ok:
  assumes inv: "goal_inv l s" and c: "retireAuthoritySynchronously l aborted d s = (s', Inr x)"
  shows "goal_inv l s' \<and> goals_later s s'"
  using c
proof (cases rule: retire_cases)
  case replay
  with inv show ?thesis by simp
next
  case (fresh us)
  have i: "goals_filed l s" "retirements_hold s" "open_bounded l s" using inv by (simp_all add: goal_inv_def)
  let ?es = "filter (\<lambda>(k, r). samePartition (r_partition r) (gr_partition d) \<and> isOpen r) (goals s)"
  let ?u = "fold put_goal (map snd us) s"
  have js: "js_ok (goals s)" using i(1) by (simp add: goals_filed_def)
  have es: "\<forall>(k, r) \<in> set ?es. js_get (goals s) k = Some r \<and> samePartition (r_partition r) (gr_partition d) \<and> isOpen r"
    using js_get_entry [OF js] by auto
  have all: "list_all2 (\<lambda>e e'. retirement_entry l d e = Inr e') ?es us" using fresh(3) by (simp add: map_checked_Inr)
  note up = retirement_updates [OF all i(1) fresh(1) es]
  have "s\<lparr>goals := goals s\<rparr> = s" by simp
  then have "s\<lparr>goals := fold (\<lambda>(k, r). js_set k r) us (goals s)\<rparr> = ?u"
    using conjunct2 [OF conjunct2 [OF up], of "goals s"] by (simp only:)
  then have s': "s' = ?u\<lparr>goalRetirements := js_set (partitionKey (gr_partition d)) x (goalRetirements s)\<rparr>"
    by (simp only: fresh(5))
  have members: "stored s r" if "r \<in> set (map snd ?es)" for r
  proof -
    from that obtain k where "(k, r) \<in> set ?es" by force
    with es have "js_get (goals s) k = Some r" by blast
    then show ?thesis by (rule goals_filedD(5) [OF i(1)])
  qed
  have "distinct (map goalKey (map snd ?es))"
  proof -
    have "sorted_wrt (<) (map goalKey (map snd (goals s)))" using i(1) by (simp add: goals_filed_def js_values_def)
    then have "sorted_wrt (<) (map goalKey (map snd ?es))" by (simp add: sorted_wrt_map sorted_wrt_filter)
    then show ?thesis using strict_sorted_iff by blast
  qed
  note u = fold_put_goal [OF conjunct1 [OF up] i(1,3) ballI [OF members] this]
  have fields: "goals s' = goals ?u" "nextGoalKey s' = nextGoalKey ?u" by (simp_all add: s')
  then have st: "stored s' r \<longleftrightarrow> stored ?u r" for r by (simp add: stored_def)
  have "goals_filed l s'" using u i(1) by (simp add: goals_filed_def fields) (simp add: s' js_ok_set)
  moreover have "open_bounded l s'" using u by (simp add: open_bounded_def open_goals_def fields)
  moreover have "goals_later s s'"
    using u fresh(2) unfolding goals_later_def st fields(2) by (auto simp: s' js_get_set)
  moreover have "retirements_hold s'"
    unfolding retirements_hold_def
  proof (intro conjI allI impI)
    fix k y assume "js_get (goalRetirements s') k = Some y"
    moreover have "gr_partition x = gr_partition d"
      by (simp add: fresh(4) goal_retirement.extend_def goal_retirement_record.fields_def)
    ultimately show "k = partitionKey (gr_partition y)" "partition_ok (gr_partition y)"
      using i(2) fresh(1) by (auto simp: s' js_get_set retirements_hold_def retirement_ok_def split: if_splits)
  next
    fix r assume r: "stored s' r" "retired (r_partition r) s'"
    then consider "r \<in> set (map snd us)" | "stored s r" "goalKey r \<notin> goalKey ` set (map snd ?es)" using u st by blast
    then show "\<not> isOpen r"
    proof cases
      case 1
      then show ?thesis using up by blast
    next
      case 2
      show ?thesis
      proof
        assume "isOpen r"
        then have "\<not> retired (r_partition r) s" using 2(1) i(2) by (auto simp: retirements_hold_def)
        with r(2) have "partitionKey (r_partition r) = partitionKey (gr_partition d)"
          by (auto simp: retired_def s' js_has_def js_get_set split: if_splits)
        moreover have "partition_ok (r_partition r)" using stored_ok [OF i(1) 2(1)] by (simp add: goal_ok_def)
        ultimately have "samePartition (r_partition r) (gr_partition d)" using fresh(1) partitionKey_inject by (auto simp: retirement_ok_def)
        with \<open>isOpen r\<close> 2(1) js have "(goal_key_of r, r) \<in> set ?es" by (simp add: js_get_entry stored_def)
        then show False using 2(2) by force
      qed
    qed
  qed
  ultimately show ?thesis by (simp add: goal_inv_def)
qed

section \<open>Runs\<close>

lemma goal_step_ok: "goal_step l s s' \<Longrightarrow> goal_inv l s \<Longrightarrow> goal_inv l s' \<and> goals_later s s'"
  by (erule goal_step.cases) (metis created_ok revised_ok retired_ok purged_ok)+

lemma goal_steps_ok: "goal_steps l s s' \<Longrightarrow> goal_inv l s \<Longrightarrow> goal_inv l s' \<and> goals_later s s'"
proof (induction rule: rtranclp_induct)
  case (step t u)
  then show ?case using goal_step_ok goals_later_trans by blast
qed simp

lemma empty_goal_inv: "captureGoalLimits l = Inr l \<Longrightarrow> goal_inv l empty_goal_store"
  by (auto simp: goal_inv_def empty_goal_store_def goals_filed_def retirements_hold_def open_bounded_def stored_def open_goals_def
      js_values_def captureGoalLimits_def rbind_eq_Inr goal_limit_def)

end
