(* ===== verification/Goal_Rely.thy ===== *)
theory Goal_Rely
  imports Goal_Steps
begin

text \<open>
  What the awaits of the goal service may do to the store. The invariant and the steps of Goal_Inv describe a store
  on which no call is overtaken; this theory describes what every sequence of successful operations of the class
  InMemoryGoalStore keeps, whatever their arguments and their order, and the rely conditions of the calls: a
  relation between the store before and after an await.
\<close>

section \<open>What every write keeps\<close>

text \<open>A store in which goals are filed under their keys, with admissible plans and positive revisions.\<close>

definition goals_keyed :: "goal_limits \<Rightarrow> goal_store \<Rightarrow> bool" where
  "goals_keyed l s \<longleftrightarrow> js_ok (goals s) \<and>
     (\<forall>k r. js_get (goals s) k = Some r \<longrightarrow> k = goal_key_of r \<and> plan_ok l (r_plan r) \<and> is_positive_decimal (r_revision r) \<and>
        goalKey r < nextGoalKey s)"

text \<open>A goal that existed before is still as it was or is at a later revision; goal keys are not used again.\<close>

definition goals_kept :: "goal_store \<Rightarrow> goal_store \<Rightarrow> bool" where
  "goals_kept u v \<longleftrightarrow> nextGoalKey u \<le> nextGoalKey v \<and>
     (\<forall>r'. stored v r' \<longrightarrow> goalKey r' < nextGoalKey u \<longrightarrow>
        (\<exists>r. stored u r \<and> same_goal r r' \<and> (r' = r \<or> of_decimal (r_revision r) < of_decimal (r_revision r'))))"

lemma goals_keyedD:
  assumes "goals_keyed l s" and "js_get (goals s) k = Some r"
  shows "k = goal_key_of r" "plan_ok l (r_plan r)" "is_positive_decimal (r_revision r)" "goalKey r < nextGoalKey s" "stored s r"
  using assms unfolding goals_keyed_def stored_def by metis+

lemma stored_keyed:
  assumes "goals_keyed l s" and "stored s r"
  shows "plan_ok l (r_plan r)" "is_positive_decimal (r_revision r)" "goalKey r < nextGoalKey s"
  using goals_keyedD [OF assms(1), of "goal_key_of r" r] assms(2) by (simp_all add: stored_def)

lemma goal_inv_keyed: "goal_inv l s \<Longrightarrow> goals_keyed l s"
  by (auto simp: goal_inv_def goals_filed_def goals_keyed_def goal_ok_def)

lemma goals_later_kept: "goals_later u v \<Longrightarrow> goals_kept u v"
  unfolding goals_later_def goals_kept_def goal_later_def same_goal_def by blast

lemma same_goal_refl [simp]: "same_goal r r"
  by (simp add: same_goal_def)

lemma goals_kept_refl [simp]: "goals_kept u u"
  by (auto simp: goals_kept_def)

lemma goals_kept_trans:
  assumes "goals_kept u v" and "goals_kept v w"
  shows "goals_kept u w"
proof -
  have "\<exists>r. stored u r \<and> same_goal r r' \<and> (r' = r \<or> of_decimal (r_revision r) < of_decimal (r_revision r'))"
    if r': "stored w r'" "goalKey r' < nextGoalKey u" for r'
  proof -
    have "goalKey r' < nextGoalKey v" using r'(2) assms(1) by (auto simp: goals_kept_def)
    then obtain q where q: "stored v q" "same_goal q r'" "r' = q \<or> of_decimal (r_revision q) < of_decimal (r_revision r')"
      using r'(1) assms(2) unfolding goals_kept_def by blast
    then have "goalKey q < nextGoalKey u" using r'(2) by (simp add: same_goal_def)
    then obtain r where "stored u r" "same_goal r q" "q = r \<or> of_decimal (r_revision r) < of_decimal (r_revision q)"
      using q(1) assms(1) unfolding goals_kept_def by blast
    with q(2,3) show ?thesis by (intro exI [of _ r]) (auto simp: same_goal_def)
  qed
  with assms show ?thesis by (auto simp: goals_kept_def)
qed

text \<open>An entry of the new map that was written is a revision of the entry it replaced, or a new goal.\<close>

definition revision_of :: "goal_limits \<Rightarrow> goal_record \<Rightarrow> goal_record \<Rightarrow> bool" where
  "revision_of l c r \<longleftrightarrow> same_goal c r \<and> plan_ok l (r_plan r) \<and> r_revision r = to_decimal (Suc (of_decimal (r_revision c)))"

definition new_entry :: "goal_limits \<Rightarrow> goal_store \<Rightarrow> goal_store \<Rightarrow> js_string \<Rightarrow> goal_record \<Rightarrow> bool" where
  "new_entry l s s' k r \<longleftrightarrow> k = goal_key_of r \<and> plan_ok l (r_plan r) \<and> is_positive_decimal (r_revision r) \<and>
     nextGoalKey s \<le> goalKey r \<and> goalKey r < nextGoalKey s'"

lemma written_keeps:
  assumes s: "goals_keyed l s" and ok: "js_ok (goals s')" and next_key: "nextGoalKey s \<le> nextGoalKey s'"
    and entries: "\<And>k r. js_get (goals s') k = Some r \<Longrightarrow> js_get (goals s) k = Some r \<or>
      (\<exists>c. js_get (goals s) k = Some c \<and> revision_of l c r) \<or> new_entry l s s' k r"
  shows "goals_keyed l s' \<and> goals_kept s s'"
proof -
  have "k = goal_key_of r \<and> plan_ok l (r_plan r) \<and> is_positive_decimal (r_revision r) \<and> goalKey r < nextGoalKey s' \<and>
      (goalKey r < nextGoalKey s \<longrightarrow>
        (\<exists>c. stored s c \<and> same_goal c r \<and> (r = c \<or> of_decimal (r_revision c) < of_decimal (r_revision r))))"
    if "js_get (goals s') k = Some r" for k r
    using entries [OF that]
  proof (elim disjE exE conjE)
    assume "js_get (goals s) k = Some r"
    then show ?thesis using goals_keyedD [OF s] next_key same_goal_refl less_le_trans by metis
  next
    fix c assume c: "js_get (goals s) k = Some c" "revision_of l c r"
    note f = goals_keyedD [OF s c(1)]
    show ?thesis using f c(2) next_key same_goal_key [of c r]
      by (auto simp: revision_of_def same_goal_def intro!: exI [of _ c])
  qed (auto simp: new_entry_def)
  then show ?thesis using ok next_key unfolding goals_keyed_def goals_kept_def stored_def by metis
qed

lemma put_keeps:
  assumes "goals_keyed l s" and "stored s c" and "revision_of l c r"
  shows "goals_keyed l (put_goal r s) \<and> goals_kept s (put_goal r s)"
proof (rule written_keeps [OF assms(1)])
  show "js_ok (goals (put_goal r s))" using assms(1) by (simp add: put_goal_def goals_keyed_def js_ok_set)
  fix k x assume "js_get (goals (put_goal r s)) k = Some x"
  then show "js_get (goals s) k = Some x \<or> (\<exists>c. js_get (goals s) k = Some c \<and> revision_of l c x) \<or> new_entry l s (put_goal r s) k x"
    using assms(2,3) same_goal_key [of c r]
    by (auto simp: put_goal_def js_get_set stored_def revision_of_def split: if_splits)
qed simp

section \<open>The operations of the store\<close>

text \<open>One successful operation of InMemoryGoalStore that writes, with any arguments.\<close>

inductive store_write :: "goal_limits \<Rightarrow> goal_store \<Rightarrow> goal_store \<Rightarrow> bool" for l where
  write_create: "create_goal l aborted d m s = (s', Inr r) \<Longrightarrow> store_write l s s'"
| write_replace: "replace_goal l k e x s = (s', Inr r) \<Longrightarrow> store_write l s s'"
| write_retire: "retireAuthoritySynchronously l aborted d s = (s', Inr y) \<Longrightarrow> store_write l s s'"
| write_purge: "purge_goals l p t n s = (s', Inr ks) \<Longrightarrow> store_write l s s'"

abbreviation store_writes :: "goal_limits \<Rightarrow> goal_store \<Rightarrow> goal_store \<Rightarrow> bool" where
  "store_writes l \<equiv> (store_write l)\<^sup>*\<^sup>*"

lemma replace_goal_Inl: "replace_goal l k e x s = (s', Inl err) \<Longrightarrow> s' = s"
  by (auto simp: replace_goal_def commit_def Let_def split: sum.splits option.splits)

lemma replace_goal_Inr:
  assumes "replace_goal l k e x s = (s', Inr r')"
  obtains c n where "partition_ok k" "is_opaque_identifier (gk_goalId k)" "replacement_ok l k x" "\<not> retired k s"
    "js_get (goals s) (mapKey k (gk_goalId k)) = Some c" "samePartition (r_partition c) k" "r_revision c = e"
    "bigint_succ e = Inr n" "r' = replaced_goal c x n" "discard (serializeGoalRecord r' l) = Inr ()"
    "s' = s\<lparr>goals := js_set (mapKey k (gk_goalId k)) r' (goals s)\<rparr>"
proof (cases "js_get (goals s) (mapKey k (gk_goalId k))")
  case None
  with assms show thesis by (auto simp: replace_goal_def commit_eq_Inr Let_def)
next
  case (Some c)
  with assms show thesis
    by (intro that [of c]) (auto simp: replace_goal_def commit_eq_Inr Let_def retired_def rbind_eq_Inr)
qed

lemma replaced_goal_same: "same_goal r (replaced_goal r x n)"
  by (simp add: same_goal_def replaced_goal_def)

text \<open>The goals of a retirement are written one after the other.\<close>

lemma get_fold_set: "js_get (fold (\<lambda>(k, r). js_set k r) us m) k = Some x \<Longrightarrow> (k, x) \<in> set us \<or> js_get m k = Some x"
  by (induction us arbitrary: m) (fastforce simp: js_get_set split: if_splits)+

lemma ok_fold_set: "js_ok m \<Longrightarrow> js_ok (fold (\<lambda>(k, r). js_set k r) us m)"
  by (induction us arbitrary: m) (auto simp: js_ok_set)

lemma retirement_revises:
  assumes s: "goals_keyed l s" and us: "list_all2 (\<lambda>e e'. retirement_entry l d e = Inr e') es us" and es: "set es \<subseteq> set (goals s)"
    and u: "(k, x) \<in> set us"
  shows "\<exists>c. js_get (goals s) k = Some c \<and> revision_of l c x"
proof -
  obtain n where n: "n < length us" "us ! n = (k, x)" using u by (auto simp: in_set_conv_nth)
  obtain e where e: "e \<in> set es" "retirement_entry l d e = Inr (k, x)"
    using list_all2_nthD2 [OF us n(1)] list_all2_lengthD [OF us] n by (intro that [of "es ! n"]) simp_all
  then obtain c where c: "(k, c) \<in> set es" "cancelled_goal l d c = Inr x"
    by (intro that [of "snd e"]) (auto simp: retirement_entry_def rbind_eq_Inr)
  then have get: "js_get (goals s) k = Some c" using js_get_entry [of "goals s"] s es by (auto simp: goals_keyed_def)
  note f = goals_keyedD [OF s get]
  have "revision_of l c x" using c(2) f(2,3)
    by (auto simp: cancelled_goal_def rbind_eq_Inr Let_def revision_of_def same_goal_def is_positive_decimal_is_decimal)
  with get show ?thesis by blast
qed

lemma create_keeps:
  assumes s: "goals_keyed l s" and c: "create_goal l aborted d m s = (s', Inr r)"
  shows "goals_keyed l s' \<and> goals_kept s s'"
proof -
  note c = create_goal_cases [OF c]
  show ?thesis
  proof (rule written_keeps [OF s])
    fix k x assume "js_get (goals s') k = Some x"
    then show "js_get (goals s) k = Some x \<or> (\<exists>c. js_get (goals s) k = Some c \<and> revision_of l c x) \<or> new_entry l s s' k x"
      using c(1) by (auto simp: c(8) js_get_set new_entry_def c(7) new_goal_def positive_one draft_ok_def split: if_splits)
  qed (use s in \<open>simp_all add: c(8) goals_keyed_def js_ok_set\<close>)
qed

lemma replace_keeps:
  assumes s: "goals_keyed l s" and w: "replace_goal l k e x s = (s', Inr r)"
  shows "goals_keyed l s' \<and> goals_kept s s'"
proof -
  obtain c n where c: "replacement_ok l k x" "js_get (goals s) (mapKey k (gk_goalId k)) = Some c" "r_revision c = e"
      "bigint_succ e = Inr n" "r = replaced_goal c x n" "s' = s\<lparr>goals := js_set (mapKey k (gk_goalId k)) r (goals s)\<rparr>"
    by (rule replace_goal_Inr [OF w])
  note f = goals_keyedD [OF s c(2)]
  have "n = to_decimal (Suc (of_decimal (r_revision c)))" using c(3,4) f(3) is_positive_decimal_is_decimal by auto
  moreover have "same_goal c r" by (simp add: c(5) replaced_goal_same)
  ultimately have "revision_of l c r" "s' = put_goal r s" using c(1,5,6) f(1) same_goal_key [of c r]
    by (simp_all add: revision_of_def replacement_ok_def put_goal_def) (simp_all add: replaced_goal_def)
  then show ?thesis using put_keeps [OF s f(5)] by blast
qed

lemma retire_keeps:
  assumes s: "goals_keyed l s" and w: "retireAuthoritySynchronously l aborted d s = (s', Inr y)"
  shows "goals_keyed l s' \<and> goals_kept s s'"
  using w
proof (cases rule: retire_cases)
  case replay
  with s show ?thesis by simp
next
  case (fresh us)
  let ?es = "filter (\<lambda>(k, r). samePartition (r_partition r) (gr_partition d) \<and> isOpen r) (goals s)"
  have all: "list_all2 (\<lambda>e e'. retirement_entry l d e = Inr e') ?es us" using fresh(3) by (simp add: map_checked_Inr)
  show ?thesis
  proof (rule written_keeps [OF s])
    fix k x assume "js_get (goals s') k = Some x"
    then have "(k, x) \<in> set us \<or> js_get (goals s) k = Some x" using get_fold_set [of us "goals s" k x] by (simp add: fresh(5))
    then show "js_get (goals s) k = Some x \<or> (\<exists>c. js_get (goals s) k = Some c \<and> revision_of l c x) \<or> new_entry l s s' k x"
      using retirement_revises [OF s all] by auto
  qed (use s in \<open>simp_all add: fresh(5) goals_keyed_def ok_fold_set\<close>)
qed

lemma purge_keeps:
  assumes s: "goals_keyed l s" and w: "purge_goals l p t n s = (s', Inr ks)"
  shows "goals_keyed l s' \<and> goals_kept s s'"
proof -
  obtain ids where s': "s' = s\<lparr>goals := fold js_delete ids (goals s)\<rparr>"
    using w unfolding purge_goals_def commit_eq_Inr Let_def prod.inject by blast
  show ?thesis
  proof (rule written_keeps [OF s])
    show "js_ok (goals s')" using s by (simp add: s' goals_keyed_def jm.ok_fold_del)
  qed (simp_all add: s' jm.get_fold_del split: if_splits)
qed

lemma store_write_keeps: "store_write l s s' \<Longrightarrow> goals_keyed l s \<Longrightarrow> goals_keyed l s' \<and> goals_kept s s'"
  by (induction rule: store_write.induct) (blast dest: create_keeps replace_keeps retire_keeps purge_keeps)+

lemma store_writes_keep: "store_writes l s s' \<Longrightarrow> goals_keyed l s \<Longrightarrow> goals_keyed l s' \<and> goals_kept s s'"
proof (induction rule: rtranclp_induct)
  case (step u v)
  then show ?case using store_write_keeps [of l u v] goals_kept_trans by blast
qed simp

lemma store_writes_keyed: "store_writes l empty_goal_store s \<Longrightarrow> goals_keyed l s"
proof -
  have "goals_keyed l empty_goal_store" by (simp add: goals_keyed_def empty_goal_store_def js_keys_def js_get_def)
  then show "store_writes l empty_goal_store s \<Longrightarrow> goals_keyed l s" using store_writes_keep by blast
qed

section \<open>Rely conditions\<close>

text \<open>What is asked of a relation between the store before and after an await.\<close>

definition rely :: "goal_limits \<Rightarrow> (goal_store \<Rightarrow> goal_store \<Rightarrow> bool) \<Rightarrow> bool" where
  "rely l R \<longleftrightarrow> (\<forall>u. R u u) \<and> (\<forall>u v w. R u v \<longrightarrow> R v w \<longrightarrow> R u w) \<and>
     (\<forall>u v. goals_keyed l u \<longrightarrow> R u v \<longrightarrow> goals_keyed l v \<and> goals_kept u v)"

text \<open>Every await of a call keeps to the relation, from a state that satisfies the condition.\<close>

definition waits :: "(goal_store \<Rightarrow> bool) \<Rightarrow> (goal_store \<Rightarrow> goal_store \<Rightarrow> bool) \<Rightarrow> goal_env \<Rightarrow> bool" where
  "waits I R env \<longleftrightarrow> (\<forall>n u. I u \<longrightarrow> R u (while_waiting env n u))"

lemma waitsD: "waits I R env \<Longrightarrow> I u \<Longrightarrow> R u (while_waiting env n u)"
  by (simp add: waits_def)

text \<open>Other calls do any operations of the store at the awaits.\<close>

abbreviation others_write :: "goal_limits \<Rightarrow> goal_env \<Rightarrow> bool" where
  "others_write l \<equiv> waits (goals_keyed l) (store_writes l)"

lemma rely_store_writes: "rely l (store_writes l)"
  by (auto simp: rely_def dest: store_writes_keep)

lemma rely_nothing: "rely l (=)"
  by (auto simp: rely_def)

end
