(* ===== verification/Goal_Refine.thy ===== *)
theory Goal_Refine
  imports Goal_Rely
begin

text \<open>
  The goal service refines the atomic steps. The first part says of each call, with no condition on its awaits, what it
  does between them: it takes at most one write of its own, an expected revision replaced by a replacement that was
  judged on the goal read at the start. The locale \<open>shared_goals\<close> holds what follows when the awaits keep to a rely
  relation, and is interpreted on two of them: any operations of the store, and the steps of the specification that
  leave the goal of the call in place.
\<close>

section \<open>Waiting\<close>

text \<open>Only awaits lie between the two states.\<close>

abbreviation only_waits :: "goal_env \<Rightarrow> goal_store \<Rightarrow> goal_store \<Rightarrow> bool" where
  "only_waits env \<equiv> (\<lambda>u v. \<exists>n. v = while_waiting env n u)\<^sup>*\<^sup>*"

lemma wait_once [intro]: "only_waits env u (while_waiting env n u)"
  by (rule r_into_rtranclp) blast

lemma wait_more [intro]: "only_waits env u v \<Longrightarrow> only_waits env u (while_waiting env n v)"
  by (rule rtranclp.rtrancl_into_rtrancl) blast+

section \<open>The write\<close>

text \<open>A replacement that was judged on a goal is a step of progress for it.\<close>

definition judged :: "goal_limits \<Rightarrow> goal_record \<Rightarrow> goal_replacement \<Rightarrow> bool" where
  "judged l r x \<longleftrightarrow> isOpen r \<and> of_decimal (tick (r_gameTime r)) \<le> of_decimal (tick (x_gameTime x)) \<and>
     status_edge (r_status r) (x_status x) \<and> plan_progress (r_plan r) (x_plan x) \<and>
     (x_status x = Achieved \<longrightarrow> x_plan x \<noteq> [] \<and> completed_steps (x_plan x) = x_plan x) \<and>
     (r_status r = Paused \<longrightarrow> x_status x \<noteq> Active \<longrightarrow> x_plan x = r_plan r) \<and>
     validateNextModelResult l r (x_status x) (x_plan x) = Inr ()"

text \<open>A replacement judged on \<open>r\<close> is written over the goal \<open>c\<close>, which the store has under the key of \<open>r\<close> at the revision
  of \<open>r\<close>. The store compares revisions only, so \<open>c\<close> need not be \<open>r\<close>.\<close>

definition revises :: "goal_limits \<Rightarrow> goal_record \<Rightarrow> goal_record \<Rightarrow> goal_replacement \<Rightarrow> goal_store \<Rightarrow> goal_record \<Rightarrow> bool" where
  "revises l r c x u r' \<longleftrightarrow> stored u c \<and> r_goalId c = r_goalId r \<and> r_partition c = r_partition r \<and> r_revision c = r_revision r \<and>
     \<not> retired (r_partition r) u \<and> judged l r x \<and> replacement_ok l (r_partition r) x \<and>
     r' = replaced_goal c x (to_decimal (Suc (of_decimal (r_revision r)))) \<and> discard (serializeGoalRecord r' l) = Inr ()"

lemma replace_revises:
  assumes u: "goals_keyed l u" and r: "is_decimal (r_revision r)" "judged l r x"
    and w: "replace_goal l (key_of (r_partition r) (r_goalId r)) (r_revision r) x u = (v, Inr r')"
  shows "\<exists>c. revises l r c x u r' \<and> v = put_goal r' u"
proof -
  let ?k = "key_of (r_partition r) (r_goalId r)"
  obtain c n where c: "replacement_ok l ?k x" "\<not> retired ?k u" "js_get (goals u) (mapKey ?k (gk_goalId ?k)) = Some c"
      "samePartition (r_partition c) ?k" "r_revision c = r_revision r" "bigint_succ (r_revision r) = Inr n" "r' = replaced_goal c x n"
      "discard (serializeGoalRecord r' l) = Inr ()" "v = u\<lparr>goals := js_set (mapKey ?k (gk_goalId ?k)) r' (goals u)\<rparr>"
    by (rule replace_goal_Inr [OF w])
  note f = goals_keyedD [OF u c(3)]
  have part: "r_partition c = r_partition r" using c(4) by (simp add: samePartition_eq)
  moreover have "r_goalId c = r_goalId r" using f(1) part by (simp add: goal_key_of_def mapKey_def)
  moreover have "v = put_goal r' u" using c(7,9) f(1) same_goal_key [OF replaced_goal_same [of c x n]] by (simp add: put_goal_def)
  moreover have "\<not> retired (r_partition r) u" using c(2) by (simp add: retired_def)
  moreover have "replacement_ok l (r_partition r) x" using c(1) by (simp add: replacement_ok_def time_ok_def)
  moreover have "n = to_decimal (Suc (of_decimal (r_revision r)))" using c(6) r(1) by simp
  ultimately show ?thesis using f(5) c(5,7,8) r(2) by (auto simp: revises_def)
qed

lemma revises_key: "revises l r c x u r' \<Longrightarrow> goal_key_of c = goal_key_of r"
  by (simp add: revises_def goal_key_of_def)

lemma revises_keeps:
  assumes "goals_keyed l u" and "revises l r c x u r'"
  shows "goals_keyed l (put_goal r' u) \<and> goals_kept u (put_goal r' u)"
proof (rule put_keeps [OF assms(1)])
  show "stored u c" using assms(2) by (simp add: revises_def)
  have "same_goal c r'" using assms(2) by (simp add: revises_def replaced_goal_same)
  then show "revision_of l c r'" using assms(2) by (simp add: revises_def revision_of_def replacement_ok_def replaced_goal_def)
qed

text \<open>The goal written over is the one read, or it was created since.\<close>

lemma revises_read_or_new:
  assumes "goals_kept s u" and "stored s r" and "revises l r c x u r'"
  shows "c = r \<or> nextGoalKey s \<le> goalKey c"
proof (rule disjCI)
  assume "\<not> nextGoalKey s \<le> goalKey c"
  moreover have "stored u c" "r_revision c = r_revision r" using assms(3) by (simp_all add: revises_def)
  ultimately obtain q where q: "stored s q" "same_goal q c" "c = q \<or> of_decimal (r_revision q) < of_decimal (r_revision r)"
    using assms(1) unfolding goals_kept_def by (metis not_le)
  have "goal_key_of q = goal_key_of r" using same_goal_key [OF q(2)] revises_key [OF assms(3)] by simp
  then have "q = r" using q(1) assms(2) by (simp add: stored_def)
  then show "c = r" using q(3) by auto
qed

lemma replaced_ok:
  assumes "goal_ok l r" "replacement_ok l (r_partition r) x" "discard (serializeGoalRecord (replaced_goal r x n) l) = Inr ()"
    and "is_positive_decimal n"
    and "x_status x = Active \<or> x_status x = Paused \<longrightarrow> model_result_fits l (replaced_goal r x n)"
    and "x_status x = Achieved \<longrightarrow> x_plan x \<noteq> [] \<and> completed_steps (x_plan x) = x_plan x"
  shows "goal_ok l (replaced_goal r x n)"
  using assms by (simp add: goal_ok_def replaced_goal_def replacement_ok_def isOpen_def)

lemma revises_progress:
  assumes "revises l r r x u r'"
  shows "progress r r'"
proof -
  have r': "r' = replaced_goal r x (to_decimal (Suc (of_decimal (r_revision r))))" and j: "judged l r x"
    using assms by (simp_all add: revises_def)
  then have "same_goal r r'" by (simp add: replaced_goal_same)
  with j show ?thesis by (simp add: progress_def judged_def r') (simp add: replaced_goal_def)
qed

text \<open>Written over the goal it was judged on, a replacement is a step of the specification.\<close>

lemma revises_step:
  assumes ok: "goal_ok l r" and w: "revises l r r x u r'"
  shows "goal_step l u (put_goal r' u)"
proof -
  have j: "judged l r x" and r': "r' = replaced_goal r x (to_decimal (Suc (of_decimal (r_revision r))))"
    and st: "stored u r" "\<not> retired (r_partition r) u" using w by (simp_all add: revises_def)
  have "is_decimal (r_revision r)" using ok by (simp add: goal_ok_def is_positive_decimal_is_decimal)
  then have "model_result_fits l r'"
    using j by (simp add: judged_def model_result_fits_def validateNextModelResult_def r' replaced_goal_def)
  then have "goal_ok l r'" using replaced_ok [OF ok] w j r' by (simp add: revises_def judged_def)
  then show ?thesis by (rule goal_step.revised [OF st revises_progress [OF w]])
qed

lemma revises_goal:
  assumes "goals_kept s u" and "stored s r" and "goalKey r < nextGoalKey s" and "revises l r c x u r'"
  shows "c = r \<and> progress r r' \<or> \<not> stored u r \<and> nextGoalKey s \<le> goalKey c"
proof -
  have "c = r" if "stored u r" using that assms(4) revises_key [OF assms(4)] by (simp add: stored_def revises_def)
  then show ?thesis using revises_read_or_new [OF assms(1,2,4)] revises_progress [of l r x u r'] assms(3,4) by fastforce
qed

text \<open>A write by a call that was overtaken: since it read its goal, this goal was purged and another one created under the
  same key, which has come to the revision that was read.\<close>

definition overtaken :: "goal_limits \<Rightarrow> goal_store \<Rightarrow> goal_store \<Rightarrow> goal_store \<Rightarrow> bool" where
  "overtaken l s u v \<longleftrightarrow> (\<exists>r c x r'. stored s r \<and> nextGoalKey s \<le> goalKey c \<and> revises l r c x u r' \<and> v = put_goal r' u)"

lemma revises_step_or_overtaken:
  assumes "goal_inv l s" and "goals_kept s u" and "stored s r" and "revises l r c x u r'"
  shows "goal_step l u (put_goal r' u) \<or> overtaken l s u (put_goal r' u)"
  using revises_read_or_new [OF assms(2-4)]
proof
  assume "c = r"
  moreover have "goal_ok l r" using stored_ok assms(1,3) by (auto simp: goal_inv_def)
  ultimately show ?thesis using revises_step assms(4) by blast
qed (use assms(3,4) in \<open>auto simp: overtaken_def\<close>)

text \<open>A call waits, writes at most once and waits. A write replaces the revision of the goal that was read, by a replacement
  that was judged on it.\<close>

definition one_write ::
  "goal_limits \<Rightarrow> goal_env \<Rightarrow> goal_store \<Rightarrow> goal_store \<Rightarrow> (goal_record \<times> goal_replacement \<times> goal_record) option \<Rightarrow> bool" where
  "one_write l env s s' w \<longleftrightarrow> (\<exists>u v. only_waits env s u \<and> only_waits env v s' \<and>
     (case w of None \<Rightarrow> v = u
      | Some (r, x, r') \<Rightarrow> judged l r x \<and> replace_goal l (key_of (r_partition r) (r_goalId r)) (r_revision r) x u = (v, Inr r')))"

lemma one_write_None: "one_write l env s s' None \<longleftrightarrow> only_waits env s s'"
  by (auto simp: one_write_def intro: rtranclp_trans)

lemma one_write_after: "only_waits env s u \<Longrightarrow> one_write l env u s' w \<Longrightarrow> one_write l env s s' w"
  unfolding one_write_def by (meson rtranclp_trans)

section \<open>Advancing a plan\<close>

lemma step_index_nth: "step_index i p < length p \<Longrightarrow> stepId (p ! step_index i p) = i"
  unfolding step_index_def using nth_length_takeWhile by blast

text \<open>The step in progress is the first that is not completed.\<close>

lemma in_progress_index:
  assumes "plan_ok l p" and "n < length p" and "stepStatus (p ! n) = StepInProgress"
  shows "n = length (completed_steps p)" "\<forall>j. n < j \<longrightarrow> j < length p \<longrightarrow> stepStatus (p ! j) = StepPending"
proof -
  obtain rest where p: "p = completed_steps p @ rest" "open_part rest" by (rule plan_ok_shape [OF assms(1)])
  let ?c = "length (completed_steps p)"
  have low: "stepStatus (p ! j) = StepCompleted" if "j < ?c" for j
  proof -
    have "completed_steps p ! j \<in> set (completed_steps p)" using that by simp
    then show ?thesis using p(1) that by (metis (mono_tags, lifting) completed_steps_def mem_Collect_eq nth_append set_filter)
  qed
  then have "?c \<le> n" using assms(3) by (metis not_le step_status.distinct(5))
  have high: "stepStatus (p ! j) = StepPending" if "?c < j" "j < length p" for j
  proof -
    have "p ! j = rest ! (j - ?c)" using p(1) that by (metis nth_append order.asym)
    moreover have "j - ?c < length rest" using p(1) that by (metis length_append add_diff_inverse_nat nat_add_left_cancel_less order.asym)
    moreover obtain st sts where "rest = st # sts" using calculation(2) by (cases rest) auto
    ultimately show ?thesis using p(2) that(1) by (auto simp: open_part_def list_all_length nth_Cons')
  qed
  show "n = ?c" using \<open>?c \<le> n\<close> high assms(2,3) by (metis le_neq_implies_less step_status.distinct(1))
  with high show "\<forall>j. n < j \<longrightarrow> j < length p \<longrightarrow> stepStatus (p ! j) = StepPending" by simp
qed

lemma length_advance_plan [simp]: "length (advance_plan n e p) = length p"
  by (simp add: advance_plan_def)

lemma advance_plan_Nil [simp]: "advance_plan n e p = [] \<longleftrightarrow> p = []"
  by (simp flip: length_0_conv)

lemma nth_advance_plan:
  "j < length p \<Longrightarrow> advance_plan n e p ! j =
     (if j = n then (p ! j)\<lparr>stepStatus := StepCompleted, evidence := [e]\<rparr>
      else if j = n + 1 then (p ! j)\<lparr>stepStatus := StepInProgress\<rparr> else p ! j)"
  by (simp add: advance_plan_def nth_enumerate_eq)

lemma advance_plan_progress:
  assumes "plan_ok l p" and "n < length p" and "stepStatus (p ! n) = StepInProgress"
  shows "plan_progress p (advance_plan n e p)" "n + 1 = length p \<longrightarrow> completed_steps (advance_plan n e p) = advance_plan n e p"
proof -
  note n = in_progress_index [OF assms]
  obtain rest where p: "p = completed_steps p @ rest" using plan_ok_shape [OF assms(1)] by blast
  have done_below: "p ! j \<in> set (completed_steps p)" if "j < n" for j
    using p that n(1) by (metis nth_append nth_mem)
  have "take n (advance_plan n e p) = take n p" using assms(2) by (auto simp: list_eq_iff_nth_eq nth_advance_plan)
  also have "take n p = completed_steps p" using p n(1) by (metis append_eq_conv_conj)
  finally have kept: "take (length (completed_steps p)) (advance_plan n e p) = completed_steps p" using n(1) by simp
  have new: "advance_plan n e p ! j \<in> set (completed_steps p) \<or> j = n" if "j < length p" "stepStatus (advance_plan n e p ! j) = StepCompleted" for j
    using that n(2) done_below [of j] by (cases "j < n") (auto simp: nth_advance_plan split: if_splits)
  show "plan_progress p (advance_plan n e p)"
    unfolding plan_progress_def
  proof (intro conjI ballI impI)
    fix st assume st: "st \<in> set (advance_plan n e p)" "stepStatus st = StepCompleted"
    then obtain j where j: "j < length p" "st = advance_plan n e p ! j" by (auto simp: in_set_conv_nth)
    show "st \<in> set (completed_steps p) \<or>
      evidence st \<noteq> [] \<and> (\<exists>x \<in> set p. stepId x = stepId st \<and> description x = description st \<and> stepStatus x = StepInProgress)"
      using new [OF j(1)] st j assms(2,3) by (auto simp: nth_advance_plan intro!: bexI [of _ "p ! n"])
  qed (rule kept)
  show "n + 1 = length p \<longrightarrow> completed_steps (advance_plan n e p) = advance_plan n e p"
  proof
    assume last: "n + 1 = length p"
    have "stepStatus (advance_plan n e p ! j) = StepCompleted" if "j < length p" for j
    proof (cases "j = n")
      case False
      with that last have "j < n" by simp
      with done_below [of j] that show ?thesis by (auto simp: nth_advance_plan completed_steps_def)
    qed (use that in \<open>simp add: nth_advance_plan\<close>)
    then show "completed_steps (advance_plan n e p) = advance_plan n e p"
      by (auto simp: completed_steps_def filter_id_conv in_set_conv_nth)
  qed
qed

section \<open>The host's advance\<close>

lemma capture_advance_Inr:
  "capture_advance l env q = Inr q' \<Longrightarrow> q' = q \<and> partition_ok (h_partition q) \<and> is_opaque_identifier (h_goalId q) \<and>
     is_decimal (h_expectedRevision q)"
  by (auto simp: capture_advance_def rbind_eq_Inr dest!: normalizeGoalEvidence_Inr)

lemma judge_advance_step:
  assumes "judge_advance r q print = Inr (Inr st)"
  shows "st = r_plan r ! step_index (h_stepId q) (r_plan r)" "step_index (h_stepId q) (r_plan r) < length (r_plan r)"
    "stepStatus st = StepInProgress" "r_revision r = h_expectedRevision q" "r_status r = Active"
    "of_decimal (tick (r_gameTime r)) \<le> of_decimal (tick (h_gameTime q))" "\<not> isExactHostAdvanceReplay r q print"
proof -
  show "\<not> isExactHostAdvanceReplay r q print" using assms by (auto simp: judge_advance_def)
  with assms obtain c where c: "compareGoalTicks (tick (h_gameTime q)) (tick (r_gameTime r)) = Inr c" "0 \<le> c"
    by (auto simp: judge_advance_def rbind_eq_Inr)
  then show "of_decimal (tick (r_gameTime r)) \<le> of_decimal (tick (h_gameTime q))" using compareGoalTicks_ge by blast
  show "st = r_plan r ! step_index (h_stepId q) (r_plan r)" "step_index (h_stepId q) (r_plan r) < length (r_plan r)"
    "stepStatus st = StepInProgress" "r_revision r = h_expectedRevision q" "r_status r = Active"
    using assms c by (auto simp: judge_advance_def Let_def split: if_splits)
qed

lemma judge_advance_answer: "judge_advance r q print = Inr (Inl a) \<Longrightarrow> \<exists>h. a = HostResult h r \<and> h \<noteq> Advanced"
  by (auto simp: judge_advance_def Let_def rbind_eq_Inr split: if_splits)

lemma verify_advance_result:
  assumes "verify_advance env r q st s = (s2, out)"
  shows "only_waits env s s2" "out = Inr None \<Longrightarrow> \<exists>validate. committed_input env = Some validate \<and>
      validate (h_partition q) (h_inputId q) = Inr True \<and> evidence_accepted env r st (h_evidence q) (h_gameTime q) (Some (h_inputId q)) = Inr True"
    "out = Inr (Some h) \<Longrightarrow> h \<noteq> Advanced"
proof -
  show "only_waits env s s2"
  proof (cases "committed_input env")
    case (Some validate)
    have "s2 = while_waiting env 1 s \<or> s2 = while_waiting env 2 (while_waiting env 1 s)"
      using assms Some by (auto simp: verify_advance_def Let_def commit_def split: sum.splits if_splits)
    then show ?thesis by blast
  qed (use assms in \<open>simp add: verify_advance_def\<close>)
  show "out = Inr None \<Longrightarrow> \<exists>validate. committed_input env = Some validate \<and>
      validate (h_partition q) (h_inputId q) = Inr True \<and> evidence_accepted env r st (h_evidence q) (h_gameTime q) (Some (h_inputId q)) = Inr True"
    using assms by (auto simp: verify_advance_def Let_def commit_eq_Inr split: option.splits if_splits)
  show "out = Inr (Some h) \<Longrightarrow> h \<noteq> Advanced"
    using assms by (auto simp: verify_advance_def Let_def commit_eq_Inr split: option.splits if_splits)
qed

lemma commit_advance_result:
  assumes plan: "plan_ok l (r_plan r)" and j: "judge_advance r q print = Inr (Inr st)"
    and id: "r_partition r = h_partition q" "r_goalId r = h_goalId q"
    and out: "commit_advance l env r q print s = (s', out)"
  shows "(\<exists>r'. out = Inr (HostResult Advanced r') \<and> one_write l env s s' (Some (r, advance_replacement r q print, r'))) \<or>
     ((\<forall>r'. out \<noteq> Inr (HostResult Advanced r')) \<and> only_waits env s s')"
proof -
  let ?x = "advance_replacement r q print"
  let ?key = "key_of (h_partition q) (h_goalId q)" and ?n = "step_index (h_stepId q) (r_plan r)"
  note j = judge_advance_step [OF j]
  have step: "stepStatus (r_plan r ! ?n) = StepInProgress" using j(1,3) by simp
  show ?thesis
  proof (cases "validateNextModelResult l r (x_status ?x) (x_plan ?x)")
    case (Inl e)
    then show ?thesis using out by (auto simp: commit_advance_def Let_def)
  next
    case fits: (Inr ok)
    then have fits: "validateNextModelResult l r (x_status ?x) (x_plan ?x) = Inr ()" by simp
    obtain v reply where w: "replace_goal l ?key (h_expectedRevision q) ?x s = (v, reply)" by fastforce
    show ?thesis
    proof (cases reply)
      case (Inr r')
      have v: "s' = while_waiting env 3 v" "out = Inr (HostResult Advanced r')"
        using out fits w Inr by (simp_all add: commit_advance_def Let_def)
      have "judged l r ?x" using fits advance_plan_progress [OF plan j(2) step] j
        by (auto simp: judged_def isOpen_def status_edge_def advance_replacement_def Let_def)
      then have "one_write l env s s' (Some (r, ?x, r'))" unfolding one_write_def v(1)
        using w Inr id j(4) by (intro exI [of _ s] exI [of _ v]) auto
      with v(2) show ?thesis by blast
    next
      case (Inl e)
      then have "v = s" using replace_goal_Inl w by blast
      then have "(s' = while_waiting env 3 s \<or> s' = while_waiting env 4 (while_waiting env 3 s)) \<and> (\<forall>p. out \<noteq> Inr (HostResult Advanced p))"
        using out fits w Inl by (auto simp: commit_advance_def Let_def commit_def split: sum.splits if_splits option.splits)
      then show ?thesis by blast
    qed
  qed
qed

text \<open>An answer that the goal was advanced comes with the moment of the write: the input was committed and the evidence accepted
  for the goal that was read.\<close>

definition verified_advance :: "goal_env \<Rightarrow> host_advance \<Rightarrow> goal_record \<Rightarrow> bool" where
  "verified_advance env q r \<longleftrightarrow> (\<exists>st \<in> set (r_plan r). stepId st = h_stepId q \<and> stepStatus st = StepInProgress \<and>
     (\<exists>validate. committed_input env = Some validate \<and> validate (h_partition q) (h_inputId q) = Inr True) \<and>
     evidence_accepted env r st (h_evidence q) (h_gameTime q) (Some (h_inputId q)) = Inr True)"

lemma advance_write:
  assumes keyed: "goals_keyed l s" and run: "advanceFromHost l sha env q s = (s', out)"
  shows "(\<exists>r r'. out = Inr (HostResult Advanced r') \<and> stored s r \<and> r_goalId r = h_goalId q \<and> r_partition r = h_partition q \<and>
       r_revision r = h_expectedRevision q \<and> r_status r = Active \<and> verified_advance env q r \<and>
       one_write l env s s' (Some (r, advance_replacement r q (sha (canonical (host_advance_json q))), r'))) \<or>
     ((\<forall>r'. out \<noteq> Inr (HostResult Advanced r')) \<and> only_waits env s s')" (is "?written \<or> ?refused")
proof -
  let ?k = "mapKey (h_partition q) (h_goalId q)" and ?print = "sha (canonical (host_advance_json q))"
  let ?s1 = "while_waiting env 0 s"
  have s1: "only_waits env s ?s1" by blast
  show ?thesis
  proof (cases "capture_advance l env q")
    case (Inl e)
    with run show ?thesis by (auto simp: advanceFromHost_def)
  next
    case (Inr q')
    then have q: "capture_advance l env q = Inr q" "partition_ok (h_partition q)" "is_opaque_identifier (h_goalId q)"
      using capture_advance_Inr by blast+
    have print: "fingerprintHostAdvance sha q = Inr ?print" by (simp add: fingerprintHostAdvance_def)
    let ?found = "case js_get (goals s) ?k of None \<Rightarrow> None | Some r \<Rightarrow> if samePartition (r_partition r) (h_partition q) then Some r else None"
    have get: "get_goal (key_of (h_partition q) (h_goalId q)) s = Inr ?found" using q(2,3) by (simp add: get_goal_Inr cong: option.case_cong)
    note run = run [unfolded advanceFromHost_def q(1) print get commit_simps Let_def]
    show ?thesis
    proof (cases "throwIfAborted env 1 = Inr () \<and> ?found \<noteq> None")
      case False
      then have "s' = ?s1 \<and> (\<forall>r'. out \<noteq> Inr (HostResult Advanced r'))"
        using run by (cases "throwIfAborted env 1"; cases ?found) auto
      with s1 show ?thesis by auto
    next
      case True
      then obtain r where live: "throwIfAborted env 1 = Inr ()" and found: "?found = Some r" by auto
      then have r: "js_get (goals s) ?k = Some r" "r_partition r = h_partition q"
        by (auto split: option.splits if_splits simp: samePartition_eq)
      note f = goals_keyedD [OF keyed r(1)]
      have id: "r_goalId r = h_goalId q" using f(1) r(2) by (simp add: goal_key_of_def mapKey_def)
      note run = run [unfolded live found commit_simps]
      show ?thesis
      proof (cases "\<exists>st. judge_advance r q ?print = Inr (Inr st)")
        case False
        then have "s' = ?s1 \<and> (\<forall>r'. out \<noteq> Inr (HostResult Advanced r'))"
          using run r(2) judge_advance_answer [of r q ?print]
          by (cases "judge_advance r q ?print") (auto simp: samePartition_def split: sum.splits)
        with s1 show ?thesis by auto
      next
        case True
        then obtain st where st: "judge_advance r q ?print = Inr (Inr st)" by blast
        obtain u reply where v: "verify_advance env r q st ?s1 = (u, reply)" by fastforce
        note vr = verify_advance_result [OF v]
        have u: "only_waits env s u" by (rule rtranclp_trans [OF s1 vr(1)])
        have run: "commit u reply (\<lambda>refusal. case refusal of None \<Rightarrow> commit_advance l env r q ?print u
            | Some h \<Rightarrow> (u, Inr (HostResult h r))) = (s', out)"
          using run r(2) st v by (simp add: samePartition_def cong: option.case_cong)
        show ?thesis
        proof (cases "reply = Inr None")
          case False
          then have "s' = u \<and> (\<forall>r'. out \<noteq> Inr (HostResult Advanced r'))"
            using run vr(3) by (cases reply) (auto split: option.splits)
          with u show ?thesis by auto
        next
          case True
          have ver: "verified_advance env q r" unfolding verified_advance_def
            using judge_advance_step [OF st] step_index_nth vr(2) [OF True] by (auto intro!: bexI [of _ st])
          have "commit_advance l env r q ?print u = (s', out)" using run True by simp
          from commit_advance_result [OF f(2) st r(2) id this] show ?thesis
            using u ver f(5) r(2) id judge_advance_step(4,5) [OF st] one_write_after [OF u] rtranclp_trans [OF u] by blast
        qed
      qed
    qed
  qed
qed

section \<open>Updates\<close>

lemma verify_evidence_result:
  assumes "verify_evidence env g t st es n s = (s', out)"
  shows "only_waits env s s' \<and> (\<forall>m. out = Inr m \<longrightarrow> (\<forall>e \<in> set es. evidence_accepted env g st e t None = Inr True))"
  using assms
proof (induction es arbitrary: n s)
  case (Cons e es)
  let ?s1 = "while_waiting env n s"
  have s1: "only_waits env s ?s1" by blast
  show ?case
  proof (cases "throwIfAborted env n = Inr () \<and> evidence_accepted env g st e t None = Inr True \<and> throwIfAborted env (n + 1) = Inr ()")
    case True
    then have "verify_evidence env g t st es (n + 2) ?s1 = (s', out)" using Cons.prems by (simp add: Let_def)
    from Cons.IH [OF this] show ?thesis using True rtranclp_trans [OF s1] by auto
  next
    case False
    then have "(s' = s \<or> s' = ?s1) \<and> (\<forall>m. out \<noteq> Inr m)"
      using Cons.prems by (auto simp: Let_def commit_def split: sum.splits if_splits)
    with s1 show ?thesis by auto
  qed
qed simp

definition verified_step :: "goal_env \<Rightarrow> goal_record \<Rightarrow> game_time \<Rightarrow> plan_step \<Rightarrow> bool" where
  "verified_step env g t st \<longleftrightarrow> stepStatus st = StepCompleted \<longrightarrow>
     (\<exists>x \<in> set (r_plan g). stepId x = stepId st \<and> stepStatus x = StepCompleted) \<or>
     (\<exists>x \<in> set (r_plan g). stepId x = stepId st \<and> description x = description st \<and> stepStatus x = StepInProgress) \<and>
     evidence st \<noteq> [] \<and> (\<forall>e \<in> set (evidence st). evidence_accepted env g st e t None = Inr True)"

lemma verify_steps_result:
  assumes dist: "distinct (map stepId (r_plan g))" and "verify_steps env g t sts n s = (s', out)"
  shows "only_waits env s s' \<and> (\<forall>m. out = Inr m \<longrightarrow> (\<forall>st \<in> set sts. verified_step env g t st))"
  using assms(2)
proof (induction sts arbitrary: n s)
  case (Cons st sts)
  let ?prev = "js_get (steps_by_id (r_plan g)) (stepId st)"
  have prev: "?prev = Some x \<longleftrightarrow> x \<in> set (r_plan g) \<and> stepId x = stepId st" for x by (rule steps_by_id_get [OF dist])
  show ?case
  proof (cases "\<exists>p \<in> set_option ?prev. description p \<noteq> description st")
    case True
    then show ?thesis using Cons.prems by (auto simp: Let_def)
  next
    case same: False
    show ?thesis
    proof (cases "stepStatus st \<noteq> StepCompleted \<or> map_option stepStatus ?prev = Some StepCompleted")
      case True
      then have "verify_steps env g t sts n s = (s', out)" using Cons.prems same by (simp add: Let_def)
      from Cons.IH [OF this] show ?thesis using True prev by (auto simp: verified_step_def)
    next
      case new: False
      show ?thesis
      proof (cases "map_option stepStatus ?prev = Some StepInProgress \<and> evidence st \<noteq> []")
        case True
        obtain u reply where v: "verify_evidence env g t st (evidence st) n s = (u, reply)" by fastforce
        note ve = verify_evidence_result [OF v]
        have run: "commit u reply (\<lambda>m. verify_steps env g t sts m u) = (s', out)"
        proof -
          obtain x where "?prev = Some x" "stepStatus x = StepInProgress" using True by auto
          then show ?thesis using Cons.prems same new True v by (simp add: Let_def)
        qed
        show ?thesis
        proof (cases reply)
          case (Inr m)
          with run have "verify_steps env g t sts m u = (s', out)" by simp
          from Cons.IH [OF this] show ?thesis using ve Inr True same prev rtranclp_trans [of _ s u s']
            by (auto simp: verified_step_def)
        qed (use run ve in auto)
      next
        case False
        then show ?thesis using Cons.prems same new by (auto simp: Let_def commit_def ensure_def rbind_eq_Inl split: sum.splits if_splits)
      qed
    qed
  qed
qed simp

lemma plan_progress_refl:
  assumes "plan_ok l p"
  shows "plan_progress p p"
proof -
  obtain rest where "p = completed_steps p @ rest" using plan_ok_shape [OF assms] by blast
  then have "take (length (completed_steps p)) p = completed_steps p" by (metis append_eq_conv_conj)
  then show ?thesis by (simp add: plan_progress_def completed_steps_def)
qed

text \<open>A kept prefix of completed steps and verified new ones make progress.\<close>

lemma verified_progress:
  assumes "take (length (completed_steps (r_plan g))) q = completed_steps (r_plan g)" and "distinct (map stepId q)"
    and "\<forall>st \<in> set q. verified_step env g t st"
  shows "plan_progress (r_plan g) q"
  unfolding plan_progress_def
proof (intro conjI ballI impI)
  fix st assume st: "st \<in> set q" "stepStatus st = StepCompleted"
  then consider x where "x \<in> set (r_plan g)" "stepId x = stepId st" "stepStatus x = StepCompleted"
    | "evidence st \<noteq> []" "\<exists>x \<in> set (r_plan g). stepId x = stepId st \<and> description x = description st \<and> stepStatus x = StepInProgress"
    using assms(3) st unfolding verified_step_def by blast
  then show "st \<in> set (completed_steps (r_plan g)) \<or>
      evidence st \<noteq> [] \<and> (\<exists>x \<in> set (r_plan g). stepId x = stepId st \<and> description x = description st \<and> stepStatus x = StepInProgress)"
  proof cases
    case 1
    then have "x \<in> set (completed_steps (r_plan g))" by (simp add: completed_steps_def)
    moreover from this have "x \<in> set q" using assms(1) by (metis in_set_takeD)
    then have "x = st" using assms(2) st(1) 1(2) by (auto simp: distinct_map inj_on_def)
    ultimately show ?thesis by simp
  qed blast
qed (rule assms(1))

section \<open>Keeping to a rely relation\<close>

text \<open>
  The contract of a call with what runs at its awaits: a relation \<open>R\<close> that keeps a condition \<open>I\<close> on the store, under
  which goals stay filed and goal keys are not used again, and a write of its own on the goal under the key \<open>k\<close>
  keeps the condition too.
\<close>

locale shared_goals =
  fixes l :: goal_limits and I :: "goal_store \<Rightarrow> bool" and R :: "goal_store \<Rightarrow> goal_store \<Rightarrow> bool" and k :: js_string
  assumes rely_refl: "R u u"
    and rely_trans: "R u v \<Longrightarrow> R v w \<Longrightarrow> R u w"
    and rely_keyed: "I u \<Longrightarrow> goals_keyed l u"
    and rely_keeps: "I u \<Longrightarrow> R u v \<Longrightarrow> I v \<and> goals_kept u v"
    and own_write: "I s \<Longrightarrow> R s u \<Longrightarrow> stored s r \<Longrightarrow> goal_key_of r = k \<Longrightarrow> revises l r c x u r' \<Longrightarrow> I (put_goal r' u)"
begin

lemma waited: "only_waits env u v \<Longrightarrow> waits I R env \<Longrightarrow> I u \<Longrightarrow> R u v \<and> I v"
proof (induction rule: rtranclp_induct)
  case base
  then show ?case by (simp add: rely_refl)
next
  case (step v w)
  then show ?case using rely_trans rely_keeps waitsD by metis
qed

lemma call_written:
  assumes s: "I s" and env: "waits I R env" and r: "stored s r" "goal_key_of r = k"
    and w: "one_write l env s s' (Some (r, x, r'))"
  obtains u c where "R s u" "goals_kept s u" "revises l r c x u r'" "R (put_goal r' u) s'" "I u" "I (put_goal r' u)"
proof -
  obtain u v where u: "only_waits env s u" "only_waits env v s'" "judged l r x"
      "replace_goal l (key_of (r_partition r) (r_goalId r)) (r_revision r) x u = (v, Inr r')"
    using w by (auto simp: one_write_def)
  have su: "R s u" "I u" using waited [OF u(1) env s] by blast+
  have "is_decimal (r_revision r)" using stored_keyed(2) [OF rely_keyed [OF s] r(1)] is_positive_decimal_is_decimal by blast
  from replace_revises [OF rely_keyed [OF su(2)] this u(3,4)] obtain c where c: "revises l r c x u r'" "v = put_goal r' u" by blast
  moreover have v: "I (put_goal r' u)" by (rule own_write [OF s su(1) r c(1)])
  moreover have "R (put_goal r' u) s'" using waited [OF _ env v] u(2) c(2) by blast
  ultimately show thesis using su rely_keeps [OF s su(1)] by (intro that) auto
qed

lemma call_refused: "only_waits env s s' \<Longrightarrow> I s \<Longrightarrow> waits I R env \<Longrightarrow> R s s'"
  using waited by blast

end

text \<open>The awaits may do anything the store allows, or anything a rely relation allows.\<close>

lemma rely_shared: "rely l R \<Longrightarrow> shared_goals l (goals_keyed l) R k"
  using revises_keeps by unfold_locales (auto simp: rely_def)

interpretation free: shared_goals l "goals_keyed l" "store_writes l" k for l k
  by (rule rely_shared [OF rely_store_writes])

section \<open>The specification as rely relation\<close>

text \<open>The other calls take steps of the specification and do not purge the goal the call is about while it runs.\<close>

definition evolves :: "goal_limits \<Rightarrow> js_string \<Rightarrow> goal_store \<Rightarrow> goal_store \<Rightarrow> bool" where
  "evolves l k u v \<longleftrightarrow> (goal_inv l u \<longrightarrow> goal_steps l u v \<and>
     (\<forall>r. js_get (goals u) k = Some r \<longrightarrow> (\<exists>r'. js_get (goals v) k = Some r' \<and> goalKey r' = goalKey r)))"

definition calm :: "goal_limits \<Rightarrow> js_string \<Rightarrow> goal_env \<Rightarrow> bool" where
  "calm l k env \<longleftrightarrow> (\<forall>n u. evolves l k u (while_waiting env n u))"

lemma calmD: "calm l k env \<Longrightarrow> evolves l k u (while_waiting env n u)"
  by (simp add: calm_def)

lemma evolves_refl [simp]: "evolves l k u u"
  by (auto simp: evolves_def)

lemma evolves_trans:
  assumes "evolves l k u v" and "evolves l k v w"
  shows "evolves l k u w"
  unfolding evolves_def
proof (intro impI conjI allI)
  assume u: "goal_inv l u"
  then have v: "goal_inv l v" "goal_steps l u v" using assms(1) goal_steps_ok by (auto simp: evolves_def)
  with assms(2) show "goal_steps l u w" unfolding evolves_def by (meson rtranclp_trans)
  fix r assume "js_get (goals u) k = Some r"
  with u assms(1) obtain q where q: "js_get (goals v) k = Some q" "goalKey q = goalKey r" by (auto simp: evolves_def)
  with v(1) assms(2) obtain r' where "js_get (goals w) k = Some r'" "goalKey r' = goalKey q" by (auto simp: evolves_def)
  with q(2) show "\<exists>r'. js_get (goals w) k = Some r' \<and> goalKey r' = goalKey r" by auto
qed

lemma calm_waits: "calm l k env \<longleftrightarrow> waits (goal_inv l) (evolves l k) env"
  by (auto simp: calm_def waits_def evolves_def)

lemma evolves_inv: "evolves l k u v \<Longrightarrow> goal_inv l u \<Longrightarrow> goal_inv l v \<and> goals_kept u v"
  using goal_steps_ok goals_later_kept by (fastforce simp: evolves_def)

text \<open>A goal that stays in place and has still the revision it was read at is the goal that was read.\<close>

lemma calm_revises:
  assumes inv: "goal_inv l s" and ev: "evolves l (goal_key_of r) s u" and r: "stored s r" and w: "revises l r c x u r'"
  shows "c = r"
proof -
  have "stored u c" using w by (simp add: revises_def)
  then have "js_get (goals u) (goal_key_of r) = Some c" using revises_key [OF w] by (simp add: stored_def)
  moreover obtain q where "js_get (goals u) (goal_key_of r) = Some q" "goalKey q = goalKey r"
    using ev inv r by (auto simp: evolves_def stored_def)
  ultimately have "goalKey c < nextGoalKey s" using stored_keyed(3) [OF goal_inv_keyed [OF inv] r] by simp
  then show ?thesis using revises_read_or_new [OF _ r w] evolves_inv [OF ev inv] by auto
qed

lemma calm_revises_step:
  assumes "goal_inv l s" and "evolves l (goal_key_of r) s u" and "stored s r" and "revises l r c x u r'"
  shows "goal_step l u (put_goal r' u)"
proof -
  have "goal_ok l r" using stored_ok assms(1,3) by (auto simp: goal_inv_def)
  then show ?thesis using revises_step assms(4) calm_revises [OF assms] by blast
qed

interpretation calm: shared_goals l "goal_inv l" "evolves l k" k for l k
proof unfold_locales
  fix s u r c x r'
  assume a: "goal_inv l s" "evolves l k s u" "stored s r" "goal_key_of r = k" "revises l r c x u r'"
  then show "goal_inv l (put_goal r' u)" using calm_revises_step [of l s r u c x r'] evolves_inv [OF a(2,1)] goal_step_ok by blast
qed (use evolves_trans evolves_inv goal_inv_keyed in \<open>auto\<close>)

lemma calm_written:
  assumes s: "goal_inv l s" and env: "calm l k env" and r: "stored s r" "goal_key_of r = k"
    and w: "one_write l env s s' (Some (r, x, r'))"
  shows "goal_steps l s s'"
proof -
  obtain u c where u: "evolves l k s u" "revises l r c x u r'" "evolves l k (put_goal r' u) s'" "goal_inv l (put_goal r' u)"
    by (rule calm.call_written [OF s env [unfolded calm_waits] r w])
  have "goal_steps l s u" "goal_steps l (put_goal r' u) s'" using u(1,3,4) s by (simp_all add: evolves_def)
  then show ?thesis using calm_revises_step [OF s _ r(1) u(2)] u(1) r(2) by (metis rtranclp.rtrancl_into_rtrancl rtranclp_trans)
qed

lemma calm_refused: "only_waits env s s' \<Longrightarrow> goal_inv l s \<Longrightarrow> calm l k env \<Longrightarrow> goal_steps l s s'"
  using calm.call_refused calm_waits by (auto simp: evolves_def)

end
