(* ===== verification/Goal_Calls.thy ===== *)
theory Goal_Calls
  imports Goal_Refine
begin

text \<open>The remaining calls of the goal service refine the atomic steps: updates, creation, retirement, purges and reads.\<close>

section \<open>Updates\<close>

lemma capture_update_Inr:
  "capture_update env q = Inr k \<Longrightarrow> partition_ok q \<and> is_opaque_identifier (gk_goalId q) \<and>
     k = key_of (authority_partition.truncate q) (gk_goalId q)"
  by (auto simp: capture_update_def rbind_eq_Inr Let_def)

lemma status_transition_Inr:
  "validateStatusTransition a b p = Inr u \<Longrightarrow> status_edge a b \<and> (b = Achieved \<longrightarrow> p \<noteq> [] \<and> completed_steps p = p)"
  by (auto simp: validateStatusTransition_def status_edge_def completed_steps_def filter_id_conv list_all_iff split: if_splits)

lemma update_plan_checks_result:
  assumes ok: "plan_ok l (r_plan r)" "plan_ok l steps" and none: "u_plan q = None \<longrightarrow> steps = r_plan r"
    and run: "update_plan_checks env r q steps st t s = (s', out)"
  shows "only_waits env s s' \<and> (\<forall>m. out = Inr m \<longrightarrow> plan_progress (r_plan r) steps \<and>
     (r_status r = Paused \<longrightarrow> st \<noteq> Active \<longrightarrow> steps = r_plan r) \<and> (u_plan q \<noteq> None \<longrightarrow> (\<forall>x \<in> set steps. verified_step env r t x)))"
proof (cases "u_plan q")
  case None
  then show ?thesis using run none plan_progress_refl [OF ok(1)] by (auto simp: update_plan_checks_def)
next
  case (Some p)
  show ?thesis
  proof (cases "r_status r = Paused \<and> st \<noteq> Active \<and> \<not> samePlan (r_plan r) steps")
    case True
    then show ?thesis using run Some by (auto simp: update_plan_checks_def)
  next
    case frozen: False
    obtain u reply where v: "validatePlanTransition env r steps t 2 s = (u, reply)" by fastforce
    let ?m = "case reply of Inr n \<Rightarrow> n | Inl e \<Rightarrow> 2"
    have kept: "only_waits env s u \<and> (\<forall>m. reply = Inr m \<longrightarrow> plan_progress (r_plan r) steps \<and> (\<forall>x \<in> set steps. verified_step env r t x))"
    proof (cases "completed_kept (r_plan r) steps")
      case (Inr ok')
      then have "verify_steps env r t steps 2 s = (u, reply)" using v by (simp add: validatePlanTransition_def)
      from verify_steps_result [OF plan_ok_distinct [OF ok(1)] this] show ?thesis
        using verified_progress [OF _ plan_ok_distinct [OF ok(2)]] Inr completed_kept_Inr by blast
    qed (use v in \<open>auto simp: validatePlanTransition_def\<close>)
    have "commit (while_waiting env ?m u) reply (\<lambda>_. commit (while_waiting env ?m u) (throwIfAborted env ?m) (\<lambda>_.
        (while_waiting env ?m u, Inr (?m + 1)))) = (s', out)"
      using run Some frozen v by (simp add: update_plan_checks_def Let_def)
    then have "s' = while_waiting env ?m u \<and> (\<forall>m. out = Inr m \<longrightarrow> (\<exists>n. reply = Inr n))"
      by (cases reply; cases "throwIfAborted env ?m") auto
    then show ?thesis using kept frozen by (auto simp: samePlan_eq)
  qed
qed

text \<open>What the update writes to the goal that was read.\<close>

definition update_replacement :: "goal_update \<Rightarrow> goal_record \<Rightarrow> goal_replacement" where
  "update_replacement q r = \<lparr>x_plan = (case u_plan q of None \<Rightarrow> r_plan r | Some p \<Rightarrow> p),
     x_status = (case u_status q of None \<Rightarrow> r_status r | Some st \<Rightarrow> st), x_gameTime = u_gameTime q, x_recordedAt = u_recordedAt q,
     x_fingerprint = None\<rparr>"

definition verified_update :: "goal_env \<Rightarrow> goal_update \<Rightarrow> goal_record \<Rightarrow> bool" where
  "verified_update env q r \<longleftrightarrow> u_plan q = None \<or>
     (\<forall>st \<in> set (x_plan (update_replacement q r)). verified_step env r (u_gameTime q) st)"

lemma judge_update_Inr:
  assumes "judge_update l k q r = Inr (t, steps, st)" and "plan_ok l (r_plan r)"
  shows "t = u_gameTime q" "steps = x_plan (update_replacement q r)" "st = x_status (update_replacement q r)"
    "r_revision r = u_expectedRevision q" "isOpen r" "of_decimal (tick (r_gameTime r)) \<le> of_decimal (tick (u_gameTime q))" "plan_ok l steps"
    "status_edge (r_status r) st" "st = Achieved \<longrightarrow> steps \<noteq> [] \<and> completed_steps steps = steps"
proof -
  obtain c where c: "compareGoalTicks (tick (u_gameTime q)) (tick (r_gameTime r)) = Inr c" "0 \<le> c" and "\<not> isTerminal (r_status r)"
    and "validateStatusTransition (r_status r) st steps = Inr ()" "t = u_gameTime q" "r_revision r = u_expectedRevision q"
      "(case u_plan q of None \<Rightarrow> Inr (r_plan r) | Some p \<Rightarrow> normalizeGoalPlan p l) = Inr steps" "st = x_status (update_replacement q r)"
    using assms(1) by (auto simp: judge_update_def rbind_eq_Inr Let_def update_replacement_def)
  then show "t = u_gameTime q" "r_revision r = u_expectedRevision q" "st = x_status (update_replacement q r)"
    "status_edge (r_status r) st" "st = Achieved \<longrightarrow> steps \<noteq> [] \<and> completed_steps steps = steps"
    using status_transition_Inr by blast+
  show "isOpen r" using \<open>\<not> isTerminal (r_status r)\<close> by (cases "r_status r") (simp_all add: isOpen_def isTerminal_def)
  show "of_decimal (tick (r_gameTime r)) \<le> of_decimal (tick (u_gameTime q))" using compareGoalTicks_ge [OF c(1)] c(2) by simp
  show "steps = x_plan (update_replacement q r)" "plan_ok l steps"
    using \<open>(case u_plan q of None \<Rightarrow> Inr (r_plan r) | Some p \<Rightarrow> normalizeGoalPlan p l) = Inr steps\<close> assms(2)
    by (auto simp: update_replacement_def split: option.splits)
qed

lemma commit_update_result:
  assumes plan: "plan_ok l (r_plan r)" and j: "judge_update l k q r = Inr (t, steps, st)"
    and k: "k = key_of (r_partition r) (r_goalId r)" and run: "commit_update l env k q r t steps st s = (s', out)"
  shows "(\<exists>r'. out = Inr r' \<and> verified_update env q r \<and> one_write l env s s' (Some (r, update_replacement q r, r'))) \<or>
     ((\<exists>e. out = Inl e) \<and> only_waits env s s')"
proof -
  let ?x = "update_replacement q r"
  note j = judge_update_Inr [OF j plan]
  obtain u reply where v: "update_plan_checks env r q steps st t s = (u, reply)" by fastforce
  have none: "u_plan q = None \<longrightarrow> steps = r_plan r" by (simp add: j(2) update_replacement_def)
  note ck = update_plan_checks_result [OF plan j(7) none v]
  have x: "\<lparr>x_plan = steps, x_status = st, x_gameTime = t, x_recordedAt = u_recordedAt q, x_fingerprint = None\<rparr> = ?x"
    by (simp add: j(1,2,3)) (simp add: update_replacement_def)
  show ?thesis
  proof (cases "(\<exists>m. reply = Inr m) \<and> validateNextModelResult l r st steps = Inr ()")
    case False
    then have "s' = u \<and> (\<exists>e. out = Inl e)"
      using run v by (cases reply; cases "validateNextModelResult l r st steps") (auto simp: commit_update_def)
    with ck show ?thesis by blast
  next
    case True
    then obtain m where m: "reply = Inr m" and fits: "validateNextModelResult l r st steps = Inr ()" by blast
    obtain v' where w: "replace_goal l k (u_expectedRevision q) ?x u = (v', out)" "s' = while_waiting env m v'"
      using run [unfolded commit_update_def v prod.case m commit_simps fits x] by (auto split: prod.splits)
    show ?thesis
    proof (cases out)
      case (Inl e)
      then have "s' = while_waiting env m u" using replace_goal_Inl w by blast
      then show ?thesis using ck Inl by blast
    next
      case (Inr r')
      have "of_decimal (tick (r_gameTime r)) \<le> of_decimal (tick (x_gameTime ?x))" using j(6) by (simp add: update_replacement_def)
      moreover have p: "plan_progress (r_plan r) (x_plan ?x)" "r_status r = Paused \<longrightarrow> x_status ?x \<noteq> Active \<longrightarrow> x_plan ?x = r_plan r"
        and ver: "verified_update env q r"
        using conjunct2 [OF ck, rule_format, OF m] by (auto simp: j(1,2,3) verified_update_def)
      ultimately have "judged l r ?x"
        using j(5) j(8) [unfolded j(3)] j(9) [unfolded j(2,3)] fits [unfolded j(2,3)] by (simp add: judged_def)
      then have "one_write l env s s' (Some (r, ?x, r'))" unfolding one_write_def
        using ck w Inr k j(4) by (intro exI [of _ u] exI [of _ v']) auto
      then show ?thesis using Inr ver by blast
    qed
  qed
qed

lemma update_write:
  assumes keyed: "goals_keyed l s" and run: "service_update l env q s = (s', out)"
  shows "(\<exists>r r'. out = Inr r' \<and> stored s r \<and> r_goalId r = gk_goalId q \<and> samePartition (r_partition r) q \<and>
       r_revision r = u_expectedRevision q \<and> isOpen r \<and> verified_update env q r \<and>
       one_write l env s s' (Some (r, update_replacement q r, r'))) \<or>
     ((\<exists>e. out = Inl e) \<and> only_waits env s s')"
proof -
  let ?k = "mapKey q (gk_goalId q)" and ?s1 = "while_waiting env 0 s"
  have s1: "only_waits env s ?s1" by blast
  show ?thesis
  proof (cases "capture_update env q")
    case (Inl e)
    with run show ?thesis by (auto simp: service_update_def)
  next
    case (Inr key)
    then have q: "partition_ok q" "is_opaque_identifier (gk_goalId q)" "key = key_of (authority_partition.truncate q) (gk_goalId q)"
      using capture_update_Inr by blast+
    let ?found = "case js_get (goals s) ?k of None \<Rightarrow> None | Some r \<Rightarrow> if samePartition (r_partition r) q then Some r else None"
    have get: "get_goal key s = Inr ?found" using q by (simp add: get_goal_Inr cong: option.case_cong)
    note run = run [unfolded service_update_def Inr get commit_simps Let_def]
    show ?thesis
    proof (cases "throwIfAborted env 1 = Inr () \<and> ?found \<noteq> None \<and> (\<exists>y. judge_update l key q (the ?found) = Inr y)")
      case False
      then have "s' = ?s1 \<and> (\<exists>e. out = Inl e)"
        using run by (cases "throwIfAborted env 1"; cases ?found; cases "judge_update l key q (the ?found)") auto
      with s1 show ?thesis by auto
    next
      case True
      then obtain r t steps st where live: "throwIfAborted env 1 = Inr ()" and found: "?found = Some r"
        and j: "judge_update l key q r = Inr (t, steps, st)" by fastforce
      then have r: "js_get (goals s) ?k = Some r" "samePartition (r_partition r) q" by (auto split: option.splits if_splits)
      then have part: "r_partition r = authority_partition.truncate q" using samePartition_eq samePartition_truncate by metis
      note f = goals_keyedD [OF keyed r(1)]
      have id: "r_goalId r = gk_goalId q" using f(1) part by (simp add: goal_key_of_def mapKey_def)
      have key: "key = key_of (r_partition r) (r_goalId r)" using q(3) part id by simp
      have "commit_update l env key q r t steps st ?s1 = (s', out)" using run live found j by simp
      from commit_update_result [OF f(2) j key this]
      show ?thesis using r(2) f(5) id judge_update_Inr(4,5) [OF j f(2)] one_write_after [OF s1] rtranclp_trans [OF s1] by blast
    qed
  qed
qed

section \<open>Creation, retirement, purges and reads\<close>

lemma create_goal_fst: "fst (create_goal l aborted d m s) = s \<or> (\<exists>s' r. create_goal l aborted d m s = (s', Inr r))"
  by (auto simp: create_goal_def commit_def Let_def split: sum.splits)

lemma purge_goals_fst: "fst (purge_goals l p t n s) = s \<or> (\<exists>s' ks. purge_goals l p t n s = (s', Inr ks))"
  by (auto simp: purge_goals_def commit_def Let_def split: sum.splits)

lemma retire_fst: "fst (retireAuthoritySynchronously l aborted d s) = s \<or> (\<exists>s' x. retireAuthoritySynchronously l aborted d s = (s', Inr x))"
  by (auto simp: retireAuthoritySynchronously_def commit_def Let_def split: sum.splits option.splits)

text \<open>The calls that take their step, if any, at once and then wait.\<close>

definition step_then_waits :: "goal_limits \<Rightarrow> goal_env \<Rightarrow> goal_store \<Rightarrow> goal_store \<Rightarrow> bool" where
  "step_then_waits l env s s' \<longleftrightarrow> (\<exists>v. (v = s \<or> goal_step l s v \<and> store_write l s v) \<and> only_waits env v s')"

lemma waits_then_waits: "only_waits env s s' \<Longrightarrow> step_then_waits l env s s'"
  unfolding step_then_waits_def by blast

lemma steps_then_waits:
  "step_then_waits l env s s" "step_then_waits l env s (while_waiting env n s)"
  "v = s \<or> goal_step l s v \<and> store_write l s v \<Longrightarrow> step_then_waits l env s (while_waiting env n v)"
  unfolding step_then_waits_def by blast+

lemma service_retire_step: "step_then_waits l env s (fst (service_retire l env d s))"
proof -
  let ?op = "retireAuthoritySynchronously l (aborted_at env 1) d s"
  have "d\<lparr>gr_partition := gr_partition d, gr_gameTime := gr_gameTime d\<rparr> = d" by simp
  then have "fst (service_retire l env d s) = s \<or> fst (service_retire l env d s) = while_waiting env 0 (fst ?op)"
    by (auto simp: service_retire_def commit_def split: sum.splits prod.splits)
  moreover have "fst ?op = s \<or> goal_step l s (fst ?op) \<and> store_write l s (fst ?op)"
    using retire_fst [of l "aborted_at env 1" d s] goal_step.retirement store_write.write_retire by fastforce
  ultimately show ?thesis using steps_then_waits(1) steps_then_waits(3) [of "fst ?op"] by metis
qed

lemma service_purge_step: "step_then_waits l env s (fst (service_purge l env p t n s))"
proof -
  let ?op = "purge_goals l p t n s"
  have "fst (service_purge l env p t n s) = s \<or> fst (service_purge l env p t n s) = while_waiting env 0 (fst ?op)"
    by (auto simp: service_purge_def commit_def split: sum.splits prod.splits)
  moreover have "fst ?op = s \<or> goal_step l s (fst ?op) \<and> store_write l s (fst ?op)"
    using purge_goals_fst [of l p t n s] goal_step.purged store_write.write_purge by fastforce
  ultimately show ?thesis using steps_then_waits(1) steps_then_waits(3) [of "fst ?op"] by metis
qed

lemma service_read_step:
  "step_then_waits l env s (fst (service_get env k s))" "step_then_waits l env s (fst (service_list l env q s))"
proof -
  have "fst (service_get env k s) \<in> {s, while_waiting env 0 s}" "fst (service_list l env q s) \<in> {s, while_waiting env 0 s}"
    by (auto simp: service_get_def service_list_def commit_def Let_def split: sum.splits)
  then show "step_then_waits l env s (fst (service_get env k s))" "step_then_waits l env s (fst (service_list l env q s))"
    using steps_then_waits(1,2) by (metis insertE singletonD)+
qed

text \<open>The model result is checked before the goal is created and again on the record that was stored; the second check
  cannot fail.\<close>

lemma service_create_cases:
  assumes "service_create l env d s = (s', out)"
  obtains (refused) e where "out = Inl e" "s' = s \<or> s' = while_waiting env 0 s"
  | (created) s1 r where "create_goal l (aborted_at env 1) d (maxOpenGoalsPerOwnerGeneration l) s = (s1, Inr r)"
      "model_result_fits l r" "s' = while_waiting env 0 s1" "out = Inr r"
proof -
  let ?draft = "\<lparr>goalId = goalId d, goalPartition = goalPartition d, objective = objective d, plan = plan d, goalTime = goalTime d,
      goalRecordedAt = goalRecordedAt d\<rparr>"
  have draft: "?draft = d" by simp
  obtain s1 reply where c0: "create_goal l (aborted_at env 1) ?draft (maxOpenGoalsPerOwnerGeneration l) s = (s1, reply)" by fastforce
  then have c: "create_goal l (aborted_at env 1) d (maxOpenGoalsPerOwnerGeneration l) s = (s1, reply)" by (simp only: draft)
  show thesis
  proof (cases "discard (serializeGoalModelResult (goalId d) (js ''1'') Active (objective d) (plan d) l)")
    case (Inl e)
    then have "s' = s \<and> (\<exists>e. out = Inl e)"
      using assms by (auto simp: service_create_def commit_def rbind_eq_Inl rbind_eq_Inr split: sum.splits)
    then show thesis using refused by blast
  next
    case (Inr u)
    show thesis
    proof (cases reply)
      case (Inl e)
      then have "s1 = s" using create_goal_fst [of l "aborted_at env 1" d "maxOpenGoalsPerOwnerGeneration l" s] c by auto
      then have "s' \<in> {s, while_waiting env 0 s} \<and> (\<exists>e. out = Inl e)"
        using assms c0 Inl \<open>s1 = s\<close> by (auto simp: service_create_def commit_def Let_def split: sum.splits)
      then show thesis using refused by blast
    next
      case r: (Inr r)
      have "model_result_fits l r"
        using Inr create_goal_cases(7) [OF c [unfolded r]] by (simp add: model_result_fits_def new_goal_def)
      then show thesis using assms c c0 r created refused
        by (auto simp: service_create_def commit_def Let_def model_result_fits_def split: sum.splits)
    qed
  qed
qed

lemma service_create_step: "step_then_waits l env s (fst (service_create l env d s))"
proof -
  obtain s' out where run: "service_create l env d s = (s', out)" by fastforce
  then show ?thesis
  proof (cases rule: service_create_cases)
    case (refused e)
    then show ?thesis using run steps_then_waits(1,2) by (metis fst_conv)
  next
    case (created s1 r)
    then have "goal_step l s s1 \<and> store_write l s s1" using goal_step.created store_write.write_create by blast
    then show ?thesis using run created(3) steps_then_waits(3) by simp
  qed
qed

lemmas service_step = service_create_step service_retire_step service_purge_step service_read_step

section \<open>Other calls that take steps of the specification\<close>

definition calm_once :: "goal_limits \<Rightarrow> goal_env \<Rightarrow> bool" where
  "calm_once l env \<longleftrightarrow> (\<forall>n u. goal_inv l u \<longrightarrow> goal_steps l u (while_waiting env n u))"

lemma calm_once_waits:
  assumes "only_waits env s s'" and "calm_once l env" and "goal_inv l s"
  shows "goal_steps l s s'"
  using assms
proof (induction rule: rtranclp_induct)
  case (step u v)
  then have "goal_inv l u" using goal_steps_ok by blast
  then have "goal_steps l u v" using step.hyps(2) assms(2) by (auto simp: calm_once_def)
  with step show ?case by (meson rtranclp_trans)
qed simp

lemma calm_once_steps:
  assumes "step_then_waits l env s s'" and "calm_once l env" and "goal_inv l s"
  shows "goal_steps l s s'"
proof -
  obtain v where v: "v = s \<or> goal_step l s v" "only_waits env v s'" using assms(1) by (auto simp: step_then_waits_def)
  then have "goal_inv l v" using assms(3) goal_step_ok by blast
  from calm_once_waits [OF v(2) assms(2) this] v(1) show ?thesis by (metis converse_rtranclp_into_rtranclp)
qed

end
