(* ===== verification/Goal_Samples.thy ===== *)
theory Goal_Samples
  imports Goal_Bounds Goal_Calls Samples
begin

text \<open>A concrete goal with one step, in a store of its own, for the witnesses.\<close>

definition goal_limits0 :: goal_limits where
  "goal_limits0 = \<lparr>maxObjectiveBytes = 9999, maxStepsPerGoal = 9999, maxStepBytes = 9999, maxPlanBytes = 9999, maxRecordBytes = 9999,
     maxModelResultBytes = 9999, maxEvidencePerStep = 9999, maxEvidenceKindBytes = 9999, maxEvidenceReferenceBytes = 9999,
     maxOpenGoalsPerOwnerGeneration = 9999, maxListPageSize = 9999, maxPurgeBatchSize = 9999\<rparr>"

definition partition0 :: authority_partition where
  "partition0 = \<lparr>pt_ownerId = js ''a'', pt_timelineId = js ''t'', pt_generation = js ''1'', pt_sessionId = None, pt_actorId = None\<rparr>"

definition time0 :: game_time where
  "time0 = \<lparr>gt_timelineId = js ''t'', gt_generation = js ''1'', tick = js ''0''\<rparr>"

definition evidence0 :: goal_evidence where
  "evidence0 = \<lparr>evidenceKind = js ''signal_wait'', referenceId = js ''r''\<rparr>"

definition step0 :: plan_step where
  "step0 = \<lparr>stepId = js ''s'', description = js ''d'', stepStatus = StepInProgress, evidence = []\<rparr>"

definition draft0 :: goal_draft where
  "draft0 = \<lparr>goalId = js ''c'', goalPartition = partition0, objective = js ''o'', plan = [step0], goalTime = time0, goalRecordedAt = t0\<rparr>"

definition goal0 :: goal_record where
  "goal0 = new_goal draft0 1"

definition goal_store0 :: goal_store where
  "goal_store0 = \<lparr>goals = [(mapKey partition0 (js ''c''), goal0)], goalRetirements = [], nextGoalKey = 2\<rparr>"

section \<open>Bounds on the bytes of a text\<close>

fun json_bound :: "json \<Rightarrow> nat" where
  "json_bound (JStr s) = 6 * length s + 2"
| "json_bound (JNum t) = length t"
| "json_bound (JArr xs) = 2 + length xs + sum_list (map json_bound xs)"
| "json_bound (JObj kvs) = 2 + length kvs + sum_list (map (\<lambda>(k, x). 6 * length k + 3 + json_bound x) kvs)"
| "json_bound _ = 5"

lemma body_bytes_bound: "body_bytes s \<le> 6 * length s"
proof (induction s rule: body_bytes.induct)
  have small: "unit_bytes c \<le> 6" for c by (simp add: unit_bytes_def)
  case (3 c d cs)
  then show ?case using small [of c] by auto
qed (auto simp: unit_bytes_def)

lemma canonical_bytes_bound: "json_ok j \<Longrightarrow> canonical_bytes j \<le> json_bound j"
proof (induction j)
  case (JArr xs)
  then have "sum_list (map canonical_bytes xs) \<le> sum_list (map json_bound xs)"
    by (intro sum_list_mono) (simp add: list_all_iff)
  then show ?case using canonical_bytes_array [OF JArr.prems] by simp
next
  case (JObj kvs)
  have "sum_list (map (\<lambda>(k, x). jsonStringBytes k + 1 + canonical_bytes x) kvs) \<le>
      sum_list (map (\<lambda>(k, x). 6 * length k + 3 + json_bound x) kvs)"
    using JObj body_bytes_bound by (intro sum_list_mono) (fastforce simp: list_all_iff jsonStringBytes_eq snds.simps intro: add_mono)
  then show ?case using canonical_bytes_object [OF JObj.prems] by simp
next
  case (JStr s)
  then show ?case using body_bytes_bound [of s] by (simp add: canonical_bytes_primitive jsonStringBytes_eq)
qed (auto simp: canonical_bytes_primitive number_text_ascii utf8_ascii [of _ "[]"])

lemma bytes_of_le: "json_ok j \<Longrightarrow> int (json_bound j) \<le> m \<Longrightarrow> bytes_of j \<le> m"
  using canonical_bytes_bound [of j] by (simp add: bytes_of_def canonical_bytes_def)

section \<open>The sample is admitted\<close>

lemma limits0_ok [simp]: "limits_ok goal_limits0"
proof -
  have "bytes_of (JObj [(js ''found'', JBool False)]) \<le> 9999" by (rule bytes_of_le) (simp_all add: js_def)
  then have "int (utf8_length not_found_result) \<le> 9999" by (simp add: not_found_result_def serialize_eq_canonical bytes_of_def)
  then show ?thesis
    by (simp add: limits_ok_def captureGoalLimits_def goal_limit_def goal_limits0_def is_safe_integer_def max_safe_integer_def)
qed

lemma limits0_selectors [simp]:
  "maxObjectiveBytes goal_limits0 = 9999" "maxStepsPerGoal goal_limits0 = 9999" "maxStepBytes goal_limits0 = 9999"
  "maxPlanBytes goal_limits0 = 9999" "maxRecordBytes goal_limits0 = 9999" "maxModelResultBytes goal_limits0 = 9999"
  "maxEvidencePerStep goal_limits0 = 9999" "maxEvidenceKindBytes goal_limits0 = 9999" "maxEvidenceReferenceBytes goal_limits0 = 9999"
  "maxOpenGoalsPerOwnerGeneration goal_limits0 = 9999" "maxListPageSize goal_limits0 = 9999" "maxPurgeBatchSize goal_limits0 = 9999"
  by (simp_all add: goal_limits0_def)

lemma sample_partition_ok [simp]: "partition_ok partition0"
  by (simp add: partition_ok_iff partition0_def)

lemma sample_time_ok [simp]: "time_ok time0 partition0"
  by (simp add: time_ok_def game_time_ok_def time0_def partition0_def)

text \<open>The sample step in any state, before it has evidence and after.\<close>

definition plan_at :: "step_status \<Rightarrow> goal_evidence list \<Rightarrow> plan_step list" where
  "plan_at st es = [step0\<lparr>stepStatus := st, evidence := es\<rparr>]"

lemma sample_plan: "plan draft0 = plan_at StepInProgress []"
  by (simp add: draft0_def plan_at_def step0_def)

lemma sample_bytes:
  "goal_bytes (js ''k'') 9999 code = Inr ()" "goal_bytes (js ''r'') 9999 code = Inr ()" "goal_bytes (js ''d'') 9999 code = Inr ()"
  "goal_bytes (js ''o'') 9999 code = Inr ()" "goal_bytes (js ''signal_wait'') 9999 code = Inr ()"
  by (simp_all add: goal_bytes_def js_def utf8_small)

lemma sample_kind [simp]: "is_opaque_identifier (js ''signal_wait'')"
  by (simp add: is_opaque_identifier_def is_control_unit_def js_def)

lemma sample_plan_ok:
  assumes "es = [] \<or> st = StepCompleted \<and> es = [evidence0]"
  shows "plan_ok goal_limits0 (plan_at st es)"
proof -
  have "bytes_of (plan_json (plan_at st es)) \<le> 9999"
    using plan_json_shape [of "plan_at st es"] assms
    by (intro bytes_of_le) (cases st; auto simp: plan_json_def plan_at_def step_json_def evidence_json_def step0_def evidence0_def js_def)+
  moreover have "plan_shape StepCompleted (plan_at st es) = Inr ()" by (cases st) (simp_all add: plan_at_def)
  moreover have "normalize_steps goal_limits0 [] (plan_at st es) = Inr ()"
    using assms by (auto simp: plan_at_def step0_def evidence0_def normalizeGoalEvidenceList_def sample_bytes assertOpaqueIdentifier_def)
  ultimately show ?thesis
    by (simp add: plan_ok_def normalizeGoalPlan_def validatePlanShape_def serializeGoalPlan_eq discard_def plan_at_def)
qed

lemma record_bytes:
  assumes "r_plan r = plan_at st es" "es = [] \<or> es = [evidence0]" "r_goalId r = js ''c''" "r_partition r = partition0"
    and "length (r_objective r) = 1" "goalKey r = 1 \<or> goalKey r = 2" "r_gameTime r = time0" "createdGameTime r = time0"
    and "length (r_revision r) = 1" "length (r_createdAt r) = 24" "length (r_updatedAt r) = 24"
    and "lastHostAdvanceFingerprint r = None \<or> lastHostAdvanceFingerprint r = Some digest_a"
  shows "bytes_of (goal_record_json r) \<le> 9999"
proof -
  have "json_bound (plan_json (r_plan r)) \<le> 500" unfolding assms(1)
    using assms(2) by (cases st) (auto simp: plan_json_def plan_at_def step_json_def evidence_json_def step0_def evidence0_def js_def)
  moreover have "length (goal_status_name (r_status r)) \<le> 9" by (cases "r_status r") (simp_all add: js_def)
  moreover have "json_bound (opt_or_null JStr (lastHostAdvanceFingerprint r)) \<le> 500"
    using assms(12) by (auto simp: opt_or_null_def digest_a_def)
  moreover have "length (to_decimal (goalKey r)) = 1" using assms(6) by (auto simp: to_decimal.simps [of "goalKey r"])
  ultimately show ?thesis using record_json_shape [of r] assms(3-5,7-11)
    by (intro bytes_of_le) (simp_all add: goal_record_json_def game_time_json_def authority_partition_json_def opt_member_def
      partition0_def time0_def js_def)
qed

lemma sample_stamps [simp]: "length t0 = 24" "length t1 = 24" "length t2 = 24"
  by (simp_all add: t0_def t1_def t2_def js_def)

lemma sample_record_bytes:
  assumes "es = [] \<or> es = [evidence0]" "fp = None \<or> fp = Some digest_a" "n = js ''1'' \<or> n = js ''2''" "t = t0 \<or> t = t1"
  shows "bytes_of (goal_record_json (goal0\<lparr>r_plan := plan_at st es, r_status := x, r_revision := n, r_updatedAt := t,
     lastHostAdvanceFingerprint := fp\<rparr>)) \<le> 9999"
  by (rule record_bytes [where st = st and es = es]) (use assms in \<open>auto simp: goal0_def new_goal_def draft0_def js_def\<close>)

lemma model_bytes:
  assumes "es = [] \<or> es = [evidence0]" "length n = 1" "length obj = 1"
  shows "bytes_of (model_result_json (js ''c'') n x obj (plan_at st es)) \<le> 9999"
proof -
  have "json_bound (plan_json (plan_at st es)) \<le> 500"
    using assms(1) by (cases st) (auto simp: plan_json_def plan_at_def step_json_def evidence_json_def step0_def evidence0_def js_def)
  moreover have "length (goal_status_name x) \<le> 9" by (cases x) (simp_all add: js_def)
  ultimately show ?thesis using model_result_json_shape [of "js ''c''" n x obj "plan_at st es"] assms(2,3)
    by (intro bytes_of_le) (simp_all add: model_result_json_def js_def)
qed

lemma sample_model_bytes:
  assumes "es = [] \<or> es = [evidence0]" "n = js ''1'' \<or> n = js ''2''"
  shows "bytes_of (model_result_json (js ''c'') n x (js ''o'') (plan_at st es)) \<le> 9999"
  by (rule model_bytes) (use assms in \<open>auto simp: js_def\<close>)

lemma goal0_fields [simp]:
  "r_goalId goal0 = js ''c''" "r_partition goal0 = partition0" "r_objective goal0 = js ''o''" "r_gameTime goal0 = time0"
  "r_plan goal0 = plan_at StepInProgress []" "r_revision goal0 = js ''1''" "r_status goal0 = Active" "goalKey goal0 = 1"
  "r_updatedAt goal0 = t0" "lastHostAdvanceFingerprint goal0 = None"
  by (simp_all add: goal0_def new_goal_def) (simp_all add: draft0_def plan_at_def step0_def)

lemma goal0_bytes: "bytes_of (goal_record_json goal0) \<le> 9999"
proof -
  have "goal0\<lparr>r_plan := plan_at StepInProgress [], r_status := Active, r_revision := js ''1'', r_updatedAt := t0,
      lastHostAdvanceFingerprint := None\<rparr> = goal0"
    by (rule goal_record.equality) simp_all
  with sample_record_bytes [where es = "[]" and fp = None and n = "js ''1''" and t = t0 and st = StepInProgress and x = Active] show ?thesis by simp
qed

lemma draft0_ok: "draft_ok goal_limits0 draft0"
  using sample_plan_ok [of "[]" StepInProgress]
  by (simp add: draft_ok_def sample_plan) (simp add: draft0_def validateObjective_def sample_bytes plan_at_def)

lemma sample_created: "create_goal goal_limits0 False draft0 9999 empty_goal_store = (goal_store0, Inr goal0)"
proof -
  have "validateGoalPageLimit 9999 9999 code = Inr ()" for code
    by (simp add: validateGoalPageLimit_def is_safe_integer_def max_safe_integer_def)
  moreover have "\<exists>x. serializeGoalRecord goal0 goal_limits0 = Inr x" using goal0_bytes by (simp add: serializeGoalRecord_eq)
  moreover have "\<exists>x. serializeGoalPlan (plan_at StepInProgress []) goal_limits0 = Inr x"
    using sample_plan_ok [of "[]" StepInProgress] by (auto simp: plan_ok_def normalizeGoalPlan_def rbind_eq_Inr)
  moreover have "new_goal draft0 (Suc 0) = goal0" by (simp add: goal0_def)
  ultimately show ?thesis
    using draft0_ok
    by (auto simp: create_goal_def normalizeGoalDraft_Inr [THEN iffD2] empty_goal_store_def js_has_def open_goals_def js_values_def Let_def
      throw_if_aborted_def goal_store0_def js_set_def discard_def) (simp_all add: draft0_def)
qed

lemma goal0_fits: "model_result_fits goal_limits0 goal0"
  using sample_model_bytes [of "[]" "js ''1''" Active StepInProgress]
  by (simp add: model_result_fits_def serializeGoalModelResult_eq discard_def)

lemma sample_created_step: "goal_step goal_limits0 empty_goal_store goal_store0"
  by (rule goal_step.created [OF sample_created goal0_fits])

lemma empty_goals_ok: "goal_inv goal_limits0 empty_goal_store"
  using limits0_ok by (intro empty_goal_inv) (simp add: limits_ok_def)

lemma goal_store0_inv [simp]: "goal_inv goal_limits0 goal_store0"
  using goal_step_ok [OF sample_created_step empty_goals_ok] by simp

lemma stored_goal0: "stored goal_store0 goal0"
  by (simp add: stored_def goal_store0_def goal_key_of_def js_get_def)

section \<open>The goal is advanced\<close>

definition quiet_env :: goal_env where
  "quiet_env = \<lparr>while_waiting = (\<lambda>n s. s), aborted_at = (\<lambda>n. False), committed_input = Some (\<lambda>p i. Inr True),
     evidence_accepted = (\<lambda>g st e t i. Inr True)\<rparr>"

definition advance0 :: host_advance where
  "advance0 = \<lparr>h_goalId = js ''c'', h_stepId = js ''s'', h_inputId = js ''k'', h_expectedRevision = js ''1'', h_recordedAt = t1,
     h_partition = partition0, h_gameTime = time0, h_evidence = evidence0\<rparr>"

definition goal1 :: goal_record where
  "goal1 = goal0\<lparr>r_plan := plan_at StepCompleted [evidence0], r_status := Achieved, r_revision := js ''2'', r_updatedAt := t1,
     lastHostAdvanceFingerprint := Some digest_a\<rparr>"

definition goal_store1 :: goal_store where
  "goal_store1 = \<lparr>goals = [(mapKey partition0 (js ''c''), goal1)], goalRetirements = [], nextGoalKey = 2\<rparr>"

lemma quiet_env_simps [simp]:
  "while_waiting quiet_env n s = s" "throwIfAborted quiet_env n = Inr ()" "committed_input quiet_env = Some (\<lambda>p i. Inr True)"
  "evidence_accepted quiet_env = (\<lambda>g st e t i. Inr True)" "aborted_at quiet_env n = False"
  by (simp_all add: quiet_env_def throwIfAborted_def throw_if_aborted_def)

text \<open>The same caller with a verifier of its own.\<close>

definition judging_env :: "(goal_record \<Rightarrow> plan_step \<Rightarrow> goal_evidence \<Rightarrow> game_time \<Rightarrow> js_string option \<Rightarrow> bool result) \<Rightarrow> goal_env" where
  "judging_env f = quiet_env\<lparr>evidence_accepted := f\<rparr>"

lemma judging_env_simps [simp]:
  "while_waiting (judging_env f) n s = s" "throwIfAborted (judging_env f) n = Inr ()" "committed_input (judging_env f) = Some (\<lambda>p i. Inr True)"
  "evidence_accepted (judging_env f) = f"
  by (simp_all add: judging_env_def quiet_env_def throwIfAborted_def throw_if_aborted_def)

lemma quiet_judging: "judging_env (\<lambda>g st e t i. Inr True) = quiet_env"
  by (simp add: judging_env_def quiet_env_def)

lemma quiet_calm [simp]: "calm l k quiet_env" "calm_once l quiet_env" "calm l k (judging_env f)"
  by (simp_all add: calm_def calm_once_def)

lemma quiet_waits [simp]: "(\<And>u. R u u) \<Longrightarrow> waits I R quiet_env" "(\<And>u. R u u) \<Longrightarrow> waits I R (judging_env f)"
  by (simp_all add: waits_def)

lemma goal_store0_keyed [simp]: "goals_keyed goal_limits0 goal_store0"
  by (rule goal_inv_keyed) simp

lemma advance0_fields [simp]:
  "h_goalId advance0 = js ''c''" "h_stepId advance0 = js ''s''" "h_inputId advance0 = js ''k''" "h_expectedRevision advance0 = js ''1''"
  "h_recordedAt advance0 = t1" "h_partition advance0 = partition0" "h_gameTime advance0 = time0" "h_evidence advance0 = evidence0"
  by (simp_all add: advance0_def)

lemma sample_normal:
  "normalizeGoalPartition partition0 = Inr partition0" "normalizeGoalTime time0 partition0 = Inr time0"
  "normalizeGoalKey (key_of partition0 (js ''c'')) = Inr (key_of partition0 (js ''c''))"
  "validateGoalRevision (js ''1'') = Inr ()" "validateGoalTimestamp t1 = Inr ()" "compareGoalTicks (js ''0'') (js ''0'') = Inr 0"
  by (simp_all add: compareGoalTicks_Inr)

lemma advance0_captured: "capture_advance goal_limits0 (judging_env f) advance0 = Inr advance0"
proof -
  have "normalizeGoalEvidence evidence0 goal_limits0 = Inr evidence0"
    by (simp add: normalizeGoalEvidence_def normalizeGoalEvidenceList_def evidence0_def sample_bytes assertOpaqueIdentifier_def)
  moreover have "advance0\<lparr>h_partition := partition0, h_gameTime := time0, h_evidence := evidence0\<rparr> = advance0"
    by (simp add: advance0_def)
  ultimately show ?thesis by (simp add: capture_advance_def assertOpaqueIdentifier_def sample_normal)
qed

lemma sample_get: "get_goal (key_of partition0 (js ''c'')) goal_store0 = Inr (Some goal0)"
  by (simp add: get_goal_Inr goal_store0_def js_get_def samePartition_eq)

lemma sample_index: "step_index (js ''s'') (plan_at st es) = 0"
  by (simp add: step_index_def plan_at_def step0_def)

lemma sample_judged: "judge_advance goal0 advance0 digest_a = Inr (Inr step0)"
  by (simp add: judge_advance_def isExactHostAdvanceReplay_def Let_def sample_index)
    (simp add: time0_def plan_at_def step0_def sample_normal)

lemma sample_replacement:
  "advance_replacement goal0 advance0 digest_a = \<lparr>x_plan = plan_at StepCompleted [evidence0], x_status = Achieved, x_gameTime = time0,
     x_recordedAt = t1, x_fingerprint = Some digest_a\<rparr>"
  by (simp add: advance_replacement_def Let_def sample_index) (simp add: plan_at_def advance_plan_def step0_def)

lemma digest_a_sha [simp]: "is_sha256 digest_a"
  by (simp add: is_sha256_def digest_a_def is_hex_unit_def list_all_iff)

lemma sample_time_key [simp]: "time_ok time0 (key_of partition0 i)"
  using sample_time_ok by (simp add: time_ok_def del: sample_time_ok)

text \<open>The sample goal after it was given a plan, a status and a fingerprint.\<close>

definition goal_with :: "plan_step list \<Rightarrow> goal_status \<Rightarrow> js_string option \<Rightarrow> goal_record" where
  "goal_with p x fp = goal0\<lparr>r_plan := p, r_status := x, r_revision := js ''2'', r_updatedAt := t1, lastHostAdvanceFingerprint := fp\<rparr>"

lemma sample_replace:
  assumes es: "es = [] \<or> st = StepCompleted \<and> es = [evidence0]" and fp: "fp = None \<or> fp = Some digest_a"
  shows "replace_goal goal_limits0 (key_of partition0 (js ''c'')) (js ''1'')
      \<lparr>x_plan = plan_at st es, x_status = x, x_gameTime = time0, x_recordedAt = t1, x_fingerprint = fp\<rparr> goal_store0 =
     (goal_store0\<lparr>goals := [(mapKey partition0 (js ''c''), goal_with (plan_at st es) x fp)]\<rparr>, Inr (goal_with (plan_at st es) x fp))"
proof -
  let ?k = "key_of partition0 (js ''c'')" and ?r = "goal_with (plan_at st es) x fp"
    and ?x = "\<lparr>x_plan = plan_at st es, x_status = x, x_gameTime = time0, x_recordedAt = t1, x_fingerprint = fp\<rparr>"
  have n: "normalizeGoalKey ?k = Inr ?k" by simp
  have x: "normalizeGoalReplacement ?x ?k goal_limits0 = Inr ?x"
    using sample_plan_ok [OF es] fp by (auto simp: replacement_ok_def)
  have b: "bigint_succ (js ''1'') = Inr (js ''2'')" by (simp add: bigint_succ_def)
  have plan: "\<exists>y. serializeGoalPlan (r_plan ?r) goal_limits0 = Inr y"
    using sample_plan_ok [OF es] by (auto simp: plan_ok_def normalizeGoalPlan_def rbind_eq_Inr goal_with_def)
  have rec: "\<exists>y. serializeGoalRecord ?r goal_limits0 = Inr y"
    using sample_record_bytes [where es = es and fp = fp and n = "js ''2''" and t = t1 and st = st and x = x] es fp
    by (auto simp: serializeGoalRecord_eq goal_with_def)
  have get: "js_get (goals goal_store0) (mapKey partition0 (js ''c'')) = Some goal0" by (simp add: goal_store0_def js_get_def)
  have s: "\<not> js_has (goalRetirements goal_store0) k" for k by (simp add: goal_store0_def js_has_def)
  have r: "replaced_goal goal0 ?x (js ''2'') = ?r" unfolding replaced_goal_def goal_with_def by (rule goal_record.equality) simp_all
  show ?thesis using plan rec
    by (auto simp: replace_goal_def n x sample_normal s get samePartition_eq b Let_def r discard_def)
      (simp_all add: goal_store0_def js_set_def)
qed

lemma sample_replace_advance:
  "replace_goal goal_limits0 (key_of partition0 (js ''c'')) (js ''1'') (advance_replacement goal0 advance0 digest_a) goal_store0 =
     (goal_store1, Inr goal1)"
proof -
  have "goal_with (plan_at StepCompleted [evidence0]) Achieved (Some digest_a) = goal1" by (simp add: goal_with_def goal1_def)
  with sample_replace [of "[evidence0]" StepCompleted "Some digest_a" Achieved] show ?thesis
    by (simp add: sample_replacement) (simp add: goal_store0_def goal_store1_def)
qed

lemma sample_judged_advance:
  assumes "f goal0 step0 evidence0 time0 (Some (js ''k'')) = Inr True"
  shows "advanceFromHost goal_limits0 (\<lambda>_. digest_a) (judging_env f) advance0 goal_store0 = (goal_store1, Inr (HostResult Advanced goal1))"
proof -
  have print: "fingerprintHostAdvance (\<lambda>_. digest_a) advance0 = Inr digest_a" by (simp add: fingerprintHostAdvance_def)
  have fits: "validateNextModelResult goal_limits0 goal0 Achieved (plan_at StepCompleted [evidence0]) = Inr ()"
    using sample_model_bytes [of "[evidence0]" "js ''2''" Achieved StepCompleted]
    by (simp add: validateNextModelResult_def bigint_succ_def serializeGoalModelResult_eq)
  have v: "verify_advance (judging_env f) goal0 advance0 step0 goal_store0 = (goal_store0, Inr None)"
    using assms by (simp add: verify_advance_def)
  have "commit_advance goal_limits0 (judging_env f) goal0 advance0 digest_a goal_store0 = (goal_store1, Inr (HostResult Advanced goal1))"
    using fits by (simp add: commit_advance_def Let_def sample_replace_advance) (simp add: sample_replacement)
  then show ?thesis
    by (simp add: advanceFromHost_def advance0_captured print sample_get sample_judged v samePartition_eq)
qed

lemma sample_advance:
  "advanceFromHost goal_limits0 (\<lambda>_. digest_a) quiet_env advance0 goal_store0 = (goal_store1, Inr (HostResult Advanced goal1))"
  using sample_judged_advance [of "\<lambda>g st e t i. Inr True"] by (simp add: quiet_judging)

section \<open>The goal is paused\<close>

definition status_update :: "goal_status \<Rightarrow> goal_update" where
  "status_update x = goal_key.extend (key_of partition0 (js ''c'')) (goal_update.fields (js ''1'') None (Some x) time0 t1)"

abbreviation update0 :: goal_update where
  "update0 \<equiv> status_update Paused"

lemma status_update_fields [simp]:
  "gk_goalId (status_update x) = js ''c''" "u_expectedRevision (status_update x) = js ''1''" "u_plan (status_update x) = None" "u_status (status_update x) = Some x"
  "u_gameTime (status_update x) = time0" "u_recordedAt (status_update x) = t1" "partition_ok (status_update x)" "authority_partition.truncate (status_update x) = partition0"
  "mapKey (status_update x) i = mapKey partition0 i"
  using sample_partition_ok
  by (simp_all add: status_update_def key_of_def goal_key.extend_def goal_update.fields_def authority_partition.extend_def goal_key.fields_def
    partition_ok_iff authority_partition.truncate_def mapKey_def del: sample_partition_ok)

lemma sample_status_update:
  assumes "x = Paused \<or> x = Cancelled"
  shows "service_update goal_limits0 quiet_env (status_update x) goal_store0 =
     (goal_store0\<lparr>goals := [(mapKey partition0 (js ''c''), goal_with (plan_at StepInProgress []) x None)]\<rparr>,
      Inr (goal_with (plan_at StepInProgress []) x None))"
proof -
  have c: "capture_update quiet_env (status_update x) = Inr (key_of partition0 (js ''c''))"
    by (simp add: capture_update_def normalizeGoalPartition_Inr [THEN iffD2] sample_normal discard_def Let_def)
  have tick0: "tick time0 = js ''0''" by (simp add: time0_def)
  have j: "judge_update goal_limits0 (key_of partition0 (js ''c'')) (status_update x) goal0 = Inr (time0, plan_at StepInProgress [], x)"
    using assms by (auto simp: judge_update_def samePartition_eq isTerminal_def sample_normal tick0 validateStatusTransition_def)
  have fits: "validateNextModelResult goal_limits0 goal0 x (plan_at StepInProgress []) = Inr ()"
    using sample_model_bytes [of "[]" "js ''2''" x StepInProgress]
    by (simp add: validateNextModelResult_def bigint_succ_def serializeGoalModelResult_eq)
  show ?thesis
    by (simp add: service_update_def c sample_get j Let_def commit_update_def update_plan_checks_def fits sample_replace)
qed

lemma sample_update:
  "service_update goal_limits0 quiet_env update0 goal_store0 =
     (goal_store0\<lparr>goals := [(mapKey partition0 (js ''c''), goal_with (plan_at StepInProgress []) Paused None)]\<rparr>,
      Inr (goal_with (plan_at StepInProgress []) Paused None))"
  by (rule sample_status_update) simp

section \<open>The partition is retired\<close>

definition retirement0 :: goal_retirement where
  "retirement0 = \<lparr>gr_retirementId = js ''k'', gr_stateRevision = js ''1'', gr_partition = partition0, gr_gameTime = time0,
     gr_recordedAt = t1\<rparr>"

definition cancelled0 :: goal_record where
  "cancelled0 = goal0\<lparr>r_status := Cancelled, r_revision := js ''2'', r_updatedAt := t1\<rparr>"

definition retired0 :: goal_retirement_record where
  "retired0 = goal_retirement.extend retirement0 (goal_retirement_record.fields 1)"

definition goal_store2 :: goal_store where
  "goal_store2 = \<lparr>goals = [(mapKey partition0 (js ''c''), cancelled0)], goalRetirements = [(partitionKey partition0, retired0)],
     nextGoalKey = 2\<rparr>"

lemma retirement0_fields [simp]:
  "gr_retirementId retirement0 = js ''k''" "gr_stateRevision retirement0 = js ''1''" "gr_partition retirement0 = partition0"
  "gr_gameTime retirement0 = time0" "gr_recordedAt retirement0 = t1"
  by (simp_all add: retirement0_def)

lemma cancelled0_eq:
  "goal0\<lparr>r_status := Cancelled, r_gameTime := time0, r_updatedAt := t1, r_revision := js ''2'', lastHostAdvanceFingerprint := None\<rparr> =
     cancelled0"
  unfolding cancelled0_def by (rule goal_record.equality) simp_all

lemma cancelled0_bytes: "bytes_of (goal_record_json cancelled0) \<le> 9999"
proof -
  have "goal0\<lparr>r_plan := plan_at StepInProgress [], r_status := Cancelled, r_revision := js ''2'', r_updatedAt := t1,
      lastHostAdvanceFingerprint := None\<rparr> = cancelled0" unfolding cancelled0_def by (rule goal_record.equality) simp_all
  with sample_record_bytes [where es = "[]" and fp = None and n = "js ''2''" and t = t1 and st = StepInProgress and x = Cancelled]
  show ?thesis by simp
qed

lemma sample_retire:
  "retireAuthoritySynchronously goal_limits0 False retirement0 goal_store0 = (goal_store2, Inr retired0)"
proof -
  have d: "normalizeGoalAuthorityRetirement retirement0 = Inr retirement0" by (simp add: retirement_ok_def)
  have tick0: "tick time0 = js ''0''" by (simp add: time0_def)
  have c: "cancelled_goal goal_limits0 retirement0 goal0 = Inr cancelled0"
    using cancelled0_bytes
    by (simp add: cancelled_goal_def sample_normal tick0 bigint_succ_def Let_def cancelled0_eq serializeGoalRecord_eq)
  show ?thesis
    by (simp add: retireAuthoritySynchronously_def d throw_if_aborted_def Let_def samePartition_eq isOpen_def retirement_entry_def c
        goal_store0_def js_get_def) (simp add: goal_store2_def retired0_def js_set_def)
qed

lemma goal_store2_inv: "goal_inv goal_limits0 goal_store2"
  using goal_step_ok [OF goal_step.retirement [OF sample_retire] goal_store0_inv] by simp

end
