(* ===== verification/Goal_Spec.thy ===== *)
theory Goal_Spec
  imports Goal_Samples
begin

text \<open>
  The properties of the goal service. The abstract specification is the relation \<open>goal_step\<close>: goals are created, revised
  by one step of progress, cancelled with their partition and purged, each at one instant. A call of the service is one
  or none of these steps of its own, among what other calls do to the store while it waits; only a call whose goal was
  purged and created again meanwhile can write over the new goal. The properties of runs of calls are about calm runs,
  in which this does not happen.
\<close>

datatype goal_call = CreateCall goal_draft | AdvanceCall host_advance | UpdateCall goal_update | GetCall goal_key
  | ListCall goal_list_request | RetireCall goal_retirement | PurgeCall authority_partition js_string int

fun after_call :: "goal_limits \<Rightarrow> (js_string \<Rightarrow> js_string) \<Rightarrow> goal_env \<Rightarrow> goal_call \<Rightarrow> goal_store \<Rightarrow> goal_store" where
  "after_call l sha env (CreateCall d) s = fst (service_create l env d s)"
| "after_call l sha env (AdvanceCall q) s = fst (advanceFromHost l sha env q s)"
| "after_call l sha env (UpdateCall q) s = fst (service_update l env q s)"
| "after_call l sha env (GetCall k) s = fst (service_get env k s)"
| "after_call l sha env (ListCall q) s = fst (service_list l env q s)"
| "after_call l sha env (RetireCall d) s = fst (service_retire l env d s)"
| "after_call l sha env (PurgeCall p t n) s = fst (service_purge l env p t n s)"

text \<open>What else runs while a call waits takes steps of the specification; a goal that is being advanced or updated is not
  purged meanwhile.\<close>

fun calm_call :: "goal_limits \<Rightarrow> goal_env \<Rightarrow> goal_call \<Rightarrow> bool" where
  "calm_call l env (AdvanceCall q) = calm l (mapKey (h_partition q) (h_goalId q)) env"
| "calm_call l env (UpdateCall q) = calm l (mapKey q (gk_goalId q)) env"
| "calm_call l env c = calm_once l env"

definition run_calls :: "goal_limits \<Rightarrow> (js_string \<Rightarrow> js_string) \<Rightarrow> (goal_env \<times> goal_call) list \<Rightarrow> goal_store \<Rightarrow> goal_store" where
  "run_calls l sha cs s = run_ops (\<lambda>(env, c). after_call l sha env c) cs s"

definition calm_calls :: "goal_limits \<Rightarrow> (goal_env \<times> goal_call) list \<Rightarrow> bool" where
  "calm_calls l cs = list_all (\<lambda>(env, c). calm_call l env c) cs"

lemma after_call_steps:
  assumes s: "goal_inv l s" and calm: "calm_call l env c"
  shows "goal_steps l s (after_call l sha env c s)"
proof (cases c)
  case (AdvanceCall q)
  obtain s' out where run: "advanceFromHost l sha env q s = (s', out)" by fastforce
  from advance_write [OF goal_inv_keyed [OF s] this] show ?thesis
    using calm_written [OF s] calm_refused [OF _ s] run calm AdvanceCall by (auto simp: goal_key_of_def)
next
  case (UpdateCall q)
  obtain s' out where run: "service_update l env q s = (s', out)" by fastforce
  from update_write [OF goal_inv_keyed [OF s] this] show ?thesis
    using calm_written [OF s] calm_refused [OF _ s] run calm UpdateCall
    by (auto simp: goal_key_of_def mapKey_def samePartition_def)
qed (use assms calm_once_steps [OF service_step(1)] calm_once_steps [OF service_step(2)] calm_once_steps [OF service_step(3)]
    calm_once_steps [OF service_step(4)] calm_once_steps [OF service_step(5)] in simp_all)

interpretation gm: invariant_machine "\<lambda>(env, c). after_call l sha env c" "\<lambda>(env, c) s. calm_call l env c" "goal_inv l"
  for l sha
  by unfold_locales (auto dest: after_call_steps goal_steps_ok)

lemma calm_calls_guarded: "calm_calls l cs \<longleftrightarrow> guarded (\<lambda>(env, c). after_call l sha env c) (\<lambda>(env, c) s. calm_call l env c) cs s"
proof -
  have "(\<lambda>(env, c) s. calm_call l env c) = (\<lambda>op (s :: goal_store). case op of (env, c) \<Rightarrow> calm_call l env c)" by (auto simp: fun_eq_iff)
  then show ?thesis by (simp add: calm_calls_def guarded_True)
qed

lemma run_calls_ok:
  assumes "goal_inv l s" "calm_calls l cs"
  shows "goal_inv l (run_calls l sha cs s)" "goals_later s (run_calls l sha cs s)"
proof -
  note guarded = assms(2) [unfolded calm_calls_guarded [of l cs sha s]]
  show "goal_inv l (run_calls l sha cs s)" unfolding run_calls_def by (rule gm.run_inv [OF assms(1) guarded])
  show "goals_later s (run_calls l sha cs s)" unfolding run_calls_def
    by (rule gm.run_related [OF goals_later_refl goals_later_trans _ assms(1) guarded])
      (auto dest: after_call_steps goal_steps_ok)
qed

section \<open>Calls among any others\<close>

text \<open>A write of the call itself, among what the others do.\<close>

lemma written_refines:
  assumes s: "goal_inv l s" and R: "rely l R" and env: "waits (goals_keyed l) R env" and r: "stored s r"
    and w: "one_write l env s s' (Some (r, x, r'))"
  shows "\<exists>u v. R s u \<and> (v = u \<or> goal_step l u v \<or> overtaken l s u v) \<and> R v s'"
proof -
  obtain u c where u: "R s u" "goals_kept s u" "revises l r c x u r'" "R (put_goal r' u) s'"
    by (rule shared_goals.call_written [OF rely_shared [OF R] goal_inv_keyed [OF s] env r refl w])
  then show ?thesis using revises_step_or_overtaken [OF s u(2) r u(3)] by blast
qed

lemma waited_refines:
  assumes s: "goals_keyed l s" and R: "rely l R" and env: "waits (goals_keyed l) R env" and w: "step_then_waits l env s s'"
  shows "\<exists>u v. R s u \<and> (v = u \<or> goal_step l u v \<or> overtaken l s u v) \<and> R v s'"
proof -
  obtain v where v: "v = s \<or> goal_step l s v \<and> store_write l s v" "only_waits env v s'" using w by (auto simp: step_then_waits_def)
  then have "goals_keyed l v" using s store_write_keeps by blast
  then have "R v s'" by (rule shared_goals.call_refused [OF rely_shared [OF R] v(2) _ env])
  moreover have "R s s" using R by (simp add: rely_def)
  ultimately show ?thesis using v(1) by blast
qed

text \<open>The calls of the service are themselves sequences of operations of the store, so calls may run at the awaits of calls.\<close>

lemma calls_write:
  assumes s: "goals_keyed l s" and env: "others_write l env"
  shows "store_writes l s (after_call l sha env c s)"
proof -
  have waited: "store_writes l u v" if "only_waits env u v" "goals_keyed l u" for u v
    by (rule free.call_refused [OF that env])
  have written: "store_writes l s s'" if "one_write l env s s' (Some (r, x, r'))" for s' r x r'
  proof -
    obtain u v where u: "only_waits env s u" "only_waits env v s'"
        "replace_goal l (key_of (r_partition r) (r_goalId r)) (r_revision r) x u = (v, Inr r')"
      using \<open>one_write l env s s' (Some (r, x, r'))\<close> by (auto simp: one_write_def)
    have "store_writes l s u" by (rule waited [OF u(1) s])
    moreover have "store_write l u v" using u(3) by (rule write_replace)
    moreover have "goals_keyed l v" using calculation store_writes_keep [OF _ s] store_write_keeps by blast
    then have "store_writes l v s'" by (rule waited [OF u(2)])
    ultimately show ?thesis by (meson rtranclp.rtrancl_into_rtrancl rtranclp_trans)
  qed
  have stepped: "store_writes l s s'" if st: "step_then_waits l env s s'" for s'
  proof -
    obtain v where v: "v = s \<or> store_write l s v" "only_waits env v s'" using st by (auto simp: step_then_waits_def)
    then have "store_writes l v s'" using s store_write_keeps waited by blast
    then show ?thesis using v(1) converse_rtranclp_into_rtranclp by metis
  qed
  show ?thesis
  proof (cases c)
    case (AdvanceCall q)
    obtain s' out where run: "advanceFromHost l sha env q s = (s', out)" by fastforce
    from advance_write [OF s this] show ?thesis using written waited [OF _ s] run AdvanceCall by auto
  next
    case (UpdateCall q)
    obtain s' out where run: "service_update l env q s = (s', out)" by fastforce
    from update_write [OF s this] show ?thesis using written waited [OF _ s] run UpdateCall by auto
  qed (simp_all add: stepped service_step)
qed

lemma calls_at_awaits:
  assumes "\<And>n u. \<exists>cs. list_all (\<lambda>(env', c). others_write l env') cs \<and> while_waiting env n u = run_calls l sha cs u"
  shows "others_write l env"
proof -
  have "store_writes l u (run_calls l sha cs u)" if "list_all (\<lambda>(env', c). others_write l env') cs" "goals_keyed l u" for cs u
    using that
  proof (induction cs arbitrary: u)
    case (Cons ec cs)
    obtain env' c where ec: "ec = (env', c)" by (cases ec)
    with Cons.prems have first: "store_writes l u (after_call l sha env' c u)" by (intro calls_write) simp_all
    then have "store_writes l (after_call l sha env' c u) (run_calls l sha cs (after_call l sha env' c u))"
      using Cons store_writes_keep by auto
    with first show ?case by (simp add: run_calls_def ec)
  qed (simp add: run_calls_def)
  then show ?thesis unfolding waits_def [of _ _ env] using assms by metis
qed

section \<open>Properties\<close>

text \<open>C12: every call of the goal service refines the atomic steps, among whatever other calls do to the store at its awaits: it
  makes at most one write of its own, at one instant, and this write creates, revises, retires or purges goals as the
  specification has it, unless the goal the call had read was purged and created again under the same key meanwhile. What
  the others do is any relation \<open>R\<close> that keeps goals filed and never takes a goal back to an earlier revision, so also
  all operations of the store in any order, or nothing at all.\<close>

theorem goal_calls_refine_steps:
  assumes "goal_inv l s" and "rely l R" and "waits (goals_keyed l) R env"
  shows "\<exists>u v. R s u \<and> (v = u \<or> goal_step l u v \<or> overtaken l s u v) \<and> R v (after_call l sha env c s)"
proof (cases c)
  case (AdvanceCall q)
  obtain s' out where run: "advanceFromHost l sha env q s = (s', out)" by fastforce
  from advance_write [OF goal_inv_keyed [OF assms(1)] this] show ?thesis
    using written_refines [OF assms] waited_refines [OF goal_inv_keyed [OF assms(1)] assms(2,3) waits_then_waits] run AdvanceCall
    by auto
next
  case (UpdateCall q)
  obtain s' out where run: "service_update l env q s = (s', out)" by fastforce
  from update_write [OF goal_inv_keyed [OF assms(1)] this] show ?thesis
    using written_refines [OF assms] waited_refines [OF goal_inv_keyed [OF assms(1)] assms(2,3) waits_then_waits] run UpdateCall
    by auto
qed (simp_all only: after_call.simps service_step [THEN waited_refines [OF goal_inv_keyed [OF assms(1)] assms(2,3)]])

theorem goal_calls_refine_steps_witness: "goal_step goal_limits0 goal_store0 goal_store1"
proof -
  have "waits (goals_keyed goal_limits0) (=) quiet_env" by simp
  from goal_calls_refine_steps [OF goal_store0_inv rely_nothing this, of "\<lambda>_. digest_a" "AdvanceCall advance0"]
  have "goal_store1 = goal_store0 \<or> goal_step goal_limits0 goal_store0 goal_store1 \<or>
      overtaken goal_limits0 goal_store0 goal_store0 goal_store1" by (auto simp: sample_advance)
  moreover have "goal_store1 \<noteq> goal_store0"
    by (auto simp: goal_store0_def goal_store1_def goal1_def js_def dest: arg_cong [where f = r_revision])
  moreover have "\<not> overtaken goal_limits0 goal_store0 goal_store0 goal_store1"
    using stored_keyed(3) [OF goal_store0_keyed] by (fastforce simp: overtaken_def revises_def)
  ultimately show ?thesis by blast
qed

text \<open>C20: over every calm run of calls from the empty store, in which no goal is purged while a call works on it, each goal is filed under its key and passes the checks on goals,
  the keys of goals are distinct and below the next one, no goal of a retired partition is open, and no owner
  generation has more open goals than the limit.\<close>

theorem goal_store_consistent:
  assumes "limits_ok l" and "calm_calls l cs"
  shows "goal_inv l (run_calls l sha cs empty_goal_store)"
  using run_calls_ok(1) [OF empty_goal_inv assms(2)] assms(1) by (simp add: limits_ok_def)

theorem goal_store_consistent_witness:
  "goal_inv goal_limits0 (run_calls goal_limits0 (\<lambda>_. digest_a) [(quiet_env, AdvanceCall advance0)] empty_goal_store)"
  by (rule goal_store_consistent) (simp_all add: calm_calls_def)

text \<open>C19: over every calm run of calls, in which no goal is purged while a call works on it, a goal keeps what it was created with, its revision and game time never go back, the
  steps that were completed stay as they are with their evidence, and a goal that is achieved, failed or cancelled never
  changes again.\<close>

theorem goal_history_kept:
  assumes "goal_inv l s" and "calm_calls l cs" and "stored s r" and "stored (run_calls l sha cs s) r'" and "goalKey r' = goalKey r"
  shows "same_goal r r' \<and> of_decimal (r_revision r) \<le> of_decimal (r_revision r') \<and>
     of_decimal (tick (r_gameTime r)) \<le> of_decimal (tick (r_gameTime r')) \<and>
     take (length (completed_steps (r_plan r))) (r_plan r') = completed_steps (r_plan r) \<and>
     (isTerminal (r_status r) \<longrightarrow> r' = r)"
proof -
  have filed: "goals_filed l s" using assms(1) by (simp add: goal_inv_def)
  have ok: "goal_ok l r" and new: "goalKey r' < nextGoalKey s" using stored_ok [OF filed assms(3)] assms(5) by simp_all
  obtain q where q: "stored s q" "goal_later q r'"
    using run_calls_ok(2) [OF assms(1,2), of sha] assms(4) new unfolding goals_later_def by blast
  have "q = r" by (rule goal_stored_unique [OF filed assms(3) q(1)]) (use goal_later_key [OF q(2)] assms(5) in simp)
  then have later: "goal_later r r'" using q(2) by simp
  obtain rest where "r_plan r = completed_steps (r_plan r) @ rest"
    using ok plan_ok_shape [of l "r_plan r"] by (auto simp: goal_ok_def)
  then have "take (length (completed_steps (r_plan r))) (r_plan r) = completed_steps (r_plan r)" by (metis append_eq_conv_conj)
  then show ?thesis using later by (auto simp: goal_later_def same_goal_def isTerminal_def isOpen_def)
qed

theorem goal_history_kept_witness: "same_goal goal0 goal1 \<and> of_decimal (r_revision goal0) \<le> of_decimal (r_revision goal1)"
proof -
  have "run_calls goal_limits0 (\<lambda>_. digest_a) [(quiet_env, AdvanceCall advance0)] goal_store0 = goal_store1"
    by (simp add: run_calls_def sample_advance)
  moreover have "stored goal_store1 goal1" by (simp add: stored_def goal_store1_def goal_key_of_def goal1_def js_get_def)
  ultimately show ?thesis
    using goal_history_kept [of goal_limits0 goal_store0 "[(quiet_env, AdvanceCall advance0)]" goal0 "\<lambda>_. digest_a" goal1] stored_goal0
    by (simp add: calm_calls_def goal1_def)
qed

lemma retired_later: "goals_later s t \<Longrightarrow> retired p s \<Longrightarrow> samePartition q p \<Longrightarrow> retired q t"
  by (auto simp: retired_def js_has_def goals_later_def samePartition_def partitionKey_def split: option.splits)

text \<open>C18: once a partition was retired it keeps no open goal, and creating a goal in it or replacing one is refused,
  whatever calls have run since. The run is calm: at the awaits of a call the others take steps of the specification, and
  no goal is purged while a call works on it.\<close>

theorem retired_partition_stays_closed:
  assumes "goal_inv l s" and "retired p s" and "calm_calls l cs" and "run_calls l sha cs s = t"
  shows "\<not> (stored t r \<and> samePartition (r_partition r) p \<and> isOpen r) \<and>
     \<not> (create_goal l aborted d m t = (t', Inr r') \<and> samePartition (goalPartition d) p) \<and>
     \<not> (replace_goal l k e x t = (t', Inr r') \<and> samePartition k p)"
proof -
  have t: "goal_inv l t" "goals_later s t" using run_calls_ok [OF assms(1,3), of sha] assms(4) by simp_all
  show ?thesis
  proof (intro conjI notI; elim conjE)
    assume "stored t r" "samePartition (r_partition r) p" "isOpen r"
    then show False using t(1) retired_later [OF t(2) assms(2)] by (auto simp: goal_inv_def retirements_hold_def)
  next
    assume "create_goal l aborted d m t = (t', Inr r')" "samePartition (goalPartition d) p"
    then show False using create_goal_cases(3) retired_later [OF t(2) assms(2)] by blast
  next
    assume "replace_goal l k e x t = (t', Inr r')" "samePartition k p"
    then show False using retired_later [OF t(2) assms(2)] by (auto elim: replace_goal_Inr)
  qed
qed

theorem retired_partition_stays_closed_witness:
  "\<forall>t' r'. create_goal goal_limits0 False draft0 9999 goal_store2 \<noteq> (t', Inr r')"
proof (intro allI)
  fix t' r'
  have "retired partition0 goal_store2" by (simp add: retired_def goal_store2_def js_has_def js_get_def)
  moreover have "run_calls goal_limits0 (\<lambda>_. digest_a) [] goal_store2 = goal_store2" by (simp add: run_calls_def)
  moreover have "samePartition (goalPartition draft0) partition0" by (simp add: samePartition_eq draft0_def)
  ultimately show "create_goal goal_limits0 False draft0 9999 goal_store2 \<noteq> (t', Inr r')"
    using retired_partition_stays_closed [OF goal_store2_inv, where p = partition0 and cs = "[]" and sha = "\<lambda>_. digest_a"
        and t = goal_store2 and d = draft0 and t' = t' and r' = r' and aborted = False and m = 9999]
    by (simp add: calm_calls_def)
qed

text \<open>C11: the host advances a goal only if the goal it read has the expected revision and is active, its step in progress is the
  one named, the input was committed and the evidence accepted for this very goal and step. Whatever other calls did while
  the verifiers were asked, the one write then goes to the goal that the store has under this key, at the revision that was
  read and in a partition that is not retired: it is the goal that was read, which makes a step of progress, or one that
  was created after it had been read, when the goal that was read is gone.\<close>

theorem advanced_goal_was_verified:
  assumes "goals_keyed l s" and "others_write l env"
    and "advanceFromHost l sha env q s = (s', Inr (HostResult Advanced r'))"
  shows "\<exists>r u c. stored s r \<and> r_goalId r = h_goalId q \<and> r_partition r = h_partition q \<and> r_revision r = h_expectedRevision q \<and>
     r_status r = Active \<and> verified_advance env q r \<and> store_writes l s u \<and>
     stored u c \<and> r_goalId c = h_goalId q \<and> r_partition c = h_partition q \<and> r_revision c = h_expectedRevision q \<and>
     \<not> retired (h_partition q) u \<and> (c = r \<and> progress r r' \<or> \<not> stored u r \<and> nextGoalKey s \<le> goalKey c) \<and>
     r' = replaced_goal c (advance_replacement r q (sha (canonical (host_advance_json q)))) (to_decimal (Suc (of_decimal (r_revision r)))) \<and>
     store_writes l (put_goal r' u) s'"
proof -
  obtain r where r: "stored s r" "r_goalId r = h_goalId q" "r_partition r = h_partition q" "r_revision r = h_expectedRevision q"
      "r_status r = Active" "verified_advance env q r"
      "one_write l env s s' (Some (r, advance_replacement r q (sha (canonical (host_advance_json q))), r'))"
    using advance_write [OF assms(1,3)] by auto
  obtain u c where u: "store_writes l s u" "goals_kept s u" "store_writes l (put_goal r' u) s'"
      and w: "revises l r c (advance_replacement r q (sha (canonical (host_advance_json q)))) u r'"
    by (rule free.call_written [OF assms(1,2) r(1) refl r(7)])
  note c = revises_goal [OF u(2) r(1) stored_keyed(3) [OF assms(1) r(1)] w]
  show ?thesis using r(1-6) u(1,3) w c by (intro exI [of _ r] exI [of _ u] exI [of _ c]) (simp add: revises_def)
qed

theorem advanced_goal_was_verified_witness: "verified_advance quiet_env advance0 goal0"
proof -
  obtain r where "stored goal_store0 r" "verified_advance quiet_env advance0 r"
    using advanced_goal_was_verified [OF goal_store0_keyed _ sample_advance] by auto
  moreover from this have "r = goal0"
    by (auto simp: stored_def goal_store0_def js_get_def split: if_splits)
  ultimately show ?thesis by simp
qed

text \<open>C17: an update succeeds only if the goal it read is open and has the expected revision; the steps it newly completes were in
  progress under the same description and all their evidence was accepted for this very goal. Whatever other calls did
  meanwhile, the one write then goes to the goal that the store has under this key, at the revision that was read and in a
  partition that is not retired: it is the goal that was read, which makes a step of progress, or one that was created
  after it had been read, when the goal that was read is gone.\<close>

theorem updated_goal_was_verified:
  assumes "goals_keyed l s" and "others_write l env" and "service_update l env q s = (s', Inr r')"
  shows "\<exists>r u c. stored s r \<and> r_goalId r = gk_goalId q \<and> samePartition (r_partition r) q \<and> r_revision r = u_expectedRevision q \<and>
     isOpen r \<and> verified_update env q r \<and> store_writes l s u \<and>
     stored u c \<and> r_goalId c = gk_goalId q \<and> r_partition c = r_partition r \<and> r_revision c = u_expectedRevision q \<and>
     \<not> retired (r_partition r) u \<and> (c = r \<and> progress r r' \<or> \<not> stored u r \<and> nextGoalKey s \<le> goalKey c) \<and>
     r' = replaced_goal c (update_replacement q r) (to_decimal (Suc (of_decimal (r_revision r)))) \<and>
     store_writes l (put_goal r' u) s'"
proof -
  obtain r where r: "stored s r" "r_goalId r = gk_goalId q" "samePartition (r_partition r) q" "r_revision r = u_expectedRevision q"
      "isOpen r" "verified_update env q r" "one_write l env s s' (Some (r, update_replacement q r, r'))"
    using update_write [OF assms(1,3)] by auto
  obtain u c where u: "store_writes l s u" "goals_kept s u" "store_writes l (put_goal r' u) s'"
      and w: "revises l r c (update_replacement q r) u r'"
    by (rule free.call_written [OF assms(1,2) r(1) refl r(7)])
  note c = revises_goal [OF u(2) r(1) stored_keyed(3) [OF assms(1) r(1)] w]
  show ?thesis using r(1-6) u(1,3) w c by (intro exI [of _ r] exI [of _ u] exI [of _ c]) (simp add: revises_def)
qed

theorem updated_goal_was_verified_witness: "stored goal_store0 goal0 \<and> verified_update quiet_env update0 goal0"
proof -
  obtain r where "stored goal_store0 r" "verified_update quiet_env update0 r"
    using updated_goal_was_verified [OF goal_store0_keyed _ sample_update] by auto
  moreover from this have "r = goal0" by (auto simp: stored_def goal_store0_def js_get_def split: if_splits)
  ultimately show ?thesis by simp
qed

lemma cancelled_goal_Inl:
  assumes "limits_ok l" and ok: "goal_ok l r" "retirement_ok d" and "cancelled_goal l d r = Inl e"
  shows "e = GoalValidation ''goal_time_regression'' \<and> of_decimal (tick (gr_gameTime d)) < of_decimal (tick (r_gameTime r)) \<or>
     e = GoalValidation ''goal_record_too_large'' \<and> maxRecordBytes l < bytes_of (goal_record_json (r\<lparr>r_status := Cancelled,
       r_gameTime := gr_gameTime d, r_updatedAt := gr_recordedAt d, r_revision := to_decimal (Suc (of_decimal (r_revision r))),
       lastHostAdvanceFingerprint := None\<rparr>))"
proof -
  have "is_decimal (tick (gr_gameTime d))" "is_decimal (tick (r_gameTime r))" "is_decimal (r_revision r)"
    using ok by (auto simp: goal_ok_def retirement_ok_def time_ok_def game_time_ok_def is_decimal_def)
  then show ?thesis using assms(1,4)
    by (auto simp: cancelled_goal_def compareGoalTicks_Inr [THEN iffD2] bigint_succ_def serializeGoalRecord_eq Let_def split: if_splits)
qed

lemma map_checked_Inl: "map_checked f xs = Inl e \<Longrightarrow> \<exists>x \<in> set xs. f x = Inl e"
  by (induction xs) (auto simp: rbind_eq_Inl)

lemma length_filter_mono: "(\<And>x. P x \<Longrightarrow> Q x) \<Longrightarrow> length (filter P xs) \<le> length (filter Q xs)"
  by (induction xs) (auto intro: le_SucI)

lemma selected_bound:
  assumes "open_bounded l s"
  shows "int (length (filter (\<lambda>(k, r). samePartition (r_partition r) (p :: authority_partition) \<and> isOpen r) (goals s)))
    \<le> maxOpenGoalsPerOwnerGeneration l"
proof -
  let ?f = "filter (\<lambda>(k, r). sameOwnerGeneration (r_partition r) p \<and> isOpen r) (goals s)"
  have "length (open_goals p s) = length ?f" by (simp add: open_goals_def js_values_def filter_map comp_def split_def)
  moreover have "length (filter (\<lambda>(k, r). samePartition (r_partition r) p \<and> isOpen r) (goals s)) \<le> length ?f"
    by (rule length_filter_mono) (auto simp: samePartition_def sameOwnerGeneration_def)
  moreover have "int (length (open_goals p s)) \<le> maxOpenGoalsPerOwnerGeneration l" using assms by (simp add: open_bounded_def)
  ultimately show ?thesis by linarith
qed

lemma fresh_refusal:
  assumes "open_bounded l s" and "normalizeGoalAuthorityRetirement d = Inr d" and "js_get (goalRetirements s) (partitionKey (gr_partition d)) = None"
    and "retireAuthoritySynchronously l False d s = (s', Inl e)"
  obtains k r where "(k, r) \<in> set (goals s)" "samePartition (r_partition r) (gr_partition d)" "isOpen r" "cancelled_goal l d r = Inl e"
proof -
  let ?sel = "filter (\<lambda>(k, r). samePartition (r_partition r) (gr_partition d) \<and> isOpen r) (goals s)"
  note run = assms(4) [unfolded retireAuthoritySynchronously_def assms(2) commit_simps throw_if_aborted_def not_False_eq_True
      ensure_True Let_def assms(3) option.case selected_bound [OF assms(1), THEN eqTrueI]]
  have "map_checked (retirement_entry l d) ?sel = Inl e"
    using run by (cases "map_checked (retirement_entry l d) ?sel") simp_all
  then show thesis using that by (auto dest!: map_checked_Inl simp: retirement_entry_def rbind_eq_Inl)
qed

text \<open>C21: a valid retirement is refused for one of three reasons only: another retirement of the partition is on record, or an
  open goal of the partition is ahead of its game time or no longer fits the byte limit once cancelled. It never runs into
  the limit on open goals, and a refusal leaves the store as it was.\<close>

theorem retirement_refusals:
  assumes "limits_ok l" and "goal_inv l s" and "normalizeGoalAuthorityRetirement d = Inr d"
    and "retireAuthoritySynchronously l False d s = (s', Inl e)"
  shows "s' = s \<and>
    ((\<exists>x. js_get (goalRetirements s) (partitionKey (gr_partition d)) = Some x \<and> \<not> sameRetirement x d \<and> e = GoalAuthorityRetirementConflict) \<or>
     (\<exists>r. stored s r \<and> isOpen r \<and> r_partition r = gr_partition d \<and>
        (e = GoalValidation ''goal_time_regression'' \<and> of_decimal (tick (gr_gameTime d)) < of_decimal (tick (r_gameTime r)) \<or>
         e = GoalValidation ''goal_record_too_large'' \<and> maxRecordBytes l < bytes_of (goal_record_json (r\<lparr>r_status := Cancelled,
           r_gameTime := gr_gameTime d, r_updatedAt := gr_recordedAt d, r_revision := to_decimal (Suc (of_decimal (r_revision r))),
           lastHostAdvanceFingerprint := None\<rparr>)))))"
proof -
  have filed: "goals_filed l s" and d: "retirement_ok d" using assms(2,3) by (simp_all add: goal_inv_def)
  have s': "s' = s" using retire_fst [of l False d s] assms(4) by auto
  show ?thesis
  proof (cases "js_get (goalRetirements s) (partitionKey (gr_partition d))")
    case (Some x)
    then show ?thesis using assms(4) s'
      by (auto simp: retireAuthoritySynchronously_def assms(3) throw_if_aborted_def split: if_splits)
  next
    case None
    obtain k r where r: "(k, r) \<in> set (goals s)" "samePartition (r_partition r) (gr_partition d)" "isOpen r" "cancelled_goal l d r = Inl e"
      using fresh_refusal [OF _ assms(3) None assms(4)] assms(2) by (auto simp: goal_inv_def)
    then have "js_get (goals s) k = Some r" using filed by (auto simp: goals_filed_def js_get_entry)
    then have "stored s r" "goal_ok l r" using goals_filedD [OF filed] by blast+
    then show ?thesis using cancelled_goal_Inl [OF assms(1) _ d r(4)] r s' by (auto simp: samePartition_eq)
  qed
qed

theorem retirement_refusals_witness:
  "\<exists>x. js_get (goalRetirements goal_store2) (partitionKey partition0) = Some x \<and> \<not> sameRetirement x (retirement0\<lparr>gr_recordedAt := t2\<rparr>)"
proof -
  let ?d = "retirement0\<lparr>gr_recordedAt := t2\<rparr>"
  have ok: "normalizeGoalAuthorityRetirement ?d = Inr ?d" by (simp add: retirement_ok_def)
  have "t2 \<noteq> t1" by (simp add: t1_def t2_def js_def)
  then have "\<not> sameRetirement retired0 ?d"
    by (simp add: sameRetirement_def retired0_def retirement0_def goal_retirement.extend_def goal_retirement_record.fields_def)
  then have "retireAuthoritySynchronously goal_limits0 False ?d goal_store2 = (goal_store2, Inl GoalAuthorityRetirementConflict)"
    by (simp add: retireAuthoritySynchronously_def ok throw_if_aborted_def Let_def) (simp add: goal_store2_def js_get_def)
  from retirement_refusals [OF limits0_ok goal_store2_inv ok this] show ?thesis by simp
qed

text \<open>C22: the text of a goal is refused exactly when it has too many UTF-8 bytes: the depth limit the source passes to the
  canonical serialiser is never reached.\<close>

theorem goal_texts_bounded_by_bytes:
  assumes "limits_ok l"
  shows "serializeGoalRecord r l = (if int (utf8_length (serializeCanonicalJsonValue (goal_record_json r))) \<le> maxRecordBytes l
       then Inr (serializeCanonicalJsonValue (goal_record_json r)) else Inl (GoalValidation ''goal_record_too_large'')) \<and>
     serializeGoalPlan p l = (if int (utf8_length (serializeCanonicalJsonValue (plan_json p))) \<le> maxPlanBytes l
       then Inr (serializeCanonicalJsonValue (plan_json p)) else Inl (GoalValidation ''goal_plan_too_large''))"
  using assms by (simp add: serializeGoalRecord_eq serializeGoalPlan_eq bytes_of_def serialize_eq_canonical)

theorem goal_texts_bounded_by_bytes_witness:
  "serializeGoalRecord goal0 goal_limits0 = Inr (serializeCanonicalJsonValue (goal_record_json goal0))"
  using goal_texts_bounded_by_bytes [OF limits0_ok, of goal0 "[]"] goal0_bytes by (simp add: bytes_of_def serialize_eq_canonical)

lemma advanced_step_found:
  assumes "plan_ok l p" and "n = step_index i p" and "n < length p"
  shows "find (\<lambda>st. stepId st = i) (advance_plan n e p) = Some ((p ! n)\<lparr>stepStatus := StepCompleted, evidence := [e]\<rparr>)"
proof -
  have same: "stepId (advance_plan n e p ! j) = stepId (p ! j)" if "j < length p" for j using that by (simp add: nth_advance_plan)
  have low: "stepId (p ! j) \<noteq> i" if "j < n" for j
  proof -
    have j: "j < length (takeWhile (\<lambda>st. stepId st \<noteq> i) p)" using that assms(2) by (simp add: step_index_def)
    show ?thesis using set_takeWhileD [OF nth_mem [OF j]] takeWhile_nth [OF j] by simp
  qed
  have "find (\<lambda>st. stepId st = i) (advance_plan n e p) = Some (advance_plan n e p ! n)"
    unfolding find_Some_iff using assms(2,3) same [of n] same low step_index_nth [of i p]
    by (intro exI [of _ n]) simp
  then show ?thesis using assms(3) by (simp add: nth_advance_plan)
qed

lemma step_index_less: "\<exists>st \<in> set p. stepId st = i \<Longrightarrow> step_index i p < length p"
  by (induction p) (auto simp: step_index_def)

lemma advanced_is_replay:
  assumes "plan_ok l (r_plan r)" and "r_revision r = h_expectedRevision q" and "is_decimal (h_expectedRevision q)"
    and "\<exists>st \<in> set (r_plan r). stepId st = h_stepId q"
  shows "isExactHostAdvanceReplay (replaced_goal c (advance_replacement r q print) (to_decimal (Suc (of_decimal (r_revision r))))) q print"
proof -
  have "step_index (h_stepId q) (r_plan r) < length (r_plan r)"
    using step_index_less assms(4) by blast
  note found = advanced_step_found [OF assms(1) refl this, of "h_evidence q"]
  show ?thesis using assms(2,3)
    by (simp add: isExactHostAdvanceReplay_def replaced_goal_def advance_replacement_def Let_def found hasExactEvidence_def bigint_succ_def)
qed

text \<open>An advance of the host is idempotent: as long as the goal it left is not changed again, the same request is
  answered that it has already been advanced, and the store is left as it was.\<close>

theorem host_advance_replayed:
  assumes "goals_keyed l s" and "others_write l env"
    and "advanceFromHost l sha env q s = (s', Inr (HostResult Advanced r'))" and "stored t r'"
    and "throwIfAborted env' 0 = Inr ()" and "throwIfAborted env' 1 = Inr ()"
  shows "advanceFromHost l sha env' q t = (while_waiting env' 0 t, Inr (HostResult AlreadyAdvanced r'))"
proof -
  let ?print = "sha (canonical (host_advance_json q))"
  obtain r where r: "stored s r" "r_goalId r = h_goalId q" "r_partition r = h_partition q" "r_revision r = h_expectedRevision q"
      "verified_advance env q r" "one_write l env s s' (Some (r, advance_replacement r q ?print, r'))"
    using advance_write [OF assms(1,3)] by auto
  obtain u c where w: "revises l r c (advance_replacement r q ?print) u r'"
    by (rule free.call_written [OF assms(1,2) r(1) refl r(6)])
  obtain q' where cap: "capture_advance l env q = Inr q'"
    using assms(3) by (cases "capture_advance l env q") (auto simp: advanceFromHost_def)
  then have q: "q' = q" "partition_ok (h_partition q)" "is_opaque_identifier (h_goalId q)" "is_decimal (h_expectedRevision q)"
    using capture_advance_Inr by blast+
  have cap': "capture_advance l env' q = Inr q"
    using cap assms(5) unfolding capture_advance_def q(1) by (auto simp: rbind_eq_Inr)
  have print: "fingerprintHostAdvance sha q = Inr ?print" by (simp add: fingerprintHostAdvance_def)
  have part: "r_partition r' = h_partition q" "r_goalId r' = h_goalId q" using r(2,3) w by (simp_all add: revises_def replaced_goal_def)
  then have "js_get (goals t) (mapKey (h_partition q) (h_goalId q)) = Some r'"
    using assms(4) by (simp add: stored_def goal_key_of_def)
  then have get: "get_goal (key_of (h_partition q) (h_goalId q)) t = Inr (Some r')"
    using q part by (simp add: get_goal_Inr samePartition_eq)
  have "isExactHostAdvanceReplay (replaced_goal c (advance_replacement r q ?print) (to_decimal (Suc (of_decimal (r_revision r))))) q ?print"
    using r(4,5) q(4) stored_keyed(1) [OF assms(1) r(1)] by (intro advanced_is_replay) (auto simp: verified_advance_def)
  then have "isExactHostAdvanceReplay r' q ?print" using w by (simp add: revises_def)
  then have "judge_advance r' q ?print = Inr (Inl (HostResult AlreadyAdvanced r'))" by (simp add: judge_advance_def)
  then show ?thesis using assms(6) by (simp add: advanceFromHost_def cap' print get Let_def part samePartition_eq)
qed

theorem host_advance_replayed_witness:
  "advanceFromHost goal_limits0 (\<lambda>_. digest_a) quiet_env advance0 goal_store1 = (goal_store1, Inr (HostResult AlreadyAdvanced goal1))"
proof -
  have "stored goal_store1 goal1" by (simp add: stored_def goal_store1_def goal_key_of_def goal1_def js_get_def)
  with host_advance_replayed [OF goal_store0_keyed _ sample_advance, of goal_store1 quiet_env] show ?thesis by simp
qed

end
