(* ===== verification/Goal_Race.thy ===== *)
theory Goal_Race
  imports Goal_Spec
begin

text \<open>
  A call that is overtaken. InMemoryGoalStore.replace compares revisions, and a goal created again under its identifier
  starts at revision 1 again. So a goal that is cancelled, purged and created again while an advance of the host asks its
  verifiers is not told from the goal that was read, and the advance is written over it.
\<close>

definition draft1 :: goal_draft where
  "draft1 = draft0\<lparr>objective := js ''p''\<rparr>"

definition goal2 :: goal_record where
  "goal2 = new_goal draft1 2"

definition purged_store0 :: goal_store where
  "purged_store0 = \<lparr>goals = [], goalRetirements = [], nextGoalKey = 2\<rparr>"

definition recreated_store0 :: goal_store where
  "recreated_store0 = \<lparr>goals = [(mapKey partition0 (js ''c''), goal2)], goalRetirements = [], nextGoalKey = 3\<rparr>"

text \<open>What the caller of the other calls does: it cancels the goal, purges it and creates one with another objective.\<close>

definition recreate :: "(goal_env \<times> goal_call) list" where
  "recreate = [(quiet_env, UpdateCall (status_update Cancelled)), (quiet_env, PurgeCall partition0 t2 1), (quiet_env, CreateCall draft1)]"

text \<open>These calls run while the host is asked whether the input was committed. The evidence is accepted for the goal that was
  read only.\<close>

definition racing_env :: goal_env where
  "racing_env = \<lparr>while_waiting = (\<lambda>n s. if n = 1 then run_calls goal_limits0 (\<lambda>_. digest_a) recreate s else s),
     aborted_at = (\<lambda>n. False), committed_input = Some (\<lambda>p i. Inr True), evidence_accepted = (\<lambda>g st e t i. Inr (g = goal0))\<rparr>"

lemma draft1_fields [simp]:
  "goalId draft1 = js ''c''" "goalPartition draft1 = partition0" "objective draft1 = js ''p''" "plan draft1 = plan_at StepInProgress []"
  "goalTime draft1 = time0" "goalRecordedAt draft1 = t0"
  by (simp_all add: draft1_def) (simp_all add: draft0_def plan_at_def step0_def)

lemma goal2_fields [simp]:
  "r_goalId goal2 = js ''c''" "r_partition goal2 = partition0" "r_objective goal2 = js ''p''" "r_gameTime goal2 = time0"
  "r_plan goal2 = plan_at StepInProgress []" "r_revision goal2 = js ''1''" "r_status goal2 = Active" "goalKey goal2 = 2"
  "r_updatedAt goal2 = t0" "lastHostAdvanceFingerprint goal2 = None" "createdGameTime goal2 = time0" "r_createdAt goal2 = t0"
  by (simp_all add: goal2_def new_goal_def)

lemma draft1_ok: "draft_ok goal_limits0 draft1"
  using draft0_ok
  by (simp add: draft_ok_def sample_plan) (simp add: draft0_def validateObjective_def goal_bytes_def js_def utf8_small)

lemma recreated: "create_goal goal_limits0 False draft1 9999 purged_store0 = (recreated_store0, Inr goal2)"
proof -
  have "validateGoalPageLimit 9999 9999 code = Inr ()" for code
    by (simp add: validateGoalPageLimit_def is_safe_integer_def max_safe_integer_def)
  moreover have "bytes_of (goal_record_json goal2) \<le> 9999" by (rule record_bytes [where es = "[]"]) (simp_all add: js_def)
  then have "\<exists>x. serializeGoalRecord goal2 goal_limits0 = Inr x" by (simp add: serializeGoalRecord_eq)
  moreover have "\<exists>x. serializeGoalPlan (plan_at StepInProgress []) goal_limits0 = Inr x"
    using sample_plan_ok [of "[]" StepInProgress] by (auto simp: plan_ok_def normalizeGoalPlan_def rbind_eq_Inr)
  moreover have "new_goal draft1 (Suc (Suc 0)) = goal2" by (simp add: goal2_def numeral_2_eq_2)
  ultimately show ?thesis
    using draft1_ok
    by (auto simp: create_goal_def normalizeGoalDraft_Inr [THEN iffD2] purged_store0_def js_has_def open_goals_def js_values_def Let_def
      throw_if_aborted_def recreated_store0_def js_set_def discard_def goal2_def [symmetric])
qed

lemma recreate_update:
  "after_call goal_limits0 sha quiet_env (UpdateCall (status_update Cancelled)) goal_store0 =
     goal_store0\<lparr>goals := [(mapKey partition0 (js ''c''), goal_with (plan_at StepInProgress []) Cancelled None)]\<rparr>"
  by (simp add: sample_status_update)

lemma recreate_purge:
  "after_call goal_limits0 sha quiet_env (PurgeCall partition0 t2 1)
     (goal_store0\<lparr>goals := [(mapKey partition0 (js ''c''), goal_with (plan_at StepInProgress []) Cancelled None)]\<rparr>) = purged_store0"
proof -
  have limit: "validateGoalPageLimit 1 9999 code = Inr ()" for code
    by (simp add: validateGoalPageLimit_def is_safe_integer_def max_safe_integer_def)
  have stamp: "validateGoalTimestamp t2 = Inr ()" by simp
  show ?thesis
    by (simp add: service_purge_def purge_goals_def sample_normal goal_with_def isOpen_def sameOwnerGeneration_def js_delete_def
        Let_def purged_store0_def goal_store0_def limit stamp)
qed

lemma recreate_create: "after_call goal_limits0 sha quiet_env (CreateCall draft1) purged_store0 = recreated_store0"
proof -
  have "plan_ok goal_limits0 (plan_at StepInProgress [])" by (rule sample_plan_ok) simp
  then have steps: "normalizeGoalPlan (plan_at StepInProgress []) goal_limits0 = Inr (plan_at StepInProgress [])"
    by (simp only: plan_ok_def)
  have stamp: "validateGoalTimestamp t0 = Inr ()" by simp
  have objective: "validateObjective (js ''p'') goal_limits0 = Inr ()"
    using draft1_ok by (simp add: draft_ok_def)
  have "bytes_of (model_result_json (js ''c'') (js ''1'') Active (js ''p'') (plan_at StepInProgress [])) \<le> 9999"
    by (rule model_bytes [where es = "[]"]) (simp_all add: js_def)
  then obtain y where fits: "serializeGoalModelResult (js ''c'') (js ''1'') Active (js ''p'') (plan_at StepInProgress []) goal_limits0 = Inr y"
    by (simp add: serializeGoalModelResult_eq)
  have started: "\<not> list_ex (\<lambda>st. stepStatus st = StepCompleted) (plan_at StepInProgress [])" by (simp add: plan_at_def)
  have draft: "\<lparr>goalId = js ''c'', goalPartition = partition0, objective = js ''p'', plan = plan_at StepInProgress [], goalTime = time0,
      goalRecordedAt = t0\<rparr> = draft1" by (rule goal_draft.equality) simp_all
  have result: "serializeGoalModelResult (r_goalId goal2) (r_revision goal2) (r_status goal2) (r_objective goal2) (r_plan goal2) goal_limits0 =
      Inr y" using fits by simp
  have "assertOpaqueIdentifier (js ''c'') = Inr ()" by (simp add: assertOpaqueIdentifier_def)
  then have "service_create goal_limits0 quiet_env draft1 purged_store0 = (recreated_store0, Inr goal2)"
    unfolding service_create_def draft1_fields
    by (simp only: sample_normal steps stamp objective started fits draft recreated result commit_simps ensure_True discard_def rbind.simps
        checks_def check_all.simps not_False_eq_True quiet_env_simps limits0_selectors Let_def prod.case)
  then show ?thesis by simp
qed

lemma recreate_run: "run_calls goal_limits0 sha recreate goal_store0 = recreated_store0"
  by (simp add: run_calls_def recreate_def recreate_update recreate_purge recreate_create del: after_call.simps)

section \<open>The advance\<close>

lemma racing_env_simps [simp]:
  "while_waiting racing_env n s = (if n = 1 then run_calls goal_limits0 (\<lambda>_. digest_a) recreate s else s)"
  "throwIfAborted racing_env n = Inr ()" "committed_input racing_env = Some (\<lambda>p i. Inr True)"
  "evidence_accepted racing_env g st e t i = Inr (g = goal0)"
  by (simp_all add: racing_env_def throwIfAborted_def throw_if_aborted_def)

lemma racing_env_writes: "others_write goal_limits0 racing_env"
proof (rule calls_at_awaits)
  fix n u
  show "\<exists>cs. list_all (\<lambda>(env', c). others_write goal_limits0 env') cs \<and>
      while_waiting racing_env n u = run_calls goal_limits0 (\<lambda>_. digest_a) cs u"
    by (rule exI [of _ "if n = 1 then recreate else []"]) (simp add: recreate_def run_calls_def)
qed

definition goal3 :: goal_record where
  "goal3 = goal2\<lparr>r_plan := plan_at StepCompleted [evidence0], r_status := Achieved, r_revision := js ''2'', r_updatedAt := t1,
     lastHostAdvanceFingerprint := Some digest_a\<rparr>"

lemma overwrite:
  "replace_goal goal_limits0 (key_of partition0 (js ''c'')) (js ''1'') (advance_replacement goal0 advance0 digest_a) recreated_store0 =
     (recreated_store0\<lparr>goals := [(mapKey partition0 (js ''c''), goal3)]\<rparr>, Inr goal3)"
proof -
  let ?k = "key_of partition0 (js ''c'')" and ?p = "plan_at StepCompleted [evidence0]"
  let ?x = "\<lparr>x_plan = ?p, x_status = Achieved, x_gameTime = time0, x_recordedAt = t1, x_fingerprint = Some digest_a\<rparr>"
  have n: "normalizeGoalKey ?k = Inr ?k" by simp
  have es: "[evidence0] = [] \<or> StepCompleted = StepCompleted \<and> [evidence0] = [evidence0]" by simp
  have x: "normalizeGoalReplacement ?x ?k goal_limits0 = Inr ?x"
    using sample_plan_ok [OF es] by (auto simp: replacement_ok_def)
  have b: "bigint_succ (js ''1'') = Inr (js ''2'')" by (simp add: bigint_succ_def)
  have plan: "\<exists>y. serializeGoalPlan (r_plan goal3) goal_limits0 = Inr y"
    using sample_plan_ok [OF es] by (auto simp: plan_ok_def normalizeGoalPlan_def rbind_eq_Inr goal3_def)
  have "bytes_of (goal_record_json goal3) \<le> 9999" by (rule record_bytes [where es = "[evidence0]"]) (simp_all add: goal3_def js_def)
  then have rec: "\<exists>y. serializeGoalRecord goal3 goal_limits0 = Inr y" by (simp add: serializeGoalRecord_eq)
  have get: "js_get (goals recreated_store0) (mapKey partition0 (js ''c'')) = Some goal2" by (simp add: recreated_store0_def js_get_def)
  have s: "\<not> js_has (goalRetirements recreated_store0) k" for k by (simp add: recreated_store0_def js_has_def)
  have r: "replaced_goal goal2 ?x (js ''2'') = goal3" unfolding replaced_goal_def goal3_def by (rule goal_record.equality) simp_all
  show ?thesis using plan rec unfolding sample_replacement
    by (auto simp: replace_goal_def n x sample_normal s get samePartition_eq b Let_def r discard_def)
      (simp_all add: recreated_store0_def js_set_def)
qed

text \<open>The host is answered that the goal was advanced, and the goal that was achieved is the new one, for which no evidence
  was accepted.\<close>

theorem stale_advance_overwrites:
  "goal_inv goal_limits0 goal_store0 \<and> others_write goal_limits0 racing_env \<and>
   (\<exists>s'. advanceFromHost goal_limits0 (\<lambda>_. digest_a) racing_env advance0 goal_store0 = (s', Inr (HostResult Advanced goal3)) \<and>
     stored s' goal3 \<and> r_status goal3 = Achieved \<and> goalKey goal3 \<noteq> goalKey goal0 \<and> r_objective goal3 \<noteq> r_objective goal0 \<and>
     (\<forall>r st e t i. evidence_accepted racing_env r st e t i = Inr True \<longrightarrow> goalKey r \<noteq> goalKey goal3))"
proof -
  let ?s' = "recreated_store0\<lparr>goals := [(mapKey partition0 (js ''c''), goal3)]\<rparr>"
  have captured: "capture_advance goal_limits0 racing_env advance0 = Inr advance0"
    using advance0_captured [of "evidence_accepted quiet_env"] by (simp add: capture_advance_def)
  have print: "fingerprintHostAdvance (\<lambda>_. digest_a) advance0 = Inr digest_a" by (simp add: fingerprintHostAdvance_def)
  have fits: "validateNextModelResult goal_limits0 goal0 Achieved (plan_at StepCompleted [evidence0]) = Inr ()"
    using sample_model_bytes [of "[evidence0]" "js ''2''" Achieved StepCompleted]
    by (simp add: validateNextModelResult_def bigint_succ_def serializeGoalModelResult_eq)
  have v: "verify_advance racing_env goal0 advance0 step0 goal_store0 = (recreated_store0, Inr None)"
    by (simp add: verify_advance_def recreate_run)
  have "commit_advance goal_limits0 racing_env goal0 advance0 digest_a recreated_store0 = (?s', Inr (HostResult Advanced goal3))"
    using fits by (simp add: commit_advance_def Let_def overwrite) (simp add: sample_replacement)
  then have "advanceFromHost goal_limits0 (\<lambda>_. digest_a) racing_env advance0 goal_store0 = (?s', Inr (HostResult Advanced goal3))"
    by (simp add: advanceFromHost_def captured print sample_get sample_judged v samePartition_eq)
  moreover have "stored ?s' goal3" by (simp add: stored_def goal_key_of_def goal3_def js_get_def)
  moreover have "r_status goal3 = Achieved" "goalKey goal3 = 2" "r_objective goal3 = js ''p''" by (simp_all add: goal3_def)
  ultimately show ?thesis using racing_env_writes by (auto simp: js_def)
qed

end
