(* ===== verification/Goal_Fence.thy ===== *)
theory Goal_Fence
  imports Goal_Spec Event_Samples
begin

text \<open>
  The event store and the goal store together: the event store is built with the synchronous retirement of the goal
  store, so closing the authority of a run cancels the open goals of the partition its request names.
\<close>

definition goal_retirement_of :: "goal_limits \<Rightarrow> goal_store \<Rightarrow> goal_binding" where
  "goal_retirement_of l g = Some (\<lambda>d. discard (snd (retireAuthoritySynchronously l False d g)))"

definition goals_after_close :: "goal_limits \<Rightarrow> goal_retirement \<Rightarrow> goal_store \<Rightarrow> goal_store" where
  "goals_after_close l d g = fst (retireAuthoritySynchronously l False d g)"

lemma fresh_close:
  assumes "closeAuthority now binding req e = (e', Inr c)" and "js_get (authorityClosures e) (authorityMapKey req) = None"
    and "js_get (authorityClosures (fst (now e))) (authorityMapKey req) = None"
  shows "retire_goal binding (goalRetirement req) = Inr ()" "js_get (authorityClosures e') (authorityMapKey req) = Some c"
proof -
  have "captureCloseRunAuthorityRequest req = Inr x \<Longrightarrow> x = req" for x
    by (auto simp: captureCloseRunAuthorityRequest_def rbind_eq_Inr)
  moreover have none: "readExisting req t u = Inr y \<Longrightarrow> js_get (authorityClosures u) (authorityMapKey req) = None \<Longrightarrow> y = None" for t u y
    by (auto simp: readExisting_def rbind_eq_Inr split: option.splits if_splits)
  ultimately show "retire_goal binding (goalRetirement req) = Inr ()" "js_get (authorityClosures e') (authorityMapKey req) = Some c"
    using assms
    by (auto simp: closeAuthority_def commit_eq_Inr Let_def record_closure_def js_get_set split: option.splits prod.splits dest!: none)
qed

lemma retire_succeeds:
  assumes "discard (snd (retireAuthoritySynchronously l False d g)) = Inr ()" and "goal_inv l g"
  shows "goal_inv l (goals_after_close l d g)" "retired (gr_partition d) (goals_after_close l d g)"
proof -
  obtain g' x where run: "retireAuthoritySynchronously l False d g = (g', Inr x)"
    using assms(1) by (cases "retireAuthoritySynchronously l False d g") auto
  then have "goals_after_close l d g = g'" by (simp add: goals_after_close_def)
  moreover have "goal_inv l g'" using goal_step_ok [OF goal_step.retirement [OF run] assms(2)] by simp
  moreover have "retired (gr_partition d) g'"
    using run by (cases rule: retire_cases) (auto simp: retired_def js_has_def js_get_set)
  ultimately show "goal_inv l (goals_after_close l d g)" "retired (gr_partition d) (goals_after_close l d g)" by simp_all
qed

text \<open>C10: when closing the authority of a run succeeds for the first time, the closure is recorded, and the goal store has no
  open goal in the partition the request retires and never gets one again over any calm run of goal calls later.\<close>

theorem closed_run_leaves_no_open_goal:
  assumes "goal_inv l g" and "closeAuthority now (goal_retirement_of l g) req e = (e', Inr c)" and "goalRetirement req = Some d"
    and "js_get (authorityClosures e) (authorityMapKey req) = None"
    and "js_get (authorityClosures (fst (now e))) (authorityMapKey req) = None" and "calm_calls l cs"
  shows "js_get (authorityClosures e') (authorityMapKey req) = Some c \<and>
     \<not> (stored (run_calls l sha cs (goals_after_close l d g)) r \<and> samePartition (r_partition r) (gr_partition d) \<and> isOpen r)"
proof -
  note fresh = fresh_close [OF assms(2,4,5)]
  then have "discard (snd (retireAuthoritySynchronously l False d g)) = Inr ()"
    using assms(3) by (simp add: retire_goal_def goal_retirement_of_def)
  note ret = retire_succeeds [OF this assms(1)]
  let ?t = "run_calls l sha cs (goals_after_close l d g)"
  have t: "goal_inv l ?t" "goals_later (goals_after_close l d g) ?t" by (rule run_calls_ok [OF ret(1) assms(6)])+
  have "samePartition (r_partition r) (gr_partition d) \<Longrightarrow> retired (r_partition r) ?t" using retired_later [OF t(2) ret(2)] .
  then show ?thesis using fresh(2) t(1) by (auto simp: goal_inv_def retirements_hold_def)
qed

definition goal_close :: close_request where
  "goal_close = sample_close\<lparr>goalRetirement := Some retirement0\<rparr>"

lemma goal_close_ok: "captureCloseRunAuthorityRequest goal_close = Inr goal_close"
proof -
  have "goal_retirement_ok retirement0" using sample_partition_ok sample_time_ok
    by (simp add: goal_retirement_ok_def partition_ok_def time_ok_def is_timestamp_def [of t1, symmetric] del: sample_partition_ok sample_time_ok)
      (use sample_timestamps in \<open>simp add: is_timestamp_def\<close>)
  moreover have "capture_goal_retirement retirement0 = Inr ()"
    using calculation by (simp add: capture_goal_retirement_def assertCanonicalTimestamp_def) (simp add: partition0_def time0_def)
  ultimately show ?thesis
    by (simp add: captureCloseRunAuthorityRequest_def captureRunAuthorityKey_def captureRunAdmissionAuthority_def goal_close_def sample_close_def
      run_authority_key_ok_def stream_key_ok_def admission_authority_ok_def run_scope_def close_request_ok_def discard_def)
qed

lemma goal_closes:
  "closeAuthority (fixed t0) (goal_retirement_of goal_limits0 goal_store0) goal_close queued_store =
     (record_closure goal_close (new_closure goal_close t0) queued_store, Inr (new_closure goal_close t0))"
  by (simp add: closeAuthority_def goal_close_ok)
    (simp add: readExisting_def queued_store_def fixed_def Let_def retire_goal_def goal_retirement_of_def sample_retire
      assertCanonicalTimestamp_def goal_close_def sample_close_def discard_def)

theorem closed_run_leaves_no_open_goal_witness:
  "\<not> (stored goal_store2 goal0 \<and> samePartition (r_partition goal0) partition0 \<and> isOpen goal0)"
proof -
  have "goals_after_close goal_limits0 retirement0 goal_store0 = goal_store2" by (simp add: goals_after_close_def sample_retire)
  moreover have "js_get (authorityClosures queued_store) (authorityMapKey goal_close) = None" by (simp add: queued_store_def js_get_def)
  moreover have "goalRetirement goal_close = Some retirement0" by (simp add: goal_close_def)
  ultimately show ?thesis
    using closed_run_leaves_no_open_goal [OF goal_store0_inv goal_closes, of retirement0 "[]"]
    by (simp add: fixed_def calm_calls_def run_calls_def)
qed

end
