(* ===== verification/Png.thy ===== *)
theory Png
  imports Protocol
begin

text \<open>
  packages/png/src/png.ts: the structure of a PNG file, its chunks with their checksums, and the frames of an animated
  PNG. The input is a list of bytes; \<open>crc32\<close> is the checksum of node:zlib.
\<close>

unbundle bit_operations_syntax

type_synonym bytes = "8 word list"

section \<open>Data\<close>

record png_chunk =
  ck_type :: js_string
  ck_offset :: nat
  ck_dataOffset :: nat
  ck_dataLength :: nat
  ck_endOffset :: nat

datatype png_animation = ValidAnimation (frameCount: nat) (playCount: nat) | InvalidAnimation

record png_header =
  png_width :: nat
  png_height :: nat
  png_bitDepth :: int
  png_colorType :: int
  png_interlaceMethod :: int

record png_inspection = png_header +
  animation :: "png_animation option"
  png_chunks :: "png_chunk list"

section \<open>Bytes\<close>

definition signature :: bytes where
  "signature = [137, 80, 78, 71, 13, 10, 26, 10]"

definition byte_at :: "bytes \<Rightarrow> nat \<Rightarrow> 8 word option" where
  "byte_at input i = (if i < length input then Some (input ! i) else None)"

definition hasSignature :: "bytes \<Rightarrow> bool" where
  "hasSignature input \<longleftrightarrow> length signature \<le> length input \<and> list_all (\<lambda>i. input ! i = signature ! i) [0..<length signature]"

text \<open>\<open>input[offset] ?? 0\<close>, and \<open>input[offset] ?? -1\<close>.\<close>

definition byte_or_zero :: "bytes \<Rightarrow> nat \<Rightarrow> nat" where
  "byte_or_zero input i = (case byte_at input i of None \<Rightarrow> 0 | Some b \<Rightarrow> unat b)"

definition byte_or_none :: "bytes \<Rightarrow> nat \<Rightarrow> int" where
  "byte_or_none input i = (case byte_at input i of None \<Rightarrow> - 1 | Some b \<Rightarrow> uint b)"

definition readUint32 :: "bytes \<Rightarrow> nat \<Rightarrow> nat" where
  "readUint32 input off = (byte_or_zero input off * 0x1000000 + byte_or_zero input (off + 1) * 0x10000 +
     byte_or_zero input (off + 2) * 0x100 + byte_or_zero input (off + 3)) mod 2 ^ 32"

definition readPngUint31 :: "bytes \<Rightarrow> nat \<Rightarrow> nat option" where
  "readPngUint31 input off = (let v = readUint32 input off in if v \<le> 0x7fffffff then Some v else None)"

text \<open>The reflected CRC-32 with polynomial 0xEDB88320, bit by bit.\<close>

fun crc_bits :: "nat \<Rightarrow> 32 word \<Rightarrow> 32 word" where
  "crc_bits 0 c = c"
| "crc_bits (Suc n) c = crc_bits n (if bit c 0 then drop_bit 1 c XOR 0xEDB88320 else drop_bit 1 c)"

definition crc_byte :: "32 word \<Rightarrow> 8 word \<Rightarrow> 32 word" where
  "crc_byte c b = crc_bits 8 (c XOR ucast b)"

definition crc32 :: "bytes \<Rightarrow> nat" where
  "crc32 bs = unat (NOT (foldl crc_byte (NOT 0) bs))"

definition subarray :: "bytes \<Rightarrow> nat \<Rightarrow> nat \<Rightarrow> bytes" where
  "subarray input b e = take (e - b) (drop b input)"

definition isAsciiLetter :: "8 word \<Rightarrow> bool" where
  "isAsciiLetter v \<longleftrightarrow> 0x41 \<le> v \<and> v \<le> 0x5a \<or> 0x61 \<le> v \<and> v \<le> 0x7a"

definition chunk_letter :: "bytes \<Rightarrow> nat \<Rightarrow> nat \<Rightarrow> js_unit result" where
  "chunk_letter input off i =
     (case byte_at input (off + i) of
        None \<Rightarrow> Inl (PngInspection ''invalid_chunk_type'')
      | Some v \<Rightarrow> if \<not> isAsciiLetter v \<or> i = 2 \<and> 0x61 \<le> v then Inl (PngInspection ''invalid_chunk_type'') else Inr (ucast v))"

definition readChunkType :: "bytes \<Rightarrow> nat \<Rightarrow> js_string result" where
  "readChunkType input off = map_checked (chunk_letter input off) [0..<4]"

definition isCritical :: "js_string \<Rightarrow> bool" where
  "isCritical ty \<longleftrightarrow> ty \<noteq> [] \<and> 0x41 \<le> hd ty \<and> hd ty \<le> 0x5a"

definition criticalChunkTypes :: "js_string list" where
  "criticalChunkTypes = [js ''IHDR'', js ''PLTE'', js ''IDAT'', js ''IEND'']"

definition isValidBitDepth :: "int \<Rightarrow> int \<Rightarrow> bool" where
  "isValidBitDepth depth ct =
     (if ct = 0 then depth \<in> {1, 2, 4, 8, 16}
      else if ct = 2 \<or> ct = 4 \<or> ct = 6 then depth \<in> {8, 16}
      else if ct = 3 then depth \<in> {1, 2, 4, 8}
      else False)"

section \<open>Frames of an animation\<close>

definition find_index :: "('a \<Rightarrow> bool) \<Rightarrow> 'a list \<Rightarrow> int" where
  "find_index P xs = (if list_ex P xs then int (length (takeWhile (\<lambda>x. \<not> P x) xs)) else - 1)"

definition isValidFrameControl :: "bytes \<Rightarrow> nat \<Rightarrow> nat \<Rightarrow> nat \<Rightarrow> bool \<Rightarrow> bool" where
  "isValidFrameControl input off canvasWidth canvasHeight isDefaultImageFrame \<longleftrightarrow>
     (case (readPngUint31 input (off + 4), readPngUint31 input (off + 8), readPngUint31 input (off + 12), readPngUint31 input (off + 16)) of
        (Some w, Some h, Some x, Some y) \<Rightarrow>
          0 < w \<and> 0 < h \<and> w \<le> canvasWidth \<and> h \<le> canvasHeight \<and> x \<le> canvasWidth - w \<and> y \<le> canvasHeight - h \<and>
          byte_or_none input (off + 24) \<in> {0, 1, 2} \<and> byte_or_none input (off + 25) \<in> {0, 1} \<and>
          (\<not> isDefaultImageFrame \<or> w = canvasWidth \<and> h = canvasHeight \<and> x = 0 \<and> y = 0)
      | _ \<Rightarrow> False)"

record frame_scan =
  expectedSequence :: nat
  frames :: nat
  imageDataSeen :: bool
  currentFrameHasData :: bool
  currentFrameUsesImageData :: bool

definition frame_chunk :: "bytes \<Rightarrow> nat \<Rightarrow> nat \<Rightarrow> png_chunk \<Rightarrow> frame_scan \<Rightarrow> frame_scan option" where
  "frame_chunk input w h c a =
     (if ck_type c = js ''IDAT'' then
        Some (a\<lparr>imageDataSeen := True, currentFrameHasData := currentFrameHasData a \<or> currentFrameUsesImageData a\<rparr>)
      else if ck_type c = js ''fcTL'' then
        (if ck_dataLength c \<noteq> 26 \<or> readPngUint31 input (ck_dataOffset c) \<noteq> Some (expectedSequence a) \<or>
            0 < frames a \<and> \<not> currentFrameHasData a then None
         else if \<not> isValidFrameControl input (ck_dataOffset c) w h (\<not> imageDataSeen a) then None
         else Some (a\<lparr>expectedSequence := expectedSequence a + 1, frames := frames a + 1, currentFrameHasData := False,
           currentFrameUsesImageData := \<not> imageDataSeen a\<rparr>))
      else if ck_type c = js ''fdAT'' then
        (if \<not> imageDataSeen a \<or> frames a = 0 \<or> currentFrameUsesImageData a \<or> ck_dataLength c < 4 \<or>
            readPngUint31 input (ck_dataOffset c) \<noteq> Some (expectedSequence a) then None
         else Some (a\<lparr>expectedSequence := expectedSequence a + 1, currentFrameHasData := True\<rparr>))
      else Some a)"

fun frame_chunks :: "bytes \<Rightarrow> nat \<Rightarrow> nat \<Rightarrow> png_chunk list \<Rightarrow> frame_scan \<Rightarrow> frame_scan option" where
  "frame_chunks input w h [] a = Some a"
| "frame_chunks input w h (c # cs) a =
     (case frame_chunk input w h c a of None \<Rightarrow> None | Some b \<Rightarrow> frame_chunks input w h cs b)"

definition inspectAnimation :: "bytes \<Rightarrow> png_chunk list \<Rightarrow> nat \<Rightarrow> nat \<Rightarrow> png_animation option" where
  "inspectAnimation input chunks canvasWidth canvasHeight =
     (let animationChunks = filter (\<lambda>c. ck_type c \<in> set [js ''acTL'', js ''fcTL'', js ''fdAT'']) chunks in
      if animationChunks = [] then None
      else case filter (\<lambda>c. ck_type c = js ''acTL'') animationChunks of
        [control] \<Rightarrow>
          (if ck_dataLength control \<noteq> 8 \<or> find_index (\<lambda>c. ck_type c = js ''IDAT'') chunks < find_index (\<lambda>c. c = control) chunks
           then Some InvalidAnimation
           else case (readPngUint31 input (ck_dataOffset control), readPngUint31 input (ck_dataOffset control + 4)) of
             (Some n, Some plays) \<Rightarrow>
               (if n = 0 then Some InvalidAnimation
                else case frame_chunks input canvasWidth canvasHeight chunks
                    \<lparr>expectedSequence = 0, frames = 0, imageDataSeen = False, currentFrameHasData = False,
                     currentFrameUsesImageData = False\<rparr> of
                  None \<Rightarrow> Some InvalidAnimation
                | Some a \<Rightarrow>
                    if frames a \<noteq> n \<or> \<not> currentFrameHasData a then Some InvalidAnimation
                    else Some (ValidAnimation n plays))
           | _ \<Rightarrow> Some InvalidAnimation)
      | _ \<Rightarrow> Some InvalidAnimation)"

section \<open>The chunks\<close>

definition png_check :: "bool \<Rightarrow> string \<Rightarrow> unit result" where
  "png_check ok code = ensure ok (PngInspection code)"

definition read_chunk :: "bytes \<Rightarrow> nat \<Rightarrow> png_chunk result" where
  "read_chunk input off =
     rbind (png_check (off + 12 \<le> length input) ''truncated_chunk'') (\<lambda>_.
     let dataLength = readUint32 input off; endOffset = off + 12 + dataLength in
     rbind (png_check (dataLength \<le> 0x7fffffff) ''invalid_structure'') (\<lambda>_.
     rbind (png_check (is_safe_integer (int endOffset) \<and> endOffset \<le> length input) ''truncated_chunk'') (\<lambda>_.
     rbind (readChunkType input (off + 4)) (\<lambda>ty.
     rbind (png_check (crc32 (subarray input (off + 4) (off + 8 + dataLength)) = readUint32 input (off + 8 + dataLength)) ''invalid_crc'') (\<lambda>_.
     Inr \<lparr>ck_type = ty, ck_offset = off, ck_dataOffset = off + 8, ck_dataLength = dataLength, ck_endOffset = endOffset\<rparr>)))))"

record png_scan = png_header +
  sc_chunks :: "png_chunk list"
  sc_offset :: nat
  sawPalette :: bool
  sawImageData :: bool
  imageDataEnded :: bool

definition scan_start :: png_scan where
  "scan_start = \<lparr>png_width = 0, png_height = 0, png_bitDepth = 0, png_colorType = 0, png_interlaceMethod = 0, sc_chunks = [],
     sc_offset = length signature, sawPalette = False, sawImageData = False, imageDataEnded = False\<rparr>"

definition scan_header :: "bytes \<Rightarrow> png_chunk \<Rightarrow> png_scan \<Rightarrow> png_scan result" where
  "scan_header input c st =
     rbind (png_check (ck_type c = js ''IHDR'' \<and> ck_dataLength c = 13) ''invalid_structure'') (\<lambda>_.
     let d = ck_dataOffset c; declaredWidth = readPngUint31 input d; declaredHeight = readPngUint31 input (d + 4);
         bitDepth = byte_or_none input (d + 8); colorType = byte_or_none input (d + 9);
         interlaceMethod = byte_or_none input (d + 12) in
     rbind (png_check (declaredWidth \<noteq> None \<and> declaredHeight \<noteq> None \<and> declaredWidth \<noteq> Some 0 \<and> declaredHeight \<noteq> Some 0 \<and>
         isValidBitDepth bitDepth colorType \<and> byte_at input (d + 10) = Some 0 \<and> byte_at input (d + 11) = Some 0 \<and>
         interlaceMethod \<in> {0, 1}) ''invalid_structure'') (\<lambda>_.
     Inr (st\<lparr>png_width := the declaredWidth, png_height := the declaredHeight, png_bitDepth := bitDepth, png_colorType := colorType,
       png_interlaceMethod := interlaceMethod, sc_offset := ck_endOffset c\<rparr>)))"

definition palette_ok :: "png_chunk \<Rightarrow> png_scan \<Rightarrow> bool" where
  "palette_ok c st \<longleftrightarrow> \<not> (sawPalette st \<or> sawImageData st \<or> png_colorType st = 0 \<or> png_colorType st = 4 \<or> ck_dataLength c = 0 \<or>
     768 < ck_dataLength c \<or> ck_dataLength c mod 3 \<noteq> 0 \<or>
     png_colorType st = 3 \<and> 2 ^ nat (png_bitDepth st) < ck_dataLength c div 3)"

definition scan_result :: "bytes \<Rightarrow> png_scan \<Rightarrow> png_inspection" where
  "scan_result input st = \<lparr>png_width = png_width st, png_height = png_height st, png_bitDepth = png_bitDepth st,
     png_colorType = png_colorType st, png_interlaceMethod = png_interlaceMethod st,
     animation = inspectAnimation input (sc_chunks st) (png_width st) (png_height st), png_chunks = sc_chunks st\<rparr>"

text \<open>A chunk after the header either ends the scan with its result or leaves the scan for the next one.\<close>

definition scan_later :: "bytes \<Rightarrow> png_chunk \<Rightarrow> png_scan \<Rightarrow> (png_inspection + png_scan) result" where
  "scan_later input c st =
     (let ty = ck_type c in
      rbind (png_check (ty \<noteq> js ''IHDR'') ''invalid_structure'') (\<lambda>_.
      rbind (png_check (\<not> (isCritical ty \<and> ty \<notin> set criticalChunkTypes)) ''unknown_critical_chunk'') (\<lambda>_.
      let st1 = st\<lparr>imageDataEnded := imageDataEnded st \<or> ty \<noteq> js ''IDAT'' \<and> sawImageData st\<rparr> in
      if ty = js ''PLTE'' then
        rbind (png_check (palette_ok c st1) ''invalid_structure'') (\<lambda>_. Inr (Inr (st1\<lparr>sawPalette := True, sc_offset := ck_endOffset c\<rparr>)))
      else if ty = js ''IDAT'' then
        rbind (png_check (\<not> imageDataEnded st1) ''nonconsecutive_idat'') (\<lambda>_.
        rbind (png_check (\<not> (png_colorType st1 = 3 \<and> \<not> sawPalette st1)) ''invalid_structure'') (\<lambda>_.
        Inr (Inr (st1\<lparr>sawImageData := True, sc_offset := ck_endOffset c\<rparr>))))
      else if ty = js ''IEND'' then
        rbind (png_check (ck_endOffset c = length input) ''trailing_data'') (\<lambda>_.
        rbind (png_check (ck_dataLength c = 0 \<and> sawImageData st1) ''invalid_structure'') (\<lambda>_.
        Inr (Inl (scan_result input st1))))
      else Inr (Inr (st1\<lparr>sc_offset := ck_endOffset c\<rparr>)))))"

definition scan_chunk :: "bytes \<Rightarrow> png_chunk \<Rightarrow> png_scan \<Rightarrow> (png_inspection + png_scan) result" where
  "scan_chunk input c st =
     (let st1 = st\<lparr>sc_chunks := sc_chunks st @ [c]\<rparr> in
      if length (sc_chunks st1) = 1 then rbind (scan_header input c st1) (\<lambda>st2. Inr (Inr st2)) else scan_later input c st1)"

text \<open>Every round of the loop moves at least the twelve bytes of an empty chunk forward.\<close>

lemma read_chunk_forward: "read_chunk input off = Inr c \<Longrightarrow> off + 12 \<le> ck_endOffset c \<and> ck_endOffset c \<le> length input"
  by (auto simp: read_chunk_def png_check_def rbind_eq_Inr Let_def)

lemma scan_chunk_offset: "scan_chunk input c st = Inr (Inr st') \<Longrightarrow> sc_offset st' = ck_endOffset c"
  by (auto simp: scan_chunk_def scan_header_def scan_later_def rbind_eq_Inr Let_def split: if_splits)

function scan :: "bytes \<Rightarrow> png_scan \<Rightarrow> png_inspection result" where
  "scan input st =
     rbind (read_chunk input (sc_offset st)) (\<lambda>c.
     rbind (scan_chunk input c st) (\<lambda>r.
     case r of Inl found \<Rightarrow> Inr found | Inr st' \<Rightarrow> scan input st'))"
  by pat_completeness auto
termination
proof (relation "measure (\<lambda>(input, st). length input - sc_offset st)", goal_cases)
  case (2 input st c r st')
  then show ?case using read_chunk_forward [OF 2(1)] scan_chunk_offset [of input c st st'] by simp linarith
qed simp

declare scan.simps [simp del]

definition captureLimits :: "int \<Rightarrow> int result" where
  "captureLimits n = rbind (ensure (is_safe_integer n \<and> 1 \<le> n) RangeErr) (\<lambda>_. Inr n)"

definition inspectPng :: "bytes \<Rightarrow> int \<Rightarrow> png_inspection result" where
  "inspectPng input limit =
     rbind (captureLimits limit) (\<lambda>resolved.
     rbind (png_check (int (length input) \<le> resolved) ''input_too_large'') (\<lambda>_.
     rbind (png_check (hasSignature input) ''invalid_signature'') (\<lambda>_.
     scan input scan_start)))"

end
