(* ===== verification/Png_Format.thy ===== *)
theory Png_Format
  imports Png
begin

text \<open>
  The PNG format as a grammar on lists of chunks, each a type and its data, and how a file is laid out from them.
\<close>

type_synonym raw_chunk = "bytes \<times> bytes"

definition be32 :: "nat \<Rightarrow> bytes" where
  "be32 n = [word_of_nat (n div 2 ^ 24), word_of_nat (n div 2 ^ 16), word_of_nat (n div 2 ^ 8), word_of_nat n]"

definition encode_chunk :: "raw_chunk \<Rightarrow> bytes" where
  "encode_chunk c = be32 (length (snd c)) @ fst c @ snd c @ be32 (crc32 (fst c @ snd c))"

definition encode_png :: "raw_chunk list \<Rightarrow> bytes" where
  "encode_png cs = signature @ concat (map encode_chunk cs)"

definition raw_name :: "raw_chunk \<Rightarrow> js_string" where
  "raw_name c = map ucast (fst c)"

definition type_ok :: "bytes \<Rightarrow> bool" where
  "type_ok ty \<longleftrightarrow> length ty = 4 \<and> list_all isAsciiLetter ty \<and> ty ! 2 < 0x61"

definition raw_ok :: "raw_chunk \<Rightarrow> bool" where
  "raw_ok c \<longleftrightarrow> type_ok (fst c) \<and> length (snd c) \<le> 0x7fffffff"

definition chunk_at :: "nat \<Rightarrow> raw_chunk \<Rightarrow> png_chunk" where
  "chunk_at off c = \<lparr>ck_type = raw_name c, ck_offset = off, ck_dataOffset = off + 8, ck_dataLength = length (snd c),
     ck_endOffset = off + 12 + length (snd c)\<rparr>"

fun chunks_at :: "nat \<Rightarrow> raw_chunk list \<Rightarrow> png_chunk list" where
  "chunks_at off [] = []"
| "chunks_at off (c # cs) = chunk_at off c # chunks_at (off + 12 + length (snd c)) cs"

section \<open>Four-byte numbers\<close>

lemma length_be32 [simp]: "length (be32 n) = 4"
  by (simp add: be32_def)

lemma unat_byte: "unat (b :: 8 word) < 256"
  using unsigned_less [of b, where 'a = nat] by simp

lemma quad_value:
  fixes a b c d :: "8 word"
  defines "n \<equiv> unat a * 0x1000000 + unat b * 0x10000 + unat c * 0x100 + unat d"
  shows "n < 2 ^ 32" "be32 n = [a, b, c, d]"
proof -
  have s: "unat a < 256" "unat b < 256" "unat c < 256" "unat d < 256" by (rule unat_byte)+
  then show "n < 2 ^ 32" by (simp add: n_def)
  have q: "n div 2 ^ 24 = 256 * 0 + unat a" "n div 2 ^ 16 = 256 * unat a + unat b" "n div 2 ^ 8 = 256 * (unat a * 256 + unat b) + unat c"
    "n = 256 * (unat a * 65536 + unat b * 256 + unat c) + unat d"
    using s by (simp_all add: n_def)
  have m: "(word_of_nat (256 * k + unat x) :: 8 word) = x" for k and x :: "8 word"
  proof -
    have "(256 * k + unat x) mod 256 = unat x" using unat_byte [of x] by simp
    then have "take_bit LENGTH(8) (256 * k + unat x) = unat x" by (simp add: take_bit_eq_mod)
    then show ?thesis by (simp only: word_eq_iff_unsigned [where 'a = nat] unsigned_of_nat of_nat_id)
  qed
  show "be32 n = [a, b, c, d]"
    by (simp only: be32_def q(1-3) m) (subst q(4), simp only: m)
qed

definition be_value :: "bytes \<Rightarrow> nat" where
  "be_value bs = foldl (\<lambda>n b. 256 * n + unat b) 0 bs"

lemma be_value_be32:
  assumes "n < 2 ^ 32"
  shows "be_value (be32 n) = n"
proof -
  have u: "unat (word_of_nat k :: 8 word) = k mod 256" for k by (simp add: unat_of_nat)
  let ?a = "n div 256" let ?b = "?a div 256" let ?c = "?b div 256"
  have "?c < 256" using assms by simp
  then have "?c mod 256 = ?c" by simp
  moreover have "256 * ?c + ?b mod 256 = ?b" "256 * ?b + ?a mod 256 = ?a" "256 * ?a + n mod 256 = n" by simp_all
  moreover have "n div 2 ^ 24 = ?c" "n div 2 ^ 16 = ?b" "n div 2 ^ 8 = ?a" by (simp_all flip: div_mult2_eq)
  ultimately show ?thesis by (simp only: be_value_def be32_def foldl.simps u mult_0_right add_0)
qed

lemma be32_inject: "m < 2 ^ 32 \<Longrightarrow> n < 2 ^ 32 \<Longrightarrow> be32 m = be32 n \<longleftrightarrow> m = n"
  by (metis be_value_be32)

section \<open>Reading the bytes\<close>

lemma byte_at_append: "i < length d \<Longrightarrow> byte_at (a @ d @ b) (length a + i) = byte_at d i"
  by (simp add: byte_at_def nth_append)

lemma readUint32_bytes:
  assumes "off + 4 \<le> length input"
  shows "be32 (readUint32 input off) = subarray input off (off + 4)" "readUint32 input off < 2 ^ 32"
proof -
  have at: "byte_or_zero input (off + i) = unat (input ! (off + i))" if "i < 4" for i
    using that assms by (simp add: byte_or_zero_def byte_at_def)
  have "readUint32 input off = unat (input ! off) * 0x1000000 + unat (input ! (off + 1)) * 0x10000 + unat (input ! (off + 2)) * 0x100 +
      unat (input ! (off + 3))"
    using at [of 0] at [of 1] at [of 2] at [of 3] quad_value(1) by (simp add: readUint32_def)
  moreover have "subarray input off (off + 4) = [input ! off, input ! (off + 1), input ! (off + 2), input ! (off + 3)]"
    using assms by (auto simp: subarray_def list_eq_iff_nth_eq less_Suc_eq numeral_eq_Suc)
  ultimately show "be32 (readUint32 input off) = subarray input off (off + 4)" "readUint32 input off < 2 ^ 32"
    using quad_value by simp_all
qed

lemma readUint32_be32:
  "off + 4 \<le> length input \<Longrightarrow> n < 2 ^ 32 \<Longrightarrow> readUint32 input off = n \<longleftrightarrow> subarray input off (off + 4) = be32 n"
  using readUint32_bytes [of off input] be32_inject by metis

lemma subarray_append: "off \<le> m \<Longrightarrow> m \<le> e \<Longrightarrow> subarray input off e = subarray input off m @ subarray input m e"
  using take_add [of "m - off" "e - m" "drop off input"] by (simp add: subarray_def)

lemma readChunkType_Inr:
  assumes "off + 4 \<le> length input"
  shows "readChunkType input off = Inr nm \<longleftrightarrow> type_ok (subarray input off (off + 4)) \<and> nm = map ucast (subarray input off (off + 4))"
proof -
  have sub: "subarray input off (off + 4) = [input ! off, input ! (off + 1), input ! (off + 2), input ! (off + 3)]"
    using assms by (auto simp: subarray_def list_eq_iff_nth_eq less_Suc_eq numeral_eq_Suc)
  have up: "[0..<4] = [0, 1, 2, 3 :: nat]" by (simp add: upt_rec)
  have letter: "chunk_letter input off i = Inr x \<longleftrightarrow> isAsciiLetter (input ! (off + i)) \<and> \<not> (i = 2 \<and> 0x61 \<le> input ! (off + i)) \<and>
      x = ucast (input ! (off + i))" if "i < 4" for i x
    using that assms by (auto simp: chunk_letter_def byte_at_def)
  show ?thesis
    unfolding readChunkType_def up sub
    by (auto simp: rbind_eq_Inr letter type_ok_def not_le)
qed

section \<open>Chunks\<close>

lemma raw_okD: "raw_ok c \<Longrightarrow> length (fst c) = 4 \<and> length (snd c) \<le> 0x7fffffff"
  by (simp add: raw_ok_def type_ok_def)

lemma length_encode_chunk [simp]: "raw_ok c \<Longrightarrow> length (encode_chunk c) = 12 + length (snd c)"
  by (simp add: encode_chunk_def raw_okD)

lemma subarray_all: "subarray input off (off + n) = take n (drop off input)"
  by (simp add: subarray_def)

lemma crc32_less: "crc32 bs < 2 ^ 32"
  unfolding crc32_def using unsigned_less [where 'a = nat and w = "NOT (foldl crc_byte (NOT 0) bs)"] by simp

text \<open>A chunk is read exactly where the bytes that encode it stand.\<close>

lemma read_chunk_Inr:
  assumes "is_safe_integer (int (length input))"
  shows "read_chunk input off = Inr ck \<longleftrightarrow>
    (\<exists>c. raw_ok c \<and> off + 12 + length (snd c) \<le> length input \<and> subarray input off (off + 12 + length (snd c)) = encode_chunk c \<and>
       ck = chunk_at off c)" (is "?L \<longleftrightarrow> ?R")
proof
  let ?n = "readUint32 input off"
  assume ?L
  then have r: "off + 12 + ?n \<le> length input" "?n \<le> 0x7fffffff" "readChunkType input (off + 4) = Inr (ck_type ck)"
      "crc32 (subarray input (off + 4) (off + 8 + ?n)) = readUint32 input (off + 8 + ?n)"
      "ck = \<lparr>ck_type = ck_type ck, ck_offset = off, ck_dataOffset = off + 8, ck_dataLength = ?n, ck_endOffset = off + 12 + ?n\<rparr>"
    by (auto simp: read_chunk_def png_check_def rbind_eq_Inr Let_def)
  let ?c = "(subarray input (off + 4) (off + 8), subarray input (off + 8) (off + 8 + ?n))"
  have ty: "type_ok (fst ?c)" "ck_type ck = map ucast (fst ?c)" using r(1,3) readChunkType_Inr [of "off + 4" input] by (simp_all add: add.commute)
  have len: "length (snd ?c) = ?n" using r(1) by (simp add: subarray_def)
  have "subarray input off (off + 12 + ?n) = subarray input off (off + 4) @ subarray input (off + 4) (off + 8) @
      subarray input (off + 8) (off + 8 + ?n) @ subarray input (off + 8 + ?n) (off + 8 + ?n + 4)"
    using subarray_append [of off "off + 4" "off + 12 + ?n" input] subarray_append [of "off + 4" "off + 8" "off + 12 + ?n" input]
      subarray_append [of "off + 8" "off + 8 + ?n" "off + 12 + ?n" input] by (simp add: algebra_simps)
  also have "\<dots> = encode_chunk ?c"
    using readUint32_bytes(1) [of off input] readUint32_bytes(1) [of "off + 8 + ?n" input] r(1,4) len
      subarray_append [of "off + 4" "off + 8" "off + 8 + ?n" input] by (simp add: encode_chunk_def)
  finally have "subarray input off (off + 12 + length (snd ?c)) = encode_chunk ?c" by (simp only: len)
  moreover have "raw_ok ?c" using ty(1) r(2) len by (simp add: raw_ok_def)
  moreover have "ck = chunk_at off ?c" using r(5) ty(2) len by (simp add: chunk_at_def raw_name_def)
  ultimately show ?R using r(1) len by (intro exI [of _ ?c]) simp
next
  assume ?R
  then obtain c where c: "raw_ok c" "off + 12 + length (snd c) \<le> length input"
      "subarray input off (off + 12 + length (snd c)) = encode_chunk c" "ck = chunk_at off c" by blast
  let ?n = "length (snd c)"
  have n: "?n \<le> 0x7fffffff" "length (fst c) = 4" using raw_okD [OF c(1)] by simp_all
  have part: "subarray input (off + i) (off + j) = take (j - i) (drop i (encode_chunk c))" if "j \<le> 12 + ?n" for i j
    using that by (simp add: c(3) [symmetric] subarray_def drop_take min_def)
      (simp add: add.commute)
  have "readUint32 input off = ?n" using part [of 4 0] c(2) n by (simp add: readUint32_be32 encode_chunk_def)
  moreover have "subarray input (off + 4) (off + 8) = fst c" using part [of 8 4] n by (simp add: encode_chunk_def)
  moreover have "subarray input (off + 4) (off + 8 + ?n) = fst c @ snd c" using part [of "8 + ?n" 4] n by (simp add: encode_chunk_def algebra_simps)
  moreover have "readUint32 input (off + 8 + ?n) = crc32 (fst c @ snd c)"
    using part [of "12 + ?n" "8 + ?n"] c(2) n crc32_less by (simp add: readUint32_be32 encode_chunk_def algebra_simps)
  moreover have "readChunkType input (off + 4) = Inr (raw_name c)"
    using c(1,2) calculation(2) readChunkType_Inr [of "off + 4" input] by (simp add: raw_ok_def raw_name_def add.commute)
  moreover have "is_safe_integer (int (off + 12 + ?n))" using assms c(2) by (simp add: is_safe_integer_def)
  ultimately show ?L using c n by (simp add: read_chunk_def png_check_def chunk_at_def Let_def)
qed

section \<open>The grammar as a scan\<close>

definition palette_size_ok :: "int \<Rightarrow> int \<Rightarrow> nat \<Rightarrow> bool" where
  "palette_size_ok ct depth n \<longleftrightarrow> ct \<noteq> 0 \<and> ct \<noteq> 4 \<and> 0 < n \<and> n \<le> 768 \<and> n mod 3 = 0 \<and> (ct = 3 \<longrightarrow> n div 3 \<le> 2 ^ nat depth)"

fun tail_ok :: "int \<Rightarrow> int \<Rightarrow> bool \<Rightarrow> bool \<Rightarrow> bool \<Rightarrow> raw_chunk list \<Rightarrow> bool" where
  "tail_ok ct depth pal saw ended [] = False"
| "tail_ok ct depth pal saw ended (c # cs) =
     (let ty = raw_name c; past = ended \<or> ty \<noteq> js ''IDAT'' \<and> saw in
      raw_ok c \<and> ty \<noteq> js ''IHDR'' \<and> (isCritical ty \<longrightarrow> ty \<in> set criticalChunkTypes) \<and>
      (if ty = js ''PLTE'' then \<not> pal \<and> \<not> saw \<and> palette_size_ok ct depth (length (snd c)) \<and> tail_ok ct depth True saw past cs
       else if ty = js ''IDAT'' then \<not> past \<and> (ct = 3 \<longrightarrow> pal) \<and> tail_ok ct depth pal True past cs
       else if ty = js ''IEND'' then cs = [] \<and> snd c = [] \<and> saw
       else tail_ok ct depth pal saw past cs))"

lemma drop_encode_chunk:
  assumes "raw_ok c" "off \<le> length input"
  shows "drop off input = encode_chunk c @ x \<longleftrightarrow> off + 12 + length (snd c) \<le> length input \<and>
    subarray input off (off + 12 + length (snd c)) = encode_chunk c \<and> x = drop (off + 12 + length (snd c)) input" (is "?L \<longleftrightarrow> ?R")
proof
  let ?n = "12 + length (snd c)"
  assume ?L
  then have "take ?n (drop off input) = encode_chunk c" "drop ?n (drop off input) = x" using assms(1) by simp_all
  moreover have "?n \<le> length (drop off input)" using \<open>?L\<close> assms(1) by simp
  ultimately show ?R using assms(2) by (auto simp: subarray_def ac_simps)
next
  let ?n = "12 + length (snd c)"
  assume ?R
  then have "take ?n (drop off input) = encode_chunk c" "x = drop ?n (drop off input)"
    by (simp_all add: subarray_def ac_simps)
  then show ?L by (metis append_take_drop_id)
qed

lemma scan_later_Inl:
  "scan_later input (chunk_at off c) st = Inr (Inl x) \<longleftrightarrow> raw_name c = js ''IEND'' \<and> off + 12 + length (snd c) = length input \<and>
     snd c = [] \<and> sawImageData st \<and> x = scan_result input st"
  by (auto simp: scan_later_def png_check_def rbind_eq_Inr Let_def chunk_at_def scan_result_def isCritical_def criticalChunkTypes_def js_def)

lemma scan_later_Inr:
  "scan_later input (chunk_at off c) st = Inr (Inr st') \<longleftrightarrow>
     (let ty = raw_name c; past = imageDataEnded st \<or> ty \<noteq> js ''IDAT'' \<and> sawImageData st in
      ty \<noteq> js ''IHDR'' \<and> ty \<noteq> js ''IEND'' \<and> (isCritical ty \<longrightarrow> ty \<in> set criticalChunkTypes) \<and>
      (ty = js ''PLTE'' \<longrightarrow> \<not> sawPalette st \<and> \<not> sawImageData st \<and> palette_size_ok (png_colorType st) (png_bitDepth st) (length (snd c))) \<and>
      (ty = js ''IDAT'' \<longrightarrow> \<not> past \<and> (png_colorType st = 3 \<longrightarrow> sawPalette st)) \<and>
      st' = st\<lparr>imageDataEnded := past, sawPalette := sawPalette st \<or> ty = js ''PLTE'', sawImageData := sawImageData st \<or> ty = js ''IDAT'',
        sc_offset := off + 12 + length (snd c)\<rparr>)"
proof -
  have names: "js ''PLTE'' \<noteq> js ''IDAT''" "js ''PLTE'' \<noteq> js ''IEND''" "js ''IDAT'' \<noteq> js ''IEND''" "js ''PLTE'' \<noteq> js ''IHDR''"
    "js ''IDAT'' \<noteq> js ''IHDR''" by (simp_all add: js_def)
  consider "raw_name c = js ''PLTE''" | "raw_name c = js ''IDAT''" | "raw_name c = js ''IEND''"
    | "raw_name c \<notin> {js ''PLTE'', js ''IDAT'', js ''IEND''}" by blast
  then show ?thesis
    by cases (auto simp: scan_later_def png_check_def rbind_eq_Inr Let_def chunk_at_def palette_ok_def palette_size_ok_def names names [symmetric]
        criticalChunkTypes_def)
qed

text \<open>After the header, the scan accepts exactly the remaining bytes that encode a list of chunks the grammar allows.\<close>

definition tail_encodes :: "bytes \<Rightarrow> png_scan \<Rightarrow> raw_chunk list \<Rightarrow> png_inspection \<Rightarrow> bool" where
  "tail_encodes input st cs r \<longleftrightarrow> drop (sc_offset st) input = concat (map encode_chunk cs) \<and>
     tail_ok (png_colorType st) (png_bitDepth st) (sawPalette st) (sawImageData st) (imageDataEnded st) cs \<and>
     r = scan_result input (st\<lparr>sc_chunks := sc_chunks st @ chunks_at (sc_offset st) cs\<rparr>)"

lemma tail_encodes_Cons:
  assumes "sc_offset st \<le> length input"
  shows "tail_encodes input st (c # cs) r \<longleftrightarrow> raw_ok c \<and> sc_offset st + 12 + length (snd c) \<le> length input \<and>
     subarray input (sc_offset st) (sc_offset st + 12 + length (snd c)) = encode_chunk c \<and>
     (let step = scan_later input (chunk_at (sc_offset st) c) (st\<lparr>sc_chunks := sc_chunks st @ [chunk_at (sc_offset st) c]\<rparr>) in
      cs = [] \<and> step = Inr (Inl r) \<or> (\<exists>st'. step = Inr (Inr st') \<and> tail_encodes input st' cs r))"
    (is "?L \<longleftrightarrow> ?R")
proof -
  let ?off = "sc_offset st" and ?e = "sc_offset st + 12 + length (snd c)" and ?st = "st\<lparr>sc_chunks := sc_chunks st @ [chunk_at (sc_offset st) c]\<rparr>"
  consider (fin) "raw_name c = js ''IEND''" | (more) "raw_name c \<noteq> js ''IEND''" by blast
  then show ?thesis
  proof cases
    case fin
    have "raw_name c \<noteq> js ''IHDR''" "raw_name c \<noteq> js ''PLTE''" "raw_name c \<noteq> js ''IDAT''" "isCritical (raw_name c) \<longrightarrow> raw_name c \<in> set criticalChunkTypes"
      using fin by (simp_all add: js_def criticalChunkTypes_def)
    then have "?L \<longleftrightarrow> drop ?off input = encode_chunk c @ [] \<and> raw_ok c \<and> cs = [] \<and> snd c = [] \<and> sawImageData st \<and> r = scan_result input ?st"
      using fin by (auto simp: tail_encodes_def Let_def)
    also have "\<dots> \<longleftrightarrow> ?R" using fin assms drop_encode_chunk [of c ?off input "[]"]
      by (auto simp: scan_later_Inl scan_later_Inr Let_def)
    finally show ?thesis .
  next
    case more
    then show ?thesis using assms
      by (auto simp: tail_encodes_def scan_later_Inl scan_later_Inr Let_def drop_encode_chunk scan_result_def)
  qed
qed

lemma scan_Inr:
  "scan input st = Inr r \<longleftrightarrow> (\<exists>ck. read_chunk input (sc_offset st) = Inr ck \<and>
     (scan_chunk input ck st = Inr (Inl r) \<or> (\<exists>st'. scan_chunk input ck st = Inr (Inr st') \<and> scan input st' = Inr r)))"
proof (cases "read_chunk input (sc_offset st)")
  case (Inr ck)
  then show ?thesis
  proof (cases "scan_chunk input ck st")
    case res: (Inr res)
    with Inr show ?thesis by (cases res) (auto simp: scan.simps [of input st])
  qed (simp add: scan.simps [of input st])
qed (simp add: scan.simps [of input st])

lemma scan_tail:
  "is_safe_integer (int (length input)) \<Longrightarrow> sc_offset st \<le> length input \<Longrightarrow> sc_chunks st \<noteq> [] \<Longrightarrow>
     scan input st = Inr r \<longleftrightarrow> (\<exists>cs. tail_encodes input st cs r)"
proof (induction input st rule: scan.induct)
  case (1 input st)
  let ?st = "\<lambda>c. st\<lparr>sc_chunks := sc_chunks st @ [chunk_at (sc_offset st) c]\<rparr>"
  have later: "scan_chunk input (chunk_at (sc_offset st) c) st = scan_later input (chunk_at (sc_offset st) c) (?st c)" for c
    using "1.prems"(3) by (cases "sc_chunks st") (simp_all add: scan_chunk_def)
  have IH: "scan input st' = Inr r \<longleftrightarrow> (\<exists>cs. tail_encodes input st' cs r)"
    if "read_chunk input (sc_offset st) = Inr (chunk_at (sc_offset st) c)" "scan_later input (chunk_at (sc_offset st) c) (?st c) = Inr (Inr st')"
    for c st'
  proof -
    have step: "scan_chunk input (chunk_at (sc_offset st) c) st = Inr (Inr st')" using that(2) by (simp add: later)
    have "sc_offset st' \<le> length input" using scan_chunk_offset [OF step] read_chunk_forward [OF that(1)] by simp
    moreover have "sc_chunks st' \<noteq> []" using that(2) by (auto simp: scan_later_Inr Let_def)
    ultimately show ?thesis using "1.IH" [OF that(1) step refl] "1.prems"(1) by blast
  qed
  let ?E = "\<lambda>c. raw_ok c \<and> sc_offset st + 12 + length (snd c) \<le> length input \<and>
      subarray input (sc_offset st) (sc_offset st + 12 + length (snd c)) = encode_chunk c"
  let ?F = "\<lambda>c. scan_later input (chunk_at (sc_offset st) c) (?st c) = Inr (Inl r) \<or>
       (\<exists>st'. scan_later input (chunk_at (sc_offset st) c) (?st c) = Inr (Inr st') \<and> scan input st' = Inr r)"
  have read: "read_chunk input (sc_offset st) = Inr ck \<longleftrightarrow> (\<exists>c. ?E c \<and> ck = chunk_at (sc_offset st) c)" for ck
    using read_chunk_Inr [OF "1.prems"(1), of "sc_offset st" ck] by (simp only: conj_assoc)
  have "scan input st = Inr r \<longleftrightarrow> (\<exists>c. ?E c \<and> ?F c)"
    unfolding scan_Inr [of input st] read ex_simps(1) [symmetric] by (subst ex_comm) (simp only: later [symmetric] conj_assoc simp_thms ex_simps)
  also have "\<dots> \<longleftrightarrow> (\<exists>c cs. tail_encodes input st (c # cs) r)"
  proof (rule ex_cong1)
    fix c
    have "?E c \<Longrightarrow> ?F c \<longleftrightarrow> scan_later input (chunk_at (sc_offset st) c) (?st c) = Inr (Inl r) \<or>
       (\<exists>st'. scan_later input (chunk_at (sc_offset st) c) (?st c) = Inr (Inr st') \<and> (\<exists>cs. tail_encodes input st' cs r))"
      using IH read by blast
    then show "?E c \<and> ?F c \<longleftrightarrow> (\<exists>cs. tail_encodes input st (c # cs) r)"
      unfolding tail_encodes_Cons [OF "1.prems"(2)] Let_def by blast
  qed
  also have "\<dots> \<longleftrightarrow> (\<exists>cs. tail_encodes input st cs r)"
  proof -
    have "\<not> tail_encodes input st [] r" by (simp add: tail_encodes_def)
    then show ?thesis by (metis list.exhaust)
  qed
  finally show ?case .
qed

section \<open>The grammar\<close>

definition end_chunk :: "raw_chunk \<Rightarrow> bool" where
  "end_chunk c \<longleftrightarrow> raw_ok c \<and> raw_name c = js ''IEND'' \<and> snd c = []"

definition image_chunk :: "raw_chunk \<Rightarrow> bool" where
  "image_chunk c \<longleftrightarrow> raw_ok c \<and> raw_name c = js ''IDAT''"

definition palette_chunk :: "int \<Rightarrow> int \<Rightarrow> raw_chunk \<Rightarrow> bool" where
  "palette_chunk ct depth c \<longleftrightarrow> raw_ok c \<and> raw_name c = js ''PLTE'' \<and> palette_size_ok ct depth (length (snd c))"

definition plain_chunk :: "raw_chunk \<Rightarrow> bool" where
  "plain_chunk c \<longleftrightarrow> raw_ok c \<and> \<not> isCritical (raw_name c)"

text \<open>After the header: plain chunks with at most one palette among them, one run of image data, plain chunks, the end.\<close>

definition body_format :: "int \<Rightarrow> int \<Rightarrow> raw_chunk list \<Rightarrow> bool" where
  "body_format ct depth cs \<longleftrightarrow> (\<exists>pre palette mid image post e. cs = pre @ palette @ mid @ image @ post @ [e] \<and>
     list_all plain_chunk pre \<and> list_all (palette_chunk ct depth) palette \<and> length palette \<le> 1 \<and> list_all plain_chunk mid \<and>
     list_all image_chunk image \<and> image \<noteq> [] \<and> list_all plain_chunk post \<and> end_chunk e \<and> (ct = 3 \<longrightarrow> palette \<noteq> []))"

lemma chunk_kinds:
  "isCritical (js ''IHDR'')" "isCritical (js ''PLTE'')" "isCritical (js ''IDAT'')" "isCritical (js ''IEND'')"
  "js ''PLTE'' \<noteq> js ''IDAT''" "js ''PLTE'' \<noteq> js ''IEND''" "js ''IDAT'' \<noteq> js ''IEND''" "js ''PLTE'' \<noteq> js ''IHDR''"
  "js ''IDAT'' \<noteq> js ''IHDR''" "js ''IEND'' \<noteq> js ''IHDR''"
  by (simp_all add: isCritical_def js_def)

lemma chunk_cases:
  "raw_ok c \<and> raw_name c \<noteq> js ''IHDR'' \<and> (isCritical (raw_name c) \<longrightarrow> raw_name c \<in> set criticalChunkTypes) \<longleftrightarrow>
     raw_ok c \<and> (\<not> isCritical (raw_name c) \<or> raw_name c \<in> {js ''PLTE'', js ''IDAT'', js ''IEND''})"
  using chunk_kinds by (auto simp: criticalChunkTypes_def)

lemma tail_ok_plain:
  "plain_chunk c \<Longrightarrow> tail_ok ct depth pal saw ended (c # cs) \<longleftrightarrow> tail_ok ct depth pal saw (ended \<or> saw) cs"
  using chunk_kinds by (auto simp: plain_chunk_def Let_def)

lemma tail_ok_end: "raw_name c = js ''IEND'' \<Longrightarrow> tail_ok ct depth pal saw ended (c # cs) \<longleftrightarrow> cs = [] \<and> end_chunk c \<and> saw"
  using chunk_kinds by (auto simp: end_chunk_def Let_def criticalChunkTypes_def)

lemma tail_ok_image:
  "raw_name c = js ''IDAT'' \<Longrightarrow> tail_ok ct depth pal saw ended (c # cs) \<longleftrightarrow> image_chunk c \<and> \<not> ended \<and> (ct = 3 \<longrightarrow> pal) \<and> tail_ok ct depth pal True False cs"
  using chunk_kinds by (auto simp: image_chunk_def Let_def criticalChunkTypes_def)

lemma tail_ok_palette:
  "raw_name c = js ''PLTE'' \<Longrightarrow> tail_ok ct depth pal saw ended (c # cs) \<longleftrightarrow>
     palette_chunk ct depth c \<and> \<not> pal \<and> \<not> saw \<and> tail_ok ct depth True False ended cs"
  using chunk_kinds by (auto simp: palette_chunk_def Let_def criticalChunkTypes_def)

lemma tail_ok_kind:
  "tail_ok ct depth pal saw ended (c # cs) \<Longrightarrow> plain_chunk c \<or> raw_name c \<in> {js ''PLTE'', js ''IDAT'', js ''IEND''}"
  using chunk_cases [of c] by (auto simp: plain_chunk_def Let_def)

declare tail_ok.simps(2) [simp del]

lemma tail_ok_post:
  "tail_ok ct depth pal True True cs \<longleftrightarrow> (\<exists>post e. cs = post @ [e] \<and> list_all plain_chunk post \<and> end_chunk e)"
proof
  show "tail_ok ct depth pal True True cs \<Longrightarrow> \<exists>post e. cs = post @ [e] \<and> list_all plain_chunk post \<and> end_chunk e"
  proof (induction cs)
    case (Cons c cs)
    consider "plain_chunk c" | "raw_name c = js ''IEND''" using tail_ok_kind [OF Cons.prems] Cons.prems by (auto simp: tail_ok_image tail_ok_palette)
    then show ?case
    proof cases
      case 1
      then obtain post e where "cs = post @ [e] \<and> list_all plain_chunk post \<and> end_chunk e" using Cons tail_ok_plain by auto
      with 1 show ?thesis by (intro exI [of _ "c # post"] exI [of _ e]) simp
    next
      case 2
      then show ?thesis using Cons.prems tail_ok_end by (intro exI [of _ "[]"] exI [of _ c]) simp
    qed
  qed simp
next
  have "list_all plain_chunk post \<Longrightarrow> end_chunk e \<Longrightarrow> tail_ok ct depth pal True True (post @ [e])" for post e
    by (induction post) (simp_all add: tail_ok_plain tail_ok_end end_chunk_def)
  then show "\<exists>post e. cs = post @ [e] \<and> list_all plain_chunk post \<and> end_chunk e \<Longrightarrow> tail_ok ct depth pal True True cs" by blast
qed

lemma tail_ok_images:
  assumes "ct = 3 \<longrightarrow> pal"
  shows "tail_ok ct depth pal True False cs \<longleftrightarrow>
    (\<exists>image post e. cs = image @ post @ [e] \<and> list_all image_chunk image \<and> list_all plain_chunk post \<and> end_chunk e)"
proof
  show "tail_ok ct depth pal True False cs \<Longrightarrow>
    \<exists>image post e. cs = image @ post @ [e] \<and> list_all image_chunk image \<and> list_all plain_chunk post \<and> end_chunk e"
  proof (induction cs)
    case (Cons c cs)
    consider "plain_chunk c" | "raw_name c = js ''IDAT''" | "raw_name c = js ''IEND''"
      using tail_ok_kind [OF Cons.prems] Cons.prems by (auto simp: tail_ok_palette)
    then show ?case
    proof cases
      case 1
      then have "tail_ok ct depth pal True True cs" using Cons.prems by (simp add: tail_ok_plain)
      then obtain post e where "cs = post @ [e] \<and> list_all plain_chunk post \<and> end_chunk e" using tail_ok_post by blast
      with 1 show ?thesis by (intro exI [of _ "[]"] exI [of _ "c # post"] exI [of _ e]) simp
    next
      case 2
      then have c: "image_chunk c" "tail_ok ct depth pal True False cs" using Cons.prems by (simp_all add: tail_ok_image)
      then obtain image post e where "cs = image @ post @ [e] \<and> list_all image_chunk image \<and> list_all plain_chunk post \<and> end_chunk e"
        using Cons.IH by blast
      with c(1) show ?thesis by (intro exI [of _ "c # image"] exI [of _ post] exI [of _ e]) simp
    next
      case 3
      then show ?thesis using Cons.prems by (intro exI [of _ "[]"] exI [of _ "[]"] exI [of _ c]) (simp add: tail_ok_end)
    qed
  qed simp
next
  have images: "list_all image_chunk image \<Longrightarrow> tail_ok ct depth pal True False cs' \<Longrightarrow> tail_ok ct depth pal True False (image @ cs')" for image cs'
    using assms by (induction image) (auto simp: tail_ok_image image_chunk_def)
  have rest: "tail_ok ct depth pal True False (post @ [e])" if "list_all plain_chunk post" "end_chunk e" for post e
  proof (cases post)
    case Nil
    then show ?thesis using that by (simp add: tail_ok_end end_chunk_def)
  next
    case (Cons c post')
    then show ?thesis using that tail_ok_post [of ct depth pal "post' @ [e]"] by (auto simp: tail_ok_plain)
  qed
  assume "\<exists>image post e. cs = image @ post @ [e] \<and> list_all image_chunk image \<and> list_all plain_chunk post \<and> end_chunk e"
  then obtain image post e where "cs = image @ post @ [e]" "list_all image_chunk image" "list_all plain_chunk post" "end_chunk e" by blast
  then show "tail_ok ct depth pal True False cs" using images rest by simp
qed

definition image_format :: "raw_chunk list \<Rightarrow> bool" where
  "image_format cs \<longleftrightarrow> (\<exists>mid image post e. cs = mid @ image @ post @ [e] \<and> list_all plain_chunk mid \<and> list_all image_chunk image \<and>
     image \<noteq> [] \<and> list_all plain_chunk post \<and> end_chunk e)"

lemma image_format_plain: "plain_chunk c \<Longrightarrow> image_format cs \<Longrightarrow> image_format (c # cs)"
  unfolding image_format_def by (metis append_Cons list.pred_inject(2))

lemma image_format_image:
  assumes "image_chunk c" and "ct = 3 \<longrightarrow> pal" and "tail_ok ct depth pal True False cs"
  shows "image_format (c # cs)"
proof -
  obtain image post e where "cs = image @ post @ [e]" "list_all image_chunk image" "list_all plain_chunk post" "end_chunk e"
    using assms(3) tail_ok_images [OF assms(2)] by blast
  with assms(1) show ?thesis unfolding image_format_def
    by (intro exI [of _ "[]"] exI [of _ "c # image"] exI [of _ post] exI [of _ e]) simp
qed

lemma tail_ok_before:
  "tail_ok ct depth pal False False cs \<Longrightarrow> if pal then image_format cs else body_format ct depth cs"
proof (induction cs arbitrary: pal)
  case (Cons c cs)
  consider (plain) "plain_chunk c" | (image) "raw_name c = js ''IDAT''" | (palette) "raw_name c = js ''PLTE''"
    using tail_ok_kind [OF Cons.prems] Cons.prems by (auto simp: tail_ok_end)
  then show ?case
  proof cases
    case plain
    then have IH: "if pal then image_format cs else body_format ct depth cs" using Cons by (simp add: tail_ok_plain)
    then show ?thesis using plain image_format_plain
      by (cases pal) (simp, simp add: body_format_def, metis append_Cons list.pred_inject(2))
  next
    case image
    then have c: "image_chunk c" "ct = 3 \<longrightarrow> pal" "tail_ok ct depth pal True False cs" using Cons.prems by (auto simp: tail_ok_image)
    then have "image_format (c # cs)" by (rule image_format_image)
    then show ?thesis using c(2) unfolding image_format_def body_format_def
      by (cases pal) (simp, metis append_Nil list.size(3) list.pred_inject(1) le0)
  next
    case palette
    then have c: "palette_chunk ct depth c" "\<not> pal" "tail_ok ct depth True False False cs" using Cons.prems by (auto simp: tail_ok_palette)
    then obtain mid image post e where "cs = mid @ image @ post @ [e]" "list_all plain_chunk mid" "list_all image_chunk image"
        "image \<noteq> []" "list_all plain_chunk post" "end_chunk e"
      using Cons.IH [of True] by (auto simp: image_format_def)
    with c show ?thesis unfolding body_format_def
      by (simp, intro exI [of _ "[]"] exI [of _ "[c]"] exI [of _ mid] exI [of _ image] exI [of _ post] exI [of _ e]) simp
  qed
qed simp

lemma tail_ok_plains: "list_all plain_chunk ps \<Longrightarrow> tail_ok ct depth pal False False (ps @ cs) \<longleftrightarrow> tail_ok ct depth pal False False cs"
  by (induction ps) (simp_all add: tail_ok_plain)

lemma body_format_tail:
  assumes "body_format ct depth cs"
  shows "tail_ok ct depth False False False cs"
proof -
  obtain pre palette mid image post e where cs: "cs = pre @ palette @ mid @ image @ post @ [e]" "list_all plain_chunk pre"
      "list_all (palette_chunk ct depth) palette" "length palette \<le> 1" "list_all plain_chunk mid" "list_all image_chunk image" "image \<noteq> []"
      "list_all plain_chunk post" "end_chunk e" "ct = 3 \<longrightarrow> palette \<noteq> []"
    using assms unfolding body_format_def by blast
  obtain c im where im: "image = c # im" "image_chunk c" "list_all image_chunk im" using cs(6,7) by (cases image) auto
  have images: "tail_ok ct depth pal False False (mid @ image @ post @ [e])" if "ct = 3 \<longrightarrow> pal" for pal
  proof -
    have "tail_ok ct depth pal True False (im @ post @ [e])" using tail_ok_images [OF that] im cs by blast
    then show ?thesis using im cs(5) that by (simp add: tail_ok_plains tail_ok_image image_chunk_def)
  qed
  show ?thesis
  proof (cases palette)
    case Nil
    then show ?thesis using cs images by (simp add: tail_ok_plains)
  next
    case (Cons p ps)
    then show ?thesis using cs images [of True] by (simp add: tail_ok_plains) (simp add: tail_ok_plains tail_ok_palette palette_chunk_def)
  qed
qed

lemma tail_ok_format: "tail_ok ct depth False False False cs \<longleftrightarrow> body_format ct depth cs"
  using tail_ok_before [of ct depth False cs] body_format_tail by auto

end
