(* ===== verification/Png_Spec.thy ===== *)
theory Png_Spec
  imports Png_Format
begin

text \<open>
  What PNG inspection promises: it accepts exactly the files the format describes, reports their chunks where they
  stand, and calls an animation valid only if its frames are numbered, counted and placed as declared.
\<close>

section \<open>The header\<close>

definition header_ok :: "bytes \<Rightarrow> bool" where
  "header_ok d \<longleftrightarrow> length d = 13 \<and> (\<exists>w h. readPngUint31 d 0 = Some w \<and> readPngUint31 d 4 = Some h \<and> 0 < w \<and> 0 < h) \<and>
     isValidBitDepth (uint (d ! 8)) (uint (d ! 9)) \<and> d ! 10 = 0 \<and> d ! 11 = 0 \<and> d ! 12 \<in> {0, 1}"

definition inspection_of :: "bytes \<Rightarrow> raw_chunk \<Rightarrow> raw_chunk list \<Rightarrow> png_inspection" where
  "inspection_of input h cs =
     (let d = snd h; w = the (readPngUint31 d 0); ht = the (readPngUint31 d 4); chunks = chunks_at 8 (h # cs) in
      \<lparr>png_width = w, png_height = ht, png_bitDepth = uint (d ! 8), png_colorType = uint (d ! 9), png_interlaceMethod = uint (d ! 12),
       animation = inspectAnimation input chunks w ht, png_chunks = chunks\<rparr>)"

lemma chunk_data:
  assumes "subarray input off (off + 12 + length (snd c)) = encode_chunk c" "raw_ok c" "off + 12 + length (snd c) \<le> length input"
    and "i < length (snd c)"
  shows "byte_at input (off + 8 + i) = byte_at (snd c) i"
proof -
  have "input ! (off + (8 + i)) = subarray input off (off + 12 + length (snd c)) ! (8 + i)"
    using assms(3,4) by (simp add: subarray_def)
  also have "\<dots> = snd c ! i" using assms(1,2,4) raw_okD [OF assms(2)] by (simp add: encode_chunk_def nth_append)
  finally show ?thesis using assms(3,4) by (simp add: byte_at_def add.assoc)
qed

lemma chunk_uint31:
  assumes "\<And>i. i < length d \<Longrightarrow> byte_at input (off + i) = byte_at d i" "j + 4 \<le> length d"
  shows "readPngUint31 input (off + j) = readPngUint31 d j"
proof -
  have "byte_or_zero input (off + (j + k)) = byte_or_zero d (j + k)" if "k < 4" for k
    using that assms(1) [of "j + k"] assms(2) by (simp add: byte_or_zero_def)
  from this [of 0] this [of 1] this [of 2] this [of 3] show ?thesis
    by (simp add: readPngUint31_def readUint32_def add.assoc)
qed

lemma scan_header_Inr:
  assumes "subarray input off (off + 12 + length (snd c)) = encode_chunk c" "raw_ok c" "off + 12 + length (snd c) \<le> length input"
  shows "scan_header input (chunk_at off c) st = Inr st' \<longleftrightarrow> raw_name c = js ''IHDR'' \<and> header_ok (snd c) \<and>
     st' = st\<lparr>png_width := the (readPngUint31 (snd c) 0), png_height := the (readPngUint31 (snd c) 4), png_bitDepth := uint (snd c ! 8),
       png_colorType := uint (snd c ! 9), png_interlaceMethod := uint (snd c ! 12), sc_offset := off + 12 + length (snd c)\<rparr>"
proof (cases "length (snd c) = 13")
  case True
  let ?d = "snd c"
  have at: "byte_at input (off + 8 + i) = byte_at ?d i" if "i < length ?d" for i using chunk_data [OF assms that] .
  have bytes: "byte_at input (off + 8 + i) = Some (?d ! i)" if "i < 13" for i using at that True by (simp add: byte_at_def)
  have wh: "readPngUint31 input (off + 8) = readPngUint31 ?d 0" "readPngUint31 input (off + 12) = readPngUint31 ?d 4"
    using chunk_uint31 [of ?d input "off + 8" 0] chunk_uint31 [of ?d input "off + 8" 4] at True by (simp_all add: add.commute)
  have b: "byte_or_none input (off + 16) = uint (?d ! 8)" "byte_or_none input (off + 17) = uint (?d ! 9)"
    "byte_or_none input (off + 20) = uint (?d ! 12)" "byte_at input (off + 18) = Some (?d ! 10)" "byte_at input (off + 19) = Some (?d ! 11)"
    using bytes [of 8] bytes [of 9] bytes [of 12] bytes [of 10] bytes [of 11] by (simp_all add: byte_or_none_def add.commute)
  have m: "uint (?d ! 12) \<in> {0, 1} \<longleftrightarrow> ?d ! 12 \<in> {0, 1}" by (simp add: word_uint_eq_iff)
  have "scan_header input (chunk_at off c) st =
     rbind (png_check (raw_name c = js ''IHDR'') ''invalid_structure'') (\<lambda>_.
     rbind (png_check (header_ok ?d) ''invalid_structure'') (\<lambda>_.
     Inr (st\<lparr>png_width := the (readPngUint31 ?d 0), png_height := the (readPngUint31 ?d 4), png_bitDepth := uint (?d ! 8),
       png_colorType := uint (?d ! 9), png_interlaceMethod := uint (?d ! 12), sc_offset := off + 12 + length ?d\<rparr>)))"
  proof -
    have ok: "header_ok ?d \<longleftrightarrow> readPngUint31 ?d 0 \<noteq> None \<and> readPngUint31 ?d 4 \<noteq> None \<and> readPngUint31 ?d 0 \<noteq> Some 0 \<and>
        readPngUint31 ?d 4 \<noteq> Some 0 \<and> isValidBitDepth (uint (?d ! 8)) (uint (?d ! 9)) \<and> Some (?d ! 10) = Some 0 \<and>
        Some (?d ! 11) = Some 0 \<and> uint (?d ! 12) \<in> {0, 1}"
      unfolding m header_ok_def using True by (cases "readPngUint31 ?d 0"; cases "readPngUint31 ?d 4") auto
    have nums: "off + 8 + 4 = off + 12" "off + 8 + 8 = off + 16" "off + 8 + 9 = off + 17" "off + 8 + 10 = off + 18" "off + 8 + 11 = off + 19"
      "off + 8 + 12 = off + 20" by simp_all
    show ?thesis
      unfolding scan_header_def chunk_at_def png_chunk.select_convs Let_def nums wh b ok True by simp
  qed
  then show ?thesis using True by (auto simp: png_check_def rbind_eq_Inr)
next
  case False
  then show ?thesis by (auto simp: scan_header_def png_check_def chunk_at_def header_ok_def)
qed

section \<open>Acceptance\<close>

lemma hasSignature_iff: "hasSignature input \<longleftrightarrow> (\<exists>x. input = signature @ x)"
proof
  assume "hasSignature input"
  then have "take (length signature) input = signature" by (intro nth_equalityI) (simp_all add: hasSignature_def list_all_iff)
  then have "input = signature @ drop (length signature) input" by (metis append_take_drop_id)
  then show "\<exists>x. input = signature @ x" by blast
next
  assume "\<exists>x. input = signature @ x"
  then show "hasSignature input" by (auto simp: hasSignature_def list_all_iff nth_append)
qed

definition after_header :: "raw_chunk \<Rightarrow> png_scan" where
  "after_header h = scan_start\<lparr>sc_chunks := [chunk_at 8 h], png_width := the (readPngUint31 (snd h) 0),
      png_height := the (readPngUint31 (snd h) 4), png_bitDepth := uint (snd h ! 8), png_colorType := uint (snd h ! 9),
      png_interlaceMethod := uint (snd h ! 12), sc_offset := 8 + 12 + length (snd h)\<rparr>"

definition first_chunk :: "bytes \<Rightarrow> raw_chunk \<Rightarrow> bool" where
  "first_chunk input h \<longleftrightarrow> raw_ok h \<and> 8 + 12 + length (snd h) \<le> length input \<and> subarray input 8 (8 + 12 + length (snd h)) = encode_chunk h"

lemma scan_start_fields: "sc_offset scan_start = 8" "sc_chunks scan_start = []"
  by (simp_all add: scan_start_def signature_def)

lemma start_step:
  assumes "first_chunk input h"
  shows "scan_chunk input (chunk_at 8 h) scan_start = Inr res \<longleftrightarrow> raw_name h = js ''IHDR'' \<and> header_ok (snd h) \<and> res = Inr (after_header h)"
proof -
  have "scan_header input (chunk_at 8 h) (scan_start\<lparr>sc_chunks := [chunk_at 8 h]\<rparr>) = Inr st \<longleftrightarrow>
      raw_name h = js ''IHDR'' \<and> header_ok (snd h) \<and> st = after_header h" for st
    using assms unfolding first_chunk_def after_header_def by (intro scan_header_Inr) blast+
  then show ?thesis by (auto simp: scan_chunk_def scan_start_fields rbind_eq_Inr)
qed

lemma start_tail:
  assumes "is_safe_integer (int (length input))" "first_chunk input h"
  shows "scan input (after_header h) = Inr r \<longleftrightarrow> (\<exists>cs. drop (8 + 12 + length (snd h)) input = concat (map encode_chunk cs) \<and>
      body_format (uint (snd h ! 9)) (uint (snd h ! 8)) cs \<and> r = inspection_of input h cs)"
proof -
  have "sc_offset (after_header h) = 8 + 12 + length (snd h)" "sc_chunks (after_header h) = [chunk_at 8 h]"
    "png_colorType (after_header h) = uint (snd h ! 9)" "png_bitDepth (after_header h) = uint (snd h ! 8)"
    "sawPalette (after_header h) = False" "sawImageData (after_header h) = False" "imageDataEnded (after_header h) = False"
    "scan_result input (after_header h\<lparr>sc_chunks := chunks\<rparr>) = \<lparr>png_width = the (readPngUint31 (snd h) 0),
       png_height = the (readPngUint31 (snd h) 4), png_bitDepth = uint (snd h ! 8), png_colorType = uint (snd h ! 9),
       png_interlaceMethod = uint (snd h ! 12), animation = inspectAnimation input chunks (the (readPngUint31 (snd h) 0))
       (the (readPngUint31 (snd h) 4)), png_chunks = chunks\<rparr>" for chunks
    by (simp_all add: after_header_def scan_start_def scan_result_def)
  note f = this
  have "scan input (after_header h) = Inr r \<longleftrightarrow> (\<exists>cs. tail_encodes input (after_header h) cs r)"
    using assms by (intro scan_tail) (simp_all add: f first_chunk_def)
  then show ?thesis by (simp only: tail_encodes_def f tail_ok_format inspection_of_def Let_def chunks_at.simps append_Cons append_Nil)
qed

lemma first_chunk_split:
  assumes "raw_ok h" "8 \<le> length input"
  shows "drop 8 input = concat (map encode_chunk (h # cs)) \<longleftrightarrow> first_chunk input h \<and>
     drop (8 + 12 + length (snd h)) input = concat (map encode_chunk cs)"
  using drop_encode_chunk [OF assms, of "concat (map encode_chunk cs)"] assms(1) by (auto simp: first_chunk_def)

lemma scan_from_start:
  assumes "is_safe_integer (int (length input))" "8 \<le> length input"
  shows "scan input scan_start = Inr r \<longleftrightarrow> (\<exists>h cs. drop 8 input = concat (map encode_chunk (h # cs)) \<and> raw_ok h \<and>
     raw_name h = js ''IHDR'' \<and> header_ok (snd h) \<and> body_format (uint (snd h ! 9)) (uint (snd h ! 8)) cs \<and> r = inspection_of input h cs)"
proof
  assume "scan input scan_start = Inr r"
  then obtain ck where ck: "read_chunk input 8 = Inr ck"
      "scan_chunk input ck scan_start = Inr (Inl r) \<or> (\<exists>st'. scan_chunk input ck scan_start = Inr (Inr st') \<and> scan input st' = Inr r)"
    unfolding scan_Inr [of input scan_start] scan_start_fields by blast
  then obtain h where h: "first_chunk input h" "ck = chunk_at 8 h" using read_chunk_Inr [OF assms(1)] by (auto simp: first_chunk_def)
  then have s: "raw_name h = js ''IHDR''" "header_ok (snd h)" "scan input (after_header h) = Inr r"
    using ck(2) start_step [OF h(1)] by auto
  then obtain cs where "drop (8 + 12 + length (snd h)) input = concat (map encode_chunk cs)"
      "body_format (uint (snd h ! 9)) (uint (snd h ! 8)) cs" "r = inspection_of input h cs" using start_tail [OF assms(1) h(1)] by blast
  then show "\<exists>h cs. drop 8 input = concat (map encode_chunk (h # cs)) \<and> raw_ok h \<and> raw_name h = js ''IHDR'' \<and> header_ok (snd h) \<and>
      body_format (uint (snd h ! 9)) (uint (snd h ! 8)) cs \<and> r = inspection_of input h cs"
    using first_chunk_split [OF _ assms(2)] h(1) s by (intro exI [of _ h] exI [of _ cs]) (simp add: first_chunk_def)
next
  assume "\<exists>h cs. drop 8 input = concat (map encode_chunk (h # cs)) \<and> raw_ok h \<and> raw_name h = js ''IHDR'' \<and> header_ok (snd h) \<and>
      body_format (uint (snd h ! 9)) (uint (snd h ! 8)) cs \<and> r = inspection_of input h cs"
  then obtain h cs where h: "drop 8 input = concat (map encode_chunk (h # cs))" "raw_ok h" "raw_name h = js ''IHDR''" "header_ok (snd h)"
      "body_format (uint (snd h ! 9)) (uint (snd h ! 8)) cs" "r = inspection_of input h cs" by blast
  then have first: "first_chunk input h" "drop (8 + 12 + length (snd h)) input = concat (map encode_chunk cs)"
    using first_chunk_split [OF h(2) assms(2)] by blast+
  then have "read_chunk input 8 = Inr (chunk_at 8 h)" using read_chunk_Inr [OF assms(1)] first(1) unfolding first_chunk_def by blast
  moreover have "scan_chunk input (chunk_at 8 h) scan_start = Inr (Inr (after_header h))" using start_step [OF first(1)] h(3,4) by blast
  moreover have "scan input (after_header h) = Inr r" using start_tail [OF assms(1) first(1)] first(2) h(5,6) by blast
  ultimately show "scan input scan_start = Inr r" unfolding scan_Inr [of input scan_start] scan_start_fields by blast
qed

section \<open>Frames\<close>

definition numbered_chunk :: "png_chunk \<Rightarrow> bool" where
  "numbered_chunk c \<longleftrightarrow> ck_type c = js ''fcTL'' \<or> ck_type c = js ''fdAT''"

definition frame_controls :: "png_chunk list \<Rightarrow> png_chunk list" where
  "frame_controls cs = filter (\<lambda>c. ck_type c = js ''fcTL'') cs"

lemma frame_chunks_numbered:
  assumes "frame_chunks input w h cs a = Some b"
  shows "map (\<lambda>c. readPngUint31 input (ck_dataOffset c)) (filter numbered_chunk cs) = map Some [expectedSequence a..<expectedSequence b] \<and>
     expectedSequence a \<le> expectedSequence b \<and> frames b = frames a + length (frame_controls cs) \<and>
     (\<forall>c \<in> set (frame_controls cs). \<exists>default. isValidFrameControl input (ck_dataOffset c) w h default)"
  using assms
proof (induction cs arbitrary: a)
  case (Cons c cs)
  then obtain m where m: "frame_chunk input w h c a = Some m" "frame_chunks input w h cs m = Some b" by (auto split: option.splits)
  note IH = Cons.IH [OF m(2)]
  have names: "js ''fcTL'' \<noteq> js ''fdAT''" "js ''fcTL'' \<noteq> js ''IDAT''" "js ''fdAT'' \<noteq> js ''IDAT''" by (simp_all add: js_def)
  consider "ck_type c = js ''fcTL''" | "ck_type c = js ''fdAT''" | "\<not> numbered_chunk c" by (auto simp: numbered_chunk_def)
  then show ?case
  proof cases
    case 1
    then have "readPngUint31 input (ck_dataOffset c) = Some (expectedSequence a)" "expectedSequence m = Suc (expectedSequence a)"
      "frames m = Suc (frames a)" "isValidFrameControl input (ck_dataOffset c) w h (\<not> imageDataSeen a)"
      using m(1) names by (auto simp: frame_chunk_def split: if_splits)
    then show ?thesis using IH 1 by (auto simp: numbered_chunk_def frame_controls_def upt_conv_Cons)
  next
    case 2
    then have "readPngUint31 input (ck_dataOffset c) = Some (expectedSequence a)" "expectedSequence m = Suc (expectedSequence a)"
      "frames m = frames a" using m(1) names by (auto simp: frame_chunk_def split: if_splits)
    then show ?thesis using IH 2 names by (auto simp: numbered_chunk_def frame_controls_def upt_conv_Cons)
  next
    case 3
    then have "expectedSequence m = expectedSequence a" "frames m = frames a"
      using m(1) by (auto simp: frame_chunk_def numbered_chunk_def split: if_splits)
    then show ?thesis using IH 3 by (auto simp: numbered_chunk_def frame_controls_def)
  qed
qed (simp add: frame_controls_def)

lemma valid_frames:
  assumes "inspectAnimation input cs w h = Some (ValidAnimation n plays)"
  shows "length (frame_controls cs) = n \<and> 0 < n \<and> (\<exists>k. map (\<lambda>c. readPngUint31 input (ck_dataOffset c)) (filter numbered_chunk cs) = map Some [0..<k]) \<and>
     (\<forall>c \<in> set (frame_controls cs). \<exists>default. isValidFrameControl input (ck_dataOffset c) w h default)"
proof -
  obtain b where b: "frame_chunks input w h cs \<lparr>expectedSequence = 0, frames = 0, imageDataSeen = False, currentFrameHasData = False,
      currentFrameUsesImageData = False\<rparr> = Some b" "frames b = n" "0 < n"
    using assms by (auto simp: inspectAnimation_def Let_def split: list.splits option.splits if_splits)
  from frame_chunks_numbered [OF b(1)] show ?thesis using b(2,3) by auto
qed

lemma inspectPng_Inr:
  "inspectPng input limit = Inr r \<longleftrightarrow> is_safe_integer limit \<and> 1 \<le> limit \<and> int (length input) \<le> limit \<and>
     (\<exists>h cs. input = encode_png (h # cs) \<and> raw_ok h \<and> raw_name h = js ''IHDR'' \<and> header_ok (snd h) \<and>
        body_format (uint (snd h ! 9)) (uint (snd h ! 8)) cs \<and> r = inspection_of input h cs)"
proof (cases "is_safe_integer limit \<and> 1 \<le> limit \<and> int (length input) \<le> limit \<and> hasSignature input")
  case True
  then obtain x where x: "input = signature @ x" using hasSignature_iff by blast
  have len: "length signature = 8" by (simp add: signature_def)
  have "is_safe_integer (int (length input))" using True by (auto simp: is_safe_integer_def max_safe_integer_def)
  moreover have "8 \<le> length input" "drop 8 input = x" using x len by simp_all
  ultimately have "scan input scan_start = Inr r \<longleftrightarrow> (\<exists>h cs. x = concat (map encode_chunk (h # cs)) \<and> raw_ok h \<and>
     raw_name h = js ''IHDR'' \<and> header_ok (snd h) \<and> body_format (uint (snd h ! 9)) (uint (snd h ! 8)) cs \<and> r = inspection_of input h cs)"
    using scan_from_start by blast
  moreover have "input = encode_png (h # cs) \<longleftrightarrow> x = concat (map encode_chunk (h # cs))" for h cs by (simp add: x encode_png_def)
  moreover have "inspectPng input limit = scan input scan_start" using True by (simp add: inspectPng_def captureLimits_def png_check_def)
  ultimately show ?thesis using True by simp
next
  case False
  then have "\<not> hasSignature input \<Longrightarrow> input \<noteq> encode_png cs" for cs using hasSignature_iff by (auto simp: encode_png_def)
  with False show ?thesis by (auto simp: inspectPng_def captureLimits_def png_check_def rbind_eq_Inr)
qed

section \<open>A sample\<close>

definition ihdr0 :: raw_chunk where
  "ihdr0 = ([73, 72, 68, 82], [0, 0, 0, 1, 0, 0, 0, 1, 8, 0, 0, 0, 0])"

definition actl0 :: raw_chunk where
  "actl0 = ([97, 99, 84, 76], [0, 0, 0, 1, 0, 0, 0, 0])"

definition fctl0 :: raw_chunk where
  "fctl0 = ([102, 99, 84, 76], [0, 0, 0, 0, 0, 0, 0, 1, 0, 0, 0, 1, 0, 0, 0, 0, 0, 0, 0, 0, 0, 0, 0, 0, 0, 0])"

definition idat0 :: raw_chunk where
  "idat0 = ([73, 68, 65, 84], [])"

definition iend0 :: raw_chunk where
  "iend0 = ([73, 69, 78, 68], [])"

lemmas sample_chunks = ihdr0_def actl0_def fctl0_def idat0_def iend0_def

lemma sample_names:
  "raw_name ihdr0 = js ''IHDR''" "raw_name actl0 = js ''acTL''" "raw_name fctl0 = js ''fcTL''" "raw_name idat0 = js ''IDAT''"
  "raw_name iend0 = js ''IEND''"
  by (simp_all add: sample_chunks raw_name_def js_def)

lemma sample_raw_ok: "raw_ok ihdr0" "raw_ok actl0" "raw_ok fctl0" "raw_ok idat0" "raw_ok iend0"
  by (simp_all add: sample_chunks raw_ok_def type_ok_def isAsciiLetter_def)

definition png0 :: bytes where
  "png0 = encode_png [ihdr0, actl0, fctl0, idat0, iend0]"

lemma sample_inspected: "inspectPng png0 1000 = Inr (inspection_of png0 ihdr0 [actl0, fctl0, idat0, iend0])"
proof -
  have "header_ok (snd ihdr0)"
    by (simp add: header_ok_def ihdr0_def readPngUint31_def readUint32_def byte_or_zero_def byte_at_def isValidBitDepth_def)
  moreover have "body_format (uint (snd ihdr0 ! 9)) (uint (snd ihdr0 ! 8)) [actl0, fctl0, idat0, iend0]"
    unfolding body_format_def
    by (intro exI [of _ "[actl0, fctl0]"] exI [of _ "[]"] exI [of _ "[idat0]"] exI [of _ iend0])
      (simp add: plain_chunk_def image_chunk_def end_chunk_def sample_names sample_raw_ok isCritical_def js_def, simp add: sample_chunks)
  moreover have "length png0 \<le> 1000" by (simp add: png0_def encode_png_def sample_raw_ok signature_def) (simp add: sample_chunks)
  ultimately show ?thesis
    unfolding inspectPng_Inr
    by (intro conjI exI [of _ ihdr0] exI [of _ "[actl0, fctl0, idat0, iend0]"])
      (simp_all add: is_safe_integer_def max_safe_integer_def png0_def sample_raw_ok sample_names)
qed

lemma sample_animation: "inspectAnimation png0 (chunks_at 8 [ihdr0, actl0, fctl0, idat0, iend0]) 1 1 = Some (ValidAnimation 1 0)"
proof -
  have bytes: "byte_or_zero png0 i = (if i < length png0 then unat (png0 ! i) else 0)"
    "byte_or_none png0 i = (if i < length png0 then uint (png0 ! i) else - 1)" for i
    by (simp_all add: byte_or_zero_def byte_or_none_def byte_at_def)
  let ?c = "\<lambda>c. be32 (crc32 (fst c @ snd c))"
  have "be32 (length (snd ihdr0)) @ fst ihdr0 = [0, 0, 0, 13, 73, 72, 68, 82]" "be32 (length (snd actl0)) @ fst actl0 = [0, 0, 0, 8, 97, 99, 84, 76]"
    "be32 (length (snd fctl0)) @ fst fctl0 = [0, 0, 0, 26, 102, 99, 84, 76]" by (simp_all add: be32_def sample_chunks)
  then have enc: "encode_chunk ihdr0 = [0, 0, 0, 13, 73, 72, 68, 82] @ snd ihdr0 @ ?c ihdr0"
    "encode_chunk actl0 = [0, 0, 0, 8, 97, 99, 84, 76] @ snd actl0 @ ?c actl0"
    "encode_chunk fctl0 = [0, 0, 0, 26, 102, 99, 84, 76] @ snd fctl0 @ ?c fctl0"
    unfolding encode_chunk_def by (metis append.assoc)+
  obtain c1 c2 c3 where png: "png0 = signature @ ([0, 0, 0, 13, 73, 72, 68, 82] @ snd ihdr0 @ c1) @
      ([0, 0, 0, 8, 97, 99, 84, 76] @ snd actl0 @ c2) @ ([0, 0, 0, 26, 102, 99, 84, 76] @ snd fctl0) @ c3"
      and len: "length c1 = 4" "length c2 = 4" "length c3 = 28"
  proof
    show "png0 = signature @ ([0, 0, 0, 13, 73, 72, 68, 82] @ snd ihdr0 @ ?c ihdr0) @ ([0, 0, 0, 8, 97, 99, 84, 76] @ snd actl0 @ ?c actl0) @
      ([0, 0, 0, 26, 102, 99, 84, 76] @ snd fctl0) @ ?c fctl0 @ encode_chunk idat0 @ encode_chunk iend0"
      by (simp add: png0_def encode_png_def enc)
    show "length (?c fctl0 @ encode_chunk idat0 @ encode_chunk iend0) = 28" using sample_raw_ok by simp (simp add: sample_chunks)
  qed simp_all
  then obtain a b c d e f g h where "c1 = [a, b, c, d]" "c2 = [e, f, g, h]"
    by (auto simp: length_Suc_conv numeral_eq_Suc)
  then have png: "png0 = [137, 80, 78, 71, 13, 10, 26, 10, 0, 0, 0, 13, 73, 72, 68, 82, 0, 0, 0, 1, 0, 0, 0, 1, 8, 0, 0, 0, 0, a, b, c, d,
      0, 0, 0, 8, 97, 99, 84, 76, 0, 0, 0, 1, 0, 0, 0, 0, e, f, g, h, 0, 0, 0, 26, 102, 99, 84, 76, 0, 0, 0, 0, 0, 0, 0, 1, 0, 0, 0, 1,
      0, 0, 0, 0, 0, 0, 0, 0, 0, 0, 0, 0, 0, 0] @ c3"
    by (simp add: png signature_def) (simp add: sample_chunks)
  have ulen: "length png0 = 115" by (simp add: png len)
  have nums: "readPngUint31 png0 41 = Some 1" "readPngUint31 png0 45 = Some 0" "readPngUint31 png0 61 = Some 0"
    "readPngUint31 png0 65 = Some 1" "readPngUint31 png0 69 = Some 1" "readPngUint31 png0 73 = Some 0" "readPngUint31 png0 77 = Some 0"
    by (simp_all add: readPngUint31_def readUint32_def bytes ulen) (simp_all add: png)
  have "byte_or_none png0 85 = 0" "byte_or_none png0 86 = 0" by (simp_all add: bytes ulen) (simp_all add: png)
  then have control: "isValidFrameControl png0 61 1 1 True" by (simp add: isValidFrameControl_def nums)
  have chunks: "chunks_at 8 [ihdr0, actl0, fctl0, idat0, iend0] =
      [\<lparr>ck_type = js ''IHDR'', ck_offset = 8, ck_dataOffset = 16, ck_dataLength = 13, ck_endOffset = 33\<rparr>,
       \<lparr>ck_type = js ''acTL'', ck_offset = 33, ck_dataOffset = 41, ck_dataLength = 8, ck_endOffset = 53\<rparr>,
       \<lparr>ck_type = js ''fcTL'', ck_offset = 53, ck_dataOffset = 61, ck_dataLength = 26, ck_endOffset = 91\<rparr>,
       \<lparr>ck_type = js ''IDAT'', ck_offset = 91, ck_dataOffset = 99, ck_dataLength = 0, ck_endOffset = 103\<rparr>,
       \<lparr>ck_type = js ''IEND'', ck_offset = 103, ck_dataOffset = 111, ck_dataLength = 0, ck_endOffset = 115\<rparr>]"
    by (simp add: chunk_at_def sample_names) (simp add: sample_chunks)
  show ?thesis
    unfolding chunks inspectAnimation_def
    by (simp add: js_def) (simp add: nums find_index_def frame_chunk_def js_def control control [unfolded One_nat_def])
qed

section \<open>Properties\<close>

text \<open>C23: PNG inspection accepts a file exactly when it is within the byte limit and is the signature followed by well-formed
  chunks that make up a PNG: a valid header, at most one palette, which indexed images need, before one run of image
  data, no unknown critical chunk, and an empty end chunk at the very end, each with the checksum of its type and data.
  What it reports of the header is what the file says, and the chunks are reported where they stand.\<close>

theorem png_accepts_format:
  "inspectPng input limit = Inr r \<longleftrightarrow> is_safe_integer limit \<and> 1 \<le> limit \<and> int (length input) \<le> limit \<and>
     (\<exists>h cs. input = encode_png (h # cs) \<and> raw_ok h \<and> raw_name h = js ''IHDR'' \<and> header_ok (snd h) \<and>
        body_format (uint (snd h ! 9)) (uint (snd h ! 8)) cs \<and> r = inspection_of input h cs)"
  by (rule inspectPng_Inr)

text \<open>C24: an animation is called valid only if it has as many frame controls as it declares, at least one, each within the
  canvas, and its frame controls and frame data carry the sequence numbers 0, 1, 2 and so on without gap or repetition.\<close>

theorem png_animation_frames:
  assumes "inspectPng input limit = Inr r" and "animation r = Some (ValidAnimation n plays)"
  shows "length (frame_controls (png_chunks r)) = n \<and> 0 < n \<and>
     (\<exists>k. map (\<lambda>c. readPngUint31 input (ck_dataOffset c)) (filter numbered_chunk (png_chunks r)) = map Some [0..<k]) \<and>
     (\<forall>c \<in> set (frame_controls (png_chunks r)). \<exists>default. isValidFrameControl input (ck_dataOffset c) (png_width r) (png_height r) default)"
proof -
  obtain h cs where "r = inspection_of input h cs" using assms(1) unfolding inspectPng_Inr by blast
  then have "inspectAnimation input (png_chunks r) (png_width r) (png_height r) = Some (ValidAnimation n plays)"
    using assms(2) by (simp add: inspection_of_def Let_def)
  then show ?thesis by (rule valid_frames)
qed

theorem png_animation_frames_witness: "length (frame_controls (chunks_at 8 [ihdr0, actl0, fctl0, idat0, iend0])) = 1"
proof -
  have "animation (inspection_of png0 ihdr0 [actl0, fctl0, idat0, iend0]) = Some (ValidAnimation 1 0)"
    using sample_animation
    by (simp add: inspection_of_def Let_def del: chunks_at.simps) (simp add: ihdr0_def readPngUint31_def readUint32_def byte_or_zero_def byte_at_def)
  from png_animation_frames [OF sample_inspected this] show ?thesis by (simp add: inspection_of_def Let_def)
qed

end
