(* ===== verification/Tool_Repeat.thy ===== *)
theory Tool_Repeat
  imports Json_Embed
begin

text \<open>
  packages/agent/src/exact-tool-repeat.ts: an agent that prepares the same tool call over and over is first advised and then
  stopped. The tool call objects of a message are compared by identity, so a call is a reference.
\<close>

section \<open>The policy\<close>

record tool_repeat_policy =
  advisoryThreshold :: int
  terminationThreshold :: int
  exemptToolNames :: "js_string list"

record tool_repeat_request =
  q_advisoryThreshold :: int
  q_terminationThreshold :: int
  q_exemptToolNames :: "js_string list option"

definition positiveSafeInteger :: "int \<Rightarrow> int result" where
  "positiveSafeInteger n = rbind (ensure (is_safe_integer n \<and> 1 \<le> n) TypeErr) (\<lambda>_. Inr n)"

text \<open>Every failure in the policy, that of an identifier included, becomes the one error of \<open>invalidPolicy\<close>.\<close>

fun capture_names :: "js_string list \<Rightarrow> js_string list \<Rightarrow> unit result" where
  "capture_names seen [] = Inr ()"
| "capture_names seen (name # names) =
     rbind (case assertOpaqueIdentifier name of Inl _ \<Rightarrow> Inl TypeErr | Inr _ \<Rightarrow> Inr ()) (\<lambda>_.
     rbind (ensure (name \<notin> set seen) TypeErr) (\<lambda>_. capture_names (name # seen) names))"

definition captureExactToolRepeatPolicy :: "tool_repeat_request \<Rightarrow> int option \<Rightarrow> tool_repeat_policy result" where
  "captureExactToolRepeatPolicy q maxTools =
     (case maxTools of
        None \<Rightarrow> Inl TypeErr
      | Some m \<Rightarrow>
          rbind (positiveSafeInteger (q_advisoryThreshold q)) (\<lambda>advisory.
          rbind (positiveSafeInteger (q_terminationThreshold q)) (\<lambda>termination.
          rbind (ensure (\<not> termination \<le> advisory) TypeErr) (\<lambda>_.
          let names = (case q_exemptToolNames q of None \<Rightarrow> [] | Some ns \<Rightarrow> ns) in
          rbind (ensure (is_safe_integer (int (length names)) \<and> int (length names) \<le> m) TypeErr) (\<lambda>_.
          rbind (capture_names [] names) (\<lambda>_.
          Inr \<lparr>advisoryThreshold = advisory, terminationThreshold = termination, exemptToolNames = sort names\<rparr>))))))"

text \<open>Binary search in the sorted names.\<close>

function search_name :: "js_string list \<Rightarrow> js_string \<Rightarrow> int \<Rightarrow> int \<Rightarrow> bool" where
  "search_name names v lower upper =
     (if lower \<le> upper then
        let middle = lower + (upper - lower) div 2;
            candidate = (if 0 \<le> middle \<and> middle < int (length names) then Some (names ! nat middle) else None) in
        if candidate = Some v then True
        else if (case candidate of None \<Rightarrow> False | Some c \<Rightarrow> c < v) then search_name names v (middle + 1) upper
        else search_name names v lower (middle - 1)
      else False)"
  by pat_completeness auto
termination
  by (relation "measure (\<lambda>(names, v, lower, upper). nat (upper - lower + 1))") auto

declare search_name.simps [simp del]

definition hasSortedName :: "js_string list \<Rightarrow> js_string \<Rightarrow> bool" where
  "hasSortedName names v = search_name names v 0 (int (length names) - 1)"

section \<open>Messages\<close>

datatype repeat_count = CountNumber int | CountText js_string

text \<open>A text of digits above the safe integers is not a safe number either once it was rounded.\<close>

definition canonicalPositiveSafeInteger :: "repeat_count \<Rightarrow> js_string result" where
  "canonicalPositiveSafeInteger c =
     (case c of
        CountNumber n \<Rightarrow> rbind (ensure (is_safe_integer n \<and> 1 \<le> n) TypeErr) (\<lambda>_. Inr (to_decimal (nat n)))
      | CountText s \<Rightarrow>
          rbind (ensure (is_positive_decimal s) TypeErr) (\<lambda>_.
          rbind (ensure (int (of_decimal s) \<le> max_safe_integer) TypeErr) (\<lambda>_. Inr s)))"

definition advisory_instruction :: js_string where
  "advisory_instruction = js ''Reassess the plan before repeating this prepared Tool call.''"

definition exactToolRepeatAdvisoryMessage :: "js_string \<Rightarrow> repeat_count \<Rightarrow> js_string result" where
  "exactToolRepeatAdvisoryMessage toolName c =
     rbind (assertOpaqueIdentifier toolName) (\<lambda>_.
     rbind (canonicalPositiveSafeInteger c) (\<lambda>n.
     canonicalizeJsonValue (of_json (JObj [(js ''kind'', JStr (js ''game-agent-policy'')), (js ''policy'', JStr (js ''exact-tool-repeat'')),
       (js ''action'', JStr (js ''advisory'')), (js ''toolName'', JStr toolName), (js ''consecutiveCount'', JStr n),
       (js ''instruction'', JStr advisory_instruction)]))))"

definition canonicalExactToolRepeatPolicyDefinition :: "tool_repeat_policy \<Rightarrow> js_string result" where
  "canonicalExactToolRepeatPolicyDefinition p =
     canonicalizeJsonValue (of_json (JObj [(js ''kind'', JStr (js ''opengameagent-policy-lineage'')),
       (js ''policy'', JStr (js ''exact-tool-repeat'')), (js ''version'', JStr (js ''1'')),
       (js ''advisoryThreshold'', JStr (to_decimal (nat (advisoryThreshold p)))),
       (js ''terminationThreshold'', JStr (to_decimal (nat (terminationThreshold p)))),
       (js ''exemptToolNames'', JArr (map JStr (exemptToolNames p))),
       (js ''providerContextTransform'', JObj [(js ''placement'', JStr (js ''append-after-host-transform'')), (js ''role'', JStr (js ''user'')),
         (js ''contentTemplate'', JObj [(js ''kind'', JStr (js ''game-agent-policy'')), (js ''policy'', JStr (js ''exact-tool-repeat'')),
           (js ''action'', JStr (js ''advisory'')), (js ''toolName'', JStr (js ''{event.toolName}'')),
           (js ''consecutiveCount'', JStr (js ''{event.consecutiveCount}'')), (js ''instruction'', JStr advisory_instruction)])])]))"

section \<open>The tracker\<close>

datatype repeat_action = Advisory | Terminated

record repeat_observation =
  ob_action :: "repeat_action option"
  ob_consecutiveCount :: int
  ob_block :: bool

record repeat_tracker =
  trackedToolName :: "js_string option"
  canonicalArguments :: "js_string option"
  consecutiveCount :: int
  advisory :: "(js_string \<times> int) option"
  terminated :: bool
  batchCalls :: "nat list"
  nextBatchCall :: nat

definition new_tracker :: repeat_tracker where
  "new_tracker = \<lparr>trackedToolName = None, canonicalArguments = None, consecutiveCount = 0, advisory = None, terminated = False,
     batchCalls = [], nextBatchCall = 0\<rparr>"

definition resetSequence :: "repeat_tracker \<Rightarrow> repeat_tracker" where
  "resetSequence t = t\<lparr>trackedToolName := None, canonicalArguments := None, consecutiveCount := 0, advisory := None\<rparr>"

definition reset_unfinished :: "repeat_tracker \<Rightarrow> repeat_tracker" where
  "reset_unfinished t = (if \<not> terminated t \<and> nextBatchCall t < length (batchCalls t) then resetSequence t else t)"

definition beginAssistantMessage :: "nat list \<Rightarrow> repeat_tracker \<Rightarrow> repeat_tracker" where
  "beginAssistantMessage toolCalls t = (reset_unfinished t)\<lparr>batchCalls := toolCalls, nextBatchCall := 0\<rparr>"

definition finishAssistantMessage :: "repeat_tracker \<Rightarrow> repeat_tracker" where
  "finishAssistantMessage t = (reset_unfinished t)\<lparr>batchCalls := [], nextBatchCall := 0\<rparr>"

text \<open>\<open>Array.indexOf\<close> from a start index.\<close>

definition index_from :: "nat \<Rightarrow> nat \<Rightarrow> nat list \<Rightarrow> nat option" where
  "index_from x start xs =
     (if x \<in> set (drop start xs) then Some (start + length (takeWhile (\<lambda>y. y \<noteq> x) (drop start xs))) else None)"

definition take_call :: "nat \<Rightarrow> repeat_tracker \<Rightarrow> repeat_tracker" where
  "take_call toolCall t =
     (let sourceIndex = index_from toolCall (nextBatchCall t) (batchCalls t);
          t1 = (if sourceIndex \<noteq> Some (nextBatchCall t) then resetSequence t else t) in
      t1\<lparr>nextBatchCall := (case sourceIndex of None \<Rightarrow> length (batchCalls t1) | Some i \<Rightarrow> i + 1)\<rparr>)"

definition count_call :: "tool_repeat_policy \<Rightarrow> js_string \<Rightarrow> js_string \<Rightarrow> repeat_tracker \<Rightarrow> repeat_tracker" where
  "count_call p toolName arguments t =
     (if trackedToolName t = Some toolName \<and> canonicalArguments t = Some arguments
      then t\<lparr>consecutiveCount := min (consecutiveCount t + 1) (terminationThreshold p)\<rparr>
      else t\<lparr>trackedToolName := Some toolName, canonicalArguments := Some arguments, consecutiveCount := 1, advisory := None\<rparr>)"

definition judge_count :: "tool_repeat_policy \<Rightarrow> js_string \<Rightarrow> repeat_tracker \<Rightarrow> repeat_tracker \<times> repeat_observation option" where
  "judge_count p toolName t =
     (if terminationThreshold p \<le> consecutiveCount t then
        (t\<lparr>terminated := True\<rparr>, Some \<lparr>ob_action = Some Terminated, ob_consecutiveCount = consecutiveCount t, ob_block = True\<rparr>)
      else if consecutiveCount t = advisoryThreshold p then
        (t\<lparr>advisory := Some (toolName, consecutiveCount t)\<rparr>,
         Some \<lparr>ob_action = Some Advisory, ob_consecutiveCount = consecutiveCount t, ob_block = False\<rparr>)
      else (t, None))"

definition observe ::
  "tool_repeat_policy \<Rightarrow> nat \<Rightarrow> js_string \<Rightarrow> js_value \<Rightarrow> repeat_tracker \<Rightarrow> repeat_tracker \<times> repeat_observation option result" where
  "observe p toolCall toolName argumentsValue t =
     (if terminated t then (t, Inr (Some \<lparr>ob_action = None, ob_consecutiveCount = consecutiveCount t, ob_block = True\<rparr>))
      else let t1 = take_call toolCall t in
        if hasSortedName (exemptToolNames p) toolName then (t1, Inr None)
        else commit t1 (canonicalizeJsonValue argumentsValue) (\<lambda>arguments.
          case judge_count p toolName (count_call p toolName arguments t1) of (t2, found) \<Rightarrow> (t2, Inr found)))"

definition reset_tracker :: "repeat_tracker \<Rightarrow> repeat_tracker" where
  "reset_tracker t = (resetSequence t)\<lparr>batchCalls := [], nextBatchCall := 0, terminated := False\<rparr>"

definition isTerminated :: "repeat_tracker \<Rightarrow> bool" where
  "isTerminated t = terminated t"

definition modelAdvisory :: "repeat_tracker \<Rightarrow> js_string option result" where
  "modelAdvisory t =
     (case advisory t of
        None \<Rightarrow> Inr None
      | Some (name, n) \<Rightarrow> rbind (exactToolRepeatAdvisoryMessage name (CountNumber n)) (\<lambda>m. Inr (Some m)))"

end
