(* ===== verification/Tool_Repeat_Spec.thy ===== *)
theory Tool_Repeat_Spec
  imports Tool_Repeat Samples
begin

text \<open>
  What the guard against exact tool repeats guarantees: exemptions are found in logarithmically many probes, a call
  is stopped only after the threshold of equal calls in a row, and such a row is advised and stopped at exactly the
  counts of the policy.
\<close>

section \<open>Exempt names\<close>

lemma search_name_iff:
  assumes "sorted names" "0 \<le> lower" "upper < int (length names)"
  shows "search_name names v lower upper \<longleftrightarrow> (\<exists>i. lower \<le> int i \<and> int i \<le> upper \<and> names ! i = v)"
  using assms
proof (induction names v lower upper rule: search_name.induct)
  case (1 names v lower upper)
  define m where "m = lower + (upper - lower) div 2"
  show ?case
  proof (cases "lower \<le> upper")
    case True
    then have m: "lower \<le> m" "m \<le> upper" "0 \<le> m" "m < int (length names)"
      using 1(4,5) by (auto simp: m_def)
    have eq: "search_name names v lower upper =
        (names ! nat m = v \<or> (if names ! nat m < v then search_name names v (m + 1) upper
           else search_name names v lower (m - 1)))"
      using True m by (subst search_name.simps) (simp add: m_def [symmetric] Let_def)
    have before: "names ! i \<le> names ! nat m" if "int i \<le> m" for i
      using that 1(3) m by (intro sorted_nth_mono) auto
    have after: "names ! nat m \<le> names ! i" if "m \<le> int i" "int i \<le> upper" for i
      using that 1(3,5) m by (intro sorted_nth_mono) auto
    have at: "\<exists>i. lower \<le> int i \<and> int i \<le> upper \<and> names ! i = v" if "names ! nat m = v"
      using that m by (intro exI [of _ "nat m"]) simp
    consider (hit) "names ! nat m = v" | (right) "names ! nat m < v" | (left) "v < names ! nat m"
      by fastforce
    then show ?thesis
    proof cases
      case hit
      with at eq show ?thesis by simp
    next
      case right
      have ih: "search_name names v (m + 1) upper \<longleftrightarrow> (\<exists>i. m + 1 \<le> int i \<and> int i \<le> upper \<and> names ! i = v)"
        using "1.IH"(1) [OF True m_def refl] right m 1(3-5) by simp
      have "m < int i" if "names ! i = v" for i
        using before [of i] right that by fastforce
      then have "m + 1 \<le> int i \<and> int i \<le> upper \<and> names ! i = v \<longleftrightarrow> lower \<le> int i \<and> int i \<le> upper \<and> names ! i = v" for i
        using m(1) by fastforce
      moreover have "names ! nat m \<noteq> v" using right by auto
      ultimately show ?thesis using eq right ih by simp
    next
      case left
      have ih: "search_name names v lower (m - 1) \<longleftrightarrow> (\<exists>i. lower \<le> int i \<and> int i \<le> m - 1 \<and> names ! i = v)"
        using "1.IH"(2) [OF True m_def refl] left m 1(3-5) by fastforce
      have "int i < m" if "names ! i = v" "int i \<le> upper" for i
        using after [of i] left that by fastforce
      then have "lower \<le> int i \<and> int i \<le> m - 1 \<and> names ! i = v \<longleftrightarrow> lower \<le> int i \<and> int i \<le> upper \<and> names ! i = v" for i
        using m(2) by fastforce
      moreover have "names ! nat m \<noteq> v" "\<not> names ! nat m < v" using left by auto
      ultimately show ?thesis using eq ih by simp
    qed
  next
    case False
    then show ?thesis by (subst search_name.simps) auto
  qed
qed

lemma hasSortedName_iff [simp]: "sorted names \<Longrightarrow> hasSortedName names v \<longleftrightarrow> v \<in> set names"
  by (auto simp: hasSortedName_def search_name_iff in_set_conv_nth)

text \<open>The loop of the search with a bound on its probes.\<close>

fun search_within :: "nat \<Rightarrow> js_string list \<Rightarrow> js_string \<Rightarrow> int \<Rightarrow> int \<Rightarrow> bool option" where
  "search_within k names v lower upper =
     (if upper < lower then Some False
      else case k of
        0 \<Rightarrow> None
      | Suc j \<Rightarrow>
          let middle = lower + (upper - lower) div 2;
              candidate = (if 0 \<le> middle \<and> middle < int (length names) then Some (names ! nat middle) else None) in
          if candidate = Some v then Some True
          else if (case candidate of None \<Rightarrow> False | Some c \<Rightarrow> c < v) then search_within j names v (middle + 1) upper
          else search_within j names v lower (middle - 1))"

declare search_within.simps [simp del]

lemma search_within_enough:
  "upper - lower + 1 < 2 ^ k \<Longrightarrow> search_within k names v lower upper = Some (search_name names v lower upper)"
proof (induction k arbitrary: lower upper)
  case 0
  then show ?case by (subst search_within.simps, subst search_name.simps) simp
next
  case (Suc k)
  show ?case
  proof (cases "upper < lower")
    case False
    let ?m = "lower + (upper - lower) div 2"
    have bounds: "upper - (?m + 1) + 1 < 2 ^ k" "(?m - 1) - lower + 1 < 2 ^ k"
      using Suc.prems by auto
    show ?thesis
      using False by (subst search_within.simps, subst search_name.simps)
        (simp add: Let_def Suc.IH [OF bounds(1)] Suc.IH [OF bounds(2)])
  qed (subst search_within.simps, subst search_name.simps, simp)
qed

lemma captured_policy:
  assumes "captureExactToolRepeatPolicy q m = Inr p"
  shows "1 \<le> advisoryThreshold p" "advisoryThreshold p < terminationThreshold p" "sorted (exemptToolNames p)"
    "set (exemptToolNames p) = set (case q_exemptToolNames q of None \<Rightarrow> [] | Some ns \<Rightarrow> ns)"
    "advisoryThreshold p = q_advisoryThreshold q" "terminationThreshold p = q_terminationThreshold q"
  using assms by (auto simp: captureExactToolRepeatPolicy_def positiveSafeInteger_def rbind_eq_Inr Let_def split: option.splits)

text \<open>C27: for every policy the service accepts, the binary search for an exempt tool name ends after at most k probes
  when there are fewer than 2^k exempt names, and it answers whether the request lists the name.\<close>

theorem exempt_search_terminates:
  assumes "captureExactToolRepeatPolicy q m = Inr p" and "length (exemptToolNames p) < 2 ^ k"
  shows "search_within k (exemptToolNames p) name 0 (int (length (exemptToolNames p)) - 1) =
      Some (hasSortedName (exemptToolNames p) name) \<and>
    (hasSortedName (exemptToolNames p) name \<longleftrightarrow> name \<in> set (case q_exemptToolNames q of None \<Rightarrow> [] | Some ns \<Rightarrow> ns))"
proof -
  have "int (length (exemptToolNames p)) - 1 - 0 + 1 < 2 ^ k" using assms(2) by (simp flip: of_nat_less_iff)
  from search_within_enough [OF this, of "exemptToolNames p" name]
  show ?thesis using captured_policy(3,4) [OF assms(1)] by (simp add: hasSortedName_def [symmetric])
qed

definition sample_request :: tool_repeat_request where
  "sample_request = \<lparr>q_advisoryThreshold = 2, q_terminationThreshold = 3, q_exemptToolNames = Some [js ''k'', js ''a'']\<rparr>"

definition sample_repeat_policy :: tool_repeat_policy where
  "sample_repeat_policy = \<lparr>advisoryThreshold = 2, terminationThreshold = 3, exemptToolNames = [js ''a'', js ''k'']\<rparr>"

lemma sample_name_order: "\<not> js ''k'' \<le> js ''a''" "js ''k'' \<noteq> js ''a''" "js ''t'' \<noteq> js ''a''" "js ''t'' \<noteq> js ''k''"
  by (simp_all add: js_def)

lemma sample_captured: "captureExactToolRepeatPolicy sample_request (Some 4) = Inr sample_repeat_policy"
  by (simp add: captureExactToolRepeatPolicy_def sample_request_def sample_repeat_policy_def positiveSafeInteger_def
      is_safe_integer_def max_safe_integer_def assertOpaqueIdentifier_def sample_name_order)

theorem exempt_search_terminates_witness:
  "search_within 2 (exemptToolNames sample_repeat_policy) (js ''k'') 0 (int (length (exemptToolNames sample_repeat_policy)) - 1) =
     Some True"
  using exempt_search_terminates [OF sample_captured, of 2 "js ''k''"]
  by (simp add: sample_request_def sample_repeat_policy_def)

section \<open>Runs of a tracker\<close>

text \<open>What an agent run does with its tracker, in order.\<close>

datatype repeat_event = AssistantMessage "nat list" | MessageFinished | PreparedCall nat js_string js_value | Restart

fun repeat_step ::
  "tool_repeat_policy \<Rightarrow> repeat_event \<Rightarrow> repeat_tracker \<Rightarrow> repeat_tracker \<times> repeat_observation option result" where
  "repeat_step p (AssistantMessage calls) t = (beginAssistantMessage calls t, Inr None)"
| "repeat_step p MessageFinished t = (finishAssistantMessage t, Inr None)"
| "repeat_step p (PreparedCall c name v) t = observe p c name v t"
| "repeat_step p Restart t = (reset_tracker t, Inr None)"

definition run_repeat :: "tool_repeat_policy \<Rightarrow> repeat_event list \<Rightarrow> repeat_tracker \<Rightarrow> repeat_tracker" where
  "run_repeat p es t = fold (\<lambda>e t. fst (repeat_step p e t)) es t"

text \<open>The calls a run has prepared since the last reset, newest first, exempt tools and unusable arguments left out.\<close>

fun log_call :: "tool_repeat_policy \<Rightarrow> repeat_event \<Rightarrow> (js_string \<times> js_string) list \<Rightarrow> (js_string \<times> js_string) list" where
  "log_call p (PreparedCall c name v) log =
     (case canonicalizeJsonValue v of
        Inl _ \<Rightarrow> log
      | Inr a \<Rightarrow> if name \<in> set (exemptToolNames p) then log else (name, a) # log)"
| "log_call p Restart log = []"
| "log_call p _ log = log"

definition call_log :: "tool_repeat_policy \<Rightarrow> repeat_event list \<Rightarrow> (js_string \<times> js_string) list" where
  "call_log p es = fold (log_call p) es []"

definition equal_calls_in_a_row :: "nat \<Rightarrow> (js_string \<times> js_string) list \<Rightarrow> bool" where
  "equal_calls_in_a_row n log \<longleftrightarrow> n \<le> length log \<and> (\<forall>c \<in> set (take n log). c = hd log)"

text \<open>While a run is not stopped, its count is the length of a row of equal calls at the head of the log.\<close>

definition tracker_follows :: "tool_repeat_policy \<Rightarrow> repeat_tracker \<Rightarrow> (js_string \<times> js_string) list \<Rightarrow> bool" where
  "tracker_follows p t log \<longleftrightarrow>
     (if terminated t then \<exists>k. equal_calls_in_a_row (nat (terminationThreshold p)) (drop k log)
      else 0 \<le> consecutiveCount t \<and> consecutiveCount t < terminationThreshold p \<and>
        (\<forall>n a. trackedToolName t = Some n \<longrightarrow> canonicalArguments t = Some a \<longrightarrow>
           take (nat (consecutiveCount t)) log = replicate (nat (consecutiveCount t)) (n, a)))"

lemma equal_calls_replicate: "take n log = replicate n c \<Longrightarrow> equal_calls_in_a_row n log"
proof -
  assume *: "take n log = replicate n c"
  then have "n \<le> length log" by (metis length_replicate length_take min.absorb_iff2 min.commute)
  moreover have "d = hd log" if "d \<in> set (take n log)" for d
  proof -
    have "0 < n" using that by (cases n) auto
    then have "hd log = hd (take n log)" by simp
    also have "\<dots> = c" using * \<open>0 < n\<close> by simp
    finally show ?thesis using that * by auto
  qed
  ultimately show ?thesis by (auto simp: equal_calls_in_a_row_def)
qed

lemma reset_follows:
  "\<not> terminated t \<Longrightarrow> 1 < terminationThreshold p \<Longrightarrow> tracker_follows p (resetSequence t) log"
  by (simp add: tracker_follows_def resetSequence_def)

lemma message_follows:
  assumes "tracker_follows p t log" "1 < terminationThreshold p"
  shows "tracker_follows p (beginAssistantMessage calls t) log" "tracker_follows p (finishAssistantMessage t) log"
  using assms reset_follows [of t p log]
  by (auto simp: beginAssistantMessage_def finishAssistantMessage_def reset_unfinished_def tracker_follows_def resetSequence_def)

lemma take_call_follows:
  assumes "tracker_follows p t log" "\<not> terminated t" "1 < terminationThreshold p"
  shows "tracker_follows p (take_call c t) log" "\<not> terminated (take_call c t)"
  using assms by (auto simp: take_call_def Let_def tracker_follows_def resetSequence_def)

lemma count_call_follows:
  assumes follows: "tracker_follows p t log" and live: "\<not> terminated t" and N: "1 < terminationThreshold p"
    and t': "t' = count_call p name a t"
  shows "take (nat (consecutiveCount t')) ((name, a) # log) = replicate (nat (consecutiveCount t')) (name, a)"
    "1 \<le> consecutiveCount t'" "consecutiveCount t' \<le> terminationThreshold p" "\<not> terminated t'"
    "trackedToolName t' = Some name" "canonicalArguments t' = Some a"
proof -
  have "0 \<le> consecutiveCount t" "consecutiveCount t < terminationThreshold p"
    using follows live by (auto simp: tracker_follows_def)
  moreover have "min (consecutiveCount t + 1) (terminationThreshold p) = consecutiveCount t + 1"
    using calculation by simp
  moreover have "nat (consecutiveCount t + 1) = Suc (nat (consecutiveCount t))" using calculation by simp
  ultimately show "take (nat (consecutiveCount t')) ((name, a) # log) = replicate (nat (consecutiveCount t')) (name, a)"
    "1 \<le> consecutiveCount t'" "consecutiveCount t' \<le> terminationThreshold p" "\<not> terminated t'"
    "trackedToolName t' = Some name" "canonicalArguments t' = Some a"
    using follows live N by (auto simp: t' count_call_def tracker_follows_def)
qed

lemma judged_follows:
  assumes "tracker_follows p t log" "\<not> terminated t" "1 < terminationThreshold p"
    and judged: "judge_count p name (count_call p name a t) = (t', ob)"
  shows "tracker_follows p t' ((name, a) # log)"
    "ob = Some b \<Longrightarrow> ob_block b \<Longrightarrow> equal_calls_in_a_row (nat (terminationThreshold p)) ((name, a) # log)"
proof -
  let ?t = "count_call p name a t"
  note facts = count_call_follows [OF assms(1-3) refl, of name a]
  have full: "equal_calls_in_a_row (nat (terminationThreshold p)) ((name, a) # log)"
    if "terminationThreshold p \<le> consecutiveCount ?t"
    using equal_calls_replicate [OF facts(1)] that facts(3) by simp
  show "tracker_follows p t' ((name, a) # log)"
    using judged facts full by (auto simp: judge_count_def tracker_follows_def intro!: exI [of _ 0] split: if_splits)
  show "equal_calls_in_a_row (nat (terminationThreshold p)) ((name, a) # log)" if "ob = Some b" "ob_block b"
    using judged full that by (auto simp: judge_count_def split: if_splits)
qed

lemma equal_calls_older: "\<exists>k. equal_calls_in_a_row n (drop k log) \<Longrightarrow> \<exists>k. equal_calls_in_a_row n (drop k (c # log))"
  by (metis drop_Suc_Cons)

lemma observe_follows:
  assumes follows: "tracker_follows p t log" and N: "1 < terminationThreshold p" and names: "sorted (exemptToolNames p)"
    and run: "observe p c name v t = (t', r)"
  shows "tracker_follows p t' (log_call p (PreparedCall c name v) log)"
    "r = Inr (Some ob) \<Longrightarrow> ob_block ob \<Longrightarrow>
       \<exists>k. equal_calls_in_a_row (nat (terminationThreshold p)) (drop k (log_call p (PreparedCall c name v) log)) \<and>
         (ob_action ob = Some Terminated \<longrightarrow> k = 0)"
proof -
  let ?log = "log_call p (PreparedCall c name v) log"
  have "tracker_follows p t' ?log \<and> (r = Inr (Some ob) \<longrightarrow> ob_block ob \<longrightarrow>
       (\<exists>k. equal_calls_in_a_row (nat (terminationThreshold p)) (drop k ?log) \<and> (ob_action ob = Some Terminated \<longrightarrow> k = 0)))"
  proof (cases "terminated t")
    case True
    then have old: "\<exists>k. equal_calls_in_a_row (nat (terminationThreshold p)) (drop k log)"
      using follows by (simp add: tracker_follows_def)
    then have "\<exists>k. equal_calls_in_a_row (nat (terminationThreshold p)) (drop k ?log)"
      using equal_calls_older [OF old] by (auto split: sum.splits)
    then show ?thesis using True run by (auto simp: observe_def tracker_follows_def)
  next
    case False
    note t1 = take_call_follows [OF follows False N, of c]
    show ?thesis
    proof (cases "name \<in> set (exemptToolNames p)")
      case True
      then show ?thesis using False run names t1(1) by (auto simp: observe_def Let_def split: sum.splits)
    next
      case counted: False
      show ?thesis
      proof (cases "canonicalizeJsonValue v")
        case (Inl e)
        then show ?thesis using False counted run names t1(1) by (auto simp: observe_def Let_def)
      next
        case (Inr a)
        obtain t2 found where j: "judge_count p name (count_call p name a (take_call c t)) = (t2, found)"
          by fastforce
        then have "t' = t2" "r = Inr found" "?log = (name, a) # log"
          using False counted run names Inr by (auto simp: observe_def Let_def)
        then show ?thesis using judged_follows [OF t1 N j] by (auto intro: exI [of _ 0])
      qed
    qed
  qed
  then show "tracker_follows p t' ?log"
    "r = Inr (Some ob) \<Longrightarrow> ob_block ob \<Longrightarrow>
       \<exists>k. equal_calls_in_a_row (nat (terminationThreshold p)) (drop k ?log) \<and> (ob_action ob = Some Terminated \<longrightarrow> k = 0)"
    by blast+
qed

lemma step_follows:
  assumes "tracker_follows p t log" "1 < terminationThreshold p" "sorted (exemptToolNames p)"
  shows "tracker_follows p (fst (repeat_step p e t)) (log_call p e log)"
proof (cases e)
  case (PreparedCall c name v)
  then show ?thesis using observe_follows(1) [OF assms, of c name v] by (cases "observe p c name v t") simp
next
  case Restart
  then show ?thesis using assms(2) by (simp add: reset_tracker_def resetSequence_def tracker_follows_def)
qed (simp_all add: assms message_follows)

lemma run_follows:
  assumes "1 < terminationThreshold p" "sorted (exemptToolNames p)"
  shows "tracker_follows p (run_repeat p es new_tracker) (call_log p es)"
proof (induction es rule: rev_induct)
  case Nil
  then show ?case using assms by (simp add: run_repeat_def call_log_def tracker_follows_def new_tracker_def)
next
  case (snoc e es)
  then show ?case using step_follows [OF _ assms, of "run_repeat p es new_tracker"] by (simp add: run_repeat_def call_log_def)
qed

lemma run_blocks:
  assumes "captureExactToolRepeatPolicy q m = Inr p"
    and "snd (repeat_step p (PreparedCall c name v) (run_repeat p es new_tracker)) = Inr (Some ob)" and "ob_block ob"
  shows "\<exists>k. equal_calls_in_a_row (nat (terminationThreshold p)) (drop k (call_log p (es @ [PreparedCall c name v]))) \<and>
    (ob_action ob = Some Terminated \<longrightarrow> k = 0)"
proof -
  have N: "1 < terminationThreshold p" "sorted (exemptToolNames p)" using captured_policy [OF assms(1)] by auto
  obtain t' r where "observe p c name v (run_repeat p es new_tracker) = (t', r)" by fastforce
  from observe_follows(2) [OF run_follows [OF N] N this, of ob] this assms(2,3) show ?thesis
    by (simp add: call_log_def)
qed

text \<open>C25: in every run of the agent under an accepted policy, a tool call is blocked only when since the last reset as
  many calls in a row as the termination threshold used the same tool with the same canonical arguments, exempt tools
  apart; the call that stops the run is the last of such a row.\<close>

theorem repeat_blocks_only_equal_calls:
  assumes "captureExactToolRepeatPolicy q m = Inr p"
    and "snd (repeat_step p (PreparedCall c name v) (run_repeat p es new_tracker)) = Inr (Some ob)" and "ob_block ob"
  shows "\<exists>k. equal_calls_in_a_row (nat (terminationThreshold p)) (drop k (call_log p (es @ [PreparedCall c name v]))) \<and>
    (ob_action ob = Some Terminated \<longrightarrow> k = 0)"
  by (rule run_blocks [OF assms])

section \<open>The same call again and again\<close>

text \<open>One call in a message of its own, and what the policy says of the n-th equal one.\<close>

definition single_call :: "js_string \<Rightarrow> js_value \<Rightarrow> nat \<Rightarrow> repeat_event list" where
  "single_call name v c = [AssistantMessage [c], PreparedCall c name v]"

definition due_observation :: "tool_repeat_policy \<Rightarrow> int \<Rightarrow> repeat_observation option" where
  "due_observation p n =
     (if n = advisoryThreshold p then Some \<lparr>ob_action = Some Advisory, ob_consecutiveCount = n, ob_block = False\<rparr>
      else if n < terminationThreshold p then None
      else if n = terminationThreshold p then Some \<lparr>ob_action = Some Terminated, ob_consecutiveCount = n, ob_block = True\<rparr>
      else Some \<lparr>ob_action = None, ob_consecutiveCount = terminationThreshold p, ob_block = True\<rparr>)"

definition repeated_state :: "tool_repeat_policy \<Rightarrow> js_string \<Rightarrow> js_string \<Rightarrow> nat \<Rightarrow> repeat_tracker \<Rightarrow> bool" where
  "repeated_state p name a n t \<longleftrightarrow>
     consecutiveCount t = min (int n) (terminationThreshold p) \<and> (terminated t \<longleftrightarrow> terminationThreshold p \<le> int n) \<and>
     (\<not> terminated t \<longrightarrow> nextBatchCall t = length (batchCalls t)) \<and>
     (0 < n \<longrightarrow> trackedToolName t = Some name \<and> canonicalArguments t = Some a) \<and> (n = 0 \<longrightarrow> trackedToolName t = None)"

lemma repeated_step:
  assumes p: "1 \<le> advisoryThreshold p" "advisoryThreshold p < terminationThreshold p" "sorted (exemptToolNames p)"
    and name: "name \<notin> set (exemptToolNames p)" and a: "canonicalizeJsonValue v = Inr a" and t: "repeated_state p name a n t"
    and run: "observe p c name v (beginAssistantMessage [c] t) = (t', r)"
  shows "repeated_state p name a (Suc n) t' \<and> r = Inr (due_observation p (int n + 1))"
proof (cases "terminated t")
  case True
  then show ?thesis using run t p
    by (auto simp: observe_def beginAssistantMessage_def reset_unfinished_def repeated_state_def due_observation_def)
next
  case False
  then have taken: "take_call c (beginAssistantMessage [c] t) = t\<lparr>batchCalls := [c], nextBatchCall := 1\<rparr>"
    using t by (simp add: take_call_def beginAssistantMessage_def reset_unfinished_def repeated_state_def index_from_def)
  have live: "\<not> terminated (beginAssistantMessage [c] t)"
    using False t by (simp add: beginAssistantMessage_def reset_unfinished_def repeated_state_def)
  obtain t2 ob where j: "judge_count p name (count_call p name a (t\<lparr>batchCalls := [c], nextBatchCall := 1\<rparr>)) = (t2, ob)"
    by fastforce
  have "t' = t2" "r = Inr ob"
    using run live taken p(3) name a j by (simp_all add: observe_def Let_def)
  moreover have "repeated_state p name a (Suc n) t2 \<and> ob = due_observation p (int n + 1)"
    using j t False p
    by (cases "n = 0") (auto simp: judge_count_def count_call_def repeated_state_def due_observation_def split: if_splits)
  ultimately show ?thesis by simp
qed

lemma repeated_run:
  assumes p: "1 \<le> advisoryThreshold p" "advisoryThreshold p < terminationThreshold p" "sorted (exemptToolNames p)"
    and name: "name \<notin> set (exemptToolNames p)" and a: "canonicalizeJsonValue v = Inr a"
  shows "repeated_state p name a (length cs) (run_repeat p (concat (map (single_call name v) cs)) new_tracker)"
proof (induction cs rule: rev_induct)
  case Nil
  then show ?case using p by (simp add: run_repeat_def repeated_state_def new_tracker_def)
next
  case (snoc c cs)
  let ?t = "run_repeat p (concat (map (single_call name v) cs)) new_tracker"
  obtain t' r where o: "observe p c name v (beginAssistantMessage [c] ?t) = (t', r)" by fastforce
  have "run_repeat p (concat (map (single_call name v) (cs @ [c]))) new_tracker = t'"
    using o by (simp add: run_repeat_def single_call_def [of name v c])
  with repeated_step [OF p name a snoc o] show ?case by simp
qed

lemma repeated_observation:
  assumes "captureExactToolRepeatPolicy q m = Inr p" "name \<notin> set (exemptToolNames p)" "canonicalizeJsonValue v = Inr a"
  shows "snd (repeat_step p (PreparedCall c name v)
      (run_repeat p (concat (map (single_call name v) cs) @ [AssistantMessage [c]]) new_tracker)) =
    Inr (due_observation p (int (length cs) + 1))"
proof -
  note p = captured_policy(1-3) [OF assms(1)]
  let ?t = "run_repeat p (concat (map (single_call name v) cs)) new_tracker"
  obtain t' r where o: "observe p c name v (beginAssistantMessage [c] ?t) = (t', r)" by fastforce
  from repeated_step [OF p assms(2,3) repeated_run [OF p assms(2,3)] o] o show ?thesis by (simp add: run_repeat_def)
qed

text \<open>C26: a tool that is not exempt and is called over and over with the same arguments, each call in a message of its
  own, is advised once, at exactly the advisory threshold, stopped at exactly the termination threshold, and blocked
  from then on; before the one and between the two nothing is said.\<close>

theorem repeat_stops_on_threshold:
  assumes "captureExactToolRepeatPolicy q m = Inr p" "name \<notin> set (exemptToolNames p)" "canonicalizeJsonValue v = Inr a"
  shows "snd (repeat_step p (PreparedCall c name v)
      (run_repeat p (concat (map (single_call name v) cs) @ [AssistantMessage [c]]) new_tracker)) =
    Inr (due_observation p (int (length cs) + 1))"
  by (rule repeated_observation [OF assms])

theorem repeat_stops_on_threshold_witness:
  "snd (repeat_step sample_repeat_policy (PreparedCall 3 (js ''t'') VNull)
     (run_repeat sample_repeat_policy (concat (map (single_call (js ''t'') VNull) [1, 2]) @ [AssistantMessage [3]]) new_tracker)) =
   Inr (Some \<lparr>ob_action = Some Terminated, ob_consecutiveCount = 3, ob_block = True\<rparr>)"
  using repeat_stops_on_threshold [OF sample_captured, of "js ''t''" VNull "canonical JNull" 3 "[1, 2]"]
    canonicalizeJsonValue_of_json [of JNull]
  by (simp add: sample_repeat_policy_def sample_name_order due_observation_def)

lemma sample_stop:
  "snd (repeat_step sample_repeat_policy (PreparedCall 3 (js ''t'') VNull)
     (run_repeat sample_repeat_policy (concat (map (single_call (js ''t'') VNull) [1, 2]) @ [AssistantMessage [3]]) new_tracker)) =
   Inr (Some \<lparr>ob_action = Some Terminated, ob_consecutiveCount = 3, ob_block = True\<rparr>)"
  using repeated_observation [OF sample_captured, of "js ''t''" VNull "canonical JNull" 3 "[1, 2]"]
    canonicalizeJsonValue_of_json [of JNull]
  by (simp add: sample_repeat_policy_def sample_name_order due_observation_def)

theorem repeat_blocks_only_equal_calls_witness:
  "equal_calls_in_a_row 3 (call_log sample_repeat_policy
     (concat (map (single_call (js ''t'') VNull) [1, 2]) @ [AssistantMessage [3]] @ [PreparedCall 3 (js ''t'') VNull]))"
  using repeat_blocks_only_equal_calls [OF sample_captured sample_stop]
  by (simp add: sample_repeat_policy_def)

end
