(* ===== verification/Signal.thy ===== *)
theory Signal
  imports Run_Authority Machine Js_Map
begin

text \<open>
  packages/extensions/src/signal-types.ts and signal-validation.ts: signals that report what happened in the game, waits
  for the first signal a selector matches, and the checks on both.
\<close>

section \<open>Data\<close>

text \<open>The partition of a signal has the fields of an authority partition.\<close>

record signal_generation =
  sg_ownerId :: js_string
  sg_timelineId :: js_string
  sg_generation :: js_string

record game_signal_key = signal_generation +
  sk_signalId :: js_string

record signal_sequence_key = signal_generation +
  sk_signalKey :: int

record signal_wait_key = signal_generation +
  wk_waitId :: js_string

text \<open>The payload of an input is any value, that of a draft a JSON value.\<close>

record 'p signal_draft =
  signalId :: js_string
  signalPartition :: authority_partition
  signalKind :: js_string
  signalPayload :: 'p
  signalTime :: game_time
  subjectIds :: "js_string list"
  causeIds :: "js_string list"
  signalRecordedAt :: js_string

record signal_record = "json signal_draft" +
  signalKey :: nat

record signal_wait_selector =
  kinds :: "js_string list"
  subjectIdsAny :: "js_string list option"
  afterSignalKey :: "int option"
  afterTickExclusive :: "js_string option"
  throughTickInclusive :: "js_string option"

datatype signal_wait_target = GoalStepTarget js_string js_string | CorrelationTarget js_string

record signal_wait_draft =
  waitId :: js_string
  waitPartition :: authority_partition
  selector :: signal_wait_selector
  waitTarget :: signal_wait_target
  waitRecordedAt :: js_string

datatype signal_wait_status = Waiting | Matched | WaitCancelled | WaitExpired

record signal_wait = signal_wait_draft +
  waitKey :: nat
  waitStatus :: signal_wait_status
  waitRevision :: js_string
  matchedSignalKey :: "nat option"
  waitCreatedAt :: js_string
  waitUpdatedAt :: js_string

record signal_limits =
  sl_maxPayloadBytes :: int
  maxSubjectsPerSignal :: int
  maxCausesPerSignal :: int
  maxSignalFilterKinds :: int
  maxWaitKinds :: int
  maxWaitSubjects :: int
  maxWaitMatchesPerSignal :: int
  maxSignalPageSize :: int
  maxWaitPageSize :: int
  maxExpireBatchSize :: int
  sl_maxPurgeBatchSize :: int

record signal_list_request = authority_partition +
  lq_kinds :: "js_string list option"
  lq_afterSignalKey :: "int option"
  lq_limit :: int

record signal_page =
  signal_records :: "signal_record list"
  nextAfterSignalKey :: "nat option"

record wait_list_request = authority_partition +
  wq_statuses :: "signal_wait_status list option"
  wq_afterWaitKey :: "int option"
  wq_limit :: int

record wait_page =
  wait_records :: "signal_wait list"
  nextAfterWaitKey :: "nat option"

definition generation_of :: "'a authority_partition_scheme \<Rightarrow> signal_generation" where
  "generation_of p = \<lparr>sg_ownerId = pt_ownerId p, sg_timelineId = pt_timelineId p, sg_generation = pt_generation p\<rparr>"

definition sameSignalGeneration :: "'a signal_generation_scheme \<Rightarrow> 'b signal_generation_scheme \<Rightarrow> bool" where
  "sameSignalGeneration a b \<longleftrightarrow> sg_ownerId a = sg_ownerId b \<and> sg_timelineId a = sg_timelineId b \<and> sg_generation a = sg_generation b"

section \<open>Checks\<close>

definition signal_limit :: "string \<Rightarrow> int \<Rightarrow> unit result" where
  "signal_limit name n =
     ensure (is_safe_integer n \<and> 1 \<le> n \<and> n < max_safe_integer) (SignalValidation (''invalid_signal_limit:'' @ name))"

definition validateSignalLimits :: "signal_limits \<Rightarrow> unit result" where
  "validateSignalLimits l = checks [signal_limit ''maxPayloadBytes'' (sl_maxPayloadBytes l),
     signal_limit ''maxSubjectsPerSignal'' (maxSubjectsPerSignal l), signal_limit ''maxCausesPerSignal'' (maxCausesPerSignal l),
     signal_limit ''maxSignalFilterKinds'' (maxSignalFilterKinds l), signal_limit ''maxWaitKinds'' (maxWaitKinds l),
     signal_limit ''maxWaitSubjects'' (maxWaitSubjects l), signal_limit ''maxWaitMatchesPerSignal'' (maxWaitMatchesPerSignal l),
     signal_limit ''maxSignalPageSize'' (maxSignalPageSize l), signal_limit ''maxWaitPageSize'' (maxWaitPageSize l),
     signal_limit ''maxExpireBatchSize'' (maxExpireBatchSize l), signal_limit ''maxPurgeBatchSize'' (sl_maxPurgeBatchSize l)]"

definition validateSignalDecimal :: "js_string \<Rightarrow> string \<Rightarrow> unit result" where
  "validateSignalDecimal s name = ensure (is_decimal s) (SignalValidation (''invalid_signal_'' @ name))"

definition validateSignalTimestamp :: "js_string \<Rightarrow> unit result" where
  "validateSignalTimestamp t =
     (case assertCanonicalTimestamp t of Inl _ \<Rightarrow> Inl (SignalValidation ''invalid_signal_timestamp'') | Inr u \<Rightarrow> Inr u)"

definition validateSignalCursor :: "int option \<Rightarrow> unit result" where
  "validateSignalCursor c = when_some c (\<lambda>n. ensure (0 \<le> n) (SignalValidation ''invalid_signal_cursor''))"

definition validatePositiveSignalKey :: "int \<Rightarrow> string \<Rightarrow> unit result" where
  "validatePositiveSignalKey n name = ensure (1 \<le> n) (SignalValidation (''invalid_signal_'' @ name))"

definition validateSignalPageLimit :: "int \<Rightarrow> int \<Rightarrow> string \<Rightarrow> unit result" where
  "validateSignalPageLimit n maximum code = ensure (is_safe_integer n \<and> 1 \<le> n \<and> n \<le> maximum) (SignalValidation code)"

definition compareSignalTicks :: "js_string \<Rightarrow> js_string \<Rightarrow> int result" where
  "compareSignalTicks left right =
     rbind (checks [validateSignalDecimal left ''tick'', validateSignalDecimal right ''tick'']) (\<lambda>_.
     Inr (if length left \<noteq> length right then (if length left < length right then - 1 else 1)
          else if left = right then 0 else if left < right then - 1 else 1))"

definition laterSignalTimestamp :: "js_string \<Rightarrow> js_string \<Rightarrow> js_string result" where
  "laterSignalTimestamp left right =
     rbind (checks [validateSignalTimestamp left, validateSignalTimestamp right]) (\<lambda>_.
     Inr (if left < right then right else left))"

definition normalizeSignalPartition :: "'a authority_partition_scheme \<Rightarrow> authority_partition result" where
  "normalizeSignalPartition p =
     rbind (checks [assertOpaqueIdentifier (pt_ownerId p), assertOpaqueIdentifier (pt_timelineId p),
       validateSignalDecimal (pt_generation p) ''generation'', when_some (pt_sessionId p) assertOpaqueIdentifier,
       when_some (pt_actorId p) assertOpaqueIdentifier]) (\<lambda>_. Inr (authority_partition.truncate p))"

definition validate_generation :: "'a signal_generation_scheme \<Rightarrow> unit result" where
  "validate_generation k = checks [assertOpaqueIdentifier (sg_ownerId k), assertOpaqueIdentifier (sg_timelineId k),
     validateSignalDecimal (sg_generation k) ''generation'']"

definition validateGameSignalKey :: "game_signal_key \<Rightarrow> unit result" where
  "validateGameSignalKey k = checks [validate_generation k, assertOpaqueIdentifier (sk_signalId k)]"

definition validateGameSignalSequenceKey :: "signal_sequence_key \<Rightarrow> unit result" where
  "validateGameSignalSequenceKey k = checks [validate_generation k, validatePositiveSignalKey (sk_signalKey k) ''signal_key'']"

definition validateSignalWaitKey :: "signal_wait_key \<Rightarrow> unit result" where
  "validateSignalWaitKey k = checks [validate_generation k, assertOpaqueIdentifier (wk_waitId k)]"

definition normalizeSignalGameTime :: "game_time \<Rightarrow> authority_partition \<Rightarrow> game_time result" where
  "normalizeSignalGameTime t p =
     rbind (checks [assertGameTime t, ensure (gt_timelineId t = pt_timelineId p \<and> gt_generation t = pt_generation p)
       (SignalValidation ''signal_time_partition_mismatch'')]) (\<lambda>_. Inr t)"

text \<open>A sorted list without a repetition has no equal neighbours.\<close>

fun neighbours_differ :: "js_string list \<Rightarrow> unit result" where
  "neighbours_differ (a # b # xs) =
     rbind (ensure (b \<noteq> a) (SignalValidation ''duplicate_signal_identifier'')) (\<lambda>_. neighbours_differ (b # xs))"
| "neighbours_differ xs = Inr ()"

definition normalizeIdentifierSet :: "js_string list \<Rightarrow> int \<Rightarrow> string \<Rightarrow> js_string list result" where
  "normalizeIdentifierSet values maximum code =
     rbind (ensure (int (length values) \<le> maximum) (SignalValidation code)) (\<lambda>_.
     rbind (check_all assertOpaqueIdentifier values) (\<lambda>_.
     let normalized = sort values in
     rbind (neighbours_differ normalized) (\<lambda>_. Inr normalized)))"

definition normalizeGameSignal :: "js_value signal_draft \<Rightarrow> signal_limits \<Rightarrow> json signal_draft result" where
  "normalizeGameSignal i l =
     rbind (assertOpaqueIdentifier (signalId i)) (\<lambda>_.
     rbind (normalizeSignalPartition (signalPartition i)) (\<lambda>p.
     rbind (assertOpaqueIdentifier (signalKind i)) (\<lambda>_.
     rbind (normalizeJsonValue (signalPayload i)) (\<lambda>body.
     rbind (canonicalizeJsonValue (of_json body)) (\<lambda>text.
     rbind (ensure (int (utf8_length text) \<le> sl_maxPayloadBytes l) (SignalValidation ''signal_payload_too_large'')) (\<lambda>_.
     rbind (normalizeSignalGameTime (signalTime i) p) (\<lambda>t.
     rbind (normalizeIdentifierSet (subjectIds i) (maxSubjectsPerSignal l) ''too_many_signal_subjects'') (\<lambda>subjects.
     rbind (normalizeIdentifierSet (causeIds i) (maxCausesPerSignal l) ''too_many_signal_causes'') (\<lambda>causes.
     rbind (validateSignalTimestamp (signalRecordedAt i)) (\<lambda>_.
     Inr \<lparr>signalId = signalId i, signalPartition = p, signalKind = signalKind i, signalPayload = body, signalTime = t,
          subjectIds = subjects, causeIds = causes, signalRecordedAt = signalRecordedAt i\<rparr>))))))))))"

definition tick_range_ok :: "js_string option \<Rightarrow> js_string option \<Rightarrow> unit result" where
  "tick_range_ok after through =
     (case (after, through) of
        (Some a, Some b) \<Rightarrow>
          rbind (compareSignalTicks a b) (\<lambda>c. ensure (\<not> 0 \<le> c) (SignalValidation ''invalid_signal_wait_tick_range''))
      | _ \<Rightarrow> Inr ())"

definition normalizeSignalWaitSelector :: "signal_wait_selector \<Rightarrow> signal_limits \<Rightarrow> signal_wait_selector result" where
  "normalizeSignalWaitSelector q l =
     rbind (normalizeIdentifierSet (kinds q) (maxWaitKinds l) ''too_many_signal_wait_kinds'') (\<lambda>ks.
     rbind (ensure (ks \<noteq> []) (SignalValidation ''empty_signal_wait_kinds'')) (\<lambda>_.
     rbind (case subjectIdsAny q of
              None \<Rightarrow> Inr None
            | Some xs \<Rightarrow> rbind (normalizeIdentifierSet xs (maxWaitSubjects l) ''too_many_signal_wait_subjects'') (\<lambda>ys. Inr (Some ys)))
       (\<lambda>subjects.
     rbind (checks [ensure (subjects \<noteq> Some []) (SignalValidation ''empty_signal_wait_subjects''),
         validateSignalCursor (afterSignalKey q),
         when_some (afterTickExclusive q) (\<lambda>t. validateSignalDecimal t ''after_tick''),
         when_some (throughTickInclusive q) (\<lambda>t. validateSignalDecimal t ''through_tick''),
         tick_range_ok (afterTickExclusive q) (throughTickInclusive q)]) (\<lambda>_.
     Inr \<lparr>kinds = ks, subjectIdsAny = subjects, afterSignalKey = afterSignalKey q,
          afterTickExclusive = afterTickExclusive q, throughTickInclusive = throughTickInclusive q\<rparr>))))"

fun normalizeSignalWaitTarget :: "signal_wait_target \<Rightarrow> signal_wait_target result" where
  "normalizeSignalWaitTarget (GoalStepTarget g st) =
     rbind (checks [assertOpaqueIdentifier g, assertOpaqueIdentifier st]) (\<lambda>_. Inr (GoalStepTarget g st))"
| "normalizeSignalWaitTarget (CorrelationTarget c) = rbind (assertOpaqueIdentifier c) (\<lambda>_. Inr (CorrelationTarget c))"

definition normalizeSignalWait :: "signal_wait_draft \<Rightarrow> signal_limits \<Rightarrow> signal_wait_draft result" where
  "normalizeSignalWait w l =
     rbind (assertOpaqueIdentifier (waitId w)) (\<lambda>_.
     rbind (normalizeSignalPartition (waitPartition w)) (\<lambda>p.
     rbind (normalizeSignalWaitSelector (selector w) l) (\<lambda>q.
     rbind (normalizeSignalWaitTarget (waitTarget w)) (\<lambda>t.
     rbind (validateSignalTimestamp (waitRecordedAt w)) (\<lambda>_.
     Inr \<lparr>waitId = waitId w, waitPartition = p, selector = q, waitTarget = t, waitRecordedAt = waitRecordedAt w\<rparr>)))))"

fun wait_status_name :: "signal_wait_status \<Rightarrow> js_string" where
  "wait_status_name Waiting = js ''waiting''"
| "wait_status_name Matched = js ''matched''"
| "wait_status_name WaitCancelled = js ''cancelled''"
| "wait_status_name WaitExpired = js ''expired''"

definition normalizeSignalStatusFilter :: "signal_wait_status list option \<Rightarrow> signal_wait_status list option result" where
  "normalizeSignalStatusFilter values =
     (case values of
        None \<Rightarrow> Inr None
      | Some vs \<Rightarrow>
          rbind (ensure (vs \<noteq> []) (SignalValidation ''empty_signal_wait_status_filter'')) (\<lambda>_.
          let normalized = sort_key wait_status_name vs in
          rbind (ensure (card (set normalized) = length normalized) (SignalValidation ''duplicate_signal_wait_status_filter''))
            (\<lambda>_. Inr (Some normalized))))"

definition normalizeSignalKindFilter :: "js_string list option \<Rightarrow> int \<Rightarrow> js_string list option result" where
  "normalizeSignalKindFilter values maximum =
     (case values of
        None \<Rightarrow> Inr None
      | Some vs \<Rightarrow>
          rbind (ensure (vs \<noteq> []) (SignalValidation ''empty_signal_filter'')) (\<lambda>_.
          rbind (ensure (int (length vs) \<le> maximum) (SignalValidation ''too_many_signal_filter_kinds'')) (\<lambda>_.
          rbind (check_all assertOpaqueIdentifier vs) (\<lambda>_.
          let normalized = sort vs in
          rbind (ensure (card (set normalized) = length normalized) (SignalValidation ''duplicate_signal_filter'')) (\<lambda>_.
          Inr (Some normalized))))))"

section \<open>Fingerprints\<close>

definition signal_json :: "json signal_draft \<Rightarrow> json" where
  "signal_json d = JObj [(js ''signalId'', JStr (signalId d)), (js ''partition'', authority_partition_json (signalPartition d)),
     (js ''kind'', JStr (signalKind d)), (js ''payload'', signalPayload d), (js ''gameTime'', game_time_json (signalTime d)),
     (js ''subjectIds'', JArr (map JStr (subjectIds d))), (js ''causeIds'', JArr (map JStr (causeIds d))),
     (js ''recordedAt'', JStr (signalRecordedAt d))]"

definition signalFingerprint :: "json signal_draft \<Rightarrow> js_string result" where
  "signalFingerprint d = canonicalizeJsonValue (of_json (signal_json d))"

definition strings_json :: "js_string list \<Rightarrow> json" where
  "strings_json xs = JArr (map JStr xs)"

definition cursor_json :: "int \<Rightarrow> json" where
  "cursor_json n = JStr (if n < 0 then 45 # to_decimal (nat (- n)) else to_decimal (nat n))"

definition selector_json :: "signal_wait_selector \<Rightarrow> json" where
  "selector_json q = JObj ([(js ''kinds'', strings_json (kinds q))] @ opt_member ''subjectIdsAny'' strings_json (subjectIdsAny q) @
     opt_member ''afterSignalKey'' cursor_json (afterSignalKey q) @ opt_member ''afterTickExclusive'' JStr (afterTickExclusive q) @
     opt_member ''throughTickInclusive'' JStr (throughTickInclusive q))"

fun target_json :: "signal_wait_target \<Rightarrow> json" where
  "target_json (GoalStepTarget g st) =
     JObj [(js ''kind'', JStr (js ''goal_step'')), (js ''goalId'', JStr g), (js ''stepId'', JStr st)]"
| "target_json (CorrelationTarget c) = JObj [(js ''kind'', JStr (js ''correlation'')), (js ''correlationId'', JStr c)]"

definition wait_json :: "signal_wait_draft \<Rightarrow> json" where
  "wait_json w = JObj [(js ''waitId'', JStr (waitId w)), (js ''partition'', authority_partition_json (waitPartition w)),
     (js ''selector'', selector_json (selector w)), (js ''target'', target_json (waitTarget w)),
     (js ''recordedAt'', JStr (waitRecordedAt w))]"

definition signalWaitFingerprint :: "signal_wait_draft \<Rightarrow> js_string result" where
  "signalWaitFingerprint w = canonicalizeJsonValue (of_json (wait_json w))"

section \<open>Matching\<close>

text \<open>The tests of the source run from left to right and stop at the first that fails.\<close>

definition and_then :: "bool result \<Rightarrow> bool result \<Rightarrow> bool result" where
  "and_then a b = rbind a (\<lambda>ok. if ok then b else Inr False)"

definition signalWaitMatches :: "'a signal_wait_draft_scheme \<Rightarrow> signal_record \<Rightarrow> bool result" where
  "signalWaitMatches w s =
     (let q = selector w; wp = waitPartition w; sp = signalPartition s in
      and_then (Inr (sameSignalGeneration (generation_of wp) (generation_of sp) \<and>
          (pt_sessionId wp = None \<or> pt_sessionId wp = pt_sessionId sp) \<and> (pt_actorId wp = None \<or> pt_actorId wp = pt_actorId sp) \<and>
          signalKind s \<in> set (kinds q) \<and>
          (case subjectIdsAny q of None \<Rightarrow> True | Some xs \<Rightarrow> list_ex (\<lambda>x. x \<in> set (subjectIds s)) xs) \<and>
          (case afterSignalKey q of None \<Rightarrow> True | Some n \<Rightarrow> n < int (signalKey s))))
       (and_then (case afterTickExclusive q of
            None \<Rightarrow> Inr True | Some t \<Rightarrow> rbind (compareSignalTicks (tick (signalTime s)) t) (\<lambda>c. Inr (0 < c)))
         (case throughTickInclusive q of
            None \<Rightarrow> Inr True | Some t \<Rightarrow> rbind (compareSignalTicks (tick (signalTime s)) t) (\<lambda>c. Inr (c \<le> 0)))))"

end
