(* ===== verification/Signal_Store.thy ===== *)
theory Signal_Store
  imports Signal
begin

text \<open>
  The classes InMemorySignalStore of packages/extensions/src/in-memory-signal-store.ts and SignalService of
  signal-service.ts. A store call runs to its end without awaiting; the service checks its arguments and calls the store
  once, except for a cancellation, which reads the wait, awaits it and then cancels.
\<close>

record signal_store =
  signals :: "(js_string, signal_record) js_map"
  signalFingerprints :: "(js_string, js_string) js_map"
  waits :: "(js_string, signal_wait) js_map"
  waitFingerprints :: "(js_string, js_string) js_map"
  nextSignalKey :: nat
  nextWaitKey :: nat

definition empty_signal_store :: signal_store where
  "empty_signal_store = \<lparr>signals = [], signalFingerprints = [], waits = [], waitFingerprints = [], nextSignalKey = 1, nextWaitKey = 1\<rparr>"

text \<open>The map keys of signals and waits: the parts joined with the NUL character.\<close>

definition signalMapKey :: "'a signal_generation_scheme \<Rightarrow> js_string \<Rightarrow> js_string" where
  "signalMapKey g i = sg_ownerId g @ 0 # sg_timelineId g @ 0 # sg_generation g @ 0 # i"

definition waitMapKey :: "'a signal_generation_scheme \<Rightarrow> js_string \<Rightarrow> js_string" where
  "waitMapKey g i = sg_ownerId g @ 0 # sg_timelineId g @ 0 # sg_generation g @ 0 # i"

text \<open>\<open>filter\<close> with a test that may throw, and \<open>slice (0, n)\<close>.\<close>

fun filter_checked :: "('a \<Rightarrow> bool result) \<Rightarrow> 'a list \<Rightarrow> 'a list result" where
  "filter_checked f [] = Inr []"
| "filter_checked f (x # xs) =
     rbind (f x) (\<lambda>b. rbind (filter_checked f xs) (\<lambda>ys. Inr (if b then x # ys else ys)))"

definition first_items :: "int \<Rightarrow> 'a list \<Rightarrow> 'a list" where
  "first_items n xs = (if 0 \<le> n then take (nat n) xs else take (length xs - nat (- n)) xs)"

definition matchedWaits :: "nat \<Rightarrow> signal_store \<Rightarrow> signal_wait list" where
  "matchedWaits n s = sort_key waitKey (filter (\<lambda>w. matchedSignalKey w = Some n) (js_values (waits s)))"

definition matchedWaitIds :: "nat \<Rightarrow> signal_store \<Rightarrow> js_string list" where
  "matchedWaitIds n s = map waitId (matchedWaits n s)"

section \<open>Signals\<close>

definition signal_of :: "json signal_draft \<Rightarrow> nat \<Rightarrow> signal_record" where
  "signal_of d n = signal_draft.extend d (signal_record.fields n)"

definition matched_wait :: "signal_record \<Rightarrow> signal_wait \<Rightarrow> signal_wait result" where
  "matched_wait x w =
     rbind (bigint_succ (waitRevision w)) (\<lambda>n.
     rbind (laterSignalTimestamp (waitUpdatedAt w) (signalRecordedAt x)) (\<lambda>t.
     Inr (w\<lparr>waitStatus := Matched, matchedSignalKey := Some (signalKey x), waitRevision := n, waitUpdatedAt := t\<rparr>)))"

text \<open>The waits are replaced one after the other; a throw leaves the ones already replaced.\<close>

fun replace_waits ::
  "(signal_wait \<Rightarrow> signal_wait result) \<Rightarrow> (js_string \<times> signal_wait) list \<Rightarrow> signal_store \<Rightarrow> signal_store \<times> unit result" where
  "replace_waits f [] s = (s, Inr ())"
| "replace_waits f ((k, w) # es) s =
     commit s (f w) (\<lambda>w'. replace_waits f es (s\<lparr>waits := js_set k w' (waits s)\<rparr>))"

definition waits_matching :: "signal_record \<Rightarrow> signal_store \<Rightarrow> (js_string \<times> signal_wait) list result" where
  "waits_matching x s =
     rbind (filter_checked (\<lambda>(k, w). if waitStatus w = Waiting then signalWaitMatches w x else Inr False) (waits s))
       (\<lambda>es. Inr (sort_key (\<lambda>(k, w). waitKey w) es))"

definition record_signal ::
  "json signal_draft \<Rightarrow> int \<Rightarrow> signal_store \<Rightarrow> signal_store \<times> (signal_record \<times> js_string list) result" where
  "record_signal d maxMatches s =
     (let key = signalMapKey (generation_of (signalPartition d)) (signalId d) in
      case js_get (signals s) key of
        Some existing \<Rightarrow>
          (s, rbind (signalFingerprint d) (\<lambda>print.
              rbind (ensure (js_get (signalFingerprints s) key = Some print) SignalConflict) (\<lambda>_.
              let ids = matchedWaitIds (signalKey existing) s in
              rbind (ensure (int (length ids) \<le> maxMatches) SignalWaitFanout) (\<lambda>_. Inr (existing, ids)))))
      | None \<Rightarrow>
          let x = signal_of d (nextSignalKey s) in
          commit s (waits_matching x s) (\<lambda>es.
          commit s (ensure (int (length es) \<le> maxMatches) SignalWaitFanout) (\<lambda>_.
          let s1 = s\<lparr>nextSignalKey := nextSignalKey s + 1, signals := js_set key x (signals s)\<rparr> in
          commit s1 (signalFingerprint d) (\<lambda>print.
          case replace_waits (matched_wait x) es (s1\<lparr>signalFingerprints := js_set key print (signalFingerprints s1)\<rparr>) of
            (s2, r) \<Rightarrow> (s2, rbind r (\<lambda>_. Inr (x, map (\<lambda>(k, w). waitId w) es)))))))"

definition get_signal :: "game_signal_key \<Rightarrow> signal_store \<Rightarrow> signal_record option" where
  "get_signal k s = js_get (signals s) (signalMapKey k (sk_signalId k))"

definition getSignalByKey :: "signal_sequence_key \<Rightarrow> signal_store \<Rightarrow> signal_record option" where
  "getSignalByKey k s =
     find (\<lambda>x. int (signalKey x) = sk_signalKey k \<and> sameSignalGeneration (generation_of (signalPartition x)) k) (js_values (signals s))"

definition in_request :: "'a authority_partition_scheme \<Rightarrow> authority_partition \<Rightarrow> bool" where
  "in_request q p \<longleftrightarrow> sameSignalGeneration (generation_of p) (generation_of q) \<and>
     (pt_sessionId q = None \<or> pt_sessionId p = pt_sessionId q) \<and> (pt_actorId q = None \<or> pt_actorId p = pt_actorId q)"

text \<open>A page, and the cursor of the next one when more matches than the page holds.\<close>

definition next_key :: "('a \<Rightarrow> nat) \<Rightarrow> 'a list \<Rightarrow> 'a list \<Rightarrow> nat option" where
  "next_key f matches selected =
     (if length selected < length matches \<and> selected \<noteq> [] then Some (f (last selected)) else None)"

definition listSignals :: "signal_list_request \<Rightarrow> signal_store \<Rightarrow> signal_page" where
  "listSignals q s =
     (let matches = sort_key signalKey (filter (\<lambda>x. in_request q (signalPartition x) \<and>
            (case lq_kinds q of None \<Rightarrow> True | Some ks \<Rightarrow> signalKind x \<in> set ks) \<and>
            (case lq_afterSignalKey q of None \<Rightarrow> True | Some n \<Rightarrow> n < int (signalKey x))) (js_values (signals s)));
          selected = first_items (lq_limit q) matches in
      \<lparr>signal_records = selected, nextAfterSignalKey = next_key signalKey matches selected\<rparr>)"

section \<open>Waits\<close>

definition signals_matching :: "signal_wait_draft \<Rightarrow> signal_store \<Rightarrow> signal_record list result" where
  "signals_matching d s = rbind (filter_checked (signalWaitMatches d) (js_values (signals s))) (\<lambda>xs. Inr (sort_key signalKey xs))"

definition wait_of :: "signal_wait_draft \<Rightarrow> nat \<Rightarrow> signal_record option \<Rightarrow> js_string \<Rightarrow> signal_wait" where
  "wait_of d n found at = signal_wait_draft.extend d (signal_wait.fields n (if found = None then Waiting else Matched) (js ''1'')
     (map_option signalKey found) (waitRecordedAt d) at)"

definition registerWait :: "signal_wait_draft \<Rightarrow> int \<Rightarrow> signal_store \<Rightarrow> signal_store \<times> signal_wait result" where
  "registerWait d maxMatches s =
     (let key = waitMapKey (generation_of (waitPartition d)) (waitId d) in
      case js_get (waits s) key of
        Some existing \<Rightarrow>
          (s, rbind (signalWaitFingerprint d) (\<lambda>print.
              rbind (ensure (js_get (waitFingerprints s) key = Some print) SignalWaitConflict) (\<lambda>_. Inr existing)))
      | None \<Rightarrow>
          commit s (signals_matching d s) (\<lambda>xs.
          let found = (case xs of [] \<Rightarrow> None | x # _ \<Rightarrow> Some x) in
          commit s (case found of
              None \<Rightarrow> Inr ()
            | Some x \<Rightarrow> ensure (\<not> maxMatches \<le> int (length (matchedWaitIds (signalKey x) s))) SignalWaitFanout) (\<lambda>_.
          commit s (case found of
              None \<Rightarrow> Inr (waitRecordedAt d)
            | Some x \<Rightarrow> laterSignalTimestamp (waitRecordedAt d) (signalRecordedAt x)) (\<lambda>at.
          let w = wait_of d (nextWaitKey s) found at;
              s1 = s\<lparr>nextWaitKey := nextWaitKey s + 1, waits := js_set key w (waits s)\<rparr> in
          commit s1 (signalWaitFingerprint d) (\<lambda>print.
          (s1\<lparr>waitFingerprints := js_set key print (waitFingerprints s1)\<rparr>, Inr w))))))"

definition getWait :: "signal_wait_key \<Rightarrow> signal_store \<Rightarrow> signal_wait option" where
  "getWait k s = js_get (waits s) (waitMapKey k (wk_waitId k))"

definition listWaits :: "wait_list_request \<Rightarrow> signal_store \<Rightarrow> wait_page result" where
  "listWaits q s =
     rbind (normalizeSignalStatusFilter (wq_statuses q)) (\<lambda>sts.
     let matches = sort_key waitKey (filter (\<lambda>w. in_request q (waitPartition w) \<and>
            (case sts of None \<Rightarrow> True | Some xs \<Rightarrow> waitStatus w \<in> set xs) \<and>
            (case wq_afterWaitKey q of None \<Rightarrow> True | Some n \<Rightarrow> n < int (waitKey w))) (js_values (waits s)));
         selected = first_items (wq_limit q) matches in
     Inr \<lparr>wait_records = selected, nextAfterWaitKey = next_key waitKey matches selected\<rparr>)"

definition ended_wait :: "signal_wait_status \<Rightarrow> js_string \<Rightarrow> signal_wait \<Rightarrow> signal_wait result" where
  "ended_wait st at w =
     rbind (bigint_succ (waitRevision w)) (\<lambda>n.
     rbind (laterSignalTimestamp (waitUpdatedAt w) at) (\<lambda>t.
     Inr (w\<lparr>waitStatus := st, waitRevision := n, waitUpdatedAt := t\<rparr>)))"

definition cancelWait :: "signal_wait_key \<Rightarrow> js_string \<Rightarrow> js_string \<Rightarrow> signal_store \<Rightarrow> signal_store \<times> signal_wait result" where
  "cancelWait k expectedRevision at s =
     (let key = waitMapKey k (wk_waitId k) in
      case js_get (waits s) key of
        None \<Rightarrow> (s, Inl SignalWaitNotFound)
      | Some w \<Rightarrow>
          commit s (checks [ensure (waitRevision w = expectedRevision) SignalWaitRevisionConflict,
              ensure (waitStatus w = Waiting) SignalWaitTerminal]) (\<lambda>_.
          commit s (ended_wait WaitCancelled at w) (\<lambda>w'. (s\<lparr>waits := js_set key w' (waits s)\<rparr>, Inr w'))))"

definition due_wait :: "signal_generation \<Rightarrow> js_string \<Rightarrow> signal_wait \<Rightarrow> bool result" where
  "due_wait g through w =
     (if waitStatus w = Waiting \<and> sameSignalGeneration (generation_of (waitPartition w)) g
      then case throughTickInclusive (selector w) of
             None \<Rightarrow> Inr False | Some t \<Rightarrow> rbind (compareSignalTicks t through) (\<lambda>c. Inr (c \<le> 0))
      else Inr False)"

definition expireWaits :: "signal_generation \<Rightarrow> js_string \<Rightarrow> js_string \<Rightarrow> int \<Rightarrow> signal_store \<Rightarrow> signal_store \<times> nat list result" where
  "expireWaits g through at limit s =
     commit s (filter_checked (\<lambda>(k, w). due_wait g through w) (waits s)) (\<lambda>es.
     let selected = first_items limit (sort_key (\<lambda>(k, w). waitKey w) es) in
     case replace_waits (ended_wait WaitExpired at) selected s of
       (s1, r) \<Rightarrow> (s1, rbind r (\<lambda>_. Inr (map (\<lambda>(k, w). waitKey w) selected))))"

definition purge_waits :: "signal_generation \<Rightarrow> js_string \<Rightarrow> int \<Rightarrow> signal_store \<Rightarrow> signal_store \<times> nat list" where
  "purge_waits g before limit s =
     (let selected = first_items limit (sort_key (\<lambda>(k, w). waitKey w) (filter (\<lambda>(k, w). waitStatus w \<noteq> Waiting \<and>
            sameSignalGeneration (generation_of (waitPartition w)) g \<and> waitUpdatedAt w < before) (waits s)));
          ks = map fst selected in
      (s\<lparr>waits := fold js_delete ks (waits s), waitFingerprints := fold js_delete ks (waitFingerprints s)\<rparr>,
       map (\<lambda>(k, w). waitKey w) selected))"

definition referenced_signals :: "signal_store \<Rightarrow> nat list" where
  "referenced_signals s = List.map_filter matchedSignalKey (js_values (waits s))"

definition purge_signals :: "signal_generation \<Rightarrow> js_string \<Rightarrow> int \<Rightarrow> signal_store \<Rightarrow> signal_store \<times> nat list" where
  "purge_signals g before limit s =
     (let selected = first_items limit (sort_key (\<lambda>(k, x). signalKey x) (filter (\<lambda>(k, x).
            sameSignalGeneration (generation_of (signalPartition x)) g \<and> signalRecordedAt x < before \<and>
            signalKey x \<notin> set (referenced_signals s)) (signals s)));
          ks = map fst selected in
      (s\<lparr>signals := fold js_delete ks (signals s), signalFingerprints := fold js_delete ks (signalFingerprints s)\<rparr>,
       map (\<lambda>(k, x). signalKey x) selected))"

section \<open>The service\<close>

definition service_record ::
  "signal_limits \<Rightarrow> js_value signal_draft \<Rightarrow> signal_store \<Rightarrow> signal_store \<times> (signal_record \<times> js_string list) result" where
  "service_record l i s = commit s (normalizeGameSignal i l) (\<lambda>d. record_signal d (maxWaitMatchesPerSignal l) s)"

definition service_get_signal :: "game_signal_key \<Rightarrow> signal_store \<Rightarrow> signal_record option result" where
  "service_get_signal k s = rbind (validateGameSignalKey k) (\<lambda>_. Inr (get_signal k s))"

definition service_signal_by_key :: "signal_sequence_key \<Rightarrow> signal_store \<Rightarrow> signal_record option result" where
  "service_signal_by_key k s = rbind (validateGameSignalSequenceKey k) (\<lambda>_. Inr (getSignalByKey k s))"

definition service_list_signals :: "signal_limits \<Rightarrow> signal_list_request \<Rightarrow> signal_store \<Rightarrow> signal_page result" where
  "service_list_signals l q s =
     rbind (normalizeSignalPartition q) (\<lambda>p.
     rbind (normalizeSignalKindFilter (lq_kinds q) (maxSignalFilterKinds l)) (\<lambda>ks.
     rbind (checks [validateSignalCursor (lq_afterSignalKey q),
         validateSignalPageLimit (lq_limit q) (maxSignalPageSize l) ''invalid_signal_page_limit'']) (\<lambda>_.
     Inr (listSignals (q\<lparr>lq_kinds := ks\<rparr>) s))))"

definition service_register :: "signal_limits \<Rightarrow> signal_wait_draft \<Rightarrow> signal_store \<Rightarrow> signal_store \<times> signal_wait result" where
  "service_register l i s = commit s (normalizeSignalWait i l) (\<lambda>d. registerWait d (maxWaitMatchesPerSignal l) s)"

definition service_get_wait :: "signal_wait_key \<Rightarrow> signal_store \<Rightarrow> signal_wait option result" where
  "service_get_wait k s = rbind (validateSignalWaitKey k) (\<lambda>_. Inr (getWait k s))"

definition service_list_waits :: "signal_limits \<Rightarrow> wait_list_request \<Rightarrow> signal_store \<Rightarrow> wait_page result" where
  "service_list_waits l q s =
     rbind (normalizeSignalPartition q) (\<lambda>p.
     rbind (normalizeSignalStatusFilter (wq_statuses q)) (\<lambda>sts.
     rbind (checks [validateSignalCursor (wq_afterWaitKey q),
         validateSignalPageLimit (wq_limit q) (maxWaitPageSize l) ''invalid_signal_wait_page_limit'']) (\<lambda>_.
     listWaits (q\<lparr>wq_statuses := sts\<rparr>) s)))"

text \<open>While the cancellation awaits the wait it read, other calls may run: \<open>waiting\<close> gives what they make of the store.\<close>

definition service_cancel ::
  "(signal_store \<Rightarrow> signal_store) \<Rightarrow> signal_wait_key \<Rightarrow> js_string \<Rightarrow> js_string \<Rightarrow> signal_store \<Rightarrow> signal_store \<times> signal_wait result" where
  "service_cancel waiting k expectedRevision at s =
     commit s (checks [validateSignalWaitKey k, validateSignalDecimal expectedRevision ''wait_revision'', validateSignalTimestamp at])
       (\<lambda>_. let s1 = waiting s in
     case getWait k s of
       None \<Rightarrow> (s1, Inl SignalWaitNotFound)
     | Some w \<Rightarrow>
         if waitRevision w \<noteq> expectedRevision then (s1, Inl SignalWaitRevisionConflict)
         else cancelWait k expectedRevision at s1)"

definition service_expire ::
  "signal_limits \<Rightarrow> authority_partition \<Rightarrow> js_string \<Rightarrow> js_string \<Rightarrow> int \<Rightarrow> signal_store \<Rightarrow> signal_store \<times> nat list result" where
  "service_expire l p through at limit s =
     commit s (normalizeSignalPartition p) (\<lambda>q.
     commit s (checks [validateSignalDecimal through ''expiration_tick'', validateSignalTimestamp at,
         validateSignalPageLimit limit (maxExpireBatchSize l) ''invalid_signal_expire_limit'']) (\<lambda>_.
     expireWaits (generation_of q) through at limit s))"

definition service_purge_waits ::
  "signal_limits \<Rightarrow> authority_partition \<Rightarrow> js_string \<Rightarrow> int \<Rightarrow> signal_store \<Rightarrow> signal_store \<times> nat list result" where
  "service_purge_waits l p before limit s =
     commit s (normalizeSignalPartition p) (\<lambda>q.
     commit s (checks [validateSignalTimestamp before,
         validateSignalPageLimit limit (sl_maxPurgeBatchSize l) ''invalid_signal_wait_purge_limit'']) (\<lambda>_.
     case purge_waits (generation_of q) before limit s of (s1, ks) \<Rightarrow> (s1, Inr ks)))"

definition service_purge_signals ::
  "signal_limits \<Rightarrow> authority_partition \<Rightarrow> js_string \<Rightarrow> int \<Rightarrow> signal_store \<Rightarrow> signal_store \<times> nat list result" where
  "service_purge_signals l p before limit s =
     commit s (normalizeSignalPartition p) (\<lambda>q.
     commit s (checks [validateSignalTimestamp before,
         validateSignalPageLimit limit (sl_maxPurgeBatchSize l) ''invalid_signal_purge_limit'']) (\<lambda>_.
     case purge_signals (generation_of q) before limit s of (s1, ks) \<Rightarrow> (s1, Inr ks)))"

end
