(* ===== verification/Signal_Facts.thy ===== *)
theory Signal_Facts
  imports Signal_Store Goal_Facts
begin

text \<open>
  What the checks on signals establish, the test of a wait as a plain predicate, and the maps the store leaves when it
  replaces or deletes entries.
\<close>

section \<open>Checks\<close>

lemma validateSignalDecimal_Inr [simp]: "validateSignalDecimal s n = Inr u \<longleftrightarrow> is_decimal s"
  by (simp add: validateSignalDecimal_def)

lemma validateSignalTimestamp_Inr [simp]: "validateSignalTimestamp t = Inr u \<longleftrightarrow> is_timestamp t"
  by (auto simp: validateSignalTimestamp_def assertCanonicalTimestamp_def ensure_def)

lemma compareSignalTicks_Inr:
  "compareSignalTicks a b = Inr c \<longleftrightarrow> is_decimal a \<and> is_decimal b \<and>
     c = (if of_decimal a < of_decimal b then - 1 else if of_decimal a = of_decimal b then 0 else 1)"
proof -
  have "compareSignalTicks a b = Inr c \<longleftrightarrow> compareGoalTicks a b = Inr c"
    by (auto simp: compareSignalTicks_def compareGoalTicks_def goal_decimal_def rbind_eq_Inr)
  then show ?thesis by (simp add: compareGoalTicks_Inr)
qed

lemma compareSignalTicks_decimal:
  "is_decimal a \<Longrightarrow> is_decimal b \<Longrightarrow> compareSignalTicks a b =
     Inr (if of_decimal a < of_decimal b then - 1 else if of_decimal a = of_decimal b then 0 else 1)"
  by (simp add: compareSignalTicks_Inr)

lemma laterSignalTimestamp_Inr [simp]:
  "laterSignalTimestamp a b = Inr c \<longleftrightarrow> is_timestamp a \<and> is_timestamp b \<and> c = max a b"
  by (auto simp: laterSignalTimestamp_def rbind_eq_Inr max_def)

lemma laterSignalTimestamp_ok: "is_timestamp a \<Longrightarrow> is_timestamp b \<Longrightarrow> laterSignalTimestamp a b = Inr (max a b)"
  by simp

lemma is_timestamp_max: "is_timestamp a \<Longrightarrow> is_timestamp b \<Longrightarrow> is_timestamp (max a b)"
  by (simp add: max_def)

definition selector_ok :: "signal_wait_selector \<Rightarrow> bool" where
  "selector_ok q \<longleftrightarrow> opt_ok is_decimal (afterTickExclusive q) \<and> opt_ok is_decimal (throughTickInclusive q)"

definition signal_ok :: "('p, 'a) signal_draft_scheme \<Rightarrow> bool" where
  "signal_ok x \<longleftrightarrow> is_decimal (tick (signalTime x)) \<and> is_timestamp (signalRecordedAt x)"

definition wait_draft_ok :: "'a signal_wait_draft_scheme \<Rightarrow> bool" where
  "wait_draft_ok w \<longleftrightarrow> selector_ok (selector w) \<and> is_timestamp (waitRecordedAt w)"

lemma normalizeGameSignal_ok: "normalizeGameSignal i l = Inr d \<Longrightarrow> signal_ok d"
  by (auto simp: normalizeGameSignal_def rbind_eq_Inr signal_ok_def normalizeSignalGameTime_def assertGameTime_def game_time_ok_def)

lemma normalizeSignalWait_ok: "normalizeSignalWait i l = Inr d \<Longrightarrow> wait_draft_ok d"
  by (auto simp: normalizeSignalWait_def normalizeSignalWaitSelector_def rbind_eq_Inr wait_draft_ok_def selector_ok_def opt_ok_def
      when_some_Inr split: option.splits)

section \<open>Matching\<close>

definition after_tick_met :: "signal_wait_selector \<Rightarrow> nat \<Rightarrow> bool" where
  "after_tick_met q n \<longleftrightarrow> (case afterTickExclusive q of None \<Rightarrow> True | Some t \<Rightarrow> of_decimal t < n)"

definition through_tick_met :: "signal_wait_selector \<Rightarrow> nat \<Rightarrow> bool" where
  "through_tick_met q n \<longleftrightarrow> (case throughTickInclusive q of None \<Rightarrow> True | Some t \<Rightarrow> n \<le> of_decimal t)"

text \<open>A wait matches a signal of its partition, or of any session or actor where it names none, of one of its kinds,
  on one of its subjects where it names some, after its cursor and within its ticks.\<close>

definition wait_matches :: "'a signal_wait_draft_scheme \<Rightarrow> signal_record \<Rightarrow> bool" where
  "wait_matches w x \<longleftrightarrow> in_request (waitPartition w) (signalPartition x) \<and> signalKind x \<in> set (kinds (selector w)) \<and>
     (case subjectIdsAny (selector w) of None \<Rightarrow> True | Some ys \<Rightarrow> set ys \<inter> set (subjectIds x) \<noteq> {}) \<and>
     (case afterSignalKey (selector w) of None \<Rightarrow> True | Some n \<Rightarrow> n < int (signalKey x)) \<and>
     after_tick_met (selector w) (of_decimal (tick (signalTime x))) \<and> through_tick_met (selector w) (of_decimal (tick (signalTime x)))"

lemma sameSignalGeneration_sym: "sameSignalGeneration a b \<longleftrightarrow> sameSignalGeneration b a"
  by (auto simp: sameSignalGeneration_def)

lemma and_then_Inr [simp]: "and_then (Inr a) (Inr b) = Inr (a \<and> b)"
  by (simp add: and_then_def)

lemma after_tick_test:
  assumes "selector_ok q" "is_decimal n"
  shows "(case afterTickExclusive q of
            None \<Rightarrow> Inr True | Some t \<Rightarrow> rbind (compareSignalTicks n t) (\<lambda>c. Inr (0 < c))) = Inr (after_tick_met q (of_decimal n))"
  using assms
  by (cases "afterTickExclusive q")
    (simp_all add: selector_ok_def opt_ok_def after_tick_met_def compareSignalTicks_decimal)

lemma through_tick_test:
  assumes "selector_ok q" "is_decimal n"
  shows "(case throughTickInclusive q of
            None \<Rightarrow> Inr True | Some t \<Rightarrow> rbind (compareSignalTicks n t) (\<lambda>c. Inr (c \<le> 0))) = Inr (through_tick_met q (of_decimal n))"
  using assms
  by (cases "throughTickInclusive q")
    (simp_all add: selector_ok_def opt_ok_def through_tick_met_def compareSignalTicks_decimal)

lemma subjects_test:
  "(case xs of None \<Rightarrow> True | Some ys \<Rightarrow> list_ex (\<lambda>x. x \<in> S) ys) \<longleftrightarrow> (case xs of None \<Rightarrow> True | Some ys \<Rightarrow> set ys \<inter> S \<noteq> {})"
  by (cases xs) (auto simp: list_ex_iff)

lemma partition_test:
  "in_request q p \<longleftrightarrow> sameSignalGeneration (generation_of q) (generation_of p) \<and>
     (pt_sessionId q = None \<or> pt_sessionId q = pt_sessionId p) \<and> (pt_actorId q = None \<or> pt_actorId q = pt_actorId p)"
  by (auto simp: in_request_def sameSignalGeneration_def)

lemma signalWaitMatches_Inr:
  assumes "selector_ok (selector w)" "signal_ok x"
  shows "signalWaitMatches w x = Inr (wait_matches w x)"
  using assms unfolding signalWaitMatches_def Let_def signal_ok_def
  by (simp only: after_tick_test through_tick_test and_then_Inr) (simp add: wait_matches_def partition_test subjects_test)

lemma wait_matches_status [simp]:
  "wait_matches (w\<lparr>waitStatus := st, waitRevision := n, waitUpdatedAt := t\<rparr>) x = wait_matches w x"
  "wait_matches (w\<lparr>waitStatus := st, matchedSignalKey := k, waitRevision := n, waitUpdatedAt := t\<rparr>) x = wait_matches w x"
  by (simp_all add: wait_matches_def)

section \<open>Filters and updates of maps\<close>

lemma filter_checked_Inr: "(\<And>x. x \<in> set xs \<Longrightarrow> f x = Inr (P x)) \<Longrightarrow> filter_checked f xs = Inr (filter P xs)"
  by (induction xs) auto

lemma replace_waits_Inr:
  "\<forall>e \<in> set es. f (snd e) = Inr (g (snd e)) \<Longrightarrow>
     replace_waits f es s = (s\<lparr>waits := fold (\<lambda>e. js_set (fst e) (g (snd e))) es (waits s)\<rparr>, Inr ())"
  by (induction es arbitrary: s) auto

lemma js_ok_fold_set: "js_ok m \<Longrightarrow> js_ok (fold (\<lambda>e. js_set (fst e) (g (snd e))) es m)"
  by (rule jm.ok_fold_put [where f = fst and g = "\<lambda>e. g (snd e)"])

lemma get_replaced:
  assumes "js_ok m" "set es \<subseteq> set m" "distinct (map fst es)"
  shows "js_get (fold (\<lambda>e. js_set (fst e) (g (snd e))) es m) k =
    (case js_get m k of None \<Rightarrow> None | Some w \<Rightarrow> Some (if (k, w) \<in> set es then g w else w))"
proof (cases "k \<in> fst ` set es")
  case True
  then obtain w where w: "(k, w) \<in> set es" by auto
  have "(k, w) \<in> set m" using assms(2) w by (rule subsetD)
  then have "js_get m k = Some w" by (simp only: js_get_entry [OF assms(1)])
  moreover have "js_get (fold (\<lambda>e. js_set (fst e) (g (snd e))) es m) k = Some (g w)"
    using jm.get_fold_put [where f = fst and g = "\<lambda>e. g (snd e)", OF assms(3) w, of m] by simp
  ultimately show ?thesis using w by simp
next
  case False
  then have "js_get (fold (\<lambda>e. js_set (fst e) (g (snd e))) es m) k = js_get m k" by (rule jm.get_fold_put_other [where f = fst and g = "\<lambda>e. g (snd e)"])
  moreover have "(k, w) \<notin> set es" for w using False by (metis fst_conv image_eqI)
  ultimately show ?thesis by (simp split: option.splits)
qed

lemma js_ok_distinct_filter: "js_ok m \<Longrightarrow> distinct (map fst (filter P m))"
  by (induction m) (auto simp: js_keys_def)

lemma distinct_sorted_filter: "js_ok m \<Longrightarrow> distinct (map fst (sort_key f (filter P m)))"
  using js_ok_distinct_filter [of m P] by (simp add: distinct_map inj_on_def)

lemma distinct_first_items: "distinct (map f xs) \<Longrightarrow> distinct (map f (first_items n xs))"
  by (simp add: first_items_def flip: take_map)

lemma set_first_items: "set (first_items n xs) \<subseteq> set xs"
  by (auto simp: first_items_def dest: in_set_takeD)

lemma count_values: "js_ok m \<Longrightarrow> length (filter P (js_values m)) = card {k. \<exists>v. js_get m k = Some v \<and> P v}"
proof -
  assume ok: "js_ok m"
  have "length (filter P (js_values m)) = length (filter (P \<circ> snd) m)"
    by (simp add: js_values_def filter_map)
  also have "\<dots> = card (fst ` set (filter (P \<circ> snd) m))"
    using js_ok_distinct_filter [OF ok, of "P \<circ> snd"] by (metis distinct_card length_map set_map)
  also have "fst ` set (filter (P \<circ> snd) m) = {k. \<exists>v. js_get m k = Some v \<and> P v}"
    by (force simp: js_get_entry [OF ok, symmetric])
  finally show ?thesis .
qed

lemma get_deleted: "js_get (fold js_delete ks m) k = (if k \<in> set ks then None else js_get m k)"
  by (rule jm.get_fold_del)

lemma js_ok_deleted: "js_ok m \<Longrightarrow> js_ok (fold js_delete ks m)"
  by (rule jm.ok_fold_del)

end
