(* ===== verification/Signal_Inv.thy ===== *)
theory Signal_Inv
  imports Signal_Facts
begin

text \<open>
  The contract of the signal store: its atomic steps, the invariant they keep and the order they respect. A waiting wait
  matches no stored signal and a matched one points at the first signal that matched it.
\<close>

section \<open>The invariant\<close>

definition stored_signal :: "signal_store \<Rightarrow> signal_record \<Rightarrow> bool" where
  "stored_signal s x \<longleftrightarrow> (\<exists>k. js_get (signals s) k = Some x)"

definition stored_wait :: "signal_store \<Rightarrow> signal_wait \<Rightarrow> bool" where
  "stored_wait s w \<longleftrightarrow> (\<exists>k. js_get (waits s) k = Some w)"

definition first_match :: "signal_store \<Rightarrow> 'a signal_wait_draft_scheme \<Rightarrow> signal_record \<Rightarrow> bool" where
  "first_match s w x \<longleftrightarrow> stored_signal s x \<and> wait_matches w x \<and>
     (\<forall>y. stored_signal s y \<longrightarrow> signalKey y < signalKey x \<longrightarrow> \<not> wait_matches w y)"

definition match_state :: "signal_store \<Rightarrow> signal_wait \<Rightarrow> bool" where
  "match_state s w \<longleftrightarrow>
     (case waitStatus w of
        Waiting \<Rightarrow> matchedSignalKey w = None \<and> (\<forall>x. stored_signal s x \<longrightarrow> \<not> wait_matches w x)
      | Matched \<Rightarrow> (\<exists>x. matchedSignalKey w = Some (signalKey x) \<and> first_match s w x)
      | _ \<Rightarrow> matchedSignalKey w = None)"

definition wait_ok :: "signal_wait \<Rightarrow> bool" where
  "wait_ok w \<longleftrightarrow> wait_draft_ok w \<and> is_decimal (waitRevision w) \<and> is_timestamp (waitUpdatedAt w)"

definition signal_key_of :: "('p, 'a) signal_draft_scheme \<Rightarrow> js_string" where
  "signal_key_of x = signalMapKey (generation_of (signalPartition x)) (signalId x)"

definition wait_key_of :: "'a signal_wait_draft_scheme \<Rightarrow> js_string" where
  "wait_key_of w = waitMapKey (generation_of (waitPartition w)) (waitId w)"

definition signals_filed :: "signal_store \<Rightarrow> bool" where
  "signals_filed s \<longleftrightarrow> js_ok (signals s) \<and> 1 \<le> nextSignalKey s \<and>
     (\<forall>k x. js_get (signals s) k = Some x \<longrightarrow> k = signal_key_of x \<and> signal_ok x \<and> 1 \<le> signalKey x \<and> signalKey x < nextSignalKey s \<and>
        js_get (signalFingerprints s) k = Some (canonical (signal_json (signal_draft.truncate x)))) \<and>
     (\<forall>k k' x y. js_get (signals s) k = Some x \<longrightarrow> js_get (signals s) k' = Some y \<longrightarrow> signalKey x = signalKey y \<longrightarrow> k = k')"

definition waits_filed :: "signal_store \<Rightarrow> bool" where
  "waits_filed s \<longleftrightarrow> js_ok (waits s) \<and> 1 \<le> nextWaitKey s \<and>
     (\<forall>k w. js_get (waits s) k = Some w \<longrightarrow> k = wait_key_of w \<and> wait_ok w \<and> 1 \<le> waitKey w \<and> waitKey w < nextWaitKey s \<and>
        js_get (waitFingerprints s) k = Some (canonical (wait_json (signal_wait_draft.truncate w)))) \<and>
     (\<forall>k k' v w. js_get (waits s) k = Some v \<longrightarrow> js_get (waits s) k' = Some w \<longrightarrow> waitKey v = waitKey w \<longrightarrow> k = k')"

definition fanout :: "nat \<Rightarrow> signal_store \<Rightarrow> nat" where
  "fanout n s = card {k. \<exists>w. js_get (waits s) k = Some w \<and> matchedSignalKey w = Some n}"

definition signal_inv :: "int \<Rightarrow> signal_store \<Rightarrow> bool" where
  "signal_inv m s \<longleftrightarrow> signals_filed s \<and> waits_filed s \<and> (\<forall>w. stored_wait s w \<longrightarrow> match_state s w) \<and>
     (\<forall>n. int (fanout n s) \<le> m)"

lemma signal_invD:
  assumes "signal_inv m s"
  shows "signals_filed s" "waits_filed s" "js_ok (signals s)" "js_ok (waits s)"
    "js_get (signals s) k = Some x \<Longrightarrow> k = signal_key_of x \<and> signal_ok x \<and> 1 \<le> signalKey x \<and> signalKey x < nextSignalKey s \<and>
        js_get (signalFingerprints s) k = Some (canonical (signal_json (signal_draft.truncate x)))"
    "js_get (waits s) j = Some w \<Longrightarrow> j = wait_key_of w \<and> wait_ok w \<and> 1 \<le> waitKey w \<and> waitKey w < nextWaitKey s \<and>
        js_get (waitFingerprints s) j = Some (canonical (wait_json (signal_wait_draft.truncate w)))"
    "js_get (waits s) j = Some w \<Longrightarrow> match_state s w"
    "int (fanout n s) \<le> m"
  using assms by (auto simp: signal_inv_def signals_filed_def waits_filed_def stored_wait_def)

lemma length_matchedWaits: "js_ok (waits s) \<Longrightarrow> length (matchedWaits n s) = fanout n s"
  by (simp add: matchedWaits_def fanout_def count_values)

section \<open>Atomic steps\<close>

definition matched_record :: "signal_record \<Rightarrow> signal_wait \<Rightarrow> signal_wait" where
  "matched_record x w = w\<lparr>waitStatus := Matched, matchedSignalKey := Some (signalKey x),
     waitRevision := to_decimal (Suc (of_decimal (waitRevision w))), waitUpdatedAt := max (waitUpdatedAt w) (signalRecordedAt x)\<rparr>"

definition ended_record :: "signal_wait_status \<Rightarrow> js_string \<Rightarrow> signal_wait \<Rightarrow> signal_wait" where
  "ended_record st at w = w\<lparr>waitStatus := st, waitRevision := to_decimal (Suc (of_decimal (waitRevision w))),
     waitUpdatedAt := max (waitUpdatedAt w) at\<rparr>"

definition awaits :: "signal_record \<Rightarrow> signal_wait \<Rightarrow> bool" where
  "awaits x w \<longleftrightarrow> waitStatus w = Waiting \<and> wait_matches w x"

text \<open>The stored waits are replaced one by one, in place.\<close>

definition waits_mapped :: "(signal_wait \<Rightarrow> signal_wait) \<Rightarrow> signal_store \<Rightarrow> signal_store \<Rightarrow> bool" where
  "waits_mapped f s s' \<longleftrightarrow> js_ok (waits s') \<and> (\<forall>k. js_get (waits s') k = map_option f (js_get (waits s) k)) \<and>
     waitFingerprints s' = waitFingerprints s \<and> nextWaitKey s' = nextWaitKey s"

definition signals_kept :: "signal_store \<Rightarrow> signal_store \<Rightarrow> bool" where
  "signals_kept s s' \<longleftrightarrow> signals s' = signals s \<and> signalFingerprints s' = signalFingerprints s \<and> nextSignalKey s' = nextSignalKey s"

definition waits_kept :: "signal_store \<Rightarrow> signal_store \<Rightarrow> bool" where
  "waits_kept s s' \<longleftrightarrow> waits s' = waits s \<and> waitFingerprints s' = waitFingerprints s \<and> nextWaitKey s' = nextWaitKey s"

text \<open>The first stored signal that a new wait matches, if any, with room for one more wait.\<close>

definition found_match :: "int \<Rightarrow> signal_store \<Rightarrow> signal_wait_draft \<Rightarrow> signal_record option \<Rightarrow> bool" where
  "found_match m s d found \<longleftrightarrow>
     (case found of
        None \<Rightarrow> \<forall>x. stored_signal s x \<longrightarrow> \<not> wait_matches d x
      | Some x \<Rightarrow> first_match s d x \<and> int (fanout (signalKey x) s) < m)"

inductive signal_step :: "int \<Rightarrow> signal_store \<Rightarrow> signal_store \<Rightarrow> bool" for m where
  signal_recorded:
    "js_get (signals s) (signal_key_of d) = None \<Longrightarrow> signal_ok d \<Longrightarrow> x = signal_of d (nextSignalKey s) \<Longrightarrow>
     int (card {k. \<exists>w. js_get (waits s) k = Some w \<and> awaits x w}) \<le> m \<Longrightarrow>
     signals s' = js_set (signal_key_of d) x (signals s) \<Longrightarrow>
     signalFingerprints s' = js_set (signal_key_of d) (canonical (signal_json d)) (signalFingerprints s) \<Longrightarrow>
     nextSignalKey s' = nextSignalKey s + 1 \<Longrightarrow>
     waits_mapped (\<lambda>w. if awaits x w then matched_record x w else w) s s' \<Longrightarrow> signal_step m s s'"
| wait_registered:
    "js_get (waits s) (wait_key_of d) = None \<Longrightarrow> wait_draft_ok d \<Longrightarrow> found_match m s d found \<Longrightarrow> is_timestamp at \<Longrightarrow>
     signals_kept s s' \<Longrightarrow> nextWaitKey s' = nextWaitKey s + 1 \<Longrightarrow>
     waits s' = js_set (wait_key_of d) (wait_of d (nextWaitKey s) found at) (waits s) \<Longrightarrow>
     waitFingerprints s' = js_set (wait_key_of d) (canonical (wait_json d)) (waitFingerprints s) \<Longrightarrow> signal_step m s s'"
| waits_ended:
    "st = WaitCancelled \<or> st = WaitExpired \<Longrightarrow> is_timestamp at \<Longrightarrow> (\<And>w. P w \<Longrightarrow> waitStatus w = Waiting) \<Longrightarrow>
     signals_kept s s' \<Longrightarrow> waits_mapped (\<lambda>w. if P w then ended_record st at w else w) s s' \<Longrightarrow> signal_step m s s'"
| waits_purged:
    "(\<And>k w. k \<in> set ks \<Longrightarrow> js_get (waits s) k = Some w \<Longrightarrow> waitStatus w \<noteq> Waiting) \<Longrightarrow>
     signals_kept s s' \<Longrightarrow> waits s' = fold js_delete ks (waits s) \<Longrightarrow>
     waitFingerprints s' = fold js_delete ks (waitFingerprints s) \<Longrightarrow> nextWaitKey s' = nextWaitKey s \<Longrightarrow> signal_step m s s'"
| signals_purged:
    "(\<And>k x w. k \<in> set ks \<Longrightarrow> js_get (signals s) k = Some x \<Longrightarrow> stored_wait s w \<Longrightarrow> matchedSignalKey w \<noteq> Some (signalKey x)) \<Longrightarrow>
     waits_kept s s' \<Longrightarrow> signals s' = fold js_delete ks (signals s) \<Longrightarrow>
     signalFingerprints s' = fold js_delete ks (signalFingerprints s) \<Longrightarrow> nextSignalKey s' = nextSignalKey s \<Longrightarrow> signal_step m s s'"

inductive_cases signal_stepE: "signal_step m s s'"

section \<open>Every step keeps the invariant\<close>

lemma signal_of_simps [simp]:
  "signalKey (signal_of d n) = n" "signal_draft.truncate (signal_of d n) = d" "signal_key_of (signal_of d n) = signal_key_of d"
  "signal_ok (signal_of d n) = signal_ok d"
  by (simp_all add: signal_of_def signal_draft.defs signal_record.defs signal_key_of_def signal_ok_def)

lemma wait_of_simps [simp]:
  "waitKey (wait_of d n found at) = n" "signal_wait_draft.truncate (wait_of d n found at) = d"
  "wait_key_of (wait_of d n found at) = wait_key_of d" "wait_draft_ok (wait_of d n found at) = wait_draft_ok d"
  "waitStatus (wait_of d n found at) = (if found = None then Waiting else Matched)"
  "matchedSignalKey (wait_of d n found at) = map_option signalKey found" "waitRevision (wait_of d n found at) = js ''1''"
  "waitUpdatedAt (wait_of d n found at) = at" "wait_matches (wait_of d n found at) x = wait_matches d x"
  by (simp_all add: wait_of_def signal_wait_draft.defs signal_wait.defs wait_key_of_def wait_draft_ok_def wait_matches_def)

lemma changed_simps [simp]:
  "waitKey (matched_record x w) = waitKey w" "waitKey (ended_record st at w) = waitKey w"
  "wait_key_of (matched_record x w) = wait_key_of w" "wait_key_of (ended_record st at w) = wait_key_of w"
  "signal_wait_draft.truncate (matched_record x w) = signal_wait_draft.truncate w"
  "signal_wait_draft.truncate (ended_record st at w) = signal_wait_draft.truncate w"
  "waitStatus (matched_record x w) = Matched" "waitStatus (ended_record st at w) = st"
  "matchedSignalKey (matched_record x w) = Some (signalKey x)" "matchedSignalKey (ended_record st at w) = matchedSignalKey w"
  "wait_matches (matched_record x w) = wait_matches w" "wait_matches (ended_record st at w) = wait_matches w"
  by (simp_all add: matched_record_def ended_record_def wait_key_of_def signal_wait_draft.defs fun_eq_iff)

lemma changed_ok [simp]:
  "wait_ok w \<Longrightarrow> signal_ok x \<Longrightarrow> wait_ok (matched_record x w)" "wait_ok w \<Longrightarrow> is_timestamp at \<Longrightarrow> wait_ok (ended_record st at w)"
  by (simp_all add: wait_ok_def signal_ok_def matched_record_def ended_record_def wait_draft_ok_def is_timestamp_max)

text \<open>A map of the waits keeps them filed when it keeps what they were drafted with.\<close>

lemma mapped_filed:
  assumes filed: "waits_filed s" and map: "waits_mapped f s s'"
    and f: "\<And>w. stored_wait s w \<Longrightarrow> wait_ok (f w) \<and> wait_key_of (f w) = wait_key_of w \<and> waitKey (f w) = waitKey w \<and>
      signal_wait_draft.truncate (f w) = signal_wait_draft.truncate w"
  shows "waits_filed s'"
  unfolding waits_filed_def
proof (intro conjI allI impI)
  show "js_ok (waits s')" "1 \<le> nextWaitKey s'" using map filed by (simp_all add: waits_mapped_def waits_filed_def)
next
  fix k w assume "js_get (waits s') k = Some w"
  then obtain v where v: "js_get (waits s) k = Some v" "w = f v" using map by (auto simp: waits_mapped_def)
  then have "stored_wait s v" by (auto simp: stored_wait_def)
  from f [OF this] v show "k = wait_key_of w" "wait_ok w" "1 \<le> waitKey w" "waitKey w < nextWaitKey s'"
    "js_get (waitFingerprints s') k = Some (canonical (wait_json (signal_wait_draft.truncate w)))"
    using filed map by (auto simp: waits_filed_def waits_mapped_def)
next
  fix j k v w assume "js_get (waits s') j = Some v" "js_get (waits s') k = Some w" "waitKey v = waitKey w"
  then obtain v0 w0 where "js_get (waits s) j = Some v0" "js_get (waits s) k = Some w0" "v = f v0" "w = f w0"
    using map by (auto simp: waits_mapped_def)
  moreover from this have "stored_wait s v0" "stored_wait s w0" by (auto simp: stored_wait_def)
  then have "waitKey v0 = waitKey w0" using f [of v0] f [of w0] \<open>waitKey v = waitKey w\<close> calculation by simp
  ultimately show "j = k" using filed by (auto simp: waits_filed_def)
qed

lemma match_points:
  assumes "match_state s w" "matchedSignalKey w = Some n"
  shows "waitStatus w = Matched \<and> (\<exists>x. n = signalKey x \<and> first_match s w x)"
  using assms by (auto simp: match_state_def split: signal_wait_status.splits)

lemma signal_keys_bounded: "signal_inv m s \<Longrightarrow> stored_signal s x \<Longrightarrow> signalKey x < nextSignalKey s"
  using signal_invD(5) by (auto simp: stored_signal_def)

lemma signal_recorded_inv:
  assumes inv: "signal_inv m s" and fresh: "js_get (signals s) (signal_key_of d) = None" and d: "signal_ok d"
    and x: "x = signal_of d (nextSignalKey s)" and room: "int (card {k. \<exists>w. js_get (waits s) k = Some w \<and> awaits x w}) \<le> m"
    and s': "signals s' = js_set (signal_key_of d) x (signals s)"
      "signalFingerprints s' = js_set (signal_key_of d) (canonical (signal_json d)) (signalFingerprints s)"
      "nextSignalKey s' = nextSignalKey s + 1" "waits_mapped (\<lambda>w. if awaits x w then matched_record x w else w) s s'"
  shows "signal_inv m s'"
proof -
  have old: "signalKey y < nextSignalKey s" if "js_get (signals s) k = Some y" for k y
    using signal_invD(5) [OF inv that] by simp
  have get: "js_get (signals s') k = (if k = signal_key_of d then Some x else js_get (signals s) k)" for k
    by (simp add: s'(1) js_get_set)
  have st: "stored_signal s' y \<longleftrightarrow> y = x \<or> stored_signal s y" for y
    using fresh unfolding stored_signal_def get by (metis option.distinct(1) option.inject)
  have waits: "js_get (waits s') k = Some w' \<longleftrightarrow>
      (\<exists>w. js_get (waits s) k = Some w \<and> w' = (if awaits x w then matched_record x w else w))" for k w'
    using s'(4) by (auto simp: waits_mapped_def)
  have sf: "signals_filed s'"
    unfolding signals_filed_def
  proof (intro conjI allI impI)
    show "js_ok (signals s')" using signal_invD(3) [OF inv] by (simp add: s'(1))
  next
    fix k y assume "js_get (signals s') k = Some y"
    then show "k = signal_key_of y" "signal_ok y" "1 \<le> signalKey y" "signalKey y < nextSignalKey s'"
      "js_get (signalFingerprints s') k = Some (canonical (signal_json (signal_draft.truncate y)))"
      using signal_invD(1) [OF inv] signal_invD(5) [OF inv, of k y] d
      by (auto simp: get x s'(2,3) js_get_set signals_filed_def intro: less_SucI split: if_splits)
  next
    fix j k y z assume "js_get (signals s') j = Some y" "js_get (signals s') k = Some z" "signalKey y = signalKey z"
    moreover have "j = k" if "js_get (signals s) j = Some y" "js_get (signals s) k = Some z" "signalKey y = signalKey z"
      using that signal_invD(1) [OF inv] unfolding signals_filed_def by blast
    ultimately show "j = k" using old [of j y] old [of k z] by (auto simp: get x split: if_splits)
  qed (simp add: s'(3))
  have wf: "waits_filed s'"
    by (rule mapped_filed [OF signal_invD(2) [OF inv] s'(4)])
      (use signal_invD(6) [OF inv] d x in \<open>auto simp: stored_wait_def\<close>)
  have ms: "match_state s' w'" if "stored_wait s' w'" for w'
  proof -
    obtain k w where w: "js_get (waits s) k = Some w" "w' = (if awaits x w then matched_record x w else w)"
      using \<open>stored_wait s' w'\<close> by (auto simp: stored_wait_def waits)
    have m: "match_state s w" by (rule signal_invD(7) [OF inv w(1)])
    show ?thesis
    proof (cases "awaits x w")
      case True
      with m have "\<not> wait_matches w y" if "stored_signal s y" for y
        using that by (auto simp: match_state_def awaits_def)
      with True show ?thesis by (auto simp: w(2) match_state_def first_match_def st awaits_def)
    next
      case False
      show ?thesis
      proof (cases "waitStatus w")
        case Waiting
        with False m show ?thesis by (auto simp: w(2) match_state_def st awaits_def)
      next
        case Matched
        with m obtain z where z: "matchedSignalKey w = Some (signalKey z)" "first_match s w z" by (auto simp: match_state_def)
        then have "signalKey z < signalKey x" using signal_keys_bounded [OF inv] by (auto simp: x first_match_def)
        with z have "first_match s' w z" by (auto simp: first_match_def st)
        with Matched False z show ?thesis by (auto simp: w(2) match_state_def)
      qed (use m False in \<open>simp_all add: w(2) match_state_def\<close>)
    qed
  qed
  have none: "matchedSignalKey w \<noteq> Some (signalKey x)" if "js_get (waits s) k = Some w" for k w
  proof
    assume "matchedSignalKey w = Some (signalKey x)"
    from match_points [OF signal_invD(7) [OF inv that] this] obtain z where "signalKey x = signalKey z" "stored_signal s z"
      by (auto simp: first_match_def)
    with signal_keys_bounded [OF inv this(2)] x show False by simp
  qed
  have "int (fanout n s') \<le> m" for n
  proof (cases "n = signalKey x")
    case True
    have "{k. \<exists>w. js_get (waits s') k = Some w \<and> matchedSignalKey w = Some n} = {k. \<exists>w. js_get (waits s) k = Some w \<and> awaits x w}"
      using none by (auto simp: waits True)
    with room show ?thesis by (simp add: fanout_def)
  next
    case False
    have "matchedSignalKey w = None" if "js_get (waits s) k = Some w" "awaits x w" for k w
      using signal_invD(7) [OF inv that(1)] that(2) by (auto simp: match_state_def awaits_def)
    then have "{k. \<exists>w. js_get (waits s') k = Some w \<and> matchedSignalKey w = Some n} =
        {k. \<exists>w. js_get (waits s) k = Some w \<and> matchedSignalKey w = Some n}"
      using False by (auto simp: waits) force
    then show ?thesis using signal_invD(8) [OF inv, of n] by (simp add: fanout_def)
  qed
  with sf wf ms show ?thesis by (simp add: signal_inv_def)
qed

lemma kept_signals: "signals_kept s s' \<Longrightarrow> stored_signal s' = stored_signal s \<and> (signals_filed s \<longrightarrow> signals_filed s')"
  by (auto simp: signals_kept_def stored_signal_def fun_eq_iff signals_filed_def)

lemma kept_match: "stored_signal s' = stored_signal s \<Longrightarrow> match_state s' w = match_state s w"
  by (auto simp: match_state_def first_match_def split: signal_wait_status.splits)

lemma kept_waits: "waits_kept s s' \<Longrightarrow> stored_wait s' = stored_wait s \<and> (waits_filed s \<longrightarrow> waits_filed s') \<and> fanout n s' = fanout n s"
  by (auto simp: waits_kept_def stored_wait_def fun_eq_iff waits_filed_def fanout_def)

lemma finite_waits [simp]: "finite {k. \<exists>w. js_get m k = Some w \<and> P w}"
  by (rule finite_subset [of _ "set (js_keys m)"]) (auto simp: js_has_iff [symmetric] js_has_def)

lemma registered_inv:
  assumes inv: "signal_inv m s" and fresh: "js_get (waits s) (wait_key_of d) = None" and d: "wait_draft_ok d"
    and found: "found_match m s d found" and at: "is_timestamp at" and kept: "signals_kept s s'"
    and s': "nextWaitKey s' = nextWaitKey s + 1" "waits s' = js_set (wait_key_of d) (wait_of d (nextWaitKey s) found at) (waits s)"
      "waitFingerprints s' = js_set (wait_key_of d) (canonical (wait_json d)) (waitFingerprints s)"
  shows "signal_inv m s'"
proof -
  let ?w = "wait_of d (nextWaitKey s) found at"
  have get: "js_get (waits s') k = (if k = wait_key_of d then Some ?w else js_get (waits s) k)" for k
    by (simp add: s'(2) js_get_set)
  have old: "waitKey w < nextWaitKey s" if "js_get (waits s) k = Some w" for k w
    using signal_invD(6) [OF inv that] by simp
  have sig: "stored_signal s' = stored_signal s" "signals_filed s'"
    using kept_signals [OF kept] signal_invD(1) [OF inv] by auto
  have ok: "wait_ok ?w" using d at
    by (simp add: wait_ok_def is_decimal_def is_positive_decimal_def js_def is_digit_def)
  have wf: "waits_filed s'"
    unfolding waits_filed_def
  proof (intro conjI allI impI)
    show "js_ok (waits s')" using signal_invD(4) [OF inv] by (simp add: s'(2))
  next
    fix k w assume "js_get (waits s') k = Some w"
    then show "k = wait_key_of w" "wait_ok w" "1 \<le> waitKey w" "waitKey w < nextWaitKey s'"
      "js_get (waitFingerprints s') k = Some (canonical (wait_json (signal_wait_draft.truncate w)))"
      using signal_invD(2) [OF inv] signal_invD(6) [OF inv, of k w] ok
      by (auto simp: get s'(1,3) js_get_set waits_filed_def intro: less_SucI split: if_splits)
  next
    fix j k v w assume "js_get (waits s') j = Some v" "js_get (waits s') k = Some w" "waitKey v = waitKey w"
    moreover have "j = k" if "js_get (waits s) j = Some v" "js_get (waits s) k = Some w" "waitKey v = waitKey w"
      using that signal_invD(2) [OF inv] unfolding waits_filed_def by blast
    ultimately show "j = k" using old [of j v] old [of k w] by (auto simp: get split: if_splits)
  qed (simp add: s'(1))
  have new: "match_state s ?w"
    using found by (auto simp: match_state_def found_match_def first_match_def split: option.splits)
  have ms: "match_state s' w" if "stored_wait s' w" for w
    using that new signal_invD(7) [OF inv] by (auto simp: kept_match [OF sig(1)] stored_wait_def get split: if_splits)
  have "int (fanout n s') \<le> m" for n
  proof (cases "map_option signalKey found = Some n")
    case True
    then obtain x where x: "found = Some x" "n = signalKey x" by auto
    have "{k. \<exists>w. js_get (waits s') k = Some w \<and> matchedSignalKey w = Some n} =
        insert (wait_key_of d) {k. \<exists>w. js_get (waits s) k = Some w \<and> matchedSignalKey w = Some n}"
      using fresh by (auto simp: get x)
    then have "fanout n s' \<le> Suc (fanout n s)" unfolding fanout_def by (simp add: card_insert_if)
    moreover have "int (fanout n s) < m" using found x by (simp add: found_match_def)
    ultimately show ?thesis by linarith
  next
    case False
    then have "{k. \<exists>w. js_get (waits s') k = Some w \<and> matchedSignalKey w = Some n} =
        {k. \<exists>w. js_get (waits s) k = Some w \<and> matchedSignalKey w = Some n}"
      using fresh by (auto simp: get)
    then show ?thesis using signal_invD(8) [OF inv, of n] by (simp add: fanout_def)
  qed
  with sig wf ms show ?thesis by (simp add: signal_inv_def)
qed

lemma ended_inv:
  assumes inv: "signal_inv m s" and st: "st = WaitCancelled \<or> st = WaitExpired" and at: "is_timestamp at"
    and P: "\<And>w. P w \<Longrightarrow> waitStatus w = Waiting" and kept: "signals_kept s s'"
    and map: "waits_mapped (\<lambda>w. if P w then ended_record st at w else w) s s'"
  shows "signal_inv m s'"
proof -
  have waits: "js_get (waits s') k = Some w' \<longleftrightarrow> (\<exists>w. js_get (waits s) k = Some w \<and> w' = (if P w then ended_record st at w else w))" for k w'
    using map by (auto simp: waits_mapped_def)
  have sig: "stored_signal s' = stored_signal s" "signals_filed s'"
    using kept_signals [OF kept] signal_invD(1) [OF inv] by auto
  have wf: "waits_filed s'"
    by (rule mapped_filed [OF signal_invD(2) [OF inv] map]) (use signal_invD(6) [OF inv] at in \<open>auto simp: stored_wait_def\<close>)
  have ms: "match_state s' w'" if "stored_wait s' w'" for w'
  proof -
    obtain k w where w: "js_get (waits s) k = Some w" "w' = (if P w then ended_record st at w else w)"
      using \<open>stored_wait s' w'\<close> by (auto simp: stored_wait_def waits)
    have "match_state s w" by (rule signal_invD(7) [OF inv w(1)])
    moreover have "match_state s (ended_record st at w)" if "P w"
      using calculation P [OF that] st by (auto simp: match_state_def)
    ultimately show ?thesis by (simp add: w(2) kept_match [OF sig(1)])
  qed
  have "(\<exists>w. js_get (waits s') k = Some w \<and> matchedSignalKey w = Some n) \<longleftrightarrow>
      (\<exists>w. js_get (waits s) k = Some w \<and> matchedSignalKey w = Some n)" for k n
    using map by (cases "js_get (waits s) k") (auto simp: waits_mapped_def)
  then have "int (fanout n s') \<le> m" for n using signal_invD(8) [OF inv, of n] by (simp add: fanout_def)
  with sig wf ms show ?thesis by (simp add: signal_inv_def)
qed

lemma waits_purged_inv:
  assumes inv: "signal_inv m s" and kept: "signals_kept s s'"
    and s': "waits s' = fold js_delete ks (waits s)" "waitFingerprints s' = fold js_delete ks (waitFingerprints s)"
      "nextWaitKey s' = nextWaitKey s"
  shows "signal_inv m s'"
proof -
  have get: "js_get (waits s') k = (if k \<in> set ks then None else js_get (waits s) k)" for k
    by (simp add: s'(1) get_deleted)
  have sig: "stored_signal s' = stored_signal s" "signals_filed s'"
    using kept_signals [OF kept] signal_invD(1) [OF inv] by auto
  have wf: "waits_filed s'" using signal_invD(2) [OF inv]
    unfolding waits_filed_def get s'(2,3) get_deleted by (simp add: s'(1) js_ok_deleted)
  have ms: "match_state s' w" if "stored_wait s' w" for w
    using that signal_invD(7) [OF inv] by (auto simp: kept_match [OF sig(1)] stored_wait_def get split: if_splits)
  have "fanout n s' \<le> fanout n s" for n
    unfolding fanout_def by (rule card_mono) (auto simp: get split: if_splits)
  then have "int (fanout n s') \<le> m" for n using signal_invD(8) [OF inv, of n] by (meson of_nat_mono order_trans)
  with sig wf ms show ?thesis by (simp add: signal_inv_def)
qed

lemma signals_purged_inv:
  assumes inv: "signal_inv m s" and kept: "waits_kept s s'"
    and unref: "\<And>k x w. k \<in> set ks \<Longrightarrow> js_get (signals s) k = Some x \<Longrightarrow> stored_wait s w \<Longrightarrow> matchedSignalKey w \<noteq> Some (signalKey x)"
    and s': "signals s' = fold js_delete ks (signals s)" "signalFingerprints s' = fold js_delete ks (signalFingerprints s)"
      "nextSignalKey s' = nextSignalKey s"
  shows "signal_inv m s'"
proof -
  have get: "js_get (signals s') k = (if k \<in> set ks then None else js_get (signals s) k)" for k
    by (simp add: s'(1) get_deleted)
  have less: "stored_signal s x" if "stored_signal s' x" for x
    using that by (auto simp: stored_signal_def get split: if_splits)
  have sf: "signals_filed s'" using signal_invD(1) [OF inv]
    unfolding signals_filed_def get s'(2,3) get_deleted by (simp add: s'(1) js_ok_deleted)
  have wt: "stored_wait s' = stored_wait s" "waits_filed s'" "fanout n s' = fanout n s" for n
    using kept_waits [OF kept] signal_invD(2) [OF inv] by auto
  have ms: "match_state s' w" if "stored_wait s' w" for w
  proof -
    have w: "stored_wait s w" using that wt by simp
    then have m: "match_state s w" using inv by (simp add: signal_inv_def)
    show ?thesis
    proof (cases "waitStatus w")
      case Matched
      with m obtain x where x: "matchedSignalKey w = Some (signalKey x)" "first_match s w x" by (auto simp: match_state_def)
      then obtain k where k: "js_get (signals s) k = Some x" by (auto simp: first_match_def stored_signal_def)
      with unref [of k x w] w x have "k \<notin> set ks" by auto
      with k have "stored_signal s' x" by (auto simp: stored_signal_def get)
      with x less have "first_match s' w x" by (auto simp: first_match_def)
      with x Matched show ?thesis by (auto simp: match_state_def)
    qed (use m less in \<open>auto simp: match_state_def\<close>)
  qed
  with sf wt signal_invD(8) [OF inv] show ?thesis by (simp add: signal_inv_def)
qed

lemma signal_step_inv:
  assumes "signal_step m s s'" and inv: "signal_inv m s"
  shows "signal_inv m s'"
  using assms(1)
proof cases
  case (signal_recorded d x)
  then show ?thesis by (rule signal_recorded_inv [OF inv])
next
  case (wait_registered d found at)
  then show ?thesis by (rule registered_inv [OF inv])
next
  case (waits_ended st at P)
  then show ?thesis by (rule ended_inv [OF inv])
next
  case (waits_purged ks)
  then show ?thesis by (intro waits_purged_inv [OF inv, of s' ks])
next
  case (signals_purged ks)
  from signals_purged(2,1,3-) show ?thesis by (rule signals_purged_inv [OF inv])
qed

end
