(* ===== verification/Signal_Run.thy ===== *)
theory Signal_Run
  imports Signal_Inv
begin

text \<open>
  Every call of the signal store and service takes no step or one atomic step, so every run of calls keeps the invariant;
  signals never change while they are stored, and waits only move on from waiting, once.
\<close>

section \<open>Replacing waits\<close>

lemma count_entries: "js_ok m \<Longrightarrow> length (filter (\<lambda>(k, v). P v) m) = card {k. \<exists>v. js_get m k = Some v \<and> P v}"
proof -
  have "map snd (filter (\<lambda>(k, v). P v) m) = filter P (js_values m)"
    by (induction m) (auto simp: js_values_def)
  then have "length (filter (\<lambda>(k, v). P v) m) = length (filter P (js_values m))" by (metis length_map)
  moreover assume "js_ok m"
  ultimately show ?thesis by (simp add: count_values)
qed

lemma waits_mapped_cong:
  "(\<And>w. stored_wait s w \<Longrightarrow> f w = g w) \<Longrightarrow> waits_mapped f s s' \<Longrightarrow> waits_mapped g s s'"
  by (auto simp: waits_mapped_def stored_wait_def intro!: option.map_cong)

lemma replaced_mapped:
  assumes filed: "waits_filed s" and es: "set es \<subseteq> set (waits s)" "distinct (map fst es)"
    and s': "waits s' = fold (\<lambda>e. js_set (fst e) (g (snd e))) es (waits s)" "waitFingerprints s' = waitFingerprints s"
      "nextWaitKey s' = nextWaitKey s"
  shows "waits_mapped (\<lambda>w. if w \<in> snd ` set es then g w else w) s s'"
proof -
  have ok: "js_ok (waits s)" using filed by (simp add: waits_filed_def)
  have "(k, w) \<in> set es \<longleftrightarrow> w \<in> snd ` set es" if "js_get (waits s) k = Some w" for k w
  proof
    assume "w \<in> snd ` set es"
    then obtain j where j: "(j, w) \<in> set es" by auto
    then have "js_get (waits s) j = Some w" using es(1) js_get_entry [OF ok] by auto
    then have "j = k" using that filed unfolding waits_filed_def by blast
    with j show "(k, w) \<in> set es" by simp
  qed force
  then have "js_get (waits s') k = map_option (\<lambda>w. if w \<in> snd ` set es then g w else w) (js_get (waits s) k)" for k
    unfolding s'(1) get_replaced [OF ok es] by (simp split: option.splits)
  then show ?thesis using s'(2,3) js_ok_fold_set [OF ok] by (simp add: waits_mapped_def s'(1))
qed

lemma matched_wait_Inr: "wait_ok w \<Longrightarrow> signal_ok x \<Longrightarrow> matched_wait x w = Inr (matched_record x w)"
  by (simp add: matched_wait_def wait_ok_def signal_ok_def matched_record_def laterSignalTimestamp_ok)

lemma ended_wait_Inr: "wait_ok w \<Longrightarrow> is_timestamp at \<Longrightarrow> ended_wait st at w = Inr (ended_record st at w)"
  by (simp add: ended_wait_def wait_ok_def ended_record_def laterSignalTimestamp_ok)

lemma wait_ok_selector: "wait_ok w \<Longrightarrow> selector_ok (selector w)"
  by (simp add: wait_ok_def wait_draft_ok_def)

lemma entry_wait_ok: "signal_inv m s \<Longrightarrow> (k, w) \<in> set (waits s) \<Longrightarrow> wait_ok w"
  using signal_invD(4,6) js_get_entry by metis

section \<open>Recording a signal\<close>

definition awaiting :: "signal_record \<Rightarrow> signal_store \<Rightarrow> (js_string \<times> signal_wait) list" where
  "awaiting x s = sort_key (\<lambda>(k, w). waitKey w) (filter (\<lambda>(k, w). awaits x w) (waits s))"

lemma waits_matching_Inr:
  assumes "signal_inv m s" "signal_ok x"
  shows "waits_matching x s = Inr (awaiting x s)"
proof -
  have "(\<lambda>(k, w). if waitStatus w = Waiting then signalWaitMatches w x else Inr False) e = Inr ((\<lambda>(k, w). awaits x w) e)"
    if "e \<in> set (waits s)" for e
  proof -
    obtain k w where e: "e = (k, w)" by fastforce
    have "selector_ok (selector w)" using that entry_wait_ok [OF assms(1)] wait_ok_selector by (simp add: e)
    then show ?thesis using assms(2) by (simp add: e awaits_def signalWaitMatches_Inr)
  qed
  then show ?thesis
    by (simp add: waits_matching_def awaiting_def filter_checked_Inr [where P = "\<lambda>(k, w). awaits x w"])
qed

lemma signalFingerprint_Inr [simp]: "signalFingerprint d = Inr (canonical (signal_json d))"
  by (simp add: signalFingerprint_def)

lemma signalWaitFingerprint_Inr [simp]: "signalWaitFingerprint d = Inr (canonical (wait_json d))"
  by (simp add: signalWaitFingerprint_def)

lemma record_existing:
  assumes inv: "signal_inv m s" and y: "js_get (signals s) (signal_key_of d) = Some y"
  shows "record_signal d m s =
    (s, if canonical (signal_json d) = canonical (signal_json (signal_draft.truncate y))
        then Inr (y, matchedWaitIds (signalKey y) s) else Inl SignalConflict)"
proof -
  have "int (length (matchedWaitIds (signalKey y) s)) \<le> m"
    using signal_invD(8) [OF inv] length_matchedWaits [OF signal_invD(4) [OF inv]] by (simp add: matchedWaitIds_def)
  then show ?thesis
    using signal_invD(5) [OF inv y] y by (auto simp: record_signal_def Let_def signal_key_of_def ensure_def)
qed

lemma record_new:
  assumes inv: "signal_inv m s" and d: "signal_ok d" and fresh: "js_get (signals s) (signal_key_of d) = None"
    and x: "x = signal_of d (nextSignalKey s)"
  shows "\<not> int (length (awaiting x s)) \<le> m \<and> record_signal d m s = (s, Inl SignalWaitFanout) \<or>
    (\<exists>s'. record_signal d m s = (s', Inr (x, map (waitId \<circ> snd) (awaiting x s))) \<and> signal_step m s s' \<and>
       js_get (signals s') (signal_key_of d) = Some x)"
proof (cases "int (length (awaiting x s)) \<le> m")
  case True
  let ?es = "awaiting x s"
  let ?s1 = "s\<lparr>nextSignalKey := nextSignalKey s + 1, signals := js_set (signal_key_of d) x (signals s),
    signalFingerprints := js_set (signal_key_of d) (canonical (signal_json d)) (signalFingerprints s)\<rparr>"
  let ?s' = "?s1\<lparr>waits := fold (\<lambda>e. js_set (fst e) (matched_record x (snd e))) ?es (waits s)\<rparr>"
  have sx: "signal_ok x" using d by (simp add: x)
  have sub: "set ?es \<subseteq> set (waits s)" by (auto simp: awaiting_def)
  have dist: "distinct (map fst ?es)"
    unfolding awaiting_def by (rule distinct_sorted_filter [OF signal_invD(4) [OF inv]])
  have "\<forall>e \<in> set ?es. matched_wait x (snd e) = Inr (matched_record x (snd e))"
  proof
    fix e assume "e \<in> set ?es"
    then have "(fst e, snd e) \<in> set (waits s)" using sub by auto
    then show "matched_wait x (snd e) = Inr (matched_record x (snd e))"
      using entry_wait_ok [OF inv] matched_wait_Inr sx by blast
  qed
  from replace_waits_Inr [OF this, of ?s1]
  have run: "record_signal d m s = (?s', Inr (x, map (waitId \<circ> snd) ?es))"
    using fresh True waits_matching_Inr [OF inv sx]
    by (simp add: record_signal_def Let_def signal_key_of_def x [symmetric] case_prod_unfold comp_def)
  have "waits_mapped (\<lambda>w. if w \<in> snd ` set ?es then matched_record x w else w) s ?s'"
    by (rule replaced_mapped [OF signal_invD(2) [OF inv] sub dist]) simp_all
  moreover have "w \<in> snd ` set ?es \<longleftrightarrow> awaits x w" if "stored_wait s w" for w
    using that js_get_entry [OF signal_invD(4) [OF inv]] by (force simp: awaiting_def stored_wait_def)
  ultimately have "waits_mapped (\<lambda>w. if awaits x w then matched_record x w else w) s ?s'"
    using waits_mapped_cong [of s "\<lambda>w. if w \<in> snd ` set ?es then matched_record x w else w"
      "\<lambda>w. if awaits x w then matched_record x w else w" ?s'] by simp
  moreover have "length ?es = card {k. \<exists>w. js_get (waits s) k = Some w \<and> awaits x w}"
    by (simp add: awaiting_def count_entries [OF signal_invD(4) [OF inv]])
  ultimately have "signal_step m s ?s'"
    using fresh d True by (intro signal_recorded [of s d x m ?s']) (simp_all add: x)
  then show ?thesis using run by (auto simp: js_get_set)
next
  case False
  then show ?thesis using fresh waits_matching_Inr [OF inv, of x] d
    by (simp add: record_signal_def Let_def signal_key_of_def x)
qed

section \<open>Registering a wait\<close>

definition matching :: "signal_wait_draft \<Rightarrow> signal_store \<Rightarrow> signal_record list" where
  "matching d s = sort_key signalKey (filter (wait_matches d) (js_values (signals s)))"

lemma stored_signal_values: "signal_inv m s \<Longrightarrow> x \<in> set (js_values (signals s)) \<longleftrightarrow> stored_signal s x"
  by (simp add: stored_signal_def set_js_values signal_invD(3))

lemma signals_matching_Inr:
  assumes "signal_inv m s" "selector_ok (selector d)"
  shows "signals_matching d s = Inr (matching d s)"
proof -
  have "signalWaitMatches d x = Inr (wait_matches d x)" if "x \<in> set (js_values (signals s))" for x
    using that signal_invD(5) [OF assms(1)] assms(2)
    by (auto simp: stored_signal_values [OF assms(1)] stored_signal_def signalWaitMatches_Inr)
  then show ?thesis by (simp add: signals_matching_def matching_def filter_checked_Inr)
qed

lemma sorted_first: "sort_key f xs = x # ys \<Longrightarrow> x \<in> set xs \<and> (\<forall>y \<in> set xs. f x \<le> (f y :: nat))"
proof -
  assume *: "sort_key f xs = x # ys"
  have "sorted (map f (x # ys))" by (metis * sorted_sort_key)
  moreover have "set xs = set (x # ys)" by (metis * set_sort)
  ultimately show ?thesis by auto
qed

lemma matching_first:
  assumes "signal_inv m s"
  shows "matching d s = [] \<Longrightarrow> stored_signal s x \<Longrightarrow> \<not> wait_matches d x"
    "matching d s = x # xs \<Longrightarrow> first_match s d x"
proof -
  show "\<not> wait_matches d x" if "matching d s = []" "stored_signal s x"
  proof -
    have "set (filter (wait_matches d) (js_values (signals s))) = {}"
      using that(1) unfolding matching_def by (metis list.set(1) set_sort)
    then show ?thesis using that(2) stored_signal_values [OF assms] by auto
  qed
  show "first_match s d x" if "matching d s = x # xs"
    using sorted_first [OF that [unfolded matching_def]] stored_signal_values [OF assms]
    by (auto simp: first_match_def dest: leD)
qed

definition registered_at :: "signal_wait_draft \<Rightarrow> signal_record option \<Rightarrow> js_string" where
  "registered_at d found = (case found of None \<Rightarrow> waitRecordedAt d | Some x \<Rightarrow> max (waitRecordedAt d) (signalRecordedAt x))"

definition first_of :: "'a list \<Rightarrow> 'a option" where
  "first_of xs = (case xs of [] \<Rightarrow> None | x # _ \<Rightarrow> Some x)"

lemma register_existing:
  assumes inv: "signal_inv m s" and y: "js_get (waits s) (wait_key_of d) = Some w"
  shows "registerWait d m s =
    (s, if canonical (wait_json d) = canonical (wait_json (signal_wait_draft.truncate w)) then Inr w else Inl SignalWaitConflict)"
  using signal_invD(6) [OF inv y] y by (auto simp: registerWait_def Let_def wait_key_of_def ensure_def)

lemma register_new:
  assumes inv: "signal_inv m s" and d: "wait_draft_ok d" and fresh: "js_get (waits s) (wait_key_of d) = None"
  shows "(\<exists>x. first_match s d x \<and> \<not> int (fanout (signalKey x) s) < m \<and> registerWait d m s = (s, Inl SignalWaitFanout)) \<or>
    (\<exists>s' found. registerWait d m s = (s', Inr (wait_of d (nextWaitKey s) found (registered_at d found))) \<and> signal_step m s s' \<and>
       found_match m s d found \<and> js_get (waits s') (wait_key_of d) = Some (wait_of d (nextWaitKey s) found (registered_at d found)))"
proof -
  define found where "found = first_of (matching d s)"
  have len: "length (matchedWaitIds n s) = fanout n s" for n
    using length_matchedWaits [OF signal_invD(4) [OF inv]] by (simp add: matchedWaitIds_def)
  have first: "first_match s d x" "is_timestamp (signalRecordedAt x)" if "found = Some x" for x
  proof -
    show "first_match s d x" using that matching_first(2) [OF inv] by (auto simp: found_def first_of_def split: list.splits)
    then show "is_timestamp (signalRecordedAt x)"
      using signal_invD(5) [OF inv] by (auto simp: first_match_def stored_signal_def signal_ok_def)
  qed
  have later: "(case found of None \<Rightarrow> Inr (waitRecordedAt d) | Some x \<Rightarrow> laterSignalTimestamp (waitRecordedAt d) (signalRecordedAt x)) =
      Inr (registered_at d found)"
    using d first by (auto simp: registered_at_def wait_draft_ok_def split: option.splits)
  show ?thesis
  proof (cases "\<exists>x. found = Some x \<and> \<not> int (fanout (signalKey x) s) < m")
    case True
    then obtain x where x: "found = Some x" "\<not> int (fanout (signalKey x) s) < m" by auto
    have "registerWait d m s = (s, Inl SignalWaitFanout)"
      using fresh x signals_matching_Inr [OF inv] d
      by (simp add: registerWait_def Let_def wait_key_of_def wait_draft_ok_def len flip: first_of_def found_def)
    with first x show ?thesis by blast
  next
    case False
    let ?w = "wait_of d (nextWaitKey s) found (registered_at d found)"
    let ?s' = "s\<lparr>nextWaitKey := nextWaitKey s + 1, waits := js_set (wait_key_of d) ?w (waits s),
      waitFingerprints := js_set (wait_key_of d) (canonical (wait_json d)) (waitFingerprints s)\<rparr>"
    have room: "(case found of None \<Rightarrow> Inr () | Some x \<Rightarrow> ensure (\<not> m \<le> int (length (matchedWaitIds (signalKey x) s))) SignalWaitFanout) = Inr ()"
      using False by (auto simp: len split: option.splits)
    have "registerWait d m s = (?s', Inr ?w)"
      using fresh room later signals_matching_Inr [OF inv] d
      by (simp add: registerWait_def Let_def wait_key_of_def wait_draft_ok_def flip: first_of_def found_def)
    moreover have fm: "found_match m s d found"
      using False first matching_first(1) [OF inv] by (auto simp: found_match_def found_def first_of_def split: option.splits list.splits)
    moreover have "is_timestamp (registered_at d found)"
      using d first by (auto simp: registered_at_def wait_draft_ok_def is_timestamp_max split: option.splits)
    then have "signal_step m s ?s'"
      using fresh d fm by (intro wait_registered [of s d m found "registered_at d found" ?s']) (simp_all add: signals_kept_def)
    ultimately show ?thesis by (auto simp: js_get_set)
  qed
qed

section \<open>Ending and purging waits\<close>

lemma end_waits_step:
  assumes inv: "signal_inv m s" and st: "st = WaitCancelled \<or> st = WaitExpired" and at: "is_timestamp at"
    and es: "set es \<subseteq> set (waits s)" "distinct (map fst es)" "\<forall>e \<in> set es. waitStatus (snd e) = Waiting"
    and s': "s' = s\<lparr>waits := fold (\<lambda>e. js_set (fst e) (ended_record st at (snd e))) es (waits s)\<rparr>"
  shows "signal_step m s s'"
  by (rule waits_ended [OF st at _ _ replaced_mapped [OF signal_invD(2) [OF inv] es(1,2)], of s'])
    (use es(3) s' in \<open>auto simp: signals_kept_def\<close>)

lemma cancelWait_result:
  assumes inv: "signal_inv m s" and at: "is_timestamp at"
  shows "cancelWait k rv at s =
     (case getWait k s of
        None \<Rightarrow> (s, Inl SignalWaitNotFound)
      | Some w \<Rightarrow>
          if waitRevision w \<noteq> rv then (s, Inl SignalWaitRevisionConflict)
          else if waitStatus w \<noteq> Waiting then (s, Inl SignalWaitTerminal)
          else (s\<lparr>waits := js_set (waitMapKey k (wk_waitId k)) (ended_record WaitCancelled at w) (waits s)\<rparr>,
                Inr (ended_record WaitCancelled at w)))"
  using signal_invD(6) [OF inv] ended_wait_Inr [OF _ at]
  by (auto simp: cancelWait_def getWait_def Let_def ensure_def split: option.splits)

lemma signal_cancel_step:
  assumes inv: "signal_inv m s" and run: "cancelWait k rv at s = (s', r)"
  shows "(s' = s \<and> (\<exists>e. r = Inl e)) \<or> signal_step m s s' \<and>
    (\<exists>w. getWait k s = Some w \<and> waitRevision w = rv \<and> waitStatus w = Waiting \<and> r = Inr (ended_record WaitCancelled at w) \<and>
       getWait k s' = Some (ended_record WaitCancelled at w))"
proof (cases "is_timestamp at")
  case False
  then have "ended_wait WaitCancelled at w \<noteq> Inr v" for w v by (auto simp: ended_wait_def rbind_eq_Inr)
  then have "\<forall>w. \<exists>e. ended_wait WaitCancelled at w = Inl e" by (metis sum.exhaust)
  then obtain f where "\<forall>w. ended_wait WaitCancelled at w = Inl (f w)" by metis
  then show ?thesis using run
    by (auto simp: cancelWait_def Let_def commit_def split: option.splits sum.splits)
next
  case True
  let ?key = "waitMapKey k (wk_waitId k)"
  show ?thesis
  proof (cases "\<exists>w. getWait k s = Some w \<and> waitRevision w = rv \<and> waitStatus w = Waiting")
    case False
    then show ?thesis using run cancelWait_result [OF inv True, of k rv] by (auto split: option.splits if_splits)
  next
    case found: True
    then obtain w where w: "getWait k s = Some w" "waitRevision w = rv" "waitStatus w = Waiting" by auto
    let ?s' = "s\<lparr>waits := js_set ?key (ended_record WaitCancelled at w) (waits s)\<rparr>"
    have "(?key, w) \<in> set (waits s)" using w(1) js_get_entry [OF signal_invD(4) [OF inv]] by (simp add: getWait_def)
    then have "signal_step m s ?s'"
      using w by (intro end_waits_step [OF inv _ True, of WaitCancelled "[(?key, w)]"]) simp_all
    then show ?thesis using run cancelWait_result [OF inv True, of k rv] w by (auto simp: getWait_def js_get_set)
  qed
qed

definition due :: "signal_generation \<Rightarrow> js_string \<Rightarrow> signal_wait \<Rightarrow> bool" where
  "due g through w \<longleftrightarrow> waitStatus w = Waiting \<and> sameSignalGeneration (generation_of (waitPartition w)) g \<and>
     (case throughTickInclusive (selector w) of None \<Rightarrow> False | Some t \<Rightarrow> of_decimal t \<le> of_decimal through)"

definition expiring :: "signal_generation \<Rightarrow> js_string \<Rightarrow> int \<Rightarrow> signal_store \<Rightarrow> (js_string \<times> signal_wait) list" where
  "expiring g through n s = first_items n (sort_key (\<lambda>(k, w). waitKey w) (filter (\<lambda>(k, w). due g through w) (waits s)))"

lemma expire_step:
  assumes inv: "signal_inv m s" and t: "is_decimal through" and at: "is_timestamp at"
  shows "\<exists>s'. expireWaits g through at n s = (s', Inr (map (\<lambda>(k, w). waitKey w) (expiring g through n s))) \<and> signal_step m s s'"
proof -
  let ?es = "expiring g through n s"
  have "(\<lambda>(k, w). due_wait g through w) e = Inr ((\<lambda>(k, w). due g through w) e)" if "e \<in> set (waits s)" for e
  proof -
    obtain k w where e: "e = (k, w)" by fastforce
    have "selector_ok (selector w)" using that entry_wait_ok [OF inv] wait_ok_selector by (simp add: e)
    then show ?thesis using t
      by (auto simp: e due_wait_def due_def selector_ok_def opt_ok_def compareSignalTicks_decimal split: option.splits)
  qed
  then have found: "filter_checked (\<lambda>(k, w). due_wait g through w) (waits s) = Inr (filter (\<lambda>(k, w). due g through w) (waits s))"
    by (rule filter_checked_Inr)
  have sub: "set ?es \<subseteq> set (filter (\<lambda>(k, w). due g through w) (waits s))"
    using set_first_items [of n "sort_key (\<lambda>(k, w). waitKey w) (filter (\<lambda>(k, w). due g through w) (waits s))"] by (simp add: expiring_def)
  have dist: "distinct (map fst ?es)"
    unfolding expiring_def by (rule distinct_first_items [OF distinct_sorted_filter [OF signal_invD(4) [OF inv]]])
  have "ended_wait WaitExpired at (snd e) = Inr (ended_record WaitExpired at (snd e))" if "e \<in> set ?es" for e
    using that sub entry_wait_ok [OF inv, of "fst e" "snd e"] ended_wait_Inr [OF _ at] by auto
  then have run: "replace_waits (ended_wait WaitExpired at) ?es s =
      (s\<lparr>waits := fold (\<lambda>e. js_set (fst e) (ended_record WaitExpired at (snd e))) ?es (waits s)\<rparr>, Inr ())"
    by (intro replace_waits_Inr) blast
  have "signal_step m s (s\<lparr>waits := fold (\<lambda>e. js_set (fst e) (ended_record WaitExpired at (snd e))) ?es (waits s)\<rparr>)"
    by (rule end_waits_step [OF inv _ at _ dist]) (use sub in \<open>auto simp: due_def\<close>)
  then show ?thesis using run by (simp add: expireWaits_def found Let_def flip: expiring_def)
qed

lemma purge_waits_step:
  assumes inv: "signal_inv m s"
  shows "signal_step m s (fst (purge_waits g before n s))"
proof -
  let ?P = "\<lambda>(k, w). waitStatus w \<noteq> Waiting \<and> sameSignalGeneration (generation_of (waitPartition w)) g \<and> waitUpdatedAt w < before"
  let ?es = "first_items n (sort_key (\<lambda>(k, w). waitKey w) (filter ?P (waits s)))"
  have sub: "set ?es \<subseteq> set (filter ?P (waits s))"
    using set_first_items [of n "sort_key (\<lambda>(k, w). waitKey w) (filter ?P (waits s))"] by simp
  have "waitStatus w \<noteq> Waiting" if "k \<in> set (map fst ?es)" "js_get (waits s) k = Some w" for k w
  proof -
    obtain v where v: "(k, v) \<in> set ?es" using \<open>k \<in> set (map fst ?es)\<close> by auto
    then have "js_get (waits s) k = Some v" using sub js_get_entry [OF signal_invD(4) [OF inv]] by auto
    then show ?thesis using v sub that(2) by auto
  qed
  then show ?thesis unfolding purge_waits_def Let_def fst_conv
    by (rule waits_purged) (simp_all add: signals_kept_def)
qed

lemma purge_signals_step:
  assumes inv: "signal_inv m s"
  shows "signal_step m s (fst (purge_signals g before n s))"
proof -
  let ?P = "\<lambda>(k, x). sameSignalGeneration (generation_of (signalPartition x)) g \<and> signalRecordedAt x < before \<and>
    signalKey x \<notin> set (referenced_signals s)"
  let ?es = "first_items n (sort_key (\<lambda>(k, x). signalKey x) (filter ?P (signals s)))"
  have sub: "set ?es \<subseteq> set (filter ?P (signals s))"
    using set_first_items [of n "sort_key (\<lambda>(k, x). signalKey x) (filter ?P (signals s))"] by simp
  have "matchedSignalKey w \<noteq> Some (signalKey x)"
    if "k \<in> set (map fst ?es)" "js_get (signals s) k = Some x" "stored_wait s w" for k x w
  proof -
    obtain y where y: "(k, y) \<in> set ?es" using \<open>k \<in> set (map fst ?es)\<close> by auto
    then have "js_get (signals s) k = Some y" using sub js_get_entry [OF signal_invD(3) [OF inv]] by auto
    then have x: "signalKey x \<notin> set (referenced_signals s)" using y sub that(2) by auto
    have "w \<in> set (js_values (waits s))"
      using that(3) by (simp add: stored_wait_def set_js_values [OF signal_invD(4) [OF inv]])
    then show ?thesis using x by (force simp: referenced_signals_def List.map_filter_def)
  qed
  then show ?thesis unfolding purge_signals_def Let_def fst_conv
    by (rule signals_purged) (simp_all add: waits_kept_def)
qed

section \<open>Later states\<close>

definition wait_moved :: "signal_wait \<Rightarrow> signal_wait \<Rightarrow> bool" where
  "wait_moved v w \<longleftrightarrow> w = v \<or> waitStatus v = Waiting \<and> waitStatus w \<noteq> Waiting \<and>
     signal_wait_draft.truncate w = signal_wait_draft.truncate v \<and> waitKey w = waitKey v \<and>
     waitRevision w = to_decimal (Suc (of_decimal (waitRevision v))) \<and> waitUpdatedAt v \<le> waitUpdatedAt w"

definition signal_later :: "signal_store \<Rightarrow> signal_store \<Rightarrow> bool" where
  "signal_later s s' \<longleftrightarrow> nextSignalKey s \<le> nextSignalKey s' \<and> nextWaitKey s \<le> nextWaitKey s' \<and>
     (\<forall>k x. js_get (signals s') k = Some x \<longrightarrow> signalKey x < nextSignalKey s \<longrightarrow> js_get (signals s) k = Some x) \<and>
     (\<forall>k w. js_get (waits s') k = Some w \<longrightarrow> waitKey w < nextWaitKey s \<longrightarrow>
        (\<exists>v. js_get (waits s) k = Some v \<and> wait_moved v w))"

lemma wait_moved_trans: "wait_moved u v \<Longrightarrow> wait_moved v w \<Longrightarrow> wait_moved u w"
  by (auto simp: wait_moved_def)

lemma wait_moved_simps [simp]:
  "wait_moved w w" "waitStatus w = Waiting \<Longrightarrow> wait_moved w (matched_record x w)"
  "waitStatus w = Waiting \<Longrightarrow> st \<noteq> Waiting \<Longrightarrow> wait_moved w (ended_record st at w)"
  by (simp_all add: wait_moved_def matched_record_def ended_record_def signal_wait_draft.defs)

lemma signal_later_refl [simp]: "signal_later s s"
  by (auto simp: signal_later_def)

lemma signal_later_trans:
  assumes "signal_later s t" "signal_later t u"
  shows "signal_later s u"
  unfolding signal_later_def
proof (intro conjI allI impI)
  fix k w assume w: "js_get (waits u) k = Some w" "waitKey w < nextWaitKey s"
  then have "waitKey w < nextWaitKey t" using assms(1) by (simp add: signal_later_def)
  then obtain v where v: "js_get (waits t) k = Some v" "wait_moved v w" using assms(2) w(1) unfolding signal_later_def by blast
  then have "waitKey v < nextWaitKey s" using w(2) by (auto simp: wait_moved_def)
  then obtain v' where "js_get (waits s) k = Some v'" "wait_moved v' v" using assms(1) v(1) unfolding signal_later_def by blast
  with v show "\<exists>v. js_get (waits s) k = Some v \<and> wait_moved v w" by (blast intro: wait_moved_trans)
qed (use assms in \<open>auto simp: signal_later_def\<close>)

lemma mapped_later:
  assumes "waits_mapped f s s'" "\<And>w. stored_wait s w \<Longrightarrow> wait_moved w (f w)" "js_get (waits s') k = Some w"
  shows "\<exists>v. js_get (waits s) k = Some v \<and> wait_moved v w"
  using assms by (auto simp: waits_mapped_def stored_wait_def)

lemma signal_step_later:
  assumes "signal_step m s s'" and inv: "signal_inv m s"
  shows "signal_later s s'"
  using assms(1)
proof cases
  case (signal_recorded d x)
  have "\<exists>v. js_get (waits s) k = Some v \<and> wait_moved v w" if "js_get (waits s') k = Some w" for k w
    by (rule mapped_later [OF signal_recorded(8) _ that]) (simp add: awaits_def)
  then show ?thesis
    using signal_recorded(3,5,7,8) by (auto simp: signal_later_def js_get_set waits_mapped_def split: if_splits)
next
  case (wait_registered d found at)
  then show ?thesis by (auto simp: signal_later_def js_get_set signals_kept_def split: if_splits)
next
  case (waits_ended st at P)
  have "\<exists>v. js_get (waits s) k = Some v \<and> wait_moved v w" if "js_get (waits s') k = Some w" for k w
    by (rule mapped_later [OF waits_ended(5) _ that]) (use waits_ended(1,3) in auto)
  then show ?thesis using waits_ended(4,5) by (simp add: signal_later_def signals_kept_def waits_mapped_def)
next
  case (waits_purged ks)
  then show ?thesis by (auto simp: signal_later_def signals_kept_def get_deleted split: if_splits intro: exI)
next
  case (signals_purged ks)
  then show ?thesis by (auto simp: signal_later_def waits_kept_def get_deleted split: if_splits intro: exI)
qed

section \<open>Runs of calls\<close>

text \<open>The calls of the service that change the store; a cancellation is its second half, on the store.\<close>

datatype signal_op =
    RecordSignal "js_value signal_draft"
  | RegisterWait signal_wait_draft
  | CancelWait signal_wait_key js_string js_string
  | ExpireWaits authority_partition js_string js_string int
  | PurgeWaits authority_partition js_string int
  | PurgeSignals authority_partition js_string int

fun exec_signal :: "signal_limits \<Rightarrow> signal_op \<Rightarrow> signal_store \<Rightarrow> signal_store" where
  "exec_signal l (RecordSignal i) s = fst (service_record l i s)"
| "exec_signal l (RegisterWait i) s = fst (service_register l i s)"
| "exec_signal l (CancelWait k rv at) s = fst (cancelWait k rv at s)"
| "exec_signal l (ExpireWaits p through at n) s = fst (service_expire l p through at n s)"
| "exec_signal l (PurgeWaits p before n) s = fst (service_purge_waits l p before n s)"
| "exec_signal l (PurgeSignals p before n) s = fst (service_purge_signals l p before n s)"

lemma commit_fst: "(\<And>x. r = Inr x \<Longrightarrow> P (fst (f x))) \<Longrightarrow> P s \<Longrightarrow> P (fst (commit s r f))"
  by (cases r) auto

lemma exec_signal_step:
  assumes inv: "signal_inv (maxWaitMatchesPerSignal l) s"
  shows "exec_signal l op s = s \<or> signal_step (maxWaitMatchesPerSignal l) s (exec_signal l op s)"
proof (cases op)
  case (RecordSignal i)
  have "fst (record_signal d (maxWaitMatchesPerSignal l) s) = s \<or>
      signal_step (maxWaitMatchesPerSignal l) s (fst (record_signal d (maxWaitMatchesPerSignal l) s))" if "signal_ok d" for d
    using record_existing [OF inv, of d] record_new [OF inv that _ refl] by (cases "js_get (signals s) (signal_key_of d)") fastforce+
  then show ?thesis
    using normalizeGameSignal_ok by (auto simp: RecordSignal service_record_def commit_def split: sum.splits)
next
  case (RegisterWait i)
  have "fst (registerWait d (maxWaitMatchesPerSignal l) s) = s \<or>
      signal_step (maxWaitMatchesPerSignal l) s (fst (registerWait d (maxWaitMatchesPerSignal l) s))" if "wait_draft_ok d" for d
    using register_existing [OF inv, of d] register_new [OF inv that] by (cases "js_get (waits s) (wait_key_of d)") fastforce+
  then show ?thesis
    using normalizeSignalWait_ok by (auto simp: RegisterWait service_register_def commit_def split: sum.splits)
next
  case (CancelWait k rv at)
  then show ?thesis using signal_cancel_step [OF inv prod.collapse [symmetric], of k rv at] by auto
next
  case (ExpireWaits p through at n)
  have "fst (expireWaits g through at n s) = s \<or> signal_step (maxWaitMatchesPerSignal l) s (fst (expireWaits g through at n s))"
    if "is_decimal through" "is_timestamp at" for g
    using expire_step [OF inv that, of g n] by auto
  then show ?thesis by (auto simp: ExpireWaits service_expire_def commit_def rbind_eq_Inr split: sum.splits)
next
  case (PurgeWaits p before n)
  then show ?thesis using purge_waits_step [OF inv, of _ before n]
    by (auto simp: service_purge_waits_def commit_def case_prod_unfold split: sum.splits)
next
  case (PurgeSignals p before n)
  then show ?thesis using purge_signals_step [OF inv, of _ before n]
    by (auto simp: service_purge_signals_def commit_def case_prod_unfold split: sum.splits)
qed

lemma exec_signal_advances:
  assumes "signal_inv (maxWaitMatchesPerSignal l) s"
  shows "signal_inv (maxWaitMatchesPerSignal l) (exec_signal l op s)" "signal_later s (exec_signal l op s)"
  using exec_signal_step [OF assms, of op] signal_step_inv [OF _ assms] signal_step_later [OF _ assms] assms by auto

interpretation signal_machine: invariant_machine "exec_signal l" "\<lambda>op s. True" "signal_inv (maxWaitMatchesPerSignal l)" for l
  by unfold_locales (rule exec_signal_advances(1))

lemma run_signal_advances:
  assumes "signal_inv (maxWaitMatchesPerSignal l) s"
  shows "signal_inv (maxWaitMatchesPerSignal l) (run_ops (exec_signal l) ops s)" "signal_later s (run_ops (exec_signal l) ops s)"
proof -
  have g: "guarded (exec_signal l) (\<lambda>op s. True) ops s" using guarded_True [of "exec_signal l" "\<lambda>op. True" ops s] by (simp add: list_all_iff)
  show "signal_inv (maxWaitMatchesPerSignal l) (run_ops (exec_signal l) ops s)"
    by (rule signal_machine.run_inv [OF assms g])
  show "signal_later s (run_ops (exec_signal l) ops s)"
    by (rule signal_machine.run_related [OF _ _ _ assms g]) (auto intro: signal_later_trans exec_signal_advances(2))
qed

lemma empty_signal_inv: "validateSignalLimits l = Inr () \<Longrightarrow> signal_inv (maxWaitMatchesPerSignal l) empty_signal_store"
  by (auto simp: signal_inv_def signals_filed_def waits_filed_def stored_wait_def fanout_def empty_signal_store_def
      validateSignalLimits_def signal_limit_def rbind_eq_Inr)

end
