(* ===== verification/Signal_Spec.thy ===== *)
theory Signal_Spec
  imports Signal_Run Samples
begin

text \<open>The properties of the signal service over every run of calls, and a sample run for the witnesses.\<close>

section \<open>A sample run\<close>

definition signal_limits0 :: signal_limits where
  "signal_limits0 = \<lparr>sl_maxPayloadBytes = 9, maxSubjectsPerSignal = 9, maxCausesPerSignal = 9, maxSignalFilterKinds = 9,
     maxWaitKinds = 9, maxWaitSubjects = 9, maxWaitMatchesPerSignal = 9, maxSignalPageSize = 9, maxWaitPageSize = 9,
     maxExpireBatchSize = 9, sl_maxPurgeBatchSize = 9\<rparr>"

definition signal_partition0 :: authority_partition where
  "signal_partition0 = \<lparr>pt_ownerId = js ''a'', pt_timelineId = js ''t'', pt_generation = js ''1'', pt_sessionId = None, pt_actorId = None\<rparr>"

definition wait_draft0 :: signal_wait_draft where
  "wait_draft0 = \<lparr>waitId = js ''r'', waitPartition = signal_partition0,
     selector = \<lparr>kinds = [js ''k''], subjectIdsAny = None, afterSignalKey = None, afterTickExclusive = None, throughTickInclusive = None\<rparr>,
     waitTarget = GoalStepTarget (js ''c'') (js ''s''), waitRecordedAt = t0\<rparr>"

definition signal_draft0 :: "json signal_draft" where
  "signal_draft0 = \<lparr>signalId = js ''s'', signalPartition = signal_partition0, signalKind = js ''k'', signalPayload = JNull,
     signalTime = \<lparr>gt_timelineId = js ''t'', gt_generation = js ''1'', tick = js ''0''\<rparr>, subjectIds = [], causeIds = [],
     signalRecordedAt = t1\<rparr>"

definition signal_input0 :: "js_value signal_draft" where
  "signal_input0 = \<lparr>signalId = js ''s'', signalPartition = signal_partition0, signalKind = js ''k'', signalPayload = VNull,
     signalTime = \<lparr>gt_timelineId = js ''t'', gt_generation = js ''1'', tick = js ''0''\<rparr>, subjectIds = [], causeIds = [],
     signalRecordedAt = t1\<rparr>"

definition signal0 :: signal_record where "signal0 = signal_of signal_draft0 1"

definition wait0 :: signal_wait where "wait0 = wait_of wait_draft0 1 None t0"

definition wait1 :: signal_wait where "wait1 = matched_record signal0 wait0"

definition waiting_store0 :: signal_store where
  "waiting_store0 = \<lparr>signals = [], signalFingerprints = [], waits = [(wait_key_of wait_draft0, wait0)],
     waitFingerprints = [(wait_key_of wait_draft0, canonical (wait_json wait_draft0))], nextSignalKey = 1, nextWaitKey = 2\<rparr>"

definition matched_store0 :: signal_store where
  "matched_store0 = \<lparr>signals = [(signal_key_of signal_draft0, signal0)],
     signalFingerprints = [(signal_key_of signal_draft0, canonical (signal_json signal_draft0))],
     waits = [(wait_key_of wait_draft0, wait1)],
     waitFingerprints = [(wait_key_of wait_draft0, canonical (wait_json wait_draft0))], nextSignalKey = 2, nextWaitKey = 2\<rparr>"

lemma signal_limits0_ok: "validateSignalLimits signal_limits0 = Inr ()"
  by (simp add: validateSignalLimits_def signal_limit_def signal_limits0_def is_safe_integer_def max_safe_integer_def)

lemma sample_null: "normalizeJsonValue VNull = Inr JNull" "utf8_length (canonical JNull) = 4"
  using normalizeJsonValue_of_json [of JNull] by (simp_all add: canonical_def js_def utf8_small)

lemma sample_folds: "signal_of signal_draft0 (Suc 0) = signal0" "wait_of wait_draft0 (Suc 0) None t0 = wait0"
  "waitStatus wait0 = Waiting" "waitId wait0 = js ''r''" "maxWaitMatchesPerSignal signal_limits0 = 9"
  by (simp_all add: signal0_def wait0_def wait_of_def signal_wait_draft.defs signal_wait.defs wait_draft0_def signal_limits0_def)

lemma sample_checks [simp]:
  "validateSignalDecimal (js ''1'') n = Inr ()" "validateSignalTimestamp t0 = Inr ()" "validateSignalTimestamp t1 = Inr ()"
  by simp_all

lemma sample_drafts_ok [simp]: "wait_draft_ok wait_draft0" "signal_ok signal_draft0"
  by (simp_all add: wait_draft_ok_def wait_draft0_def selector_ok_def opt_ok_def signal_ok_def signal_draft0_def)

lemma sample_signal: "normalizeGameSignal signal_input0 signal_limits0 = Inr signal_draft0"
  by (simp add: normalizeGameSignal_def signal_input0_def signal_draft0_def assertOpaqueIdentifier_def sample_null
      normalizeSignalPartition_def normalizeSignalGameTime_def assertGameTime_def game_time_ok_def signal_partition0_def
      normalizeIdentifierSet_def signal_limits0_def)

lemma sample_wait: "normalizeSignalWait wait_draft0 signal_limits0 = Inr wait_draft0"
  by (simp add: normalizeSignalWait_def wait_draft0_def assertOpaqueIdentifier_def
      normalizeSignalPartition_def signal_partition0_def normalizeSignalWaitSelector_def validateSignalCursor_def when_some_def
      normalizeIdentifierSet_def signal_limits0_def tick_range_ok_def)

lemma sample_registered: "service_register signal_limits0 wait_draft0 empty_signal_store = (waiting_store0, Inr wait0)"
  by (simp add: service_register_def sample_wait registerWait_def Let_def empty_signal_store_def signals_matching_def js_values_def
      waiting_store0_def wait0_def wait_key_of_def js_set_def) (simp add: wait_draft0_def signal_limits0_def)

lemma sample_recorded: "service_record signal_limits0 signal_input0 waiting_store0 = (matched_store0, Inr (signal0, [js ''r'']))"
proof -
  have m: "signalWaitMatches wait0 signal0 = Inr True"
    by (simp add: signalWaitMatches_def wait0_def signal0_def wait_of_def signal_of_def signal_wait_draft.defs signal_wait.defs
        signal_draft.defs signal_record.defs wait_draft0_def signal_draft0_def signal_partition0_def sameSignalGeneration_def generation_of_def
        and_then_def)
  have w: "matched_wait signal0 wait0 = Inr wait1" unfolding wait1_def
    by (rule matched_wait_Inr) (simp_all add: wait_ok_def wait0_def signal0_def)
  have k: "signalMapKey (generation_of (signalPartition signal_draft0)) (signalId signal_draft0) = signal_key_of signal_draft0"
    by (simp add: signal_key_of_def)
  show ?thesis
    by (simp add: service_record_def sample_signal record_signal_def Let_def waiting_store0_def waits_matching_def
        matched_store0_def k js_set_def sample_folds m w)
qed

abbreviation signal_run :: "signal_limits \<Rightarrow> signal_op list \<Rightarrow> signal_store" where
  "signal_run l ops \<equiv> run_ops (exec_signal l) ops empty_signal_store"

definition sample_ops :: "signal_op list" where
  "sample_ops = [RegisterWait wait_draft0, RecordSignal signal_input0]"

lemma signal_sample_run: "signal_run signal_limits0 sample_ops = matched_store0"
  by (simp add: sample_ops_def sample_registered sample_recorded)

lemma signal_sample_stored: "stored_wait matched_store0 wait1" "stored_signal matched_store0 x \<longleftrightarrow> x = signal0"
  by (auto simp: stored_wait_def stored_signal_def matched_store0_def js_get_def)

lemma sample_matched: "waitStatus wait1 = Matched" "matchedSignalKey wait1 = Some 1" "signalKey signal0 = 1"
  by (simp_all add: wait1_def signal0_def)

lemma signal_run_inv: "validateSignalLimits l = Inr () \<Longrightarrow> signal_inv (maxWaitMatchesPerSignal l) (signal_run l ops)"
  by (rule run_signal_advances(1) [OF empty_signal_inv])

section \<open>Matching\<close>

lemma matches_stored:
  assumes "signal_inv m s" "stored_wait s w" "stored_signal s x"
  shows "signalWaitMatches w x = Inr (wait_matches w x)"
  using assms signal_invD(5,6) [OF assms(1)]
  by (auto simp: stored_wait_def stored_signal_def wait_ok_selector intro!: signalWaitMatches_Inr)

lemma stored_match:
  assumes inv: "signal_inv m s" and w: "stored_wait s w"
  shows "case waitStatus w of
      Waiting \<Rightarrow> \<forall>x. stored_signal s x \<longrightarrow> signalWaitMatches w x = Inr False
    | Matched \<Rightarrow> \<exists>x. stored_signal s x \<and> matchedSignalKey w = Some (signalKey x) \<and> signalWaitMatches w x = Inr True \<and>
        (\<forall>y. stored_signal s y \<longrightarrow> signalKey y < signalKey x \<longrightarrow> signalWaitMatches w y = Inr False)
    | _ \<Rightarrow> matchedSignalKey w = None"
proof -
  have "match_state s w" using inv w by (simp add: signal_inv_def)
  then show ?thesis using matches_stored [OF inv w]
    by (auto simp: match_state_def first_match_def split: signal_wait_status.splits)
qed

text \<open>C29: over every run of calls no wait misses its signal: a waiting wait matches no stored signal, and a matched wait points
  at a stored signal that it matches, the earliest one that it matches among the stored signals; a cancelled or expired
  wait points at none.\<close>

theorem waits_match_first_signal:
  assumes "validateSignalLimits l = Inr ()" and "stored_wait (signal_run l ops) w"
  shows "case waitStatus w of
      Waiting \<Rightarrow> \<forall>x. stored_signal (signal_run l ops) x \<longrightarrow> signalWaitMatches w x = Inr False
    | Matched \<Rightarrow> \<exists>x. stored_signal (signal_run l ops) x \<and> matchedSignalKey w = Some (signalKey x) \<and> signalWaitMatches w x = Inr True \<and>
        (\<forall>y. stored_signal (signal_run l ops) y \<longrightarrow> signalKey y < signalKey x \<longrightarrow> signalWaitMatches w y = Inr False)
    | _ \<Rightarrow> matchedSignalKey w = None"
  by (rule stored_match [OF signal_run_inv [OF assms(1)] assms(2)])

theorem waits_match_first_signal_witness: "signalWaitMatches wait1 signal0 = Inr True"
  using waits_match_first_signal [OF signal_limits0_ok, of sample_ops wait1]
  by (auto simp: signal_sample_run signal_sample_stored sample_matched)

text \<open>Over every run of calls no signal has more matched waits than the fan-out limit.\<close>

lemma signal_fanout_bounded:
  assumes "validateSignalLimits l = Inr ()"
  shows "int (length (matchedWaitIds n (signal_run l ops))) \<le> maxWaitMatchesPerSignal l"
  using signal_invD(8) [OF signal_run_inv [OF assms]] length_matchedWaits [OF signal_invD(4) [OF signal_run_inv [OF assms]]]
  by (simp add: matchedWaitIds_def)

section \<open>What stays\<close>

lemma waits_moved:
  assumes inv: "signal_inv (maxWaitMatchesPerSignal l) s" and w: "js_get (waits (run_ops (exec_signal l) ops s)) k = Some w"
    and v: "js_get (waits s) j = Some v" and key: "waitKey v = waitKey w"
  shows "k = j \<and> wait_moved v w"
proof -
  let ?s' = "run_ops (exec_signal l) ops s"
  have "waitKey w < nextWaitKey s" using signal_invD(6) [OF inv v] key by simp
  then obtain u where u: "js_get (waits s) k = Some u" "wait_moved u w"
    using run_signal_advances(2) [OF inv, of ops] w unfolding signal_later_def by blast
  then have "waitKey u = waitKey w" by (auto simp: wait_moved_def)
  then have "k = j" using signal_invD(2) [OF inv] u(1) v key unfolding waits_filed_def by metis
  with u v show ?thesis by simp
qed

text \<open>C30: a wait that was matched, cancelled or expired never changes again, whatever calls run later, and a waiting one
  keeps what it was registered with and moves on at most once, to its next revision.\<close>

theorem settled_waits_final:
  assumes "validateSignalLimits l = Inr ()" and "s = signal_run l ops" and "js_get (waits s) j = Some v"
    and "js_get (waits (run_ops (exec_signal l) ops' s)) k = Some w" and "waitKey v = waitKey w"
  shows "(waitStatus v \<noteq> Waiting \<longrightarrow> w = v) \<and> (w \<noteq> v \<longrightarrow> waitStatus w \<noteq> Waiting \<and>
     signal_wait_draft.truncate w = signal_wait_draft.truncate v \<and>
     waitRevision w = to_decimal (Suc (of_decimal (waitRevision v))) \<and> waitUpdatedAt v \<le> waitUpdatedAt w)"
  using waits_moved [OF signal_run_inv [OF assms(1)] _ _ assms(5), of ops' ops k j] assms(2-4) by (auto simp: wait_moved_def)

theorem settled_waits_final_witness: "wait1 \<noteq> wait0 \<and> waitRevision wait1 = to_decimal (Suc (of_decimal (waitRevision wait0)))"
proof -
  have r: "waiting_store0 = signal_run signal_limits0 [RegisterWait wait_draft0]" by (simp add: sample_registered)
  have v: "js_get (waits waiting_store0) (wait_key_of wait_draft0) = Some wait0" by (simp add: waiting_store0_def js_get_def)
  have w: "js_get (waits (run_ops (exec_signal signal_limits0) [RecordSignal signal_input0] waiting_store0)) (wait_key_of wait_draft0) =
      Some wait1"
    by (simp add: sample_recorded matched_store0_def js_get_def)
  have n: "wait1 \<noteq> wait0" using sample_matched(1) sample_folds(3) by auto
  have key: "waitKey wait0 = waitKey wait1" by (simp add: wait1_def)
  from settled_waits_final [OF signal_limits0_ok r v w key] n show ?thesis by blast
qed

lemma recorded_stored:
  assumes inv: "signal_inv (maxWaitMatchesPerSignal l) s" and run: "service_record l i s = (s', Inr (x, ids))"
  shows "\<exists>d. normalizeGameSignal i l = Inr d \<and> js_get (signals s') (signal_key_of d) = Some x \<and>
    canonical (signal_json d) = canonical (signal_json (signal_draft.truncate x))"
proof -
  obtain d where d: "normalizeGameSignal i l = Inr d" and r: "record_signal d (maxWaitMatchesPerSignal l) s = (s', Inr (x, ids))"
    using run by (auto simp: service_record_def commit_def split: sum.splits)
  show ?thesis
  proof (cases "js_get (signals s) (signal_key_of d)")
    case None
    then show ?thesis using record_new [OF inv normalizeGameSignal_ok [OF d] None refl] r d by auto
  next
    case (Some y)
    then show ?thesis using record_existing [OF inv Some] r d by (auto split: if_splits)
  qed
qed

lemma record_again:
  assumes inv: "signal_inv (maxWaitMatchesPerSignal l) s" and run: "service_record l i s = (s', Inr (x, ids))"
    and later: "u = run_ops (exec_signal l) ops s'" "stored_signal u x"
  shows "service_record l i u = (u, Inr (x, matchedWaitIds (signalKey x) u))"
proof -
  obtain d where d: "normalizeGameSignal i l = Inr d" "js_get (signals s') (signal_key_of d) = Some x"
      "canonical (signal_json d) = canonical (signal_json (signal_draft.truncate x))"
    using recorded_stored [OF inv run] by blast
  have s': "s' = exec_signal l (RecordSignal i) s" using run by simp
  have inv': "signal_inv (maxWaitMatchesPerSignal l) s'" unfolding s' by (rule exec_signal_advances(1) [OF inv])
  have inv_u: "signal_inv (maxWaitMatchesPerSignal l) u" unfolding later(1) by (rule run_signal_advances(1) [OF inv'])
  obtain k where k: "js_get (signals u) k = Some x" using later(2) by (auto simp: stored_signal_def)
  then have "k = signal_key_of d" using signal_invD(5) [OF inv_u k] signal_invD(5) [OF inv' d(2)] by simp
  then show ?thesis using record_existing [OF inv_u, of d x] k d by (simp add: service_record_def)
qed

text \<open>C31: recording a signal again, while it is stored and whatever calls ran since, answers with the same signal and the
  waits it matches by now, and leaves the store as it is.\<close>

theorem signal_recorded_once:
  assumes "validateSignalLimits l = Inr ()" and "service_record l i (signal_run l ops) = (s, Inr (x, ids))"
    and "u = run_ops (exec_signal l) ops' s" and "stored_signal u x"
  shows "service_record l i u = (u, Inr (x, matchedWaitIds (signalKey x) u))"
  by (rule record_again [OF signal_run_inv [OF assms(1)] assms(2-4)])

theorem signal_recorded_once_witness:
  "service_record signal_limits0 signal_input0 matched_store0 = (matched_store0, Inr (signal0, matchedWaitIds 1 matched_store0))"
proof -
  have "service_record signal_limits0 signal_input0 (signal_run signal_limits0 [RegisterWait wait_draft0]) =
      (matched_store0, Inr (signal0, [js ''r'']))"
    by (simp add: sample_registered sample_recorded)
  from signal_recorded_once [OF signal_limits0_ok this, of matched_store0 "[]"] show ?thesis
    by (simp add: signal_sample_stored sample_matched)
qed

end
