(* ===== verification/Signal_Evidence.thy ===== *)
theory Signal_Evidence
  imports Signal_Spec Goal_Spec
begin

text \<open>
  The class SignalWaitGoalEvidenceVerifier of packages/extensions/src/signal-service.ts: a goal step is completed on the
  evidence of a wait, and the verifier asks the signal service whether that wait was matched. It composes the signal
  service with the goal service.
\<close>

definition evidence_wait_key :: "goal_record \<Rightarrow> goal_evidence \<Rightarrow> signal_wait_key" where
  "evidence_wait_key g e = signal_generation.extend (generation_of (r_partition g)) (signal_wait_key.fields (referenceId e))"

definition matched_signal_key :: "signal_wait \<Rightarrow> nat \<Rightarrow> signal_sequence_key" where
  "matched_signal_key w n = signal_generation.extend (generation_of (waitPartition w)) (signal_sequence_key.fields (int n))"

definition evidence_wait_ok :: "goal_record \<Rightarrow> plan_step \<Rightarrow> signal_wait \<Rightarrow> bool" where
  "evidence_wait_ok g st w \<longleftrightarrow> waitStatus w = Matched \<and> waitTarget w = GoalStepTarget (r_goalId g) (stepId st) \<and>
     pt_sessionId (waitPartition w) = pt_sessionId (r_partition g) \<and> pt_actorId (waitPartition w) = pt_actorId (r_partition g)"

text \<open>The verifier awaits the wait and then the signal: \<open>waiting\<close> gives what other calls make of the store meanwhile, and
  \<open>aborted\<close> whether the signal of the request has aborted at each check.\<close>

definition validateSignalEvidence ::
  "(nat \<Rightarrow> bool) \<Rightarrow> (nat \<Rightarrow> signal_store \<Rightarrow> signal_store) \<Rightarrow> goal_record \<Rightarrow> plan_step \<Rightarrow> goal_evidence \<Rightarrow> game_time \<Rightarrow>
     signal_store \<Rightarrow> signal_store \<times> bool result" where
  "validateSignalEvidence aborted waiting g st e t s =
     commit s (throw_if_aborted (aborted 0)) (\<lambda>_.
     if evidenceKind e \<noteq> js ''signal_wait'' then (s, Inr False)
     else let s1 = waiting 0 s in
       commit s1 (service_get_wait (evidence_wait_key g e) s) (\<lambda>found.
       commit s1 (throw_if_aborted (aborted 1)) (\<lambda>_.
       case found of
         None \<Rightarrow> (s1, Inr False)
       | Some w \<Rightarrow>
           (case matchedSignalKey w of
              None \<Rightarrow> (s1, Inr False)
            | Some n \<Rightarrow>
                if \<not> evidence_wait_ok g st w then (s1, Inr False)
                else let s2 = waiting 1 s1 in
                  commit s2 (service_signal_by_key (matched_signal_key w n) s1) (\<lambda>matched.
                  commit s2 (throw_if_aborted (aborted 2)) (\<lambda>_.
                  (s2, case matched of
                         None \<Rightarrow> Inr False
                       | Some x \<Rightarrow>
                           and_then (signalWaitMatches w x)
                            (and_then (Inr (sameSignalGeneration (generation_of (signalPartition x)) (generation_of (r_partition g))))
                             (rbind (compareSignalTicks (tick (signalTime x)) (tick t)) (\<lambda>c. Inr (c \<le> 0)))))))))))"

section \<open>What accepted evidence shows\<close>

lemma and_then_True: "and_then a b = Inr True \<longleftrightarrow> a = Inr True \<and> b = Inr True"
  by (cases a) (auto simp: and_then_def split: if_splits)

lemma accepted_evidence:
  assumes "validateSignalEvidence aborted waiting g st e t s = (s', Inr True)"
  obtains w n x where "evidenceKind e = js ''signal_wait''" "getWait (evidence_wait_key g e) s = Some w" "evidence_wait_ok g st w"
    "matchedSignalKey w = Some n" "getSignalByKey (matched_signal_key w n) (waiting 0 s) = Some x" "signalWaitMatches w x = Inr True"
    "sameSignalGeneration (generation_of (signalPartition x)) (generation_of (r_partition g))"
    "is_decimal (tick (signalTime x))" "is_decimal (tick t)" "of_decimal (tick (signalTime x)) \<le> of_decimal (tick t)"
  using assms
  by (auto simp: validateSignalEvidence_def commit_def service_get_wait_def service_signal_by_key_def rbind_eq_Inr and_then_True
      compareSignalTicks_Inr Let_def split: sum.splits option.splits if_splits)

lemma getSignalByKey_stored: "getSignalByKey k s = Some x \<Longrightarrow> x \<in> set (js_values (signals s)) \<and> int (signalKey x) = sk_signalKey k"
  by (auto simp: getSignalByKey_def find_Some_iff)

lemma matched_signal_key_simps [simp]: "sk_signalKey (matched_signal_key w n) = int n"
  by (simp add: matched_signal_key_def signal_generation.extend_def signal_sequence_key.fields_def)

text \<open>The signal is the one the wait was matched with, and was recorded before the verifier was asked.\<close>

lemma evidence_signal:
  assumes inv: "signal_inv (maxWaitMatchesPerSignal l) s"
    and run: "validateSignalEvidence aborted waiting g st e t s = (s', Inr True)" and calls: "waiting 0 s = run_ops (exec_signal l) ops s"
  shows "\<exists>w x. evidenceKind e = js ''signal_wait'' \<and> getWait (evidence_wait_key g e) s = Some w \<and> evidence_wait_ok g st w \<and>
     first_match s w x \<and> matchedSignalKey w = Some (signalKey x) \<and>
     sameSignalGeneration (generation_of (signalPartition x)) (generation_of (r_partition g)) \<and>
     of_decimal (tick (signalTime x)) \<le> of_decimal (tick t)"
  using run
proof (rule accepted_evidence)
  fix w n x
  assume e: "evidenceKind e = js ''signal_wait''" and w: "getWait (evidence_wait_key g e) s = Some w" "evidence_wait_ok g st w"
    and n: "matchedSignalKey w = Some n" and x: "getSignalByKey (matched_signal_key w n) (waiting 0 s) = Some x"
    and same: "sameSignalGeneration (generation_of (signalPartition x)) (generation_of (r_partition g))"
      "of_decimal (tick (signalTime x)) \<le> of_decimal (tick t)"
  note later = run_signal_advances [OF inv, of ops, folded calls]
  have "match_state s w" using w(1) signal_invD(7) [OF inv] by (auto simp: getWait_def)
  from match_points [OF this n] obtain y where y: "n = signalKey y" "first_match s w y" by auto
  then obtain k where k: "js_get (signals s) k = Some y" by (auto simp: first_match_def stored_signal_def)
  obtain j where j: "js_get (signals (waiting 0 s)) j = Some x" and key: "signalKey x = n"
    using getSignalByKey_stored [OF x] set_js_values [OF signal_invD(3) [OF later(1)]] by auto
  have "signalKey x < nextSignalKey s" using signal_invD(5) [OF inv k] y(1) key by simp
  then have "js_get (signals s) j = Some x" using later(2) j unfolding signal_later_def by blast
  then have "j = k" using signal_invD(1) [OF inv] k y(1) key unfolding signals_filed_def by blast
  with k \<open>js_get (signals s) j = Some x\<close> have "x = y" by simp
  with e w n y same show ?thesis by blast
qed

lemma evidence_key: "waitMapKey (evidence_wait_key g e) (wk_waitId (evidence_wait_key g e)) = waitMapKey (generation_of (r_partition g)) (referenceId e)"
  by (simp add: evidence_wait_key_def waitMapKey_def signal_generation.extend_def signal_wait_key.fields_def)

lemma evidence_wait_id:
  assumes inv: "signal_inv m s" and w: "getWait (evidence_wait_key g e) s = Some w" and x: "first_match s w x"
    and same: "sameSignalGeneration (generation_of (signalPartition x)) (generation_of (r_partition g))"
  shows "waitId w = referenceId e"
proof -
  have "waitMapKey (generation_of (r_partition g)) (referenceId e) = wait_key_of w"
    using signal_invD(6) [OF inv] w by (simp add: getWait_def evidence_key)
  moreover have "sameSignalGeneration (generation_of (signalPartition x)) (generation_of (waitPartition w))"
    using x by (simp add: first_match_def wait_matches_def in_request_def)
  then have "generation_of (waitPartition w) = generation_of (r_partition g)"
    using same by (simp add: sameSignalGeneration_def generation_of_def)
  ultimately show ?thesis by (simp add: wait_key_of_def waitMapKey_def)
qed

section \<open>Goal steps on the evidence of a wait\<close>

text \<open>The verifier as the goal service calls it, on a signal store that other calls change meanwhile.\<close>

definition signal_verifier ::
  "(nat \<Rightarrow> bool) \<Rightarrow> (nat \<Rightarrow> signal_store \<Rightarrow> signal_store) \<Rightarrow> signal_store \<Rightarrow> goal_record \<Rightarrow> plan_step \<Rightarrow> goal_evidence \<Rightarrow> game_time \<Rightarrow>
     js_string option \<Rightarrow> bool result" where
  "signal_verifier aborted waiting u g st e t i = snd (validateSignalEvidence aborted waiting g st e t u)"

text \<open>C28: when the evidence of goals is verified by signal waits, the host is told that it advanced a goal step only on a wait that
  targets this very step of this goal, in its session and for its actor, and that is matched with its first matching signal, recorded in the
  goal's partition no later than the game time of the advance; other calls may do anything to the goal store, and run any
  operations on the signal store, while the verifier waits.\<close>

theorem goal_step_awaited_signal:
  assumes "goals_keyed l s"
    and "evidence_accepted env = signal_verifier aborted waiting u"
    and "validateSignalLimits m = Inr ()" and "u = signal_run m ops" and "waiting 0 u = run_ops (exec_signal m) ops' u"
    and "advanceFromHost l sha env q s = (s', Inr (HostResult Advanced r'))"
  shows "\<exists>w x. stored_wait u w \<and> waitId w = referenceId (h_evidence q) \<and> waitStatus w = Matched \<and>
     waitTarget w = GoalStepTarget (h_goalId q) (h_stepId q) \<and> pt_sessionId (waitPartition w) = pt_sessionId (h_partition q) \<and>
     pt_actorId (waitPartition w) = pt_actorId (h_partition q) \<and> matchedSignalKey w = Some (signalKey x) \<and> first_match u w x \<and>
     sameSignalGeneration (generation_of (signalPartition x)) (generation_of (h_partition q)) \<and>
     of_decimal (tick (signalTime x)) \<le> of_decimal (tick (h_gameTime q))"
proof -
  obtain r where r: "r_goalId r = h_goalId q" "r_partition r = h_partition q" "verified_advance env q r" "stored s r"
    using advance_write [OF assms(1,6)] by blast
  then obtain st where st: "stepId st = h_stepId q" "signal_verifier aborted waiting u r st (h_evidence q) (h_gameTime q) (Some (h_inputId q)) = Inr True"
    by (auto simp: verified_advance_def assms(2))
  then obtain u' where "validateSignalEvidence aborted waiting r st (h_evidence q) (h_gameTime q) u = (u', Inr True)"
    by (metis signal_verifier_def prod.collapse)
  from evidence_signal [OF signal_run_inv [OF assms(3)] this [unfolded assms(4)] assms(5) [unfolded assms(4)]]
  obtain w x where w: "getWait (evidence_wait_key r (h_evidence q)) u = Some w" "evidence_wait_ok r st w" "first_match u w x"
      "matchedSignalKey w = Some (signalKey x)" "sameSignalGeneration (generation_of (signalPartition x)) (generation_of (r_partition r))"
      "of_decimal (tick (signalTime x)) \<le> of_decimal (tick (h_gameTime q))"
    unfolding assms(4) by blast
  have "stored_wait u w" using w(1) by (auto simp: getWait_def stored_wait_def)
  moreover have "waitId w = referenceId (h_evidence q)"
    using evidence_wait_id [OF signal_run_inv [OF assms(3)]] w unfolding assms(4) by blast
  ultimately show ?thesis using w r(1,2) st(1) by (auto simp: evidence_wait_ok_def)
qed

lemma sample_verified:
  "signal_verifier (\<lambda>n. False) (\<lambda>n s. s) matched_store0 goal0 step0 evidence0 time0 (Some (js ''k'')) = Inr True"
proof -
  have g: "partition0 = signal_partition0" "r_partition goal0 = signal_partition0" "r_goalId goal0 = js ''c''"
    by (simp_all add: goal0_def new_goal_def draft0_def partition0_def signal_partition0_def)
  have w: "getWait (evidence_wait_key goal0 evidence0) matched_store0 = Some wait1"
    by (simp add: getWait_def evidence_key g evidence0_def matched_store0_def js_get_def wait_key_of_def wait_draft0_def)
  have ok: "validateSignalWaitKey (evidence_wait_key goal0 evidence0) = Inr ()"
    by (simp add: validateSignalWaitKey_def validate_generation_def evidence_wait_key_def g evidence0_def signal_generation.extend_def
        signal_wait_key.fields_def generation_of_def signal_partition0_def assertOpaqueIdentifier_def)
  have f: "evidence_wait_ok goal0 step0 wait1" "waitPartition wait1 = signal_partition0" "signalPartition signal0 = signal_partition0"
      "tick (signalTime signal0) = js ''0''"
    by (simp_all add: evidence_wait_ok_def g wait1_def matched_record_def wait0_def wait_of_def signal_wait_draft.defs signal_wait.defs
        wait_draft0_def step0_def signal0_def signal_of_def signal_draft.defs signal_record.defs signal_draft0_def)
  have x: "getSignalByKey (matched_signal_key wait1 1) matched_store0 = Some signal0"
    by (simp add: getSignalByKey_def matched_store0_def js_values_def sample_matched f matched_signal_key_def signal_generation.extend_def
        signal_sequence_key.fields_def sameSignalGeneration_def generation_of_def)
  have k: "validateGameSignalSequenceKey (matched_signal_key wait1 1) = Inr ()"
    by (simp add: validateGameSignalSequenceKey_def validate_generation_def matched_signal_key_def f signal_generation.extend_def
        signal_sequence_key.fields_def generation_of_def signal_partition0_def assertOpaqueIdentifier_def validatePositiveSignalKey_def)
  have m: "signalWaitMatches wait1 signal0 = Inr True"
    by (simp add: signalWaitMatches_def f wait1_def matched_record_def wait0_def wait_of_def signal_wait_draft.defs signal_wait.defs
        signal0_def signal_of_def signal_draft.defs signal_record.defs wait_draft0_def signal_draft0_def sameSignalGeneration_def)
  have c: "compareSignalTicks (js ''0'') (tick time0) = Inr 0" by (simp add: compareSignalTicks_Inr time0_def)
  show ?thesis
    by (simp add: signal_verifier_def validateSignalEvidence_def throw_if_aborted_def service_get_wait_def service_signal_by_key_def
        ok w f x [unfolded One_nat_def] k [unfolded One_nat_def] m c g sample_matched sameSignalGeneration_def) (simp add: evidence0_def)
qed

theorem goal_step_awaited_signal_witness: "waitStatus wait1 = Matched \<and> first_match matched_store0 wait1 signal0"
proof -
  have u: "matched_store0 = signal_run signal_limits0 sample_ops" by (simp only: signal_sample_run)
  have e: "evidence_accepted (judging_env (signal_verifier (\<lambda>n. False) (\<lambda>n s. s) matched_store0)) =
      signal_verifier (\<lambda>n. False) (\<lambda>n s. s) matched_store0" by simp
  have n: "(\<lambda>n s. s) 0 matched_store0 = run_ops (exec_signal signal_limits0) [] matched_store0" by simp
  from goal_step_awaited_signal [OF goal_store0_keyed e signal_limits0_ok u n sample_judged_advance
      [where f = "signal_verifier (\<lambda>n. False) (\<lambda>n s. s) matched_store0", OF sample_verified]]
  obtain w x where "stored_wait matched_store0 w" "waitStatus w = Matched" "first_match matched_store0 w x" by auto
  moreover from this have "w = wait1" by (auto simp: stored_wait_def matched_store0_def js_get_def split: if_splits)
  moreover have "x = signal0" using \<open>first_match matched_store0 w x\<close> by (simp add: first_match_def signal_sample_stored)
  ultimately show ?thesis by simp
qed

end
