(* ===== verification/Spec2Isabelle.thy ===== *)
theory Spec2Isabelle
  imports Json_Admission Action_Delivery Approval_Store Mailbox_Spec Run_Fence Goal_Race Goal_Fence Png_Spec
    Tool_Repeat_Spec Signal_Evidence
begin

text \<open>
  A model of the core of OpenGameAgent (TypeScript, packages/*/src) and its correctness theorems.

  \<^bold>\<open>The program.\<close> A runtime for AI-driven game characters. The agent loop only proposes: world
  changes are actions that pass through a journal, sensitive actions through approvals, and
  everything durable is canonical JSON. The model covers the parts whose contracts everything
  else leans on.

  \<^bold>\<open>Layout.\<close>
  \<^item> Prelude: thrown errors as values of a sum, JavaScript strings as lists of 16-bit code units, safe
    integers, canonical decimals and the BigInt arithmetic done on them.
  \<^item> Js_Map: the JavaScript Map as an insertion-ordered association list; the interface
    \<open>keyed_store\<close> and its interpretation \<open>jm\<close>.
  \<^item> Json, Json_Canonical, Json_Admission, Json_Embed (protocol/src/json.ts): admission of values within
    depth and byte budgets with the explicit stacks of the source, the byte counter, the canonical
    serialiser; they equal recursive specifications, and canonical texts identify values up to key order.
  \<^item> Protocol (schema.ts, event-store.ts, retention.ts): identifiers, timestamps, coordinates,
    revisions, protected-identifier lists. Samples: concrete data for the witnesses.
  \<^item> Action_Types, Action_Identity, Action_Transitions (types.ts, identity.ts, goal-projection.ts,
    validation.ts, transitions.ts of packages/actions/src): the record of an action, its fingerprints, its
    well-formedness check and its seven transitions. Action_Lifecycle: the transitions as step relations
    and what every run of a record satisfies.
  \<^item> Action_Journal (in-memory-journal.ts, run-authority.ts): the journal's operations on its state.
    Action_Journal_Inv: its invariant and that every operation keeps it. Action_Delivery: reachable journals.
  \<^item> Machine: the interfaces \<open>invariant_machine\<close> (operations that keep an invariant; interpreted for the
    journal as \<open>jr\<close>, the approval store as \<open>approvals\<close> and \<open>unpurged\<close>, the mailbox as \<open>mailbox_ops\<close>) and
    \<open>revision_cas\<close> (compare-and-set on a revision; interpreted as \<open>approval_cas\<close> and \<open>event_cas\<close>).
  \<^item> Action_Approvals (approvals.ts): policies, requests, records, transitions and the in-memory store.
    Approval_Facts, Approval_Store: what they guarantee.
  \<^item> Run_Authority (run-authority.ts, schema.ts): the keys that scope admitted runs and delegated work and the
    requests that close an authority.
  \<^item> Mailbox, Mailbox_Store (mailbox-types.ts, mailbox-validation.ts, in-memory-mailbox-store.ts of
    packages/extensions/src): messages for a recipient, their leases, completion, cancellation and retirement.
    Mailbox_Inv states the invariant of the store; Mailbox_Ops, Mailbox_Claims show that every operation keeps
    it; Mailbox_Run defines the runs of the store, Mailbox_Spec states what it promises, over
    the data of Mailbox_Samples.
  \<^item> Protocol_Events (schema.ts): the canonical events and their schema. Event_Store (runtime/src/in-memory-event-store.ts):
    the append-only streams, the closed authorities, page reads, the record of a run and purges. Event_Inv,
    Event_Run: its invariant, the order of its states and its runs. Event_Spec: what it promises, over the
    data of Event_Samples.
  \<^item> Run_Fence: the journal and the event store composed, the second answering the first whether a run is open.
  \<^item> Goal, Goal_Store, Goal_Service (goal-types.ts, goal-validation.ts, in-memory-goal-store.ts, goal-service.ts of
    packages/extensions/src): goals with plans of steps and evidence, the checks on them, the store and the service.
    Goal_Facts: what the checks establish. Goal_Inv: the invariant \<open>goal_inv\<close>, the atomic steps \<open>goal_step\<close> that
    specify the service and the order of the states they reach; Goal_Steps: the steps keep the invariant and the order.
    Goal_Rely: what every sequence of operations of the store keeps, and the rely conditions of the calls. Goal_Refine,
    Goal_Calls: every call of the service makes at most one write of its own, on a goal it judged; the locale
    \<open>shared_goals\<close> states what a call needs of the calls that run at its awaits and is interpreted on any operations of
    the store (\<open>free\<close>) and on steps of the specification (\<open>calm\<close>).
    Goal_Bounds: the byte limits on texts. Goal_Spec: what the service promises, over the data of Goal_Samples;
    \<open>gm\<close> interprets \<open>invariant_machine\<close> on its calls. Goal_Race: a run in which a call is overtaken.
  \<^item> Goal_Fence: the event store and the goal store composed, the first retiring goals in the second when it
    closes the authority of a run.
  \<^item> Signal, Signal_Store (signal-types.ts, signal-validation.ts, in-memory-signal-store.ts, signal-service.ts of
    packages/extensions/src): signals of the game, waits for them and the first signal that matches a wait. Signal_Facts,
    Signal_Inv, Signal_Run: what the checks establish, the invariant and order of the store, its runs. Signal_Spec: what the
    store promises. Signal_Evidence: waits as evidence of goal steps, with the goal service above them.
  \<^item> Png (packages/png/src/png.ts): the inspection of a PNG file and of its animation. Png_Format: the grammar of
    the chunks it accepts, written independently. Png_Spec: the two agree.
  \<^item> Tool_Repeat (packages/agent/src/exact-tool-repeat.ts): the tracker of repeated tool calls. Tool_Repeat_Spec: its
    verdicts against a log of the calls, and the binary search for exempt tools.

  \<^bold>\<open>Conventions.\<close> An operation that the code runs under a mutex or without awaiting is one function from the
  state to the state it leaves and what it returns (\<open>Inr\<close>) or throws (\<open>Inl\<close>); writes made before a throw
  stay. Cloning and freezing of results has no counterpart, since values here are immutable. Values the
  code types as \<open>unknown\<close> only to check them are modelled at their declared type, except where the check is
  the subject (Json). SHA-256 is an argument, the lower-case hex digest of a string; a property that
  needs it injective says so. Run authority checks are arguments too.

  \<^bold>\<open>Callbacks.\<close> The token source of the mailbox, and the clock and identifier source of the event store, are
  functions the caller supplies and the code calls in the middle of an operation. They are arguments that
  take the store and return the store they leave, so an operation resumes on whatever the callback did. The
  runs \<open>mailbox_run\<close> and \<open>event_run\<close> are inductive: a callback may itself be any run of the store. The goal binding of
  the event store retires goals elsewhere and only returns or throws.

  \<^bold>\<open>Awaits.\<close> A call of the goal service reads and writes the store at single instants and awaits verifiers between
  them. Its environment \<open>goal_env\<close> says what other calls make of the store at each await and when the caller aborts.
  The theorems on single calls let the others do anything the store allows: \<open>others_write\<close>, any sequence of its operations
  (\<open>calls_at_awaits\<close>: so also any calls of the service), or any relation that satisfies \<open>rely\<close>. The store compares
  revisions only, so a call may write over another goal when the goal it read was purged and created again meanwhile and
  has come to the same revision: \<open>overtaken\<close>, with an example in Goal_Race. The invariant of the store and the history of
  goals over runs of calls are about runs in which this does not happen: \<open>calm\<close> lets the others take steps of the
  specification and asks that the goal a call works on is not purged while the call runs.

  \<^bold>\<open>Termination.\<close> Every loop is a recursive function with a termination proof; there is no fuel.

  \<^bold>\<open>Not modelled.\<close> Schedules, evolution and interactions (further stores of the same make), the bounded event queue,
  the SQLite stores (SQL statements around the same record functions), the HTTP client and server, provider adapters, the
  agent loop and its third-party SDK, audio and image processing beyond the inspection of PNG files, file-system stores,
  engine clients and build tooling.
\<close>

end
